(* ===== verification/Prelude.thy ===== *)
theory Prelude
  imports Complex_Main "HOL-Library.Multiset" "HOL-Library.Word"
begin

text \<open>
  The library shared by every component: the collections of simplification facts the
  component proofs use, the names of the machine types of the sources, and generic lemmas
  on lists, sorted insertion and measures.

  C++ types are named once here. A \<open>std::uint64_t\<close> whose wrap-around matters is a
  \<open>64 word\<close>. Epoch seconds (\<open>std::int64_t\<close>) and day counts are \<open>int\<close>: the
  program only handles instants of years 1990 to 2100 and the durations it adds to them are
  below a few years, far from the 64-bit limits. Vector indices and counters are \<open>nat\<close>.
\<close>

named_theorems model_defs "definitions a component proof unfolds together"
named_theorems frame_simps "fields that an operation leaves alone"

type_synonym u8 = "8 word"
type_synonym u32 = "32 word"
type_synonym u64 = "64 word"
type_synonym u128 = "128 word"
type_synonym i64 = int

text \<open>
  Exceptions of the sources are values: the message is kept, because the callers print it.
  \<open>Unmodelled\<close> is not an exception: it marks an execution whose values the model cannot name,
  such as an enum read from a byte that no enumerator has.
\<close>

datatype cxx_error =
    InvalidArgument string
  | OutOfRange string
  | LogicError string
  | RuntimeError string
  | Unmodelled string

type_synonym 'a result = "cxx_error + 'a"

subsection \<open>Seconds (primitives/time/constants.hpp)\<close>

definition seconds_per_minute :: i64 where "seconds_per_minute = 60"
definition seconds_per_hour :: i64 where "seconds_per_hour = 3600"
definition seconds_per_day :: i64 where "seconds_per_day = 86400"

definition seconds_in_day :: "i64 \<Rightarrow> i64 \<Rightarrow> i64 \<Rightarrow> i64" where
  "seconds_in_day h m s = h * seconds_per_hour + m * seconds_per_minute + s"

subsection \<open>Lists\<close>

lemma sum_list_insort_key [simp]:
  "sum_list (map f (insort_key k x xs)) = f x + (sum_list (map f xs) :: nat)"
  by (induction xs) auto

lemma insort_key_not_Nil [simp]: "insort_key k x xs \<noteq> []"
  by (induction xs) auto

lemma filter_upt_sorted: "sorted (filter P [0..<n])"
  by (simp add: sorted_wrt_filter)

lemma filter_upt_distinct: "distinct (filter P [0..<n])"
  by simp

lemma sorted_distinct_eq_filter_upt:
  assumes "sorted xs" "distinct xs" "set xs = {i. i < n \<and> P i}"
  shows "xs = filter P [0..<n]"
proof -
  have "set xs = set (filter P [0..<n])" using assms(3) by auto
  with assms(1,2) show ?thesis
    by (rule sorted_distinct_set_unique [OF _ _ filter_upt_sorted filter_upt_distinct])
qed

end
