(* ===== verification/Lookup.thy ===== *)
theory Lookup
  imports Prelude "HOL-Library.Char_ord" "HOL-Library.List_Lexorder"
begin

text \<open>
  \<open>taxonomies/lookup.hpp\<close>: the compile-time name tables every enumeration is printed
  and parsed with. An entry is a pair of a name and a value. A \<open>std::string_view\<close> is a
  \<open>string\<close> (a list of bytes), compared lexicographically as \<open>std::string_view\<close> does.

  The two \<open>consteval\<close> functions that refuse a malformed table return the text they
  throw, so that a table of the program is validated by evaluating the check.
\<close>

type_synonym 'v entry = "string \<times> 'v"

subsection \<open>sorted: insertion sort by name\<close>

text \<open>
  The inner loop moves the new entry left past every larger name. The prefix is kept
  reversed, so its head is the entry at \<open>cursor - 1\<close>.
\<close>

fun sift :: "'v entry \<Rightarrow> 'v entry list \<Rightarrow> 'v entry list" where
  "sift key [] = [key]"
| "sift key (x # rev_prefix) =
     (if fst key < fst x then x # sift key rev_prefix else key # x # rev_prefix)"

definition sorted_entries :: "'v entry list \<Rightarrow> 'v entry list" where
  "sorted_entries es = rev (foldl (\<lambda>rev_prefix key. sift key rev_prefix) [] es)"

lemma mset_sift: "mset (sift k xs) = add_mset k (mset xs)"
  by (induction k xs rule: sift.induct) auto

lemma set_sift [simp]: "set (sift k xs) = insert k (set xs)"
  using mset_sift [of k xs] by (metis set_mset_add_mset_insert set_mset_mset)

lemma sift_sorted:
  "sorted_wrt (\<lambda>a b. fst b \<le> fst a) xs \<Longrightarrow> sorted_wrt (\<lambda>a b. fst b \<le> fst a) (sift k xs)"
  by (induction k xs rule: sift.induct) (auto simp: not_less)

lemma foldl_sift:
  "mset (foldl (\<lambda>r k. sift k r) acc es) = mset acc + mset es"
  "sorted_wrt (\<lambda>a b. fst b \<le> fst a) acc \<Longrightarrow>
     sorted_wrt (\<lambda>a b. fst b \<le> fst a) (foldl (\<lambda>r k. sift k r) acc es)"
  by (induction es arbitrary: acc) (auto simp: mset_sift sift_sorted)

lemma mset_sorted_entries [simp]: "mset (sorted_entries es) = mset es"
  by (simp add: sorted_entries_def foldl_sift)

lemma set_sorted_entries [simp]: "set (sorted_entries es) = set es"
  using mset_sorted_entries [of es] by (metis set_mset_mset)

lemma sorted_sorted_entries: "sorted (map fst (sorted_entries es))"
  unfolding sorted_entries_def sorted_map sorted_wrt_rev by (simp add: foldl_sift)

subsection \<open>requireUniqueNames\<close>

fun require_order :: "'v entry list \<Rightarrow> unit result" where
  "require_order (a # b # es) =
     (if fst b < fst a then Inl (RuntimeError ''lookup table must be sorted before validation'')
      else if fst a = fst b then Inl (RuntimeError ''duplicate name in lookup table'')
      else require_order (b # es))"
| "require_order _ = Inr ()"

definition require_unique_names :: "'v entry list \<Rightarrow> unit result" where
  "require_unique_names es =
     (if \<exists>e \<in> set es. fst e = [] then Inl (RuntimeError ''empty name in lookup table'')
      else require_order es)"

lemma require_order_sound:
  "require_order es = Inr () \<Longrightarrow> sorted_wrt (<) (map fst es)"
proof (induction es rule: require_order.induct)
  case (1 a b es)
  then have "fst a < fst b" and "sorted_wrt (<) (map fst (b # es))"
    by (auto split: if_splits)
  then show ?case by (auto dest: less_trans)
qed auto

lemma require_order_complete:
  "sorted (map fst es) \<Longrightarrow> distinct (map fst es) \<Longrightarrow> require_order es = Inr ()"
  by (induction es rule: require_order.induct) (auto simp: not_less)

lemma require_unique_names_complete:
  "sorted (map fst es) \<Longrightarrow> distinct (map fst es) \<Longrightarrow> [] \<notin> fst ` set es \<Longrightarrow>
     require_unique_names es = Inr ()"
  by (force simp: require_unique_names_def require_order_complete)

subsection \<open>find: binary search\<close>

function find_between :: "'v entry list \<Rightarrow> string \<Rightarrow> nat \<Rightarrow> nat \<Rightarrow> 'v option" where
  "find_between es name low high =
     (if low < high then
        let middle = low + (high - low) div 2 in
        if fst (es ! middle) < name then find_between es name (middle + 1) high
        else if name < fst (es ! middle) then find_between es name low middle
        else Some (snd (es ! middle))
      else None)"
  by pat_completeness auto
termination
  by (relation "measure (\<lambda>(es, name, low, high). high - low)") (auto simp: Let_def)

declare find_between.simps [simp del]

definition find_entry :: "'v entry list \<Rightarrow> string \<Rightarrow> 'v option" where
  "find_entry es name = find_between es name 0 (length es)"

lemma find_between_sound:
  assumes "high \<le> length es" "find_between es name low high = Some v"
  shows "(name, v) \<in> set es"
  using assms
proof (induction es name low high rule: find_between.induct)
  case (1 es name low high)
  let ?m = "low + (high - low) div 2"
  from "1.prems"(2) have lh: "low < high"
    by (subst (asm) find_between.simps) (simp split: if_splits)
  then have m: "?m < length es" using "1.prems"(1) by linarith
  consider "fst (es ! ?m) < name" | "name < fst (es ! ?m)" | "fst (es ! ?m) = name"
    by (metis linorder_cases)
  then show ?case
  proof cases
    case 1
    with "1.prems" lh have "find_between es name (?m + 1) high = Some v"
      by (subst (asm) find_between.simps) (simp add: Let_def)
    with "1.IH"(1) [OF lh refl 1] "1.prems"(1) show ?thesis by blast
  next
    case 2
    with "1.prems" lh have "find_between es name low ?m = Some v"
      by (subst (asm) find_between.simps) (simp add: Let_def less_not_sym [OF 2])
    with "1.IH"(2) [OF lh refl _ 2] 2 m show ?thesis by (simp add: less_imp_le)
  next
    case 3
    with "1.prems" lh have "v = snd (es ! ?m)"
      by (subst (asm) find_between.simps) (simp add: Let_def)
    with 3 m show ?thesis by (metis nth_mem prod.collapse)
  qed
qed

lemma find_between_complete:
  assumes "sorted_wrt (<) (map fst es)" "high \<le> length es" "low \<le> i" "i < high"
    "fst (es ! i) = name"
  shows "find_between es name low high = Some (snd (es ! i))"
  using assms
proof (induction es name low high rule: find_between.induct)
  case (1 es name low high)
  let ?m = "low + (high - low) div 2"
  have lh: "low < high" using "1.prems" by simp
  then have m: "?m < length es" "?m < high" using "1.prems"(2) by linarith+
  have i: "i < length es" using "1.prems" by simp
  have ord: "fst (es ! a) < fst (es ! b)" if "a < b" "b < length es" for a b
    using "1.prems"(1) that by (auto simp: sorted_wrt_iff_nth_less)
  consider "?m < i" | "i < ?m" | "i = ?m" by linarith
  then show ?case
  proof cases
    case 1
    then have lt: "fst (es ! ?m) < name" using ord [of ?m i] i "1.prems"(5) by simp
    have "find_between es name (?m + 1) high = Some (snd (es ! i))"
      using "1.IH"(1) [OF lh refl lt] "1.prems" 1 by simp
    then show ?thesis using lh lt by (subst find_between.simps) (simp add: Let_def)
  next
    case 2
    then have lt: "name < fst (es ! ?m)" using ord [of i ?m] m "1.prems"(5) by simp
    have "find_between es name low ?m = Some (snd (es ! i))"
      using "1.IH"(2) [OF lh refl less_not_sym [OF lt] lt] "1.prems" 2 m by simp
    then show ?thesis using lh lt by (subst find_between.simps) (simp add: Let_def less_not_sym)
  next
    case 3
    then show ?thesis using lh "1.prems"(5) by (subst find_between.simps) (simp add: Let_def)
  qed
qed

text \<open>On a validated table the binary search is the lookup of the entry list.\<close>

lemma find_entry_iff:
  assumes "sorted_wrt (<) (map fst es)"
  shows "find_entry es name = Some v \<longleftrightarrow> (name, v) \<in> set es"
proof
  assume "find_entry es name = Some v"
  then show "(name, v) \<in> set es" unfolding find_entry_def by (rule find_between_sound [OF order_refl])
next
  assume "(name, v) \<in> set es"
  then obtain i where "i < length es" "es ! i = (name, v)" by (auto simp: in_set_conv_nth)
  then show "find_entry es name = Some v"
    using find_between_complete [OF assms order_refl, of 0 i name] by (simp add: find_entry_def)
qed

lemma find_sorted_entries_iff:
  assumes "distinct (map fst es)"
  shows "find_entry (sorted_entries es) name = Some v \<longleftrightarrow> (name, v) \<in> set es"
proof -
  have "distinct (map fst (sorted_entries es))"
    using assms by (metis mset_map mset_sorted_entries mset_eq_imp_distinct_iff)
  then have "sorted_wrt (<) (map fst (sorted_entries es))"
    using sorted_sorted_entries [of es] by (simp add: strict_sorted_iff)
  then show ?thesis by (simp add: find_entry_iff)
qed

subsection \<open>reverseTable and presenceTable\<close>

fun reverse_fill :: "('v \<Rightarrow> nat) \<Rightarrow> string list \<Rightarrow> 'v entry list \<Rightarrow> string list result" where
  "reverse_fill index_of out [] = Inr out"
| "reverse_fill index_of out ((n, v) # es) =
     (if length out \<le> index_of v then Inl (RuntimeError ''reverse-table slot out of range'')
      else if out ! index_of v \<noteq> [] then Inl (RuntimeError ''duplicate reverse-table slot'')
      else reverse_fill index_of (out[index_of v := n]) es)"

definition reverse_table :: "nat \<Rightarrow> ('v \<Rightarrow> nat) \<Rightarrow> 'v entry list \<Rightarrow> string list result" where
  "reverse_table index_count index_of es = reverse_fill index_of (replicate index_count []) es"

definition reverse_table_dense ::
    "nat \<Rightarrow> ('v \<Rightarrow> nat) \<Rightarrow> 'v entry list \<Rightarrow> string list result" where
  "reverse_table_dense index_count index_of es =
     (case reverse_table index_count index_of es of
        Inl e \<Rightarrow> Inl e
      | Inr out \<Rightarrow> if [] \<in> set out then Inl (RuntimeError ''missing reverse-table slot'') else Inr out)"

fun presence_fill :: "('v \<Rightarrow> nat) \<Rightarrow> bool list \<Rightarrow> 'v entry list \<Rightarrow> bool list result" where
  "presence_fill index_of out [] = Inr out"
| "presence_fill index_of out ((n, v) # es) =
     (if length out \<le> index_of v then Inl (RuntimeError ''presence-table slot out of range'')
      else presence_fill index_of (out[index_of v := True]) es)"

definition presence_table :: "nat \<Rightarrow> ('v \<Rightarrow> nat) \<Rightarrow> 'v entry list \<Rightarrow> bool list result" where
  "presence_table index_count index_of es =
     presence_fill index_of (replicate index_count False) es"

lemma presence_fill_ok:
  "\<forall>e \<in> set es. index_of (snd e) < length out \<Longrightarrow>
   \<exists>tab. presence_fill index_of out es = Inr tab \<and> length tab = length out \<and>
     (\<forall>i < length out. tab ! i \<longleftrightarrow> out ! i \<or> i \<in> index_of ` snd ` set es)"
proof (induction index_of out es rule: presence_fill.induct)
  case (2 index_of out n v es)
  then obtain tab where "presence_fill index_of (out[index_of v := True]) es = Inr tab"
    "length tab = length out"
    "\<forall>i < length out. tab ! i \<longleftrightarrow> out[index_of v := True] ! i \<or> i \<in> index_of ` snd ` set es"
    by fastforce
  then show ?case using "2.prems" by (auto simp: nth_list_update)
qed auto

lemma reverse_fill_ok:
  assumes "\<forall>e \<in> set es. index_of (snd e) < length out" "[] \<notin> fst ` set es"
    "distinct (map (index_of \<circ> snd) es)" "\<forall>e \<in> set es. out ! index_of (snd e) = []"
  shows "\<exists>tab. reverse_fill index_of out es = Inr tab \<and> length tab = length out \<and>
     (\<forall>(n, v) \<in> set es. tab ! index_of v = n) \<and>
     (\<forall>i < length out. i \<notin> index_of ` snd ` set es \<longrightarrow> tab ! i = out ! i)"
  using assms
proof (induction index_of out es rule: reverse_fill.induct)
  case (2 index_of out n v es)
  have ne: "index_of (snd e) \<noteq> index_of v" if "e \<in> set es" for e
    using "2.prems"(3) that by (auto simp: image_iff)
  have v: "index_of v < length out" "out ! index_of v = []" "n \<noteq> []"
    using "2.prems" by auto
  have "\<exists>tab. reverse_fill index_of (out[index_of v := n]) es = Inr tab \<and>
      length tab = length (out[index_of v := n]) \<and> (\<forall>(n, v) \<in> set es. tab ! index_of v = n) \<and>
      (\<forall>i < length (out[index_of v := n]). i \<notin> index_of ` snd ` set es \<longrightarrow>
         tab ! i = out[index_of v := n] ! i)"
  proof (rule "2.IH")
    show "\<not> length out \<le> index_of v" using v by simp
    show "\<not> out ! index_of v \<noteq> []" using v by simp
    show "distinct (map (index_of \<circ> snd) es)" using "2.prems" by (simp add: comp_def)
    show "[] \<notin> fst ` set es" using "2.prems" by auto
    show "\<forall>e \<in> set es. index_of (snd e) < length (out[index_of v := n])" using "2.prems" by auto
    show "\<forall>e \<in> set es. out[index_of v := n] ! index_of (snd e) = []"
    proof
      fix e assume e: "e \<in> set es"
      have "out ! index_of (snd e) = []" using "2.prems"(4) e by simp
      then show "out[index_of v := n] ! index_of (snd e) = []"
        using ne [OF e] by simp
    qed
  qed
  then obtain tab where t: "reverse_fill index_of (out[index_of v := n]) es = Inr tab"
    "length tab = length out" "\<forall>(n, v) \<in> set es. tab ! index_of v = n"
    "\<forall>i < length out. i \<notin> index_of ` snd ` set es \<longrightarrow> tab ! i = out[index_of v := n] ! i"
    by auto
  have vn: "index_of v \<notin> index_of ` snd ` set es" using ne by fastforce
  have "tab ! index_of v = n" using t(4) vn v by simp
  then show ?case using t v by (intro exI [of _ tab]) auto
qed auto

end
