(* ===== verification/F64.thy ===== *)
theory F64
  imports Prelude
begin

text \<open>
  The C++ type \<open>double\<close>. The sources compute money, interest and probabilities in IEEE
  binary64 with the default rounding mode, so the model does the same: a value is an exact
  rational or one of the three special values, and every operation is the exact rational
  operation followed by rounding to nearest, ties to even, with 53 significant bits and the
  subnormal threshold \<open>2 powi (-1074)\<close>. The sign of a zero is not modelled: nothing the
  sources do with a zero (comparing it, adding it, multiplying it) can tell the two zeros
  apart, and no divisor of the modelled code is zero.

  The lemmas show that rounding is monotone, exact on the representable numbers and
  idempotent, which is what the bounds on balances rest on.
\<close>

subsection \<open>Rounding a rational to binary64 precision\<close>

function bit_len :: "int \<Rightarrow> int" where
  "bit_len n = (if n \<le> 0 then 0 else 1 + bit_len (n div 2))"
  by pat_completeness auto
termination
  by (relation "measure nat") auto

declare bit_len.simps [simp del]

definition ilog2 :: "rat \<Rightarrow> int" where
  "ilog2 x = (if 1 \<le> x then bit_len \<lfloor>x\<rfloor> - 1 else - bit_len (\<lceil>1 / x\<rceil> - 1))"

definition round_half_even :: "rat \<Rightarrow> int" where
  "round_half_even x = (let f = \<lfloor>x\<rfloor>; d = x - of_int f in
     if d < 1 / 2 then f else if 1 / 2 < d then f + 1
     else if even f then f else f + 1)"

definition ulp_exp :: "rat \<Rightarrow> int" where
  "ulp_exp x = max (ilog2 \<bar>x\<bar> - 52) (- 1074)"

definition rnd :: "rat \<Rightarrow> rat" where
  "rnd x = (if x = 0 then 0
            else of_int (round_half_even (x / 2 powi ulp_exp x)) * 2 powi ulp_exp x)"

lemma powi_2_mult: "(2::rat) powi x * 2 powi y = 2 powi (x + y)"
  by (simp add: power_int_add)

lemma powi_nat: "0 \<le> k \<Longrightarrow> (of_int (2 ^ nat k) :: rat) = 2 powi k"
  by (simp add: power_int_def)

lemma powi_2_mono: "x \<le> y \<Longrightarrow> (2::rat) powi x \<le> 2 powi y"
  by (rule power_int_increasing) auto

lemma bit_len_numeral [simp]:
  "bit_len 0 = 0" "bit_len 1 = 1"
  "bit_len (numeral (Num.Bit0 k)) = 1 + bit_len (numeral k)"
  "bit_len (numeral (Num.Bit1 k)) = 1 + bit_len (numeral k)"
  by (subst bit_len.simps; simp add: bit_len.simps [of 0])+

lemma bit_len_nonneg: "0 \<le> bit_len n"
  by (induction n rule: bit_len.induct) (subst bit_len.simps, simp)

lemma bit_len_pos: "0 < n \<Longrightarrow> 1 \<le> bit_len n"
  using bit_len_nonneg [of "n div 2"] by (subst bit_len.simps) simp

lemma bit_len_upper: "(of_int n :: rat) < 2 powi bit_len n"
proof (induction n rule: bit_len.induct)
  case (1 n)
  show ?case
  proof (cases "n \<le> 0")
    case True
    then have "(of_int n :: rat) \<le> 0" by simp
    moreover have "(0::rat) < 2 powi bit_len n" by simp
    ultimately show ?thesis by linarith
  next
    case False
    then have "(of_int (n div 2) :: rat) < 2 powi bit_len (n div 2)" using 1 by simp
    then have "of_int (n div 2) < (of_int (2 ^ nat (bit_len (n div 2))) :: rat)"
      unfolding powi_nat [OF bit_len_nonneg] .
    then have "n div 2 < 2 ^ nat (bit_len (n div 2))" unfolding of_int_less_iff .
    then have "n < 2 ^ nat (1 + bit_len (n div 2))"
      using bit_len_nonneg [of "n div 2"] by (simp add: nat_add_distrib)
    then have "n < 2 ^ nat (bit_len n)" using False by (subst bit_len.simps) simp
    then have "(of_int n :: rat) < of_int (2 ^ nat (bit_len n))" unfolding of_int_less_iff .
    then show ?thesis by (simp only: powi_nat [OF bit_len_nonneg])
  qed
qed

lemma bit_len_lower: "0 < n \<Longrightarrow> (2::rat) powi (bit_len n - 1) \<le> of_int n"
proof (induction n rule: bit_len.induct)
  case (1 n)
  have b: "bit_len n = 1 + bit_len (n div 2)" using 1(2) by (subst bit_len.simps) simp
  show ?case
  proof (cases "n = 1")
    case False
    then have "(2::rat) powi (bit_len (n div 2) - 1) \<le> of_int (n div 2)" using 1 by simp
    then have "(2::rat) powi 1 * 2 powi (bit_len (n div 2) - 1) \<le> 2 * of_int (n div 2)" by simp
    also have "\<dots> = of_int (2 * (n div 2))" by simp
    also have "\<dots> \<le> of_int n" unfolding of_int_le_iff by simp
    finally show ?thesis unfolding powi_2_mult b by simp
  qed simp
qed

lemma ilog2_bounds:
  assumes "0 < x"
  shows "2 powi ilog2 x \<le> x" and "x < 2 powi (ilog2 x + 1)"
proof -
  have "2 powi ilog2 x \<le> x \<and> x < 2 powi (ilog2 x + 1)"
  proof (cases "1 \<le> x")
    case True
    then have f: "1 \<le> \<lfloor>x\<rfloor>" by simp
    have "(2::rat) powi (bit_len \<lfloor>x\<rfloor> - 1) \<le> of_int \<lfloor>x\<rfloor>" using f by (intro bit_len_lower) simp
    moreover have "\<lfloor>x\<rfloor> + 1 \<le> 2 ^ nat (bit_len \<lfloor>x\<rfloor>)"
      using bit_len_upper [of "\<lfloor>x\<rfloor>"]
      unfolding powi_nat [OF bit_len_nonneg, symmetric] of_int_less_iff by simp
    then have "(of_int (\<lfloor>x\<rfloor> + 1) :: rat) \<le> of_int (2 ^ nat (bit_len \<lfloor>x\<rfloor>))"
      unfolding of_int_le_iff .
    then have "of_int \<lfloor>x\<rfloor> + 1 \<le> (2::rat) powi bit_len \<lfloor>x\<rfloor>"
      unfolding powi_nat [OF bit_len_nonneg] by simp
    ultimately have "2 powi (bit_len \<lfloor>x\<rfloor> - 1) \<le> x \<and> x < 2 powi bit_len \<lfloor>x\<rfloor>"
      using floor_correct [of x] by linarith
    then show ?thesis using True by (simp add: ilog2_def)
  next
    case False
    define y where "y = 1 / x"
    define k where "k = bit_len (\<lceil>y\<rceil> - 1)"
    have y: "1 < y" and x: "x = 1 / y" using False assms by (auto simp: y_def)
    have c: "2 \<le> \<lceil>y\<rceil>" using y by linarith
    have "(of_int (\<lceil>y\<rceil> - 1) :: rat) < 2 powi k" unfolding k_def by (rule bit_len_upper)
    then have "\<lceil>y\<rceil> - 1 < 2 ^ nat k"
      unfolding k_def powi_nat [OF bit_len_nonneg, symmetric] of_int_less_iff .
    then have "\<lceil>y\<rceil> \<le> 2 ^ nat k" by simp
    then have "(of_int \<lceil>y\<rceil> :: rat) \<le> of_int (2 ^ nat k)" unfolding of_int_le_iff .
    then have u: "y \<le> 2 powi k"
      unfolding k_def powi_nat [OF bit_len_nonneg] by (rule order_trans [OF le_of_int_ceiling])
    have "(2::rat) powi (k - 1) \<le> of_int (\<lceil>y\<rceil> - 1)"
      unfolding k_def using c by (intro bit_len_lower) simp
    also have "\<dots> < y" using ceiling_correct [of y] by simp
    finally have l: "2 powi (k - 1) < y" .
    have "2 powi (- k) \<le> x" unfolding x using u y by (simp add: power_int_minus divide_simps)
    moreover have "x < 2 powi (- (k - 1))"
      unfolding x using l y by (simp only: power_int_minus) (simp add: divide_simps)
    moreover have "ilog2 x = - k" using False by (simp add: ilog2_def k_def y_def)
    ultimately show ?thesis by simp
  qed
  then show "2 powi ilog2 x \<le> x" and "x < 2 powi (ilog2 x + 1)" by auto
qed

lemma ilog2_mono:
  assumes "0 < x" "x \<le> y"
  shows "ilog2 x \<le> ilog2 y"
proof (rule ccontr)
  assume "\<not> ilog2 x \<le> ilog2 y"
  then have "ilog2 y + 1 \<le> ilog2 x" by simp
  then have "(2::rat) powi (ilog2 y + 1) \<le> 2 powi ilog2 x" by (rule powi_2_mono)
  also have "\<dots> \<le> x" using assms(1) by (rule ilog2_bounds)
  finally show False using ilog2_bounds(2) [of y] assms by simp
qed

lemma round_half_even_mono: "x \<le> y \<Longrightarrow> round_half_even x \<le> round_half_even y"
proof (cases "\<lfloor>x\<rfloor> = \<lfloor>y\<rfloor>")
  case True
  assume "x \<le> y"
  with True show ?thesis unfolding round_half_even_def Let_def by auto
next
  case False
  assume "x \<le> y"
  with False have "\<lfloor>x\<rfloor> + 1 \<le> \<lfloor>y\<rfloor>" using floor_mono [of x y] by linarith
  moreover have "round_half_even x \<le> \<lfloor>x\<rfloor> + 1" "\<lfloor>y\<rfloor> \<le> round_half_even y"
    unfolding round_half_even_def Let_def by auto
  ultimately show ?thesis by linarith
qed

lemma round_half_even_of_int [simp]: "round_half_even (of_int m) = m"
  by (simp add: round_half_even_def)

lemma round_half_even_minus: "round_half_even (- x) = - round_half_even x"
proof (cases "of_int \<lfloor>x\<rfloor> = x")
  case True
  then show ?thesis by (metis of_int_minus round_half_even_of_int)
next
  case False
  then have c: "\<lfloor>- x\<rfloor> = - \<lfloor>x\<rfloor> - 1"
    by (auto simp: floor_minus ceiling_altdef)
  have "of_int \<lfloor>x\<rfloor> < x" using False of_int_floor_le [of x] by linarith
  then show ?thesis unfolding round_half_even_def Let_def c by (auto simp: algebra_simps)
qed

lemma ulp_exp_minus [simp]: "ulp_exp (- x) = ulp_exp x"
  by (simp add: ulp_exp_def)

lemma rnd_minus: "rnd (- x) = - rnd x"
  by (simp add: rnd_def round_half_even_minus)

lemma rnd_0 [simp]: "rnd 0 = 0"
  by (simp add: rnd_def)

lemma scaled_less:
  assumes "0 < x"
  shows "x / 2 powi ulp_exp x < of_int (2 ^ 53)"
proof -
  have "x < 2 powi (ilog2 x + 1)" using assms by (rule ilog2_bounds)
  also have "\<dots> \<le> 2 powi (53 + ulp_exp x)"
    using assms by (intro powi_2_mono) (simp add: ulp_exp_def)
  also have "\<dots> = 2 powi 53 * 2 powi ulp_exp x" by (simp only: powi_2_mult)
  finally show ?thesis by (simp add: pos_divide_less_eq)
qed

lemma rnd_nonneg: "0 \<le> x \<Longrightarrow> 0 \<le> rnd x"
proof -
  assume "0 \<le> x"
  then have "0 \<le> x / 2 powi ulp_exp x" by simp
  then have "round_half_even (of_int 0) \<le> round_half_even (x / 2 powi ulp_exp x)"
    by (intro round_half_even_mono) simp
  then show ?thesis by (simp add: rnd_def del: of_int_0)
qed

lemma rnd_upper:
  assumes "0 < x"
  shows "rnd x \<le> 2 powi (53 + ulp_exp x)"
proof -
  have "round_half_even (x / 2 powi ulp_exp x) \<le> round_half_even (of_int (2 ^ 53))"
    using scaled_less [OF assms] by (intro round_half_even_mono) simp
  then have "of_int (round_half_even (x / 2 powi ulp_exp x)) \<le> (of_int (2 ^ 53) :: rat)"
    unfolding round_half_even_of_int of_int_le_iff .
  then have "of_int (round_half_even (x / 2 powi ulp_exp x)) \<le> (2::rat) powi 53"
    by simp
  then have "rnd x \<le> 2 powi 53 * 2 powi ulp_exp x"
    using assms by (simp add: rnd_def)
  then show ?thesis by (simp only: powi_2_mult)
qed

lemma rnd_lower:
  assumes "2 powi (e + 52) \<le> y" "e \<le> ulp_exp y" "ulp_exp y = ilog2 y - 52" "0 < y"
  shows "2 powi (e + 52) \<le> rnd y"
proof -
  have "(2::rat) powi 52 * 2 powi ulp_exp y = 2 powi ilog2 y"
    by (simp only: powi_2_mult assms(3)) simp
  also have "\<dots> \<le> y" using assms(4) by (rule ilog2_bounds)
  finally have "of_int (2 ^ 52) \<le> y / 2 powi ulp_exp y" by (simp add: pos_le_divide_eq)
  then have "round_half_even (of_int (2 ^ 52)) \<le> round_half_even (y / 2 powi ulp_exp y)"
    by (rule round_half_even_mono)
  then have "(of_int (2 ^ 52) :: rat) \<le> of_int (round_half_even (y / 2 powi ulp_exp y))"
    unfolding round_half_even_of_int of_int_le_iff .
  then have "(2::rat) powi 52 \<le> of_int (round_half_even (y / 2 powi ulp_exp y))"
    by simp
  then have "(2::rat) powi 52 * 2 powi ulp_exp y \<le> rnd y"
    using assms(4) by (simp add: rnd_def)
  moreover have "(2::rat) powi (e + 52) \<le> 2 powi (52 + ulp_exp y)"
    using assms(2) by (intro powi_2_mono) simp
  ultimately show ?thesis by (simp only: powi_2_mult)
qed

lemma rnd_mono_pos:
  assumes "0 < x" "x \<le> y"
  shows "rnd x \<le> rnd y"
proof (cases "ulp_exp x = ulp_exp y")
  case True
  have "x / 2 powi ulp_exp y \<le> y / 2 powi ulp_exp y"
    using assms by (intro divide_right_mono) auto
  then have "round_half_even (x / 2 powi ulp_exp y) \<le> round_half_even (y / 2 powi ulp_exp y)"
    by (rule round_half_even_mono)
  then show ?thesis using assms True by (simp add: rnd_def mult_right_mono)
next
  case False
  have y: "0 < y" using assms by simp
  have lt: "ulp_exp x < ulp_exp y"
    using False ilog2_mono [OF assms] assms(1) y by (auto simp: ulp_exp_def max_def split: if_splits)
  then have uy: "ulp_exp y = ilog2 y - 52"
    using y by (auto simp: ulp_exp_def max_def split: if_splits)
  have e: "(2::rat) powi (ulp_exp y + 52) \<le> y"
    using ilog2_bounds(1) [OF y] by (simp add: uy)
  have "rnd x \<le> 2 powi (53 + ulp_exp x)" using assms(1) by (rule rnd_upper)
  also have "\<dots> \<le> 2 powi (ulp_exp y + 52)" using lt by (intro powi_2_mono) simp
  also have "\<dots> \<le> rnd y" using e uy y by (intro rnd_lower) auto
  finally show ?thesis .
qed

lemma rnd_mono: "x \<le> y \<Longrightarrow> rnd x \<le> rnd y"
proof -
  assume le: "x \<le> y"
  consider "0 < x" | "x = 0" | "x < 0" "0 \<le> y" | "y < 0" by linarith
  then show ?thesis
  proof cases
    case 1
    then show ?thesis using le by (rule rnd_mono_pos)
  next
    case 2
    then show ?thesis using le by (simp add: rnd_nonneg)
  next
    case 3
    then have "rnd x \<le> 0" using rnd_nonneg [of "- x"] by (simp add: rnd_minus)
    then show ?thesis using rnd_nonneg [OF 3(2)] by simp
  next
    case 4
    then have "rnd (- y) \<le> rnd (- x)" using le by (intro rnd_mono_pos) auto
    then show ?thesis by (simp add: rnd_minus)
  qed
qed

lemma rnd_exact_pos:
  assumes "0 < m" "m \<le> 2 ^ 53" "- 1074 \<le> e"
  shows "rnd (of_int m * 2 powi e) = of_int m * 2 powi e"
proof -
  let ?x = "of_int m * 2 powi e :: rat"
  have x: "0 < ?x" using assms by simp
  have ue: "ulp_exp ?x \<le> e + 1" and le: "m < 2 ^ 53 \<Longrightarrow> ulp_exp ?x \<le> e"
  proof -
    have il: "ilog2 ?x \<le> e + k" if "m < 2 ^ nat (k + 1)" "0 \<le> k" for k
    proof (rule ccontr)
      assume "\<not> ilog2 ?x \<le> e + k"
      then have "(2::rat) powi (e + k + 1) \<le> 2 powi ilog2 ?x" by (intro powi_2_mono) simp
      also have "\<dots> \<le> ?x" using x by (rule ilog2_bounds)
      finally have "(2::rat) powi (k + 1) * 2 powi e \<le> of_int m * 2 powi e"
        by (simp only: powi_2_mult) (simp add: algebra_simps)
      then have "(2::rat) powi (k + 1) \<le> of_int m" by simp
      moreover have "(2::rat) powi (k + 1) = of_int (2 ^ nat (k + 1))"
        using that(2) by (simp add: power_int_def)
      ultimately have "(of_int (2 ^ nat (k + 1)) :: rat) \<le> of_int m" by simp
      with that(1) show False unfolding of_int_le_iff by simp
    qed
    have "m < 2 ^ nat (53 + 1)" using assms(2) by simp
    then show "ulp_exp ?x \<le> e + 1" using il [of 53] assms(3) x by (simp add: ulp_exp_def)
    show "ulp_exp ?x \<le> e" if "m < 2 ^ 53"
      using il [of 52] that assms(3) x by (simp add: ulp_exp_def)
  qed
  have "\<exists>k. ?x = of_int k * 2 powi ulp_exp ?x"
  proof (cases "m < 2 ^ 53")
    case True
    have "?x = of_int (m * 2 ^ nat (e - ulp_exp ?x)) * 2 powi ulp_exp ?x"
      using powi_nat [of "e - ulp_exp ?x"] powi_2_mult [of "e - ulp_exp ?x" "ulp_exp ?x"] le [OF True]
      by simp
    then show ?thesis by blast
  next
    case False
    then have m: "m = 2 ^ 52 * 2" using assms(2) by simp
    have "?x = of_int (2 ^ 52 * 2 ^ nat (e + 1 - ulp_exp ?x)) * 2 powi ulp_exp ?x"
      using powi_nat [of "e + 1 - ulp_exp ?x"] powi_2_mult [of "e + 1 - ulp_exp ?x" "ulp_exp ?x"]
        powi_2_mult [of 1 e] ue
      by (simp add: m add.commute mult.commute)
    then show ?thesis by blast
  qed
  then obtain k where k: "?x = of_int k * 2 powi ulp_exp ?x" by blast
  then have "?x / 2 powi ulp_exp ?x = of_int k"
    by (metis nonzero_mult_div_cancel_right power_int_eq_0_iff zero_neq_numeral)
  then show ?thesis using x k by (simp add: rnd_def)
qed

lemma rnd_exact:
  assumes "\<bar>m\<bar> \<le> 2 ^ 53" "- 1074 \<le> e"
  shows "rnd (of_int m * 2 powi e) = of_int m * 2 powi e"
proof -
  consider "0 < m" | "m = 0" | "m < 0" by linarith
  then show ?thesis
  proof cases
    case 1
    then show ?thesis using assms by (intro rnd_exact_pos) auto
  next
    case 2
    then show ?thesis by simp
  next
    case 3
    then have "rnd (of_int (- m) * 2 powi e) = of_int (- m) * 2 powi e"
      using assms by (intro rnd_exact_pos) auto
    then show ?thesis by (simp add: rnd_minus)
  qed
qed

lemma rnd_of_int [simp]: "\<bar>m\<bar> \<le> 2 ^ 53 \<Longrightarrow> rnd (of_int m) = of_int m"
  using rnd_exact [of m 0] by simp

lemma rnd_numeral [simp]:
  "rnd 1 = 1" "rnd (- 1) = - 1"
  "numeral k \<le> (2 ^ 53 :: int) \<Longrightarrow> rnd (numeral k) = numeral k"
  "numeral k \<le> (2 ^ 53 :: int) \<Longrightarrow> rnd (- numeral k) = - numeral k"
  using rnd_of_int [of 1] rnd_of_int [of "- 1"] rnd_of_int [of "numeral k"]
    rnd_of_int [of "- numeral k"]
  by simp_all

lemma rnd_idem [simp]: "rnd (rnd x) = rnd x"
proof -
  have *: "rnd (rnd x) = rnd x" if "0 < x" for x
  proof -
    let ?m = "round_half_even (x / 2 powi ulp_exp x)"
    have "?m \<le> round_half_even (of_int (2 ^ 53))" and "round_half_even (of_int 0) \<le> ?m"
      using scaled_less [OF that] that by (intro round_half_even_mono; simp)+
    then have "\<bar>?m\<bar> \<le> 2 ^ 53" unfolding round_half_even_of_int by simp
    then have "rnd (of_int ?m * 2 powi ulp_exp x) = of_int ?m * 2 powi ulp_exp x"
      by (intro rnd_exact) (auto simp: ulp_exp_def)
    moreover have "rnd x = of_int ?m * 2 powi ulp_exp x" using that by (simp add: rnd_def)
    ultimately show ?thesis by simp
  qed
  consider "0 < x" | "x = 0" | "0 < - x" by linarith
  then show ?thesis
  proof cases
    case 3
    then have "rnd (rnd (- x)) = rnd (- x)" by (rule *)
    then show ?thesis by (simp add: rnd_minus)
  qed (auto simp: *)
qed


subsection \<open>The values and operations of double\<close>

datatype f64 = Fin rat | PInf | NInf | NaN

text \<open>A real result becomes a double: rounded, then infinite when out of range.\<close>

definition mk_f64 :: "rat \<Rightarrow> f64" where
  "mk_f64 x = (if 2 ^ 1024 \<le> rnd x then PInf else if rnd x \<le> - (2 ^ 1024) then NInf
               else Fin (rnd x))"

fun fadd :: "f64 \<Rightarrow> f64 \<Rightarrow> f64" where
  "fadd NaN _ = NaN"
| "fadd _ NaN = NaN"
| "fadd PInf NInf = NaN"
| "fadd NInf PInf = NaN"
| "fadd PInf _ = PInf"
| "fadd _ PInf = PInf"
| "fadd NInf _ = NInf"
| "fadd _ NInf = NInf"
| "fadd (Fin x) (Fin y) = mk_f64 (x + y)"

fun fneg :: "f64 \<Rightarrow> f64" where
  "fneg (Fin x) = Fin (- x)"
| "fneg PInf = NInf"
| "fneg NInf = PInf"
| "fneg NaN = NaN"

definition fsub :: "f64 \<Rightarrow> f64 \<Rightarrow> f64" where
  "fsub a b = fadd a (fneg b)"

text \<open>The sign of an infinite operand times a finite one; zero times infinity is not a number.\<close>

definition inf_times :: "rat \<Rightarrow> f64" where
  "inf_times y = (if 0 < y then PInf else if y < 0 then NInf else NaN)"

fun fmul :: "f64 \<Rightarrow> f64 \<Rightarrow> f64" where
  "fmul (Fin x) (Fin y) = mk_f64 (x * y)"
| "fmul NaN _ = NaN"
| "fmul _ NaN = NaN"
| "fmul PInf PInf = PInf"
| "fmul NInf NInf = PInf"
| "fmul PInf NInf = NInf"
| "fmul NInf PInf = NInf"
| "fmul PInf (Fin y) = inf_times y"
| "fmul (Fin y) PInf = inf_times y"
| "fmul NInf (Fin y) = inf_times (- y)"
| "fmul (Fin y) NInf = inf_times (- y)"

fun fdiv :: "f64 \<Rightarrow> f64 \<Rightarrow> f64" where
  "fdiv (Fin x) (Fin y) = (if y = 0 then inf_times x else mk_f64 (x / y))"
| "fdiv NaN _ = NaN"
| "fdiv _ NaN = NaN"
| "fdiv (Fin x) _ = Fin 0"
| "fdiv PInf (Fin y) = (if y < 0 then NInf else PInf)"
| "fdiv NInf (Fin y) = (if y < 0 then PInf else NInf)"
| "fdiv _ _ = NaN"

text \<open>Comparisons: false as soon as one operand is not a number.\<close>

fun flt :: "f64 \<Rightarrow> f64 \<Rightarrow> bool" where
  "flt (Fin x) (Fin y) = (x < y)"
| "flt NaN _ = False"
| "flt _ NaN = False"
| "flt (Fin x) PInf = True"
| "flt (Fin x) NInf = False"
| "flt NInf (Fin y) = True"
| "flt PInf (Fin y) = False"
| "flt NInf PInf = True"
| "flt _ _ = False"

fun fle :: "f64 \<Rightarrow> f64 \<Rightarrow> bool" where
  "fle (Fin x) (Fin y) = (x \<le> y)"
| "fle NaN _ = False"
| "fle _ NaN = False"
| "fle (Fin x) PInf = True"
| "fle (Fin x) NInf = False"
| "fle NInf _ = True"
| "fle PInf PInf = True"
| "fle PInf _ = False"

definition feq :: "f64 \<Rightarrow> f64 \<Rightarrow> bool" where
  "feq a b = (fle a b \<and> fle b a)"

fun is_finite :: "f64 \<Rightarrow> bool" where
  "is_finite (Fin _) = True"
| "is_finite _ = False"

text \<open>\<open>std::max(a, b)\<close> is \<open>a < b ? b : a\<close> and \<open>std::min(a, b)\<close> is \<open>b < a ? b : a\<close>.\<close>

definition std_max :: "f64 \<Rightarrow> f64 \<Rightarrow> f64" where
  "std_max a b = (if flt a b then b else a)"

definition std_min :: "f64 \<Rightarrow> f64 \<Rightarrow> f64" where
  "std_min a b = (if flt b a then b else a)"

text \<open>\<open>std::round\<close>: to the nearest integer, halves away from zero.\<close>

definition round_away :: "rat \<Rightarrow> int" where
  "round_away x = (if 0 \<le> x then \<lfloor>x + 1 / 2\<rfloor> else - \<lfloor>- x + 1 / 2\<rfloor>)"

fun std_round :: "f64 \<Rightarrow> f64" where
  "std_round (Fin x) = Fin (of_int (round_away x))"
| "std_round v = v"

text \<open>\<open>static_cast<double>\<close> of an integer, and the literal with a given decimal value.\<close>

definition f64_of_int :: "int \<Rightarrow> f64" where
  "f64_of_int i = mk_f64 (of_int i)"

definition lit :: "rat \<Rightarrow> f64" where
  "lit q = mk_f64 q"

text \<open>A value a \<open>double\<close> can hold.\<close>

definition representable :: "f64 \<Rightarrow> bool" where
  "representable v = (case v of Fin x \<Rightarrow> rnd x = x \<and> \<bar>x\<bar> < 2 ^ 1024 | _ \<Rightarrow> True)"

subsection \<open>Bounds that survive rounding\<close>

lemma representable_mk [simp, intro]: "representable (mk_f64 x)"
  by (auto simp: representable_def mk_f64_def)

lemma representable_fneg [simp]: "representable (fneg a) = representable a"
  by (cases a) (auto simp: representable_def rnd_minus)

lemma representable_fadd [simp, intro]: "representable (fadd a b)"
  by (cases a; cases b) (auto, auto simp: representable_def)

lemma representable_fsub [simp, intro]: "representable (fsub a b)"
  by (simp add: fsub_def)

lemma mk_f64_representable: "representable (Fin x) \<Longrightarrow> mk_f64 x = Fin x"
  by (auto simp: representable_def mk_f64_def)

lemma fadd_0_right [simp]: "representable a \<Longrightarrow> fadd a (Fin 0) = a"
  by (cases a) (auto simp: mk_f64_representable)

lemma fadd_0_left [simp]: "representable a \<Longrightarrow> fadd (Fin 0) a = a"
  by (cases a) (auto simp: mk_f64_representable)

lemma mk_f64_nonneg: "0 \<le> x \<Longrightarrow> fle (Fin 0) (mk_f64 x)"
proof -
  assume "0 \<le> x"
  then have "0 \<le> rnd x" by (rule rnd_nonneg)
  moreover have "\<not> rnd x \<le> - (2 ^ 1024)" using \<open>0 \<le> rnd x\<close> by (simp add: not_le)
  ultimately show ?thesis by (simp add: mk_f64_def)
qed

lemma mk_f64_mono: "x \<le> y \<Longrightarrow> fle (mk_f64 x) (mk_f64 y)"
  using rnd_mono [of x y] by (auto simp: mk_f64_def)

lemma fle_trans: "fle a b \<Longrightarrow> fle b c \<Longrightarrow> fle a c"
  by (cases a; cases b; cases c) auto

lemma fle_refl: "a \<noteq> NaN \<Longrightarrow> fle a a"
  by (cases a) auto

lemma not_flt_iff_fle: "a \<noteq> NaN \<Longrightarrow> b \<noteq> NaN \<Longrightarrow> (\<not> flt a b) = fle b a"
  by (cases a; cases b) auto

text \<open>
  Subtracting what is covered never gives a negative number, and adding a nonnegative
  number never lowers the value: the two facts balances rest on.
\<close>

lemma fsub_nonneg:
  assumes "\<not> flt c a" "is_finite a" "c \<noteq> NaN"
  shows "fle (Fin 0) (fsub c a)"
  using assms by (cases c; cases a) (auto simp: fsub_def mk_f64_nonneg)

lemma fadd_nonneg:
  assumes "fle (Fin 0) a" "fle (Fin 0) b"
  shows "fle (Fin 0) (fadd a b)"
  using assms by (cases a; cases b) (auto simp: mk_f64_nonneg)

lemma fadd_ge_left:
  assumes "representable a" "fle (Fin 0) b" "a \<noteq> NaN" "a \<noteq> NInf"
  shows "fle a (fadd a b)"
proof (cases a; cases b)
  fix x y assume [simp]: "a = Fin x" "b = Fin y"
  have "fle (mk_f64 x) (mk_f64 (x + y))" using assms(2) by (intro mk_f64_mono) simp
  then show ?thesis using assms(1) by (simp add: mk_f64_representable)
qed (use assms in auto)

end
