(* ===== verification/PQueue.thy ===== *)
theory PQueue
  imports Prelude "HOL-Library.Product_Lexorder"
begin

text \<open>
  \<open>std::priority_queue\<close> with a smallest-key-first order, the container behind the billing
  queue of the line-of-credit tracker and the pending queue of the replay accumulator. The
  standard fixes what \<open>top\<close> and \<open>pop\<close> do only up to elements with equal keys, and so
  does the interface: \<open>top\<close> is some element of least key and \<open>pop\<close> removes it. The
  implementation of the model keeps the elements in a list ordered by key.
\<close>

locale min_queue =
  fixes empty :: 'q
    and is_empty :: "'q \<Rightarrow> bool"
    and push :: "'a \<Rightarrow> 'q \<Rightarrow> 'q"
    and top :: "'q \<Rightarrow> 'a"
    and pop :: "'q \<Rightarrow> 'q"
    and elems :: "'q \<Rightarrow> 'a multiset"
    and key :: "'a \<Rightarrow> 'k::linorder"
    and inv :: "'q \<Rightarrow> bool"
  assumes elems_empty: "elems empty = {#}"
    and is_empty_iff: "is_empty q \<longleftrightarrow> elems q = {#}"
    and elems_push: "elems (push x q) = add_mset x (elems q)"
    and elems_pop: "\<not> is_empty q \<Longrightarrow> elems q = add_mset (top q) (elems (pop q))"
    and top_least: "inv q \<Longrightarrow> y \<in># elems q \<Longrightarrow> key (top q) \<le> key y"
    and inv_empty: "inv empty"
    and inv_push: "inv q \<Longrightarrow> inv (push x q)"
    and inv_pop: "inv q \<Longrightarrow> inv (pop q)"
begin

lemma top_in: "\<not> is_empty q \<Longrightarrow> top q \<in># elems q"
  using elems_pop [of q] by (metis union_single_eq_member)

lemma in_pop: "\<not> is_empty q \<Longrightarrow> y \<in># elems (pop q) \<Longrightarrow> y \<in># elems q"
  by (subst elems_pop) auto

lemma in_push: "y \<in># elems (push x q) \<longleftrightarrow> y = x \<or> y \<in># elems q"
  by (simp add: elems_push)

lemma size_pop: "\<not> is_empty q \<Longrightarrow> size (elems (pop q)) < size (elems q)"
  using elems_pop [of q] by (metis lessI size_add_mset)

text \<open>When the least key is past a bound, every key is.\<close>

lemma all_past_bound:
  assumes "inv q" "is_empty q \<or> b < key (top q)" "y \<in># elems q"
  shows "b < key y"
  using assms top_least [of q y] by (auto simp: is_empty_iff)

text \<open>An element at or before the bound is popped now or is still in the queue.\<close>

lemma in_elems_cases:
  assumes "\<not> is_empty q" "y \<in># elems q"
  shows "y = top q \<or> y \<in># elems (pop q)"
proof -
  have "y \<in># add_mset (top q) (elems (pop q))"
    using assms(2) elems_pop [OF assms(1)] by simp
  then show ?thesis by simp
qed

end

definition pq_push :: "('a \<Rightarrow> 'k::linorder) \<Rightarrow> 'a \<Rightarrow> 'a list \<Rightarrow> 'a list" where
  "pq_push key x q = insort_key key x q"

definition pq_top :: "'a list \<Rightarrow> 'a" where
  "pq_top q = hd q"

definition pq_pop :: "'a list \<Rightarrow> 'a list" where
  "pq_pop q = tl q"

definition pq_empty :: "'a list \<Rightarrow> bool" where
  "pq_empty q = (q = [])"

definition pq_inv :: "('a \<Rightarrow> 'k::linorder) \<Rightarrow> 'a list \<Rightarrow> bool" where
  "pq_inv key q = sorted (map key q)"

lemmas pq_defs = pq_push_def pq_top_def pq_pop_def pq_empty_def pq_inv_def

lemma mset_insort_key: "mset (insort_key k x xs) = add_mset x (mset xs)"
  by (induction xs) auto

lemma min_queue_list: "min_queue [] pq_empty (pq_push key) pq_top pq_pop mset key (pq_inv key)"
proof
  fix q :: "'a list" and x y
  show "pq_empty q = (mset q = {#})" by (simp add: pq_defs)
  show "mset (pq_push key x q) = add_mset x (mset q)" by (simp add: pq_defs mset_insort_key)
  show "\<not> pq_empty q \<Longrightarrow> mset q = add_mset (pq_top q) (mset (pq_pop q))"
    by (cases q) (auto simp: pq_defs)
  show "pq_inv key q \<Longrightarrow> y \<in># mset q \<Longrightarrow> key (pq_top q) \<le> key y"
    by (cases q) (auto simp: pq_defs)
  show "pq_inv key q \<Longrightarrow> pq_inv key (pq_push key x q)"
    by (simp add: pq_defs sorted_insort_key)
  show "pq_inv key q \<Longrightarrow> pq_inv key (pq_pop q)"
    by (cases q) (auto simp: pq_defs)
qed (auto simp: pq_defs)

text \<open>The billing queue is keyed by the whole entry \<open>(due time, slot)\<close>.\<close>

interpretation billing_queue:
  min_queue "[]" pq_empty "pq_push (\<lambda>e :: int \<times> nat. e)" pq_top pq_pop mset "\<lambda>e. e" "pq_inv (\<lambda>e. e)"
  by (rule min_queue_list)

end
