(* ===== verification/LocAccrual.thy ===== *)
theory LocAccrual
  imports F64 PQueue
begin

text \<open>
  \<open>transactions/clearing/loc_accrual\<close>: interest on lines of credit. The tracker keeps, per
  account slot, the integral of the negative balance over time, and bills each enabled slot
  every thirty days. Maturity is driven by a queue of due times with lazy deletion:
  \<open>queuedDueTs_\<close> says which queue entry of a slot is the valid one.

  The lemmas show that this queue is a refinement of the obvious scan over all enabled
  slots: the same slots are billed at the same instants, in ascending order, with the same
  interest, whatever stale entries re-enabling or disabling left behind.
\<close>

definition billing_period :: i64 where
  "billing_period = 30 * seconds_per_day"

definition year_seconds :: f64 where
  "year_seconds = fmul (lit (36525 / 100)) (f64_of_int seconds_per_day)"

definition not_queued :: i64 where
  "not_queued = - 1"

record accrual =
  ac_index :: nat
  ac_interest :: f64
  ac_time :: i64

record tracker =
  tr_size :: nat
  tr_enabled :: "bool list"
  tr_apr :: "f64 list"
  tr_billing_day :: "int list"
  tr_integral :: "f64 list"
  tr_last_update :: "i64 list"
  tr_last_billing :: "i64 list"
  tr_queued_due :: "i64 list"
  tr_queue :: "(i64 \<times> nat) list"

definition loc_initialize :: "nat \<Rightarrow> tracker" where
  "loc_initialize n =
     \<lparr>tr_size = n, tr_enabled = replicate n False, tr_apr = replicate n (Fin 0),
      tr_billing_day = replicate n 0, tr_integral = replicate n (Fin 0),
      tr_last_update = replicate n 0, tr_last_billing = replicate n 0,
      tr_queued_due = replicate n not_queued, tr_queue = []\<rparr>"

definition schedule_billing :: "nat \<Rightarrow> i64 \<Rightarrow> tracker \<Rightarrow> tracker" where
  "schedule_billing idx due t =
     t\<lparr>tr_queued_due := (tr_queued_due t)[idx := due],
       tr_queue := pq_push (\<lambda>e. e) (due, idx) (tr_queue t)\<rparr>"

definition loc_enabled :: "tracker \<Rightarrow> nat \<Rightarrow> bool" where
  "loc_enabled t idx = (idx < tr_size t \<and> tr_enabled t ! idx)"

definition loc_enable :: "nat \<Rightarrow> f64 \<Rightarrow> int \<Rightarrow> tracker \<Rightarrow> tracker" where
  "loc_enable idx apr billing_day t =
     schedule_billing idx 0
       (t\<lparr>tr_enabled := (tr_enabled t)[idx := True],
          tr_apr := (tr_apr t)[idx := apr],
          tr_billing_day := (tr_billing_day t)[idx := billing_day],
          tr_integral := (tr_integral t)[idx := Fin 0],
          tr_last_update := (tr_last_update t)[idx := 0],
          tr_last_billing := (tr_last_billing t)[idx := 0]\<rparr>)"

definition loc_disable :: "nat \<Rightarrow> tracker \<Rightarrow> tracker" where
  "loc_disable idx t =
     t\<lparr>tr_enabled := (tr_enabled t)[idx := False],
       tr_apr := (tr_apr t)[idx := Fin 0],
       tr_billing_day := (tr_billing_day t)[idx := 0],
       tr_integral := (tr_integral t)[idx := Fin 0],
       tr_last_update := (tr_last_update t)[idx := 0],
       tr_last_billing := (tr_last_billing t)[idx := 0],
       tr_queued_due := (tr_queued_due t)[idx := not_queued]\<rparr>"

definition loc_update :: "nat \<Rightarrow> f64 \<Rightarrow> i64 \<Rightarrow> tracker \<Rightarrow> tracker" where
  "loc_update idx pre_cash ts t =
     (if \<not> loc_enabled t idx then t
      else if ts = 0 then t
      else
        let last_ts = tr_last_update t ! idx;
            t = (if last_ts \<noteq> 0 \<and> last_ts < ts \<and> flt pre_cash (Fin 0)
                 then t\<lparr>tr_integral := (tr_integral t)[idx :=
                          fadd (tr_integral t ! idx)
                            (fmul (fneg pre_cash) (f64_of_int (ts - last_ts)))]\<rparr>
                 else t)
        in t\<lparr>tr_last_update := (tr_last_update t)[idx := ts]\<rparr>)"

text \<open>The \<open>while\<close> loop of \<open>sweep\<close>: pop everything due, keep the valid entries.\<close>

function collect_due :: "i64 \<Rightarrow> tracker \<Rightarrow> nat list \<Rightarrow> tracker \<times> nat list" where
  "collect_due ts t due =
     (if \<not> pq_empty (tr_queue t) \<and> fst (pq_top (tr_queue t)) \<le> ts then
        let (due_ts, idx) = pq_top (tr_queue t);
            t = t\<lparr>tr_queue := pq_pop (tr_queue t)\<rparr>
        in if \<not> loc_enabled t idx \<or> tr_queued_due t ! idx \<noteq> due_ts then collect_due ts t due
           else collect_due ts
                  (t\<lparr>tr_queued_due := (tr_queued_due t)[idx := not_queued]\<rparr>) (due @ [idx])
      else (t, due))"
  by pat_completeness auto
termination
  by (relation "measure (\<lambda>(ts, t, due). length (tr_queue t))") (auto simp: pq_defs)

declare collect_due.simps [simp del]

text \<open>The body of the \<open>for\<close> loop of \<open>sweep\<close>, for one matured slot.\<close>

definition bill_slot ::
    "i64 \<Rightarrow> (nat \<Rightarrow> f64) \<Rightarrow> tracker \<times> accrual list \<Rightarrow> nat \<Rightarrow> tracker \<times> accrual list" where
  "bill_slot ts current_cash s idx =
     (let (t, out) = s;
          t = loc_update idx (current_cash idx) ts t
      in if tr_last_billing t ! idx = 0 then
           (schedule_billing idx (ts + billing_period)
              (t\<lparr>tr_last_billing := (tr_last_billing t)[idx := ts]\<rparr>), out)
         else
           let interest = fdiv (fmul (tr_integral t ! idx) (tr_apr t ! idx)) year_seconds;
               out = (if flt (Fin 0) interest
                      then out @ [\<lparr>ac_index = idx, ac_interest = interest, ac_time = ts\<rparr>] else out);
               t = t\<lparr>tr_integral := (tr_integral t)[idx := Fin 0],
                     tr_last_billing := (tr_last_billing t)[idx := ts]\<rparr>
           in (schedule_billing idx (ts + billing_period) t, out))"

definition loc_sweep ::
    "i64 \<Rightarrow> (nat \<Rightarrow> f64) \<Rightarrow> tracker \<Rightarrow> tracker \<times> accrual list" where
  "loc_sweep ts current_cash t =
     (let (t, due) = collect_due ts t []
      in if due = [] then (t, [])
         else foldl (bill_slot ts current_cash) (t, []) (sort due))"

definition loc_copy_state :: "tracker \<Rightarrow> tracker \<Rightarrow> tracker" where
  "loc_copy_state other t =
     t\<lparr>tr_integral := tr_integral other, tr_last_update := tr_last_update other,
       tr_last_billing := tr_last_billing other, tr_queued_due := tr_queued_due other,
       tr_queue := tr_queue other\<rparr>"

subsection \<open>The specification: a scan over every enabled slot\<close>

text \<open>
  The reference rolls over all slots in ascending order and has no queue: a slot is due when
  it has never been seen by a sweep or was last billed a whole period ago. \<open>erase\<close> forgets
  the queue of the tracker, which is all the two differ in.
\<close>

definition erase :: "tracker \<Rightarrow> tracker" where
  "erase t = t\<lparr>tr_queued_due := [], tr_queue := []\<rparr>"

definition matured :: "i64 \<Rightarrow> tracker \<Rightarrow> nat \<Rightarrow> bool" where
  "matured ts t idx =
     (loc_enabled t idx \<and>
      (tr_last_billing t ! idx = 0 \<or> billing_period \<le> ts - tr_last_billing t ! idx))"

definition scan_bill ::
    "i64 \<Rightarrow> (nat \<Rightarrow> f64) \<Rightarrow> tracker \<times> accrual list \<Rightarrow> nat \<Rightarrow> tracker \<times> accrual list" where
  "scan_bill ts current_cash s idx =
     (let (t, out) = s; t = loc_update idx (current_cash idx) ts t
      in if tr_last_billing t ! idx = 0 then
           (t\<lparr>tr_last_billing := (tr_last_billing t)[idx := ts]\<rparr>, out)
         else
           let interest = fdiv (fmul (tr_integral t ! idx) (tr_apr t ! idx)) year_seconds
           in (t\<lparr>tr_integral := (tr_integral t)[idx := Fin 0],
                 tr_last_billing := (tr_last_billing t)[idx := ts]\<rparr>,
               if flt (Fin 0) interest
               then out @ [\<lparr>ac_index = idx, ac_interest = interest, ac_time = ts\<rparr>] else out))"

definition scan_sweep ::
    "i64 \<Rightarrow> (nat \<Rightarrow> f64) \<Rightarrow> tracker \<Rightarrow> tracker \<times> accrual list" where
  "scan_sweep ts current_cash t =
     foldl (scan_bill ts current_cash) (t, []) (filter (matured ts t) [0..<tr_size t])"

subsection \<open>The queue invariant\<close>

definition due_at :: "tracker \<Rightarrow> nat \<Rightarrow> i64" where
  "due_at t idx = (if tr_last_billing t ! idx = 0 then 0
                   else tr_last_billing t ! idx + billing_period)"

definition loc_shape :: "tracker \<Rightarrow> bool" where
  "loc_shape t =
     (length (tr_enabled t) = tr_size t \<and> length (tr_apr t) = tr_size t \<and>
      length (tr_billing_day t) = tr_size t \<and> length (tr_integral t) = tr_size t \<and>
      length (tr_last_update t) = tr_size t \<and> length (tr_last_billing t) = tr_size t \<and>
      length (tr_queued_due t) = tr_size t)"

text \<open>
  \<open>queue_inv t taken\<close>: every enabled slot outside \<open>taken\<close> has its due time both in
  \<open>queuedDueTs_\<close> and in the queue; the slots of \<open>taken\<close>, which a sweep has popped and not
  yet rescheduled, and the disabled ones carry the token \<open>kNotQueued\<close>.
\<close>

definition queue_inv :: "tracker \<Rightarrow> nat set \<Rightarrow> bool" where
  "queue_inv t taken =
     (loc_shape t \<and> pq_inv (\<lambda>e. e) (tr_queue t) \<and>
      (\<forall>e \<in> set (tr_queue t). 0 \<le> fst e) \<and>
      (\<forall>i < tr_size t. 0 \<le> tr_last_billing t ! i) \<and>
      (\<forall>i < tr_size t. tr_enabled t ! i \<and> i \<notin> taken \<longrightarrow>
         tr_queued_due t ! i = due_at t i \<and> (due_at t i, i) \<in> set (tr_queue t)) \<and>
      (\<forall>i < tr_size t. \<not> tr_enabled t ! i \<or> i \<in> taken \<longrightarrow> tr_queued_due t ! i = not_queued))"

definition loc_inv :: "tracker \<Rightarrow> bool" where
  "loc_inv t = queue_inv t {}"

lemma loc_initialize_inv: "loc_inv (loc_initialize n)"
  by (simp add: loc_inv_def queue_inv_def loc_shape_def loc_initialize_def pq_inv_def)

lemma set_pq_push [simp]: "set (pq_push k x q) = insert x (set q)"
  by (simp add: pq_push_def set_insort_key)

lemma pq_inv_push [simp]: "pq_inv k q \<Longrightarrow> pq_inv k (pq_push k x q)"
  by (simp add: pq_defs sorted_insort_key)

lemma loc_enable_inv:
  assumes "loc_inv t" "idx < tr_size t"
  shows "loc_inv (loc_enable idx apr day t)"
  using assms
  by (auto simp: loc_inv_def queue_inv_def loc_shape_def loc_enable_def schedule_billing_def
      due_at_def nth_list_update)

lemma loc_disable_inv:
  assumes "loc_inv t" "idx < tr_size t"
  shows "loc_inv (loc_disable idx t)"
  using assms
  by (auto simp: loc_inv_def queue_inv_def loc_shape_def loc_disable_def due_at_def nth_list_update)

lemma loc_update_frame [frame_simps]:
  "tr_size (loc_update i c ts t) = tr_size t"
  "tr_enabled (loc_update i c ts t) = tr_enabled t"
  "tr_apr (loc_update i c ts t) = tr_apr t"
  "tr_billing_day (loc_update i c ts t) = tr_billing_day t"
  "tr_last_billing (loc_update i c ts t) = tr_last_billing t"
  "tr_queued_due (loc_update i c ts t) = tr_queued_due t"
  "tr_queue (loc_update i c ts t) = tr_queue t"
  "length (tr_integral (loc_update i c ts t)) = length (tr_integral t)"
  "length (tr_last_update (loc_update i c ts t)) = length (tr_last_update t)"
  by (simp_all add: loc_update_def Let_def)

lemma due_at_update [simp]: "due_at (loc_update i c ts t) = due_at t"
  by (simp add: due_at_def frame_simps fun_eq_iff)

lemma loc_update_queue_inv: "queue_inv t taken \<Longrightarrow> queue_inv (loc_update i c ts t) taken"
  by (simp add: queue_inv_def loc_shape_def frame_simps)

lemma loc_update_inv: "loc_inv t \<Longrightarrow> loc_inv (loc_update i c ts t)"
  by (simp add: loc_inv_def loc_update_queue_inv)

subsection \<open>Collecting the due slots\<close>

lemma collect_due_stop:
  "pq_empty (tr_queue t) \<or> ts < fst (pq_top (tr_queue t)) \<Longrightarrow> collect_due ts t due = (t, due)"
  by (subst collect_due.simps) auto

lemma collect_due_step:
  assumes "\<not> pq_empty (tr_queue t)" "pq_top (tr_queue t) = (d, i)" "d \<le> ts"
  shows "collect_due ts t due =
    (if \<not> loc_enabled t i \<or> tr_queued_due t ! i \<noteq> d
     then collect_due ts (t\<lparr>tr_queue := pq_pop (tr_queue t)\<rparr>) due
     else collect_due ts (t\<lparr>tr_queue := pq_pop (tr_queue t),
            tr_queued_due := (tr_queued_due t)[i := not_queued]\<rparr>) (due @ [i]))"
  using assms by (subst collect_due.simps) (simp add: Let_def loc_enabled_def)

definition due_inv :: "i64 \<Rightarrow> tracker \<Rightarrow> nat list \<Rightarrow> bool" where
  "due_inv ts t due = (queue_inv t (set due) \<and> distinct due \<and>
     (\<forall>i \<in> set due. loc_enabled t i \<and> due_at t i \<le> ts))"

lemma queue_pop_facts:
  fixes q :: "(i64 \<times> nat) list"
  assumes "\<not> pq_empty q" "pq_inv (\<lambda>e. e) q"
  shows "pq_inv (\<lambda>e. e) (pq_pop q)" "pq_top q \<in> set q"
    "e \<in> set q \<Longrightarrow> e = pq_top q \<or> e \<in> set (pq_pop q)" "e \<in> set (pq_pop q) \<Longrightarrow> e \<in> set q"
  using billing_queue.inv_pop [OF assms(2)] billing_queue.top_in [OF assms(1)]
    billing_queue.in_elems_cases [OF assms(1), of e] billing_queue.in_pop [OF assms(1), of e]
  by auto

lemma queue_frame [simp]:
  "due_at (t\<lparr>tr_queue := a\<rparr>) = due_at t"
  "due_at (t\<lparr>tr_queue := a, tr_queued_due := b\<rparr>) = due_at t"
  "loc_enabled (t\<lparr>tr_queue := a\<rparr>) = loc_enabled t"
  "loc_enabled (t\<lparr>tr_queue := a, tr_queued_due := b\<rparr>) = loc_enabled t"
  by (simp_all add: due_at_def loc_enabled_def fun_eq_iff)

lemma due_inv_skip:
  assumes inv: "due_inv ts t due" and ne: "\<not> pq_empty (tr_queue t)"
    and top: "pq_top (tr_queue t) = (d, i)"
    and stale: "\<not> loc_enabled t i \<or> tr_queued_due t ! i \<noteq> d"
  shows "due_inv ts (t\<lparr>tr_queue := pq_pop (tr_queue t)\<rparr>) due"
proof -
  note pop = queue_pop_facts [OF ne]
  have q: "pq_inv (\<lambda>e. e) (tr_queue t)" using inv by (simp add: due_inv_def queue_inv_def)
  have keep: "(due_at t j, j) \<in> set (pq_pop (tr_queue t))"
    if "j < tr_size t" "tr_enabled t ! j" "j \<notin> set due" for j
  proof -
    have "(due_at t j, j) \<in> set (tr_queue t)" "tr_queued_due t ! j = due_at t j"
      using inv that by (auto simp: due_inv_def queue_inv_def)
    moreover have "(due_at t j, j) \<noteq> (d, i)"
      using stale that calculation(2) by (auto simp: loc_enabled_def)
    ultimately show ?thesis using pop(3) [OF q] top by metis
  qed
  show ?thesis
    using inv keep pop(1) [OF q] pop(4) [OF q]
    by (auto simp: due_inv_def queue_inv_def loc_shape_def)
qed

lemma due_inv_take:
  assumes inv: "due_inv ts t due" and ne: "\<not> pq_empty (tr_queue t)"
    and top: "pq_top (tr_queue t) = (d, i)" and d: "d \<le> ts"
    and valid: "loc_enabled t i" "tr_queued_due t ! i = d"
  shows "due_inv ts (t\<lparr>tr_queue := pq_pop (tr_queue t),
           tr_queued_due := (tr_queued_due t)[i := not_queued]\<rparr>) (due @ [i])"
proof -
  note pop = queue_pop_facts [OF ne]
  have q: "pq_inv (\<lambda>e. e) (tr_queue t)" using inv by (simp add: due_inv_def queue_inv_def)
  have "0 \<le> d" using inv pop(2) [OF q] top by (fastforce simp: due_inv_def queue_inv_def)
  then have fresh: "i \<notin> set due"
    using inv valid by (auto simp: due_inv_def queue_inv_def loc_enabled_def not_queued_def)
  then have due: "due_at t i = d"
    using inv valid by (auto simp: due_inv_def queue_inv_def loc_enabled_def)
  have keep: "(due_at t j, j) \<in> set (pq_pop (tr_queue t))"
    if "j < tr_size t" "tr_enabled t ! j" "j \<notin> set due" "j \<noteq> i" for j
  proof -
    have "(due_at t j, j) \<in> set (tr_queue t)"
      using inv that by (auto simp: due_inv_def queue_inv_def)
    then show ?thesis using pop(3) [OF q] top that(4) by (metis prod.inject)
  qed
  have size: "i < tr_size t" "length (tr_queued_due t) = tr_size t"
    using valid inv by (auto simp: loc_enabled_def due_inv_def queue_inv_def loc_shape_def)
  have "queue_inv (t\<lparr>tr_queue := pq_pop (tr_queue t),
           tr_queued_due := (tr_queued_due t)[i := not_queued]\<rparr>) (set (due @ [i]))"
    unfolding queue_inv_def loc_shape_def
    using inv keep pop(1) [OF q] pop(4) [OF q] size
    by (auto simp: due_inv_def queue_inv_def loc_shape_def nth_list_update)
  then show ?thesis
    using inv fresh due d valid unfolding due_inv_def by auto
qed

lemma erase_queue [simp]:
  "erase (t\<lparr>tr_queue := q\<rparr>) = erase t"
  "erase (t\<lparr>tr_queue := q, tr_queued_due := d\<rparr>) = erase t"
  by (simp_all add: erase_def)

lemma collect_due_correct:
  assumes "due_inv ts t due" "collect_due ts t due = (t', due')"
  shows "due_inv ts t' due' \<and> erase t' = erase t \<and>
    (pq_empty (tr_queue t') \<or> ts < fst (pq_top (tr_queue t')))"
  using assms
proof (induction "length (tr_queue t)" arbitrary: t due rule: less_induct)
  case less
  show ?case
  proof (cases "pq_empty (tr_queue t) \<or> ts < fst (pq_top (tr_queue t))")
    case True
    then show ?thesis using less.prems by (simp add: collect_due_stop)
  next
    case False
    obtain d i where top: "pq_top (tr_queue t) = (d, i)" by (cases "pq_top (tr_queue t)")
    with False have ne: "\<not> pq_empty (tr_queue t)" and d: "d \<le> ts" by auto
    have len: "length (pq_pop (tr_queue t)) < length (tr_queue t)"
      using ne by (auto simp: pq_defs)
    show ?thesis
    proof (cases "\<not> loc_enabled t i \<or> tr_queued_due t ! i \<noteq> d")
      case True
      have "due_inv ts (t\<lparr>tr_queue := pq_pop (tr_queue t)\<rparr>) due"
        using less.prems(1) ne top True by (rule due_inv_skip)
      moreover have "collect_due ts (t\<lparr>tr_queue := pq_pop (tr_queue t)\<rparr>) due = (t', due')"
        using less.prems(2) True by (simp add: collect_due_step [OF ne top d])
      ultimately show ?thesis using less.hyps [of "t\<lparr>tr_queue := pq_pop (tr_queue t)\<rparr>"] len by simp
    next
      case False
      let ?t = "t\<lparr>tr_queue := pq_pop (tr_queue t),
                 tr_queued_due := (tr_queued_due t)[i := not_queued]\<rparr>"
      have "due_inv ts ?t (due @ [i])"
        using less.prems(1) ne top d False by (intro due_inv_take) auto
      moreover have "collect_due ts ?t (due @ [i]) = (t', due')"
        using less.prems(2) False by (simp add: collect_due_step [OF ne top d])
      ultimately show ?thesis using less.hyps [of ?t] len by simp
    qed
  qed
qed


text \<open>When the loop stops, exactly the matured slots have been collected.\<close>

lemma collected_iff_matured:
  assumes inv: "due_inv ts t due" and t: "0 \<le> ts"
    and stop: "pq_empty (tr_queue t) \<or> ts < fst (pq_top (tr_queue t))"
  shows "i \<in> set due \<longleftrightarrow> matured ts t i"
proof
  assume "i \<in> set due"
  then show "matured ts t i" using inv by (auto simp: due_inv_def matured_def due_at_def split: if_splits)
next
  assume m: "matured ts t i"
  show "i \<in> set due"
  proof (rule ccontr)
    assume "i \<notin> set due"
    then have e: "(due_at t i, i) \<in> set (tr_queue t)"
      using inv m by (auto simp: due_inv_def queue_inv_def matured_def loc_enabled_def)
    then have "pq_top (tr_queue t) \<le> (due_at t i, i)"
      using inv billing_queue.top_least [of "tr_queue t" "(due_at t i, i)"]
      by (auto simp: due_inv_def queue_inv_def)
    then have "fst (pq_top (tr_queue t)) \<le> due_at t i" by (auto simp: less_eq_prod_def)
    moreover have "\<not> pq_empty (tr_queue t)" using e by (auto simp: pq_empty_def)
    ultimately have "ts < due_at t i" using stop by simp
    then show False using m t by (auto simp: matured_def due_at_def split: if_splits)
  qed
qed

lemma matured_erase [simp]: "matured ts (erase t) = matured ts t"
  by (simp add: matured_def erase_def loc_enabled_def fun_eq_iff)

lemma size_erase [simp]: "tr_size (erase t) = tr_size t"
  by (simp add: erase_def)

lemma collect_due_matured:
  assumes "loc_inv t" "0 \<le> ts" "collect_due ts t [] = (t', due)"
  shows "sort due = filter (matured ts t) [0..<tr_size t]" "queue_inv t' (set due)"
    "erase t' = erase t"
proof -
  have "due_inv ts t []" using assms(1) by (simp add: due_inv_def loc_inv_def)
  then have c: "due_inv ts t' due" "erase t' = erase t"
    "pq_empty (tr_queue t') \<or> ts < fst (pq_top (tr_queue t'))"
    using collect_due_correct [OF _ assms(3)] by auto
  have m: "matured ts t' = matured ts t" "tr_size t' = tr_size t"
    using c(2) by (metis matured_erase, metis size_erase)
  have "sorted (sort due)" "distinct (sort due)" using c(1) by (auto simp: due_inv_def)
  moreover have "set (sort due) = {i. i < tr_size t \<and> matured ts t i}"
    using collected_iff_matured [OF c(1) assms(2) c(3)] m
    by (auto simp: matured_def loc_enabled_def)
  ultimately show "sort due = filter (matured ts t) [0..<tr_size t]"
    by (rule sorted_distinct_eq_filter_upt)
  show "queue_inv t' (set due)" using c(1) by (simp add: due_inv_def)
  show "erase t' = erase t" by (rule c(2))
qed

subsection \<open>Billing the due slots\<close>

lemma erase_update: "erase (loc_update i c ts t) = loc_update i c ts (erase t)"
  by (simp add: loc_update_def erase_def loc_enabled_def Let_def)

lemma erase_schedule [simp]: "erase (schedule_billing i d t) = erase t"
  by (simp add: erase_def schedule_billing_def)

lemma erase_fields:
  "tr_last_billing (erase t) = tr_last_billing t" "tr_integral (erase t) = tr_integral t"
  "tr_apr (erase t) = tr_apr t"
  "erase (t\<lparr>tr_last_billing := b\<rparr>) = (erase t)\<lparr>tr_last_billing := b\<rparr>"
  "erase (t\<lparr>tr_integral := a\<rparr>) = (erase t)\<lparr>tr_integral := a\<rparr>"
  by (simp_all add: erase_def)

lemma bill_slot_erase:
  "apfst erase (bill_slot ts cash (t, out) i) = scan_bill ts cash (erase t, out) i"
  by (simp add: bill_slot_def scan_bill_def Let_def erase_update [symmetric] erase_fields)

lemma foldl_bill_erase:
  "apfst erase (foldl (bill_slot ts cash) (t, out) is) = foldl (scan_bill ts cash) (erase t, out) is"
proof (induction "is" arbitrary: t out)
  case (Cons i "is")
  obtain t' out' where "bill_slot ts cash (t, out) i = (t', out')" by fastforce
  then show ?case using Cons bill_slot_erase [of ts cash t out i] by (auto simp: apfst_def)
qed simp

lemma schedule_queue_inv:
  assumes "queue_inv (t\<lparr>tr_last_billing := b\<rparr>) taken" "i < tr_size t" "0 \<le> d"
    "d = due_at (t\<lparr>tr_last_billing := b\<rparr>) i" "tr_enabled t ! i"
  shows "queue_inv (schedule_billing i d (t\<lparr>tr_last_billing := b\<rparr>)) (taken - {i})"
  using assms
  by (auto simp: queue_inv_def loc_shape_def schedule_billing_def due_at_def nth_list_update)

lemma rebill_queue_inv:
  assumes "queue_inv t taken" "i \<in> taken" "0 < ts" "i < tr_size t"
  shows "queue_inv (t\<lparr>tr_integral := (tr_integral t)[i := x],
           tr_last_billing := (tr_last_billing t)[i := ts]\<rparr>) taken"
    "queue_inv (t\<lparr>tr_last_billing := (tr_last_billing t)[i := ts]\<rparr>) taken"
  using assms by (auto simp: queue_inv_def loc_shape_def due_at_def nth_list_update)

lemma bill_slot_inv:
  assumes "queue_inv t taken" "i \<in> taken" "0 < ts" "loc_enabled t i"
  shows "queue_inv (fst (bill_slot ts cash (t, out) i)) (taken - {i})"
proof -
  let ?u = "loc_update i (cash i) ts t"
  have u: "queue_inv ?u taken" using assms(1) by (rule loc_update_queue_inv)
  have i: "i < tr_size ?u" "tr_enabled ?u ! i" "length (tr_last_billing ?u) = tr_size ?u"
    using assms(1,4) by (auto simp: loc_enabled_def frame_simps queue_inv_def loc_shape_def)
  have p: "0 \<le> ts + billing_period" "ts \<noteq> 0"
    using assms(3) by (auto simp: billing_period_def seconds_per_day_def)
  have d: "due_at (v\<lparr>tr_last_billing := (tr_last_billing ?u)[i := ts]\<rparr>) i = ts + billing_period"
    for v using p i by (simp add: due_at_def)
  note r = rebill_queue_inv [OF u assms(2,3) i(1)]
  have "queue_inv (schedule_billing i (ts + billing_period)
      (?u\<lparr>tr_last_billing := (tr_last_billing ?u)[i := ts]\<rparr>)) (taken - {i})"
    using r(2) i p by (intro schedule_queue_inv) (simp_all add: d)
  moreover have "queue_inv (schedule_billing i (ts + billing_period)
      ((?u\<lparr>tr_integral := (tr_integral ?u)[i := Fin 0]\<rparr>)
         \<lparr>tr_last_billing := (tr_last_billing ?u)[i := ts]\<rparr>)) (taken - {i})"
    using r(1) i p by (intro schedule_queue_inv) (simp_all add: d)
  ultimately show ?thesis by (auto simp: bill_slot_def Let_def)
qed

lemma bill_slot_frame [frame_simps]:
  "loc_enabled (fst (bill_slot ts cash (t, out) i)) = loc_enabled t"
  "tr_size (fst (bill_slot ts cash (t, out) i)) = tr_size t"
  by (auto simp: bill_slot_def Let_def schedule_billing_def loc_enabled_def frame_simps fun_eq_iff)

lemma foldl_bill_inv:
  assumes "queue_inv t (set is)" "distinct is" "0 < ts" "\<forall>i \<in> set is. loc_enabled t i"
  shows "loc_inv (fst (foldl (bill_slot ts cash) (t, out) is))"
  using assms
proof (induction "is" arbitrary: t out)
  case (Cons i "is")
  let ?s = "bill_slot ts cash (t, out) i"
  have "queue_inv (fst ?s) (set (i # is) - {i})"
    using Cons.prems by (intro bill_slot_inv) auto
  then have "queue_inv (fst ?s) (set is)" using Cons.prems(2) by simp
  then have "loc_inv (fst (foldl (bill_slot ts cash) (fst ?s, snd ?s) is))"
    using Cons.prems by (intro Cons.IH) (auto simp: frame_simps)
  then show ?case by simp
qed (simp add: loc_inv_def)

subsection \<open>A sweep is the scan\<close>

lemma loc_sweep_refines_scan:
  assumes "loc_inv t" "0 < ts" "loc_sweep ts cash t = (t', out)"
  shows "scan_sweep ts cash (erase t) = (erase t', out)" "loc_inv t'"
proof -
  obtain u due where c: "collect_due ts t [] = (u, due)" by fastforce
  have t0: "0 \<le> ts" using assms(2) by simp
  note m = collect_due_matured [OF assms(1) t0 c]
  have s: "(t', out) = foldl (bill_slot ts cash) (u, []) (sort due)"
    using assms(3) c by (auto simp: loc_sweep_def split: if_splits)
  have "scan_sweep ts cash (erase t) = foldl (scan_bill ts cash) (erase u, []) (sort due)"
    by (simp add: scan_sweep_def m)
  also have "\<dots> = apfst erase (t', out)" by (simp add: foldl_bill_erase s)
  finally show "scan_sweep ts cash (erase t) = (erase t', out)" by simp
  have "\<forall>i \<in> set (sort due). loc_enabled u i"
  proof
    fix i assume "i \<in> set (sort due)"
    then have "loc_enabled (erase t) i"
      unfolding m(1) by (simp add: matured_def loc_enabled_def erase_def)
    then show "loc_enabled u i" unfolding m(3) [symmetric] by (simp add: loc_enabled_def erase_def)
  qed
  moreover have "distinct (sort due)" unfolding m(1) by (rule filter_upt_distinct)
  ultimately have "loc_inv (fst (foldl (bill_slot ts cash) (u, []) (sort due)))"
    using m(2) assms(2) by (intro foldl_bill_inv) auto
  then show "loc_inv t'" by (simp flip: s)
qed

subsection \<open>Histories of tracker calls\<close>

datatype loc_op =
    LocEnable nat f64 int
  | LocDisable nat
  | LocUpdate nat f64 i64
  | LocSweep i64 "nat \<Rightarrow> f64"

fun loc_step :: "tracker \<Rightarrow> loc_op \<Rightarrow> tracker \<times> accrual list" where
  "loc_step t (LocEnable i apr day) = (loc_enable i apr day t, [])"
| "loc_step t (LocDisable i) = (loc_disable i t, [])"
| "loc_step t (LocUpdate i cash ts) = (loc_update i cash ts t, [])"
| "loc_step t (LocSweep ts cash) = loc_sweep ts cash t"

fun scan_step :: "tracker \<Rightarrow> loc_op \<Rightarrow> tracker \<times> accrual list" where
  "scan_step t (LocEnable i apr day) = (erase (loc_enable i apr day t), [])"
| "scan_step t (LocDisable i) = (erase (loc_disable i t), [])"
| "scan_step t (LocUpdate i cash ts) = (loc_update i cash ts t, [])"
| "scan_step t (LocSweep ts cash) = scan_sweep ts cash t"

text \<open>A run collects the bills of all its sweeps, one list per call.\<close>

fun run_steps ::
    "(tracker \<Rightarrow> loc_op \<Rightarrow> tracker \<times> accrual list) \<Rightarrow> tracker \<Rightarrow> loc_op list \<Rightarrow>
       tracker \<times> accrual list list" where
  "run_steps step t [] = (t, [])"
| "run_steps step t (p # ps) =
     (let (t, out) = step t p; (t, outs) = run_steps step t ps in (t, out # outs))"

text \<open>What the callers keep: slots in range and sweeps at instants after the epoch.\<close>

fun op_ok :: "nat \<Rightarrow> loc_op \<Rightarrow> bool" where
  "op_ok n (LocEnable i _ _) = (i < n)"
| "op_ok n (LocDisable i) = (i < n)"
| "op_ok n (LocUpdate _ _ _) = True"
| "op_ok n (LocSweep ts _) = (0 < ts)"

lemma erase_enable: "erase (loc_enable i apr day (erase t)) = erase (loc_enable i apr day t)"
  by (simp add: loc_enable_def schedule_billing_def erase_def)

lemma erase_disable: "erase (loc_disable i (erase t)) = erase (loc_disable i t)"
  by (simp add: loc_disable_def erase_def)

lemma scan_step_size [frame_simps]: "tr_size (fst (scan_step t p)) = tr_size t"
proof -
  have "tr_size (fst (scan_bill ts cash s i)) = tr_size (fst s)" for ts cash s i
    by (cases s) (simp add: scan_bill_def Let_def frame_simps)
  then have "tr_size (fst (foldl (scan_bill ts cash) s is)) = tr_size (fst s)" for ts cash s "is"
    by (induction "is" arbitrary: s) auto
  then show ?thesis
    by (cases p) (auto simp: loc_enable_def schedule_billing_def loc_disable_def scan_sweep_def
        frame_simps)
qed

lemma loc_step_refines:
  assumes "loc_inv t" "op_ok (tr_size t) p"
  shows "scan_step (erase t) p = apfst erase (loc_step t p)" "loc_inv (fst (loc_step t p))"
proof -
  have "scan_step (erase t) p = apfst erase (loc_step t p) \<and> loc_inv (fst (loc_step t p))"
  proof (cases p)
    case (LocSweep ts cash)
    obtain t' out where "loc_sweep ts cash t = (t', out)" by fastforce
    then show ?thesis using loc_sweep_refines_scan assms LocSweep by simp
  qed (use assms in \<open>auto simp: erase_enable erase_disable erase_update
         intro: loc_enable_inv loc_disable_inv loc_update_inv\<close>)
  then show "scan_step (erase t) p = apfst erase (loc_step t p)" "loc_inv (fst (loc_step t p))"
    by auto
qed

lemma loc_step_size: "loc_inv t \<Longrightarrow> op_ok (tr_size t) p \<Longrightarrow> tr_size (fst (loc_step t p)) = tr_size t"
  using scan_step_size [of "erase t" p] by (simp add: loc_step_refines(1))

lemma run_refines:
  assumes "loc_inv t" "list_all (op_ok (tr_size t)) ps"
  shows "run_steps scan_step (erase t) ps = apfst erase (run_steps loc_step t ps)
    \<and> loc_inv (fst (run_steps loc_step t ps))"
  using assms
proof (induction ps arbitrary: t)
  case (Cons p ps)
  obtain t' out where s: "loc_step t p = (t', out)" by fastforce
  have p: "op_ok (tr_size t) p" "list_all (op_ok (tr_size t)) ps" using Cons.prems by auto
  have "loc_inv t'" "tr_size t' = tr_size t"
    using loc_step_refines(2) [OF Cons.prems(1) p(1)] loc_step_size [OF Cons.prems(1) p(1)] s by auto
  then have IH: "run_steps scan_step (erase t') ps = apfst erase (run_steps loc_step t' ps)
      \<and> loc_inv (fst (run_steps loc_step t' ps))"
    using Cons.IH p by simp
  have "scan_step (erase t) p = (erase t', out)"
    using loc_step_refines(1) [OF Cons.prems(1) p(1)] s by simp
  then show ?case using IH s by (cases "run_steps loc_step t' ps") (auto simp: Let_def)
qed simp

lemma loc_copy_state_inv:
  assumes "loc_inv other" "loc_inv t" "tr_size other = tr_size t" "tr_enabled other = tr_enabled t"
  shows "loc_inv (loc_copy_state other t)"
  using assms
  by (auto simp: loc_inv_def queue_inv_def loc_shape_def loc_copy_state_def due_at_def)

subsection \<open>What a sweep bills\<close>

definition period_passed :: "i64 \<Rightarrow> tracker \<Rightarrow> nat \<Rightarrow> bool" where
  "period_passed ts t i = (loc_enabled t i \<and> tr_last_billing t ! i \<noteq> 0 \<and>
     billing_period \<le> ts - tr_last_billing t ! i)"

lemma scan_bill_out:
  assumes "i < length (tr_last_billing t)"
  shows "snd (scan_bill ts cash (t, out) i) = out \<or>
    (tr_last_billing t ! i \<noteq> 0 \<and> (\<exists>x. flt (Fin 0) x \<and>
      snd (scan_bill ts cash (t, out) i) = out @ [\<lparr>ac_index = i, ac_interest = x, ac_time = ts\<rparr>]))"
    "j \<noteq> i \<Longrightarrow> tr_last_billing (fst (scan_bill ts cash (t, out) i)) ! j = tr_last_billing t ! j"
    "length (tr_last_billing (fst (scan_bill ts cash (t, out) i))) = length (tr_last_billing t)"
  by (auto simp: scan_bill_def Let_def frame_simps)

lemma scan_fold_out:
  assumes "sorted_wrt (<) is" "\<forall>i \<in> set is. i < length (tr_last_billing t)"
  shows "\<exists>more. snd (foldl (scan_bill ts cash) (t, out) is) = out @ more \<and>
    sorted_wrt (<) (map ac_index more) \<and>
    (\<forall>a \<in> set more. ac_index a \<in> set is \<and> ac_time a = ts \<and> flt (Fin 0) (ac_interest a) \<and>
       tr_last_billing t ! ac_index a \<noteq> 0)"
  using assms
proof (induction "is" arbitrary: t out)
  case (Cons i "is")
  obtain t' out' where s: "scan_bill ts cash (t, out) i = (t', out')" by fastforce
  have i: "i < length (tr_last_billing t)" using Cons.prems by simp
  note b = scan_bill_out [OF i, where ts = ts and cash = cash and out = out, unfolded s fst_conv snd_conv]
  have "\<forall>j \<in> set is. j < length (tr_last_billing t')" using Cons.prems(2) b(3) by simp
  then obtain more where m: "snd (foldl (scan_bill ts cash) (t', out') is) = out' @ more"
    "sorted_wrt (<) (map ac_index more)"
    "\<forall>a \<in> set more. ac_index a \<in> set is \<and> ac_time a = ts \<and> flt (Fin 0) (ac_interest a) \<and>
       tr_last_billing t' ! ac_index a \<noteq> 0"
    using Cons.IH [of t' out'] Cons.prems(1) by auto
  have later: "\<forall>a \<in> set more. i < ac_index a" using m(3) Cons.prems(1) by auto
  then have old: "\<forall>a \<in> set more. tr_last_billing t ! ac_index a \<noteq> 0"
    using m(3) b(2) by (metis less_irrefl_nat)
  from b(1) show ?case
  proof (elim disjE conjE exE)
    assume "out' = out"
    then show ?thesis using m old s by (intro exI [of _ more]) auto
  next
    fix x assume "tr_last_billing t ! i \<noteq> 0" "flt (Fin 0) x"
      "out' = out @ [\<lparr>ac_index = i, ac_interest = x, ac_time = ts\<rparr>]"
    then show ?thesis using m old s later
      by (intro exI [of _ "\<lparr>ac_index = i, ac_interest = x, ac_time = ts\<rparr> # more"]) auto
  qed
qed simp

lemma loc_sweep_out:
  assumes "loc_inv t" "0 < ts" "loc_sweep ts cash t = (t', out)"
  shows "sorted_wrt (<) (map ac_index out)"
    "\<forall>a \<in> set out. period_passed ts t (ac_index a) \<and> ac_time a = ts \<and> flt (Fin 0) (ac_interest a)"
proof -
  let ?is = "filter (matured ts t) [0..<tr_size t]"
  have "out = snd (foldl (scan_bill ts cash) (erase t, []) ?is)"
    using loc_sweep_refines_scan(1) [OF assms] by (simp add: scan_sweep_def)
  moreover have "sorted_wrt (<) ?is" by (simp add: sorted_wrt_filter)
  moreover have "\<forall>i \<in> set ?is. i < length (tr_last_billing (erase t))"
    using assms(1) by (auto simp: erase_def loc_inv_def queue_inv_def loc_shape_def)
  ultimately have o: "sorted_wrt (<) (map ac_index out) \<and>
    (\<forall>a \<in> set out. ac_index a \<in> set ?is \<and> ac_time a = ts \<and> flt (Fin 0) (ac_interest a) \<and>
       tr_last_billing t ! ac_index a \<noteq> 0)"
    using scan_fold_out [of ?is "erase t" ts cash "[]"] by (auto simp: erase_fields)
  then show "sorted_wrt (<) (map ac_index out)" by blast
  show "\<forall>a \<in> set out. period_passed ts t (ac_index a) \<and> ac_time a = ts \<and> flt (Fin 0) (ac_interest a)"
    using o by (auto simp: period_passed_def matured_def)
qed

subsection \<open>The interface the ledger relies on\<close>

text \<open>
  The ledger knows the tracker by its calls only: which slots are enabled, that every call
  keeps the tracker consistent, and that a sweep bills enabled slots.
\<close>

locale accrual_tracker =
  fixes inv :: "'t \<Rightarrow> bool"
    and slots :: "'t \<Rightarrow> nat"
    and enabled :: "'t \<Rightarrow> nat \<Rightarrow> bool"
    and enable :: "nat \<Rightarrow> f64 \<Rightarrow> int \<Rightarrow> 't \<Rightarrow> 't"
    and disable :: "nat \<Rightarrow> 't \<Rightarrow> 't"
    and update :: "nat \<Rightarrow> f64 \<Rightarrow> i64 \<Rightarrow> 't \<Rightarrow> 't"
    and sweep :: "i64 \<Rightarrow> (nat \<Rightarrow> f64) \<Rightarrow> 't \<Rightarrow> 't \<times> accrual list"
  assumes enable_inv: "inv t \<Longrightarrow> i < slots t \<Longrightarrow> inv (enable i apr day t)"
    and disable_inv: "inv t \<Longrightarrow> i < slots t \<Longrightarrow> inv (disable i t)"
    and update_inv: "inv t \<Longrightarrow> inv (update i c ts t)"
    and sweep_inv: "inv t \<Longrightarrow> 0 < ts \<Longrightarrow> inv (fst (sweep ts cash t))"
    and slots_frame: "slots (enable i apr day t) = slots t" "slots (disable i t) = slots t"
      "slots (update i c ts t) = slots t"
    and slots_sweep: "inv t \<Longrightarrow> 0 < ts \<Longrightarrow> slots (fst (sweep ts cash t)) = slots t"
    and enabled_enable: "inv t \<Longrightarrow> i < slots t \<Longrightarrow>
      enabled (enable i apr day t) j \<longleftrightarrow> j = i \<or> enabled t j"
    and enabled_disable: "inv t \<Longrightarrow> i < slots t \<Longrightarrow>
      enabled (disable i t) j \<longleftrightarrow> j \<noteq> i \<and> enabled t j"
    and enabled_update: "enabled (update i c ts t) = enabled t"
    and enabled_sweep: "inv t \<Longrightarrow> 0 < ts \<Longrightarrow> enabled (fst (sweep ts cash t)) = enabled t"
    and sweep_enabled: "inv t \<Longrightarrow> 0 < ts \<Longrightarrow> a \<in> set (snd (sweep ts cash t)) \<Longrightarrow>
      enabled t (ac_index a)"
    and enabled_slot: "inv t \<Longrightarrow> enabled t i \<Longrightarrow> i < slots t"
begin

lemma billed_slot:
  "inv t \<Longrightarrow> 0 < ts \<Longrightarrow> a \<in> set (snd (sweep ts cash t)) \<Longrightarrow> ac_index a < slots t"
  using sweep_enabled enabled_slot by blast

text \<open>A table of types stays the enablement of the tracker when both are set together.\<close>

lemma agree_enable:
  assumes "inv t" "i < slots t" "length ps = slots t" "\<forall>j < slots t. enabled t j \<longleftrightarrow> P (ps ! j)" "P p"
  shows "\<forall>j < slots t. enabled (enable i apr day t) j \<longleftrightarrow> P (ps[i := p] ! j)"
  using assms by (auto simp: enabled_enable nth_list_update)

lemma agree_disable:
  assumes "inv t" "i < slots t" "length ps = slots t" "\<forall>j < slots t. enabled t j \<longleftrightarrow> P (ps ! j)" "\<not> P p"
  shows "\<forall>j < slots t. enabled (disable i t) j \<longleftrightarrow> P (ps[i := p] ! j)"
  using assms by (auto simp: enabled_disable nth_list_update)

end

lemma scan_sweep_frame:
  "tr_enabled (fst (foldl (scan_bill ts cash) s is)) = tr_enabled (fst s)"
  "tr_apr (fst (foldl (scan_bill ts cash) s is)) = tr_apr (fst s)"
  "tr_billing_day (fst (foldl (scan_bill ts cash) s is)) = tr_billing_day (fst s)"
  "tr_size (fst (foldl (scan_bill ts cash) s is)) = tr_size (fst s)"
proof -
  have b: "tr_enabled (fst (scan_bill ts cash s i)) = tr_enabled (fst s)"
    "tr_apr (fst (scan_bill ts cash s i)) = tr_apr (fst s)"
    "tr_billing_day (fst (scan_bill ts cash s i)) = tr_billing_day (fst s)"
    "tr_size (fst (scan_bill ts cash s i)) = tr_size (fst s)" for s i
    by (cases s; simp add: scan_bill_def Let_def frame_simps)+
  show "tr_enabled (fst (foldl (scan_bill ts cash) s is)) = tr_enabled (fst s)"
    "tr_apr (fst (foldl (scan_bill ts cash) s is)) = tr_apr (fst s)"
    "tr_billing_day (fst (foldl (scan_bill ts cash) s is)) = tr_billing_day (fst s)"
    "tr_size (fst (foldl (scan_bill ts cash) s is)) = tr_size (fst s)"
    by (induction "is" arbitrary: s) (simp_all add: b)
qed

lemma loc_sweep_frame:
  assumes "loc_inv t" "0 < ts"
  shows "tr_enabled (fst (loc_sweep ts cash t)) = tr_enabled t"
    "tr_apr (fst (loc_sweep ts cash t)) = tr_apr t"
    "tr_billing_day (fst (loc_sweep ts cash t)) = tr_billing_day t"
    "tr_size (fst (loc_sweep ts cash t)) = tr_size t"
proof -
  obtain t' out where s: "loc_sweep ts cash t = (t', out)" by fastforce
  have e: "fst (scan_sweep ts cash (erase t)) = erase t'"
    using loc_sweep_refines_scan(1) [OF assms s] by simp
  have f: "tr_enabled (erase u) = tr_enabled u" "tr_apr (erase u) = tr_apr u"
    "tr_billing_day (erase u) = tr_billing_day u" for u by (simp_all add: erase_def)
  show "tr_enabled (fst (loc_sweep ts cash t)) = tr_enabled t"
    "tr_apr (fst (loc_sweep ts cash t)) = tr_apr t"
    "tr_billing_day (fst (loc_sweep ts cash t)) = tr_billing_day t"
    "tr_size (fst (loc_sweep ts cash t)) = tr_size t"
    unfolding s fst_conv f [of t', symmetric] size_erase [of t', symmetric] e [symmetric]
      scan_sweep_def scan_sweep_frame
    by (simp_all add: f)
qed

interpretation loc: accrual_tracker loc_inv tr_size loc_enabled loc_enable loc_disable loc_update
  loc_sweep
proof
  fix t ts cash i j apr day a
  show "loc_enabled (loc_update i c ts t) = loc_enabled t" for c
    by (simp add: loc_enabled_def frame_simps fun_eq_iff)
  show "tr_size (loc_update i c ts t) = tr_size t" for c by (simp add: frame_simps)
  show "loc_inv t \<Longrightarrow> loc_inv (loc_update i c ts t)" for c by (rule loc_update_inv)
  assume inv: "loc_inv t"
  show "i < tr_size t \<Longrightarrow> loc_inv (loc_enable i apr day t)" using inv by (rule loc_enable_inv)
  show "i < tr_size t \<Longrightarrow> loc_inv (loc_disable i t)" using inv by (rule loc_disable_inv)
  have len: "length (tr_enabled t) = tr_size t"
    using inv by (simp add: loc_inv_def queue_inv_def loc_shape_def)
  show "i < tr_size t \<Longrightarrow> loc_enabled (loc_enable i apr day t) j = (j = i \<or> loc_enabled t j)"
    using len by (auto simp: loc_enabled_def loc_enable_def schedule_billing_def nth_list_update)
  show "i < tr_size t \<Longrightarrow> loc_enabled (loc_disable i t) j = (j \<noteq> i \<and> loc_enabled t j)"
    using len by (auto simp: loc_enabled_def loc_disable_def nth_list_update)
  show "loc_enabled t i \<Longrightarrow> i < tr_size t" by (simp add: loc_enabled_def)
  assume ts: "0 < ts"
  show "loc_inv (fst (loc_sweep ts cash t))"
    using loc_sweep_refines_scan(2) [OF inv ts] by (metis prod.collapse)
  show "tr_size (fst (loc_sweep ts cash t)) = tr_size t" by (rule loc_sweep_frame [OF inv ts])
  show "loc_enabled (fst (loc_sweep ts cash t)) = loc_enabled t"
    by (simp add: loc_enabled_def fun_eq_iff loc_sweep_frame [OF inv ts])
  show "a \<in> set (snd (loc_sweep ts cash t)) \<Longrightarrow> loc_enabled t (ac_index a)"
    using loc_sweep_out(2) [OF inv ts] by (metis prod.collapse period_passed_def)
qed (simp_all add: loc_enable_def loc_disable_def schedule_billing_def)

end
