(* ===== verification/Identifiers.thy ===== *)
theory Identifiers
  imports Prelude "HOL-Library.Product_Lexorder"
begin

text \<open>
  Entity keys: the roles and banks of \<open>taxonomies/identifiers\<close>, \<open>entity::Key\<close> of
  \<open>entities/identifiers.hpp\<close>, and the boundary policies of
  \<open>entities/counterparties/boundary.hpp\<close> that external keys carry in the ledger.

  A key orders by role, bank and number, as the defaulted \<open>operator<=>\<close> does; the order is
  the instance of \<^theory_text>\<open>linorder\<close> below, so that sorting by keys is the library's.
\<close>

subsection \<open>Roles and banks\<close>

datatype role =
    RCustomer | RAccount | RMerchant | REmployer | RLandlord | RClient | RPlatform | RProcessor
  | RFamily | RBusiness | RBrokerage | RCard | RLedger

datatype bank = Internal | External

datatype bank_mode = InternalOnly | ExternalOnly | Either

fun role_index :: "role \<Rightarrow> nat" where
  "role_index RCustomer = 0"
| "role_index RAccount = 1"
| "role_index RMerchant = 2"
| "role_index REmployer = 3"
| "role_index RLandlord = 4"
| "role_index RClient = 5"
| "role_index RPlatform = 6"
| "role_index RProcessor = 7"
| "role_index RFamily = 8"
| "role_index RBusiness = 9"
| "role_index RBrokerage = 10"
| "role_index RCard = 11"
| "role_index RLedger = 12"

definition roles :: "role list" where
  "roles = [RCustomer, RAccount, RMerchant, REmployer, RLandlord, RClient, RPlatform, RProcessor,
     RFamily, RBusiness, RBrokerage, RCard, RLedger]"

definition bank_mode_entries :: "(role \<times> bank_mode) list" where
  "bank_mode_entries =
    [(RCustomer, InternalOnly), (RAccount, InternalOnly), (RMerchant, Either),
     (REmployer, Either), (RLandlord, Either), (RClient, Either), (RPlatform, ExternalOnly),
     (RProcessor, ExternalOnly), (RFamily, ExternalOnly), (RBusiness, Either),
     (RBrokerage, Either), (RCard, InternalOnly), (RLedger, InternalOnly)]"

text \<open>\<open>coversEveryRoleOnce\<close> counts each slot; \<open>bankModeTable\<close> fills an array by role.\<close>

definition covers_every_role_once :: bool where
  "covers_every_role_once =
     (let seen = foldl (\<lambda>seen e. seen[role_index (fst e) := seen ! role_index (fst e) + 1])
                   (replicate (length roles) (0::nat)) bank_mode_entries
      in list_all (\<lambda>e. role_index (fst e) < length roles) bank_mode_entries
         \<and> list_all (\<lambda>count. count = 1) seen)"

definition bank_mode_table :: "bank_mode list" where
  "bank_mode_table =
     foldl (\<lambda>out e. out[role_index (fst e) := snd e])
       (replicate (length roles) InternalOnly) bank_mode_entries"

definition bank_mode_of :: "role \<Rightarrow> bank_mode" where
  "bank_mode_of r = bank_mode_table ! role_index r"

definition allows_bank :: "role \<Rightarrow> bank \<Rightarrow> bool" where
  "allows_bank r b = (case bank_mode_of r of
     InternalOnly \<Rightarrow> b = Internal | ExternalOnly \<Rightarrow> b = External | Either \<Rightarrow> True)"

definition requires_explicit_bank :: "role \<Rightarrow> bool" where
  "requires_explicit_bank r = (bank_mode_of r = Either)"

definition default_bank :: "role \<Rightarrow> bank option" where
  "default_bank r = (case bank_mode_of r of
     InternalOnly \<Rightarrow> Some Internal | ExternalOnly \<Rightarrow> Some External | Either \<Rightarrow> None)"

lemma covers_every_role_once: "covers_every_role_once"
  by code_simp

lemma bank_mode_table_eq:
  "bank_mode_table = [InternalOnly, InternalOnly, Either, Either, Either, Either, ExternalOnly,
     ExternalOnly, ExternalOnly, Either, Either, InternalOnly, InternalOnly]"
  by code_simp

lemma bank_mode_of_simps [simp]:
  "bank_mode_of RCustomer = InternalOnly" "bank_mode_of RAccount = InternalOnly"
  "bank_mode_of RMerchant = Either" "bank_mode_of REmployer = Either"
  "bank_mode_of RLandlord = Either" "bank_mode_of RClient = Either"
  "bank_mode_of RPlatform = ExternalOnly" "bank_mode_of RProcessor = ExternalOnly"
  "bank_mode_of RFamily = ExternalOnly" "bank_mode_of RBusiness = Either"
  "bank_mode_of RBrokerage = Either" "bank_mode_of RCard = InternalOnly"
  "bank_mode_of RLedger = InternalOnly"
  by (simp_all add: bank_mode_of_def bank_mode_table_eq)

text \<open>The table lookup agrees with the entry list it was built from.\<close>

lemma bank_mode_of_entries: "(r, bank_mode_of r) \<in> set bank_mode_entries"
  by (cases r) (simp_all add: bank_mode_entries_def)

lemma default_bank_allowed:
  "default_bank r = Some b \<longleftrightarrow> \<not> requires_explicit_bank r \<and> allows_bank r b"
  by (cases "bank_mode_of r")
    (auto simp: default_bank_def requires_explicit_bank_def allows_bank_def)

subsection \<open>Keys\<close>

datatype key = Key (key_role: role) (key_bank: bank) (key_number: u64)

definition valid_key :: "key \<Rightarrow> bool" where
  "valid_key k = (key_number k \<noteq> 0 \<and> allows_bank (key_role k) (key_bank k))"

definition is_external :: "key \<Rightarrow> bool" where
  "is_external k = (key_bank k = External)"

text \<open>\<open>Key{}\<close>: what a vector of keys is filled with.\<close>

definition default_key :: key where
  "default_key = Key RCustomer Internal 0"

lemma default_key_invalid [simp]: "\<not> valid_key default_key"
  by (simp add: default_key_def valid_key_def)

fun bank_index :: "bank \<Rightarrow> nat" where
  "bank_index Internal = 0"
| "bank_index External = 1"

definition key_rank :: "key \<Rightarrow> nat \<times> nat \<times> nat" where
  "key_rank k = (role_index (key_role k), bank_index (key_bank k), unat (key_number k))"

lemma role_index_inj: "role_index a = role_index b \<longleftrightarrow> a = b"
  by (cases a; cases b) simp_all

lemma bank_index_inj: "bank_index a = bank_index b \<longleftrightarrow> a = b"
  by (cases a; cases b) simp_all

lemma key_rank_inj: "key_rank a = key_rank b \<longleftrightarrow> a = b"
  by (cases a; cases b) (auto simp: key_rank_def role_index_inj bank_index_inj word_unat_eq_iff)

instantiation key :: linorder
begin

definition less_eq_key :: "key \<Rightarrow> key \<Rightarrow> bool" where
  "less_eq_key a b = (key_rank a \<le> key_rank b)"

definition less_key :: "key \<Rightarrow> key \<Rightarrow> bool" where
  "less_key a b = (key_rank a < key_rank b)"

instance
proof
  fix a b c :: key
  show "(a < b) = (a \<le> b \<and> \<not> b \<le> a)"
    unfolding less_key_def less_eq_key_def by (rule less_le_not_le)
  show "a \<le> a" by (simp add: less_eq_key_def)
  show "a \<le> b \<Longrightarrow> b \<le> c \<Longrightarrow> a \<le> c" unfolding less_eq_key_def by (rule order_trans)
  show "a \<le> b \<Longrightarrow> b \<le> a \<Longrightarrow> a = b"
    unfolding less_eq_key_def using key_rank_inj [of a b] by simp
  show "a \<le> b \<or> b \<le> a" unfolding less_eq_key_def by (rule linear)
qed

end

subsection \<open>Boundary policies\<close>

datatype boundary_kind =
  GenericCounterparty | AtmTerminal | CashDepository | CheckCapture | CryptoVenue

datatype flow = Inbound | Outbound

fun flow_bit :: "flow \<Rightarrow> u8" where
  "flow_bit Inbound = push_bit 0 1"
| "flow_bit Outbound = push_bit 1 1"

record policy =
  pol_kind :: boundary_kind
  pol_flows :: u8

unbundle bit_operations_syntax

definition both_flows :: u8 where
  "both_flows = flow_bit Inbound OR flow_bit Outbound"

definition generic_policy :: policy where
  "generic_policy = \<lparr>pol_kind = GenericCounterparty, pol_flows = both_flows\<rparr>"

definition policy_allows :: "policy \<Rightarrow> flow \<Rightarrow> bool" where
  "policy_allows p f = (pol_flows p AND flow_bit f \<noteq> 0)"

definition policy_typed :: "policy \<Rightarrow> bool" where
  "policy_typed p = (pol_kind p \<noteq> GenericCounterparty)"

lemma generic_policy_facts [simp]:
  "policy_allows generic_policy f" "\<not> policy_typed generic_policy"
  by (cases f; simp add: generic_policy_def policy_allows_def both_flows_def)
    (simp add: generic_policy_def policy_typed_def)

text \<open>A policy is determined, for the checks made of it, by its two flow bits.\<close>

lemma policy_allows_bit:
  "policy_allows p Inbound = bit (pol_flows p) 0" "policy_allows p Outbound = bit (pol_flows p) 1"
  by (simp_all add: policy_allows_def bit_iff_and_push_bit_not_eq_0)

end
