(* ===== verification/Ledger.thy ===== *)
theory Ledger
  imports LocAccrual Identifiers Channels
begin

text \<open>
  \<open>transactions/clearing/ledger\<close>: the customer ledger every candidate payment is posted
  against. Only keys of \<open>Bank::internal\<close> have a slot; an external key is a boundary with
  a policy. A transfer is decided (\<open>decide\<close>), applied, and may fire an overdraft fee; LOC
  integrals are rolled forward around every cash mutation.

  The C++ object is the record \<open>ledger\<close>. An operation returns the new record, its decision
  and the liquidity events it handed to the installed sink, in order. A \<open>TransferDecision\<close>
  is an optional reject reason. A slot index that is neither \<open>invalid\<close> nor below \<open>size_\<close>
  is undefined behaviour in the sources (an \<open>assert\<close>); the model leaves it unspecified (an
  out-of-range read), and the invariant shows that key postings never produce one.
\<close>

subsection \<open>taxonomies/clearing/types.hpp, the decision and the boundary contract\<close>

datatype reject_reason = RejInvalid | RejUnbooked | RejUnfunded

datatype protection = ProtNone | ProtCourtesy | ProtLinked | ProtLoc

datatype bank_tier = ZeroFee | ReducedFee | StandardFee

type_synonym decision = "reject_reason option"

definition accept :: decision where
  "accept = None"

definition reject :: "reject_reason \<Rightarrow> decision" where
  "reject r = Some r"

definition accepted :: "decision \<Rightarrow> bool" where
  "accepted d = (d = None)"

text \<open>\<open>TransferDecision::reason\<close> throws on an accepted transfer.\<close>

definition decision_reason :: "decision \<Rightarrow> reject_reason result" where
  "decision_reason d = (case d of
     None \<Rightarrow> Inl (LogicError ''accepted transfer does not carry a reject reason'')
   | Some r \<Rightarrow> Inr r)"

record boundary_requirement =
  br_kind :: boundary_kind
  br_flow :: flow

definition boundary_requirement :: "tag \<Rightarrow> boundary_requirement option" where
  "boundary_requirement ch =
     (if tag_is ch (Legit LegAtm) then Some \<lparr>br_kind = AtmTerminal, br_flow = Outbound\<rparr>
      else if tag_is ch (Legit LegCashDeposit)
        then Some \<lparr>br_kind = CashDepository, br_flow = Inbound\<rparr>
      else if tag_is ch (Deposit DepCheckDeposit)
        then Some \<lparr>br_kind = CheckCapture, br_flow = Inbound\<rparr>
      else if tag_is ch (Crypto CryRampOut) then Some \<lparr>br_kind = CryptoVenue, br_flow = Outbound\<rparr>
      else if tag_is ch (Crypto CryRampIn) then Some \<lparr>br_kind = CryptoVenue, br_flow = Inbound\<rparr>
      else None)"

definition allows_typed_boundary :: "policy \<Rightarrow> tag \<Rightarrow> flow \<Rightarrow> bool" where
  "allows_typed_boundary p ch actual =
     (let required = boundary_requirement ch in
      if \<not> policy_typed p then required = None
      else (case required of
              None \<Rightarrow> False
            | Some r \<Rightarrow> br_kind r = pol_kind p \<and> br_flow r = actual \<and> policy_allows p actual))"

definition crossed :: "f64 \<Rightarrow> f64 \<Rightarrow> bool" where
  "crossed before after = (fle (Fin 0) before \<and> flt after (Fin 0))"

text \<open>\<open>assessOverdraftFee\<close>: the fee that fires, if one does.\<close>

definition assess_overdraft_fee ::
    "protection \<Rightarrow> tag \<Rightarrow> f64 \<Rightarrow> f64 \<Rightarrow> f64 \<Rightarrow> f64 option" where
  "assess_overdraft_fee prot ch before after fee =
     (if prot \<noteq> ProtCourtesy \<and> prot \<noteq> ProtLinked then None
      else if is_liquidity ch \<or> fle fee (Fin 0) then None
      else if \<not> crossed before after then None
      else Some fee)"

subsection \<open>The ledger\<close>

definition invalid_index :: nat where
  "invalid_index = 2 ^ 32 - 1"

record ledger =
  lg_size :: nat
  lg_cash :: "f64 list"
  lg_overdrafts :: "f64 list"
  lg_linked :: "f64 list"
  lg_courtesy :: "f64 list"
  lg_internal :: "key \<rightharpoonup> nat"
  lg_external :: "key \<rightharpoonup> policy"
  lg_keys :: "key list"
  lg_protection :: "protection list"
  lg_tier :: "bank_tier list"
  lg_fee :: "f64 list"
  lg_loc :: tracker
  lg_sink :: bool
  lg_emit :: bool

record event =
  ev_channel :: tag
  ev_payer :: key
  ev_amount :: f64
  ev_time :: i64

record posting =
  po_src :: nat
  po_dst :: nat
  po_amount :: f64
  po_channel :: tag
  po_time :: i64

record key_posting =
  kp_source :: key
  kp_dest :: key
  kp_amount :: f64
  kp_channel :: tag
  kp_time :: i64

definition ledger_initialize :: "nat \<Rightarrow> ledger" where
  "ledger_initialize n =
     \<lparr>lg_size = n, lg_cash = replicate n (Fin 0), lg_overdrafts = replicate n (Fin 0),
      lg_linked = replicate n (Fin 0), lg_courtesy = replicate n (Fin 0),
      lg_internal = Map.empty, lg_external = Map.empty, lg_keys = replicate n default_key,
      lg_protection = replicate n ProtNone, lg_tier = replicate n ZeroFee,
      lg_fee = replicate n (Fin 0), lg_loc = loc_initialize n, lg_sink = False, lg_emit = True\<rparr>"

definition add_account :: "key \<Rightarrow> nat \<Rightarrow> policy \<Rightarrow> ledger \<Rightarrow> ledger" where
  "add_account k idx pol l =
     (let l = l\<lparr>lg_keys := (lg_keys l)[idx := k]\<rparr>
      in if is_external k then l\<lparr>lg_external := (lg_external l)(k \<mapsto> pol)\<rparr>
         else l\<lparr>lg_internal := (lg_internal l)(k \<mapsto> idx)\<rparr>)"

definition add_account_generic :: "key \<Rightarrow> nat \<Rightarrow> ledger \<Rightarrow> ledger" where
  "add_account_generic k idx l = add_account k idx generic_policy l"

definition index_valid :: "ledger \<Rightarrow> nat \<Rightarrow> bool" where
  "index_valid l idx = (idx \<noteq> invalid_index \<and> idx < lg_size l)"

text \<open>The accessors that return a mutable reference, as a setter each.\<close>

definition set_cash :: "nat \<Rightarrow> f64 \<Rightarrow> ledger \<Rightarrow> ledger" where
  "set_cash idx v l = l\<lparr>lg_cash := (lg_cash l)[idx := v]\<rparr>"

definition set_overdraft :: "nat \<Rightarrow> f64 \<Rightarrow> ledger \<Rightarrow> ledger" where
  "set_overdraft idx v l = l\<lparr>lg_overdrafts := (lg_overdrafts l)[idx := v]\<rparr>"

definition set_linked :: "nat \<Rightarrow> f64 \<Rightarrow> ledger \<Rightarrow> ledger" where
  "set_linked idx v l = l\<lparr>lg_linked := (lg_linked l)[idx := v]\<rparr>"

definition set_courtesy :: "nat \<Rightarrow> f64 \<Rightarrow> ledger \<Rightarrow> ledger" where
  "set_courtesy idx v l = l\<lparr>lg_courtesy := (lg_courtesy l)[idx := v]\<rparr>"

definition total_liquidity :: "ledger \<Rightarrow> nat \<Rightarrow> f64" where
  "total_liquidity l idx =
     fadd (fadd (fadd (lg_cash l ! idx) (lg_overdrafts l ! idx)) (lg_linked l ! idx))
       (lg_courtesy l ! idx)"

definition liquidity_at :: "ledger \<Rightarrow> nat \<Rightarrow> f64" where
  "liquidity_at l idx = (if \<not> index_valid l idx then Fin 0 else total_liquidity l idx)"

definition available_cash :: "ledger \<Rightarrow> nat \<Rightarrow> f64" where
  "available_cash l idx = (if \<not> index_valid l idx then Fin 0 else lg_cash l ! idx)"

definition find_account :: "ledger \<Rightarrow> key \<Rightarrow> nat" where
  "find_account l k = (case lg_internal l k of None \<Rightarrow> invalid_index | Some i \<Rightarrow> i)"

definition liquidity_of :: "ledger \<Rightarrow> key \<Rightarrow> f64" where
  "liquidity_of l k = liquidity_at l (find_account l k)"

definition available_cash_of :: "ledger \<Rightarrow> key \<Rightarrow> f64" where
  "available_cash_of l k = available_cash l (find_account l k)"

definition set_overdraft_only :: "nat \<Rightarrow> f64 \<Rightarrow> ledger \<Rightarrow> ledger" where
  "set_overdraft_only idx limit l =
     l\<lparr>lg_cash := (lg_cash l)[idx := Fin 0],
       lg_overdrafts := (lg_overdrafts l)[idx := limit],
       lg_linked := (lg_linked l)[idx := Fin 0],
       lg_courtesy := (lg_courtesy l)[idx := Fin 0],
       lg_loc := loc_disable idx (lg_loc l),
       lg_protection := (lg_protection l)[idx :=
         (if flt (Fin 0) limit then ProtCourtesy else ProtNone)]\<rparr>"

definition set_protection :: "nat \<Rightarrow> protection \<Rightarrow> f64 \<Rightarrow> ledger \<Rightarrow> ledger" where
  "set_protection idx prot buffer l =
     (let l = l\<lparr>lg_overdrafts := (lg_overdrafts l)[idx := Fin 0],
                lg_linked := (lg_linked l)[idx := Fin 0],
                lg_courtesy := (lg_courtesy l)[idx := Fin 0],
                lg_protection := (lg_protection l)[idx := prot]\<rparr>
      in case prot of
           ProtNone \<Rightarrow> l\<lparr>lg_loc := loc_disable idx (lg_loc l)\<rparr>
         | ProtCourtesy \<Rightarrow> l\<lparr>lg_courtesy := (lg_courtesy l)[idx := buffer],
                             lg_loc := loc_disable idx (lg_loc l)\<rparr>
         | ProtLinked \<Rightarrow> l\<lparr>lg_linked := (lg_linked l)[idx := buffer],
                           lg_loc := loc_disable idx (lg_loc l)\<rparr>
         | ProtLoc \<Rightarrow> l\<lparr>lg_overdrafts := (lg_overdrafts l)[idx := buffer],
                        lg_loc := loc_enable idx (Fin 0) 0 (lg_loc l)\<rparr>)"

definition set_bank_tier :: "nat \<Rightarrow> bank_tier \<Rightarrow> f64 \<Rightarrow> ledger \<Rightarrow> ledger" where
  "set_bank_tier idx tier fee l =
     l\<lparr>lg_tier := (lg_tier l)[idx := tier], lg_fee := (lg_fee l)[idx := fee]\<rparr>"

definition set_loc :: "nat \<Rightarrow> f64 \<Rightarrow> int \<Rightarrow> ledger \<Rightarrow> ledger" where
  "set_loc idx apr day l =
     (if lg_protection l ! idx \<noteq> ProtLoc then l
      else l\<lparr>lg_loc := loc_enable idx apr day (lg_loc l)\<rparr>)"

definition set_liquidity_sink :: "bool \<Rightarrow> ledger \<Rightarrow> ledger" where
  "set_liquidity_sink installed l = l\<lparr>lg_sink := installed\<rparr>"

definition set_emit_liquidity :: "bool \<Rightarrow> ledger \<Rightarrow> ledger" where
  "set_emit_liquidity emit l = l\<lparr>lg_emit := emit\<rparr>"

subsection \<open>Transfers\<close>

definition decide :: "ledger \<Rightarrow> nat \<Rightarrow> nat \<Rightarrow> f64 \<Rightarrow> tag \<Rightarrow> decision" where
  "decide l src dst amount ch =
     (if fle amount (Fin 0) \<or> \<not> is_finite amount then reject RejInvalid
      else
        let src_external = (src = invalid_index); dst_external = (dst = invalid_index)
        in if src_external \<and> dst_external then reject RejUnbooked
           else if src_external then accept
           else if \<not> is_liquidity ch then
             let spendable = (if tag_is ch (Legit LegSelfTransfer) then lg_cash l ! src
                              else total_liquidity l src)
             in if flt spendable amount then reject RejUnfunded else accept
           else accept)"

text \<open>\<open>applyTransfer\<close> also reports the source's cash before the debit.\<close>

definition apply_transfer :: "posting \<Rightarrow> ledger \<Rightarrow> ledger \<times> decision \<times> f64" where
  "apply_transfer p l =
     (let d = decide l (po_src p) (po_dst p) (po_amount p) (po_channel p)
      in if \<not> accepted d then (l, d, Fin 0)
         else if po_src p = invalid_index then
           (set_cash (po_dst p) (fadd (lg_cash l ! po_dst p) (po_amount p)) l, d, Fin 0)
         else
           let before = lg_cash l ! po_src p;
               l = set_cash (po_src p) (fsub (lg_cash l ! po_src p) (po_amount p)) l;
               l = (if po_dst p \<noteq> invalid_index
                    then set_cash (po_dst p) (fadd (lg_cash l ! po_dst p) (po_amount p)) l
                    else l)
           in (l, d, before))"

definition transfer_untimed :: "nat \<Rightarrow> nat \<Rightarrow> f64 \<Rightarrow> tag \<Rightarrow> ledger \<Rightarrow> ledger \<times> decision" where
  "transfer_untimed src dst amount ch l =
     (let (l, d, _) = apply_transfer
            \<lparr>po_src = src, po_dst = dst, po_amount = amount, po_channel = ch, po_time = 0\<rparr> l
      in (l, d))"

definition loc_touch :: "nat \<Rightarrow> i64 \<Rightarrow> ledger \<Rightarrow> ledger" where
  "loc_touch idx ts l = l\<lparr>lg_loc := loc_update idx (lg_cash l ! idx) ts (lg_loc l)\<rparr>"

definition debit_and_emit :: "nat \<Rightarrow> f64 \<Rightarrow> tag \<Rightarrow> i64 \<Rightarrow> ledger \<Rightarrow> ledger \<times> event list" where
  "debit_and_emit idx amount ch ts l =
     (let l = loc_touch idx ts l;
          l = set_cash idx (fsub (lg_cash l ! idx) amount) l
      in (l, if lg_sink l
             then [\<lparr>ev_channel = ch, ev_payer = lg_keys l ! idx, ev_amount = amount, ev_time = ts\<rparr>]
             else []))"

definition transfer_indexed :: "posting \<Rightarrow> ledger \<Rightarrow> ledger \<times> decision \<times> event list" where
  "transfer_indexed p l =
     (let l = (if index_valid l (po_src p) then loc_touch (po_src p) (po_time p) l else l);
          l = (if index_valid l (po_dst p) then loc_touch (po_dst p) (po_time p) l else l);
          (l, d, before) = apply_transfer p l
      in if \<not> accepted d \<or> \<not> lg_emit l \<or> po_src p = invalid_index then (l, d, [])
         else
           let fee = (if key_role (lg_keys l ! po_src p) = RCard then None
                      else assess_overdraft_fee (lg_protection l ! po_src p) (po_channel p)
                             before (lg_cash l ! po_src p) (lg_fee l ! po_src p))
           in case fee of
                None \<Rightarrow> (l, d, [])
              | Some amount \<Rightarrow>
                  let (l, evs) = debit_and_emit (po_src p) amount
                                   (tag_of (Liquidity LiqOverdraftFee)) (po_time p) l
                  in (l, d, evs))"

text \<open>\<open>boundary_ok\<close>: an external end is registered, and its policy allows the channel.\<close>

definition booked_boundary :: "ledger \<Rightarrow> key \<Rightarrow> bool" where
  "booked_boundary l k = (is_external k \<longrightarrow> lg_external l k \<noteq> None)"

definition boundary_ok :: "ledger \<Rightarrow> key \<Rightarrow> tag \<Rightarrow> flow \<Rightarrow> bool" where
  "boundary_ok l k ch fl =
     (is_external k \<longrightarrow> (case lg_external l k of
        None \<Rightarrow> False | Some pol \<Rightarrow> allows_typed_boundary pol ch fl))"

definition transfer_at :: "key_posting \<Rightarrow> ledger \<Rightarrow> ledger \<times> decision \<times> event list" where
  "transfer_at p l =
     (if \<not> valid_key (kp_source p) \<or> \<not> valid_key (kp_dest p) then (l, reject RejUnbooked, [])
      else if \<not> booked_boundary l (kp_source p) \<or> \<not> booked_boundary l (kp_dest p)
      then (l, reject RejUnbooked, [])
      else if \<not> boundary_ok l (kp_source p) (kp_channel p) Inbound \<or>
              \<not> boundary_ok l (kp_dest p) (kp_channel p) Outbound
      then (l, reject RejUnbooked, [])
      else
        let src = (if is_external (kp_source p) then invalid_index else find_account l (kp_source p));
            dst = (if is_external (kp_dest p) then invalid_index else find_account l (kp_dest p))
        in if \<not> is_external (kp_source p) \<and> src = invalid_index then (l, reject RejUnbooked, [])
           else if \<not> is_external (kp_dest p) \<and> dst = invalid_index then (l, reject RejUnbooked, [])
           else transfer_indexed
                  \<lparr>po_src = src, po_dst = dst, po_amount = kp_amount p,
                   po_channel = kp_channel p, po_time = kp_time p\<rparr> l)"

text \<open>The untimed key overload posts at the sentinel instant 0.\<close>

definition transfer_keys ::
    "key \<Rightarrow> key \<Rightarrow> f64 \<Rightarrow> tag \<Rightarrow> ledger \<Rightarrow> ledger \<times> decision \<times> event list" where
  "transfer_keys src dst amount ch l =
     transfer_at \<lparr>kp_source = src, kp_dest = dst, kp_amount = amount, kp_channel = ch,
                  kp_time = 0\<rparr> l"

fun post_accruals :: "accrual list \<Rightarrow> ledger \<Rightarrow> ledger \<times> event list" where
  "post_accruals [] l = (l, [])"
| "post_accruals (a # as) l =
     (let (l, evs) = debit_and_emit (ac_index a) (ac_interest a)
                       (tag_of (Liquidity LiqLocInterest)) (ac_time a) l;
          (l, more) = post_accruals as l
      in (l, evs @ more))"

definition accrue_loc_interest_through :: "i64 \<Rightarrow> ledger \<Rightarrow> ledger \<times> event list" where
  "accrue_loc_interest_through ts l =
     (let (t, due) = loc_sweep ts (\<lambda>idx. lg_cash l ! idx) (lg_loc l);
          l = l\<lparr>lg_loc := t\<rparr>
      in if \<not> lg_emit l then (l, []) else post_accruals due l)"

definition restore_ledger :: "ledger \<Rightarrow> ledger \<Rightarrow> ledger" where
  "restore_ledger other l =
     l\<lparr>lg_cash := lg_cash other, lg_overdrafts := lg_overdrafts other,
       lg_linked := lg_linked other, lg_courtesy := lg_courtesy other,
       lg_loc := loc_copy_state (lg_loc other) (lg_loc l)\<rparr>"

end
