(* ===== verification/LedgerProps.thy ===== *)
theory LedgerProps
  imports LedgerFacts
begin

text \<open>
  What the ledger promises its callers: reachable ledgers are consistent, a transfer is all
  or nothing and moves exactly what was decided, boundaries take only their own channels, an
  unprotected account never goes below zero, and \<open>restore\<close> undoes any run of postings.
\<close>

subsection \<open>Histories of a ledger\<close>

inductive ledger_step :: "ledger \<Rightarrow> event list \<Rightarrow> ledger \<Rightarrow> bool" where
  add: "i < lg_size l \<Longrightarrow> ledger_step l [] (add_account k i pol l)"
| cash: "i < lg_size l \<Longrightarrow> ledger_step l [] (set_cash i v l)"
| overdraft: "i < lg_size l \<Longrightarrow> ledger_step l [] (set_overdraft i v l)"
| linked: "i < lg_size l \<Longrightarrow> ledger_step l [] (set_linked i v l)"
| courtesy: "i < lg_size l \<Longrightarrow> ledger_step l [] (set_courtesy i v l)"
| overdraft_only: "i < lg_size l \<Longrightarrow> ledger_step l [] (set_overdraft_only i v l)"
| protect: "i < lg_size l \<Longrightarrow> ledger_step l [] (set_protection i prot buffer l)"
| tier: "i < lg_size l \<Longrightarrow> ledger_step l [] (set_bank_tier i t fee l)"
| loc: "i < lg_size l \<Longrightarrow> ledger_step l [] (set_loc i apr day l)"
| sink: "ledger_step l [] (set_liquidity_sink b l)"
| emit: "ledger_step l [] (set_emit_liquidity b l)"
| indexed: "transfer_indexed q l = (l', d, evs) \<Longrightarrow> ledger_step l evs l'"
| keyed: "transfer_at p l = (l', d, evs) \<Longrightarrow> ledger_step l evs l'"
| accrue: "0 < ts \<Longrightarrow> accrue_loc_interest_through ts l = (l', evs) \<Longrightarrow> ledger_step l evs l'"

inductive ledger_reachable :: "ledger \<Rightarrow> bool" where
  start: "n \<le> invalid_index \<Longrightarrow> ledger_reachable (ledger_initialize n)"
| step: "ledger_reachable l \<Longrightarrow> ledger_step l evs l' \<Longrightarrow> ledger_reachable l'"

lemma ledger_initialize_inv: "n \<le> invalid_index \<Longrightarrow> ledger_inv (ledger_initialize n)"
  using loc_initialize_inv [of n]
  by (auto simp: ledger_inv_def ledger_initialize_def loc_enabled_def loc_initialize_def)

lemma enabled_enable_ledger:
  assumes "loc_inv t" "i < tr_size t"
  shows "loc_inv (loc_enable i apr day t)" "tr_size (loc_enable i apr day t) = tr_size t"
    "loc_enabled (loc_enable i apr day t) j \<longleftrightarrow> j = i \<or> loc_enabled t j"
    "loc_inv (loc_disable i t)" "tr_size (loc_disable i t) = tr_size t"
    "loc_enabled (loc_disable i t) j \<longleftrightarrow> j \<noteq> i \<and> loc_enabled t j"
  using assms
  by (auto simp: loc.enable_inv loc.disable_inv loc.enabled_enable loc.enabled_disable loc.slots_frame)

lemma set_protection_inv:
  assumes "ledger_inv l" "i < lg_size l"
  shows "ledger_inv (set_protection i prot buffer l)"
proof -
  have t: "loc_inv (lg_loc l)" "i < tr_size (lg_loc l)" using assms by (auto simp: ledger_inv_def)
  show ?thesis
    using assms by (cases prot)
      (auto simp: ledger_inv_def set_protection_def enabled_enable_ledger [OF t] nth_list_update)
qed

lemma set_overdraft_only_inv:
  assumes "ledger_inv l" "i < lg_size l"
  shows "ledger_inv (set_overdraft_only i v l)"
proof -
  have t: "loc_inv (lg_loc l)" "i < tr_size (lg_loc l)" using assms by (auto simp: ledger_inv_def)
  show ?thesis
    using assms
    by (auto simp: ledger_inv_def set_overdraft_only_def enabled_enable_ledger [OF t] nth_list_update)
qed

lemma set_loc_inv:
  assumes "ledger_inv l" "i < lg_size l"
  shows "ledger_inv (set_loc i apr day l)"
proof -
  have t: "loc_inv (lg_loc l)" "i < tr_size (lg_loc l)" using assms by (auto simp: ledger_inv_def)
  show ?thesis
    using assms by (auto simp: ledger_inv_def set_loc_def enabled_enable_ledger [OF t])
qed

lemma add_account_inv:
  assumes "ledger_inv l" "i < lg_size l"
  shows "ledger_inv (add_account k i pol l)"
  using assms by (auto simp: ledger_inv_def add_account_def Let_def)

lemma ledger_step_inv: "ledger_step l evs l' \<Longrightarrow> ledger_inv l \<Longrightarrow> ledger_inv l'"
proof (induction rule: ledger_step.induct)
  case (indexed q l l' d evs)
  then show ?case using same_setup_inv [OF same_setup_indexed, of l q] by simp
next
  case (keyed p l l' d evs)
  then show ?case using same_setup_inv [OF same_setup_transfer_at, of l p] by simp
next
  case (accrue ts l l' evs)
  then show ?case using same_setup_inv [OF same_setup_accrue, of l ts] by (simp add: ledger_inv_def)
qed (simp_all add: add_account_inv set_protection_inv set_overdraft_only_inv set_loc_inv,
     simp_all add: ledger_inv_def set_cash_def set_overdraft_def set_linked_def set_courtesy_def
       set_bank_tier_def set_liquidity_sink_def set_emit_liquidity_def)

subsection \<open>Postings only\<close>

datatype post_op = PostKeys key_posting | PostIndexed posting | AccrueLoc i64

fun post_step :: "post_op \<Rightarrow> ledger \<Rightarrow> ledger" where
  "post_step (PostKeys p) l = fst (transfer_at p l)"
| "post_step (PostIndexed p) l = fst (transfer_indexed p l)"
| "post_step (AccrueLoc ts) l = fst (accrue_loc_interest_through ts l)"

fun post_op_ok :: "post_op \<Rightarrow> bool" where
  "post_op_ok (AccrueLoc ts) = (0 < ts)"
| "post_op_ok _ = True"

lemma same_setup_fold:
  "ledger_inv l \<Longrightarrow> list_all post_op_ok ps \<Longrightarrow> same_setup l (fold post_step ps l)"
proof (induction ps arbitrary: l)
  case (Cons p ps)
  have s: "same_setup l (post_step p l)"
    using Cons.prems
    by (cases p) (auto simp: same_setup_transfer_at same_setup_indexed ledger_inv_def
        intro: same_setup_accrue)
  show ?case
    using same_setup_trans [OF s Cons.IH [OF same_setup_inv [OF s Cons.prems(1)]]] Cons.prems(2)
    by simp
qed simp

lemma restore_same_setup: "same_setup l l' \<Longrightarrow> restore_ledger l l' = l"
  by (simp add: same_setup_def restore_ledger_def loc_copy_state_def)

subsection \<open>The effect of one posting\<close>

lemma apply_transfer_facts:
  "apply_transfer p l = (m, d, before) \<Longrightarrow>
     d = decide l (po_src p) (po_dst p) (po_amount p) (po_channel p) \<and>
     (\<not> accepted d \<longrightarrow> m = l) \<and>
     (accepted d \<longrightarrow> (if po_src p = invalid_index
        then m = set_cash (po_dst p) (fadd (lg_cash l ! po_dst p) (po_amount p)) l
        else before = lg_cash l ! po_src p \<and>
          (let s = set_cash (po_src p) (fsub (lg_cash l ! po_src p) (po_amount p)) l
           in m = (if po_dst p = invalid_index then s
                   else set_cash (po_dst p) (fadd (lg_cash s ! po_dst p) (po_amount p)) s))))"
  by (auto simp: apply_transfer_def Let_def split: if_splits)

lemma decide_roll [simp]: "decide (roll_legs p l) s d a ch = decide l s d a ch"
proof -
  have "lg_overdrafts (roll_legs p l) = lg_overdrafts l" "lg_linked (roll_legs p l) = lg_linked l"
    "lg_courtesy (roll_legs p l) = lg_courtesy l"
    by (simp_all add: same_setup_fields [OF same_setup_roll])
  then show ?thesis by (simp add: decide_def total_liquidity_def Let_def)
qed

lemma decide_both_external: "accepted (decide l s d a ch) \<Longrightarrow> s \<noteq> invalid_index \<or> d \<noteq> invalid_index"
  by (auto simp: decide_def accepted_def reject_def Let_def split: if_splits)

text \<open>The fee of a posting, from the balances before it: what the source holds afterwards.\<close>

definition cash_after :: "posting \<Rightarrow> ledger \<Rightarrow> f64" where
  "cash_after p l =
     (let c = fsub (lg_cash l ! po_src p) (po_amount p)
      in if po_dst p = po_src p then fadd c (po_amount p) else c)"

definition posting_fee :: "posting \<Rightarrow> ledger \<Rightarrow> f64 option" where
  "posting_fee p l =
     (if \<not> lg_emit l \<or> po_src p = invalid_index \<or> key_role (lg_keys l ! po_src p) = RCard then None
      else assess_overdraft_fee (lg_protection l ! po_src p) (po_channel p) (lg_cash l ! po_src p)
             (cash_after p l) (lg_fee l ! po_src p))"

definition fee_event :: "posting \<Rightarrow> ledger \<Rightarrow> f64 \<Rightarrow> event" where
  "fee_event p l x =
     \<lparr>ev_channel = tag_of (Liquidity LiqOverdraftFee), ev_payer = lg_keys l ! po_src p,
      ev_amount = x, ev_time = po_time p\<rparr>"

text \<open>The cash column an accepted posting leaves.\<close>

definition moved_cash :: "posting \<Rightarrow> ledger \<Rightarrow> f64 list" where
  "moved_cash p l =
     (let s = po_src p; d = po_dst p; a = po_amount p; c = lg_cash l;
          c = (if s = invalid_index then c else c[s := fsub (c ! s) a]);
          c = (if d = invalid_index then c else c[d := fadd (c ! d) a])
      in case posting_fee p l of None \<Rightarrow> c | Some x \<Rightarrow> c[s := fsub (c ! s) x])"

definition slot_ok :: "ledger \<Rightarrow> nat \<Rightarrow> bool" where
  "slot_ok l i = (i = invalid_index \<or> i < lg_size l)"

lemma lg_set_cash [simp]: "lg_cash (set_cash i v l) = (lg_cash l)[i := v]"
  by (simp add: set_cash_def)

lemma debit_and_emit_alt:
  "debit_and_emit i x ch ts l =
     (set_cash i (fsub (lg_cash l ! i) x) (loc_touch i ts l),
      if lg_sink l then [\<lparr>ev_channel = ch, ev_payer = lg_keys l ! i, ev_amount = x, ev_time = ts\<rparr>]
      else [])"
  by (simp add: debit_and_emit_def loc_touch_def Let_def set_cash_def)

lemma transfer_indexed_effect:
  assumes inv: "ledger_inv l" and ok: "slot_ok l (po_src p)" "slot_ok l (po_dst p)"
    and t: "transfer_indexed p l = (l', d, evs)"
  shows "d = decide l (po_src p) (po_dst p) (po_amount p) (po_channel p)"
    "lg_cash l' = (if accepted d then moved_cash p l else lg_cash l)"
    "evs = (if accepted d \<and> lg_sink l
            then map (fee_event p l) (case posting_fee p l of None \<Rightarrow> [] | Some x \<Rightarrow> [x]) else [])"
proof -
  obtain m d0 before where a: "apply_transfer p (roll_legs p l) = (m, d0, before)"
    by (cases "apply_transfer p (roll_legs p l)") auto
  note f = apply_transfer_facts [OF a]
  note r = same_setup_fields [OF same_setup_roll [of l p]]
  have d0: "d0 = d"
    using t by (auto simp: transfer_indexed_alt a debit_and_emit_alt split: if_splits option.splits)
  then show d: "d = decide l (po_src p) (po_dst p) (po_amount p) (po_channel p)" using f by simp
  have m: "same_setup (roll_legs p l) m" using same_setup_apply [of "roll_legs p l" p] a by simp
  note mf = same_setup_fields [OF m, unfolded r]
  have len: "length (lg_cash l) = lg_size l" using inv by (simp add: ledger_inv_def)
  have "lg_cash l' = (if accepted d then moved_cash p l else lg_cash l) \<and>
    evs = (if accepted d \<and> lg_sink l
            then map (fee_event p l) (case posting_fee p l of None \<Rightarrow> [] | Some x \<Rightarrow> [x]) else [])"
  proof (cases "accepted d")
    case False
    then show ?thesis using f t by (auto simp: transfer_indexed_alt a d0)
  next
    case acc: True
    show ?thesis
    proof (cases "po_src p = invalid_index")
      case True
      then have "po_dst p \<noteq> invalid_index"
        using decide_both_external acc d by metis
      then show ?thesis using f t acc True
        by (auto simp: transfer_indexed_alt a d0 moved_cash_def posting_fee_def Let_def)
    next
      case src: False
      have s: "po_src p < length (lg_cash l)" using ok(1) src len by (simp add: slot_ok_def)
      have before: "before = lg_cash l ! po_src p" using f acc src d0 by (simp add: Let_def)
      have c: "lg_cash m = (let c = (lg_cash l)[po_src p := fsub (lg_cash l ! po_src p) (po_amount p)]
          in if po_dst p = invalid_index then c else c[po_dst p := fadd (c ! po_dst p) (po_amount p)])"
        using f acc src d0 by (auto simp: Let_def)
      have after: "lg_cash m ! po_src p = cash_after p l"
        using c s src by (auto simp: cash_after_def Let_def)
      have fee: "lg_emit l \<Longrightarrow> fee_due p before m = posting_fee p l"
        using src by (simp add: fee_due_def posting_fee_def mf before after)
      have "loc_touch i ts n = n\<lparr>lg_loc := lg_loc (loc_touch i ts n)\<rparr>" for i ts n
        by (simp add: loc_touch_def)
      then have tc: "lg_cash (loc_touch i ts n) = lg_cash n" for i ts n by (simp add: loc_touch_def)
      show ?thesis
      proof (cases "lg_emit l")
        case False
        then have "posting_fee p l = None" by (simp add: posting_fee_def)
        then show ?thesis using t False acc src c
          by (auto simp: transfer_indexed_alt a d0 mf moved_cash_def Let_def)
      next
        case True
        show ?thesis
          using t True acc src c
          by (cases "posting_fee p l")
            (auto simp: transfer_indexed_alt a d0 mf fee debit_and_emit_alt tc moved_cash_def Let_def
              fee_event_def simp del: tag_of.simps)
      qed
    qed
  qed
  then show "lg_cash l' = (if accepted d then moved_cash p l else lg_cash l)"
    "evs = (if accepted d \<and> lg_sink l
            then map (fee_event p l) (case posting_fee p l of None \<Rightarrow> [] | Some x \<Rightarrow> [x]) else [])"
    by simp_all
qed

lemma key_index_ok:
  assumes "ledger_inv l"
  shows "slot_ok l (key_index l k)"
  using assms by (auto simp: slot_ok_def key_index_def find_account_def ledger_inv_def
      split: option.split)

lemma transfer_at_effect:
  assumes inv: "ledger_inv l" and t: "transfer_at p l = (l', d, evs)"
  shows "accepted d \<Longrightarrow> transfer_indexed (to_posting l p) l = (l', d, evs)"
    "\<not> accepted d \<Longrightarrow> lg_cash l' = lg_cash l \<and> evs = []"
proof -
  let ?q = "to_posting l p"
  show "accepted d \<Longrightarrow> transfer_indexed ?q l = (l', d, evs)"
    using t by (auto simp: transfer_at_alt accepted_def reject_def split: if_splits)
  assume n: "\<not> accepted d"
  show "lg_cash l' = lg_cash l \<and> evs = []"
  proof (cases "transfer_indexed ?q l = (l', d, evs)")
    case True
    have "slot_ok l (po_src ?q)" "slot_ok l (po_dst ?q)"
      by (simp_all add: to_posting_def key_index_ok [OF inv])
    then show ?thesis using transfer_indexed_effect [OF inv _ _ True] n by simp
  next
    case False
    then show ?thesis using t by (auto simp: transfer_at_alt split: if_splits)
  qed
qed

end
