(* ===== verification/LedgerClaims.thy ===== *)
theory LedgerClaims
  imports LedgerProps
begin

text \<open>
  The properties of the ledger and of LOC accrual, each with an instance on a small ledger:
  account 0 is a courtesy-protected checking account with 100 in cash, account 1 is
  unprotected with 40, account 2 has a line of credit and owes 36525, and an ATM terminal is
  registered as a typed boundary.
\<close>

subsection \<open>A small ledger\<close>

definition demo_alice :: key where "demo_alice = Key RAccount Internal 1"
definition demo_bob :: key where "demo_bob = Key RAccount Internal 2"
definition demo_carol :: key where "demo_carol = Key RAccount Internal 3"
definition demo_atm :: key where "demo_atm = Key RMerchant External 9"

lemma demo_keys [simp]:
  "\<not> is_external demo_alice" "\<not> is_external demo_bob" "\<not> is_external demo_carol"
  "is_external demo_atm" "valid_key demo_alice" "valid_key demo_bob" "valid_key demo_carol"
  "valid_key demo_atm" "demo_alice \<noteq> demo_bob" "demo_alice \<noteq> demo_carol" "demo_bob \<noteq> demo_carol"
  "demo_bob \<noteq> demo_alice" "demo_carol \<noteq> demo_alice" "demo_carol \<noteq> demo_bob"
  "key_role demo_alice = RAccount" "key_role demo_bob = RAccount" "key_role demo_carol = RAccount"
  by (simp_all add: is_external_def valid_key_def allows_bank_def demo_alice_def demo_bob_def
      demo_carol_def demo_atm_def)

definition demo_tracker :: tracker where
  "demo_tracker = loc_update 2 (Fin 0) 1000 (fst (loc_sweep 1000 (\<lambda>i. Fin 0)
     (loc_enable 2 (Fin 1) 0 (loc_initialize 4))))"

definition demo_ledger :: ledger where
  "demo_ledger =
     \<lparr>lg_size = 4, lg_cash = [Fin 100, Fin 40, Fin (- 36525), Fin 0],
      lg_overdrafts = [Fin 0, Fin 0, Fin 50000, Fin 0], lg_linked = [Fin 0, Fin 0, Fin 0, Fin 0],
      lg_courtesy = [Fin 50, Fin 0, Fin 0, Fin 0],
      lg_internal = [demo_alice \<mapsto> 0, demo_bob \<mapsto> 1, demo_carol \<mapsto> 2],
      lg_external = [demo_atm \<mapsto> \<lparr>pol_kind = AtmTerminal, pol_flows = flow_bit Outbound\<rparr>],
      lg_keys = [demo_alice, demo_bob, demo_carol, demo_atm],
      lg_protection = [ProtCourtesy, ProtNone, ProtLoc, ProtNone],
      lg_tier = [StandardFee, ZeroFee, ZeroFee, ZeroFee], lg_fee = [Fin 35, Fin 0, Fin 0, Fin 0],
      lg_loc = demo_tracker, lg_sink = True, lg_emit = True\<rparr>"

lemma demo_tracker_facts:
  "loc_inv demo_tracker" "tr_size demo_tracker = 4"
  "loc_enabled demo_tracker i \<longleftrightarrow> i = 2"
proof -
  let ?t = "loc_enable 2 (Fin 1) 0 (loc_initialize 4)"
  have i: "loc_inv (loc_initialize 4)" "tr_size (loc_initialize 4) = 4"
    by (simp_all add: loc_initialize_inv) (simp add: loc_initialize_def)
  then have t: "loc_inv ?t" "tr_size ?t = 4" by (simp_all add: loc.enable_inv loc.slots_frame)
  have e: "loc_enabled ?t i \<longleftrightarrow> i = 2"
  proof -
    have "\<not> loc_enabled (loc_initialize 4) i" by (simp add: loc_enabled_def loc_initialize_def)
    then show ?thesis using i by (simp add: loc.enabled_enable)
  qed
  note s = loc.sweep_inv [OF t(1), of 1000] loc_sweep_frame [OF t(1), of 1000]
  show "loc_inv demo_tracker" "tr_size demo_tracker = 4"
    unfolding demo_tracker_def using s t(2) by (simp_all add: loc.update_inv loc.slots_frame)
  show "loc_enabled demo_tracker i \<longleftrightarrow> i = 2"
    unfolding demo_tracker_def using s e by (simp add: loc.enabled_update loc_enabled_def)
qed

lemma less_4_cases: "i < (4::nat) \<Longrightarrow> i = 0 \<or> i = 1 \<or> i = 2 \<or> i = 3"
  by auto

lemma demo_inv: "ledger_inv demo_ledger"
proof -
  have "\<forall>i < 4. loc_enabled demo_tracker i \<longleftrightarrow> [ProtCourtesy, ProtNone, ProtLoc, ProtNone] ! i = ProtLoc"
    by (auto dest!: less_4_cases simp: demo_tracker_facts)
  then show ?thesis
    by (simp add: ledger_inv_def demo_ledger_def demo_tracker_facts invalid_index_def)
qed

lemma demo_fields:
  "lg_size demo_ledger = 4" "lg_cash demo_ledger = [Fin 100, Fin 40, Fin (- 36525), Fin 0]"
  "lg_sink demo_ledger" "lg_emit demo_ledger"
  "key_index demo_ledger demo_alice = 0" "key_index demo_ledger demo_bob = 1"
  "key_index demo_ledger demo_carol = 2" "key_index demo_ledger demo_atm = invalid_index"
  by (simp_all add: demo_ledger_def key_index_def find_account_def)

subsection \<open>Invariant and round trip\<close>

text \<open>C1: Every ledger that any history of account set-up, postings, fee and interest runs can
reach from \<open>initialize\<close> is consistent: the columns have one entry per slot, every booked
internal key (and no external one) resolves to a slot in range, the LOC queue holds every
enabled slot's due time, and LOC accrual is enabled exactly on the LOC-protected slots.\<close>

theorem ledger_reachable_consistent:
  assumes "ledger_reachable l"
  shows "ledger_inv l \<and> (\<forall>k. slot_ok l (key_index l k)) \<and>
    (\<forall>i < lg_size l. loc_enabled (lg_loc l) i \<longleftrightarrow> lg_protection l ! i = ProtLoc)"
proof -
  have inv: "ledger_inv l"
    using assms by (induction rule: ledger_reachable.induct)
      (auto intro: ledger_initialize_inv ledger_step_inv)
  then show ?thesis using key_index_ok [OF inv] by (simp add: ledger_inv_def)
qed

lemma ledger_sizes [frame_simps]:
  "lg_size (add_account k i pol l) = lg_size l" "lg_size (set_protection i pr b l) = lg_size l"
  "lg_size (ledger_initialize n) = n"
  by (simp_all add: add_account_def set_protection_def ledger_initialize_def Let_def
      split: protection.split)

lemma demo_history:
  "ledger_reachable (set_loc 2 (Fin 1) 0 (set_protection 2 ProtLoc (Fin 50000)
     (add_account demo_carol 2 generic_policy (ledger_initialize 4))))"
proof -
  note frame_simps [simp]
  have "ledger_reachable (ledger_initialize 4)"
    by (rule ledger_reachable.start) (simp add: invalid_index_def)
  then have "ledger_reachable (add_account demo_carol 2 generic_policy (ledger_initialize 4))"
    by (rule ledger_reachable.step) (rule ledger_step.add, simp)
  then have "ledger_reachable (set_protection 2 ProtLoc (Fin 50000)
      (add_account demo_carol 2 generic_policy (ledger_initialize 4)))"
    by (rule ledger_reachable.step) (rule ledger_step.protect, simp)
  then show ?thesis
    by (rule ledger_reachable.step) (rule ledger_step.loc, simp)
qed

lemma ledger_reachable_consistent_witness:
  "ledger_inv (set_loc 2 (Fin 1) 0 (set_protection 2 ProtLoc (Fin 50000)
     (add_account demo_carol 2 generic_policy (ledger_initialize 4))))"
  using ledger_reachable_consistent [OF demo_history] by blast

text \<open>C16: \<open>restore\<close> undoes history: after any sequence of keyed postings, indexed postings and
LOC interest runs, copying the snapshot taken before them back gives the snapshot, with every
balance, buffer, LOC integral and queued due time as it was.\<close>

theorem restore_undoes_postings:
  assumes "ledger_inv l" "list_all post_op_ok ps"
  shows "restore_ledger l (fold post_step ps l) = l"
  using restore_same_setup [OF same_setup_fold [OF assms]] .

definition demo_withdrawal :: key_posting where
  "demo_withdrawal = \<lparr>kp_source = demo_alice, kp_dest = demo_atm, kp_amount = Fin 120,
     kp_channel = tag_of (Legit LegAtm), kp_time = 2000\<rparr>"

definition demo_gift :: key_posting where
  "demo_gift = \<lparr>kp_source = demo_bob, kp_dest = demo_alice, kp_amount = Fin 25,
     kp_channel = tag_of (Legit LegP2p), kp_time = 3000\<rparr>"

lemma restore_undoes_postings_witness:
  "restore_ledger demo_ledger
     (fold post_step [PostKeys demo_withdrawal, AccrueLoc 2593000, PostKeys demo_gift] demo_ledger)
   = demo_ledger"
  by (rule restore_undoes_postings) (simp_all add: demo_inv)

subsection \<open>One transfer\<close>

text \<open>C2: A keyed transfer is decided and applied exactly as documented. It is refused as
unbooked unless both ends are valid, booked and allowed by their boundary policies; then
\<open>decide\<close> rules. An accepted transfer debits the source, credits the destination and debits
the fee if one fires, and nothing else; its only event is that fee. A rejected one leaves
every balance and emits nothing.\<close>

theorem transfer_at_functional:
  assumes "ledger_inv l" "transfer_at p l = (l', d, evs)"
  defines "q \<equiv> to_posting l p"
  shows "d = (if end_booked l (kp_source p) (kp_channel p) Inbound \<and>
                 end_booked l (kp_dest p) (kp_channel p) Outbound
              then decide l (po_src q) (po_dst q) (kp_amount p) (kp_channel p)
              else reject RejUnbooked) \<and>
    lg_cash l' = (if accepted d then moved_cash q l else lg_cash l) \<and>
    evs = (if accepted d \<and> lg_sink l
           then map (fee_event q l) (case posting_fee q l of None \<Rightarrow> [] | Some x \<Rightarrow> [x]) else [])"
proof -
  have ok: "slot_ok l (po_src q)" "slot_ok l (po_dst q)"
    by (simp_all add: q_def to_posting_def key_index_ok [OF assms(1)])
  have amt: "po_amount q = kp_amount p" "po_channel q = kp_channel p"
    by (simp_all add: q_def to_posting_def)
  show ?thesis
  proof (cases "end_booked l (kp_source p) (kp_channel p) Inbound \<and>
                 end_booked l (kp_dest p) (kp_channel p) Outbound")
    case True
    then have "transfer_indexed q l = (l', d, evs)"
      using assms(2) by (simp add: transfer_at_alt q_def)
    then show ?thesis using transfer_indexed_effect [OF assms(1) ok] amt True by simp
  next
    case False
    then have "l' = l \<and> d = reject RejUnbooked \<and> evs = []"
      using assms(2) by (auto simp: transfer_at_alt split: if_splits)
    then show ?thesis unfolding if_not_P [OF False] by (simp add: accepted_def reject_def)
  qed
qed

lemma demo_channel [simp]:
  "\<not> is_liquidity (tag_of (Legit c))"
  "boundary_requirement (tag_of (Legit LegAtm)) = Some \<lparr>br_kind = AtmTerminal, br_flow = Outbound\<rparr>"
  "boundary_requirement (tag_of (Legit LegP2p)) = None"
  by (simp_all add: is_liquidity_def boundary_requirement_def tag_is_def tag_of_inj del: tag_of.simps)

lemma demo_ends:
  "end_booked demo_ledger demo_alice ch fl" "end_booked demo_ledger demo_bob ch fl"
  "end_booked demo_ledger demo_atm (tag_of (Legit LegAtm)) Outbound"
  by (simp_all add: end_booked_def demo_ledger_def find_account_def invalid_index_def
      allows_typed_boundary_def policy_typed_def policy_allows_def del: tag_of.simps flow_bit.simps)
    simp

lemma demo_withdrawal_fields:
  "kp_source demo_withdrawal = demo_alice" "kp_dest demo_withdrawal = demo_atm"
  "kp_channel demo_withdrawal = tag_of (Legit LegAtm)" "kp_amount demo_withdrawal = Fin 120"
  "to_posting demo_ledger demo_withdrawal =
      \<lparr>po_src = 0, po_dst = invalid_index, po_amount = Fin 120,
       po_channel = tag_of (Legit LegAtm), po_time = 2000\<rparr>"
  by (simp_all add: to_posting_def demo_withdrawal_def demo_fields del: tag_of.simps)

lemma demo_withdrawal_decision:
  "decide demo_ledger 0 invalid_index (Fin 120) (tag_of (Legit LegAtm)) = None"
  by (simp add: decide_def accept_def total_liquidity_def demo_ledger_def invalid_index_def
      mk_f64_def tag_is_def tag_of_inj del: tag_of.simps)

lemma demo_withdrawal_accepted:
  assumes "transfer_at demo_withdrawal demo_ledger = (l', d, evs)"
  shows "accepted d"
  using assms transfer_at_alt [of demo_withdrawal demo_ledger] demo_ends
    transfer_indexed_effect(1) [OF demo_inv, of "to_posting demo_ledger demo_withdrawal" l' d evs]
  by (simp add: demo_withdrawal_fields slot_ok_def demo_fields demo_withdrawal_decision accepted_def
      del: tag_of.simps)

lemma transfer_at_functional_witness:
  "case transfer_at demo_withdrawal demo_ledger of (l', d, evs) \<Rightarrow>
     accepted d \<and> lg_cash l' = [Fin (- 55), Fin 40, Fin (- 36525), Fin 0] \<and> length evs = 1"
proof -
  obtain l' d evs where t: "transfer_at demo_withdrawal demo_ledger = (l', d, evs)"
    by (cases "transfer_at demo_withdrawal demo_ledger") auto
  have f: "posting_fee (to_posting demo_ledger demo_withdrawal) demo_ledger = Some (Fin 35)"
    unfolding demo_withdrawal_fields
    by (simp add: posting_fee_def demo_ledger_def assess_overdraft_fee_def crossed_def fsub_def
        cash_after_def mk_f64_def invalid_index_def Let_def del: tag_of.simps)
  have m: "moved_cash (to_posting demo_ledger demo_withdrawal) demo_ledger =
      [Fin (- 55), Fin 40, Fin (- 36525), Fin 0]"
    using f unfolding demo_withdrawal_fields
    by (simp add: moved_cash_def demo_fields fsub_def mk_f64_def invalid_index_def Let_def
        del: tag_of.simps)
  show ?thesis
    using transfer_at_functional [OF demo_inv t] f m demo_withdrawal_accepted [OF t]
    by (simp add: t demo_fields del: tag_of.simps)
qed

text \<open>An accepted transfer passed every guard.\<close>

lemma accepted_guards:
  assumes "ledger_inv l" "transfer_at p l = (l', d, evs)" "accepted d"
  defines "q \<equiv> to_posting l p"
  shows "end_booked l (kp_source p) (kp_channel p) Inbound"
    "end_booked l (kp_dest p) (kp_channel p) Outbound"
    "accepted (decide l (po_src q) (po_dst q) (kp_amount p) (kp_channel p))"
    "lg_cash l' = moved_cash q l"
    "evs = (if lg_sink l
            then map (fee_event q l) (case posting_fee q l of None \<Rightarrow> [] | Some x \<Rightarrow> [x]) else [])"
proof -
  have i: "transfer_indexed q l = (l', d, evs)"
    using transfer_at_effect(1) [OF assms(1,2,3)] by (simp add: q_def)
  have ok: "slot_ok l (po_src q)" "slot_ok l (po_dst q)"
    by (simp_all add: q_def to_posting_def key_index_ok [OF assms(1)])
  note e = transfer_indexed_effect [OF assms(1) ok i]
  show "accepted (decide l (po_src q) (po_dst q) (kp_amount p) (kp_channel p))"
    using e(1) assms(3) by (simp add: q_def to_posting_def)
  show "lg_cash l' = moved_cash q l"
    "evs = (if lg_sink l
            then map (fee_event q l) (case posting_fee q l of None \<Rightarrow> [] | Some x \<Rightarrow> [x]) else [])"
    using e(2,3) assms(3) by simp_all
  show "end_booked l (kp_source p) (kp_channel p) Inbound"
    "end_booked l (kp_dest p) (kp_channel p) Outbound"
    using assms(2,3) by (auto simp: transfer_at_alt accepted_def reject_def split: if_splits)
qed

lemma accepted_amount:
  "accepted (decide l s d a ch) \<Longrightarrow> is_finite a \<and> flt (Fin 0) a"
  by (cases a) (auto simp: decide_def accepted_def reject_def split: if_splits)

lemma accepted_funded:
  assumes "accepted (decide l s d a ch)" "s \<noteq> invalid_index" "\<not> is_liquidity ch"
  shows "\<not> flt (if tag_is ch (Legit LegSelfTransfer) then lg_cash l ! s else total_liquidity l s) a"
  using assms by (auto simp: decide_def accepted_def reject_def Let_def split: if_splits)

text \<open>C18: No overdraft without a facility: when an accepted transfer on an ordinary channel
leaves an account that has no protection and empty buffers, or is a self-transfer whatever
the protection, the account's cash is still at least zero afterwards and no overdraft fee
fires.\<close>

theorem funded_source_stays_nonnegative:
  assumes "ledger_inv l" "transfer_at p l = (l', d, evs)" "accepted d"
    and "\<not> is_external (kp_source p)" "\<not> is_liquidity (kp_channel p)"
    and "representable (lg_cash l ! find_account l (kp_source p))"
      "lg_cash l ! find_account l (kp_source p) \<noteq> NaN"
    and "tag_is (kp_channel p) (Legit LegSelfTransfer) \<or>
      (lg_protection l ! find_account l (kp_source p) = ProtNone \<and>
       lg_overdrafts l ! find_account l (kp_source p) = Fin 0 \<and>
       lg_linked l ! find_account l (kp_source p) = Fin 0 \<and>
       lg_courtesy l ! find_account l (kp_source p) = Fin 0)"
  shows "fle (Fin 0) (lg_cash l' ! find_account l (kp_source p)) \<and> evs = []"
proof -
  let ?q = "to_posting l p" and ?s = "find_account l (kp_source p)"
  note g = accepted_guards [OF assms(1-3)]
  have src: "po_src ?q = ?s" using assms(4) by (simp add: to_posting_def key_index_def)
  have q: "po_amount ?q = kp_amount p" "po_channel ?q = kp_channel p" by (simp_all add: to_posting_def)
  have s: "?s \<noteq> invalid_index" using g(1) assms(4) by (simp add: end_booked_def)
  have len: "?s < length (lg_cash l)"
    using assms(1) s key_index_ok [OF assms(1), of "kp_source p"] assms(4)
    by (simp add: slot_ok_def key_index_def ledger_inv_def)
  have amt: "is_finite (kp_amount p)" "flt (Fin 0) (kp_amount p)"
    using accepted_amount [OF g(3)] by auto
  have a0: "fle (Fin 0) (kp_amount p)" using amt by (cases "kp_amount p") auto
  have "total_liquidity l ?s = lg_cash l ! ?s" if "lg_overdrafts l ! ?s = Fin 0"
    "lg_linked l ! ?s = Fin 0" "lg_courtesy l ! ?s = Fin 0"
    using that assms(6) by (simp add: total_liquidity_def)
  then have "\<not> flt (lg_cash l ! ?s) (kp_amount p)"
    using accepted_funded [OF g(3)] src s assms(5,8) by (auto split: if_splits)
  then have f: "fle (Fin 0) (fsub (lg_cash l ! ?s) (kp_amount p))"
    using fsub_nonneg amt(1) assms(7) by blast
  then have after: "fle (Fin 0) (cash_after ?q l)"
    using fadd_nonneg [OF f a0] by (simp add: cash_after_def src q Let_def)
  then have no_cross: "\<not> crossed x (cash_after ?q l)" for x
    by (cases "cash_after ?q l") (auto simp: crossed_def)
  then have fee: "posting_fee ?q l = None"
    using assms(8) src q by (auto simp: posting_fee_def assess_overdraft_fee_def)
  have "moved_cash ?q l ! ?s = cash_after ?q l"
    using len s src by (auto simp: moved_cash_def fee cash_after_def q Let_def)
  then show ?thesis using g(4,5) after fee by simp
qed

lemma demo_gift_fields:
  "kp_source demo_gift = demo_bob" "kp_dest demo_gift = demo_alice"
  "kp_channel demo_gift = tag_of (Legit LegP2p)" "kp_amount demo_gift = Fin 25"
  by (simp_all add: demo_gift_def del: tag_of.simps)

lemma funded_source_stays_nonnegative_witness:
  "case transfer_at demo_gift demo_ledger of (l', d, evs) \<Rightarrow>
     accepted d \<and> fle (Fin 0) (lg_cash l' ! 1)"
proof -
  obtain l' d evs where t: "transfer_at demo_gift demo_ledger = (l', d, evs)"
    by (cases "transfer_at demo_gift demo_ledger") auto
  have b: "find_account demo_ledger demo_bob = 1" "find_account demo_ledger demo_alice = 0"
    by (simp_all add: demo_ledger_def find_account_def)
  have q: "to_posting demo_ledger demo_gift =
      \<lparr>po_src = 1, po_dst = 0, po_amount = Fin 25, po_channel = tag_of (Legit LegP2p), po_time = 3000\<rparr>"
    by (simp add: to_posting_def demo_gift_def demo_fields del: tag_of.simps)
  have "decide demo_ledger 1 0 (Fin 25) (tag_of (Legit LegP2p)) = None"
    by (simp add: decide_def accept_def total_liquidity_def demo_ledger_def invalid_index_def
        mk_f64_def tag_is_def tag_of_inj del: tag_of.simps)
  moreover have "d = decide demo_ledger 1 0 (Fin 25) (tag_of (Legit LegP2p))"
    using t transfer_at_alt [of demo_gift demo_ledger] demo_ends
      transfer_indexed_effect(1) [OF demo_inv _ _ , of "to_posting demo_ledger demo_gift" l' d evs]
    by (simp add: demo_gift_fields q slot_ok_def demo_fields del: tag_of.simps)
  ultimately have d: "accepted d" by (simp add: accepted_def)
  have "fle (Fin 0) (lg_cash l' ! find_account demo_ledger (kp_source demo_gift)) \<and> evs = []"
    by (rule funded_source_stays_nonnegative [OF demo_inv t d])
      (simp_all add: demo_gift_fields b demo_fields del: tag_of.simps,
       simp_all add: demo_ledger_def representable_def)
  then show ?thesis using t d by (simp add: demo_gift_fields b)
qed

definition end_respected :: "ledger \<Rightarrow> key \<Rightarrow> tag \<Rightarrow> flow \<Rightarrow> bool" where
  "end_respected l k ch fl =
     (if is_external k then
        (case lg_external l k of None \<Rightarrow> False | Some pol \<Rightarrow>
          (case boundary_requirement ch of
             None \<Rightarrow> \<not> policy_typed pol
           | Some r \<Rightarrow> pol_kind pol = br_kind r \<and> fl = br_flow r \<and> policy_allows pol fl))
      else (\<exists>i < lg_size l. lg_internal l k = Some i))"

text \<open>C19: Boundaries take only what they are for. In an accepted transfer both ends are valid
keys, at least one is a customer account of the bank, and an external end is registered with
a policy that fits: a channel with a boundary requirement (ATM cash, cash and check deposits,
the two crypto ramps) only meets a boundary of that kind and direction whose policy allows
it, and a typed boundary takes no other channel.\<close>

theorem accepted_transfer_respects_boundaries:
  assumes "ledger_inv l" "transfer_at p l = (l', d, evs)" "accepted d"
  shows "valid_key (kp_source p) \<and> valid_key (kp_dest p) \<and>
    \<not> (is_external (kp_source p) \<and> is_external (kp_dest p)) \<and>
    end_respected l (kp_source p) (kp_channel p) Inbound \<and>
    end_respected l (kp_dest p) (kp_channel p) Outbound"
proof -
  note g = accepted_guards [OF assms]
  have "key_index l (kp_source p) \<noteq> invalid_index \<or> key_index l (kp_dest p) \<noteq> invalid_index"
    using decide_both_external [OF g(3)] by (simp add: to_posting_def)
  then have one: "\<not> (is_external (kp_source p) \<and> is_external (kp_dest p))"
    by (auto simp: key_index_def)
  have "end_respected l k ch fl" if "end_booked l k ch fl" for k ch fl
    using that assms(1)
    by (auto simp: end_booked_def end_respected_def allows_typed_boundary_def Let_def
        find_account_def ledger_inv_def split: option.splits if_splits)
  then show ?thesis using one g(1,2) by (simp add: end_booked_def)
qed

lemma accepted_transfer_respects_boundaries_witness:
  "end_respected demo_ledger demo_atm (tag_of (Legit LegAtm)) Outbound"
proof -
  obtain l' d evs where t: "transfer_at demo_withdrawal demo_ledger = (l', d, evs)"
    by (cases "transfer_at demo_withdrawal demo_ledger") auto
  show ?thesis
    using accepted_transfer_respects_boundaries [OF demo_inv t demo_withdrawal_accepted [OF t]]
    by (simp add: demo_withdrawal_fields del: tag_of.simps)
qed

subsection \<open>Interest on lines of credit\<close>

text \<open>C17: The lazy-deletion queue is invisible. For every history of enabling, disabling,
updating and sweeping LOC slots, the tracker with its queue of due times, stale entries
included, bills exactly what a scan over all enabled slots bills: the same slots, in the same
order, the same interest at the same instants, and it ends in the same state.\<close>

theorem loc_queue_refines_scan:
  assumes "list_all (op_ok n) ps"
  shows "run_steps scan_step (erase (loc_initialize n)) ps
    = apfst erase (run_steps loc_step (loc_initialize n) ps)"
proof -
  have "tr_size (loc_initialize n) = n" by (simp add: loc_initialize_def)
  then show ?thesis using run_refines [OF loc_initialize_inv, of n ps] assms by simp
qed

lemma loc_queue_refines_scan_witness:
  "let ps = [LocEnable 2 (Fin 1) 0, LocSweep 1000 (\<lambda>i. Fin (- 7)), LocDisable 2,
      LocEnable 2 (Fin 2) 3, LocUpdate 2 (Fin (- 7)) 2000, LocSweep 3000000 (\<lambda>i. Fin (- 7))]
   in run_steps scan_step (erase (loc_initialize 3)) ps
    = apfst erase (run_steps loc_step (loc_initialize 3) ps)"
  unfolding Let_def by (rule loc_queue_refines_scan) simp

lemma scan_fold_billed:
  "j < length (tr_last_billing t) \<Longrightarrow>
    tr_last_billing (fst (foldl (scan_bill ts cash) (t, out) is)) ! j =
      (if j \<in> set is then ts else tr_last_billing t ! j)"
proof (induction "is" arbitrary: t out)
  case (Cons i "is")
  obtain t' out' where s: "scan_bill ts cash (t, out) i = (t', out')" by fastforce
  have "tr_last_billing t' = (tr_last_billing t)[i := ts]"
    using s by (auto simp: scan_bill_def Let_def frame_simps split: if_splits)
  then show ?case using Cons by (auto simp: s nth_list_update)
qed simp

lemma loc_sweep_billed:
  assumes "loc_inv t" "0 < ts" "loc_sweep ts cash t = (t', out)" "matured ts t i"
  shows "tr_last_billing t' ! i = ts"
proof -
  have i: "i < tr_size t" using assms(4) by (simp add: matured_def loc_enabled_def)
  then have "i < length (tr_last_billing (erase t))"
    using assms(1) by (simp add: erase_def loc_inv_def queue_inv_def loc_shape_def)
  from scan_fold_billed [OF this, of ts cash "[]" "filter (matured ts t) [0..<tr_size t]"]
  have "tr_last_billing (erase t') ! i = ts"
    using loc_sweep_refines_scan(1) [OF assms(1-3)] assms(4) i by (simp add: scan_sweep_def)
  then show ?thesis by (simp add: erase_def)
qed

text \<open>A sweep bills each slot at most once, in ascending slot order, only slots that are
enabled and whose last billing is at least thirty days old, and only a positive amount; and
a slot it bills is not billed again by a sweep less than thirty days later.\<close>

theorem loc_sweep_bills_once_a_period:
  assumes "loc_inv t" "0 < ts" "loc_sweep ts cash t = (t', out)"
    and "ts \<le> ts'" "ts' < ts + billing_period" "loc_sweep ts' cash' t' = (t'', out')"
  shows "sorted_wrt (<) (map ac_index out) \<and>
    (\<forall>a \<in> set out. loc_enabled t (ac_index a) \<and>
       tr_last_billing t ! ac_index a + billing_period \<le> ts \<and> ac_time a = ts \<and>
       flt (Fin 0) (ac_interest a) \<and> ac_index a \<notin> ac_index ` set out')"
proof -
  note o = loc_sweep_out [OF assms(1-3)]
  have inv': "loc_inv t'" using loc.sweep_inv [OF assms(1,2), of cash] assms(3) by simp
  have "0 < ts'" using assms(2,4) by simp
  note o' = loc_sweep_out [OF inv' this assms(6)]
  have "ac_index a \<notin> ac_index ` set out'" if a: "a \<in> set out" for a
  proof
    assume "ac_index a \<in> ac_index ` set out'"
    then have "period_passed ts' t' (ac_index a)" using o'(2) by auto
    moreover have "matured ts t (ac_index a)"
      using o(2) a by (auto simp: matured_def period_passed_def)
    ultimately show False
      using loc_sweep_billed [OF assms(1-3)] assms(5) by (simp add: period_passed_def)
  qed
  then show ?thesis using o by (auto simp: period_passed_def)
qed

lemma touch_set_cash_fields [simp]:
  "lg_cash (loc_touch i ts l) = lg_cash l" "lg_sink (loc_touch i ts l) = lg_sink l"
  "lg_keys (loc_touch i ts l) = lg_keys l" "lg_sink (set_cash i v l) = lg_sink l"
  "lg_keys (set_cash i v l) = lg_keys l"
  by (simp_all add: loc_touch_def set_cash_def)



text \<open>On the small ledger: the line of credit was opened by the sweep at 1000 with a zero
balance, and owes 36525 for one period at 100 percent.\<close>

lemma year_seconds_eq: "year_seconds = Fin 31557600"
proof -
  have "rnd (1461 * 2 powi (- 2)) = 1461 * 2 powi (- 2)"
    using rnd_exact [of 1461 "- 2"] by simp
  moreover have "(2 :: rat) powi (- 2) = 1 / 4" by (simp add: power_int_minus)
  ultimately have r: "rnd (1461 / 4) = 1461 / 4" by simp
  show ?thesis
    by (simp add: r year_seconds_def lit_def f64_of_int_def seconds_per_day_def mk_f64_def)
qed

lemma demo_tracker_eq:
  "demo_tracker = \<lparr>tr_size = 4, tr_enabled = [False, False, True, False],
     tr_apr = [Fin 0, Fin 0, Fin 1, Fin 0], tr_billing_day = [0, 0, 0, 0],
     tr_integral = [Fin 0, Fin 0, Fin 0, Fin 0], tr_last_update = [0, 0, 1000, 0],
     tr_last_billing = [0, 0, 1000, 0], tr_queued_due = [-1, -1, 2593000, -1],
     tr_queue = [(2593000, 2)]\<rparr>"
  unfolding demo_tracker_def by code_simp

lemma demo_sweep:
  "snd (loc_sweep 2593000 (\<lambda>i. lg_cash demo_ledger ! i) (lg_loc demo_ledger)) =
     [\<lparr>ac_index = 2, ac_interest = Fin 3000, ac_time = 2593000\<rparr>]"
  by (simp add: demo_ledger_def demo_tracker_eq loc_sweep_def collect_due.simps pq_defs
      loc_enabled_def not_queued_def bill_slot_def loc_update_def schedule_billing_def
      billing_period_def seconds_per_day_def f64_of_int_def mk_f64_def year_seconds_eq Let_def)

lemma loc_sweep_bills_once_a_period_witness:
  "2 \<notin> ac_index ` set
     (snd (loc_sweep 2594000 (\<lambda>i. Fin (- 9))
       (fst (loc_sweep 2593000 (\<lambda>i. lg_cash demo_ledger ! i) (lg_loc demo_ledger)))))"
proof -
  let ?c = "\<lambda>i. lg_cash demo_ledger ! i" and ?d = "\<lambda>i. Fin (- 9)"
  obtain t' out where s: "loc_sweep 2593000 ?c (lg_loc demo_ledger) = (t', out)" by fastforce
  obtain t'' out' where s': "loc_sweep 2594000 ?d t' = (t'', out')" by fastforce
  have "loc_inv (lg_loc demo_ledger)" using demo_inv by (simp add: ledger_inv_def)
  from loc_sweep_bills_once_a_period [OF this _ s _ _ s'] demo_sweep
  have "2 \<notin> ac_index ` set out'" by (simp add: s billing_period_def seconds_per_day_def)
  then show ?thesis by (simp add: s s')
qed


end
