(* ===== verification/Pcg.thy ===== *)
theory Pcg
  imports F64
begin

text \<open>
  \<open>primitives/random\<close>: the PCG64 engine (\<open>pcg64.hpp\<close>), its SplitMix64 seeding and the samplers
  of \<open>rng.cpp\<close>. Every unsigned integer is a word of its width, so the arithmetic wraps as in
  the sources; both branches of each \<open>#if defined(__SIZEOF_INT128__)\<close> are modelled.

  Rejection sampling may loop: \<open>bounded\<close> is a \<open>partial_function\<close> whose \<open>None\<close> is a call that
  never returns. A sampler that can throw returns the exception as a value.
\<close>

unbundle bit_operations_syntax

subsection \<open>Pcg64\<close>

record pcg64 =
  state_hi :: u64
  state_lo :: u64
  increment_hi :: u64
  increment_lo :: u64

definition multiplier_hi :: u64 where "multiplier_hi = 2549297995355413924"
definition multiplier_lo :: u64 where "multiplier_lo = 4865540595714422341"
definition low32_mask :: u64 where "low32_mask = 0xFFFFFFFF"

text \<open>\<open>(hi << 64) | lo\<close> and its two casts.\<close>

definition join128 :: "u64 \<Rightarrow> u64 \<Rightarrow> u128" where
  "join128 hi lo = push_bit 64 (ucast hi) OR ucast lo"

definition hi128 :: "u128 \<Rightarrow> u64" where
  "hi128 x = ucast (drop_bit 64 x)"

definition lo128 :: "u128 \<Rightarrow> u64" where
  "lo128 x = ucast x"

text \<open>\<open>multiply_mod_2_128\<close>: the \<open>__uint128_t\<close> branch and the portable one.\<close>

definition multiply_native :: "u64 \<Rightarrow> u64 \<Rightarrow> u64 \<Rightarrow> u64 \<Rightarrow> u64 \<times> u64" where
  "multiply_native lhs_hi lhs_lo rhs_hi rhs_lo =
     (let product = join128 lhs_hi lhs_lo * join128 rhs_hi rhs_lo
      in (hi128 product, lo128 product))"

definition multiply_portable :: "u64 \<Rightarrow> u64 \<Rightarrow> u64 \<Rightarrow> u64 \<Rightarrow> u64 \<times> u64" where
  "multiply_portable lhs_hi lhs_lo rhs_hi rhs_lo =
     (let lhsLoLo = lhs_lo AND low32_mask; lhsLoHi = drop_bit 32 lhs_lo;
          rhsLoLo = rhs_lo AND low32_mask; rhsLoHi = drop_bit 32 rhs_lo;
          p0 = lhsLoLo * rhsLoLo; p1 = lhsLoLo * rhsLoHi;
          p2 = lhsLoHi * rhsLoLo; p3 = lhsLoHi * rhsLoHi;
          middle = drop_bit 32 p0 + (p1 AND low32_mask) + (p2 AND low32_mask);
          out_lo = (p0 AND low32_mask) OR push_bit 32 middle;
          out_hi = p3 + drop_bit 32 p1 + drop_bit 32 p2 + drop_bit 32 middle;
          out_hi = out_hi + (lhs_hi * rhs_lo + lhs_lo * rhs_hi)
      in (out_hi, out_lo))"

definition add_mod_2_128 :: "u64 \<Rightarrow> u64 \<Rightarrow> u64 \<Rightarrow> u64 \<Rightarrow> u64 \<times> u64" where
  "add_mod_2_128 lhs_hi lhs_lo rhs_hi rhs_lo =
     (let out_lo = lhs_lo + rhs_lo
      in (lhs_hi + rhs_hi + (if out_lo < lhs_lo then 1 else 0), out_lo))"

definition pcg_step :: "pcg64 \<Rightarrow> pcg64" where
  "pcg_step g =
     (let (product_hi, product_lo) =
            multiply_native (state_hi g) (state_lo g) multiplier_hi multiplier_lo;
          (hi, lo) = add_mod_2_128 product_hi product_lo (increment_hi g) (increment_lo g)
      in g\<lparr>state_hi := hi, state_lo := lo\<rparr>)"

text \<open>\<open>output\<close>: the shift counts are \<open>unsigned\<close> values; \<open>(-rotation) & 63\<close> is taken at 32 bits.\<close>

definition pcg_output :: "pcg64 \<Rightarrow> u64" where
  "pcg_output g =
     (let xor_value = state_hi g XOR state_lo g;
          rotation = (ucast (drop_bit 58 (state_hi g)) :: u32)
      in drop_bit (unat rotation) xor_value OR push_bit (unat (- rotation AND 63)) xor_value)"

definition next_u64 :: "pcg64 \<Rightarrow> u64 \<times> pcg64" where
  "next_u64 g = (let g = pcg_step g in (pcg_output g, g))"

definition next_double :: "pcg64 \<Rightarrow> f64 \<times> pcg64" where
  "next_double g =
     (let (x, g) = next_u64 g
      in (fmul (f64_of_int (uint (drop_bit 11 x))) (lit (1 / 2 ^ 53)), g))"

subsection \<open>The engine is the 128-bit LCG it claims to be\<close>

lemma uint_lt64: "uint (x :: u64) < 2 ^ 64"
  using uint_lt2p [of x] by simp

lemma uint_lt128: "uint (x :: u128) < 2 ^ 128"
  using uint_lt2p [of x] by simp

lemma uint_or_disjoint:
  fixes x y :: "'a::len word"
  assumes "x AND y = 0"
  shows "uint (x OR y) = uint x + uint y"
proof -
  have "uint x AND uint y = 0" using assms by (metis uint_and unsigned_0)
  then show ?thesis by (simp add: uint_or disjunctive_add_eq_or)
qed

lemma uint_mask: "uint (x AND mask n) = uint x mod 2 ^ n" for x :: "'a::len word"
proof -
  have "x AND mask n = take_bit n x" by (rule take_bit_eq_mask [symmetric])
  moreover have "uint (take_bit n x) = take_bit n (uint x)" by (rule unsigned_take_bit_eq)
  ultimately show ?thesis by (simp only: take_bit_eq_mod)
qed

lemma low32_mask_eq: "low32_mask = mask 32"
  by (simp add: low32_mask_def mask_eq_exp_minus_1)

lemma uint_low32: "uint (x AND low32_mask) = uint x mod 2 ^ 32" for x :: u64
  unfolding low32_mask_eq by (rule uint_mask)

lemma uint_add64: "uint x + uint y < 2 ^ 64 \<Longrightarrow> uint (x + y) = uint x + uint y" for x y :: u64
  by (simp add: uint_word_ariths)

lemma uint_mult64: "uint x * uint y < 2 ^ 64 \<Longrightarrow> uint (x * y) = uint x * uint y" for x y :: u64
  by (simp add: uint_word_ariths)

lemma uint_drop: "uint (drop_bit n x) = uint x div 2 ^ n" for x :: "'a::len word"
  unfolding unsigned_drop_bit_eq take_bit_int_eq_self [OF uint_ge_0 uint_lt2p]
  by (rule drop_bit_eq_div)

lemma uint_push: "uint (push_bit n x) = (uint x * 2 ^ n) mod 2 ^ LENGTH('a)" for x :: "'a::len word"
  unfolding unsigned_push_bit_eq by (simp add: push_bit_eq_mult take_bit_eq_mod)

lemma uint_join128: "uint (join128 hi lo) = 2 ^ 64 * uint hi + uint lo"
proof -
  have d: "push_bit 64 (ucast hi :: u128) AND ucast lo = 0"
    by (rule bit_word_eqI) (auto simp: bit_simps dest: bit_imp_le_length)
  have u: "uint (ucast x :: u128) = uint (x :: u64)" for x
    using uint_lt64 [of x] by (simp add: unsigned_ucast_eq take_bit_int_eq_self)
  have "uint hi * 2 ^ 64 < 2 ^ 128" using uint_lt64 [of hi] by simp
  then show ?thesis
    by (simp add: join128_def uint_or_disjoint [OF d] u uint_push)
qed

lemma uint_parts128: "uint (hi128 x) = uint x div 2 ^ 64" "uint (lo128 x) = uint x mod 2 ^ 64"
proof -
  have "uint x div 2 ^ 64 < 2 ^ 64" using uint_lt128 [of x] by simp
  moreover have "0 \<le> uint x div 2 ^ 64" by (intro pos_imp_zdiv_nonneg_iff [THEN iffD2]) simp_all
  ultimately show "uint (hi128 x) = uint x div 2 ^ 64"
    unfolding hi128_def unsigned_ucast_eq uint_drop
    by (intro take_bit_int_eq_self) simp_all
  show "uint (lo128 x) = uint x mod 2 ^ 64"
    by (simp add: lo128_def unsigned_ucast_eq take_bit_eq_mod)
qed

lemma join_parts128 [simp]: "join128 (hi128 x) (lo128 x) = x"
  by (simp add: word_uint_eq_iff uint_join128 uint_parts128)

lemma parts_join128 [simp]: "hi128 (join128 h l) = h" "lo128 (join128 h l) = l"
  using uint_lt64 [of l] by (simp_all add: word_uint_eq_iff uint_join128 uint_parts128)

text \<open>The school-book product of the portable branch.\<close>

lemma school_product:
  fixes a b B :: int
  assumes B: "0 < B"
  defines "p0 \<equiv> a mod B * (b mod B)" and "p1 \<equiv> a mod B * (b div B)"
    and "p2 \<equiv> a div B * (b mod B)" and "p3 \<equiv> a div B * (b div B)"
  defines "m \<equiv> p0 div B + p1 mod B + p2 mod B"
  shows "a * b = B * B * (p3 + p1 div B + p2 div B + m div B) + (m mod B * B + p0 mod B)"
proof -
  have *: "(ah * B + al) * (bh * B + bl) = B * B * (ah * bh) + B * (al * bh + ah * bl) + al * bl"
    for ah al bh bl by (simp add: algebra_simps)
  have "a * b = (a div B * B + a mod B) * (b div B * B + b mod B)" by simp
  also have "\<dots> = B * B * p3 + B * (p1 + p2) + p0"
    unfolding * p0_def p1_def p2_def p3_def ..
  also have "\<dots> = B * B * p3 + B * ((p1 div B * B + p1 mod B) + (p2 div B * B + p2 mod B))
      + (p0 div B * B + p0 mod B)" by simp
  also have "\<dots> = B * B * (p3 + p1 div B + p2 div B) + B * m + p0 mod B"
    unfolding m_def by (simp only: distrib_left distrib_right mult.assoc mult.commute add.assoc
        add.left_commute mult.left_commute)
  also have "B * m = B * (m div B * B + m mod B)" by simp
  finally show ?thesis by (simp only: distrib_left distrib_right mult.assoc mult.commute add.assoc
        add.left_commute mult.left_commute)
qed

lemma halves_mult_le:
  assumes "0 \<le> x" "x < 2 ^ 32" "0 \<le> y" "y < (2 ^ 32 :: int)"
  shows "0 \<le> x * y" "x * y < 2 ^ 64"
proof -
  show "0 \<le> x * y" using assms by simp
  have "x * y \<le> (2 ^ 32 - 1) * (2 ^ 32 - 1)" using assms by (intro mult_mono) auto
  then show "x * y < 2 ^ 64" by simp
qed

lemma high_half: "0 \<le> x \<Longrightarrow> x < 2 ^ 64 \<Longrightarrow> 0 \<le> x div 2 ^ 32 \<and> x div 2 ^ 32 < (2 ^ 32 :: int)"
  by (simp add: pos_imp_zdiv_nonneg_iff)

lemma shift_mod: "(m * 2 ^ 32) mod 2 ^ LENGTH(64) = m mod 2 ^ 32 * (2 ^ 32 :: int)"
  using mult_mod_left [of m "2 ^ 32" "2 ^ 32"] by simp

lemma small_sums:
  "x < 2 ^ 32 \<Longrightarrow> y < 2 ^ 32 \<Longrightarrow> x + y < (2 ^ 64 :: int)"
  "x < 2 ^ 32 \<Longrightarrow> y < 2 ^ 32 \<Longrightarrow> z < 2 ^ 32 \<Longrightarrow> x + y + z < (2 ^ 64 :: int)"
  "x < 2 ^ 32 \<Longrightarrow> y < 2 ^ 32 \<Longrightarrow> x * 2 ^ 32 + y < (2 ^ 64 :: int)"
  by simp_all

lemma div_mod_of_sum:
  assumes "x = N * k + r" "0 \<le> r" "r < (N :: int)"
  shows "x div N = k" "x mod N = r"
  using assms by simp_all

lemma native_parts:
  "uint (hi128 (join128 h1 l1 * join128 h2 l2)) =
     (uint l1 * uint l2 div 2 ^ 64 + (uint h1 * uint l2 + uint l1 * uint h2)) mod 2 ^ 64"
  "uint (lo128 (join128 h1 l1 * join128 h2 l2)) = uint l1 * uint l2 mod 2 ^ 64"
proof -
  let ?N = "2 ^ 64 :: int" and ?ab = "uint l1 * uint l2"
  let ?k = "?N * (uint h1 * uint h2) + (uint h1 * uint l2 + uint l1 * uint h2) + ?ab div ?N"
  have N: "(2 :: int) ^ 128 = ?N * ?N" by simp
  have *: "(N * x + a) * (N * y + b) = N * (N * (x * y) + (x * b + a * y)) + a * b" for N x y a b :: int
    by (simp add: algebra_simps)
  have "?ab = ?N * (?ab div ?N) + ?ab mod ?N" by simp
  then have e: "(?N * uint h1 + uint l1) * (?N * uint h2 + uint l2) = ?N * ?k + ?ab mod ?N"
    unfolding * by (simp only: distrib_left add.assoc)
  have P: "uint (join128 h1 l1 * join128 h2 l2) = (?N * ?k + ?ab mod ?N) mod (?N * ?N)"
    unfolding e [symmetric] uint_join128 [symmetric] N [symmetric]
    by (simp only: uint_word_ariths len_num0 len_num1 len_bit0 len_bit1) simp
  have r: "0 \<le> ?ab mod ?N" "?ab mod ?N < ?N" by simp_all
  have "(?N * ?k + ?ab mod ?N) mod (?N * ?N) = ?N * (?k mod ?N) + ?ab mod ?N"
    using mod_mult2_eq' [of "?N * ?k + ?ab mod ?N" "2 ^ 64" "2 ^ 64"] div_mod_of_sum [OF refl r, of ?k]
    by (simp only: zmod_zmult2_eq zero_le_power zero_le_numeral)
  note PP = div_mod_of_sum [OF P [unfolded this] r]
  show "uint (lo128 (join128 h1 l1 * join128 h2 l2)) = ?ab mod ?N"
    unfolding uint_parts128 PP ..
  have "?k mod ?N = (uint h1 * uint l2 + uint l1 * uint h2 + ?ab div ?N) mod ?N"
    by (simp only: add.assoc mod_mult_self4)
  then show "uint (hi128 (join128 h1 l1 * join128 h2 l2)) =
     (?ab div ?N + (uint h1 * uint l2 + uint l1 * uint h2)) mod ?N"
    unfolding uint_parts128 PP by (simp only: add.commute add.left_commute)
qed

theorem portable_is_native:
  "multiply_portable lhs_hi lhs_lo rhs_hi rhs_lo = multiply_native lhs_hi lhs_lo rhs_hi rhs_lo"
proof -
  let ?a = "uint lhs_lo" and ?b = "uint rhs_lo" and ?B = "2 ^ 32 :: int"
  let ?p0 = "?a mod ?B * (?b mod ?B)" and ?p1 = "?a mod ?B * (?b div ?B)"
  let ?p2 = "?a div ?B * (?b mod ?B)" and ?p3 = "?a div ?B * (?b div ?B)"
  let ?m = "?p0 div ?B + ?p1 mod ?B + ?p2 mod ?B"
  have r: "0 \<le> ?a mod ?B" "?a mod ?B < ?B" "0 \<le> ?b mod ?B" "?b mod ?B < ?B"
    "0 \<le> ?a div ?B" "?a div ?B < ?B" "0 \<le> ?b div ?B" "?b div ?B < ?B"
    using uint_lt64 [of lhs_lo] uint_lt64 [of rhs_lo]
    by (simp_all add: pos_imp_zdiv_nonneg_iff)
  note p = halves_mult_le [OF r(1,2) r(3,4)] halves_mult_le [OF r(1,2) r(7,8)]
    halves_mult_le [OF r(5,6) r(3,4)] halves_mult_le [OF r(5,6) r(7,8)]
  have small: "0 \<le> x mod ?B" "x mod ?B < ?B" for x by simp_all
  have p0d: "0 \<le> ?p0 div ?B" "?p0 div ?B < ?B" using high_half [OF p(1,2)] by blast+
  have m: "?m < 2 ^ 64" "?p0 div ?B + ?p1 mod ?B < 2 ^ 64"
    by (rule small_sums, (rule p0d small)+)+
  let ?al = "lhs_lo AND low32_mask" and ?ah = "drop_bit 32 lhs_lo"
  let ?bl = "rhs_lo AND low32_mask" and ?bh = "drop_bit 32 rhs_lo"
  have q: "uint (?al * ?bl) = ?p0" "uint (?al * ?bh) = ?p1" "uint (?ah * ?bl) = ?p2"
    "uint (?ah * ?bh) = ?p3"
    using p by (simp_all only: uint_mult64 uint_low32 uint_drop)
  let ?mw = "drop_bit 32 (?al * ?bl) + (?al * ?bh AND low32_mask) + (?ah * ?bl AND low32_mask)"
  have "uint (drop_bit 32 (?al * ?bl) + (?al * ?bh AND low32_mask)) = ?p0 div ?B + ?p1 mod ?B"
    using m(2) by (subst uint_add64) (simp_all only: uint_drop uint_low32 q)
  then have mw: "uint ?mw = ?m"
    using m(1) by (subst uint_add64) (simp_all only: uint_low32 q)
  have dis: "(?al * ?bl AND low32_mask) AND push_bit 32 ?mw = 0"
    unfolding low32_mask_eq by (rule bit_word_eqI) (simp only: bit_simps, auto)
  have lo: "uint ((?al * ?bl AND low32_mask) OR push_bit 32 ?mw) = ?m mod ?B * ?B + ?p0 mod ?B"
    unfolding uint_or_disjoint [OF dis] uint_low32 q uint_push mw shift_mod by (rule add.commute)
  have ab: "?a * ?b = ?B * ?B * (?p3 + ?p1 div ?B + ?p2 div ?B + ?m div ?B) + (?m mod ?B * ?B + ?p0 mod ?B)"
    by (rule school_product) simp
  have low: "0 \<le> ?m mod ?B * ?B + ?p0 mod ?B"
    by (intro add_nonneg_nonneg mult_nonneg_nonneg small(1)) simp
  have low': "?m mod ?B * ?B + ?p0 mod ?B < 2 ^ 64" by (rule small_sums(3) [OF small(2) small(2)])
  have BB: "?B * ?B = 2 ^ 64" by simp
  note parts = div_mod_of_sum [OF ab [unfolded BB] low low']
  let ?hi = "?ah * ?bh + drop_bit 32 (?al * ?bh) + drop_bit 32 (?ah * ?bl) + drop_bit 32 ?mw
    + (lhs_hi * rhs_lo + lhs_lo * rhs_hi)"
  have "?hi = word_of_int (uint (?ah * ?bh) + uint (drop_bit 32 (?al * ?bh))
      + uint (drop_bit 32 (?ah * ?bl)) + uint (drop_bit 32 ?mw)
      + (uint lhs_hi * uint rhs_lo + uint lhs_lo * uint rhs_hi))"
    by simp
  then have "uint ?hi = (?p3 + ?p1 div ?B + ?p2 div ?B + ?m div ?B
      + (uint lhs_hi * uint rhs_lo + uint lhs_lo * uint rhs_hi)) mod 2 ^ 64"
    by (simp only: uint_word_of_int uint_drop q mw) simp
  then have hi: "?hi = hi128 (join128 lhs_hi lhs_lo * join128 rhs_hi rhs_lo)"
    unfolding word_uint_eq_iff native_parts parts .
  have lo': "(?al * ?bl AND low32_mask) OR push_bit 32 ?mw
      = lo128 (join128 lhs_hi lhs_lo * join128 rhs_hi rhs_lo)"
    unfolding word_uint_eq_iff native_parts parts lo ..
  show ?thesis
    unfolding multiply_portable_def multiply_native_def Let_def hi [symmetric] lo' [symmetric] ..
qed

text \<open>The 128-bit state of the generator, and its constants.\<close>

definition pcg_state :: "pcg64 \<Rightarrow> u128" where
  "pcg_state g = join128 (state_hi g) (state_lo g)"

definition pcg_increment :: "pcg64 \<Rightarrow> u128" where
  "pcg_increment g = join128 (increment_hi g) (increment_lo g)"

definition pcg_multiplier :: u128 where
  "pcg_multiplier = 47026247687942121848144207491837523525"

lemma multiplier_join: "join128 multiplier_hi multiplier_lo = pcg_multiplier"
  by (simp add: word_uint_eq_iff uint_join128 multiplier_hi_def multiplier_lo_def pcg_multiplier_def)

lemma carry_split:
  fixes N h1 h2 l1 l2 :: int
  assumes "0 \<le> l1" "l1 < N" "0 \<le> l2" "l2 < N" "0 < N"
  shows "N * ((h1 + h2 + (if (l1 + l2) mod N < l1 then 1 else 0)) mod N) + (l1 + l2) mod N
    = (N * h1 + l1 + (N * h2 + l2)) mod (N * N)"
proof -
  let ?c = "if (l1 + l2) mod N < l1 then 1 else 0 :: int"
  have s: "l1 + l2 = N * ?c + (l1 + l2) mod N"
  proof (cases "l1 + l2 < N")
    case True
    then show ?thesis using assms by simp
  next
    case False
    then have "(l1 + l2) mod N = l1 + l2 - N"
      using assms by (metis (no_types, opaque_lifting) add_diff_eq diff_add_cancel diff_ge_0_iff_ge
          minus_mod_self2 mod_pos_pos_trivial not_less add_strict_mono diff_less_eq)
    then show ?thesis using assms by simp
  qed
  have "N * h1 + l1 + (N * h2 + l2) = N * (h1 + h2) + (l1 + l2)" by (simp add: algebra_simps)
  also have "\<dots> = N * (h1 + h2 + ?c) + (l1 + l2) mod N"
    by (subst s) (simp only: distrib_left add.assoc)
  finally have e: "N * h1 + l1 + (N * h2 + l2) = N * (h1 + h2 + ?c) + (l1 + l2) mod N" .
  have "(N * (h1 + h2 + ?c) + (l1 + l2) mod N) mod (N * N)
      = N * ((h1 + h2 + ?c) mod N) + (l1 + l2) mod N"
    using zmod_zmult2_eq [of N "N * (h1 + h2 + ?c) + (l1 + l2) mod N" N]
      div_mod_of_sum [OF refl, of "(l1 + l2) mod N" N "h1 + h2 + ?c"] assms(5)
    by simp
  then show ?thesis unfolding e by simp
qed

lemma add_mod_join:
  "(case add_mod_2_128 h1 l1 h2 l2 of (h, l) \<Rightarrow> join128 h l) = join128 h1 l1 + join128 h2 l2"
proof -
  let ?N = "2 ^ 64 :: int"
  have N: "(2 :: int) ^ LENGTH(128) = ?N * ?N" "(2 :: int) ^ LENGTH(64) = ?N" by simp_all
  have c: "(l1 + l2 < l1) = ((uint l1 + uint l2) mod ?N < uint l1)"
    unfolding word_less_def uint_word_ariths(1) N ..
  have "uint (h1 + h2 + (if l1 + l2 < l1 then 1 else 0))
      = (uint h1 + uint h2 + (if (uint l1 + uint l2) mod ?N < uint l1 then 1 else 0)) mod ?N"
    unfolding c by (simp add: uint_word_ariths mod_simps)
  then show ?thesis
    unfolding add_mod_2_128_def Let_def prod.case word_uint_eq_iff uint_join128
      uint_word_ariths(1) [of "join128 h1 l1"] uint_word_ariths(1) [of l1 l2] N
    using carry_split [of "uint l1" ?N "uint l2" "uint h1" "uint h2"] uint_lt64 by simp
qed

lemma step_state: "pcg_state (pcg_step g) = pcg_state g * pcg_multiplier + pcg_increment g"
proof -
  let ?P = "join128 (state_hi g) (state_lo g) * join128 multiplier_hi multiplier_lo"
  have "pcg_state (pcg_step g) =
      (case add_mod_2_128 (hi128 ?P) (lo128 ?P) (increment_hi g) (increment_lo g) of
         (h, l) \<Rightarrow> join128 h l)"
    by (simp add: pcg_step_def pcg_state_def multiply_native_def Let_def split_beta)
  then show ?thesis
    unfolding add_mod_join join_parts128 by (simp add: pcg_state_def pcg_increment_def multiplier_join)
qed

lemma step_increment [simp]: "pcg_increment (pcg_step g) = pcg_increment g"
  by (simp add: pcg_step_def pcg_increment_def split_beta Let_def)

definition pcg_multiplier_inverse :: u128 where
  "pcg_multiplier_inverse = 10455382779074951524300553632856583309"

lemma multiplier_inverse: "pcg_multiplier * pcg_multiplier_inverse = 1"
  by (simp add: pcg_multiplier_def pcg_multiplier_inverse_def)

lemma pcg_state_eq_iff:
  "pcg_state g = pcg_state h \<and> pcg_increment g = pcg_increment h \<longleftrightarrow> g = (h :: pcg64)"
proof
  assume "pcg_state g = pcg_state h \<and> pcg_increment g = pcg_increment h"
  then show "g = h"
    unfolding pcg_state_def pcg_increment_def by (metis parts_join128 pcg64.equality old.unit.exhaust)
qed simp

text \<open>The 32-bit rotation arithmetic of \<open>output\<close> is a rotation of the 64-bit word.\<close>

lemma unat_lt64: "unat (x :: u64) < 2 ^ 64"
proof -
  have "unat x < 2 ^ LENGTH(64)" by (rule unsigned_less)
  then show ?thesis by simp
qed

lemma rotation_counts:
  assumes "r < 64"
  shows "unat (- (word_of_nat r :: u32) AND 63) = (64 - r) mod 64"
proof -
  have "list_all (\<lambda>r. unat (- (word_of_nat r :: u32) AND 63) = (64 - r) mod 64) [0..<64]"
    by code_simp
  then show ?thesis using assms by (simp add: list_all_iff)
qed

lemma shifts_rotate:
  fixes x :: u64
  assumes "r < 64"
  shows "drop_bit r x OR push_bit ((64 - r) mod 64) x = word_rotr r x"
proof (rule bit_word_eqI)
  fix n assume n: "n < LENGTH(64)"
  show "bit (drop_bit r x OR push_bit ((64 - r) mod 64) x) n = bit (word_rotr r x) n"
  proof (cases "r = 0")
    case True
    then show ?thesis using n by (simp add: bit_simps)
  next
    case r: False
    have c: "bit x (r + n) = bit x (n + r)" by (simp only: add.commute)
    show ?thesis
    proof (cases "n + r < 64")
      case True
      then have "\<not> 64 - r \<le> n" by simp
      then show ?thesis using True n r assms c by (simp add: bit_simps)
    next
      case False
      then have "(n + r) mod 64 = n + r - 64" "\<not> bit x (n + r)"
        using n assms by (auto simp: le_mod_geq dest: bit_imp_le_length)
      moreover have "n - (64 - r) = n + r - 64" "64 - r \<le> n" using False assms by auto
      ultimately show ?thesis using n assms r c by (simp add: bit_simps)
    qed
  qed
qed

lemma output_rotates:
  "pcg_output g = word_rotr (unat (state_hi g) div 2 ^ 58) (state_hi g XOR state_lo g)"
proof -
  let ?r = "unat (state_hi g) div 2 ^ 58"
  have r: "?r < 64" using unat_lt64 [of "state_hi g"] by simp
  have u: "unat (ucast (drop_bit 58 (state_hi g)) :: u32) = ?r"
  proof -
    have "unat (ucast (drop_bit 58 (state_hi g)) :: u32) = take_bit 32 (drop_bit 58 (unat (state_hi g)))"
      unfolding unsigned_ucast_eq unat_drop_bit_eq by simp
    also have "\<dots> = ?r mod 2 ^ 32" by (simp only: drop_bit_eq_div take_bit_eq_mod)
    finally show ?thesis using r by simp
  qed
  have "unat (word_of_nat ?r :: u32) = ?r"
  proof -
    have "take_bit LENGTH(32) ?r = ?r" by (intro take_bit_nat_eq_self order.strict_trans [OF r]) simp
    then show ?thesis unfolding unsigned_of_nat by (simp only: of_nat_id)
  qed
  then have "(ucast (drop_bit 58 (state_hi g)) :: u32) = word_of_nat ?r"
    unfolding word_unat_eq_iff u by simp
  then show ?thesis
    unfolding pcg_output_def Let_def u
    using rotation_counts [OF r] shifts_rotate [OF r] by (simp only:)
qed

end
