(* ===== verification/Sampling.thy ===== *)
theory Sampling
  imports Pcg
begin

text \<open>
  \<open>rng.cpp\<close> and \<open>rng.hpp\<close>: SplitMix64 seeding, the coin, bounded integers by Lemire's
  rejection method, and sampling of indices with and without replacement.

  An \<open>Rng\<close> is its engine. A sampler returns \<open>None\<close> when the sources never return, and a
  throwing sampler returns the exception as \<open>Inl\<close>.
\<close>

type_synonym rng = pcg64

subsection \<open>Seeding\<close>

definition splitmix_gamma :: u64 where "splitmix_gamma = 0x9e3779b97f4a7c15"
definition splitmix_mix1 :: u64 where "splitmix_mix1 = 0xbf58476d1ce4e5b9"
definition splitmix_mix2 :: u64 where "splitmix_mix2 = 0x94d049bb133111eb"

definition splitmix64 :: "u64 \<Rightarrow> u64 \<times> u64" where
  "splitmix64 state =
     (let state = state + splitmix_gamma;
          v = state;
          v = (v XOR drop_bit 30 v) * splitmix_mix1;
          v = (v XOR drop_bit 27 v) * splitmix_mix2
      in (v XOR drop_bit 31 v, state))"

definition from_seed :: "u64 \<Rightarrow> rng" where
  "from_seed seed =
     (let state = seed;
          (s0, state) = splitmix64 state;
          (s1, state) = splitmix64 state;
          (i0, state) = splitmix64 state;
          (i1, state) = splitmix64 state;
          i1 = i1 OR 1
      in \<lparr>state_hi = s0, state_lo = s1, increment_hi = i0, increment_lo = i1\<rparr>)"

subsection \<open>Scalar samplers\<close>

definition coin :: "f64 \<Rightarrow> rng \<Rightarrow> bool \<times> rng" where
  "coin p g =
     (if fle p (Fin 0) then (False, g)
      else if fle (Fin 1) p then (True, g)
      else let (x, g) = next_double g in (flt x p, g))"

definition lemire_product :: "u64 \<Rightarrow> u64 \<Rightarrow> u128" where
  "lemire_product x width = ucast x * ucast width"

text \<open>The rejection loop, entered with the candidate already drawn.\<close>

partial_function (option) lemire_loop ::
    "u64 \<Rightarrow> u64 \<Rightarrow> u64 \<Rightarrow> rng \<Rightarrow> (u64 \<times> rng) option" where
  "lemire_loop width threshold x g =
     (if lo128 (lemire_product x width) < threshold
      then (let (x, g) = next_u64 g in lemire_loop width threshold x g)
      else Some (hi128 (lemire_product x width), g))"

definition bounded :: "u64 \<Rightarrow> rng \<Rightarrow> (u64 \<times> rng) option" where
  "bounded width g =
     (if width \<le> 1 then Some (0, g)
      else
        let (x, g) = next_u64 g;
            product = lemire_product x width
        in if lo128 product < width then lemire_loop width ((- width) mod width) x g
           else Some (hi128 product, g))"

text \<open>The branch for compilers without \<open>__uint128_t\<close>.\<close>

partial_function (option) modulo_loop ::
    "u64 \<Rightarrow> u64 \<Rightarrow> u64 \<Rightarrow> rng \<Rightarrow> (u64 \<times> rng) option" where
  "modulo_loop width limit x g =
     (if limit \<le> x then (let (x, g) = next_u64 g in modulo_loop width limit x g)
      else Some (x mod width, g))"

definition bounded_portable :: "u64 \<Rightarrow> rng \<Rightarrow> (u64 \<times> rng) option" where
  "bounded_portable width g =
     (if width \<le> 1 then Some (0, g)
      else let (x, g) = next_u64 g in modulo_loop width ((- 1) div width * width) x g)"

definition uniform_int :: "i64 \<Rightarrow> i64 \<Rightarrow> rng \<Rightarrow> (i64 \<times> rng) option result" where
  "uniform_int low high g =
     (if high \<le> low then Inl (InvalidArgument ''uniformInt: low must be < high'')
      else Inr (case bounded (word_of_int (high - low)) g of
             None \<Rightarrow> None
           | Some (v, g) \<Rightarrow> Some (low + sint v, g)))"

definition choice_index :: "nat \<Rightarrow> rng \<Rightarrow> (nat \<times> rng) option result" where
  "choice_index n g =
     (if n = 0 then Inl (InvalidArgument ''choiceIndex: n must be > 0'')
      else Inr (map_option (\<lambda>(v, g). (unat v, g)) (bounded (word_of_nat n) g)))"

subsection \<open>Index samplers\<close>

text \<open>\<open>floydSample\<close> takes the bounded draw as a parameter, as the template does.\<close>

function floyd_from ::
    "(u64 \<Rightarrow> 'g \<Rightarrow> (u64 \<times> 'g) option) \<Rightarrow> nat \<Rightarrow> nat \<Rightarrow> nat list \<Rightarrow> 'g \<Rightarrow> (nat list \<times> 'g) option" where
  "floyd_from bounded_fn n j out g =
     (if n \<le> j then Some (out, g)
      else case bounded_fn (word_of_nat j + 1) g of
        None \<Rightarrow> None
      | Some (v, g) \<Rightarrow>
          let t = unat v; duplicate = t \<in> set out
          in floyd_from bounded_fn n (Suc j) (out @ [if duplicate then j else t]) g)"
  by pat_completeness auto
termination by (relation "measure (\<lambda>(_, n, j, _). n - j)") auto

declare floyd_from.simps [simp del]

definition floyd_sample ::
    "(u64 \<Rightarrow> 'g \<Rightarrow> (u64 \<times> 'g) option) \<Rightarrow> nat \<Rightarrow> nat \<Rightarrow> 'g \<Rightarrow> (nat list \<times> 'g) option" where
  "floyd_sample bounded_fn n k g = floyd_from bounded_fn n (n - k) [] g"

fun draw_each :: "nat \<Rightarrow> nat \<Rightarrow> rng \<Rightarrow> (nat list \<times> rng) option" where
  "draw_each n 0 g = Some ([], g)"
| "draw_each n (Suc k) g =
     (case bounded (word_of_nat n) g of
        None \<Rightarrow> None
      | Some (v, g) \<Rightarrow> map_option (\<lambda>(vs, g). (unat v # vs, g)) (draw_each n k g))"

definition swap_at :: "nat \<Rightarrow> nat \<Rightarrow> 'a list \<Rightarrow> 'a list" where
  "swap_at i j xs = xs[i := xs ! j, j := xs ! i]"

function shuffle_from :: "nat \<Rightarrow> nat \<Rightarrow> nat \<Rightarrow> nat list \<Rightarrow> rng \<Rightarrow> (nat list \<times> rng) option" where
  "shuffle_from n k i pool g =
     (if k \<le> i then Some (pool, g)
      else case bounded (word_of_nat (n - i)) g of
        None \<Rightarrow> None
      | Some (v, g) \<Rightarrow> shuffle_from n k (Suc i) (swap_at i (i + unat v) pool) g)"
  by pat_completeness auto
termination by (relation "measure (\<lambda>(_, k, i, _). k - i)") auto

declare shuffle_from.simps [simp del]

definition floyd_max_k :: nat where "floyd_max_k = 1024"

definition choice_indices :: "nat \<Rightarrow> nat \<Rightarrow> bool \<Rightarrow> rng \<Rightarrow> (nat list \<times> rng) option result" where
  "choice_indices n k replace g =
     (if k = 0 then Inr (Some ([], g))
      else if n = 0 then Inl (InvalidArgument ''choiceIndices: n must be > 0 when k > 0'')
      else if \<not> replace \<and> n < k
      then Inl (InvalidArgument ''choiceIndices: k exceeds n without replacement'')
      else if replace then Inr (draw_each n k g)
      else if k \<le> floyd_max_k \<and> k * 2 \<le> n then Inr (floyd_sample bounded n k g)
      else Inr (map_option (\<lambda>(pool, g). (take k pool, g)) (shuffle_from n k 0 [0..<n] g)))"

subsection \<open>Seeding gives an odd increment\<close>

lemma from_seed_odd: "odd (increment_lo (from_seed seed))"
  by (simp add: from_seed_def Let_def split_beta even_or_iff)

subsection \<open>Lemire's method\<close>

definition lemire_threshold :: "u64 \<Rightarrow> u64" where
  "lemire_threshold width = (- width) mod width"

definition lemire_accepts :: "u64 \<Rightarrow> u64 \<Rightarrow> bool" where
  "lemire_accepts width x = (lemire_threshold width \<le> lo128 (lemire_product x width))"

definition lemire_value :: "u64 \<Rightarrow> u64 \<Rightarrow> u64" where
  "lemire_value width x = hi128 (lemire_product x width)"

lemma uint_product: "uint (lemire_product x w) = uint x * uint w"
proof -
  have u: "uint (ucast x :: u128) = uint (x :: u64)" for x
    using uint_lt64 [of x] by (simp add: unsigned_ucast_eq take_bit_int_eq_self)
  have "uint x * uint w \<le> (2 ^ 64 - 1) * (2 ^ 64 - 1)"
    using uint_lt64 [of x] uint_lt64 [of w] by (intro mult_mono) auto
  then have "uint x * uint w < 2 ^ LENGTH(128)" by simp
  then show ?thesis unfolding lemire_product_def uint_word_ariths(3) u
    by (intro mod_pos_pos_trivial) simp_all
qed

lemma uint_threshold:
  assumes "1 < w"
  shows "uint (lemire_threshold w) = 2 ^ 64 mod uint w"
proof -
  have "uint (- w) = 2 ^ 64 - uint w"
    using assms uint_lt64 [of w] unfolding uint_word_ariths
    by (simp add: zmod_zminus1_eq_if word_less_def)
  moreover have "(2 ^ 64 - uint w) mod uint w = 2 ^ 64 mod uint w" by (rule minus_mod_self2)
  ultimately show ?thesis unfolding lemire_threshold_def uint_mod_distrib by simp
qed

lemma lemire_value_less: "w \<noteq> 0 \<Longrightarrow> lemire_value w x < w"
proof -
  assume "w \<noteq> 0"
  then have "0 < uint w" by (simp add: word_neq_0_conv word_less_def)
  then have "uint x * uint w < 2 ^ 64 * uint w" using uint_lt64 [of x] by simp
  then show ?thesis
    unfolding lemire_value_def word_less_def uint_parts128 uint_product
    by (simp add: mult.commute)
qed

text \<open>The first candidate that is not below \<open>width\<close> is accepted anyway.\<close>

lemma threshold_less:
  assumes "1 < w"
  shows "lemire_threshold w < w"
proof -
  have "0 < uint w" using assms by (simp add: word_less_def)
  then have "2 ^ 64 mod uint w < uint w" by (rule pos_mod_bound)
  then show ?thesis unfolding word_less_def uint_threshold [OF assms] .
qed

lemma ceil_div_le:
  assumes r: "0 < r"
  shows "A \<le> k * r \<longleftrightarrow> - ((- A) div r) \<le> (k :: int)"
proof -
  let ?q = "(- A) div r" and ?m = "(- A) mod r"
  have d: "- A = ?q * r + ?m" "0 \<le> ?m" "?m < r" using r by simp_all
  show ?thesis
  proof
    assume "A \<le> k * r"
    then have "- (k * r) < ?q * r + r" using d by linarith
    then have "(- k) * r < (?q + 1) * r" by (simp only: minus_mult_left distrib_right mult_1)
    then have "- k < ?q + 1" by (rule mult_less_cancel_right_pos [OF r, THEN iffD1])
    then show "- ?q \<le> k" by linarith
  next
    assume "- ?q \<le> k"
    then have "(- k) * r \<le> ?q * r" using r by (intro mult_right_mono) auto
    then show "A \<le> k * r" using d by linarith
  qed
qed

lemma multiples_in_interval:
  assumes "0 < (r :: int)"
  shows "{k. A \<le> k * r \<and> k * r < A + int m * r} = {- ((- A) div r)..< - ((- A) div r) + int m}"
proof -
  have "k * r < A + int m * r \<longleftrightarrow> \<not> A \<le> (k - int m) * r" for k by (auto simp: algebra_simps)
  then show ?thesis using ceil_div_le [OF assms] by auto
qed


lemma uint_bij_range: "uint ` (UNIV :: u64 set) = {0..<2 ^ 64}"
proof
  show "uint ` (UNIV :: u64 set) \<subseteq> {0..<2 ^ 64}" using uint_lt64 by auto
  show "{0..<2 ^ 64} \<subseteq> uint ` (UNIV :: u64 set)"
  proof
    fix k :: int assume "k \<in> {0..<2 ^ 64}"
    then have "uint (word_of_int k :: u64) = k" by (simp add: unsigned_of_int take_bit_int_eq_self)
    then show "k \<in> uint ` (UNIV :: u64 set)" by (metis rangeI)
  qed
qed

text \<open>The accepted candidates that give \<open>v\<close>, as numbers.\<close>

lemma accepted_candidates:
  assumes w: "1 < w" and v: "v < w"
  shows "uint ` {x. lemire_accepts w x \<and> lemire_value w x = v} =
    {k. 2 ^ 64 * uint v + 2 ^ 64 mod uint w \<le> k * uint w \<and>
        k * uint w < 2 ^ 64 * uint v + 2 ^ 64}"
    (is "?L = ?R")
proof -
  let ?N = "2 ^ 64 :: int" and ?r = "uint w"
  have r: "0 < ?r" using w by (simp add: word_less_def)
  have t: "0 \<le> ?N mod ?r" using r by simp
  have n0: "0 \<le> ?N * uint v" by simp
  have iff: "lemire_accepts w x \<and> lemire_value w x = v \<longleftrightarrow>
      ?N * uint v + ?N mod ?r \<le> uint x * ?r \<and> uint x * ?r < ?N * uint v + ?N" for x
  proof -
    let ?p = "uint x * ?r"
    have p: "?p = ?N * (?p div ?N) + ?p mod ?N" "0 \<le> ?p mod ?N" "?p mod ?N < ?N" by simp_all
    have "?p div ?N = uint v" if "?N * uint v \<le> ?p" "?p < ?N * uint v + ?N"
      by (rule div_mod_of_sum(1) [of _ _ _ "?p - ?N * uint v"]) (use that in auto)
    then show ?thesis
      unfolding lemire_accepts_def lemire_value_def word_le_def word_uint_eq_iff [of _ v]
        uint_parts128 uint_product uint_threshold [OF w]
      using p t by (smt (verit) mult_cancel_left)
  qed
  have "k \<in> uint ` (UNIV :: u64 set)" if "k \<in> ?R" for k
  proof -
    have "?N * uint v + ?N mod ?r \<le> k * ?r" using that by blast
    then have "0 \<le> k * ?r" by (rule order_trans [OF add_nonneg_nonneg [OF n0 t]])
    then have "0 \<le> k" using r by (simp add: zero_le_mult_iff)
    moreover have "uint v + 1 \<le> ?r" using v by (simp add: word_less_def)
    then have "?N * (uint v + 1) \<le> ?N * ?r" by simp
    then have "k * ?r < ?N * ?r" using that by (simp add: distrib_left)
    then have "k < ?N" using r by (simp add: mult_less_cancel_right)
    ultimately show ?thesis unfolding uint_bij_range by simp
  qed
  then show ?thesis using iff by auto
qed

lemma lemire_count:
  assumes w: "1 < w" and v: "v < w"
  shows "card {x. lemire_accepts w x \<and> lemire_value w x = v} = 2 ^ 64 div unat w"
proof -
  let ?N = "2 ^ 64 :: int" and ?r = "uint w"
  have r: "0 < ?r" using w by (simp add: word_less_def)
  let ?m = "nat (?N div ?r)" and ?A = "?N * uint v + ?N mod ?r"
  have m: "int ?m = ?N div ?r" using r by (simp add: pos_imp_zdiv_nonneg_iff)
  have e: "?N * uint v + ?N = ?A + int ?m * ?r" unfolding m by (simp only: add.assoc mod_div_mult_eq)
  have "uint ` {x. lemire_accepts w x \<and> lemire_value w x = v} =
      {- ((- ?A) div ?r)..< - ((- ?A) div ?r) + int ?m}"
    unfolding accepted_candidates [OF w v] e by (rule multiples_in_interval [OF r])
  then have "card (uint ` {x. lemire_accepts w x \<and> lemire_value w x = v}) = ?m" by simp
  moreover have "inj_on uint {x. lemire_accepts w x \<and> lemire_value w x = v}"
    by (rule inj_onI) (simp add: word_uint_eq_iff)
  moreover have "?m = 2 ^ 64 div unat w"
    unfolding unat_eq_nat_uint
    by (simp only: nat_div_distrib zero_le_power zero_le_numeral nat_power_eq nat_numeral)
  ultimately show ?thesis by (simp add: card_image)
qed

text \<open>\<open>bounded\<close> returns the value of the first accepted output of the engine.\<close>

definition candidate :: "rng \<Rightarrow> nat \<Rightarrow> u64" where
  "candidate g n = pcg_output ((pcg_step ^^ Suc n) g)"

lemma candidate_Suc: "candidate g (Suc n) = candidate (pcg_step g) n"
  by (simp only: candidate_def funpow_Suc_right o_def)

lemma candidate_0: "candidate g 0 = pcg_output (pcg_step g)"
  by (simp add: candidate_def)

lemma bounded_unfold:
  assumes "1 < w"
  shows "bounded w g =
    lemire_loop w (lemire_threshold w) (pcg_output (pcg_step g)) (pcg_step g)"
proof -
  let ?x = "pcg_output (pcg_step g)"
  have "lemire_threshold w < w" by (rule threshold_less [OF assms])
  then have "lemire_loop w (lemire_threshold w) ?x (pcg_step g)
      = Some (hi128 (lemire_product ?x w), pcg_step g)" if "\<not> lo128 (lemire_product ?x w) < w"
    using that by (subst lemire_loop.simps) auto
  then show ?thesis
    using assms by (auto simp: bounded_def next_u64_def Let_def lemire_threshold_def)
qed

lemma bounded_step:
  assumes "1 < w"
  shows "bounded w g =
    (if lemire_accepts w (candidate g 0) then Some (lemire_value w (candidate g 0), pcg_step g)
     else bounded w (pcg_step g))"
  unfolding bounded_unfold [OF assms] candidate_0
  by (subst lemire_loop.simps)
    (auto simp: lemire_accepts_def lemire_value_def next_u64_def not_le Let_def)

definition first_accepted :: "u64 \<Rightarrow> rng \<Rightarrow> nat \<Rightarrow> bool" where
  "first_accepted w g n =
     (lemire_accepts w (candidate g n) \<and> (\<forall>i < n. \<not> lemire_accepts w (candidate g i)))"

lemma first_accepted_Suc:
  "first_accepted w g (Suc n) \<longleftrightarrow> \<not> lemire_accepts w (candidate g 0) \<and> first_accepted w (pcg_step g) n"
  by (auto simp: first_accepted_def candidate_Suc All_less_Suc2)

lemma bounded_returns:
  assumes "1 < w"
  shows "first_accepted w g n \<Longrightarrow>
    bounded w g = Some (lemire_value w (candidate g n), (pcg_step ^^ Suc n) g)"
proof (induction n arbitrary: g)
  case 0
  then show ?case by (simp add: bounded_step [OF assms] first_accepted_def)
next
  case (Suc n)
  then show ?case
    unfolding first_accepted_Suc bounded_step [OF assms, of g] candidate_Suc funpow_Suc_right o_def
    by simp
qed

lemma first_accepted_next:
  assumes "lemire_accepts w (candidate g 0) \<or> (\<exists>n. first_accepted w (pcg_step g) n)"
  shows "\<exists>n. first_accepted w g n"
proof (cases "lemire_accepts w (candidate g 0)")
  case True
  then have "first_accepted w g 0" by (simp add: first_accepted_def)
  then show ?thesis by blast
next
  case False
  then show ?thesis using assms first_accepted_Suc by blast
qed

lemma lemire_loop_first:
  assumes "lemire_loop w t x g = Some r" "t = lemire_threshold w"
  shows "lemire_accepts w x \<or> (\<exists>n. first_accepted w g n)"
proof -
  let ?P = "\<lambda>w t x g (r :: u64 \<times> rng). t = lemire_threshold w \<longrightarrow>
    lemire_accepts w x \<or> (\<exists>n. first_accepted w g n)"
  have "?P w t x g r"
  proof (rule lemire_loop.raw_induct [of ?P "(((w, t), x), g)" r, unfolded prod.case])
    show "lemire_loop w t x g = Some r" by (rule assms)
    fix f w t x g r
    assume IH: "\<And>w t x g r. f w t x g = Some r \<Longrightarrow> ?P w t x g r"
      and body: "(if lo128 (lemire_product x w) < t then (let (x, g) = next_u64 g in f w t x g)
        else Some (hi128 (lemire_product x w), g)) = Some r"
    show "?P w t x g r"
    proof (intro impI, cases "lemire_accepts w x")
      assume t: "t = lemire_threshold w" and "\<not> lemire_accepts w x"
      then have "f w t (candidate g 0) (pcg_step g) = Some r"
        using body by (simp add: lemire_accepts_def next_u64_def not_le Let_def candidate_0)
      from first_accepted_next IH [OF this] t
      show "lemire_accepts w x \<or> (\<exists>n. first_accepted w g n)" by blast
    qed simp
  qed
  then show ?thesis using assms(2) by blast
qed

lemma bounded_first:
  assumes "1 < w" "bounded w g = Some r"
  obtains n where "first_accepted w g n"
    "r = (lemire_value w (candidate g n), (pcg_step ^^ Suc n) g)"
proof -
  from lemire_loop_first [OF assms(2) [unfolded bounded_unfold [OF assms(1)]] refl]
  have "\<exists>n. first_accepted w g n" by (intro first_accepted_next) (simp add: candidate_0)
  then show thesis using bounded_returns [OF assms(1)] assms(2) that by force
qed

lemma bounded_less:
  assumes "bounded w g = Some (v, g')" "0 < w"
  shows "v < w"
proof (cases "1 < w")
  case True
  have "w \<noteq> 0" using assms(2) by auto
  then show ?thesis using bounded_first [OF True assms(1)] lemire_value_less by auto
next
  case False
  then show ?thesis using assms by (auto simp: bounded_def not_less)
qed

end
