(* ===== verification/PcgPeriod.thy ===== *)
theory PcgPeriod
  imports Sampling
begin

text \<open>
  The PCG64 engine has the full period \<open>2 ^ 128\<close> for every odd increment, which every seeded
  generator has. It follows that every 64-bit value is output again and again, and that the
  rejection loops of the samplers always end.
\<close>

subsection \<open>Geometric sums modulo powers of two\<close>

definition geo :: "int \<Rightarrow> nat \<Rightarrow> int" where
  "geo a n = (\<Sum>i < n. a ^ i)"

lemma geo_Suc [simp]: "geo a 0 = 0" "geo a (Suc n) = geo a n + a ^ n"
  by (simp_all add: geo_def)

lemma geo_power: "a ^ n - 1 = (a - 1) * geo a n"
proof (induction n)
  case (Suc n)
  have "a ^ Suc n - 1 = (a - 1) * a ^ n + (a ^ n - 1)" by (simp add: algebra_simps)
  then show ?case unfolding Suc.IH geo_Suc distrib_left by simp
qed simp

lemma geo_add: "geo a (m + n) = geo a m + a ^ m * geo a n"
  by (induction n) (simp_all add: algebra_simps power_add)

lemma geo_double: "geo a (2 * m) = geo a m * (1 + a ^ m)"
  unfolding mult_2 [of m] geo_add by (simp add: algebra_simps)

lemma geo_parity: "odd a \<Longrightarrow> odd (geo a n) \<longleftrightarrow> odd n"
  by (induction n) auto

lemma power_mod_4: "a mod 4 = 1 \<Longrightarrow> a ^ n mod 4 = (1 :: int)"
  using power_mod [of a 4 n] by simp

lemma geo_dvd:
  assumes "a mod 4 = 1"
  shows "2 ^ k dvd geo a m \<Longrightarrow> 2 ^ k dvd m"
proof (induction k arbitrary: m)
  case (Suc k)
  have odd: "odd a" using assms by presburger
  have "even (geo a m)" using Suc.prems by (meson dvd_trans dvd_power zero_less_Suc)
  then have "even m" using geo_parity [OF odd] by blast
  then obtain n where m: "m = 2 * n" by (elim evenE)
  have "(1 + a ^ n) mod 4 = 2" using power_mod_4 [OF assms, of n] by presburger
  moreover define z where "z = 1 + a ^ n"
  ultimately have "z = 2 * (z div 2) \<and> odd (z div 2)" by presburger
  then obtain q where q: "1 + a ^ n = 2 * q" "odd q" unfolding z_def by blast
  have "2 * 2 ^ k dvd 2 * (geo a n * q)"
    using Suc.prems unfolding m geo_double q(1) by (simp add: ac_simps)
  then have "2 ^ k dvd geo a n * q" by simp
  moreover have "coprime (2 ^ k) q" using q(2) by simp
  ultimately have "2 ^ k dvd geo a n" by (simp add: coprime_dvd_mult_left_iff)
  then have "2 ^ k dvd n" by (rule Suc.IH)
  then show ?case unfolding m by simp
qed simp

subsection \<open>The orbit of the engine\<close>

lemma funpow_increment: "pcg_increment ((pcg_step ^^ n) g) = pcg_increment g"
  by (induction n) simp_all

lemma funpow_state:
  "pcg_state ((pcg_step ^^ n) g) =
     pcg_multiplier ^ n * pcg_state g + pcg_increment g * of_int (geo (uint pcg_multiplier) n)"
proof (induction n)
  case (Suc n)
  have "(of_int (geo (uint pcg_multiplier) (Suc n)) :: u128)
      = of_int (geo (uint pcg_multiplier) n) + pcg_multiplier ^ n" by simp
  moreover have "pcg_multiplier * of_int (geo (uint pcg_multiplier) n) + 1
      = of_int (geo (uint pcg_multiplier) n) + pcg_multiplier ^ n"
  proof -
    let ?a = "uint pcg_multiplier"
    have "?a * geo ?a n + 1 = geo ?a n + ?a ^ n"
      using geo_power [of ?a n] by (simp add: left_diff_distrib)
    then have "(of_int (?a * geo ?a n + 1) :: u128) = of_int (geo ?a n + ?a ^ n)" by (rule arg_cong)
    then show ?thesis by simp
  qed
  moreover have "(mn * s + c * t) * m + c = m * mn * s + c * (m * t + 1)" for m mn s c t :: u128
    by (simp add: algebra_simps)
  ultimately show ?case
    unfolding funpow.simps o_apply step_state Suc.IH funpow_increment power_Suc by (simp only:)
qed simp

subsection \<open>Distinct states\<close>

lemma word128_eq_0: "(of_int k :: u128) = 0 \<longleftrightarrow> 2 ^ 128 dvd k"
proof -
  have "(of_int k :: u128) = 0 \<longleftrightarrow> 2 ^ LENGTH(128) dvd k" by (rule word_of_int_eq_0_iff)
  then show ?thesis by (simp only: len_num0 len_num1 len_bit0 len_bit1) simp
qed

lemma return_dvd:
  assumes "odd (uint (pcg_increment g))" "pcg_state ((pcg_step ^^ m) g) = pcg_state g"
  shows "2 ^ 128 dvd m"
proof -
  let ?a = "uint pcg_multiplier" and ?s = "uint (pcg_state g)" and ?c = "uint (pcg_increment g)"
  have "(of_int ((?a - 1) * ?s + ?c) * of_int (geo ?a m) :: u128) =
      (of_int ((?a - 1) * geo ?a m) * pcg_state g + pcg_increment g * of_int (geo ?a m))"
    by (simp add: algebra_simps)
  also have "\<dots> = of_int (?a ^ m - 1) * pcg_state g + pcg_increment g * of_int (geo ?a m)"
    unfolding geo_power ..
  also have "\<dots> = pcg_multiplier ^ m * pcg_state g - pcg_state g + pcg_increment g * of_int (geo ?a m)"
    by (simp add: algebra_simps)
  also have "\<dots> = 0" using assms(2) unfolding funpow_state by (simp add: algebra_simps)
  finally have "2 ^ 128 dvd ((?a - 1) * ?s + ?c) * geo ?a m"
    unfolding of_int_mult [symmetric] word128_eq_0 .
  moreover have "odd ((?a - 1) * ?s + ?c)" using assms(1) by (simp add: pcg_multiplier_def)
  then have "coprime (2 ^ 128) ((?a - 1) * ?s + ?c)" by (simp del: power_numeral)
  ultimately have "2 ^ 128 dvd geo ?a m" by (rule coprime_dvd_mult_right_iff [THEN iffD1, rotated])
  moreover have "?a mod 4 = 1" by (simp add: pcg_multiplier_def)
  ultimately show ?thesis by (rule geo_dvd [rotated])
qed

lemma inj_step: "inj (\<lambda>s :: u128. s * pcg_multiplier + c)"
proof (rule injI)
  fix s t assume "s * pcg_multiplier + c = t * pcg_multiplier + c"
  then have "s * pcg_multiplier = t * pcg_multiplier" by simp
  then have "s * pcg_multiplier * pcg_multiplier_inverse = t * pcg_multiplier * pcg_multiplier_inverse"
    by (rule arg_cong)
  then have "s * (pcg_multiplier * pcg_multiplier_inverse) = t * (pcg_multiplier * pcg_multiplier_inverse)"
    by (simp only: mult.assoc)
  then show "s = t" by (simp add: multiplier_inverse)
qed

lemma step_inj:
  assumes "pcg_increment g = pcg_increment h" "pcg_state (pcg_step g) = pcg_state (pcg_step h)"
  shows "pcg_state g = pcg_state h"
  using assms injD [OF inj_step] unfolding step_state by metis

lemma funpow_inj:
  assumes "pcg_increment g = pcg_increment h"
  shows "pcg_state ((pcg_step ^^ n) g) = pcg_state ((pcg_step ^^ n) h) \<Longrightarrow> pcg_state g = pcg_state h"
proof (induction n)
  case (Suc n)
  have "pcg_state ((pcg_step ^^ n) g) = pcg_state ((pcg_step ^^ n) h)"
    by (rule step_inj) (use Suc.prems assms in \<open>simp_all add: funpow_increment\<close>)
  then show ?case by (rule Suc.IH)
qed simp

lemma orbit_inj:
  assumes "odd (uint (pcg_increment g))" "i < j" "j < 2 ^ 128"
  shows "pcg_state ((pcg_step ^^ i) g) \<noteq> pcg_state ((pcg_step ^^ j) g)"
proof
  assume e: "pcg_state ((pcg_step ^^ i) g) = pcg_state ((pcg_step ^^ j) g)"
  have j: "(pcg_step ^^ j) g = (pcg_step ^^ i) ((pcg_step ^^ (j - i)) g)"
    using assms(2) by (metis funpow_add le_add_diff_inverse less_imp_le_nat o_apply)
  have "pcg_state g = pcg_state ((pcg_step ^^ (j - i)) g)"
    by (rule funpow_inj [where n = i]) (simp_all add: funpow_increment e [unfolded j])
  then have "2 ^ 128 dvd j - i" using return_dvd [OF assms(1), of "j - i"] by simp
  moreover have "0 < j - i" "j - i < 2 ^ 128" using assms(2,3) by simp_all
  ultimately show False using nat_dvd_not_less by blast
qed

text \<open>All \<open>2 ^ 128\<close> states occur.\<close>

lemma orbit_onto:
  assumes "odd (uint (pcg_increment g))"
  obtains n where "n < 2 ^ 128" "pcg_state ((pcg_step ^^ n) g) = s"
proof -
  define N :: nat where "N = 2 ^ 128"
  let ?f = "\<lambda>n. pcg_state ((pcg_step ^^ n) g)"
  note o = orbit_inj [OF assms, folded N_def]
  have "inj_on ?f {..<N}"
  proof (rule linorder_inj_onI)
    fix i j assume "i < j" "i \<in> {..<N}" "j \<in> {..<N}"
    then have "i < j" "j < N" by (simp_all only: lessThan_iff)
    then show "?f i \<noteq> ?f j" by (rule o)
  qed (simp only: linear)
  then have "card (?f ` {..<N}) = card {..<N}" by (rule card_image)
  moreover have "card (UNIV :: u128 set) = N" unfolding N_def card_word by simp
  ultimately have "?f ` {..<N} = UNIV"
    by (intro card_subset_eq finite subset_UNIV) (simp only: card_lessThan)
  then have "s \<in> ?f ` {..<N}" by (simp only: UNIV_I)
  then obtain n where n: "n \<in> {..<N}" "s = ?f n" by (rule imageE)
  show thesis
    by (rule that [folded N_def, of n]) (use n in \<open>simp_all only: lessThan_iff\<close>)
qed

subsection \<open>Every output occurs, and the samplers return\<close>

lemma odd_uint: "odd (uint w) \<longleftrightarrow> odd w" for w :: u64
  using bit_uint_iff [of w 0] by (simp add: bit_0)

lemma rotr_0: "word_rotr 0 w = w" for w :: u64
  by (rule bit_word_eqI) (simp add: bit_simps)

lemma candidate_onto:
  assumes "odd (increment_lo g)"
  shows "\<exists>n. candidate g n = v"
proof -
  let ?g = "pcg_step g"
  have "odd (uint (pcg_increment ?g))"
  proof -
    have "uint (pcg_increment ?g) = 2 ^ 64 * uint (increment_hi g) + uint (increment_lo g)"
      by (simp add: pcg_increment_def [of g] uint_join128)
    then show ?thesis using assms by (simp add: odd_uint)
  qed
  then obtain n where n: "pcg_state ((pcg_step ^^ n) ?g) = join128 0 v" by (rule orbit_onto)
  then have "state_hi ((pcg_step ^^ n) ?g) = 0" "state_lo ((pcg_step ^^ n) ?g) = v"
    unfolding pcg_state_def by (metis parts_join128(1), metis parts_join128(2))
  then have "candidate g n = v"
    unfolding candidate_def funpow_Suc_right o_apply output_rotates by (simp add: rotr_0)
  then show ?thesis ..
qed

lemma some_accepted: "1 < w \<Longrightarrow> \<exists>x. lemire_accepts w x"
proof -
  assume w: "1 < w"
  then have "0 < w" by (metis word_neq_0_conv not_less word_le_def word_not_simps(1) order.strict_trans word_zero_le)
  then have "card {x. lemire_accepts w x \<and> lemire_value w x = 0} = 2 ^ 64 div unat w"
    by (rule lemire_count [OF w])
  moreover have "0 < 2 ^ 64 div unat w" using unat_lt64 [of w] w unfolding word_less_nat_alt
    by (simp add: div_greater_zero_iff)
  ultimately have "{x. lemire_accepts w x \<and> lemire_value w x = 0} \<noteq> {}" by force
  then show ?thesis by blast
qed

lemma bounded_total:
  assumes "odd (increment_lo g)"
  shows "\<exists>v g'. bounded w g = Some (v, g')"
proof (cases "1 < w")
  case True
  obtain x where "lemire_accepts w x" using some_accepted [OF True] ..
  moreover obtain n where "candidate g n = x" using candidate_onto [OF assms] by blast
  ultimately have n: "lemire_accepts w (candidate g n)" by simp
  then have "first_accepted w g (LEAST n. lemire_accepts w (candidate g n))"
    unfolding first_accepted_def by (auto intro: LeastI dest: not_less_Least)
  then show ?thesis using bounded_returns [OF True] by blast
next
  case False
  then show ?thesis by (simp add: bounded_def not_less)
qed

lemma bounded_increment:
  assumes "bounded w g = Some (v, g')"
  shows "increment_hi g' = increment_hi g" "increment_lo g' = increment_lo g"
proof -
  have s: "increment_hi (pcg_step g) = increment_hi g \<and> increment_lo (pcg_step g) = increment_lo g" for g
    by (simp add: pcg_step_def split_beta Let_def)
  have f: "increment_hi ((pcg_step ^^ n) g) = increment_hi g \<and> increment_lo ((pcg_step ^^ n) g) = increment_lo g" for n
    by (induction n) (simp_all add: s)
  have "increment_hi g' = increment_hi g \<and> increment_lo g' = increment_lo g"
  proof (cases "1 < w")
    case True
    then show ?thesis using f by (metis bounded_first [OF True assms] Pair_inject)
  next
    case False
    then show ?thesis using assms by (simp add: bounded_def not_less)
  qed
  then show "increment_hi g' = increment_hi g" "increment_lo g' = increment_lo g" by simp_all
qed

end
