(* ===== verification/RandomClaims.thy ===== *)
theory RandomClaims
  imports PcgPeriod
begin

text \<open>
  What the random layer promises: the engine is the 128-bit linear congruential generator with
  the output function of PCG-XSL-RR, it has full period, every sampler returns, bounded
  integers are unbiased, and sampling without replacement gives distinct indices.
\<close>

subsection \<open>Samplers keep the increment, so they keep returning\<close>

definition seeded :: "rng \<Rightarrow> bool" where
  "seeded g = odd (increment_lo g)"

lemma seeded_from_seed: "seeded (from_seed seed)"
  by (simp add: seeded_def from_seed_odd)

lemma bounded_seeded:
  assumes "seeded g" "0 < w"
  obtains v g' where "bounded w g = Some (v, g')" "v < w" "seeded g'"
proof -
  obtain v g' where b: "bounded w g = Some (v, g')"
    using bounded_total [of g w] assms(1) by (auto simp: seeded_def)
  have "seeded g'" using bounded_increment(2) [OF b] assms(1) by (simp add: seeded_def)
  then show thesis using that [OF b] bounded_less [OF b assms(2)] by blast
qed

lemma word_of_nat_less64:
  assumes "0 < n" "n < 2 ^ 64"
  shows "0 < (word_of_nat n :: u64)" "unat (word_of_nat n :: u64) = n"
proof -
  show u: "unat (word_of_nat n :: u64) = n"
    using assms(2) by (simp add: unsigned_of_nat take_bit_nat_eq_self)
  show "0 < (word_of_nat n :: u64)" using assms(1) u by (simp add: word_less_nat_alt)
qed

lemma bounded_nat:
  assumes "seeded g" "0 < n" "n < 2 ^ 64"
  obtains v g' where "bounded (word_of_nat n) g = Some (v, g')" "unat v < n" "seeded g'"
proof -
  note w = word_of_nat_less64 [OF assms(2,3)]
  obtain v g' where "bounded (word_of_nat n) g = Some (v, g')" "v < word_of_nat n" "seeded g'"
    by (rule bounded_seeded [OF assms(1) w(1)])
  then show thesis using that w(2) by (simp add: word_less_nat_alt)
qed

subsection \<open>Floyd's sample\<close>

lemma floyd_from_correct:
  assumes "seeded g" "n < 2 ^ 64" "j \<le> n" "distinct out" "set out \<subseteq> {..<j}"
  shows "\<exists>res g'. floyd_from bounded n j out g = Some (res, g') \<and> seeded g' \<and>
    distinct res \<and> set res \<subseteq> {..<n} \<and> length res = length out + (n - j)"
  using assms
proof (induction "n - j" arbitrary: j out g)
  case 0
  then show ?case by (subst floyd_from.simps) auto
next
  case (Suc d)
  then have jn: "j < n" by simp
  have "word_of_nat j + 1 = (word_of_nat (Suc j) :: u64)" by simp
  moreover obtain v g' where b: "bounded (word_of_nat (Suc j)) g = Some (v, g')"
    "unat v < Suc j" "seeded g'"
    by (rule bounded_nat [OF Suc.prems(1), of "Suc j"]) (use jn Suc.prems(2) in auto)
  ultimately have b': "bounded (word_of_nat j + 1) g = Some (v, g')" by (simp only:)
  let ?t = "if unat v \<in> set out then j else unat v"
  have "?t \<notin> set out" "?t < Suc j" using Suc.prems(5) b(2) by auto
  then have "\<exists>res g''. floyd_from bounded n (Suc j) (out @ [?t]) g' = Some (res, g'') \<and> seeded g'' \<and>
      distinct res \<and> set res \<subseteq> {..<n} \<and> length res = length (out @ [?t]) + (n - Suc j)"
    by (intro Suc.hyps(1)) (use Suc jn b in auto)
  then show ?case using jn by (subst floyd_from.simps) (auto simp: b' Let_def)
qed

subsection \<open>Partial shuffle and draws with replacement\<close>

lemma swap_at_mset: "i < length xs \<Longrightarrow> j < length xs \<Longrightarrow> mset (swap_at i j xs) = mset xs"
  unfolding swap_at_def by (rule mset_swap)

lemma shuffle_from_correct:
  assumes "seeded g" "n < 2 ^ 64" "k \<le> n" "length pool = n"
  shows "\<exists>res g'. shuffle_from n k i pool g = Some (res, g') \<and> mset res = mset pool"
  using assms
proof (induction "k - i" arbitrary: i pool g)
  case 0
  then show ?case by (subst shuffle_from.simps) auto
next
  case (Suc d)
  then have ik: "i < k" by simp
  obtain v g' where b: "bounded (word_of_nat (n - i)) g = Some (v, g')" "unat v < n - i" "seeded g'"
    by (rule bounded_nat [OF Suc.prems(1), of "n - i"]) (use ik Suc.prems in auto)
  let ?pool = "swap_at i (i + unat v) pool"
  have m: "mset ?pool = mset pool" using b(2) Suc.prems(4) by (intro swap_at_mset) auto
  have "length ?pool = n" using Suc.prems(4) by (simp add: swap_at_def)
  moreover have "d = k - Suc i" using Suc.hyps(2) by simp
  ultimately have "\<exists>res g''. shuffle_from n k (Suc i) ?pool g' = Some (res, g'') \<and> mset res = mset ?pool"
    by (intro Suc.hyps(1) b(3) Suc.prems(2,3))
  then obtain res g'' where "shuffle_from n k (Suc i) ?pool g' = Some (res, g'')" "mset res = mset ?pool"
    by blast
  then show ?case using ik b(1) m by (subst shuffle_from.simps) auto
qed

lemma draw_each_correct:
  assumes "seeded g" "n < 2 ^ 64" "0 < n"
  shows "\<exists>res g'. draw_each n k g = Some (res, g') \<and> length res = k \<and> set res \<subseteq> {..<n}"
  using assms(1)
proof (induction k arbitrary: g)
  case (Suc k)
  obtain v g' where b: "bounded (word_of_nat n) g = Some (v, g')" "unat v < n" "seeded g'"
    by (rule bounded_nat [OF Suc.prems assms(3,2)])
  from Suc.IH [OF b(3)] show ?case using b by auto
qed simp

lemma choice_indices_correct:
  assumes "seeded g" "n < 2 ^ 64" "k = 0 \<or> 0 < n" "replace \<or> k \<le> n"
  shows "\<exists>res g'. choice_indices n k replace g = Inr (Some (res, g')) \<and> length res = k \<and>
    set res \<subseteq> {..<n} \<and> (\<not> replace \<longrightarrow> distinct res)"
proof -
  consider "k = 0" | "0 < k" "replace" | "0 < k" "\<not> replace" "k \<le> floyd_max_k \<and> k * 2 \<le> n"
    | "0 < k" "\<not> replace" "\<not> (k \<le> floyd_max_k \<and> k * 2 \<le> n)" by blast
  then show ?thesis
  proof cases
    case 2
    then have "0 < n" using assms(3) by blast
    then obtain res g' where "draw_each n k g = Some (res, g')" "length res = k" "set res \<subseteq> {..<n}"
      using draw_each_correct [OF assms(1,2), of k] by blast
    moreover have "choice_indices n k replace g = Inr (draw_each n k g)"
      using 2 \<open>0 < n\<close> unfolding choice_indices_def by simp
    ultimately show ?thesis using 2 by simp
  next
    case 3
    then have "k \<le> n" "0 < n" using assms(3,4) by blast+
    have "\<exists>res g'. floyd_from bounded n (n - k) [] g = Some (res, g') \<and> seeded g' \<and>
        distinct res \<and> set res \<subseteq> {..<n} \<and> length res = length ([] :: nat list) + (n - (n - k))"
      by (rule floyd_from_correct [OF assms(1,2)]) simp_all
    then obtain res g' where "floyd_sample bounded n k g = Some (res, g')" "distinct res"
      "set res \<subseteq> {..<n}" "length res = k"
      using \<open>k \<le> n\<close> unfolding floyd_sample_def by auto
    moreover have "choice_indices n k replace g = Inr (floyd_sample bounded n k g)"
      using 3 \<open>k \<le> n\<close> \<open>0 < n\<close> unfolding choice_indices_def by simp
    ultimately show ?thesis by simp
  next
    case 4
    have kn: "k \<le> n" using 4 assms(4) by blast
    have "\<exists>res g'. shuffle_from n k 0 [0..<n] g = Some (res, g') \<and> mset res = mset [0..<n]"
      by (rule shuffle_from_correct [OF assms(1,2) kn]) simp
    then obtain res g' where s: "shuffle_from n k 0 [0..<n] g = Some (res, g')" "mset res = mset [0..<n]"
      by blast
    have d: "distinct res" using mset_eq_imp_distinct_iff [OF s(2)] by simp
    have r: "set res = {..<n}" using mset_eq_setD [OF s(2)] by (simp add: lessThan_atLeast0)
    have l: "length res = n" using mset_eq_length [OF s(2)] by simp
    have "0 < n" using 4 assms(3) by blast
    have "distinct (take k res)" "length (take k res) = k" using d l kn by simp_all
    moreover have "set (take k res) \<subseteq> {..<n}" using set_take_subset [of k res] unfolding r .
    moreover have "choice_indices n k replace g = Inr (Some (take k res, g'))"
      using 4 kn \<open>0 < n\<close> s(1) by (auto simp: choice_indices_def)
    ultimately show ?thesis by blast
  qed (simp add: choice_indices_def)
qed

subsection \<open>Properties\<close>

text \<open>The portable 32-bit school-book product of \<open>multiply_mod_2_128\<close>, used by compilers
without \<open>__uint128_t\<close>, computes exactly the native 128-bit product, for all inputs, carries
included.\<close>

theorem portable_product_is_native:
  "multiply_portable lhs_hi lhs_lo rhs_hi rhs_lo = multiply_native lhs_hi lhs_lo rhs_hi rhs_lo"
  by (rule portable_is_native)

text \<open>C25: The two-word engine implements the PCG-XSL-RR specification: one step is the linear
congruential step \<open>s * a + c\<close> on the 128-bit state, with the increment unchanged, and the
output is the xor of the two halves rotated right by the top six bits of the state.\<close>

theorem engine_implements_pcg_xsl_rr:
  "pcg_state (pcg_step g) = pcg_state g * pcg_multiplier + pcg_increment g \<and>
   pcg_increment (pcg_step g) = pcg_increment g \<and>
   pcg_output g = word_rotr (unat (state_hi g) div 2 ^ 58) (state_hi g XOR state_lo g)"
  by (simp only: step_state step_increment output_rotates simp_thms)

text \<open>The engine has full period: started with an odd increment, as every seeded generator
is, it visits each of the \<open>2 ^ 128\<close> states exactly once in \<open>2 ^ 128\<close> steps.\<close>

theorem engine_full_period:
  assumes "odd (increment_lo g)"
  shows "\<exists>!n. n < 2 ^ 128 \<and> pcg_state ((pcg_step ^^ n) g) = s"
proof -
  have o: "odd (uint (pcg_increment g))"
    using assms by (simp add: pcg_increment_def uint_join128 odd_uint)
  obtain n where n: "n < 2 ^ 128" "pcg_state ((pcg_step ^^ n) g) = s" by (rule orbit_onto [OF o])
  moreover have "m = n" if "m < 2 ^ 128" "pcg_state ((pcg_step ^^ m) g) = s" for m
    using orbit_inj [OF o, of m n] orbit_inj [OF o, of n m] n that by (cases m n rule: linorder_cases) auto
  ultimately show ?thesis by blast
qed

lemma engine_full_period_witness:
  "\<exists>!n. n < 2 ^ 128 \<and> pcg_state ((pcg_step ^^ n) (from_seed 42)) = 7"
  by (rule engine_full_period) (rule from_seed_odd)

text \<open>C23: \<open>bounded\<close> is total and unbiased. From any generator with an odd increment it returns,
with the value of the first output its rejection test accepts; and each value below the width
is the value of exactly \<open>2 ^ 64 div width\<close> of the 64-bit outputs the test accepts, so all
values are equally likely.\<close>

theorem bounded_total_and_unbiased:
  assumes "odd (increment_lo g)" "1 < w"
  shows "(\<exists>n. first_accepted w g n \<and>
      bounded w g = Some (lemire_value w (candidate g n), (pcg_step ^^ Suc n) g)) \<and>
    (\<forall>v. (v < w \<longrightarrow> card {x. lemire_accepts w x \<and> lemire_value w x = v} = 2 ^ 64 div unat w) \<and>
      (w \<le> v \<longrightarrow> {x. lemire_value w x = v} = {}))"
proof -
  obtain r where r: "bounded w g = Some r" using bounded_total [OF assms(1)] by blast
  obtain n where n: "first_accepted w g n" by (rule bounded_first [OF assms(2) r])
  have "w \<noteq> 0" using assms(2) by auto
  then have less: "lemire_value w x < w" for x by (rule lemire_value_less)
  have "{x. lemire_value w x = v} = {}" if "w \<le> v" for v using less that by (auto simp: not_less [symmetric])
  then show ?thesis using n bounded_returns [OF assms(2) n] lemire_count [OF assms(2)] by blast
qed

lemma bounded_total_and_unbiased_witness:
  "card {x. lemire_accepts 6 x \<and> lemire_value 6 x = 5} = 3074457345618258602"
  using bounded_total_and_unbiased [OF from_seed_odd, of 6 42] by (auto simp: word_less_nat_alt)

text \<open>\<open>uniformInt\<close> throws exactly when the interval is empty; otherwise, for a generator
with an odd increment and an interval shorter than \<open>2 ^ 63\<close>, it returns a value of the
interval and a generator that will return again.\<close>

theorem uniform_int_correct:
  assumes "seeded g" "high - low < 2 ^ 63"
  shows "if high \<le> low
    then uniform_int low high g = Inl (InvalidArgument ''uniformInt: low must be < high'')
    else \<exists>v g'. uniform_int low high g = Inr (Some (v, g')) \<and> low \<le> v \<and> v < high \<and> seeded g'"
proof (cases "high \<le> low")
  case False
  let ?w = "word_of_int (high - low) :: u64"
  have "uint ?w = (high - low) mod 2 ^ LENGTH(64)" by (rule uint_word_of_int)
  also have "\<dots> = high - low" using False assms(2) by (intro mod_pos_pos_trivial) simp_all
  finally have u: "uint ?w = high - low" .
  then have "0 < ?w" using False by (simp add: word_less_def)
  then obtain v g' where b: "bounded ?w g = Some (v, g')" "v < ?w" "seeded g'"
    by (rule bounded_seeded [OF assms(1)])
  have less: "uint v < high - low" using b(2) unfolding word_less_def u .
  have "sint v = uint v"
    unfolding sint_uint using less assms(2) order_trans [OF _ uint_ge_0 [of v]]
    by (intro signed_take_bit_int_eq_self) simp_all
  moreover have "0 \<le> uint v" by simp
  ultimately show ?thesis using False b(1,3) less by (simp add: uniform_int_def)
qed (simp add: uniform_int_def)

lemma uniform_int_correct_witness:
  "\<exists>v g'. uniform_int (- 3) 4 (from_seed 1) = Inr (Some (v, g')) \<and> - 3 \<le> v \<and> v < 4 \<and> seeded g'"
  using uniform_int_correct [OF seeded_from_seed, of 4 "- 3" 1] by simp

text \<open>C24: \<open>choiceIndices\<close> always returns for a seeded generator: the exceptions fire exactly on
an empty range and on a sample larger than the range without replacement; otherwise the
result has \<open>k\<close> indices below \<open>n\<close>, all distinct when sampling without replacement, whichever of
Floyd's method and the partial Fisher-Yates shuffle is used.\<close>

theorem choice_indices_total_and_distinct:
  assumes "seeded g" "n < 2 ^ 64"
  shows "if 0 < k \<and> n = 0
    then choice_indices n k replace g = Inl (InvalidArgument ''choiceIndices: n must be > 0 when k > 0'')
    else if \<not> replace \<and> n < k
    then choice_indices n k replace g = Inl (InvalidArgument ''choiceIndices: k exceeds n without replacement'')
    else \<exists>res g'. choice_indices n k replace g = Inr (Some (res, g')) \<and> length res = k \<and>
      (\<forall>i \<in> set res. i < n) \<and> (replace \<or> distinct res)"
proof (cases "(0 < k \<and> n = 0) \<or> (\<not> replace \<and> n < k)")
  case True
  then show ?thesis by (auto simp: choice_indices_def)
next
  case False
  then have "k = 0 \<or> 0 < n" "replace \<or> k \<le> n" by auto
  from choice_indices_correct [OF assms this]
  have "\<exists>res g'. choice_indices n k replace g = Inr (Some (res, g')) \<and> length res = k \<and>
      (\<forall>i \<in> set res. i < n) \<and> (replace \<or> distinct res)" by blast
  moreover have "\<not> (0 < k \<and> n = 0)" "\<not> (\<not> replace \<and> n < k)" using False by blast+
  ultimately show ?thesis by (simp only: if_False)
qed

lemma choice_indices_total_and_distinct_witness:
  "\<exists>res g'. choice_indices 10 3 False (from_seed 9) = Inr (Some (res, g')) \<and> length res = 3 \<and>
    (\<forall>i \<in> set res. i < 10) \<and> distinct res"
  using choice_indices_total_and_distinct [OF seeded_from_seed, of 10 3 False 9] by simp

lemma mk_f64_small: "rnd x = x \<Longrightarrow> \<bar>x\<bar> < 2 ^ 1024 \<Longrightarrow> mk_f64 x = Fin x"
  by (auto simp: mk_f64_def)

lemma top_bits: "0 \<le> x \<Longrightarrow> x < 2 ^ 64 \<Longrightarrow> 0 \<le> x div 2 ^ 11" "x < 2 ^ 64 \<Longrightarrow> x div 2 ^ 11 < (2 ^ 53 :: int)"
  by (simp_all add: pos_imp_zdiv_nonneg_iff)

lemma next_double_exact:
  defines "k \<equiv> \<lambda>g. uint (candidate g 0) div 2 ^ 11"
  shows "next_double g = (Fin (of_int (k g) / 2 ^ 53), pcg_step g)" "0 \<le> k g" "k g < 2 ^ 53"
proof -
  show k: "0 \<le> k g" "k g < 2 ^ 53"
    using uint_lt64 [of "candidate g 0"] uint_ge_0 [of "candidate g 0"]
    unfolding k_def by (simp_all only: top_bits)
  have p: "(2 :: rat) powi (- 53) = 1 / 2 ^ 53" by (simp only: power_int_minus power_int_numeral inverse_eq_divide)
  have big: "(2 :: rat) ^ 53 < 2 ^ 1024" by (intro power_strict_increasing) (simp_all only: one_less_numeral_iff arith_simps rel_simps)
  have kr: "(0 :: rat) \<le> of_int (k g)" using k(1) by (simp only: of_int_0_le_iff)
  have "(of_int (k g) :: rat) < of_int (2 ^ 53)" using k(2) by (simp only: of_int_less_iff)
  then have kl: "(of_int (k g) :: rat) < 2 ^ 53" by simp
  have i: "f64_of_int (k g) = Fin (of_int (k g))"
    unfolding f64_of_int_def 
    using k kr order.strict_trans [OF kl big] by (intro mk_f64_small rnd_of_int) simp_all
  have "rnd (of_int 1 * 2 powi (- 53)) = of_int 1 * 2 powi (- 53)" by (rule rnd_exact) simp_all
  then have l: "lit (1 / 2 ^ 53) = Fin (1 / 2 ^ 53)"
    unfolding lit_def p by (intro mk_f64_small) simp_all
  have "rnd (of_int (k g) * 2 powi (- 53)) = of_int (k g) * 2 powi (- 53)"
    using k by (intro rnd_exact) auto
  then have r: "rnd (of_int (k g) * (1 / 2 ^ 53)) = of_int (k g) * (1 / 2 ^ 53)" unfolding p .
  have "of_int (k g) * (1 / 2 ^ 53) < (1 :: rat)" using kl by simp
  then have "\<bar>of_int (k g) * (1 / 2 ^ 53)\<bar> < (2 :: rat) ^ 1024" using kr by simp
  then have f: "mk_f64 (of_int (k g) * (1 / 2 ^ 53)) = Fin (of_int (k g) * (1 / 2 ^ 53))"
    by (rule mk_f64_small [OF r])
  show "next_double g = (Fin (of_int (k g) / 2 ^ 53), pcg_step g)"
  proof -
    have "next_double g = (fmul (f64_of_int (k g)) (lit (1 / 2 ^ 53)), pcg_step g)"
      unfolding next_double_def next_u64_def Let_def prod.case uint_drop candidate_0 k_def ..
    then show ?thesis unfolding i l fmul.simps f by simp
  qed
qed

text \<open>A coin with probability at most zero or at least one is decided without a draw; any
other coin costs one draw and falls true exactly when the top 53 bits of the output, read as
a fraction of \<open>2 ^ 53\<close> with no rounding, are below the probability.\<close>

theorem coin_correct:
  "coin p g =
    (if fle p (Fin 0) then (False, g) else if fle (Fin 1) p then (True, g)
     else (flt (Fin (of_int (uint (candidate g 0) div 2 ^ 11) / 2 ^ 53)) p, pcg_step g)) \<and>
    0 \<le> uint (candidate g 0) div 2 ^ 11 \<and> uint (candidate g 0) div 2 ^ 11 < 2 ^ 53"
  unfolding coin_def next_double_exact(1) Let_def prod.case
  using next_double_exact(2,3) by blast

end
