(* ===== verification/Rows.thy ===== *)
theory Rows
  imports Ledger "HOL-Library.Option_ord" "HOL-Library.Product_Lexorder"
begin

text \<open>
  \<open>transactions/record.hpp\<close> and \<open>transfers/legit/ledger/streams.hpp\<close>: the transaction row, the
  replay order and the sorted views built from batches of rows.

  The comparator is \<open>std::tie\<close> lexicographic comparison: it stops at the first component that
  is not equivalent, and an unordered one (a NaN amount) makes the rows incomparable. The
  lemmas show that it is the linear order of \<open>audit_key\<close> on rows whose amounts are numbers;
  \<open>std::sort\<close> is the library's sort by that key. Rows with equal keys may come out of
  \<open>std::sort\<close> in any order; the model takes the stable one.
\<close>

subsection \<open>Devices, addresses and fraud labels\<close>

datatype owner_type = OwnerPerson | OwnerRing | OwnerLegitShared | OwnerNone | OwnerPublicTerminal

fun owner_byte :: "owner_type \<Rightarrow> u8" where
  "owner_byte OwnerPerson = 0"
| "owner_byte OwnerRing = 1"
| "owner_byte OwnerLegitShared = 2"
| "owner_byte OwnerNone = 3"
| "owner_byte OwnerPublicTerminal = 4"

record device_identity =
  dev_owner_type :: owner_type
  dev_owner_id :: u64
  dev_slot :: u32

definition device_none :: device_identity where
  "device_none = \<lparr>dev_owner_type = OwnerNone, dev_owner_id = 0, dev_slot = 0\<rparr>"

definition device_person :: "u64 \<Rightarrow> u32 \<Rightarrow> device_identity" where
  "device_person owner slot = \<lparr>dev_owner_type = OwnerPerson, dev_owner_id = owner, dev_slot = slot\<rparr>"

definition device_ring :: "u64 \<Rightarrow> u32 \<Rightarrow> device_identity" where
  "device_ring ring slot = \<lparr>dev_owner_type = OwnerRing, dev_owner_id = ring, dev_slot = slot\<rparr>"

definition device_public_terminal :: "u64 \<Rightarrow> u32 \<Rightarrow> device_identity" where
  "device_public_terminal terminal slot =
     \<lparr>dev_owner_type = OwnerPublicTerminal, dev_owner_id = terminal, dev_slot = slot\<rparr>"

definition device_legit_shared :: "u64 \<Rightarrow> u32 \<Rightarrow> device_identity" where
  "device_legit_shared grp slot =
     \<lparr>dev_owner_type = OwnerLegitShared, dev_owner_id = grp, dev_slot = slot\<rparr>"

definition device_assigned :: "device_identity \<Rightarrow> bool" where
  "device_assigned d = (dev_owner_type d \<noteq> OwnerNone)"

definition ipv4_pack :: "u8 \<Rightarrow> u8 \<Rightarrow> u8 \<Rightarrow> u8 \<Rightarrow> u32" where
  "ipv4_pack a b c d =
     push_bit 24 (ucast a) OR push_bit 16 (ucast b) OR push_bit 8 (ucast c) OR ucast d"

definition ipv4_octet1 :: "u32 \<Rightarrow> u8" where "ipv4_octet1 v = ucast (drop_bit 24 v AND 0xFF)"
definition ipv4_octet2 :: "u32 \<Rightarrow> u8" where "ipv4_octet2 v = ucast (drop_bit 16 v AND 0xFF)"
definition ipv4_octet3 :: "u32 \<Rightarrow> u8" where "ipv4_octet3 v = ucast (drop_bit 8 v AND 0xFF)"
definition ipv4_octet4 :: "u32 \<Rightarrow> u8" where "ipv4_octet4 v = ucast (v AND 0xFF)"

lemma ipv4_round_trip:
  "ipv4_octet1 (ipv4_pack a b c d) = a" "ipv4_octet2 (ipv4_pack a b c d) = b"
  "ipv4_octet3 (ipv4_pack a b c d) = c" "ipv4_octet4 (ipv4_pack a b c d) = d"
proof -
  have m: "(0xFF :: u32) = mask 8" by (simp add: mask_eq_exp_minus_1)
  show "ipv4_octet1 (ipv4_pack a b c d) = a" "ipv4_octet2 (ipv4_pack a b c d) = b"
    "ipv4_octet3 (ipv4_pack a b c d) = c" "ipv4_octet4 (ipv4_pack a b c d) = d"
    unfolding ipv4_pack_def ipv4_octet1_def ipv4_octet2_def ipv4_octet3_def ipv4_octet4_def m
    by (rule bit_word_eqI; auto simp: bit_simps dest: bit_imp_le_length)+
qed

datatype fraud_type = FtNone | FtLaunderRing | FtLaunderSolo | FtTxnFraudSolo | FtTxnFraudRing
  | FtScamGiftCard | FtScamImpostor

subsection \<open>Transactions\<close>

record fraud_info =
  fr_flag :: u8
  fr_ring :: "u32 option"
  fr_chain :: "u32 option"
  fr_type :: fraud_type

record session_info =
  se_device :: device_identity
  se_ip :: u32
  se_channel :: tag

record txn =
  tx_source :: key
  tx_target :: key
  tx_amount :: f64
  tx_time :: i64
  tx_fraud :: fraud_info
  tx_session :: session_info

definition default_txn :: txn where
  "default_txn =
     \<lparr>tx_source = default_key, tx_target = default_key, tx_amount = Fin 0, tx_time = 0,
      tx_fraud = \<lparr>fr_flag = 0, fr_ring = None, fr_chain = None, fr_type = FtNone\<rparr>,
      tx_session = \<lparr>se_device = device_none, se_ip = 0, se_channel = tag_none\<rparr>\<rparr>"

abbreviation tx_channel :: "txn \<Rightarrow> tag" where
  "tx_channel t \<equiv> se_channel (tx_session t)"

subsection \<open>The comparator\<close>

datatype partial_ordering = PLess | PEquivalent | PGreater | PUnordered

definition three_way :: "'a::linorder \<Rightarrow> 'a \<Rightarrow> partial_ordering" where
  "three_way a b = (if a < b then PLess else if b < a then PGreater else PEquivalent)"

definition f64_three_way :: "f64 \<Rightarrow> f64 \<Rightarrow> partial_ordering" where
  "f64_three_way a b =
     (if flt a b then PLess else if flt b a then PGreater
      else if feq a b then PEquivalent else PUnordered)"

fun first_difference :: "partial_ordering list \<Rightarrow> partial_ordering" where
  "first_difference [] = PEquivalent"
| "first_difference (c # cs) = (if c = PEquivalent then first_difference cs else c)"

definition device_rank :: "device_identity \<Rightarrow> u8 \<times> u64 \<times> u32" where
  "device_rank d = (owner_byte (dev_owner_type d), dev_owner_id d, dev_slot d)"

definition funds_compare :: "txn \<Rightarrow> txn \<Rightarrow> partial_ordering list" where
  "funds_compare a b =
     [three_way (tx_time a) (tx_time b), three_way (tx_source a) (tx_source b),
      three_way (tx_target a) (tx_target b), f64_three_way (tx_amount a) (tx_amount b)]"

definition audit_compare :: "txn \<Rightarrow> txn \<Rightarrow> partial_ordering" where
  "audit_compare a b =
     first_difference (funds_compare a b @
       [three_way (fr_flag (tx_fraud a)) (fr_flag (tx_fraud b)),
        three_way (fr_ring (tx_fraud a)) (fr_ring (tx_fraud b)),
        three_way (fr_chain (tx_fraud a)) (fr_chain (tx_fraud b)),
        three_way (tx_channel a) (tx_channel b),
        three_way (device_rank (se_device (tx_session a))) (device_rank (se_device (tx_session b))),
        three_way (se_ip (tx_session a)) (se_ip (tx_session b))])"

text \<open>\<open>fundsLess\<close>, which both scopes of the \<open>Comparator\<close> are.\<close>

definition funds_less :: "txn \<Rightarrow> txn \<Rightarrow> bool" where
  "funds_less a b = (audit_compare a b = PLess)"

definition timestamp_less :: "txn \<Rightarrow> txn \<Rightarrow> bool" where
  "timestamp_less a b = (tx_time a < tx_time b)"

subsection \<open>Doubles as a linear order\<close>

text \<open>The numbers in their order, and NaN above them, where the sorts never look.\<close>

fun f64_rank :: "f64 \<Rightarrow> nat \<times> rat" where
  "f64_rank NInf = (0, 0)"
| "f64_rank (Fin x) = (1, x)"
| "f64_rank PInf = (2, 0)"
| "f64_rank NaN = (3, 0)"

lemma f64_rank_inj: "f64_rank a = f64_rank b \<longleftrightarrow> a = b"
  by (cases a; cases b) auto

instantiation f64 :: linorder
begin

definition less_eq_f64 :: "f64 \<Rightarrow> f64 \<Rightarrow> bool" where
  "less_eq_f64 a b = (f64_rank a \<le> f64_rank b)"

definition less_f64 :: "f64 \<Rightarrow> f64 \<Rightarrow> bool" where
  "less_f64 a b = (f64_rank a < f64_rank b)"

instance
proof
  fix a b c :: f64
  show "(a < b) = (a \<le> b \<and> \<not> b \<le> a)"
    unfolding less_f64_def less_eq_f64_def by (rule less_le_not_le)
  show "a \<le> a" by (simp add: less_eq_f64_def)
  show "a \<le> b \<Longrightarrow> b \<le> c \<Longrightarrow> a \<le> c" unfolding less_eq_f64_def by (rule order_trans)
  show "a \<le> b \<Longrightarrow> b \<le> a \<Longrightarrow> a = b"
    unfolding less_eq_f64_def using f64_rank_inj [of a b] by simp
  show "a \<le> b \<or> b \<le> a" unfolding less_eq_f64_def by (rule linear)
qed

end

lemma flt_less: "a \<noteq> NaN \<Longrightarrow> b \<noteq> NaN \<Longrightarrow> flt a b \<longleftrightarrow> a < b"
  by (cases a; cases b) (auto simp: less_f64_def)

lemma f64_three_way_eq: "a \<noteq> NaN \<Longrightarrow> b \<noteq> NaN \<Longrightarrow> f64_three_way a b = three_way a b"
  by (cases a; cases b) (auto simp: f64_three_way_def three_way_def feq_def less_f64_def)

subsection \<open>The key the comparator sorts by\<close>

type_synonym audit_rank =
  "i64 \<times> key \<times> key \<times> f64 \<times> u8 \<times> u32 option \<times> u32 option \<times> tag \<times> (u8 \<times> u64 \<times> u32) \<times> u32"

definition audit_key :: "txn \<Rightarrow> audit_rank" where
  "audit_key t =
     (tx_time t, tx_source t, tx_target t, tx_amount t, fr_flag (tx_fraud t), fr_ring (tx_fraud t),
      fr_chain (tx_fraud t), tx_channel t, device_rank (se_device (tx_session t)), se_ip (tx_session t))"

lemma three_way_cases [simp]:
  "three_way a b = PEquivalent \<longleftrightarrow> a = b" "three_way a b = PLess \<longleftrightarrow> a < b"
  "three_way a a = PEquivalent"
  by (auto simp: three_way_def)

lemma first_difference_less:
  "first_difference [three_way a b] = PLess \<longleftrightarrow> a < b"
  "first_difference (three_way c d # cs) = PLess \<longleftrightarrow> c < d \<or> c = d \<and> first_difference cs = PLess"
  by auto

lemma pair_less: "(a, x) < (b, y) \<longleftrightarrow> a < b \<or> a = b \<and> x < y" for a b :: "'a::linorder"
  by (auto simp: less_prod_def)

lemma funds_less_key:
  assumes "tx_amount a \<noteq> NaN" "tx_amount b \<noteq> NaN"
  shows "funds_less a b \<longleftrightarrow> audit_key a < audit_key b"
  unfolding funds_less_def audit_compare_def funds_compare_def audit_key_def
    f64_three_way_eq [OF assms] append.simps pair_less first_difference_less
  by (simp only: first_difference.simps partial_ordering.distinct simp_thms)

text \<open>Rows with the same key agree on everything but the fraud type.\<close>

lemma owner_byte_inj: "owner_byte a = owner_byte b \<longleftrightarrow> a = b"
  by (cases a; cases b) simp_all

lemma device_rank_inj: "device_rank a = device_rank b \<longleftrightarrow> a = (b :: device_identity)"
  by (auto simp: device_rank_def owner_byte_inj)

lemma audit_key_inj:
  "audit_key a = audit_key b \<longleftrightarrow>
     a\<lparr>tx_fraud := (tx_fraud a)\<lparr>fr_type := FtNone\<rparr>\<rparr> = (b :: txn)\<lparr>tx_fraud := (tx_fraud b)\<lparr>fr_type := FtNone\<rparr>\<rparr>"
  by (cases a; cases b; cases "tx_fraud a"; cases "tx_fraud b"; cases "tx_session a";
      cases "tx_session b") (auto simp: audit_key_def device_rank_inj)

subsection \<open>Sorting and merging\<close>

definition sort_for_replay :: "txn list \<Rightarrow> txn list" where
  "sort_for_replay txns = sort_key audit_key txns"

text \<open>\<open>std::merge\<close> and \<open>std::inplace_merge\<close>: on ties the left row goes first.\<close>

fun merge_by :: "('a \<Rightarrow> 'k::linorder) \<Rightarrow> 'a list \<Rightarrow> 'a list \<Rightarrow> 'a list" where
  "merge_by key [] ys = ys"
| "merge_by key xs [] = xs"
| "merge_by key (x # xs) (y # ys) =
     (if key y < key x then y # merge_by key (x # xs) ys else x # merge_by key xs (y # ys))"

definition merge_replay_sorted :: "txn list \<Rightarrow> txn list \<Rightarrow> txn list" where
  "merge_replay_sorted existing new_items =
     (if new_items = [] then existing
      else
        let sorted_new = sort_key audit_key new_items
        in if existing = [] then sorted_new else merge_by audit_key existing sorted_new)"

text \<open>\<open>TxnStreams\<close>: two sorted views of everything added, and the payday credits.\<close>

record streams =
  st_screened :: "txn list"
  st_replay_ready :: "txn list"
  st_payday_inbound :: "txn list"
  st_collect_payday :: bool
  st_maintain_replay :: bool

definition streams_new :: streams where
  "streams_new = \<lparr>st_screened = [], st_replay_ready = [], st_payday_inbound = [],
     st_collect_payday = True, st_maintain_replay = True\<rparr>"

definition release_payday_inbound :: "streams \<Rightarrow> streams" where
  "release_payday_inbound s = s\<lparr>st_payday_inbound := [], st_collect_payday := False\<rparr>"

definition release_screened :: "streams \<Rightarrow> streams" where
  "release_screened s = s\<lparr>st_screened := []\<rparr>"

definition defer_replay_view :: "streams \<Rightarrow> streams" where
  "defer_replay_view s = s\<lparr>st_maintain_replay := False\<rparr>"

definition add_sorted_view :: "(txn \<Rightarrow> 'k::linorder) \<Rightarrow> txn list \<Rightarrow> txn list \<Rightarrow> txn list" where
  "add_sorted_view key dst items =
     (if items = [] then dst
      else
        let items = sort_key key items
        in if dst = [] then items else merge_by key dst items)"

definition streams_add :: "txn list \<Rightarrow> streams \<Rightarrow> streams" where
  "streams_add items s =
     (if items = [] then s
      else
        let s = (if st_collect_payday s
                 then s\<lparr>st_payday_inbound := st_payday_inbound s @
                        filter (\<lambda>t. is_payday_inbound (tx_channel t)) items\<rparr>
                 else s);
            s = s\<lparr>st_screened := add_sorted_view tx_time (st_screened s) items\<rparr>
        in if st_maintain_replay s
           then s\<lparr>st_replay_ready := add_sorted_view audit_key (st_replay_ready s) items\<rparr>
           else s)"

lemma merge_by_Nil [simp]: "merge_by key xs [] = xs"
  by (cases xs) simp_all

lemma mset_merge_by [simp]: "mset (merge_by key xs ys) = mset xs + mset ys"
  by (induction key xs ys rule: merge_by.induct) simp_all

lemma set_merge_by [simp]: "set (merge_by key xs ys) = set xs \<union> set ys"
  by (induction key xs ys rule: merge_by.induct) auto

lemma sorted_merge_by:
  "sorted (map key xs) \<Longrightarrow> sorted (map key ys) \<Longrightarrow> sorted (map key (merge_by key xs ys))"
  by (induction key xs ys rule: merge_by.induct) (auto dest: order.strict_trans2)

lemma filter_merge_by:
  "sorted (map key xs) \<Longrightarrow> sorted (map key ys) \<Longrightarrow>
    filter (\<lambda>z. key z = k) (merge_by key xs ys) = filter (\<lambda>z. key z = k) xs @ filter (\<lambda>z. key z = k) ys"
proof (induction key xs ys rule: merge_by.induct)
  case (3 key x xs y ys)
  have "filter (\<lambda>z. key z = key y) (x # xs) = []" if "key y < key x"
    using 3(3) that by (auto simp: filter_empty_conv)
  then show ?case using 3 by auto
qed simp_all

text \<open>Merging sorted pieces is the stable sort of their concatenation.\<close>

lemma merge_by_sort_key: "merge_by key (sort_key key xs) (sort_key key ys) = sort_key key (xs @ ys)"
proof (rule properties_for_sort_key [symmetric])
  show "mset (merge_by key (sort_key key xs) (sort_key key ys)) = mset (xs @ ys)" by simp
  show "sorted (map key (merge_by key (sort_key key xs) (sort_key key ys)))"
    by (simp add: sorted_merge_by)
  show "filter (\<lambda>z. key k = key z) (merge_by key (sort_key key xs) (sort_key key ys)) =
      filter (\<lambda>z. key k = key z) (xs @ ys)" for k
    using filter_merge_by [of key "sort_key key xs" "sort_key key ys" "key k"]
    by (simp add: eq_commute [of "key k"] sort_key_stable)
qed

lemma sort_key_Nil_iff [simp]: "sort_key key xs = [] \<longleftrightarrow> xs = []"
  by (metis length_0_conv length_sort)

lemma add_sorted_view_sort:
  "add_sorted_view key (sort_key key xs) ys = sort_key key (xs @ ys)"
  using merge_by_sort_key [of key xs ys] by (auto simp: add_sorted_view_def Let_def)

end
