(* ===== verification/RowsClaims.thy ===== *)
theory RowsClaims
  imports Rows
begin

text \<open>The properties of transaction rows: their comparator, the sorted views, packed addresses.\<close>

definition erase_type :: "txn \<Rightarrow> txn" where
  "erase_type t = t\<lparr>tx_fraud := (tx_fraud t)\<lparr>fr_type := FtNone\<rparr>\<rparr>"

text \<open>On rows whose amounts are numbers the replay comparator is a strict total order, except that it
cannot tell apart two rows which differ only in the type of their fraud label (the comment on the comparator
says that rows comparing equal are byte-identical).\<close>

theorem replay_order_is_total:
  assumes "tx_amount a \<noteq> NaN" "tx_amount b \<noteq> NaN" "tx_amount c \<noteq> NaN"
  shows "\<not> funds_less a a \<and> \<not> (funds_less a b \<and> funds_less b a) \<and>
    (funds_less a b \<and> funds_less b c \<longrightarrow> funds_less a c) \<and>
    (\<not> funds_less a b \<and> \<not> funds_less b a \<longleftrightarrow> erase_type a = erase_type b)"
  using audit_key_inj [of a b]
  by (auto simp: funds_less_key assms erase_type_def not_less)

definition demo_row :: "i64 \<Rightarrow> fraud_type \<Rightarrow> txn" where
  "demo_row ts ft = default_txn\<lparr>tx_time := ts, tx_fraud := (tx_fraud default_txn)\<lparr>fr_type := ft\<rparr>\<rparr>"

lemma replay_order_is_total_witness:
  "demo_row 5 FtNone \<noteq> demo_row 5 FtLaunderSolo \<and> \<not> funds_less (demo_row 5 FtNone) (demo_row 5 FtLaunderSolo) \<and>
   \<not> funds_less (demo_row 5 FtLaunderSolo) (demo_row 5 FtNone)"
  using replay_order_is_total [of "demo_row 5 FtNone" "demo_row 5 FtLaunderSolo" "demo_row 6 FtNone"]
  by (simp add: demo_row_def default_txn_def erase_type_def)

text \<open>adding batches one by one, each merged into the sorted views, leaves what sorting everything once
would: the replay view in replay order, the screened view in time order, and the payday credits in arrival order.\<close>

theorem streams_views_are_one_sort:
  "fold streams_add batches streams_new =
     \<lparr>st_screened = sort_key tx_time (concat batches), st_replay_ready = sort_key audit_key (concat batches),
      st_payday_inbound = filter (\<lambda>t. is_payday_inbound (tx_channel t)) (concat batches),
      st_collect_payday = True, st_maintain_replay = True\<rparr>"
proof -
  have "fold streams_add batches
      \<lparr>st_screened = sort_key tx_time xs, st_replay_ready = sort_key audit_key xs,
       st_payday_inbound = filter (\<lambda>t. is_payday_inbound (tx_channel t)) xs,
       st_collect_payday = True, st_maintain_replay = True\<rparr> =
      \<lparr>st_screened = sort_key tx_time (xs @ concat batches), st_replay_ready = sort_key audit_key (xs @ concat batches),
       st_payday_inbound = filter (\<lambda>t. is_payday_inbound (tx_channel t)) (xs @ concat batches),
       st_collect_payday = True, st_maintain_replay = True\<rparr>" for xs
  proof (induction batches arbitrary: xs)
    case (Cons b batches)
    have "streams_add b
        \<lparr>st_screened = sort_key tx_time xs, st_replay_ready = sort_key audit_key xs,
         st_payday_inbound = filter (\<lambda>t. is_payday_inbound (tx_channel t)) xs,
         st_collect_payday = True, st_maintain_replay = True\<rparr> =
        \<lparr>st_screened = sort_key tx_time (xs @ b), st_replay_ready = sort_key audit_key (xs @ b),
         st_payday_inbound = filter (\<lambda>t. is_payday_inbound (tx_channel t)) (xs @ b),
         st_collect_payday = True, st_maintain_replay = True\<rparr>"
      by (simp add: streams_add_def Let_def add_sorted_view_sort)
    then show ?case using Cons.IH [of "xs @ b"] by simp
  qed simp
  from this [of "[]"] show ?thesis by (simp add: streams_new_def)
qed

text \<open>The octets of a packed IPv4 address are the ones it was packed from.\<close>

theorem ipv4_octets_of_packed:
  "map (\<lambda>f. f (ipv4_pack a b c d)) [ipv4_octet1, ipv4_octet2, ipv4_octet3, ipv4_octet4] = [a, b, c, d]"
  by (simp add: ipv4_round_trip)

end
