(* ===== verification/Replay.thy ===== *)
theory Replay
  imports Rows Sampling LedgerFacts
begin

text \<open>
  \<open>transfers/legit/ledger/posting\<close>: the chronological replay of candidate rows against the
  ledger, with retries of unfunded debits, a cure window, the daily cap on overdraft fee rows
  and the rows the bank itself posts.

  The C++ accumulator holds pointers to the ledger and the generator it mutates; the record
  \<open>replay\<close> holds their states (\<open>None\<close> is a null pointer). The liquidity sink is the callback
  \<open>onLiquidityEvent\<close>: the ledger model returns the events of a call in order, and the
  accumulator handles them right after the call. The callback reads nothing of the ledger but
  its account index, which no posting changes, and writes only the accumulator, so handling
  the events at the end of the call is the same as handling them inside it.
\<close>

subsection \<open>Income ledgers (entities/holdings/general_ledger.hpp)\<close>

datatype income = CardInterest | CardFees | DepositFees | CreditLineInterest

fun income_number :: "income \<Rightarrow> u64" where
  "income_number CardInterest = 1"
| "income_number CardFees = 2"
| "income_number DepositFees = 3"
| "income_number CreditLineInterest = 4"

definition gl_account :: "income \<Rightarrow> key" where
  "gl_account kind = Key RLedger Internal (income_number kind)"

definition income_accounts :: "key list" where
  "income_accounts =
     [gl_account CardInterest, gl_account CardFees, gl_account DepositFees,
      gl_account CreditLineInterest]"

definition is_general_ledger :: "key \<Rightarrow> bool" where
  "is_general_ledger k = (key_role k = RLedger)"

definition is_gl_posting :: "tag \<Rightarrow> bool" where
  "is_gl_posting ch =
     (tag_is ch (Credit CrInterest) \<or> tag_is ch (Credit CrLateFee) \<or>
      tag_is ch (Liquidity LiqOverdraftFee) \<or> tag_is ch (Liquidity LiqLocInterest))"

definition income_account_for :: "tag \<Rightarrow> key" where
  "income_account_for ch =
     (if tag_is ch (Credit CrInterest) then gl_account CardInterest
      else if tag_is ch (Credit CrLateFee) then gl_account CardFees
      else if tag_is ch (Liquidity LiqOverdraftFee) then gl_account DepositFees
      else if tag_is ch (Liquidity LiqLocInterest) then gl_account CreditLineInterest
      else default_key)"

subsection \<open>Funding behaviour\<close>

definition is_cure_inbound :: "txn \<Rightarrow> bool" where
  "is_cure_inbound t =
     (let ch = tx_channel t
      in is_external (tx_source t) \<or> is_payday_inbound ch \<or> is_family ch \<or>
         ch = tag_of (Insurance InsClaim) \<or> ch = tag_of (Product PrTaxRefund) \<or>
         ch = tag_of (Legit LegSelfTransfer) \<or>
         ch = tag_of (Credit CrRefund) \<or> ch = tag_of (Credit CrChargeback))"

record funding =
  cure_card_hours :: int
  cure_debit_hours :: int
  card_padding_minutes :: int
  debit_padding_minutes :: int
  first_blind_hours :: int
  second_blind_hours :: int
  blind_probability :: f64
  fee_daily_cap :: int

definition default_funding :: funding where
  "default_funding =
     \<lparr>cure_card_hours = 10, cure_debit_hours = 36, card_padding_minutes = 5,
      debit_padding_minutes = 30, first_blind_hours = 18, second_blind_hours = 72,
      blind_probability = lit (55 / 100), fee_daily_cap = 3\<rparr>"

definition max_attempts_for :: "tag \<Rightarrow> nat" where
  "max_attempts_for ch = (if is_card_like ch then 1 else if is_retryable ch then 2 else 1)"

definition cure_hours_for :: "funding \<Rightarrow> tag \<Rightarrow> int" where
  "cure_hours_for f ch = (if is_card_like ch then cure_card_hours f else cure_debit_hours f)"

definition padding_minutes_for :: "funding \<Rightarrow> tag \<Rightarrow> int" where
  "padding_minutes_for f ch =
     (if is_card_like ch then card_padding_minutes f else debit_padding_minutes f)"

definition blind_delay_hours_for :: "funding \<Rightarrow> nat \<Rightarrow> int" where
  "blind_delay_hours_for f retry_count =
     (if retry_count = 0 then first_blind_hours f else second_blind_hours f)"

subsection \<open>Drops\<close>

definition drop_insufficient_funds :: string where
  "drop_insufficient_funds = ''insufficient_funds''"
definition drop_retry_exhausted :: string where
  "drop_retry_exhausted = ''insufficient_funds_retry_exhausted''"
definition drop_terminal :: string where
  "drop_terminal = ''insufficient_funds_terminal''"
definition drop_instant_decline :: string where
  "drop_instant_decline = ''insufficient_funds_instant_decline''"
definition drop_invalid :: string where
  "drop_invalid = ''invalid''"
definition drop_unbooked :: string where
  "drop_unbooked = ''unbooked''"

record drop_ledger =
  by_reason :: "string \<rightharpoonup> nat"
  by_channel :: "string \<times> tag \<rightharpoonup> nat"

definition bump :: "'k \<Rightarrow> ('k \<rightharpoonup> nat) \<Rightarrow> ('k \<rightharpoonup> nat)" where
  "bump k m = (case m k of Some n \<Rightarrow> m(k \<mapsto> n + 1) | None \<Rightarrow> m(k \<mapsto> 1))"

definition record_drop :: "string \<Rightarrow> tag \<Rightarrow> drop_ledger \<Rightarrow> drop_ledger" where
  "record_drop reason ch d =
     \<lparr>by_reason = bump reason (by_reason d), by_channel = bump (reason, ch) (by_channel d)\<rparr>"

definition terminal_reason :: "tag \<Rightarrow> string" where
  "terminal_reason ch =
     (if is_card_like ch then drop_instant_decline
      else if is_retryable ch then drop_terminal
      else drop_insufficient_funds)"

subsection \<open>The accumulator\<close>

datatype item_kind = ItemTxn | ItemLocBilling

record queued_item =
  qi_time :: i64
  qi_seq :: nat
  qi_kind :: item_kind
  qi_retry :: nat
  qi_txn :: txn

record declined_attempt =
  da_txn :: txn
  da_reason :: string

record replay =
  rp_book :: "ledger option"
  rp_rng :: "rng option"
  rp_funding :: funding
  rp_emit :: bool
  rp_txns :: "txn list"
  rp_drops :: drop_ledger
  rp_declined :: "declined_attempt list"
  rp_next_seq :: nat
  rp_retry_seq :: nat
  rp_pending :: "queued_item list"
  rp_inbound :: "key \<Rightarrow> i64 list"
  rp_taps :: "nat \<times> int \<Rightarrow> int"

definition replay_new :: "ledger option \<Rightarrow> rng option \<Rightarrow> funding \<Rightarrow> bool \<Rightarrow> replay" where
  "replay_new book rng funding emit =
     \<lparr>rp_book = book, rp_rng = rng, rp_funding = funding, rp_emit = emit, rp_txns = [],
      rp_drops = \<lparr>by_reason = Map.empty, by_channel = Map.empty\<rparr>, rp_declined = [],
      rp_next_seq = 0, rp_retry_seq = 2 ^ 62, rp_pending = [], rp_inbound = (\<lambda>_. []),
      rp_taps = (\<lambda>_. 0)\<rparr>"

text \<open>\<open>QueueOrder\<close>: the earlier timestamp first, then the smaller sequence number.\<close>

definition queue_key :: "queued_item \<Rightarrow> i64 \<times> nat" where
  "queue_key q = (qi_time q, qi_seq q)"

text \<open>Integer division of C++ rounds towards zero.\<close>

definition trunc_div :: "int \<Rightarrow> int \<Rightarrow> int" where
  "trunc_div a b = (if 0 \<le> a then a div b else - (- a div b))"

definition fee_budget_allows :: "event \<Rightarrow> replay \<Rightarrow> bool \<times> replay" where
  "fee_budget_allows ev s =
     (if ev_channel ev \<noteq> tag_of (Liquidity LiqOverdraftFee) then (True, s)
      else
        let src = (case rp_book s of Some l \<Rightarrow> find_account l (ev_payer ev) | None \<Rightarrow> invalid_index)
        in if src = invalid_index then (True, s)
           else
             let slot = (src, signed_take_bit 31 (trunc_div (ev_time ev) seconds_per_day))
             in if fee_daily_cap (rp_funding s) \<le> rp_taps s slot then (False, s)
                else (True, s\<lparr>rp_taps := (rp_taps s)(slot := rp_taps s slot + 1)\<rparr>))"

definition liquidity_row :: "event \<Rightarrow> txn" where
  "liquidity_row ev =
     default_txn\<lparr>tx_source := ev_payer ev, tx_target := income_account_for (ev_channel ev),
       tx_amount := ev_amount ev,
       tx_time := (if ev_channel ev = tag_of (Liquidity LiqOverdraftFee)
                   then ev_time ev + 1 else ev_time ev),
       tx_session := (tx_session default_txn)\<lparr>se_channel := ev_channel ev\<rparr>\<rparr>"

definition on_liquidity_event :: "event \<Rightarrow> replay \<Rightarrow> replay" where
  "on_liquidity_event ev s =
     (if \<not> rp_emit s then s
      else
        let (allowed, s) = fee_budget_allows ev s
        in if \<not> allowed then s else s\<lparr>rp_txns := rp_txns s @ [liquidity_row ev]\<rparr>)"

text \<open>A ledger call under the installed sink: the new book, then the events in order.\<close>

definition absorb :: "ledger \<Rightarrow> event list \<Rightarrow> replay \<Rightarrow> replay" where
  "absorb l evs s = fold on_liquidity_event evs (s\<lparr>rp_book := Some l\<rparr>)"

definition install_sink :: "replay \<Rightarrow> replay" where
  "install_sink s =
     (case rp_book s of None \<Rightarrow> s
      | Some l \<Rightarrow>
          let l = set_emit_liquidity (rp_emit s) l
          in s\<lparr>rp_book := Some (set_liquidity_sink (rp_emit s) l)\<rparr>)"

definition uninstall_sink :: "replay \<Rightarrow> replay" where
  "uninstall_sink s =
     (case rp_book s of None \<Rightarrow> s | Some l \<Rightarrow> s\<lparr>rp_book := Some (set_liquidity_sink False l)\<rparr>)"

definition posting_of :: "txn \<Rightarrow> key_posting" where
  "posting_of t =
     \<lparr>kp_source = tx_source t, kp_dest = tx_target t, kp_amount = tx_amount t,
      kp_channel = tx_channel t, kp_time = tx_time t\<rparr>"

definition post_row :: "txn \<Rightarrow> replay \<Rightarrow> replay \<times> decision" where
  "post_row t s =
     (case rp_book s of None \<Rightarrow> (s, accept)
      | Some l \<Rightarrow> (case transfer_at (posting_of t) l of (l, d, evs) \<Rightarrow> (absorb l evs s, d)))"

definition accrue_book :: "i64 \<Rightarrow> replay \<Rightarrow> replay" where
  "accrue_book ts s =
     (case rp_book s of None \<Rightarrow> s
      | Some l \<Rightarrow> (case accrue_loc_interest_through ts l of (l, evs) \<Rightarrow> absorb l evs s))"

definition append_row :: "txn \<Rightarrow> replay \<Rightarrow> replay \<times> bool" where
  "append_row t s =
     (case rp_book s of
        None \<Rightarrow> (s\<lparr>rp_txns := rp_txns s @ [t]\<rparr>, True)
      | Some _ \<Rightarrow>
          let s = install_sink s;
              (s, d) = post_row t s;
              s = uninstall_sink s
          in case d of
               None \<Rightarrow> (s\<lparr>rp_txns := rp_txns s @ [t]\<rparr>, True)
             | Some RejInvalid \<Rightarrow>
                 (s\<lparr>rp_drops := record_drop drop_invalid (tx_channel t) (rp_drops s)\<rparr>, False)
             | Some RejUnbooked \<Rightarrow>
                 (s\<lparr>rp_drops := record_drop drop_unbooked (tx_channel t) (rp_drops s)\<rparr>, False)
             | Some RejUnfunded \<Rightarrow>
                 (s\<lparr>rp_drops := record_drop drop_insufficient_funds (tx_channel t) (rp_drops s),
                    rp_declined := rp_declined s @
                      [\<lparr>da_txn = t, da_reason = drop_insufficient_funds\<rparr>]\<rparr>, False))"

subsection \<open>Cure and retry\<close>

definition index_inbound :: "txn \<Rightarrow> replay \<Rightarrow> replay" where
  "index_inbound t s =
     (if is_cure_inbound t
      then s\<lparr>rp_inbound := (rp_inbound s)(tx_target t := rp_inbound s (tx_target t) @ [tx_time t])\<rparr>
      else s)"

definition build_future_inbound_index :: "txn list \<Rightarrow> replay \<Rightarrow> replay" where
  "build_future_inbound_index items s = fold index_inbound items (s\<lparr>rp_inbound := (\<lambda>_. [])\<rparr>)"

text \<open>
  \<open>std::upper_bound\<close> as the bisection it is: on ascending values it finds the first one past
  \<open>v\<close>. The accumulator runs it on the times of one account in the order they were indexed,
  which is ascending only when the rows given to \<open>extend\<close> and \<open>extendChunk\<close> are.
\<close>

function upper_from :: "i64 list \<Rightarrow> i64 \<Rightarrow> nat \<Rightarrow> nat \<Rightarrow> nat" where
  "upper_from xs v first len =
     (if len = 0 then first
      else
        let half = len div 2
        in if v < xs ! (first + half) then upper_from xs v first half
           else upper_from xs v (first + half + 1) (len - half - 1))"
  by pat_completeness auto
termination by (relation "measure (\<lambda>(_, _, _, len). len)") auto

declare upper_from.simps [simp del]

definition upper_bound :: "i64 list \<Rightarrow> i64 \<Rightarrow> nat" where
  "upper_bound xs v = upper_from xs v 0 (length xs)"

definition find_future_cure :: "txn \<Rightarrow> replay \<Rightarrow> i64" where
  "find_future_cure t s =
     (let times = rp_inbound s (tx_source t);
          upper = tx_time t + cure_hours_for (rp_funding s) (tx_channel t) * 3600;
          pos = upper_bound times (tx_time t)
      in if times = [] then 0
         else if pos = length times then 0
         else if upper < times ! pos then 0 else times ! pos)"

definition resolve_retry_timestamp :: "txn \<Rightarrow> nat \<Rightarrow> replay \<Rightarrow> i64 \<times> replay" where
  "resolve_retry_timestamp t retry_count s =
     (let cure = find_future_cure t s
      in if cure \<noteq> 0 then (cure + padding_minutes_for (rp_funding s) (tx_channel t) * 60, s)
         else case rp_rng s of
           None \<Rightarrow> (0, s)
         | Some g \<Rightarrow>
             if \<not> is_retryable (tx_channel t) \<or> max_attempts_for (tx_channel t) \<le> retry_count
             then (0, s)
             else
               let (heads, g) = coin (blind_probability (rp_funding s)) g;
                   s = s\<lparr>rp_rng := Some g\<rparr>
               in if \<not> heads then (0, s)
                  else (tx_time t + blind_delay_hours_for (rp_funding s) retry_count * 3600, s))"

subsection \<open>Draining the queue\<close>

text \<open>The body of the loop of \<open>drainPending\<close>, for an item that has been popped.\<close>

definition drain_item :: "queued_item \<Rightarrow> replay \<Rightarrow> replay" where
  "drain_item q s =
     (let s = accrue_book (qi_time q) s; t = qi_txn q
      in if qi_kind q \<noteq> ItemTxn then s
         else
           let (s, d) = post_row t s
           in case d of
                None \<Rightarrow> s\<lparr>rp_txns := rp_txns s @ [t]\<rparr>
              | Some reason \<Rightarrow>
                  if reason \<noteq> RejUnfunded then
                    s\<lparr>rp_drops := record_drop
                        (if reason = RejInvalid then drop_invalid else drop_unbooked)
                        (tx_channel t) (rp_drops s)\<rparr>
                  else
                    let s = s\<lparr>rp_declined := rp_declined s @
                                [\<lparr>da_txn = t, da_reason = drop_insufficient_funds\<rparr>]\<rparr>;
                        (retry_ts, s) = resolve_retry_timestamp t (qi_retry q) s
                    in if retry_ts = 0 then
                         s\<lparr>rp_drops := record_drop (terminal_reason (tx_channel t))
                             (tx_channel t) (rp_drops s)\<rparr>
                       else if max_attempts_for (tx_channel t) < qi_retry q + 1 then
                         s\<lparr>rp_drops := record_drop drop_retry_exhausted (tx_channel t) (rp_drops s)\<rparr>
                       else
                         s\<lparr>rp_pending := pq_push queue_key
                             \<lparr>qi_time = retry_ts, qi_seq = rp_retry_seq s, qi_kind = ItemTxn,
                              qi_retry = qi_retry q + 1, qi_txn = t\<lparr>tx_time := retry_ts\<rparr>\<rparr>
                             (rp_pending s),
                           rp_retry_seq := rp_retry_seq s + 1\<rparr>)"

text \<open>What is left to do: an item can be retried at most twice more.\<close>

definition pending_work :: "queued_item list \<Rightarrow> nat" where
  "pending_work q = sum_list (map (\<lambda>i. Suc (3 - qi_retry i)) q)"

lemma on_liquidity_event_frame [frame_simps]:
  "rp_pending (on_liquidity_event ev s) = rp_pending s"
  "rp_drops (on_liquidity_event ev s) = rp_drops s"
  "rp_declined (on_liquidity_event ev s) = rp_declined s"
  "rp_next_seq (on_liquidity_event ev s) = rp_next_seq s"
  "rp_retry_seq (on_liquidity_event ev s) = rp_retry_seq s"
  "rp_inbound (on_liquidity_event ev s) = rp_inbound s"
  "rp_funding (on_liquidity_event ev s) = rp_funding s"
  "rp_emit (on_liquidity_event ev s) = rp_emit s"
  "rp_book (on_liquidity_event ev s) = rp_book s"
  "rp_rng (on_liquidity_event ev s) = rp_rng s"
  by (auto simp: on_liquidity_event_def fee_budget_allows_def Let_def split: option.split)

lemma fold_events_frame [frame_simps]:
  "rp_pending (fold on_liquidity_event evs s) = rp_pending s"
  "rp_drops (fold on_liquidity_event evs s) = rp_drops s"
  "rp_declined (fold on_liquidity_event evs s) = rp_declined s"
  "rp_next_seq (fold on_liquidity_event evs s) = rp_next_seq s"
  "rp_retry_seq (fold on_liquidity_event evs s) = rp_retry_seq s"
  "rp_inbound (fold on_liquidity_event evs s) = rp_inbound s"
  "rp_funding (fold on_liquidity_event evs s) = rp_funding s"
  "rp_emit (fold on_liquidity_event evs s) = rp_emit s"
  "rp_book (fold on_liquidity_event evs s) = rp_book s"
  "rp_rng (fold on_liquidity_event evs s) = rp_rng s"
  by (induction evs arbitrary: s; simp add: frame_simps)+

lemma book_calls_frame [frame_simps]:
  "rp_pending (accrue_book ts s) = rp_pending s" "rp_pending (fst (post_row t s)) = rp_pending s"
  "rp_drops (accrue_book ts s) = rp_drops s" "rp_drops (fst (post_row t s)) = rp_drops s"
  "rp_declined (accrue_book ts s) = rp_declined s" "rp_declined (fst (post_row t s)) = rp_declined s"
  "rp_next_seq (accrue_book ts s) = rp_next_seq s" "rp_next_seq (fst (post_row t s)) = rp_next_seq s"
  "rp_retry_seq (accrue_book ts s) = rp_retry_seq s" "rp_retry_seq (fst (post_row t s)) = rp_retry_seq s"
  "rp_inbound (accrue_book ts s) = rp_inbound s" "rp_inbound (fst (post_row t s)) = rp_inbound s"
  "rp_funding (accrue_book ts s) = rp_funding s" "rp_funding (fst (post_row t s)) = rp_funding s"
  "rp_emit (accrue_book ts s) = rp_emit s" "rp_emit (fst (post_row t s)) = rp_emit s"
  "rp_rng (accrue_book ts s) = rp_rng s" "rp_rng (fst (post_row t s)) = rp_rng s"
  by (simp_all add: accrue_book_def post_row_def absorb_def frame_simps split: option.split prod.split)

lemma resolve_retry_frame [frame_simps]:
  "rp_pending (snd (resolve_retry_timestamp t n s)) = rp_pending s"
  "rp_drops (snd (resolve_retry_timestamp t n s)) = rp_drops s"
  "rp_declined (snd (resolve_retry_timestamp t n s)) = rp_declined s"
  "rp_next_seq (snd (resolve_retry_timestamp t n s)) = rp_next_seq s"
  "rp_retry_seq (snd (resolve_retry_timestamp t n s)) = rp_retry_seq s"
  "rp_inbound (snd (resolve_retry_timestamp t n s)) = rp_inbound s"
  "rp_funding (snd (resolve_retry_timestamp t n s)) = rp_funding s"
  "rp_emit (snd (resolve_retry_timestamp t n s)) = rp_emit s"
  "rp_txns (snd (resolve_retry_timestamp t n s)) = rp_txns s"
  "rp_taps (snd (resolve_retry_timestamp t n s)) = rp_taps s"
  "rp_book (snd (resolve_retry_timestamp t n s)) = rp_book s"
  by (simp_all add: resolve_retry_timestamp_def Let_def split: option.split prod.split)

lemma find_future_cure_declined [simp]:
  "find_future_cure t (s\<lparr>rp_declined := x\<rparr>) = find_future_cure t s"
  by (simp add: find_future_cure_def Let_def)

lemma upper_from_sorted:
  "sorted xs \<Longrightarrow> first + len \<le> length xs \<Longrightarrow> \<forall>i < first. xs ! i \<le> v \<Longrightarrow>
     \<forall>i. first + len \<le> i \<and> i < length xs \<longrightarrow> v < xs ! i \<Longrightarrow>
     upper_from xs v first len = length (takeWhile (\<lambda>x. x \<le> v) xs)"
proof (induction xs v first len rule: upper_from.induct)
  case (1 xs v first len)
  show ?case
  proof (cases "len = 0")
    case True
    have "takeWhile (\<lambda>x. x \<le> v) xs = take first xs"
      using 1(4-6) True by (intro takeWhile_eq_take_P_nth) auto
    then show ?thesis using 1(4) True by (subst upper_from.simps) simp
  next
    case False
    let ?h = "len div 2"
    have h: "first + ?h < length xs" using 1(4) False by linarith
    show ?thesis
    proof (cases "v < xs ! (first + ?h)")
      case True
      have "\<forall>i. first + ?h \<le> i \<and> i < length xs \<longrightarrow> v < xs ! i"
        using True h sorted_nth_mono [OF 1(3)] by (meson le_less_trans less_le_trans)
      then show ?thesis using 1(1) [OF False refl True 1(3)] 1(4,5) h True False
        by (subst upper_from.simps) (simp add: Let_def)
    next
      case nlt: False
      have "\<forall>i < first + ?h + 1. xs ! i \<le> v"
        using nlt h sorted_nth_mono [OF 1(3)] by (metis Suc_eq_plus1 less_Suc_eq_le linorder_not_le order.trans)
      moreover have "first + ?h + 1 + (len - ?h - 1) = first + len" using False by linarith
      ultimately show ?thesis using 1(2) [OF False refl nlt 1(3)] 1(4,6) nlt False
        by (subst upper_from.simps) (simp add: Let_def)
    qed
  qed
qed

lemma upper_bound_sorted: "sorted xs \<Longrightarrow> upper_bound xs v = length (takeWhile (\<lambda>x. x \<le> v) xs)"
  unfolding upper_bound_def by (rule upper_from_sorted) auto

lemma resolve_retry_declined:
  "fst (resolve_retry_timestamp t n (s\<lparr>rp_declined := x\<rparr>)) = fst (resolve_retry_timestamp t n s)"
  by (simp add: resolve_retry_timestamp_def Let_def split_beta split: option.split)

lemma max_attempts_le_2: "max_attempts_for ch \<le> 2"
  by (simp add: max_attempts_for_def)

text \<open>
  The four outcomes of an item: settled, dropped with a reason, queued again, or nothing
  (a billing tick).
\<close>

definition retried_item :: "queued_item \<Rightarrow> i64 \<Rightarrow> nat \<Rightarrow> queued_item" where
  "retried_item q ts seq =
     \<lparr>qi_time = ts, qi_seq = seq, qi_kind = ItemTxn, qi_retry = qi_retry q + 1,
      qi_txn = (qi_txn q)\<lparr>tx_time := ts\<rparr>\<rparr>"

lemma drain_item_cases:
  fixes q :: queued_item and s :: replay
  defines "s' \<equiv> drain_item q s" and "r \<equiv> fst (post_row (qi_txn q) (accrue_book (qi_time q) s))"
  obtains (tick) "qi_kind q \<noteq> ItemTxn" "s' = accrue_book (qi_time q) s"
  | (settled) "qi_kind q = ItemTxn" "s' = r\<lparr>rp_txns := rp_txns r @ [qi_txn q]\<rparr>"
      "snd (post_row (qi_txn q) (accrue_book (qi_time q) s)) = None"
  | (refused) reason where "qi_kind q = ItemTxn"
      "s' = r\<lparr>rp_drops := record_drop reason (tx_channel (qi_txn q)) (rp_drops r)\<rparr>"
      "reason \<in> {drop_invalid, drop_unbooked}"
      "snd (post_row (qi_txn q) (accrue_book (qi_time q) s)) \<noteq> None"
  | (declined) reason g where "qi_kind q = ItemTxn"
      "s' = r\<lparr>rp_declined := rp_declined r @ [\<lparr>da_txn = qi_txn q, da_reason = drop_insufficient_funds\<rparr>],
        rp_rng := g, rp_drops := record_drop reason (tx_channel (qi_txn q)) (rp_drops r)\<rparr>"
      "reason \<in> {terminal_reason (tx_channel (qi_txn q)), drop_retry_exhausted}"
      "snd (post_row (qi_txn q) (accrue_book (qi_time q) s)) = Some RejUnfunded"
  | (retried) ts g where "qi_kind q = ItemTxn" "ts \<noteq> 0"
      "ts = fst (resolve_retry_timestamp (qi_txn q) (qi_retry q) r)"
      "qi_retry q + 1 \<le> max_attempts_for (tx_channel (qi_txn q))"
      "s' = r\<lparr>rp_declined := rp_declined r @ [\<lparr>da_txn = qi_txn q, da_reason = drop_insufficient_funds\<rparr>],
        rp_rng := g,
        rp_pending := pq_push queue_key (retried_item q ts (rp_retry_seq r)) (rp_pending r),
        rp_retry_seq := rp_retry_seq r + 1\<rparr>"
      "snd (post_row (qi_txn q) (accrue_book (qi_time q) s)) = Some RejUnfunded"
proof -
  let ?t = "qi_txn q" and ?s = "accrue_book (qi_time q) s"
  obtain d where p: "post_row ?t ?s = (r, d)" unfolding r_def by (metis prod.collapse)
  let ?u = "r\<lparr>rp_declined := rp_declined r @ [\<lparr>da_txn = ?t, da_reason = drop_insufficient_funds\<rparr>]\<rparr>"
  obtain ts v where e: "resolve_retry_timestamp ?t (qi_retry q) ?u = (ts, v)" by fastforce
  have "v = ?u\<lparr>rp_rng := rp_rng v\<rparr>"
    using e by (auto simp: resolve_retry_timestamp_def Let_def split: option.splits if_splits prod.splits)
  then obtain g where v: "v = ?u\<lparr>rp_rng := g\<rparr>" by blast
  have ts: "ts = fst (resolve_retry_timestamp ?t (qi_retry q) r)"
    using resolve_retry_declined [where t = ?t and n = "qi_retry q" and s = r
        and x = "rp_declined r @ [\<lparr>da_txn = ?t, da_reason = drop_insufficient_funds\<rparr>]"]
    by (simp only: e fst_conv)
  show thesis
  proof (cases "qi_kind q = ItemTxn")
    case False
    then show ?thesis by (intro tick) (simp_all add: s'_def drain_item_def Let_def)
  next
    case kind: True
    show ?thesis
    proof (cases d)
      case None
      then show ?thesis using kind p by (intro settled) (simp_all add: s'_def drain_item_def Let_def)
    next
      case (Some reason)
      show ?thesis
      proof (cases "reason = RejUnfunded")
        case False
        then show ?thesis using kind p Some
          by (intro refused [where reason = "if reason = RejInvalid then drop_invalid else drop_unbooked"])
            (simp_all add: s'_def drain_item_def Let_def)
      next
        case unf: True
        have s': "s' = (if ts = 0 then v\<lparr>rp_drops := record_drop (terminal_reason (tx_channel ?t)) (tx_channel ?t) (rp_drops v)\<rparr>
            else if max_attempts_for (tx_channel ?t) < qi_retry q + 1
            then v\<lparr>rp_drops := record_drop drop_retry_exhausted (tx_channel ?t) (rp_drops v)\<rparr>
            else v\<lparr>rp_pending := pq_push queue_key (retried_item q ts (rp_retry_seq v)) (rp_pending v),
                   rp_retry_seq := rp_retry_seq v + 1\<rparr>)"
          using kind p Some unf e by (simp add: s'_def drain_item_def Let_def retried_item_def)
        note s' = s' [unfolded v]
        consider "ts = 0" | "ts \<noteq> 0" "max_attempts_for (tx_channel ?t) < qi_retry q + 1"
          | "ts \<noteq> 0" "qi_retry q + 1 \<le> max_attempts_for (tx_channel ?t)" by linarith
        then show ?thesis
        proof cases
          case 1
          then show ?thesis using kind p Some unf s'
            by (intro declined [where g = g and reason = "terminal_reason (tx_channel ?t)"]) simp_all
        next
          case 2
          then show ?thesis using kind p Some unf s'
            by (intro declined [where g = g and reason = drop_retry_exhausted]) simp_all
        next
          case 3
          then show ?thesis using kind p Some unf s' ts
            by (intro retried [where ts = ts and g = g]) simp_all
        qed
      qed
    qed
  qed
qed

subsection \<open>The loop and the operations that run it\<close>

lemma pending_work_push [simp]:
  "pending_work (pq_push key x q) = Suc (3 - qi_retry x) + pending_work q"
  by (simp add: pending_work_def pq_push_def)

lemma pending_work_pop:
  "q \<noteq> [] \<Longrightarrow> pending_work q = Suc (3 - qi_retry (pq_top q)) + pending_work (pq_pop q)"
  by (cases q) (simp_all add: pending_work_def pq_defs)

text \<open>Handling an item adds less work than the item was.\<close>

lemma drain_item_work:
  "pending_work (rp_pending (drain_item q s)) \<le> (3 - qi_retry q) + pending_work (rp_pending s)"
proof (cases rule: drain_item_cases [of q s])
  case (retried ts g)
  have "qi_retry q + 1 \<le> 2" using retried(4) max_attempts_le_2 le_trans by blast
  then show ?thesis by (simp add: retried frame_simps retried_item_def)
qed (simp_all add: frame_simps)

function drain_pending :: "i64 \<Rightarrow> replay \<Rightarrow> replay" where
  "drain_pending bound s =
     (if rp_pending s \<noteq> [] \<and> qi_time (pq_top (rp_pending s)) < bound
      then drain_pending bound
             (drain_item (pq_top (rp_pending s)) (s\<lparr>rp_pending := pq_pop (rp_pending s)\<rparr>))
      else s)"
  by pat_completeness auto
termination
proof (relation "measure (\<lambda>(_, s). pending_work (rp_pending s))")
  fix bound and s :: replay
  assume "rp_pending s \<noteq> [] \<and> qi_time (pq_top (rp_pending s)) < bound"
  then show "((bound, drain_item (pq_top (rp_pending s)) (s\<lparr>rp_pending := pq_pop (rp_pending s)\<rparr>)),
      bound, s) \<in> measure (\<lambda>(_, s). pending_work (rp_pending s))"
    using drain_item_work [of "pq_top (rp_pending s)" "s\<lparr>rp_pending := pq_pop (rp_pending s)\<rparr>"]
      pending_work_pop [of "rp_pending s"] by simp
qed simp

declare drain_pending.simps [simp del]

definition int64_max :: i64 where
  "int64_max = 2 ^ 63 - 1"

definition push_row :: "txn \<Rightarrow> replay \<Rightarrow> replay" where
  "push_row t s =
     s\<lparr>rp_pending := pq_push queue_key
         \<lparr>qi_time = tx_time t, qi_seq = rp_next_seq s, qi_kind = ItemTxn, qi_retry = 0, qi_txn = t\<rparr>
         (rp_pending s),
       rp_next_seq := rp_next_seq s + 1\<rparr>"

definition extend_rows :: "txn list \<Rightarrow> bool \<Rightarrow> replay \<Rightarrow> replay" where
  "extend_rows items presorted s =
     (let items = (if presorted then items else sort_for_replay items)
      in if rp_book s = None then s\<lparr>rp_txns := rp_txns s @ items\<rparr>
         else
           let s = build_future_inbound_index items s;
               s = install_sink s;
               s = fold push_row items s;
               s = drain_pending int64_max s;
               s = (if items \<noteq> [] then accrue_book (tx_time (last items) + 1) s else s);
               s = uninstall_sink s
           in s\<lparr>rp_inbound := (\<lambda>_. []), rp_txns := sort_key audit_key (rp_txns s)\<rparr>)"

definition extend_chunk :: "txn list \<Rightarrow> txn list \<Rightarrow> i64 \<Rightarrow> replay \<Rightarrow> replay" where
  "extend_chunk items lookahead bound s =
     (if rp_book s = None then s\<lparr>rp_txns := rp_txns s @ items\<rparr>
      else
        let s = fold index_inbound lookahead
                  (fold index_inbound items (s\<lparr>rp_inbound := (\<lambda>_. [])\<rparr>));
            s = install_sink s;
            s = fold push_row items s;
            s = drain_pending bound s;
            s = (if bound = int64_max \<and> items \<noteq> []
                 then accrue_book (tx_time (last items) + 1) s else s);
            s = uninstall_sink s
        in s\<lparr>rp_inbound := (\<lambda>_. [])\<rparr>)"

text \<open>\<open>std::lower_bound\<close> on the sorted rows splits off those before the bound.\<close>

definition take_settled_before :: "i64 \<Rightarrow> replay \<Rightarrow> txn list \<times> replay" where
  "take_settled_before bound s =
     (let txns = sort_key audit_key (rp_txns s)
      in (takeWhile (\<lambda>t. tx_time t < bound) txns,
          s\<lparr>rp_txns := dropWhile (\<lambda>t. tx_time t < bound) txns\<rparr>))"

definition drain_declined :: "replay \<Rightarrow> declined_attempt list \<times> replay" where
  "drain_declined s = (rp_declined s, s\<lparr>rp_declined := []\<rparr>)"

definition append_declined_span ::
    "replay \<Rightarrow> declined_attempt list \<Rightarrow> replay \<times> declined_attempt list" where
  "append_declined_span s out =
     (let (batch, s) = drain_declined s
      in (s, out @ sort_key (\<lambda>d. tx_time (da_txn d)) batch))"

end
