(* ===== verification/ReplayFacts.thy ===== *)
theory ReplayFacts
  imports Replay LedgerProps
begin

text \<open>
  Facts about the replay: which rows each operation appends, the invariant of the pending
  queue, the accounting of rows, and one induction rule for the drain loop that all of them
  go through.
\<close>

subsection \<open>The pending queue\<close>

interpretation replay_queue:
  min_queue "[]" pq_empty "pq_push queue_key" pq_top pq_pop mset queue_key "pq_inv queue_key"
  by (rule min_queue_list)

lemma drain_induct [case_names base step]:
  assumes "P s"
    and "\<And>s q rest. P s \<Longrightarrow> rp_pending s = q # rest \<Longrightarrow> qi_time q < b \<Longrightarrow>
           P (drain_item q (s\<lparr>rp_pending := rest\<rparr>))"
  shows "P (drain_pending b s)"
  using assms
proof (induction b s rule: drain_pending.induct)
  case (1 b s)
  show ?case
  proof (cases "rp_pending s \<noteq> [] \<and> qi_time (pq_top (rp_pending s)) < b")
    case True
    then obtain q rest where q: "rp_pending s = q # rest" by (meson neq_Nil_conv)
    have "qi_time q < b" using True by (simp add: q pq_defs)
    with 1(3) [OF 1(2) q]
    have "P (drain_item (pq_top (rp_pending s)) (s\<lparr>rp_pending := pq_pop (rp_pending s)\<rparr>))"
      by (simp add: q pq_defs)
    from 1(1) [OF True this 1(3)] show ?thesis
      by (simp only: drain_pending.simps [of b s] True simp_thms if_True)
  qed (subst drain_pending.simps, use 1(2) in auto)
qed

lemma drain_pending_stop: "rp_pending (drain_pending b s) = [] \<or> b \<le> qi_time (pq_top (rp_pending (drain_pending b s)))"
proof (induction b s rule: drain_pending.induct)
  case (1 b s)
  then show ?case by (subst (1 2) drain_pending.simps) auto
qed

text \<open>What every item of the queue satisfies, and what keeps its order total.\<close>

definition item_ok :: "replay \<Rightarrow> queued_item \<Rightarrow> bool" where
  "item_ok s q =
     (tx_time (qi_txn q) = qi_time q \<and> qi_kind q = ItemTxn \<and> qi_retry q \<le> 2 \<and>
      (if qi_retry q = 0 then qi_seq q < rp_next_seq s
       else 2 ^ 62 \<le> qi_seq q \<and> qi_seq q < rp_retry_seq s))"

definition replay_inv :: "replay \<Rightarrow> bool" where
  "replay_inv s =
     (pq_inv queue_key (rp_pending s) \<and> distinct (map qi_seq (rp_pending s)) \<and>
      list_all (item_ok s) (rp_pending s) \<and> rp_next_seq s \<le> 2 ^ 62 \<and> 2 ^ 62 \<le> rp_retry_seq s)"

lemma replay_inv_pop:
  "replay_inv s \<Longrightarrow> rp_pending s = q # rest \<Longrightarrow>
     replay_inv (s\<lparr>rp_pending := rest\<rparr>) \<and> item_ok s q \<and> qi_seq q \<notin> qi_seq ` set rest"
  by (auto simp: replay_inv_def item_ok_def pq_inv_def list_all_iff)

lemma replay_inv_frame:
  "rp_pending s' = rp_pending s \<Longrightarrow> rp_next_seq s' = rp_next_seq s \<Longrightarrow>
     rp_retry_seq s' = rp_retry_seq s \<Longrightarrow> replay_inv s' \<longleftrightarrow> replay_inv s"
  unfolding replay_inv_def item_ok_def [abs_def] by simp

lemma distinct_push: "distinct (map f (pq_push k x q)) \<longleftrightarrow> f x \<notin> f ` set q \<and> distinct (map f q)"
  unfolding pq_push_def by (induction q) (auto simp: set_insort_key)

lemma set_push [simp]: "set (pq_push k x q) = insert x (set q)"
  by (simp add: pq_push_def set_insort_key)

lemma replay_inv_push_row:
  assumes "replay_inv s" "rp_next_seq s < 2 ^ 62"
  shows "replay_inv (push_row t s)"
proof -
  have "rp_next_seq s \<notin> qi_seq ` set (rp_pending s)"
    using assms by (force simp: replay_inv_def item_ok_def list_all_iff split: if_splits)
  then show ?thesis
    using assms
    by (auto simp: replay_inv_def push_row_def item_ok_def list_all_iff distinct_push
        replay_queue.inv_push split: if_splits)
qed

lemma replay_inv_push_retry:
  assumes "replay_inv s" "qi_retry q + 1 \<le> 2"
  shows "replay_inv (s\<lparr>rp_pending := pq_push queue_key (retried_item q ts (rp_retry_seq s)) (rp_pending s),
    rp_retry_seq := rp_retry_seq s + 1\<rparr>)"
proof -
  have "rp_retry_seq s \<notin> qi_seq ` set (rp_pending s)"
    using assms(1) by (force simp: replay_inv_def item_ok_def list_all_iff split: if_splits)
  then show ?thesis
    using assms
    by (auto simp: replay_inv_def item_ok_def list_all_iff distinct_push retried_item_def
        replay_queue.inv_push split: if_splits)
qed

lemma replay_inv_drain_item: "replay_inv s \<Longrightarrow> replay_inv (drain_item q s)"
proof (cases rule: drain_item_cases [of q s])
  case (retried ts g)
  assume inv: "replay_inv s"
  let ?r = "fst (post_row (qi_txn q) (accrue_book (qi_time q) s))"
  let ?v = "?r\<lparr>rp_declined := rp_declined ?r @ [\<lparr>da_txn = qi_txn q, da_reason = drop_insufficient_funds\<rparr>],
    rp_rng := g\<rparr>"
  have "qi_retry q + 1 \<le> 2" using retried(4) max_attempts_le_2 le_trans by blast
  moreover have "replay_inv ?v"
    by (rule replay_inv_frame [THEN iffD2, OF _ _ _ inv]) (simp_all add: frame_simps)
  ultimately show ?thesis using replay_inv_push_retry [of ?v q ts] retried(5) by simp
qed (erule replay_inv_frame [THEN iffD2, rotated 3]; simp add: frame_simps)+

lemma replay_inv_drain:
  assumes "replay_inv s"
  shows "replay_inv (drain_pending b s)"
proof (induction rule: drain_induct [of replay_inv])
  case (step s q rest)
  then show ?case using replay_inv_pop [OF step(1,2)] by (intro replay_inv_drain_item) blast
qed (rule assms)

lemma drain_leaves_later:
  assumes "replay_inv s" "q \<in> set (rp_pending (drain_pending b s))"
  shows "b \<le> qi_time q"
proof -
  let ?q = "rp_pending (drain_pending b s)"
  have "queue_key (pq_top ?q) \<le> queue_key q"
    using replay_queue.top_least [of ?q q] replay_inv_drain [OF assms(1), of b] assms(2)
    by (simp add: replay_inv_def)
  moreover have "b \<le> qi_time (pq_top ?q)" using drain_pending_stop [of b s] assms(2) by auto
  ultimately show ?thesis by (auto simp: queue_key_def less_eq_prod_def)
qed

subsection \<open>The rows an operation appends\<close>

definition fee_tag :: tag where
  "fee_tag = tag_of (Liquidity LiqOverdraftFee)"

definition interest_tag :: tag where
  "interest_tag = tag_of (Liquidity LiqLocInterest)"

definition bank_row :: "txn \<Rightarrow> bool" where
  "bank_row t = is_gl_posting (tx_channel t)"

lemma liquidity_row_fields [simp]:
  "tx_channel (liquidity_row ev) = ev_channel ev" "tx_source (liquidity_row ev) = ev_payer ev"
  "tx_time (liquidity_row ev) = (if ev_channel ev = fee_tag then ev_time ev + 1 else ev_time ev)"
  by (simp_all add: liquidity_row_def fee_tag_def del: tag_of.simps)

lemma bank_tags: "is_gl_posting fee_tag" "is_gl_posting interest_tag" "fee_tag \<noteq> interest_tag"
  by (simp_all add: is_gl_posting_def tag_is_def fee_tag_def interest_tag_def)

lemma debit_events:
  "ev \<in> set (snd (debit_and_emit idx amount ch ts l)) \<Longrightarrow> ev_channel ev = ch \<and> ev_time ev = ts"
  by (auto simp: debit_and_emit_def Let_def split: if_splits)

lemma transfer_at_events:
  assumes "transfer_at p l = (l', d, evs)" "ev \<in> set evs"
  shows "ev_channel ev = fee_tag \<and> ev_time ev = kp_time p"
proof -
  have *: "ev_channel ev = fee_tag \<and> ev_time ev = po_time q"
    if t: "transfer_indexed q l = (l', d, evs)" for q
    using t assms(2) debit_events
    by (auto simp: transfer_indexed_alt fee_tag_def simp del: tag_of.simps
        split: prod.splits if_splits option.splits) (metis snd_conv)+
  show ?thesis
    using assms * [of "to_posting l p"] by (auto simp: transfer_at_alt to_posting_def split: if_splits)
qed

lemma sweep_times: "a \<in> set (snd (loc_sweep ts c t)) \<Longrightarrow> ac_time a = ts"
proof -
  have *: "\<forall>a \<in> set (snd (foldl (bill_slot ts c) (t, out) due)). ac_time a = ts"
    if "\<forall>a \<in> set out. ac_time a = ts" for t out due
    using that
  proof (induction due arbitrary: t out)
    case (Cons i due)
    obtain t' out' where b: "bill_slot ts c (t, out) i = (t', out')" by fastforce
    then have "\<forall>a \<in> set out'. ac_time a = ts"
      using Cons.prems by (auto simp: bill_slot_def Let_def split: if_splits)
    then show ?case using Cons.IH [of out' t'] b by simp
  qed simp
  show "a \<in> set (snd (loc_sweep ts c t)) \<Longrightarrow> ac_time a = ts"
    using * [of "[]"] by (auto simp: loc_sweep_def Let_def split_beta split: if_splits)
qed

lemma post_accruals_events:
  "ev \<in> set (snd (post_accruals as l)) \<Longrightarrow>
     ev_channel ev = interest_tag \<and> (\<exists>a \<in> set as. ev_time ev = ac_time a)"
proof (induction "as" arbitrary: l)
  case (Cons a "as")
  then show ?case
    by (auto simp: split_beta Let_def interest_tag_def simp del: tag_of.simps dest: debit_events)
qed simp

lemma accrue_events:
  assumes "accrue_loc_interest_through ts l = (l', evs)" "ev \<in> set evs"
  shows "ev_channel ev = interest_tag \<and> ev_time ev = ts"
proof -
  obtain t due where d: "loc_sweep ts (\<lambda>idx. lg_cash l ! idx) (lg_loc l) = (t, due)" by fastforce
  then have "\<forall>a \<in> set due. ac_time a = ts"
    using sweep_times [of _ ts "\<lambda>idx. lg_cash l ! idx" "lg_loc l"] by simp
  then show ?thesis
    using assms post_accruals_events [of ev due "l\<lparr>lg_loc := t\<rparr>"]
    by (auto simp: accrue_loc_interest_through_def d Let_def split: if_splits)
qed

text \<open>\<open>grows P s s'\<close>: \<open>s'\<close> has the rows of \<open>s\<close> and then rows that satisfy \<open>P\<close>.\<close>

definition grows :: "(txn \<Rightarrow> bool) \<Rightarrow> replay \<Rightarrow> replay \<Rightarrow> bool" where
  "grows P s s' = (\<exists>rows. rp_txns s' = rp_txns s @ rows \<and> list_all P rows)"

lemma grows_refl [intro]: "rp_txns s' = rp_txns s \<Longrightarrow> grows P s s'"
  by (simp add: grows_def)

lemma grows_trans [trans]: "grows P a b \<Longrightarrow> grows P b c \<Longrightarrow> grows P a c"
  by (auto simp: grows_def)

lemma grows_mono: "grows P a b \<Longrightarrow> (\<And>t. P t \<Longrightarrow> Q t) \<Longrightarrow> grows Q a b"
  by (force simp: grows_def list_all_iff)

lemma grows_snoc: "grows P s s' \<Longrightarrow> rp_txns s'' = rp_txns s' @ [t] \<Longrightarrow> P t \<Longrightarrow> grows P s s''"
  by (auto simp: grows_def)

lemma grows_same: "grows P s s' \<Longrightarrow> rp_txns s'' = rp_txns s' \<Longrightarrow> grows P s s''"
  by (auto simp: grows_def)

lemma event_txns:
  "rp_txns (on_liquidity_event ev s) = rp_txns s \<or>
   rp_txns (on_liquidity_event ev s) = rp_txns s @ [liquidity_row ev]"
  by (auto simp: on_liquidity_event_def fee_budget_allows_def Let_def)

lemma grows_event: "P (liquidity_row ev) \<Longrightarrow> grows P s (on_liquidity_event ev s)"
  using event_txns [of ev s] by (auto simp: grows_def)

lemma grows_events:
  "\<forall>ev \<in> set evs. P (liquidity_row ev) \<Longrightarrow> grows P s (fold on_liquidity_event evs s)"
proof (induction evs arbitrary: s)
  case (Cons ev evs)
  show ?case using grows_trans [OF grows_event Cons.IH] Cons.prems by simp
qed auto

lemma grows_absorb: "\<forall>ev \<in> set evs. P (liquidity_row ev) \<Longrightarrow> grows P s (absorb l evs s)"
  using grows_events [of evs P "s\<lparr>rp_book := Some l\<rparr>"] by (simp add: absorb_def grows_def)

lemma grows_accrue: "grows (\<lambda>t. tx_channel t = interest_tag \<and> tx_time t = ts) s (accrue_book ts s)"
  using accrue_events bank_tags(3)
  by (auto simp: accrue_book_def split: option.split prod.split intro!: grows_absorb)

lemma grows_post:
  "grows (\<lambda>u. tx_channel u = fee_tag \<and> tx_time u = tx_time t + 1) s (fst (post_row t s))"
  using transfer_at_events [of "posting_of t"]
  by (auto simp: post_row_def posting_of_def split: option.split prod.split intro!: grows_absorb)

text \<open>A drained item appends rows of its instant or a second later, at most one of them not the bank's.\<close>

definition settles :: "queued_item \<Rightarrow> replay \<Rightarrow> bool" where
  "settles q s = (qi_kind q = ItemTxn \<and> snd (post_row (qi_txn q) (accrue_book (qi_time q) s)) = None)"

lemma drain_item_rows:
  assumes "tx_time (qi_txn q) = qi_time q"
  shows "\<exists>rows. rp_txns (drain_item q s) = rp_txns s @ rows @ (if settles q s then [qi_txn q] else []) \<and>
    list_all (\<lambda>t. bank_row t \<and> (tx_time t = qi_time q \<or> tx_time t = qi_time q + 1)) rows"
proof -
  let ?P = "\<lambda>t. bank_row t \<and> (tx_time t = qi_time q \<or> tx_time t = qi_time q + 1)"
  let ?a = "accrue_book (qi_time q) s" and ?r = "fst (post_row (qi_txn q) (accrue_book (qi_time q) s))"
  have a: "grows ?P s ?a"
    by (rule grows_mono [OF grows_accrue]) (use bank_tags in \<open>auto simp: bank_row_def\<close>)
  have "grows ?P ?a ?r"
    by (rule grows_mono [OF grows_post]) (use bank_tags assms in \<open>auto simp: bank_row_def\<close>)
  then have r: "grows ?P s ?r" by (rule grows_trans [OF a])
  show ?thesis
    using a r by (cases rule: drain_item_cases [of q s]) (auto simp: settles_def grows_def)
qed

subsection \<open>Accounting\<close>

definition drop_reasons :: "string list" where
  "drop_reasons = [drop_insufficient_funds, drop_retry_exhausted, drop_terminal,
     drop_instant_decline, drop_invalid, drop_unbooked]"

definition reason_count :: "drop_ledger \<Rightarrow> string \<Rightarrow> nat" where
  "reason_count d reason = (case by_reason d reason of None \<Rightarrow> 0 | Some n \<Rightarrow> n)"

definition drop_total :: "drop_ledger \<Rightarrow> nat" where
  "drop_total d = sum_list (map (reason_count d) drop_reasons)"

definition customer_rows :: "replay \<Rightarrow> nat" where
  "customer_rows s = length (filter (\<lambda>t. \<not> bank_row t) (rp_txns s))"

definition row_balance :: "replay \<Rightarrow> nat" where
  "row_balance s = customer_rows s + drop_total (rp_drops s) + length (rp_pending s)"

lemma reason_count_record:
  "reason_count (record_drop r ch d) x = reason_count d x + (if x = r then 1 else 0)"
  by (simp add: reason_count_def record_drop_def bump_def split: option.split)

lemma sum_list_add_one:
  "distinct xs \<Longrightarrow> sum_list (map (\<lambda>x. f x + (if x = r then 1 else 0)) xs)
     = sum_list (map f xs) + (if r \<in> set xs then 1 else (0::nat))"
  by (induction xs) auto

lemma drop_reasons_distinct: "distinct drop_reasons"
  by (simp add: drop_reasons_def drop_insufficient_funds_def drop_retry_exhausted_def
      drop_terminal_def drop_instant_decline_def drop_invalid_def drop_unbooked_def)

lemma terminal_reason_in: "terminal_reason ch \<in> set drop_reasons"
  by (simp add: terminal_reason_def drop_reasons_def)

lemma drop_total_record:
  "r \<in> set drop_reasons \<Longrightarrow> drop_total (record_drop r ch d) = drop_total d + 1"
  unfolding drop_total_def reason_count_record
  by (simp only: sum_list_add_one [OF drop_reasons_distinct] if_True)

lemma pq_push_length [simp]: "length (pq_push k x q) = Suc (length q)"
  unfolding pq_push_def by (induction q) auto

lemma filter_bank [simp]: "list_all (\<lambda>t. bank_row t \<and> P t) rows \<Longrightarrow> filter (\<lambda>t. \<not> bank_row t) rows = []"
  by (auto simp: list_all_iff filter_empty_conv)

lemma drain_item_balance:
  assumes "tx_time (qi_txn q) = qi_time q" "qi_kind q = ItemTxn" "\<not> bank_row (qi_txn q)"
  shows "row_balance (drain_item q s) = row_balance s + 1"
proof -
  obtain rows where r: "rp_txns (drain_item q s) = rp_txns s @ rows @ (if settles q s then [qi_txn q] else [])"
    "list_all (\<lambda>t. bank_row t \<and> (tx_time t = qi_time q \<or> tx_time t = qi_time q + 1)) rows"
    using drain_item_rows [OF assms(1), of s] by blast
  have c: "customer_rows (drain_item q s) = customer_rows s + (if settles q s then 1 else 0)"
    using r assms(3) by (simp add: customer_rows_def)
  show ?thesis
  proof (cases rule: drain_item_cases [of q s])
    case (refused reason)
    then have "reason \<in> set drop_reasons" by (auto simp: drop_reasons_def)
    then show ?thesis using refused c by (auto simp: row_balance_def frame_simps settles_def drop_total_record)
  next
    case (declined reason g)
    then have "reason \<in> set drop_reasons" using terminal_reason_in by (auto simp: drop_reasons_def)
    then show ?thesis using declined c by (auto simp: row_balance_def frame_simps settles_def drop_total_record)
  qed (use c assms(2) in \<open>auto simp: row_balance_def frame_simps settles_def\<close>)
qed

definition no_bank_items :: "replay \<Rightarrow> bool" where
  "no_bank_items s = list_all (\<lambda>q. \<not> bank_row (qi_txn q)) (rp_pending s)"

lemma drain_item_pending:
  "set (rp_pending (drain_item q s)) \<subseteq>
     set (rp_pending s) \<union> {retried_item q ts n | ts n. ts = fst (resolve_retry_timestamp (qi_txn q) (qi_retry q)
        (fst (post_row (qi_txn q) (accrue_book (qi_time q) s)))) \<and> ts \<noteq> 0}"
  by (cases rule: drain_item_cases [of q s]) (auto simp: frame_simps)

lemma no_bank_items_drain_item:
  assumes "no_bank_items s" "\<not> bank_row (qi_txn q)"
  shows "no_bank_items (drain_item q s)"
  using assms drain_item_pending [of q s]
  by (fastforce simp: no_bank_items_def list_all_iff retried_item_def bank_row_def)

lemma drain_balance:
  assumes "replay_inv s" "no_bank_items s"
  shows "row_balance (drain_pending b s) = row_balance s"
proof -
  let ?P = "\<lambda>t. replay_inv t \<and> no_bank_items t \<and> row_balance t = row_balance s"
  have "?P (drain_pending b s)"
  proof (induction rule: drain_induct [of ?P])
    case (step t q rest)
    have p: "replay_inv (t\<lparr>rp_pending := rest\<rparr>)" "item_ok t q"
      using step replay_inv_pop by blast+
    have "row_balance (drain_item q (t\<lparr>rp_pending := rest\<rparr>)) = row_balance (t\<lparr>rp_pending := rest\<rparr>) + 1"
      using p step by (intro drain_item_balance) (auto simp: item_ok_def no_bank_items_def)
    moreover have "row_balance (t\<lparr>rp_pending := rest\<rparr>) + 1 = row_balance t"
      using step by (simp add: row_balance_def customer_rows_def)
    moreover have "no_bank_items (drain_item q (t\<lparr>rp_pending := rest\<rparr>))"
      using step by (intro no_bank_items_drain_item) (auto simp: no_bank_items_def)
    ultimately show ?case using step replay_inv_drain_item [OF p(1)] by simp
  qed (use assms in simp)
  then show ?thesis by simp
qed

subsection \<open>Rows settle in time order\<close>

definition delays_ok :: "funding \<Rightarrow> bool" where
  "delays_ok f =
     (0 \<le> cure_card_hours f \<and> 0 \<le> cure_debit_hours f \<and> 0 \<le> card_padding_minutes f \<and> 0 \<le> debit_padding_minutes f \<and>
      0 < first_blind_hours f \<and> 0 < second_blind_hours f)"

definition inbound_sorted :: "replay \<Rightarrow> bool" where
  "inbound_sorted s = (\<forall>k. sorted (rp_inbound s k))"

lemma nth_length_takeWhile_not:
  "length (takeWhile P xs) < length xs \<Longrightarrow> \<not> P (xs ! length (takeWhile P xs))"
  by (rule nth_length_takeWhile)

lemma find_future_cure_later:
  assumes "inbound_sorted s" "find_future_cure t s \<noteq> 0"
  shows "tx_time t < find_future_cure t s"
    "find_future_cure t s \<le> tx_time t + cure_hours_for (rp_funding s) (tx_channel t) * 3600"
    "find_future_cure t s \<in> set (rp_inbound s (tx_source t))"
proof -
  let ?xs = "rp_inbound s (tx_source t)" and ?n = "upper_bound (rp_inbound s (tx_source t)) (tx_time t)"
  have n: "?n = length (takeWhile (\<lambda>x. x \<le> tx_time t) ?xs)"
    using assms(1) upper_bound_sorted by (simp add: inbound_sorted_def)
  have "?n \<le> length ?xs" unfolding n by (rule length_takeWhile_le)
  then have lt: "?n < length ?xs" "find_future_cure t s = ?xs ! ?n"
    "find_future_cure t s \<le> tx_time t + cure_hours_for (rp_funding s) (tx_channel t) * 3600"
    using assms(2) by (auto simp: find_future_cure_def Let_def split: if_splits)
  then show "tx_time t < find_future_cure t s" "find_future_cure t s \<in> set ?xs"
    "find_future_cure t s \<le> tx_time t + cure_hours_for (rp_funding s) (tx_channel t) * 3600"
    using nth_length_takeWhile [of "\<lambda>x. x \<le> tx_time t" ?xs] unfolding n by auto
qed

lemma retry_later:
  assumes "inbound_sorted s" "delays_ok (rp_funding s)" "fst (resolve_retry_timestamp t n s) \<noteq> 0"
  shows "tx_time t < fst (resolve_retry_timestamp t n s)"
  using assms find_future_cure_later(1) [OF assms(1), of t]
  by (auto simp: resolve_retry_timestamp_def delays_ok_def padding_minutes_for_def
      blind_delay_hours_for_def Let_def split: option.splits if_splits prod.splits)

lemma inbound_sorted_frame: "rp_inbound s' = rp_inbound s \<Longrightarrow> inbound_sorted s' = inbound_sorted s"
  by (simp add: inbound_sorted_def)

lemma drain_item_static [frame_simps]:
  "rp_inbound (drain_item q s) = rp_inbound s" "rp_funding (drain_item q s) = rp_funding s"
  "rp_emit (drain_item q s) = rp_emit s" "rp_next_seq (drain_item q s) = rp_next_seq s"
  by (cases rule: drain_item_cases [of q s]; simp add: frame_simps)+

lemma drain_static [frame_simps]:
  "rp_inbound (drain_pending b s) = rp_inbound s" "rp_funding (drain_pending b s) = rp_funding s"
  "rp_emit (drain_pending b s) = rp_emit s" "rp_next_seq (drain_pending b s) = rp_next_seq s"
proof -
  let ?P = "\<lambda>t. rp_inbound t = rp_inbound s \<and> rp_funding t = rp_funding s \<and> rp_emit t = rp_emit s \<and>
    rp_next_seq t = rp_next_seq s"
  have "?P (drain_pending b s)" by (induction rule: drain_induct [of ?P]) (simp_all add: frame_simps)
  then show "rp_inbound (drain_pending b s) = rp_inbound s" "rp_funding (drain_pending b s) = rp_funding s"
    "rp_emit (drain_pending b s) = rp_emit s" "rp_next_seq (drain_pending b s) = rp_next_seq s" by simp_all
qed

text \<open>Everything pending is at or after \<open>b0\<close>: so is everything the drain will settle.\<close>

lemma drain_rows_from:
  assumes "replay_inv s" "inbound_sorted s" "delays_ok (rp_funding s)"
    "list_all (\<lambda>q. b0 \<le> qi_time q) (rp_pending s)"
  shows "grows (\<lambda>t. b0 \<le> tx_time t) s (drain_pending b s)"
    "list_all (\<lambda>q. b0 \<le> qi_time q) (rp_pending (drain_pending b s))"
proof -
  let ?P = "\<lambda>t. replay_inv t \<and> inbound_sorted t \<and> delays_ok (rp_funding t) \<and>
    list_all (\<lambda>q. b0 \<le> qi_time q) (rp_pending t) \<and> grows (\<lambda>t. b0 \<le> tx_time t) s t"
  have "?P (drain_pending b s)"
  proof (induction rule: drain_induct [of ?P])
    case (step t q rest)
    let ?t = "t\<lparr>rp_pending := rest\<rparr>"
    let ?r = "fst (post_row (qi_txn q) (accrue_book (qi_time q) ?t))"
    have p: "replay_inv ?t" "item_ok t q" using step replay_inv_pop by blast+
    then have q: "tx_time (qi_txn q) = qi_time q" "b0 \<le> qi_time q"
      using step by (auto simp: item_ok_def)
    obtain rows where "rp_txns (drain_item q ?t) = rp_txns ?t @ rows @ (if settles q ?t then [qi_txn q] else [])"
      "list_all (\<lambda>t. bank_row t \<and> (tx_time t = qi_time q \<or> tx_time t = qi_time q + 1)) rows"
      using drain_item_rows [OF q(1), of ?t] by blast
    then have g: "grows (\<lambda>t. b0 \<le> tx_time t) t (drain_item q ?t)"
      using q by (auto simp: grows_def list_all_iff)
    have "inbound_sorted ?r" "delays_ok (rp_funding ?r)"
      using step by (simp_all add: inbound_sorted_def frame_simps)
    then have "b0 \<le> qi_time x" if "x \<in> set (rp_pending (drain_item q ?t))" for x
      using that drain_item_pending [of q ?t] step q retry_later [of ?r "qi_txn q" "qi_retry q"]
      by (fastforce simp: list_all_iff retried_item_def)
    then show ?case
      using step p g replay_inv_drain_item [OF p(1), of q] grows_trans
      by (auto simp: list_all_iff frame_simps inbound_sorted_def)
  qed (use assms in auto)
  then show "grows (\<lambda>t. b0 \<le> tx_time t) s (drain_pending b s)"
    "list_all (\<lambda>q. b0 \<le> qi_time q) (rp_pending (drain_pending b s))" by simp_all
qed

end
