(* ===== verification/ReplayOps.thy ===== *)
theory ReplayOps
  imports ReplayFacts
begin

text \<open>
  Facts about whole operations of the replay: what pushing a batch and indexing the inbound
  rows do, which fields an operation leaves alone, and the daily budget of fee rows.
\<close>

subsection \<open>Pushing and indexing a batch\<close>

lemma index_inbound_frame [frame_simps]:
  "rp_pending (index_inbound t s) = rp_pending s" "rp_txns (index_inbound t s) = rp_txns s"
  "rp_drops (index_inbound t s) = rp_drops s" "rp_declined (index_inbound t s) = rp_declined s"
  "rp_next_seq (index_inbound t s) = rp_next_seq s" "rp_retry_seq (index_inbound t s) = rp_retry_seq s"
  "rp_funding (index_inbound t s) = rp_funding s" "rp_emit (index_inbound t s) = rp_emit s"
  "rp_book (index_inbound t s) = rp_book s" "rp_taps (index_inbound t s) = rp_taps s"
  "rp_rng (index_inbound t s) = rp_rng s"
  by (simp_all add: index_inbound_def)

lemma fold_index_frame [frame_simps]:
  "rp_pending (fold index_inbound ts s) = rp_pending s" "rp_txns (fold index_inbound ts s) = rp_txns s"
  "rp_drops (fold index_inbound ts s) = rp_drops s" "rp_declined (fold index_inbound ts s) = rp_declined s"
  "rp_next_seq (fold index_inbound ts s) = rp_next_seq s"
  "rp_retry_seq (fold index_inbound ts s) = rp_retry_seq s"
  "rp_funding (fold index_inbound ts s) = rp_funding s" "rp_emit (fold index_inbound ts s) = rp_emit s"
  "rp_book (fold index_inbound ts s) = rp_book s" "rp_taps (fold index_inbound ts s) = rp_taps s"
  "rp_rng (fold index_inbound ts s) = rp_rng s"
  by (induction ts arbitrary: s; simp add: frame_simps)+

definition inbound_times :: "txn list \<Rightarrow> key \<Rightarrow> i64 list" where
  "inbound_times ts k = map tx_time (filter (\<lambda>t. is_cure_inbound t \<and> tx_target t = k) ts)"

lemma fold_index_inbound:
  "rp_inbound (fold index_inbound ts s) k = rp_inbound s k @ inbound_times ts k"
  by (induction ts arbitrary: s) (auto simp: index_inbound_def inbound_times_def)

lemma inbound_times_append [simp]: "inbound_times (xs @ ys) k = inbound_times xs k @ inbound_times ys k"
  by (simp add: inbound_times_def)

lemma inbound_times_sorted: "sorted (map tx_time ts) \<Longrightarrow> sorted (inbound_times ts k)"
  unfolding inbound_times_def by (rule sorted_filter)

lemma push_row_frame [frame_simps]:
  "rp_inbound (push_row t s) = rp_inbound s" "rp_txns (push_row t s) = rp_txns s"
  "rp_drops (push_row t s) = rp_drops s" "rp_declined (push_row t s) = rp_declined s"
  "rp_retry_seq (push_row t s) = rp_retry_seq s"
  "rp_funding (push_row t s) = rp_funding s" "rp_emit (push_row t s) = rp_emit s"
  "rp_book (push_row t s) = rp_book s" "rp_taps (push_row t s) = rp_taps s" "rp_rng (push_row t s) = rp_rng s"
  by (simp_all add: push_row_def)

lemma fold_push_frame [frame_simps]:
  "rp_inbound (fold push_row ts s) = rp_inbound s" "rp_txns (fold push_row ts s) = rp_txns s"
  "rp_drops (fold push_row ts s) = rp_drops s" "rp_declined (fold push_row ts s) = rp_declined s"
  "rp_retry_seq (fold push_row ts s) = rp_retry_seq s"
  "rp_funding (fold push_row ts s) = rp_funding s" "rp_emit (fold push_row ts s) = rp_emit s"
  "rp_book (fold push_row ts s) = rp_book s" "rp_taps (fold push_row ts s) = rp_taps s"
  "rp_rng (fold push_row ts s) = rp_rng s"
  by (induction ts arbitrary: s; simp add: frame_simps)+

lemma fold_push_seq: "rp_next_seq (fold push_row ts s) = rp_next_seq s + length ts"
  by (induction ts arbitrary: s) (simp_all add: push_row_def)

lemma fold_push_inv:
  "replay_inv s \<Longrightarrow> rp_next_seq s + length ts \<le> 2 ^ 62 \<Longrightarrow> replay_inv (fold push_row ts s)"
proof (induction ts arbitrary: s)
  case (Cons t ts)
  have "rp_next_seq (push_row t s) = Suc (rp_next_seq s)" by (simp add: push_row_def)
  then show ?case
    using Cons.prems Cons.IH [OF replay_inv_push_row [OF Cons.prems(1), of t]]
    by (simp del: numeral_power_eq_of_nat_cancel_iff)
qed simp

lemma fold_push_items:
  "q \<in> set (rp_pending (fold push_row ts s)) \<Longrightarrow>
     q \<in> set (rp_pending s) \<or> (qi_txn q \<in> set ts \<and> qi_time q = tx_time (qi_txn q))"
proof (induction ts arbitrary: s)
  case (Cons t ts)
  then show ?case using Cons.IH [of "push_row t s"] by (auto simp: push_row_def)
qed simp

lemma fold_push_length: "length (rp_pending (fold push_row ts s)) = length (rp_pending s) + length ts"
  by (induction ts arbitrary: s) (simp_all add: push_row_def)

lemma sink_frame [frame_simps]:
  "rp_pending (install_sink s) = rp_pending s" "rp_pending (uninstall_sink s) = rp_pending s"
  "rp_txns (install_sink s) = rp_txns s" "rp_txns (uninstall_sink s) = rp_txns s"
  "rp_drops (install_sink s) = rp_drops s" "rp_drops (uninstall_sink s) = rp_drops s"
  "rp_declined (install_sink s) = rp_declined s" "rp_declined (uninstall_sink s) = rp_declined s"
  "rp_next_seq (install_sink s) = rp_next_seq s" "rp_next_seq (uninstall_sink s) = rp_next_seq s"
  "rp_retry_seq (install_sink s) = rp_retry_seq s" "rp_retry_seq (uninstall_sink s) = rp_retry_seq s"
  "rp_funding (install_sink s) = rp_funding s" "rp_funding (uninstall_sink s) = rp_funding s"
  "rp_emit (install_sink s) = rp_emit s" "rp_emit (uninstall_sink s) = rp_emit s"
  "rp_inbound (install_sink s) = rp_inbound s" "rp_inbound (uninstall_sink s) = rp_inbound s"
  "rp_taps (install_sink s) = rp_taps s" "rp_taps (uninstall_sink s) = rp_taps s"
  "rp_rng (install_sink s) = rp_rng s" "rp_rng (uninstall_sink s) = rp_rng s"
  by (simp_all add: install_sink_def uninstall_sink_def Let_def split: option.split)

subsection \<open>The invariant across operations\<close>

lemma extend_chunk_inv:
  assumes "replay_inv s" "rp_next_seq s + length items \<le> 2 ^ 62"
  shows "replay_inv (extend_chunk items lookahead b s)"
proof (cases "rp_book s = None")
  case True
  then show ?thesis using replay_inv_frame [of _ s] assms(1) by (simp add: extend_chunk_def)
next
  case False
  let ?i = "install_sink (fold index_inbound lookahead (fold index_inbound items (s\<lparr>rp_inbound := (\<lambda>_. [])\<rparr>)))"
  have "replay_inv ?i" by (rule replay_inv_frame [THEN iffD2, OF _ _ _ assms(1)]) (simp_all add: frame_simps)
  then have d: "replay_inv (drain_pending b (fold push_row items ?i))"
    using assms(2) by (intro replay_inv_drain fold_push_inv) (simp_all add: frame_simps)
  show ?thesis
    by (rule replay_inv_frame [THEN iffD2, OF _ _ _ d])
      (simp_all add: extend_chunk_def Let_def False frame_simps)
qed

lemma extend_rows_inv:
  assumes "replay_inv s" "rp_next_seq s + length items \<le> 2 ^ 62"
  shows "replay_inv (extend_rows items presorted s)"
proof (cases "rp_book s = None")
  case True
  then show ?thesis using replay_inv_frame [of _ s] assms(1) by (simp add: extend_rows_def)
next
  case False
  let ?items = "if presorted then items else sort_for_replay items"
  let ?i = "install_sink (build_future_inbound_index ?items s)"
  have "replay_inv ?i"
    by (rule replay_inv_frame [THEN iffD2, OF _ _ _ assms(1)])
      (simp_all add: frame_simps build_future_inbound_index_def)
  then have d: "replay_inv (drain_pending int64_max (fold push_row ?items ?i))"
    using assms(2) by (intro replay_inv_drain fold_push_inv)
      (simp_all add: frame_simps build_future_inbound_index_def sort_for_replay_def)
  show ?thesis
    by (rule replay_inv_frame [THEN iffD2, OF _ _ _ d])
      (simp_all add: extend_rows_def Let_def False frame_simps)
qed

lemma append_row_inv: "replay_inv s \<Longrightarrow> replay_inv (fst (append_row t s))"
  by (erule replay_inv_frame [THEN iffD2, rotated 3])
    (simp_all add: append_row_def Let_def split_beta frame_simps split: option.split reject_reason.split)

lemma take_settled_inv: "replay_inv s \<Longrightarrow> replay_inv (snd (take_settled_before b s))"
  by (erule replay_inv_frame [THEN iffD2, rotated 3]) (simp_all add: take_settled_before_def Let_def)

lemma drain_declined_inv: "replay_inv s \<Longrightarrow> replay_inv (snd (drain_declined s))"
  by (erule replay_inv_frame [THEN iffD2, rotated 3]) (simp_all add: drain_declined_def)

lemma replay_new_inv: "replay_inv (replay_new book g f e)"
  by (simp add: replay_inv_def replay_new_def pq_inv_def)

subsection \<open>The daily budget of fee rows\<close>

definition fee_day :: "i64 \<Rightarrow> int" where
  "fee_day ts = signed_take_bit 31 (trunc_div ts seconds_per_day)"

text \<open>The fee rows of one account and day; a fee row is stamped a second after its event.\<close>

definition fee_rows :: "key \<Rightarrow> int \<Rightarrow> txn list \<Rightarrow> nat" where
  "fee_rows k day txns =
     length (filter (\<lambda>t. tx_channel t = fee_tag \<and> tx_source t = k \<and> fee_day (tx_time t - 1) = day) txns)"

definition fee_inv :: "replay \<Rightarrow> bool" where
  "fee_inv s =
     ((\<forall>slot. rp_taps s slot \<le> max 0 (fee_daily_cap (rp_funding s))) \<and> (\<forall>slot. 0 \<le> rp_taps s slot) \<and>
      (case rp_book s of None \<Rightarrow> True | Some l \<Rightarrow>
         (\<forall>k day. find_account l k \<noteq> invalid_index \<longrightarrow>
            int (fee_rows k day (rp_txns s)) \<le> rp_taps s (find_account l k, day))))"

lemma fee_rows_append [simp]: "fee_rows k day (xs @ ys) = fee_rows k day xs + fee_rows k day ys"
  by (simp add: fee_rows_def)

lemma fee_rows_other: "tx_channel t \<noteq> fee_tag \<Longrightarrow> fee_rows k day [t] = 0"
  by (simp add: fee_rows_def)

lemma fee_rows_event:
  "fee_rows k day [liquidity_row ev] =
     (if ev_channel ev = fee_tag \<and> ev_payer ev = k \<and> fee_day (ev_time ev) = day then 1 else 0)"
  by (simp add: fee_rows_def)

lemma fee_inv_event:
  assumes "fee_inv s"
  shows "fee_inv (on_liquidity_event ev s)"
proof (cases "rp_emit s \<and> ev_channel ev = fee_tag")
  case False
  then show ?thesis using assms
    by (auto simp: fee_inv_def on_liquidity_event_def fee_budget_allows_def fee_tag_def [symmetric]
        fee_rows_event simp del: tag_of.simps split: option.splits)
next
  case True
  show ?thesis
  proof (cases "rp_book s")
    case None
    then show ?thesis using assms True
      by (simp add: fee_inv_def on_liquidity_event_def fee_budget_allows_def fee_tag_def [symmetric]
          del: tag_of.simps)
  next
    case (Some l)
    let ?slot = "(find_account l (ev_payer ev), fee_day (ev_time ev))"
    show ?thesis
      using assms True Some
      by (auto simp: fee_inv_def on_liquidity_event_def fee_budget_allows_def Let_def fee_rows_event
          fee_tag_def [symmetric] fee_day_def [symmetric] simp del: tag_of.simps)
        (fastforce | metis le_add_same_cancel1 zero_le_one order_trans)+
  qed
qed

lemma fee_inv_events: "fee_inv s \<Longrightarrow> fee_inv (fold on_liquidity_event evs s)"
  by (induction evs arbitrary: s) (simp_all add: fee_inv_event)

lemma debit_internal: "lg_internal (fst (debit_and_emit idx amount ch ts l)) = lg_internal l"
  by (simp add: debit_and_emit_def Let_def set_cash_def loc_touch_def)

lemma accrue_internal: "lg_internal (fst (accrue_loc_interest_through ts l)) = lg_internal l"
proof -
  have "lg_internal (fst (post_accruals as l)) = lg_internal l" for "as" l
    by (induction "as" arbitrary: l) (simp_all add: split_beta Let_def debit_internal del: tag_of.simps)
  then show ?thesis by (simp add: accrue_loc_interest_through_def Let_def split_beta)
qed

lemma fee_inv_absorb:
  assumes "fee_inv s" "rp_book s = Some l" "lg_internal l' = lg_internal l"
  shows "fee_inv (absorb l' evs s)"
proof -
  have "fee_inv (s\<lparr>rp_book := Some l'\<rparr>)" using assms by (simp add: fee_inv_def find_account_def)
  then show ?thesis by (simp add: absorb_def fee_inv_events)
qed

lemma fee_inv_accrue: "fee_inv s \<Longrightarrow> fee_inv (accrue_book ts s)"
  using accrue_internal [of ts] fee_inv_absorb
  by (fastforce simp: accrue_book_def split: option.split prod.split)

lemma fee_inv_post: "fee_inv s \<Longrightarrow> fee_inv (fst (post_row t s))"
  using same_setup_fields(5) [OF same_setup_transfer_at [where p = "posting_of t"]] fee_inv_absorb
  by (fastforce simp: post_row_def split: option.split prod.split)

lemma fee_inv_frame:
  "fee_inv s \<Longrightarrow> rp_taps s' = rp_taps s \<Longrightarrow> rp_funding s' = rp_funding s \<Longrightarrow>
     map_option lg_internal (rp_book s') = map_option lg_internal (rp_book s) \<Longrightarrow>
     (\<forall>k day. fee_rows k day (rp_txns s') \<le> fee_rows k day (rp_txns s)) \<Longrightarrow> fee_inv s'"
proof -
  assume a: "fee_inv s" "rp_taps s' = rp_taps s" "rp_funding s' = rp_funding s"
    "map_option lg_internal (rp_book s') = map_option lg_internal (rp_book s)"
    "\<forall>k day. fee_rows k day (rp_txns s') \<le> fee_rows k day (rp_txns s)"
  show "fee_inv s'"
  proof (cases "rp_book s'")
    case None
    then show ?thesis using a(1-3) by (simp add: fee_inv_def)
  next
    case (Some l')
    then obtain l where l: "rp_book s = Some l" "lg_internal l = lg_internal l'"
      using a(4) by (cases "rp_book s") auto
    have f: "find_account l' k = find_account l k" for k by (simp add: find_account_def l)
    have "int (fee_rows k day (rp_txns s')) \<le> rp_taps s (find_account l k, day)"
      if "find_account l k \<noteq> invalid_index" for k day
      using a(1,5) that l(1) by (fastforce simp: fee_inv_def intro: order_trans [of _ "int (fee_rows k day (rp_txns s))"])
    then show ?thesis using a(1-3) Some by (simp add: fee_inv_def f)
  qed
qed

lemma fee_inv_drain_item:
  assumes "fee_inv s" "\<not> bank_row (qi_txn q)"
  shows "fee_inv (drain_item q s)"
proof -
  let ?r = "fst (post_row (qi_txn q) (accrue_book (qi_time q) s))"
  have a: "fee_inv (accrue_book (qi_time q) s)" by (rule fee_inv_accrue [OF assms(1)])
  have r: "fee_inv ?r" by (rule fee_inv_post [OF a])
  have n: "fee_rows k day [qi_txn q] = 0" for k day
    using assms(2) bank_tags(1) by (intro fee_rows_other) (auto simp: bank_row_def)
  show ?thesis
    using a by (cases rule: drain_item_cases [of q s]) (auto simp: n intro: fee_inv_frame [OF r])
qed

end
