(* ===== verification/ReplayChunks.thy ===== *)
theory ReplayChunks
  imports ReplayOps
begin

text \<open>
  Replaying in chunks gives what replaying in one pass gives: the items of a later chunk and
  the part of the inbound index past the lookahead do not change how earlier items drain.
\<close>

subsection \<open>The index only matters near the row that asks\<close>

definition first_cure :: "i64 list \<Rightarrow> i64 \<Rightarrow> i64 \<Rightarrow> i64" where
  "first_cure ts t upper =
     (case dropWhile (\<lambda>x. x \<le> t) ts of [] \<Rightarrow> 0 | pos # _ \<Rightarrow> if upper < pos then 0 else pos)"

lemma find_future_cure_sorted:
  assumes "sorted (rp_inbound s (tx_source t))"
  shows "find_future_cure t s = first_cure (rp_inbound s (tx_source t)) (tx_time t)
    (tx_time t + cure_hours_for (rp_funding s) (tx_channel t) * 3600)"
proof -
  let ?xs = "rp_inbound s (tx_source t)" and ?P = "\<lambda>x. x \<le> tx_time t"
  have n: "upper_bound ?xs (tx_time t) = length (takeWhile ?P ?xs)" by (rule upper_bound_sorted [OF assms])
  have split: "takeWhile ?P ?xs @ dropWhile ?P ?xs = ?xs" by simp
  show ?thesis
  proof (cases "dropWhile ?P ?xs")
    case Nil
    then have "length (takeWhile ?P ?xs) = length ?xs" using split by (metis append_Nil2)
    then show ?thesis by (simp add: find_future_cure_def Let_def n first_cure_def Nil)
  next
    case (Cons p rest)
    have "length (takeWhile ?P ?xs) < length ?xs" "?xs ! length (takeWhile ?P ?xs) = p" "?xs \<noteq> []"
      using split unfolding Cons by (metis length_append length_Cons less_add_Suc1 add_Suc_right,
        metis nth_append_length, force)
    then show ?thesis by (simp add: find_future_cure_def Let_def n first_cure_def Cons)
  qed
qed

lemma dropWhile_append_all: "\<forall>x \<in> set xs. P x \<Longrightarrow> dropWhile P (xs @ ys) = dropWhile P ys"
  by (rule dropWhile_append2) simp

lemma first_cure_past: "\<forall>x \<in> set xs. x \<le> t \<Longrightarrow> first_cure (xs @ ys) t u = first_cure ys t u"
  by (simp add: first_cure_def dropWhile_append_all)

lemma first_cure_ahead:
  assumes "sorted (xs @ ys)" "u < l" "t \<le> u"
  shows "first_cure (xs @ takeWhile (\<lambda>x. x < l) ys) t u = first_cure (xs @ ys) t u"
proof (cases "\<forall>x \<in> set xs. x \<le> t")
  case False
  then obtain p rest where p: "dropWhile (\<lambda>x. x \<le> t) xs = p # rest" by (metis dropWhile_eq_Nil_conv list.exhaust)
  obtain y where "y \<in> set xs" "\<not> y \<le> t" using False by blast
  then have "dropWhile (\<lambda>x. x \<le> t) (xs @ zs) = p # rest @ zs" for zs
    using dropWhile_append1 [of y xs "\<lambda>x. x \<le> t" zs] p by simp
  then show ?thesis by (simp add: first_cure_def)
next
  case True
  have "first_cure (takeWhile (\<lambda>x. x < l) ys) t u = first_cure ys t u"
    using assms(1)
  proof (induction ys)
    case (Cons y ys)
    then show ?case using assms(2,3) by (auto simp: first_cure_def sorted_append)
  qed simp
  then show ?thesis using True by (simp add: first_cure_past)
qed

lemma inbound_times_takeWhile:
  assumes "sorted (map tx_time ts)"
  shows "inbound_times (takeWhile (\<lambda>t. tx_time t < l) ts) k = takeWhile (\<lambda>x. x < l) (inbound_times ts k)"
  using assms
proof (induction ts)
  case (Cons t ts)
  have "takeWhile (\<lambda>x. x < l) (inbound_times ts k) = []" if "\<not> tx_time t < l"
  proof -
    have "\<forall>x \<in> set (inbound_times ts k). l \<le> x"
      using that Cons.prems by (force simp: inbound_times_def)
    then show ?thesis by (cases "inbound_times ts k") auto
  qed
  then show ?case using Cons by (auto simp: inbound_times_def)
qed (simp add: inbound_times_def)

subsection \<open>Handling an item with other items waiting\<close>

text \<open>Updates of the other fields, moved inside.\<close>

lemma update_order:
  "s\<lparr>rp_pending := p, rp_inbound := i, rp_next_seq := m, rp_declined := x\<rparr> = s\<lparr>rp_declined := x, rp_pending := p, rp_inbound := i, rp_next_seq := m\<rparr>"
  "s\<lparr>rp_pending := p, rp_inbound := i, rp_next_seq := m, rp_drops := d\<rparr> = s\<lparr>rp_drops := d, rp_pending := p, rp_inbound := i, rp_next_seq := m\<rparr>"
  "s\<lparr>rp_pending := p, rp_inbound := i, rp_next_seq := m, rp_txns := t\<rparr> = s\<lparr>rp_txns := t, rp_pending := p, rp_inbound := i, rp_next_seq := m\<rparr>"
  "s\<lparr>rp_pending := p, rp_inbound := i, rp_next_seq := m, rp_book := b\<rparr> = s\<lparr>rp_book := b, rp_pending := p, rp_inbound := i, rp_next_seq := m\<rparr>"
  by simp_all

lemma event_over:
  "on_liquidity_event ev (s\<lparr>rp_pending := p, rp_inbound := i, rp_next_seq := m\<rparr>) = (on_liquidity_event ev s)\<lparr>rp_pending := p, rp_inbound := i, rp_next_seq := m\<rparr>"
  by (simp add: on_liquidity_event_def fee_budget_allows_def Let_def split: option.split)

lemma events_over:
  "fold on_liquidity_event evs (s\<lparr>rp_pending := p, rp_inbound := i, rp_next_seq := m\<rparr>)
     = (fold on_liquidity_event evs s)\<lparr>rp_pending := p, rp_inbound := i, rp_next_seq := m\<rparr>"
  by (induction evs arbitrary: s) (simp_all add: event_over)

lemma absorb_over: "absorb l evs (s\<lparr>rp_pending := p, rp_inbound := i, rp_next_seq := m\<rparr>) = (absorb l evs s)\<lparr>rp_pending := p, rp_inbound := i, rp_next_seq := m\<rparr>"
  using events_over [where evs = evs and s = "s\<lparr>rp_book := Some l\<rparr>" and p = p and i = i and m = m]
    update_order(4) [where s = s and p = p and i = i and m = m and b = "Some l"]
  by (simp only: absorb_def)

lemma accrue_over: "accrue_book ts (s\<lparr>rp_pending := p, rp_inbound := i, rp_next_seq := m\<rparr>) = (accrue_book ts s)\<lparr>rp_pending := p, rp_inbound := i, rp_next_seq := m\<rparr>"
  by (simp add: accrue_book_def absorb_over split: option.split prod.split)

lemma post_over:
  "post_row t (s\<lparr>rp_pending := p, rp_inbound := i, rp_next_seq := m\<rparr>)
     = ((fst (post_row t s))\<lparr>rp_pending := p, rp_inbound := i, rp_next_seq := m\<rparr>, snd (post_row t s))"
  by (simp add: post_row_def absorb_over split: option.split prod.split)

lemma retry_over:
  assumes "find_future_cure t (s\<lparr>rp_pending := p, rp_inbound := i, rp_next_seq := m\<rparr>) = find_future_cure t s"
  shows "resolve_retry_timestamp t n (s\<lparr>rp_pending := p, rp_inbound := i, rp_next_seq := m\<rparr>)
    = (fst (resolve_retry_timestamp t n s), (snd (resolve_retry_timestamp t n s))\<lparr>rp_pending := p, rp_inbound := i, rp_next_seq := m\<rparr>)"
  by (simp add: resolve_retry_timestamp_def assms Let_def split_beta split: option.split)

text \<open>The item that handling adds, if any.\<close>

definition spawned :: "queued_item \<Rightarrow> replay \<Rightarrow> queued_item list" where
  "spawned q s = rp_pending (drain_item q (s\<lparr>rp_pending := []\<rparr>))"

definition same_cures :: "txn \<Rightarrow> (key \<Rightarrow> i64 list) \<Rightarrow> replay \<Rightarrow> bool" where
  "same_cures t i s = (find_future_cure t (s\<lparr>rp_inbound := i\<rparr>) = find_future_cure t s)"

lemma find_future_cure_reads:
  "rp_inbound s' = rp_inbound s \<Longrightarrow> rp_funding s' = rp_funding s \<Longrightarrow> find_future_cure t s' = find_future_cure t s"
  by (simp add: find_future_cure_def Let_def)

lemma drain_item_over:
  assumes "same_cures (qi_txn q) i s"
  shows "drain_item q (s\<lparr>rp_pending := p, rp_inbound := i, rp_next_seq := m\<rparr>)
    = (drain_item q s)\<lparr>rp_pending := fold (pq_push queue_key) (spawned q s) p, rp_inbound := i, rp_next_seq := m\<rparr>"
proof -
  obtain r d where p: "post_row (qi_txn q) (accrue_book (qi_time q) s) = (r, d)" by fastforce
  have r: "r = fst (post_row (qi_txn q) (accrue_book (qi_time q) s))" using p by simp
  let ?u = "r\<lparr>rp_declined := rp_declined r @ [\<lparr>da_txn = qi_txn q, da_reason = drop_insufficient_funds\<rparr>]\<rparr>"
  have c: "find_future_cure (qi_txn q) (?u\<lparr>rp_pending := p', rp_inbound := i', rp_next_seq := m'\<rparr>) = find_future_cure (qi_txn q) ?u"
    if "i' = i \<or> i' = rp_inbound s" for p' i' m'
    using that assms find_future_cure_reads [of "?u\<lparr>rp_pending := p', rp_inbound := i', rp_next_seq := m'\<rparr>" "s\<lparr>rp_inbound := i'\<rparr>"]
      find_future_cure_reads [of ?u s]
    by (auto simp: same_cures_def r frame_simps)
  obtain v w where w: "resolve_retry_timestamp (qi_txn q) (qi_retry q) ?u = (v, w)" by fastforce
  have rw: "rp_retry_seq w = rp_retry_seq s" "rp_pending w = rp_pending s" "rp_drops w = rp_drops s"
    using resolve_retry_frame [of "qi_txn q" "qi_retry q" ?u] unfolding w by (simp_all add: r frame_simps)
  have e: "s\<lparr>rp_pending := []\<rparr> = s\<lparr>rp_pending := [], rp_inbound := rp_inbound s, rp_next_seq := rp_next_seq s\<rparr>" by simp
  have "drain_item q (s\<lparr>rp_pending := p', rp_inbound := i', rp_next_seq := m'\<rparr>)
      = (drain_item q s)\<lparr>rp_pending := (
          if qi_kind q = ItemTxn \<and> d = Some RejUnfunded \<and> v \<noteq> 0 \<and>
             qi_retry q + 1 \<le> max_attempts_for (tx_channel (qi_txn q))
          then pq_push queue_key (retried_item q v (rp_retry_seq s)) p' else p'), rp_inbound := i', rp_next_seq := m'\<rparr>"
    if "i' = i \<or> i' = rp_inbound s" for p' i' m'
  proof -
    have R: "resolve_retry_timestamp (qi_txn q) (qi_retry q)
        (r\<lparr>rp_pending := p', rp_inbound := i', rp_next_seq := m', rp_declined := rp_declined r @ [\<lparr>da_txn = qi_txn q, da_reason = drop_insufficient_funds\<rparr>]\<rparr>)
        = (v, w\<lparr>rp_pending := p', rp_inbound := i', rp_next_seq := m'\<rparr>)"
      unfolding update_order retry_over [OF c [OF that]] w by simp
    have P: "post_row (qi_txn q) (accrue_book (qi_time q) (s\<lparr>rp_pending := p', rp_inbound := i', rp_next_seq := m'\<rparr>))
        = (r\<lparr>rp_pending := p', rp_inbound := i', rp_next_seq := m'\<rparr>, d)"
      unfolding accrue_over post_over p by simp
    show ?thesis
    proof (cases d)
      case None
      then show ?thesis using P p by (simp add: drain_item_def Let_def accrue_over)
    next
      case (Some reason)
      then show ?thesis
        using P p R w rw
        by (cases "reason = RejUnfunded"; cases "qi_kind q = ItemTxn"; cases "v = 0")
          (simp_all add: drain_item_def Let_def accrue_over retried_item_def not_less)
    qed
  qed
  note this [where i' = "rp_inbound s" and p' = "[]" and m' = "rp_next_seq s", folded e]
    this [where i' = i and p' = p and m' = m]
  then show ?thesis by (simp add: spawned_def Let_def pq_push_def)
qed

subsection \<open>Draining with later items waiting\<close>

definition waiting :: "queued_item list \<Rightarrow> (key \<Rightarrow> i64 list) \<Rightarrow> nat \<Rightarrow> replay \<Rightarrow> replay" where
  "waiting F i m s = s\<lparr>rp_pending := fold (pq_push queue_key) F (rp_pending s), rp_inbound := i, rp_next_seq := m\<rparr>"

definition later_items :: "i64 \<Rightarrow> queued_item list \<Rightarrow> bool" where
  "later_items b F = list_all (\<lambda>f. b \<le> qi_time f \<and> qi_seq f < 2 ^ 62) F"

lemma fold_push_later:
  "later_items b F \<Longrightarrow> qi_time q < b \<Longrightarrow>
     fold (pq_push queue_key) F (q # rest) = q # fold (pq_push queue_key) F rest"
  by (induction F arbitrary: rest) (auto simp: later_items_def pq_push_def queue_key_def less_eq_prod_def)

lemma push_fold_commute:
  "\<forall>f \<in> set F. queue_key f \<noteq> queue_key x \<Longrightarrow>
     pq_push queue_key x (fold (pq_push queue_key) F p) = fold (pq_push queue_key) F (pq_push queue_key x p)"
  by (induction F arbitrary: p) (simp_all add: pq_push_def insort_key_left_comm)

lemma set_fold_push: "set (fold (pq_push k) F p) = set F \<union> set p"
  by (induction F arbitrary: p) auto

lemma spawned_cases:
  "spawned q s = [] \<or> (\<exists>ts. spawned q s = [retried_item q ts (rp_retry_seq s)])"
  unfolding spawned_def
  by (cases rule: drain_item_cases [of q "s\<lparr>rp_pending := []\<rparr>"]) (auto simp: frame_simps pq_push_def)

lemma drain_item_spawned:
  "rp_pending (drain_item q s) = fold (pq_push queue_key) (spawned q s) (rp_pending s)"
proof -
  have "same_cures (qi_txn q) (rp_inbound s) s" by (simp add: same_cures_def)
  from arg_cong [OF drain_item_over [OF this, where p = "rp_pending s" and m = "rp_next_seq s"], of rp_pending] show ?thesis by simp
qed

text \<open>
  \<open>b0\<close> bounds what is pending from below; the index \<open>i\<close> has to answer like the one of \<open>s\<close>
  for rows of the instants that this drain handles.
\<close>

definition draining_from :: "i64 \<Rightarrow> replay \<Rightarrow> bool" where
  "draining_from b0 s =
     (replay_inv s \<and> inbound_sorted s \<and> delays_ok (rp_funding s) \<and>
      list_all (\<lambda>q. b0 \<le> qi_time q) (rp_pending s))"

lemma draining_from_item:
  assumes "draining_from b0 s" "rp_pending s = q # rest"
  shows "draining_from b0 (drain_item q (s\<lparr>rp_pending := rest\<rparr>))"
proof -
  let ?t = "s\<lparr>rp_pending := rest\<rparr>"
  let ?r = "fst (post_row (qi_txn q) (accrue_book (qi_time q) ?t))"
  have p: "replay_inv ?t" "item_ok s q" using assms replay_inv_pop by (auto simp: draining_from_def)
  then have q: "tx_time (qi_txn q) = qi_time q" "b0 \<le> qi_time q"
    using assms by (auto simp: item_ok_def draining_from_def)
  have "inbound_sorted ?r" "delays_ok (rp_funding ?r)"
    using assms(1) by (simp_all add: inbound_sorted_def draining_from_def frame_simps)
  then have "b0 \<le> qi_time x" if "x \<in> set (rp_pending (drain_item q ?t))" for x
    using that drain_item_pending [of q ?t] assms q retry_later [of ?r "qi_txn q" "qi_retry q"]
    by (fastforce simp: list_all_iff retried_item_def draining_from_def)
  then show ?thesis
    using assms p replay_inv_drain_item [OF p(1), of q]
    by (auto simp: list_all_iff frame_simps inbound_sorted_def draining_from_def)
qed

lemma drain_waiting:
  assumes "draining_from b0 s" "later_items b F"
    "\<And>t. b0 \<le> tx_time t \<Longrightarrow> tx_time t < b \<Longrightarrow> same_cures t i s"
  shows "drain_pending b (waiting F i m s) = waiting F i m (drain_pending b s)"
  using assms
proof (induction b s rule: drain_pending.induct)
  case (1 b s)
  have w: "rp_pending (waiting F i m s) = fold (pq_push queue_key) F (rp_pending s)" by (simp add: waiting_def)
  show ?case
  proof (cases "rp_pending s \<noteq> [] \<and> qi_time (pq_top (rp_pending s)) < b")
    case False
    have nb: "b \<le> qi_time q" if "q \<in> set (rp_pending (waiting F i m s))" for q
    proof (cases "q \<in> set F")
      case True
      then show ?thesis using 1(3) by (auto simp: later_items_def list_all_iff)
    next
      case nF: False
      then have q: "q \<in> set (rp_pending s)" using that w by (simp add: set_fold_push)
      then have "queue_key (pq_top (rp_pending s)) \<le> queue_key q"
        using replay_queue.top_least [of "rp_pending s" q] 1(2) by (simp add: draining_from_def replay_inv_def)
      then show ?thesis using False q by (cases "rp_pending s") (auto simp: queue_key_def less_eq_prod_def)
    qed
    have "\<not> (rp_pending (waiting F i m s) \<noteq> [] \<and> qi_time (pq_top (rp_pending (waiting F i m s))) < b)"
      using nb [OF hd_in_set] by (auto simp: pq_top_def)
    then show ?thesis
      by (simp only: drain_pending.simps [of b s] drain_pending.simps [of b "waiting F i m s"] False if_False)
  next
    case True
    then obtain q rest where q: "rp_pending s = q # rest" by (meson neq_Nil_conv)
    have qb: "qi_time q < b" using True by (simp add: q pq_defs)
    let ?t = "s\<lparr>rp_pending := rest\<rparr>"
    have wq: "rp_pending (waiting F i m s) = q # fold (pq_push queue_key) F rest"
      unfolding w q by (rule fold_push_later [OF 1(3) qb])
    have wr: "(waiting F i m s)\<lparr>rp_pending := fold (pq_push queue_key) F rest\<rparr>
        = ?t\<lparr>rp_pending := fold (pq_push queue_key) F rest, rp_inbound := i, rp_next_seq := m\<rparr>"
      by (simp add: waiting_def)
    have ok: "item_ok s q" using replay_inv_pop 1(2) q by (auto simp: draining_from_def)
    then have qt: "tx_time (qi_txn q) = qi_time q" by (simp add: item_ok_def)
    have "b0 \<le> qi_time q" using 1(2) q by (simp add: draining_from_def)
    then have "same_cures (qi_txn q) i s" using 1(4) qt qb by simp
    then have c: "same_cures (qi_txn q) i ?t" by (simp add: same_cures_def find_future_cure_def Let_def)
    have retry: "2 ^ 62 \<le> rp_retry_seq s" using 1(2) by (simp add: draining_from_def replay_inv_def)
    have fresh: "\<forall>f \<in> set F. qi_seq f \<noteq> rp_retry_seq s"
      using 1(3) retry by (force simp: later_items_def list_all_iff)
    have "fold (pq_push queue_key) (spawned q ?t) (fold (pq_push queue_key) F rest)
        = fold (pq_push queue_key) F (fold (pq_push queue_key) (spawned q ?t) rest)"
      using spawned_cases [of q ?t] fresh
      by (auto simp: queue_key_def retried_item_def intro!: push_fold_commute)
    then have step: "drain_item q ((waiting F i m s)\<lparr>rp_pending := fold (pq_push queue_key) F rest\<rparr>)
        = waiting F i m (drain_item q ?t)"
      by (simp only: wr drain_item_over [OF c])
        (simp add: waiting_def drain_item_spawned [of q ?t])
    have f: "same_cures t i (drain_item q ?t) = same_cures t i s" for t
      by (simp add: same_cures_def find_future_cure_def Let_def frame_simps)
    have IH: "drain_pending b (waiting F i m (drain_item q ?t)) = waiting F i m (drain_pending b (drain_item q ?t))"
      using 1(1) [OF True] draining_from_item [OF 1(2) q] 1(3,4) by (simp add: q pq_defs f)
    have "drain_pending b s = drain_pending b (drain_item q ?t)"
      using qb by (subst drain_pending.simps) (simp add: q pq_defs)
    moreover have "drain_pending b (waiting F i m s) = drain_pending b (waiting F i m (drain_item q ?t))"
      using qb by (subst drain_pending.simps) (simp add: wq pq_defs step)
    ultimately show ?thesis using IH by simp
  qed
qed

text \<open>Draining to one bound and then to a later one is draining to the later one.\<close>

lemma drain_twice: "b \<le> b' \<Longrightarrow> drain_pending b' (drain_pending b s) = drain_pending b' s"
proof (induction b s rule: drain_pending.induct)
  case (1 b s)
  show ?case
  proof (cases "rp_pending s \<noteq> [] \<and> qi_time (pq_top (rp_pending s)) < b")
    case True
    then have "rp_pending s \<noteq> [] \<and> qi_time (pq_top (rp_pending s)) < b'" using 1(2) by simp
    then show ?thesis
      using 1(1) [OF True 1(2)] by (simp only: drain_pending.simps [of b s] drain_pending.simps [of b' s] True simp_thms if_True)
  qed (simp only: drain_pending.simps [of b s] if_False)
qed

subsection \<open>The installed sink survives a drain\<close>

definition sink_set :: "replay \<Rightarrow> bool" where
  "sink_set s = (\<forall>l. rp_book s = Some l \<longrightarrow> lg_sink l = rp_emit s \<and> lg_emit l = rp_emit s)"

lemma sink_set_absorb:
  "sink_set s \<Longrightarrow> rp_book s = Some l \<Longrightarrow> lg_sink l' = lg_sink l \<Longrightarrow> lg_emit l' = lg_emit l \<Longrightarrow>
     sink_set (absorb l' evs s)"
  by (simp add: sink_set_def absorb_def frame_simps)

lemma accrue_sink:
  "lg_sink (fst (accrue_loc_interest_through ts l)) = lg_sink l"
  "lg_emit (fst (accrue_loc_interest_through ts l)) = lg_emit l"
proof -
  have d: "lg_sink (fst (debit_and_emit i x ch ts l)) = lg_sink l \<and> lg_emit (fst (debit_and_emit i x ch ts l)) = lg_emit l"
    for i x ch ts l by (simp add: same_setup_fields [OF same_setup_debit])
  have "lg_sink (fst (post_accruals as l)) = lg_sink l \<and> lg_emit (fst (post_accruals as l)) = lg_emit l" for "as" l
    by (induction "as" arbitrary: l) (simp_all add: split_beta Let_def d del: tag_of.simps)
  then show "lg_sink (fst (accrue_loc_interest_through ts l)) = lg_sink l"
    "lg_emit (fst (accrue_loc_interest_through ts l)) = lg_emit l"
    by (simp_all add: accrue_loc_interest_through_def Let_def split_beta)
qed

lemma sink_set_accrue: "sink_set s \<Longrightarrow> sink_set (accrue_book ts s)"
proof (cases "rp_book s")
  case (Some l)
  assume "sink_set s"
  moreover obtain l' evs where "accrue_loc_interest_through ts l = (l', evs)" by fastforce
  ultimately show ?thesis using Some accrue_sink [of ts l]
    by (auto simp: accrue_book_def intro: sink_set_absorb)
qed (simp add: accrue_book_def)

lemma sink_set_post: "sink_set s \<Longrightarrow> sink_set (fst (post_row t s))"
proof (cases "rp_book s")
  case (Some l)
  assume "sink_set s"
  moreover obtain l' d evs where "transfer_at (posting_of t) l = (l', d, evs)" by (metis prod.collapse)
  ultimately show ?thesis using Some same_setup_fields [OF same_setup_transfer_at [of l "posting_of t"]]
    by (auto simp: post_row_def intro: sink_set_absorb)
qed (simp add: post_row_def)

lemma sink_set_frame: "rp_book s' = rp_book s \<Longrightarrow> rp_emit s' = rp_emit s \<Longrightarrow> sink_set s' \<longleftrightarrow> sink_set s"
  by (simp add: sink_set_def)

lemma sink_set_drain:
  assumes "sink_set s"
  shows "sink_set (drain_pending b s)"
proof (induction rule: drain_induct [of sink_set])
  case (step s q rest)
  let ?s = "s\<lparr>rp_pending := rest\<rparr>"
  have a: "sink_set (accrue_book (qi_time q) ?s)"
    using step by (intro sink_set_accrue) (simp add: sink_set_def)
  have "sink_set (fst (post_row (qi_txn q) (accrue_book (qi_time q) ?s)))" by (rule sink_set_post [OF a])
  then show ?case
    using a by (cases rule: drain_item_cases [of q ?s]) (simp_all add: sink_set_def)
qed (rule assms)

lemma sink_set_install: "sink_set (install_sink s)"
  by (simp add: sink_set_def install_sink_def Let_def set_emit_liquidity_def set_liquidity_sink_def split: option.split)

lemma install_uninstall:
  assumes "sink_set s"
  shows "install_sink ((uninstall_sink s)\<lparr>rp_inbound := i\<rparr>) = s\<lparr>rp_inbound := i\<rparr>"
proof (cases "rp_book s")
  case (Some l)
  then have l: "l\<lparr>lg_emit := rp_emit s, lg_sink := rp_emit s\<rparr> = l"
    using assms by (simp add: sink_set_def)
  have "s\<lparr>rp_inbound := i, rp_book := Some l\<rparr> = s\<lparr>rp_inbound := i\<rparr>" using Some by simp
  then show ?thesis using Some
    by (simp add: install_sink_def uninstall_sink_def set_emit_liquidity_def set_liquidity_sink_def l)
qed (simp add: install_sink_def uninstall_sink_def)

subsection \<open>Two chunks and one\<close>

fun row_items :: "nat \<Rightarrow> txn list \<Rightarrow> queued_item list" where
  "row_items n [] = []"
| "row_items n (t # ts) =
     \<lparr>qi_time = tx_time t, qi_seq = n, qi_kind = ItemTxn, qi_retry = 0, qi_txn = t\<rparr> # row_items (Suc n) ts"

lemma fold_push_row:
  "fold push_row ts s = s\<lparr>rp_pending := fold (pq_push queue_key) (row_items (rp_next_seq s) ts) (rp_pending s),
     rp_next_seq := rp_next_seq s + length ts\<rparr>"
  by (induction ts arbitrary: s) (simp_all add: push_row_def)

lemma row_items_later:
  "\<forall>t \<in> set ts. b \<le> tx_time t \<Longrightarrow> n + length ts \<le> 2 ^ 62 \<Longrightarrow> later_items b (row_items n ts)"
  by (induction ts arbitrary: n) (auto simp: later_items_def simp del: numeral_power_eq_of_nat_cancel_iff)

lemma extend_chunk_open:
  "rp_book s \<noteq> None \<Longrightarrow> extend_chunk items la b s =
     (let u = drain_pending b (fold push_row items (install_sink (s\<lparr>rp_inbound := inbound_times (items @ la)\<rparr>)));
          u = (if b = int64_max \<and> items \<noteq> [] then accrue_book (tx_time (last items) + 1) u else u)
      in (uninstall_sink u)\<lparr>rp_inbound := (\<lambda>_. [])\<rparr>)"
proof -
  have "fold index_inbound la (fold index_inbound items (s\<lparr>rp_inbound := (\<lambda>_. [])\<rparr>))
      = s\<lparr>rp_inbound := inbound_times (items @ la)\<rparr>"
    by (rule replay.equality) (simp_all add: frame_simps fold_index_inbound fun_eq_iff)
  then show "rp_book s \<noteq> None \<Longrightarrow> ?thesis" by (simp only: extend_chunk_def Let_def if_False)
qed

lemma all_inbound: "x \<in> set (inbound_times ts k) \<Longrightarrow> \<exists>t \<in> set ts. x = tx_time t"
  by (auto simp: inbound_times_def)

lemma same_cures_sorted:
  assumes "\<And>k. sorted (rp_inbound s k)" "\<And>k. sorted (i k)"
    "let u = tx_time t + cure_hours_for (rp_funding s) (tx_channel t) * 3600 in
       first_cure (i (tx_source t)) (tx_time t) u = first_cure (rp_inbound s (tx_source t)) (tx_time t) u"
  shows "same_cures t i s"
  using assms(3) by (simp add: same_cures_def find_future_cure_sorted assms(1,2) Let_def)

lemma uninstall_over: "uninstall_sink (s\<lparr>rp_inbound := i\<rparr>) = (uninstall_sink s)\<lparr>rp_inbound := i\<rparr>"
  by (simp add: uninstall_sink_def split: option.split)

definition cure_horizon :: "funding \<Rightarrow> int" where
  "cure_horizon f = max (cure_card_hours f) (cure_debit_hours f) * 3600"

lemma cure_hours_bound: "cure_hours_for f ch * 3600 \<le> cure_horizon f"
  by (simp add: cure_hours_for_def cure_horizon_def)

lemma cure_hours_nonneg: "delays_ok f \<Longrightarrow> 0 \<le> cure_hours_for f ch * 3600"
  by (simp add: cure_hours_for_def delays_ok_def)

lemma sorted_map_takeWhile: "sorted (map f xs) \<Longrightarrow> sorted (map f (takeWhile P xs))"
  by (metis map_append sorted_append takeWhile_dropWhile_id)

text \<open>What both runs have drained before the first bound.\<close>

lemma chunk_first_phase:
  fixes xs ys ws :: "txn list"
  assumes inv: "replay_inv s" "rp_next_seq s + length xs + length ys \<le> 2 ^ 62" "delays_ok (rp_funding s)"
    and sorted: "sorted (map tx_time (xs @ ws))" "\<forall>t \<in> set ys. b \<le> tx_time t"
    and la: "la = takeWhile (\<lambda>t. tx_time t < l) ws" "b + cure_horizon (rp_funding s) \<le> l"
  defines "n \<equiv> rp_next_seq s + length xs"
    and "A \<equiv> drain_pending b (fold push_row xs (install_sink (s\<lparr>rp_inbound := inbound_times (xs @ la)\<rparr>)))"
  shows "drain_pending b (fold push_row (xs @ ys) (install_sink (s\<lparr>rp_inbound := inbound_times (xs @ ws)\<rparr>)))
      = waiting (row_items n ys) (inbound_times (xs @ ws)) (n + length ys) A"
proof -
  let ?I = "inbound_times (xs @ ws)" and ?J = "inbound_times (xs @ la)"
  let ?X = "fold push_row xs (install_sink (s\<lparr>rp_inbound := ?J\<rparr>))"
  have srt: "sorted (map tx_time (xs @ la))"
    using sorted sorted_map_takeWhile
    by (auto simp: sorted_append la(1) dest: set_takeWhileD)
  then have IJ: "sorted (?I k)" "sorted (?J k)" for k
    using sorted by (simp_all add: inbound_times_sorted del: inbound_times_append)
  have ins: "(install_sink (s\<lparr>rp_inbound := j\<rparr>)) = (install_sink s)\<lparr>rp_inbound := j\<rparr>" for j
    by (simp add: install_sink_def split: option.split)
  have n: "rp_next_seq ?X = n" by (simp add: fold_push_seq frame_simps n_def)
  have start: "fold push_row (xs @ ys) (install_sink (s\<lparr>rp_inbound := ?I\<rparr>))
      = waiting (row_items n ys) ?I (n + length ys) ?X"
    unfolding fold_append comp_def fold_push_row [of ys] waiting_def n [symmetric]
    by (simp add: fold_push_row [of xs] ins frame_simps)
  have X: "replay_inv ?X"
  proof (rule fold_push_inv)
    show "replay_inv (install_sink (s\<lparr>rp_inbound := ?J\<rparr>))"
      by (rule replay_inv_frame [THEN iffD2, OF _ _ _ inv(1)]) (simp_all add: frame_simps)
  qed (use inv(2) in \<open>simp add: frame_simps\<close>)
  obtain b0 where b0: "list_all (\<lambda>q. b0 \<le> qi_time q) (rp_pending ?X)"
  proof
    show "list_all (\<lambda>q. Min (set (map qi_time (rp_pending ?X))) \<le> qi_time q) (rp_pending ?X)"
      by (auto simp: list_all_iff)
  qed
  have d: "draining_from b0 ?X"
    using X IJ b0 inv(3) by (simp add: draining_from_def inbound_sorted_def frame_simps del: inbound_times_append)
  have "same_cures t ?I ?X" if t: "tx_time t < b" for t
  proof (rule same_cures_sorted)
    let ?h = "cure_hours_for (rp_funding ?X) (tx_channel t) * 3600" and ?k = "tx_source t"
    have h: "0 \<le> ?h" "tx_time t + ?h < l"
      using cure_hours_bound [of "rp_funding s" "tx_channel t"] cure_hours_nonneg [OF inv(3)] la(2) t
      by (auto simp: frame_simps)
    have "inbound_times la ?k = takeWhile (\<lambda>x. x < l) (inbound_times ws ?k)"
      using sorted by (simp add: la(1) inbound_times_takeWhile sorted_append)
    then show "let u = tx_time t + ?h in first_cure (?I ?k) (tx_time t) u = first_cure (rp_inbound ?X ?k) (tx_time t) u"
      using first_cure_ahead [of "inbound_times xs ?k" "inbound_times ws ?k" "tx_time t + ?h" l "tx_time t"] IJ(1) [of ?k] h
      by (simp add: Let_def frame_simps)
  qed (use IJ in \<open>simp_all add: frame_simps del: inbound_times_append\<close>)
  moreover have "later_items b (row_items n ys)"
    using sorted(2) inv(2) by (intro row_items_later) (simp_all add: n_def)
  ultimately show ?thesis unfolding start A_def by (intro drain_waiting [OF d]) auto
qed

lemma accrue_waiting:
  "accrue_book ts (waiting [] i m s) = waiting [] i m (accrue_book ts s)"
  using accrue_over [where ts = ts and s = s and p = "rp_pending s" and i = i and m = m] by (simp add: waiting_def frame_simps)

lemma uninstall_waiting:
  "rp_next_seq u = m \<Longrightarrow> (uninstall_sink (waiting [] i m u))\<lparr>rp_inbound := j\<rparr> = (uninstall_sink u)\<lparr>rp_inbound := j\<rparr>"
  by (rule replay.equality) (simp_all add: waiting_def uninstall_sink_def split: option.split)

lemma book_absorb: "rp_book (absorb l evs s) = Some l"
  by (simp add: absorb_def frame_simps)

lemma book_accrue: "rp_book s \<noteq> None \<Longrightarrow> rp_book (accrue_book ts s) \<noteq> None"
  by (auto simp: accrue_book_def book_absorb split: prod.split)

lemma book_post: "rp_book s \<noteq> None \<Longrightarrow> rp_book (fst (post_row t s)) \<noteq> None"
  by (auto simp: post_row_def book_absorb split: prod.split)

lemma book_drain:
  assumes "rp_book s \<noteq> None"
  shows "rp_book (drain_pending b s) \<noteq> None"
proof (induction rule: drain_induct [of "\<lambda>v. rp_book v \<noteq> None"])
  case (step t q rst)
  let ?t = "t\<lparr>rp_pending := rst\<rparr>"
  have "rp_book (accrue_book (qi_time q) ?t) \<noteq> None" using step by (intro book_accrue) simp
  then show ?case
    using book_post [of "accrue_book (qi_time q) ?t" "qi_txn q"]
    by (cases rule: drain_item_cases [of q ?t]) auto
qed (rule assms)

text \<open>The state a chunk leaves behind, before the sink is taken out again.\<close>

definition chunk_drained :: "txn list \<Rightarrow> txn list \<Rightarrow> i64 \<Rightarrow> replay \<Rightarrow> replay" where
  "chunk_drained items la b s =
     drain_pending b (fold push_row items (install_sink (s\<lparr>rp_inbound := inbound_times (items @ la)\<rparr>)))"

lemma chunk_drained_facts:
  assumes "replay_inv s" "rp_next_seq s + length items \<le> 2 ^ 62" "rp_book s \<noteq> None"
  shows "replay_inv (chunk_drained items la b s)"
    "list_all (\<lambda>q. b \<le> qi_time q) (rp_pending (chunk_drained items la b s))"
    "rp_next_seq (chunk_drained items la b s) = rp_next_seq s + length items"
    "rp_book (chunk_drained items la b s) \<noteq> None" "sink_set (chunk_drained items la b s)"
    "rp_funding (chunk_drained items la b s) = rp_funding s"
proof -
  let ?X = "install_sink (s\<lparr>rp_inbound := inbound_times (items @ la)\<rparr>)"
  have "replay_inv ?X" by (rule replay_inv_frame [THEN iffD2, OF _ _ _ assms(1)]) (simp_all add: frame_simps)
  then have p: "replay_inv (fold push_row items ?X)"
    using assms(2) by (intro fold_push_inv) (simp_all add: frame_simps)
  show "replay_inv (chunk_drained items la b s)" unfolding chunk_drained_def by (rule replay_inv_drain [OF p])
  show "list_all (\<lambda>q. b \<le> qi_time q) (rp_pending (chunk_drained items la b s))"
    using drain_leaves_later [OF p] by (auto simp: chunk_drained_def list_all_iff)
  show "rp_next_seq (chunk_drained items la b s) = rp_next_seq s + length items"
    "rp_funding (chunk_drained items la b s) = rp_funding s"
    by (simp_all add: chunk_drained_def frame_simps fold_push_seq)
  have "rp_book (fold push_row items ?X) \<noteq> None"
    using assms(3) by (auto simp: frame_simps install_sink_def Let_def)
  then show "rp_book (chunk_drained items la b s) \<noteq> None" unfolding chunk_drained_def by (rule book_drain)
  show "sink_set (chunk_drained items la b s)" unfolding chunk_drained_def
    by (intro sink_set_drain sink_set_frame [THEN iffD2, OF _ _ sink_set_install [of "s\<lparr>rp_inbound := inbound_times (items @ la)\<rparr>"]])
      (simp_all add: frame_simps)
qed

text \<open>Past the first bound the index of the first chunk is never consulted.\<close>

lemma chunk_second_phase:
  assumes A: "replay_inv A" "list_all (\<lambda>q. b \<le> qi_time q) (rp_pending A)" "rp_next_seq A + length ys \<le> 2 ^ 62"
    "delays_ok (rp_funding A)"
    and sorted: "sorted (map tx_time (xs @ ys @ rest))" "\<forall>t \<in> set xs. tx_time t < b" "\<forall>t \<in> set ys. b \<le> tx_time t"
  defines "I \<equiv> inbound_times (xs @ ys @ rest)"
    and "S \<equiv> waiting (row_items (rp_next_seq A) ys) (inbound_times (ys @ rest)) (rp_next_seq A + length ys) A"
  shows "drain_pending b' (waiting [] I (rp_next_seq A + length ys) S) = waiting [] I (rp_next_seq A + length ys) (drain_pending b' S)"
proof (rule drain_waiting)
  let ?J = "inbound_times (ys @ rest)"
  have srt: "sorted (?J k)" "sorted (I k)" for k
    using sorted(1) unfolding I_def
    by (auto intro!: inbound_times_sorted simp: sorted_append simp del: inbound_times_append)
  have "S = (fold push_row ys A)\<lparr>rp_inbound := ?J\<rparr>" by (simp add: S_def waiting_def fold_push_row [of ys])
  moreover have "replay_inv (fold push_row ys A)" using A by (intro fold_push_inv)
  ultimately have inv: "replay_inv S" using replay_inv_frame [of S "fold push_row ys A"] by simp
  have "later_items b (row_items (rp_next_seq A) ys)" using sorted(3) A(3) by (intro row_items_later) simp_all
  then have "list_all (\<lambda>q. b \<le> qi_time q) (rp_pending S)"
    using A(2) by (auto simp: S_def waiting_def set_fold_push list_all_iff later_items_def)
  then show "draining_from b S"
    using inv srt A(4) by (simp add: draining_from_def inbound_sorted_def S_def waiting_def del: inbound_times_append)
  show "same_cures t I S" if t: "b \<le> tx_time t" for t
  proof (rule same_cures_sorted)
    have i: "rp_inbound S k = ?J k" for k by (simp add: S_def waiting_def)
    have "\<forall>x \<in> set (inbound_times xs k). x \<le> tx_time t" for k using sorted(2) t all_inbound by fastforce
    then show "let u = tx_time t + cure_hours_for (rp_funding S) (tx_channel t) * 3600 in
        first_cure (I (tx_source t)) (tx_time t) u = first_cure (rp_inbound S (tx_source t)) (tx_time t) u"
      by (simp add: i I_def Let_def first_cure_past)
    show "sorted (rp_inbound S k)" for k unfolding i by (rule srt)
  qed (rule srt)
qed (simp add: later_items_def)

lemma extend_chunk_split:
  assumes inv: "replay_inv s" "rp_next_seq s + length xs + length ys \<le> 2 ^ 62" "delays_ok (rp_funding s)"
    and sorted: "sorted (map tx_time (xs @ ys @ rest))" "\<forall>t \<in> set xs. tx_time t < b" "\<forall>t \<in> set (ys @ rest). b \<le> tx_time t"
    and la: "la = takeWhile (\<lambda>t. tx_time t < l) (ys @ rest)" "b + cure_horizon (rp_funding s) \<le> l"
    and bound: "b \<le> b'" "b \<noteq> int64_max" "b' = int64_max \<Longrightarrow> ys \<noteq> []"
    and book: "rp_book s \<noteq> None"
  shows "extend_chunk ys rest b' (extend_chunk xs la b s) = extend_chunk (xs @ ys) rest b' s"
proof -
  let ?I = "inbound_times (xs @ ys @ rest)"
  define A where "A = chunk_drained xs la b s"
  define n where "n = rp_next_seq s + length xs"
  define S where "S = waiting (row_items n ys) (inbound_times (ys @ rest)) (n + length ys) A"
  have "rp_next_seq s + length xs \<le> 2 ^ 62" using inv(2) by linarith
  note A = chunk_drained_facts [OF inv(1) this book, where la = la and b = b, folded A_def]
  have An: "rp_next_seq A = n" using A(3) by (simp add: n_def)
  have first: "drain_pending b (fold push_row (xs @ ys) (install_sink (s\<lparr>rp_inbound := ?I\<rparr>))) = waiting [] ?I (n + length ys) S"
    using chunk_first_phase [of s xs ys "ys @ rest" b la l] inv sorted la
    by (simp add: n_def A_def chunk_drained_def S_def waiting_def)
  have c1: "extend_chunk xs la b s = (uninstall_sink A)\<lparr>rp_inbound := (\<lambda>_. [])\<rparr>"
    using bound(2) by (simp add: extend_chunk_open [OF book] A_def chunk_drained_def Let_def)
  have b1: "rp_book (extend_chunk xs la b s) \<noteq> None" using A(4) by (auto simp: c1 uninstall_sink_def)
  have second: "fold push_row ys (install_sink ((extend_chunk xs la b s)\<lparr>rp_inbound := inbound_times (ys @ rest)\<rparr>)) = S"
    using install_uninstall [OF A(5), of "inbound_times (ys @ rest)"]
    by (simp add: c1 fold_push_row [of ys] An S_def waiting_def)
  have later: "drain_pending b' (waiting [] ?I (n + length ys) S) = waiting [] ?I (n + length ys) (drain_pending b' S)"
    using chunk_second_phase [OF A(1,2), of ys xs rest b'] inv(2,3) A(6) sorted by (simp add: An S_def n_def)
  have drains: "drain_pending b' (fold push_row (xs @ ys) (install_sink (s\<lparr>rp_inbound := ?I\<rparr>)))
      = waiting [] ?I (n + length ys) (drain_pending b' S)"
    unfolding later [symmetric] first [symmetric] by (rule drain_twice [OF bound(1), symmetric])
  have Sn: "rp_next_seq (drain_pending b' S) = n + length ys" by (simp add: frame_simps S_def waiting_def)
  have L: "extend_chunk ys rest b' (extend_chunk xs la b s) =
      (uninstall_sink (if b' = int64_max \<and> ys \<noteq> [] then accrue_book (tx_time (last ys) + 1) (drain_pending b' S)
        else drain_pending b' S))\<lparr>rp_inbound := (\<lambda>_. [])\<rparr>"
    by (subst extend_chunk_open [OF b1]) (simp only: second Let_def)
  have R: "extend_chunk (xs @ ys) rest b' s =
      (uninstall_sink (if b' = int64_max \<and> xs @ ys \<noteq> []
        then accrue_book (tx_time (last (xs @ ys)) + 1) (waiting [] ?I (n + length ys) (drain_pending b' S))
        else waiting [] ?I (n + length ys) (drain_pending b' S)))\<lparr>rp_inbound := (\<lambda>_. [])\<rparr>"
    by (subst extend_chunk_open [OF book]) (simp only: append_assoc drains Let_def)
  show ?thesis
    using bound(3) Sn unfolding L R
    by (cases "b' = int64_max") (simp_all add: accrue_waiting uninstall_waiting frame_simps
        del: inbound_times_append)
qed

end
