(* ===== verification/Text.thy ===== *)
theory Text
  imports Prelude "HOL-Library.Char_ord"
begin

text \<open>
  Decimal text: what \<open>printf\<close> and \<open>std::to_chars\<close> write for an integer, zero padding, and what
  \<open>std::stoi\<close> reads. A \<open>std::string\<close> is a list of characters.
\<close>

definition digit_char :: "nat \<Rightarrow> char" where
  "digit_char n = char_of (48 + n)"

definition is_digit :: "char \<Rightarrow> bool" where
  "is_digit c = (48 \<le> (of_char c :: nat) \<and> (of_char c :: nat) \<le> 57)"

definition digit_value :: "char \<Rightarrow> nat" where
  "digit_value c = of_char c - 48"

fun digits :: "nat \<Rightarrow> string" where
  "digits n = (if n < 10 then [digit_char n] else digits (n div 10) @ [digit_char (n mod 10)])"

declare digits.simps [simp del]

definition pad_zeros :: "nat \<Rightarrow> string \<Rightarrow> string" where
  "pad_zeros w s = replicate (w - length s) (digit_char 0) @ s"

text \<open>\<open>%0wd\<close>: the sign counts towards the width.\<close>

definition print_padded :: "nat \<Rightarrow> int \<Rightarrow> string" where
  "print_padded w n =
     (if 0 \<le> n then pad_zeros w (digits (nat n)) else CHR ''-'' # pad_zeros (w - 1) (digits (nat (- n))))"

definition digits_value :: "string \<Rightarrow> nat" where
  "digits_value s = foldl (\<lambda>acc c. acc * 10 + digit_value c) 0 s"

definition is_space :: "char \<Rightarrow> bool" where
  "is_space c = ((of_char c :: nat) \<in> {9, 10, 11, 12, 13, 32})"

text \<open>\<open>std::stoi\<close>: white space, a sign, then digits up to the first other character.\<close>

definition stoi :: "string \<Rightarrow> int result" where
  "stoi s =
     (let s = dropWhile is_space s;
          (negative, s) = (case s of [] \<Rightarrow> (False, [])
             | c # rest \<Rightarrow> if c = CHR ''-'' then (True, rest) else if c = CHR ''+'' then (False, rest) else (False, s));
          ds = takeWhile is_digit s
      in if ds = [] then Inl (InvalidArgument ''stoi'')
         else Inr (if negative then - int (digits_value ds) else int (digits_value ds)))"

lemma digit_char_facts:
  assumes "n < 10"
  shows "is_digit (digit_char n)" "digit_value (digit_char n) = n" "\<not> is_space (digit_char n)"
    "digit_char n \<noteq> CHR ''-''" "digit_char n \<noteq> CHR ''+''"
proof -
  have c: "(of_char (digit_char n) :: nat) = 48 + n" using assms by (simp add: digit_char_def)
  show "is_digit (digit_char n)" "digit_value (digit_char n) = n" "\<not> is_space (digit_char n)"
    using assms by (simp_all add: is_digit_def digit_value_def is_space_def c)
  have "(of_char CHR ''-'' :: nat) = 45" "(of_char CHR ''+'' :: nat) = 43" by simp_all
  then show "digit_char n \<noteq> CHR ''-''" "digit_char n \<noteq> CHR ''+''" using c by auto
qed

lemma digits_nonempty [simp]: "digits n \<noteq> []"
  by (subst digits.simps) simp

lemma digits_are_digits: "c \<in> set (digits n) \<Longrightarrow> is_digit c \<and> \<not> is_space c \<and> c \<noteq> CHR ''-'' \<and> c \<noteq> CHR ''+''"
proof (induction n rule: digits.induct)
  case (1 n)
  then show ?case using digit_char_facts [of n] digit_char_facts [of "n mod 10"]
    by (cases "n < 10") (auto simp: digits.simps [of n])
qed

lemma digits_value_snoc [simp]: "digits_value (s @ [c]) = digits_value s * 10 + digit_value c"
  by (simp add: digits_value_def)

lemma digits_value_digits [simp]: "digits_value (digits n) = n"
proof (induction n rule: digits.induct)
  case (1 n)
  show ?case
  proof (cases "n < 10")
    case True
    then show ?thesis using digit_char_facts [of n] by (subst digits.simps) (simp add: digits_value_def)
  next
    case False
    have "digits_value (digits n) = digits_value (digits (n div 10)) * 10 + n mod 10"
      using False digit_char_facts(2) [of "n mod 10"] by (subst digits.simps) simp
    then show ?thesis using 1 [OF False] by simp
  qed
qed

lemma length_digits: "n < 10 ^ k \<Longrightarrow> 0 < k \<Longrightarrow> length (digits n) \<le> k"
proof (induction n arbitrary: k rule: digits.induct)
  case (1 n)
  show ?case
  proof (cases "n < 10")
    case True
    then show ?thesis using 1(3) by (subst digits.simps) simp
  next
    case False
    have "1 < k"
    proof (rule ccontr)
      assume "\<not> 1 < k"
      then have "k = 1" using 1(3) by simp
      then show False using 1(2) False by simp
    qed
    then obtain j where k: "k = Suc j" "0 < j" by (cases k) auto
    have "n div 10 < 10 ^ j" using 1(2) k by (simp add: div_less_iff_less_mult)
    then show ?thesis using 1(1) [OF False, of j] k False by (subst digits.simps) simp
  qed
qed

lemma pad_zeros_value [simp]: "digits_value (pad_zeros w s) = digits_value s"
proof -
  have "foldl (\<lambda>acc c. acc * 10 + digit_value c) 0 (replicate n (digit_char 0)) = 0" for n
    by (induction n) (simp_all add: digit_char_facts)
  then show ?thesis by (simp add: digits_value_def pad_zeros_def)
qed

lemma pad_zeros_digits: "c \<in> set (pad_zeros w (digits n)) \<Longrightarrow> is_digit c \<and> \<not> is_space c \<and> c \<noteq> CHR ''-'' \<and> c \<noteq> CHR ''+''"
  using digits_are_digits digit_char_facts [of 0] by (auto simp: pad_zeros_def)

lemma length_pad_zeros: "length s \<le> w \<Longrightarrow> length (pad_zeros w s) = w"
  by (simp add: pad_zeros_def)

lemma stoi_digits:
  assumes "s \<noteq> []" "\<And>c. c \<in> set s \<Longrightarrow> is_digit c \<and> \<not> is_space c \<and> c \<noteq> CHR ''-'' \<and> c \<noteq> CHR ''+''"
  shows "stoi s = Inr (int (digits_value s))"
proof -
  obtain c r where s: "s = c # r" using assms(1) by (cases s) auto
  have t: "takeWhile is_digit s = s" using assms(2) by (simp add: takeWhile_eq_all_conv)
  have "dropWhile is_space s = s" using assms(2) [of c] s by simp
  then have "stoi s = (if takeWhile is_digit s = [] then Inl (InvalidArgument ''stoi'')
      else Inr (int (digits_value (takeWhile is_digit s))))"
    using assms(2) [of c] unfolding stoi_def Let_def by (simp add: s)
  then show ?thesis using t assms(1) by simp
qed

lemma stoi_padded: "stoi (pad_zeros w (digits n)) = Inr (int n)"
proof -
  have "pad_zeros w (digits n) \<noteq> []" by (simp add: pad_zeros_def)
  from stoi_digits [OF this] pad_zeros_digits show ?thesis by simp
qed

end
