(* ===== verification/Calendar.thy ===== *)
theory Calendar
  imports Text
begin

text \<open>
  \<open>primitives/time/calendar\<close> and \<open>window\<close>: instants are epoch seconds, days are counted from
  1970-01-01 in the proleptic Gregorian calendar. \<open>sys_days\<close> and \<open>civil\<close> say what
  \<open>std::chrono\<close> converts between \<open>year_month_day\<close> and \<open>sys_days\<close>; the program's own functions
  follow in the order of \<open>calendar.cpp\<close>.
\<close>

subsection \<open>std::chrono\<close>

type_synonym time_point = i64

record calendar_date =
  cd_year :: int
  cd_month :: int
  cd_day :: int

record time_of_day =
  td_hour :: int
  td_minute :: int
  td_second :: int

definition is_leap :: "int \<Rightarrow> bool" where
  "is_leap y = (y mod 4 = 0 \<and> (y mod 100 \<noteq> 0 \<or> y mod 400 = 0))"

definition days_in_month :: "int \<Rightarrow> int \<Rightarrow> int" where
  "days_in_month y m =
     (if m = 2 then (if is_leap y then 29 else 28)
      else if m = 4 \<or> m = 6 \<or> m = 9 \<or> m = 11 then 30 else 31)"

definition days_before_year :: "int \<Rightarrow> int" where
  "days_before_year y = 365 * (y - 1) + (y - 1) div 4 - (y - 1) div 100 + (y - 1) div 400"

fun month_sum :: "int \<Rightarrow> nat \<Rightarrow> int" where
  "month_sum y 0 = 0"
| "month_sum y (Suc m) = month_sum y m + days_in_month y (int (Suc m))"

definition days_before_month :: "int \<Rightarrow> int \<Rightarrow> int" where
  "days_before_month y m = month_sum y (nat (m - 1))"

definition sys_days :: "int \<Rightarrow> int \<Rightarrow> int \<Rightarrow> int" where
  "sys_days y m d = days_before_year y + days_before_month y m + d - 1 - 719162"

definition ymd_ok :: "int \<Rightarrow> int \<Rightarrow> int \<Rightarrow> bool" where
  "ymd_ok y m d =
     (- 32767 \<le> y \<and> y \<le> 32767 \<and> 1 \<le> m \<and> m \<le> 12 \<and> 1 \<le> d \<and> d \<le> days_in_month y m)"

lemma div_pred:
  assumes "(0::int) < k"
  shows "y div k = (y - 1) div k + (if y mod k = 0 then 1 else 0)"
proof -
  let ?q = "y div k" and ?r = "y mod k"
  have y: "y = k * ?q + ?r" by simp
  have r: "0 \<le> ?r" "?r < k" using assms by simp_all
  show ?thesis
  proof (cases "?r = 0")
    case True
    have "(y - 1) div k = ?q - 1"
      using assms True y by (intro int_div_pos_eq [where r = "k - 1"]) (auto simp: algebra_simps)
    then show ?thesis using True by simp
  next
    case False
    have "(y - 1) div k = ?q"
      using r False y by (intro int_div_pos_eq [where r = "?r - 1"]) auto
    then show ?thesis using False by simp
  qed
qed

lemma leap_count:
  fixes a b c y :: int
  assumes "a = a' + (if p then 1 else 0)" "b = b' + (if q then 1 else 0)" "c = c' + (if r then 1 else 0)"
    "q \<Longrightarrow> p" "r \<Longrightarrow> q"
  shows "365 * y + a - b + c = 365 * (y - 1) + a' - b' + c' + (if p \<and> (\<not> q \<or> r) then 366 else 365)"
  using assms by auto

lemma days_before_year_Suc:
  "days_before_year (y + 1) = days_before_year y + (if is_leap y then 366 else 365)"
proof -
  have "y mod 4 = 0" if "y mod 100 = 0"
    using that dvd_trans [of 4 100 y] by (simp add: mod_eq_0_iff_dvd)
  moreover have "y mod 100 = 0" if "y mod 400 = 0"
    using that dvd_trans [of 100 400 y] by (simp add: mod_eq_0_iff_dvd)
  ultimately have "365 * y + y div 4 - y div 100 + y div 400 =
      365 * (y - 1) + (y - 1) div 4 - (y - 1) div 100 + (y - 1) div 400 +
      (if y mod 4 = 0 \<and> (y mod 100 \<noteq> 0 \<or> y mod 400 = 0) then 366 else 365)"
    by (intro leap_count [OF div_pred div_pred div_pred]) simp_all
  then show ?thesis by (simp only: days_before_year_def is_leap_def add_diff_cancel)
qed

text \<open>The year of a day, climbing from an underestimate.\<close>

definition year_start :: "int \<Rightarrow> int" where
  "year_start y = sys_days y 1 1"

lemma year_start_Suc: "year_start (y + 1) = year_start y + (if is_leap y then 366 else 365)"
  by (simp add: year_start_def sys_days_def days_before_month_def days_before_year_Suc)

function year_from :: "int \<Rightarrow> int \<Rightarrow> int" where
  "year_from y d = (if year_start (y + 1) \<le> d then year_from (y + 1) d else y)"
  by pat_completeness auto
termination
  by (relation "measure (\<lambda>(y, d). nat (d + 1 - year_start y))")
    (auto simp: year_start_Suc split: if_splits)

declare year_from.simps [simp del]

definition civil_year :: "int \<Rightarrow> int" where
  "civil_year d = year_from (if 0 \<le> d then 1970 + d div 366 else 1970 + d div 365 - 1) d"

definition civil_month :: "int \<Rightarrow> int \<Rightarrow> int" where
  "civil_month y doy = last (filter (\<lambda>m. days_before_month y m \<le> doy) [1..12])"

definition civil :: "int \<Rightarrow> calendar_date" where
  "civil d =
     (let y = civil_year d; doy = d - year_start y; m = civil_month y doy
      in \<lparr>cd_year = y, cd_month = m, cd_day = doy - days_before_month y m + 1\<rparr>)"

subsection \<open>Days and dates are the same thing\<close>

lemma year_start_1970: "year_start 1970 = 0"
  by (simp add: year_start_def sys_days_def days_before_year_def days_before_month_def)

lemma year_start_add_le: "0 \<le> k \<Longrightarrow> year_start y + 365 * k \<le> year_start (y + k) \<and> year_start (y + k) \<le> year_start y + 366 * k"
proof (induction k rule: int_ge_induct)
  case (step k)
  then show ?case using year_start_Suc [of "y + k"] by (auto simp: algebra_simps)
qed simp

lemma year_start_mono: "y < y' \<Longrightarrow> year_start y < year_start y'"
  using year_start_add_le [of "y' - y" y] by simp

lemma year_from_correct:
  "year_start y \<le> d \<Longrightarrow> year_start (year_from y d) \<le> d \<and> d < year_start (year_from y d + 1)"
proof (induction y d rule: year_from.induct)
  case (1 y d)
  then show ?case by (cases "year_start (y + 1) \<le> d") (subst (1 2) year_from.simps; simp)+
qed

lemma year_start_below: "year_start (if 0 \<le> d then 1970 + d div 366 else 1970 + d div 365 - 1) \<le> d"
proof (cases "0 \<le> d")
  case True
  have "366 * (d div 366) \<le> d" by simp
  moreover have "0 \<le> d div 366" using True by (simp add: pos_imp_zdiv_nonneg_iff)
  ultimately show ?thesis using True year_start_add_le [of "d div 366" 1970] year_start_1970
    by (smt (verit))
next
  case False
  let ?k = "1 - d div 365"
  have k: "0 \<le> ?k" using False by simp
  have "- d \<le> 365 * ?k" using False by simp
  then show ?thesis
    using False year_start_add_le [OF k, of "1970 - ?k"] year_start_1970 by (simp add: algebra_simps)
qed

lemma civil_year_bounds: "year_start (civil_year d) \<le> d" "d < year_start (civil_year d + 1)"
  using year_from_correct [OF year_start_below [of d]] by (simp_all add: civil_year_def)

lemma civil_year_eq:
  assumes "year_start y \<le> d" "d < year_start (y + 1)"
  shows "civil_year d = y"
proof -
  have "\<not> civil_year d < y"
    using year_start_mono [of "civil_year d + 1" y] civil_year_bounds [of d] assms
    by (cases "civil_year d + 1 = y") auto
  moreover have "\<not> y < civil_year d"
    using year_start_mono [of "y + 1" "civil_year d"] civil_year_bounds [of d] assms
    by (cases "y + 1 = civil_year d") auto
  ultimately show ?thesis by simp
qed

lemma days_in_month_bounds: "28 \<le> days_in_month y m" "days_in_month y m \<le> 31"
  by (simp_all add: days_in_month_def)

lemma month_table:
  "days_before_month y 1 = 0" "days_before_month y 2 = 31"
  "days_before_month y 3 = 59 + (if is_leap y then 1 else 0)"
  "days_before_month y 4 = 90 + (if is_leap y then 1 else 0)"
  "days_before_month y 5 = 120 + (if is_leap y then 1 else 0)"
  "days_before_month y 6 = 151 + (if is_leap y then 1 else 0)"
  "days_before_month y 7 = 181 + (if is_leap y then 1 else 0)"
  "days_before_month y 8 = 212 + (if is_leap y then 1 else 0)"
  "days_before_month y 9 = 243 + (if is_leap y then 1 else 0)"
  "days_before_month y 10 = 273 + (if is_leap y then 1 else 0)"
  "days_before_month y 11 = 304 + (if is_leap y then 1 else 0)"
  "days_before_month y 12 = 334 + (if is_leap y then 1 else 0)"
  by (simp_all add: days_before_month_def numeral_eq_Suc days_in_month_def)

lemma days_before_month_Suc: "1 \<le> m \<Longrightarrow> days_before_month y (m + 1) = days_before_month y m + days_in_month y m"
proof -
  assume "1 \<le> m"
  then have "nat (m + 1 - 1) = Suc (nat (m - 1))" "int (Suc (nat (m - 1))) = m" by auto
  then show ?thesis by (simp only: days_before_month_def month_sum.simps)
qed

lemma twelve_cases: "1 \<le> m \<Longrightarrow> m \<le> 12 \<Longrightarrow>
    m = 1 \<or> m = 2 \<or> m = 3 \<or> m = 4 \<or> m = 5 \<or> m = 6 \<or> m = 7 \<or> m = 8 \<or> m = 9 \<or> m = 10 \<or> m = 11 \<or> m = (12::int)"
  by arith

lemma upto_1_12: "[1..12] = [1, 2, 3, 4, 5, 6, 7, 8, 9, 10, 11, 12::int]"
  by (simp add: upto_rec1)

lemma civil_month_eq:
  assumes "1 \<le> m" "m \<le> 12" "days_before_month y m \<le> doy" "doy < days_before_month y m + days_in_month y m"
  shows "civil_month y doy = m"
  using twelve_cases [OF assms(1,2)] assms(3,4)
  by (elim disjE; cases "is_leap y") (simp_all add: civil_month_def upto_1_12 month_table days_in_month_def)

lemma year_length: "year_start (y + 1) = year_start y + days_before_month y 12 + days_in_month y 12"
  by (simp add: year_start_Suc month_table days_in_month_def)

lemma sys_days_start: "sys_days y m d = year_start y + days_before_month y m + d - 1"
  by (simp add: year_start_def sys_days_def days_before_month_def)

lemma month_in_year:
  assumes "1 \<le> m" "m \<le> 12"
  shows "0 \<le> days_before_month y m"
    "days_before_month y m + days_in_month y m \<le> days_before_month y 12 + days_in_month y 12"
  using twelve_cases [OF assms] by (elim disjE; simp add: month_table days_in_month_def)+

lemma civil_sys_days:
  assumes "1 \<le> m" "m \<le> 12" "1 \<le> d" "d \<le> days_in_month y m"
  shows "civil (sys_days y m d) = \<lparr>cd_year = y, cd_month = m, cd_day = d\<rparr>"
proof -
  note b = month_in_year [OF assms(1,2), of y]
  have y: "civil_year (sys_days y m d) = y"
    using b assms by (intro civil_year_eq) (simp_all add: sys_days_start year_length)
  have "civil_month y (sys_days y m d - year_start y) = m"
    using assms by (intro civil_month_eq) (simp_all add: sys_days_start)
  then show ?thesis by (simp add: civil_def y Let_def) (simp add: sys_days_start)
qed

lemma month_exists:
  assumes "0 \<le> doy" "doy < days_before_month y 12 + days_in_month y 12"
  shows "\<exists>m. 1 \<le> m \<and> m \<le> 12 \<and> days_before_month y m \<le> doy \<and> doy < days_before_month y m + days_in_month y m"
proof (rule ccontr)
  assume n: "\<not> ?thesis"
  have "days_before_month y (1 + int k) \<le> doy" if "k \<le> 11" for k
    using that
  proof (induction k)
    case (Suc k)
    have "days_before_month y (1 + int k) \<le> doy" "1 \<le> 1 + int k" "1 + int k \<le> 12"
      using Suc by simp_all
    then have "\<not> doy < days_before_month y (1 + int k) + days_in_month y (1 + int k)"
      using n by blast
    then show ?case using days_before_month_Suc [of "1 + int k" y] by (simp add: add.commute)
  qed (use assms month_table in simp)
  from this [of 11] show False using n assms by auto
qed

lemma civil_correct:
  "1 \<le> cd_month (civil n) \<and> cd_month (civil n) \<le> 12 \<and> 1 \<le> cd_day (civil n) \<and>
   cd_day (civil n) \<le> days_in_month (cd_year (civil n)) (cd_month (civil n)) \<and>
   sys_days (cd_year (civil n)) (cd_month (civil n)) (cd_day (civil n)) = n"
proof -
  let ?y = "civil_year n" and ?doy = "n - year_start (civil_year n)"
  obtain m where m: "1 \<le> m" "m \<le> 12" "days_before_month ?y m \<le> ?doy"
      "?doy < days_before_month ?y m + days_in_month ?y m"
    using month_exists [of ?doy ?y] civil_year_bounds [of n] by (auto simp: year_length)
  have "n = sys_days ?y m (?doy - days_before_month ?y m + 1)" by (simp add: sys_days_start)
  then have "civil n = \<lparr>cd_year = ?y, cd_month = m, cd_day = ?doy - days_before_month ?y m + 1\<rparr>"
    using civil_sys_days [of m "?doy - days_before_month ?y m + 1" ?y] m by simp
  then show ?thesis using m by (simp add: sys_days_start)
qed

subsection \<open>The functions of calendar.cpp\<close>

definition midnight :: time_of_day where
  "midnight = \<lparr>td_hour = 0, td_minute = 0, td_second = 0\<rparr>"

text \<open>\<open>std::chrono::month\<close> and \<open>day\<close> keep an \<open>unsigned char\<close>.\<close>

definition make_time :: "calendar_date \<Rightarrow> time_of_day \<Rightarrow> time_point result" where
  "make_time date tod =
     (let y = cd_year date; m = cd_month date mod 256; d = cd_day date mod 256
      in if \<not> ymd_ok y m d then Inl (InvalidArgument ''invalid calendar date'')
         else Inr (sys_days y m d * seconds_per_day + td_hour tod * 3600 + td_minute tod * 60 + td_second tod))"

definition substr :: "nat \<Rightarrow> nat \<Rightarrow> string \<Rightarrow> string" where
  "substr pos n s = take n (drop pos s)"

definition parse_ymd :: "string \<Rightarrow> time_point result" where
  "parse_ymd s =
     (if length s \<noteq> 10 \<or> s ! 4 \<noteq> CHR ''-'' \<or> s ! 7 \<noteq> CHR ''-''
      then Inl (InvalidArgument ''date must be YYYY-MM-DD'')
      else case stoi (substr 0 4 s) of Inl e \<Rightarrow> Inl e
      | Inr y \<Rightarrow> (case stoi (substr 5 2 s) of Inl e \<Rightarrow> Inl e
      | Inr m \<Rightarrow> (case stoi (substr 8 2 s) of Inl e \<Rightarrow> Inl e
      | Inr d \<Rightarrow> make_time \<lparr>cd_year = y, cd_month = m mod 2 ^ 32, cd_day = d mod 2 ^ 32\<rparr> midnight)))"

definition to_calendar_date :: "time_point \<Rightarrow> calendar_date" where
  "to_calendar_date tp = civil (tp div seconds_per_day)"

definition to_time_of_day :: "time_point \<Rightarrow> time_of_day" where
  "to_time_of_day tp =
     (let tod = tp - tp div seconds_per_day * seconds_per_day;
          h = tod div 3600; m = (tod - h * 3600) div 60
      in \<lparr>td_hour = h, td_minute = m, td_second = tod - h * 3600 - m * 60\<rparr>)"

text \<open>Monday is 0; 1970-01-01 was a Thursday.\<close>

definition weekday_of_day :: "int \<Rightarrow> int" where
  "weekday_of_day n = (n + 3) mod 7"

definition weekday :: "time_point \<Rightarrow> int" where
  "weekday tp = weekday_of_day (tp div seconds_per_day)"

definition is_weekend :: "time_point \<Rightarrow> bool" where
  "is_weekend tp = (5 \<le> weekday tp)"

definition month_start :: "time_point \<Rightarrow> time_point result" where
  "month_start tp = make_time ((to_calendar_date tp)\<lparr>cd_day := 1\<rparr>) midnight"

definition add_months :: "time_point \<Rightarrow> int \<Rightarrow> time_point result" where
  "add_months tp months =
     (let date = to_calendar_date tp; tod = tp - tp div seconds_per_day * seconds_per_day;
          count = cd_year date * 12 + (cd_month date - 1) + months;
          year = count div 12; month = count mod 12 + 1
      in if \<not> ymd_ok year month 1 then Inl (InvalidArgument ''addMonths: invalid shifted month'')
         else
           let day = min (cd_day date) (days_in_month year month)
           in case make_time \<lparr>cd_year = year, cd_month = month, cd_day = day\<rparr> midnight of
                Inl e \<Rightarrow> Inl e | Inr t \<Rightarrow> Inr (t + tod))"

definition add_days :: "time_point \<Rightarrow> int \<Rightarrow> time_point" where
  "add_days tp days = tp + days * seconds_per_day"

definition format_timestamp :: "time_point \<Rightarrow> string" where
  "format_timestamp tp =
     (let cal = to_calendar_date tp; tod = to_time_of_day tp
      in print_padded 4 (cd_year cal) @ ''-'' @ print_padded 2 (cd_month cal) @ ''-'' @
         print_padded 2 (cd_day cal) @ '' '' @ print_padded 2 (td_hour tod) @ '':'' @
         print_padded 2 (td_minute tod) @ '':'' @ print_padded 2 (td_second tod))"

subsection \<open>window.hpp\<close>

record window =
  wn_start :: time_point
  wn_days :: int

definition window_end :: "window \<Rightarrow> time_point" where
  "window_end w = wn_start w + wn_days w * seconds_per_day"

record half_open =
  ho_start :: time_point
  ho_end :: time_point

definition clip_half_open ::
    "time_point \<Rightarrow> time_point \<Rightarrow> time_point \<Rightarrow> time_point option \<Rightarrow> half_open option" where
  "clip_half_open w_start w_end active_start active_end =
     (if w_end \<le> w_start then None
      else if (case active_end of None \<Rightarrow> False | Some a \<Rightarrow> a \<le> active_start) then None
      else
        let s = max w_start active_start;
            e = (case active_end of None \<Rightarrow> w_end | Some a \<Rightarrow> min w_end a)
        in if e \<le> s then None else Some \<lparr>ho_start = s, ho_end = e\<rparr>)"

subsection \<open>Dates of instants\<close>

lemmas civil_facts = civil_correct [THEN conjunct1] civil_correct [THEN conjunct2, THEN conjunct1]
  civil_correct [THEN conjunct2, THEN conjunct2, THEN conjunct1]
  civil_correct [THEN conjunct2, THEN conjunct2, THEN conjunct2, THEN conjunct1]
  civil_correct [THEN conjunct2, THEN conjunct2, THEN conjunct2, THEN conjunct2]

definition valid_date :: "calendar_date \<Rightarrow> bool" where
  "valid_date c = ymd_ok (cd_year c) (cd_month c) (cd_day c)"

definition valid_tod :: "time_of_day \<Rightarrow> bool" where
  "valid_tod t = (0 \<le> td_hour t \<and> td_hour t < 24 \<and> 0 \<le> td_minute t \<and> td_minute t < 60 \<and>
     0 \<le> td_second t \<and> td_second t < 60)"

lemma ymd_ok_small: "ymd_ok y m d \<Longrightarrow> m mod 256 = m \<and> d mod 256 = d"
  using days_in_month_bounds(2) [of y m] by (auto simp: ymd_ok_def)

lemma make_time_valid:
  "valid_date c \<Longrightarrow> make_time c t = Inr (sys_days (cd_year c) (cd_month c) (cd_day c) * seconds_per_day +
     td_hour t * 3600 + td_minute t * 60 + td_second t)"
  using ymd_ok_small [of "cd_year c" "cd_month c" "cd_day c"]
  by (simp add: make_time_def valid_date_def Let_def)

lemma make_time_midnight:
  "ymd_ok y m d \<Longrightarrow> make_time \<lparr>cd_year = y, cd_month = m, cd_day = d\<rparr> midnight = Inr (sys_days y m d * seconds_per_day)"
  by (subst make_time_valid) (simp_all add: valid_date_def midnight_def)

lemma day_of_seconds: "0 \<le> r \<Longrightarrow> r < seconds_per_day \<Longrightarrow> (n * seconds_per_day + r) div seconds_per_day = n"
  by (simp add: seconds_per_day_def)

lemma to_calendar_date_make_time:
  assumes "valid_date c" "valid_tod t" "make_time c t = Inr tp"
  shows "to_calendar_date tp = c" "to_time_of_day tp = t"
proof -
  let ?r = "td_hour t * 3600 + td_minute t * 60 + td_second t"
  have r: "0 \<le> ?r" "?r < seconds_per_day" using assms(2) by (auto simp: valid_tod_def seconds_per_day_def)
  have tp: "tp = sys_days (cd_year c) (cd_month c) (cd_day c) * seconds_per_day + ?r"
    using make_time_valid [OF assms(1), of t] assms(3) by simp
  have d: "tp div seconds_per_day = sys_days (cd_year c) (cd_month c) (cd_day c)"
    unfolding tp by (rule day_of_seconds [OF r])
  show "to_calendar_date tp = c"
    using assms(1) by (simp add: to_calendar_date_def d civil_sys_days valid_date_def ymd_ok_def)
  have tod: "tp - tp div seconds_per_day * seconds_per_day = ?r" by (simp add: d) (simp add: tp)
  have h: "?r div 3600 = td_hour t"
    using assms(2) by (intro int_div_pos_eq [where r = "td_minute t * 60 + td_second t"]) (auto simp: valid_tod_def)
  have m: "(?r - td_hour t * 3600) div 60 = td_minute t"
    using assms(2) by (intro int_div_pos_eq [where r = "td_second t"]) (auto simp: valid_tod_def)
  show "to_time_of_day tp = t"
    unfolding to_time_of_day_def tod Let_def h m by simp
qed

lemma make_time_to_calendar_date:
  assumes "\<bar>cd_year (to_calendar_date tp)\<bar> \<le> 32767"
  shows "make_time (to_calendar_date tp) (to_time_of_day tp) = Inr tp"
proof -
  let ?c = "to_calendar_date tp"
  have "valid_date ?c"
    using assms civil_facts [of "tp div seconds_per_day"]
    by (auto simp: valid_date_def ymd_ok_def to_calendar_date_def abs_le_iff)
  then have "make_time ?c (to_time_of_day tp) =
      Inr (tp div seconds_per_day * seconds_per_day + (tp - tp div seconds_per_day * seconds_per_day))"
    using civil_facts(5) [of "tp div seconds_per_day"]
    by (simp add: make_time_valid to_calendar_date_def to_time_of_day_def Let_def)
  then show ?thesis by simp
qed

end
