(* ===== verification/Months.thy ===== *)
theory Months
  imports Calendar
begin

text \<open>
  Month arithmetic: what \<open>addMonths\<close> returns, and the loop of \<open>monthStarts\<close>, whose termination
  rests on it. A month is counted as \<open>12 * year + month - 1\<close>.
\<close>

definition month_count :: "time_point \<Rightarrow> int" where
  "month_count tp = (let c = to_calendar_date tp in cd_year c * 12 + (cd_month c - 1))"

definition first_of_month :: "int \<Rightarrow> time_point" where
  "first_of_month n = sys_days (n div 12) (n mod 12 + 1) 1 * seconds_per_day"

definition year_in_range :: "int \<Rightarrow> bool" where
  "year_in_range y = (- 32767 \<le> y \<and> y \<le> 32767)"

lemma day_seconds_pos [simp]: "0 < seconds_per_day" "0 \<le> seconds_per_day" "seconds_per_day \<noteq> 0"
  by (simp_all add: seconds_per_day_def)

lemma month_range: "1 \<le> n mod 12 + 1" "n mod 12 + 1 \<le> (12::int)"
  using pos_mod_bound [of 12 n] pos_mod_sign [of 12 n] by linarith+

lemma add_months_eq:
  "add_months tp k =
     (let n = month_count tp + k; y = n div 12; m = n mod 12 + 1 in
      if year_in_range y
      then Inr (sys_days y m (min (cd_day (to_calendar_date tp)) (days_in_month y m)) * seconds_per_day
                + tp mod seconds_per_day)
      else Inl (InvalidArgument ''addMonths: invalid shifted month''))"
proof -
  let ?n = "month_count tp + k" and ?c = "to_calendar_date tp"
  let ?y = "?n div 12" and ?m = "?n mod 12 + 1"
  let ?d = "min (cd_day ?c) (days_in_month ?y ?m)"
  have d: "1 \<le> ?d" "?d \<le> days_in_month ?y ?m"
    using civil_facts(3) [of "tp div seconds_per_day"] days_in_month_bounds [of ?y ?m]
    by (auto simp: to_calendar_date_def)
  have ok1: "ymd_ok ?y ?m 1 \<longleftrightarrow> year_in_range ?y"
    using month_range [of ?n] days_in_month_bounds [of ?y ?m] by (auto simp: ymd_ok_def year_in_range_def)
  have okd: "ymd_ok ?y ?m ?d" if "year_in_range ?y"
    using that month_range [of ?n] d by (auto simp: ymd_ok_def year_in_range_def)
  have tod: "tp - tp div seconds_per_day * seconds_per_day = tp mod seconds_per_day"
    by (rule minus_div_mult_eq_mod)
  show ?thesis
    unfolding add_months_def Let_def tod month_count_def [symmetric, unfolded Let_def] ok1
    by (simp add: make_time_midnight [OF okd])
qed

lemma month_count_day: "month_count tp div 12 = cd_year (to_calendar_date tp)"
  "month_count tp mod 12 + 1 = cd_month (to_calendar_date tp)"
proof -
  let ?c = "to_calendar_date tp"
  have m: "0 \<le> cd_month ?c - 1" "cd_month ?c - 1 < 12"
    using civil_facts [of "tp div seconds_per_day"] by (auto simp: to_calendar_date_def)
  show "month_count tp div 12 = cd_year ?c"
    unfolding month_count_def Let_def using m by (intro int_div_pos_eq [where r = "cd_month ?c - 1"]) auto
  show "month_count tp mod 12 + 1 = cd_month ?c"
    unfolding month_count_def Let_def using m by simp
qed

text \<open>Which month an instant is in.\<close>

lemma sys_days_next_month:
  assumes "1 \<le> m" "m \<le> 12"
  shows "sys_days y m 1 + days_in_month y m = (if m = 12 then sys_days (y + 1) 1 1 else sys_days y (m + 1) 1)"
proof (cases "m = 12")
  case True
  then show ?thesis using year_length [of y] by (simp add: sys_days_start month_table)
next
  case False
  then show ?thesis using days_before_month_Suc [OF assms(1), of y] by (simp add: sys_days_start)
qed

lemma succ_month:
  fixes n :: int
  shows "(n + 1) div 12 = (if n mod 12 = 11 then n div 12 + 1 else n div 12)"
    "(n + 1) mod 12 = (if n mod 12 = 11 then 0 else n mod 12 + 1)"
proof -
  have *: "(12 * q + r + 1) div 12 = (if r = 11 then q + 1 else q) \<and>
      (12 * q + r + 1) mod 12 = (if r = 11 then 0 else r + 1)" if "0 \<le> r" "r < 12" for q r :: int
    using that int_div_pos_eq [of "12 * q + r + 1" 12 "q + 1" 0] int_mod_pos_eq [of "12 * q + r + 1" 12 "q + 1" 0]
      int_div_pos_eq [of "12 * q + r + 1" 12 q "r + 1"] int_mod_pos_eq [of "12 * q + r + 1" 12 q "r + 1"]
    by auto
  show "(n + 1) div 12 = (if n mod 12 = 11 then n div 12 + 1 else n div 12)"
    "(n + 1) mod 12 = (if n mod 12 = 11 then 0 else n mod 12 + 1)"
    using * [of "n mod 12" "n div 12"] unfolding mult_div_mod_eq by simp_all
qed

lemma first_of_month_Suc:
  "first_of_month (n + 1) = first_of_month n + days_in_month (n div 12) (n mod 12 + 1) * seconds_per_day"
  using sys_days_next_month [OF month_range, of "n div 12" n]
  unfolding first_of_month_def distrib_right [symmetric]
  by (cases "n mod 12 = 11") (simp_all add: succ_month)

lemma first_of_month_less: "m < n \<Longrightarrow> first_of_month m < first_of_month n"
proof (induction n rule: int_gr_induct)
  case base
  show ?case using first_of_month_Suc [of m] days_in_month_bounds(1) [of "m div 12" "m mod 12 + 1"]
    by (simp add: seconds_per_day_def)
next
  case (step n)
  then show ?case using first_of_month_Suc [of n] days_in_month_bounds(1) [of "n div 12" "n mod 12 + 1"]
    by (simp add: seconds_per_day_def)
qed

lemma first_of_month_le_iff: "first_of_month m \<le> first_of_month n \<longleftrightarrow> m \<le> n"
  using first_of_month_less by (metis linorder_not_le nle_le)

lemma month_bounds: "first_of_month (month_count tp) \<le> tp" "tp < first_of_month (month_count tp + 1)"
proof -
  let ?c = "to_calendar_date tp" and ?n = "tp div seconds_per_day"
  note f = civil_facts [of ?n, folded to_calendar_date_def]
  have n: "?n = sys_days (cd_year ?c) (cd_month ?c) 1 + cd_day ?c - 1" using f(5) by (simp add: sys_days_start)
  have t: "tp = ?n * seconds_per_day + tp mod seconds_per_day" "0 \<le> tp mod seconds_per_day"
    "tp mod seconds_per_day < seconds_per_day" by simp_all
  have s: "first_of_month (month_count tp) = sys_days (cd_year ?c) (cd_month ?c) 1 * seconds_per_day"
    by (simp add: first_of_month_def month_count_day)
  have e: "first_of_month (month_count tp + 1) = first_of_month (month_count tp) +
      days_in_month (cd_year ?c) (cd_month ?c) * seconds_per_day"
    by (simp add: first_of_month_Suc month_count_day)
  have "sys_days (cd_year ?c) (cd_month ?c) 1 * seconds_per_day \<le> ?n * seconds_per_day"
    using n f(3) by (intro mult_right_mono) auto
  then show "first_of_month (month_count tp) \<le> tp" unfolding s using t by linarith
  have "(?n + 1) * seconds_per_day \<le> (sys_days (cd_year ?c) (cd_month ?c) 1 + days_in_month (cd_year ?c) (cd_month ?c)) * seconds_per_day"
    using n f(4) by (intro mult_right_mono) auto
  moreover have "tp < (?n + 1) * seconds_per_day" unfolding distrib_right using t by linarith
  ultimately show "tp < first_of_month (month_count tp + 1)" unfolding e s distrib_right by linarith
qed

lemma month_count_eq:
  assumes "first_of_month n \<le> tp" "tp < first_of_month (n + 1)"
  shows "month_count tp = n"
  using assms month_bounds [of tp] first_of_month_le_iff [of n "month_count tp"]
    first_of_month_le_iff [of "n + 1" "month_count tp"] first_of_month_le_iff [of "month_count tp + 1" n]
  by linarith

lemma month_count_first [simp]: "month_count (first_of_month n) = n"
  by (rule month_count_eq) (simp_all add: first_of_month_less)

lemma month_start_eq:
  assumes "year_in_range (cd_year (to_calendar_date tp))"
  shows "month_start tp = Inr (first_of_month (month_count tp))"
proof -
  let ?c = "(to_calendar_date tp)\<lparr>cd_day := 1\<rparr>"
  have "valid_date ?c"
    using assms civil_facts [of "tp div seconds_per_day"] days_in_month_bounds(1)
    by (auto simp: valid_date_def ymd_ok_def year_in_range_def to_calendar_date_def intro: order_trans [of 1 28])
  then show ?thesis
    by (simp add: month_start_def make_time_valid midnight_def first_of_month_def month_count_day)
qed

lemma day_of_first: "to_calendar_date (first_of_month n) =
    \<lparr>cd_year = n div 12, cd_month = n mod 12 + 1, cd_day = 1\<rparr>"
  using civil_sys_days [OF month_range, of 1 "n div 12" n] days_in_month_bounds(1) [of "n div 12" "n mod 12 + 1"]
  by (simp add: to_calendar_date_def first_of_month_def)

lemma add_months_first:
  "add_months (first_of_month n) k =
     (if year_in_range ((n + k) div 12) then Inr (first_of_month (n + k))
      else Inl (InvalidArgument ''addMonths: invalid shifted month''))"
proof -
  have "min 1 (days_in_month y m) = 1" for y m using days_in_month_bounds(1) [of y m] by simp
  then show ?thesis
    by (simp add: add_months_eq Let_def day_of_first) (simp add: first_of_month_def)
qed

text \<open>The next month is later, so the loop below ends.\<close>

lemma add_months_month:
  assumes "add_months tp k = Inr t"
  shows "month_count t = month_count tp + k" "t mod seconds_per_day = tp mod seconds_per_day"
    "cd_day (to_calendar_date t) = min (cd_day (to_calendar_date tp))
       (days_in_month (cd_year (to_calendar_date t)) (cd_month (to_calendar_date t)))"
proof -
  let ?n = "month_count tp + k" and ?c = "to_calendar_date tp"
  let ?y = "?n div 12" and ?m = "?n mod 12 + 1"
  let ?d = "min (cd_day ?c) (days_in_month ?y ?m)"
  have t: "t = sys_days ?y ?m ?d * seconds_per_day + tp mod seconds_per_day"
    using assms by (simp add: add_months_eq Let_def split: if_splits)
  have d: "1 \<le> ?d" "?d \<le> days_in_month ?y ?m"
    using civil_facts(3) [of "tp div seconds_per_day"] days_in_month_bounds [of ?y ?m]
    by (auto simp: to_calendar_date_def)
  have "t div seconds_per_day = sys_days ?y ?m ?d" unfolding t by (rule day_of_seconds) simp_all
  then have c: "to_calendar_date t = \<lparr>cd_year = ?y, cd_month = ?m, cd_day = ?d\<rparr>"
    using civil_sys_days [OF month_range d] by (simp add: to_calendar_date_def)
  show "month_count t = ?n" using div_mult_mod_eq [of ?n 12] by (simp add: month_count_def [of t] c)
  show "t mod seconds_per_day = tp mod seconds_per_day" by (simp add: t)
  show "cd_day (to_calendar_date t) = min (cd_day ?c) (days_in_month (cd_year (to_calendar_date t)) (cd_month (to_calendar_date t)))"
    by (simp add: c)
qed

lemma add_months_later: "add_months tp 1 = Inr t \<Longrightarrow> tp < t"
  using add_months_month(1) [of tp 1 t] month_bounds(2) [of tp] month_bounds(1) [of t] by simp

function month_starts_from :: "time_point \<Rightarrow> time_point \<Rightarrow> time_point list result" where
  "month_starts_from current end_excl =
     (if current < end_excl then
        (case add_months current 1 of
           Inl e \<Rightarrow> Inl e
         | Inr following \<Rightarrow> (case month_starts_from following end_excl of
             Inl e \<Rightarrow> Inl e | Inr anchors \<Rightarrow> Inr (current # anchors)))
      else Inr [])"
  by pat_completeness auto
termination
  by (relation "measure (\<lambda>(c, e). nat (e - c))") (auto dest: add_months_later)

declare month_starts_from.simps [simp del]

definition month_starts :: "time_point \<Rightarrow> time_point \<Rightarrow> time_point list result" where
  "month_starts start end_excl =
     (case month_start start of Inl e \<Rightarrow> Inl e | Inr current \<Rightarrow> month_starts_from current end_excl)"

lemma month_starts_from_eq:
  "month_starts_from (first_of_month n) e = Inr anchors \<Longrightarrow>
     \<exists>k. anchors = map (\<lambda>i. first_of_month (n + int i)) [0..<k] \<and>
         e \<le> first_of_month (n + int k) \<and> (\<forall>i < k. first_of_month (n + int i) < e)"
proof (induction "first_of_month n" e arbitrary: n anchors rule: month_starts_from.induct)
  case (1 e n)
  show ?case
  proof (cases "first_of_month n < e")
    case False
    then show ?thesis using 1(2) by (intro exI [of _ 0]) (auto simp: month_starts_from.simps [of "first_of_month n"])
  next
    case True
    obtain rest where a: "add_months (first_of_month n) 1 = Inr (first_of_month (n + 1))"
        "month_starts_from (first_of_month (n + 1)) e = Inr rest" "anchors = first_of_month n # rest"
      using 1(2) True by (auto simp: month_starts_from.simps [of "first_of_month n"] add_months_first split: if_splits sum.splits)
    obtain k where k: "rest = map (\<lambda>i. first_of_month (n + 1 + int i)) [0..<k]"
      "e \<le> first_of_month (n + 1 + int k)" "\<forall>i < k. first_of_month (n + 1 + int i) < e"
      using 1(1) [OF True a(1) a(2)] by blast
    have "anchors = map (\<lambda>i. first_of_month (n + int i)) [0..<Suc k]"
      unfolding upt_conv_Cons [OF zero_less_Suc] map_Suc_upt [symmetric] by (simp add: a(3) k(1) comp_def add.assoc)
    moreover have "\<forall>i < Suc k. first_of_month (n + int i) < e"
    proof (intro allI impI)
      fix i assume "i < Suc k"
      then show "first_of_month (n + int i) < e" using k(3) True by (cases i) (auto simp: add.assoc)
    qed
    ultimately show ?thesis using k(2) by (intro exI [of _ "Suc k"]) (simp add: add.assoc)
  qed
qed

lemma month_starts_from_total:
  assumes "year_in_range (month_count e div 12 + 1)" "year_in_range (n div 12)"
  shows "\<exists>anchors. month_starts_from (first_of_month n) e = Inr anchors"
  using assms
proof (induction "first_of_month n" e arbitrary: n rule: month_starts_from.induct)
  case (1 e n)
  show ?case
  proof (cases "first_of_month n < e")
    case True
    have "n \<le> month_count e"
      using True month_bounds(2) [of e] first_of_month_le_iff [of "month_count e + 1" n] by linarith
    then have "(n + 1) div 12 \<le> month_count e div 12 + 1" "n div 12 \<le> (n + 1) div 12" by simp_all
    then have y: "year_in_range ((n + 1) div 12)" using 1(2,3) by (auto simp: year_in_range_def)
    then have a: "add_months (first_of_month n) 1 = Inr (first_of_month (n + 1))" by (simp add: add_months_first)
    then show ?thesis using 1(1) [OF True a 1(2) y] True
      by (auto simp: month_starts_from.simps [of "first_of_month n"])
  qed (simp add: month_starts_from.simps [of "first_of_month n"])
qed

end
