(* ===== verification/Validate.thy ===== *)
theory Validate
  imports Text F64
begin

text \<open>
  \<open>primitives/validate/checks.hpp\<close>: checks that throw one message, and the report that runs
  several and throws all their messages at once. \<open>validate::Error\<close> is a
  \<open>std::invalid_argument\<close>; its source location is not modelled. The templates take a number
  type as a dictionary; how \<open>"%.17g"\<close> renders a double is a parameter of the dictionary.
\<close>

record 'a numeric =
  nm_less :: "'a \<Rightarrow> 'a \<Rightarrow> bool"
  nm_le :: "'a \<Rightarrow> 'a \<Rightarrow> bool"
  nm_zero :: 'a
  nm_fmt :: "'a \<Rightarrow> string"

definition to_string_int :: "int \<Rightarrow> string" where
  "to_string_int n = print_padded 1 n"

definition int_numeric :: "int numeric" where
  "int_numeric = \<lparr>nm_less = (<), nm_le = (\<le>), nm_zero = 0, nm_fmt = to_string_int\<rparr>"

definition double_numeric :: "(f64 \<Rightarrow> string) \<Rightarrow> f64 numeric" where
  "double_numeric fmt17 = \<lparr>nm_less = flt, nm_le = fle, nm_zero = Fin 0, nm_fmt = fmt17\<rparr>"

definition raise_message :: "string \<Rightarrow> string \<Rightarrow> string \<Rightarrow> string \<Rightarrow> string" where
  "raise_message field predicate bound actual =
     field @ '' must '' @ predicate @ (if bound \<noteq> [] then '' '' @ bound else []) @ ''; got '' @ actual"

definition raise_check :: "string \<Rightarrow> string \<Rightarrow> string \<Rightarrow> string \<Rightarrow> unit result" where
  "raise_check field predicate bound actual =
     Inl (InvalidArgument (raise_message field predicate bound actual))"

definition check_gt :: "'a numeric \<Rightarrow> string \<Rightarrow> 'a \<Rightarrow> 'a \<Rightarrow> unit result" where
  "check_gt N field v lo =
     (if \<not> nm_less N lo v then raise_check field ''be >'' (nm_fmt N lo) (nm_fmt N v) else Inr ())"

definition check_ge :: "'a numeric \<Rightarrow> string \<Rightarrow> 'a \<Rightarrow> 'a \<Rightarrow> unit result" where
  "check_ge N field v lo =
     (if \<not> nm_le N lo v then raise_check field ''be >='' (nm_fmt N lo) (nm_fmt N v) else Inr ())"

definition check_lt :: "'a numeric \<Rightarrow> string \<Rightarrow> 'a \<Rightarrow> 'a \<Rightarrow> unit result" where
  "check_lt N field v hi =
     (if \<not> nm_less N v hi then raise_check field ''be <'' (nm_fmt N hi) (nm_fmt N v) else Inr ())"

definition check_between :: "'a numeric \<Rightarrow> string \<Rightarrow> 'a \<Rightarrow> 'a \<Rightarrow> 'a \<Rightarrow> unit result" where
  "check_between N field v lo hi =
     (if \<not> (nm_le N lo v \<and> nm_le N v hi)
      then raise_check field ''lie in'' (''['' @ nm_fmt N lo @ '', '' @ nm_fmt N hi @ '']'') (nm_fmt N v)
      else Inr ())"

definition check_finite :: "(f64 \<Rightarrow> string) \<Rightarrow> string \<Rightarrow> f64 \<Rightarrow> unit result" where
  "check_finite fmt17 field v =
     (if \<not> is_finite v then raise_check field ''be finite'' [] (fmt17 v) else Inr ())"

definition check_positive :: "'a numeric \<Rightarrow> string \<Rightarrow> 'a \<Rightarrow> unit result" where
  "check_positive N field v = check_gt N field v (nm_zero N)"

definition check_non_negative :: "'a numeric \<Rightarrow> string \<Rightarrow> 'a \<Rightarrow> unit result" where
  "check_non_negative N field v = check_ge N field v (nm_zero N)"

definition check_unit :: "(f64 \<Rightarrow> string) \<Rightarrow> string \<Rightarrow> f64 \<Rightarrow> unit result" where
  "check_unit fmt17 field v = check_between (double_numeric fmt17) field v (Fin 0) (Fin 1)"

text \<open>\<open>Report\<close>: the messages of the checks that failed, in order.\<close>

type_synonym report = "string list"

definition report_check :: "unit result \<Rightarrow> report \<Rightarrow> report" where
  "report_check outcome r =
     (case outcome of Inl (InvalidArgument m) \<Rightarrow> r @ [m] | _ \<Rightarrow> r)"

definition report_ok :: "report \<Rightarrow> bool" where
  "report_ok r = (r = [])"

definition newline :: char where
  "newline = char_of (10 :: nat)"

definition throw_if_failed :: "report \<Rightarrow> unit result" where
  "throw_if_failed r =
     (if report_ok r then Inr ()
      else Inl (InvalidArgument (butlast (concat (map (\<lambda>m. m @ [newline]) r)))))"

lemma report_check_clean:
  "out = Inr () \<or> (\<exists>m. out = Inl (InvalidArgument m)) \<Longrightarrow> report_check out r = [] \<longleftrightarrow> r = [] \<and> out = Inr ()"
  by (auto simp: report_check_def)

lemma throw_if_failed_ok: "throw_if_failed r = Inr () \<longleftrightarrow> r = []"
  by (simp add: throw_if_failed_def report_ok_def)

lemma int_checks [simp]:
  "check_positive int_numeric f v = Inr () \<longleftrightarrow> 0 < v"
  "check_between int_numeric f v lo hi = Inr () \<longleftrightarrow> lo \<le> v \<and> v \<le> hi"
  by (simp_all add: check_positive_def check_gt_def check_between_def raise_check_def int_numeric_def)

lemma check_outcomes:
  "check_positive N f v = Inr () \<or> (\<exists>m. check_positive N f v = Inl (InvalidArgument m))"
  "check_between N f v lo hi = Inr () \<or> (\<exists>m. check_between N f v lo hi = Inl (InvalidArgument m))"
  by (simp_all add: check_positive_def check_gt_def check_between_def raise_check_def)

end
