(* ===== verification/Schedule.thy ===== *)
theory Schedule
  imports Months Validate
begin

text \<open>
  \<open>pipeline/chunk/schedule\<close>: a run window cut at month boundaries into spans, each with a
  lookahead past its end. The unbounded \<open>views::iota\<close> is a \<open>partial_function\<close>: the lemmas show
  that it ends for a positive chunk length.
\<close>

record strategy =
  months_per_chunk :: int
  lookahead_days :: int

definition strategy_validate :: "strategy \<Rightarrow> report \<Rightarrow> report" where
  "strategy_validate s r =
     (let r = report_check (check_positive int_numeric ''chunk.monthsPerChunk'' (months_per_chunk s)) r
      in report_check (check_between int_numeric ''chunk.lookaheadDays'' (lookahead_days s) 0 60) r)"

record span =
  sp_index :: nat
  sp_active :: window
  sp_lookahead :: time_point
  sp_first_day :: int

definition span_first :: "span \<Rightarrow> bool" where
  "span_first s = (sp_index s = 0)"

definition span_lookahead :: "span \<Rightarrow> half_open" where
  "span_lookahead s = \<lparr>ho_start = window_end (sp_active s), ho_end = sp_lookahead s\<rparr>"

text \<open>\<open>duration_cast\<close> to days rounds towards zero.\<close>

definition cast_days :: "int \<Rightarrow> int" where
  "cast_days secs = (if 0 \<le> secs then secs div seconds_per_day else - (- secs div seconds_per_day))"

definition span_lookahead_days :: "span \<Rightarrow> int" where
  "span_lookahead_days s = cast_days (sp_lookahead s - window_end (sp_active s))"

record schedule =
  sc_window :: window
  sc_spans :: "span list"

definition schedule_is_last :: "schedule \<Rightarrow> span \<Rightarrow> bool" where
  "schedule_is_last sc s = (sp_index s + 1 = length (sc_spans sc))"

definition whole_days_between :: "time_point \<Rightarrow> time_point \<Rightarrow> int result" where
  "whole_days_between a b =
     (let diff = b - a; days = cast_days diff
      in if diff \<noteq> days * seconds_per_day
         then Inl (InvalidArgument ''chunk::Schedule: window boundaries must be midnight-aligned'')
         else Inr days)"

definition unpartitioned :: "window \<Rightarrow> schedule" where
  "unpartitioned run =
     (if wn_days run \<le> 0 then \<lparr>sc_window = run, sc_spans = []\<rparr>
      else \<lparr>sc_window = run,
             sc_spans = [\<lparr>sp_index = 0, sp_active = run, sp_lookahead = window_end run, sp_first_day = 0\<rparr>]\<rparr>)"

text \<open>The boundaries strictly inside the run, from the \<open>k\<close>-th one on.\<close>

partial_function (option) future_bounds ::
    "time_point \<Rightarrow> int \<Rightarrow> time_point \<Rightarrow> time_point \<Rightarrow> int \<Rightarrow> time_point list result option" where
  "future_bounds anchor months run_start run_end k =
     (case add_months anchor (k * months) of
        Inl e \<Rightarrow> Some (Inl e)
      | Inr b \<Rightarrow>
          if \<not> b < run_end then Some (Inr [])
          else Option.bind (future_bounds anchor months run_start run_end (k + 1)) (\<lambda>r. Some
            (case r of Inl e \<Rightarrow> Inl e | Inr bs \<Rightarrow> Inr (if run_start < b then b # bs else bs))))"

fun build_spans :: "time_point \<Rightarrow> time_point \<Rightarrow> int \<Rightarrow> nat \<Rightarrow> time_point list \<Rightarrow> span list result" where
  "build_spans run_start run_end look i (b # c # bs) =
     (case whole_days_between b c of Inl e \<Rightarrow> Inl e
      | Inr days \<Rightarrow>
        (case whole_days_between run_start b of Inl e \<Rightarrow> Inl e
         | Inr first \<Rightarrow>
             let la = add_days c look
             in (case build_spans run_start run_end look (Suc i) (c # bs) of Inl e \<Rightarrow> Inl e
                 | Inr spans \<Rightarrow> Inr (\<lparr>sp_index = i, sp_active = \<lparr>wn_start = b, wn_days = days\<rparr>,
                       sp_lookahead = (if la < run_end then la else run_end), sp_first_day = first\<rparr> # spans))))"
| "build_spans run_start run_end look i _ = Inr []"

definition partition_window :: "window \<Rightarrow> strategy \<Rightarrow> schedule result option" where
  "partition_window run s =
     (case throw_if_failed (strategy_validate s []) of Inl e \<Rightarrow> Some (Inl e)
      | Inr _ \<Rightarrow>
        if wn_days run \<le> 0 then Some (Inr \<lparr>sc_window = run, sc_spans = []\<rparr>)
        else
          let run_end = window_end run
          in (case month_start (wn_start run) of Inl e \<Rightarrow> Some (Inl e)
              | Inr anchor \<Rightarrow>
                (case future_bounds anchor (months_per_chunk s) (wn_start run) run_end 1 of
                   None \<Rightarrow> None
                 | Some (Inl e) \<Rightarrow> Some (Inl e)
                 | Some (Inr bs) \<Rightarrow>
                     let bounds = [wn_start run] @ bs @ [run_end]
                     in (case build_spans (wn_start run) run_end (lookahead_days s) 0 bounds of
                           Inl e \<Rightarrow> Some (Inl e)
                         | Inr spans \<Rightarrow> Some (Inr \<lparr>sc_window = run, sc_spans = spans\<rparr>)))))"

subsection \<open>The boundaries\<close>

lemma strategy_valid_iff:
  "throw_if_failed (strategy_validate s []) = Inr () \<longleftrightarrow>
     0 < months_per_chunk s \<and> 0 \<le> lookahead_days s \<and> lookahead_days s \<le> 60"
  unfolding throw_if_failed_ok strategy_validate_def Let_def
    report_check_clean [OF check_outcomes(1)] report_check_clean [OF check_outcomes(2)]
  by simp

lemma first_of_month_ge: "0 \<le> k \<Longrightarrow> first_of_month n + k \<le> first_of_month (n + k)"
proof (induction k rule: int_ge_induct)
  case (step k)
  have "28 * seconds_per_day \<le> days_in_month ((n + k) div 12) ((n + k) mod 12 + 1) * seconds_per_day"
    by (intro mult_right_mono days_in_month_bounds) simp
  then show ?case using step first_of_month_Suc [of "n + k"] by (simp add: add.assoc seconds_per_day_def)
qed simp

lemma future_bounds_total:
  assumes "0 < m"
  shows "\<exists>r. future_bounds (first_of_month n) m s e k = Some r"
proof (induction "nat (e - first_of_month (n + k * m))" arbitrary: k rule: less_induct)
  case less
  show ?case
  proof (cases "year_in_range ((n + k * m) div 12) \<and> first_of_month (n + k * m) < e")
    case False
    then show ?thesis by (subst future_bounds.simps) (auto simp: add_months_first)
  next
    case True
    have "first_of_month (n + k * m) < first_of_month (n + (k + 1) * m)"
      using assms by (intro first_of_month_less) (simp add: algebra_simps)
    then have "\<exists>r. future_bounds (first_of_month n) m s e (k + 1) = Some r"
      using True by (intro less) simp
    then show ?thesis using True
      by (subst future_bounds.simps) (auto simp: add_months_first split: sum.split)
  qed
qed

lemma future_bounds_eq:
  assumes "0 < m" "future_bounds (first_of_month n) m s e k = Some (Inr bs)"
  shows "sorted_wrt (<) bs \<and> set bs = {first_of_month (n + j * m) | j. k \<le> j} \<inter> {s <..< e}"
  using assms(2)
proof (induction "nat (e - first_of_month (n + k * m))" arbitrary: k bs rule: less_induct)
  case less
  have mono: "first_of_month (n + i * m) \<le> first_of_month (n + j * m) \<longleftrightarrow> i \<le> j" for i j
    using assms(1) by (simp add: first_of_month_le_iff)
  show ?case
  proof (cases "first_of_month (n + k * m) < e")
    case False
    then have "bs = []" using less(2)
      by (subst (asm) future_bounds.simps) (simp add: add_months_first split: if_splits)
    moreover have "\<not> first_of_month (n + j * m) < e" if "k \<le> j" for j
      using that False mono [of k j] by simp
    ultimately show ?thesis by auto
  next
    case True
    obtain bs' where bs': "future_bounds (first_of_month n) m s e (k + 1) = Some (Inr bs')"
        "bs = (if s < first_of_month (n + k * m) then first_of_month (n + k * m) # bs' else bs')"
      using less(2) True
      by (subst (asm) future_bounds.simps) (auto simp: add_months_first split: if_splits Option.bind_splits sum.splits)
    have lt: "first_of_month (n + k * m) < first_of_month (n + (k + 1) * m)"
      using assms(1) by (intro first_of_month_less) (simp add: algebra_simps)
    have IH: "sorted_wrt (<) bs' \<and> set bs' = {first_of_month (n + j * m) | j. k + 1 \<le> j} \<inter> {s <..< e}"
      using lt True by (intro less(1) [OF _ bs'(1)]) simp
    have later: "first_of_month (n + k * m) < b" if "b \<in> set bs'" for b
      using that IH mono [of _ k] by (fastforce simp: not_le [symmetric])
    have "{first_of_month (n + j * m) | j. k \<le> j} =
        insert (first_of_month (n + k * m)) {first_of_month (n + j * m) | j. k + 1 \<le> j}"
      by (auto, metis int_one_le_iff_zero_less le_less zle_add1_eq_le zless_imp_add1_zle)
    then show ?thesis using IH bs'(2) later True by auto
  qed
qed

lemma future_bounds_succeeds:
  assumes "0 < m" "0 \<le> k" "year_in_range ((month_count e + m) div 12)" "year_in_range ((n + k * m) div 12)"
  shows "\<exists>bs. future_bounds (first_of_month n) m s e k = Some (Inr bs)"
  using assms(2,4)
proof (induction "nat (e - first_of_month (n + k * m))" arbitrary: k rule: less_induct)
  case less
  show ?case
  proof (cases "first_of_month (n + k * m) < e")
    case False
    then show ?thesis using less(3) by (subst future_bounds.simps) (simp add: add_months_first)
  next
    case True
    have "first_of_month (n + k * m) < first_of_month (n + (k + 1) * m)"
      using assms(1) by (intro first_of_month_less) (simp add: algebra_simps)
    moreover have "n + k * m \<le> month_count e"
      using True month_bounds(2) [of e] first_of_month_le_iff [of "month_count e + 1" "n + k * m"] by linarith
    then have "(n + (k + 1) * m) div 12 \<le> (month_count e + m) div 12" "(n + k * m) div 12 \<le> (n + (k + 1) * m) div 12"
      using assms(1) by (auto intro!: zdiv_mono1 simp: algebra_simps)
    then have "year_in_range ((n + (k + 1) * m) div 12)"
      using less(3) assms(3) by (auto simp: year_in_range_def)
    ultimately obtain bs where "future_bounds (first_of_month n) m s e (k + 1) = Some (Inr bs)"
      using less(1) [of "k + 1"] less(2) True by auto
    then show ?thesis using True less(3)
      by (subst future_bounds.simps) (simp add: add_months_first)
  qed
qed

subsection \<open>The spans\<close>

text \<open>\<open>tiles a e ss\<close>: the windows of \<open>ss\<close> are non-empty and follow each other from \<open>a\<close> to \<open>e\<close>.\<close>

fun tiles :: "time_point \<Rightarrow> time_point \<Rightarrow> span list \<Rightarrow> bool" where
  "tiles a e [] = (a = e)"
| "tiles a e (s # ss) =
     (wn_start (sp_active s) = a \<and> 0 < wn_days (sp_active s) \<and> tiles (window_end (sp_active s)) e ss)"

lemma cast_days_mult: "cast_days (d * seconds_per_day) = d"
  by (cases "0 \<le> d * seconds_per_day")
    (simp_all add: cast_days_def seconds_per_day_def)

lemma whole_days_iff: "whole_days_between a b = Inr d \<longleftrightarrow> b - a = d * seconds_per_day"
  using cast_days_mult [of d] by (auto simp: whole_days_between_def Let_def)

text \<open>What a span says about itself besides its window.\<close>

definition span_described :: "window \<Rightarrow> int \<Rightarrow> nat \<Rightarrow> span \<Rightarrow> bool" where
  "span_described run look i s =
     (sp_index s = i \<and> sp_first_day s * seconds_per_day = wn_start (sp_active s) - wn_start run \<and>
      sp_lookahead s = min (add_days (window_end (sp_active s)) look) (window_end run))"

lemma build_spans_correct:
  "build_spans (wn_start run) (window_end run) look i (b # bs) = Inr spans \<Longrightarrow> sorted_wrt (<) (b # bs) \<Longrightarrow>
     tiles b (last (b # bs)) spans \<and> map (\<lambda>s. wn_start (sp_active s)) spans = butlast (b # bs) \<and>
     (\<forall>j < length spans. span_described run look (i + j) (spans ! j))"
proof (induction bs arbitrary: b i spans)
  case (Cons c bs)
  obtain days first rest where d: "whole_days_between b c = Inr days" "whole_days_between (wn_start run) b = Inr first"
      "build_spans (wn_start run) (window_end run) look (Suc i) (c # bs) = Inr rest"
      "spans = \<lparr>sp_index = i, sp_active = \<lparr>wn_start = b, wn_days = days\<rparr>,
        sp_lookahead = (if add_days c look < window_end run then add_days c look else window_end run),
        sp_first_day = first\<rparr> # rest"
    using Cons.prems(1) by (auto simp: Let_def split: sum.splits)
  have e: "window_end \<lparr>wn_start = b, wn_days = days\<rparr> = c" using d(1) by (simp add: whole_days_iff window_end_def)
  have p: "0 < days"
  proof -
    have "0 < days * seconds_per_day" using d(1) Cons.prems(2) unfolding whole_days_iff by simp
    then show ?thesis by (simp add: seconds_per_day_def)
  qed
  have IH: "tiles c (last (c # bs)) rest \<and> map (\<lambda>s. wn_start (sp_active s)) rest = butlast (c # bs) \<and>
      (\<forall>j < length rest. span_described run look (Suc i + j) (rest ! j))"
    using Cons.IH [OF d(3)] Cons.prems(2) by simp
  have "span_described run look i (spans ! 0)"
    using d(2) by (simp add: d(4) span_described_def whole_days_iff e min_def)
  then have "span_described run look (i + j) (spans ! j)" if "j < length spans" for j
    using that IH by (cases j) (simp_all add: d(4))
  then show ?case using IH p by (simp add: d(4) e)
qed simp

lemma build_spans_succeeds:
  "\<forall>t \<in> set bs. (t - run_start) mod seconds_per_day = 0 \<Longrightarrow>
     \<exists>spans. build_spans run_start run_end look i bs = Inr spans"
proof (induction run_start run_end look i bs rule: build_spans.induct)
  case (1 run_start run_end look i b c bs)
  have d: "seconds_per_day dvd b - run_start" "seconds_per_day dvd c - run_start"
    using 1(2) by (auto simp: mod_eq_0_iff_dvd)
  then have "seconds_per_day dvd (c - run_start) - (b - run_start)" by (rule dvd_diff [rotated])
  then obtain x y where "c - b = x * seconds_per_day" "b - run_start = y * seconds_per_day"
    using d(1) by (auto simp: dvd_def mult.commute)
  then have w: "whole_days_between b c = Inr x" "whole_days_between run_start b = Inr y"
    by (simp_all add: whole_days_iff)
  obtain rest where "build_spans run_start run_end look (Suc i) (c # bs) = Inr rest"
    using 1(1) [OF w refl] 1(2) by auto
  then show ?case by (simp add: w Let_def)
qed auto

lemma month_start_inverse: "month_start tp = Inr a \<Longrightarrow> a = first_of_month (month_count tp)"
proof -
  assume a: "month_start tp = Inr a"
  have "cd_month (to_calendar_date tp) mod 256 = cd_month (to_calendar_date tp)"
    using civil_facts [of "tp div seconds_per_day"] by (auto simp: to_calendar_date_def)
  then have "year_in_range (cd_year (to_calendar_date tp))"
    using a by (auto simp: month_start_def make_time_def Let_def ymd_ok_def year_in_range_def split: if_splits)
  then show ?thesis using month_start_eq a by simp
qed

lemma partition_window_cases:
  assumes "partition_window run s = Some (Inr sched)" "0 < wn_days run"
  obtains bs spans where "sched = \<lparr>sc_window = run, sc_spans = spans\<rparr>" "0 < months_per_chunk s"
    "0 \<le> lookahead_days s" "lookahead_days s \<le> 60"
    "future_bounds (first_of_month (month_count (wn_start run))) (months_per_chunk s) (wn_start run) (window_end run) 1 = Some (Inr bs)"
    "build_spans (wn_start run) (window_end run) (lookahead_days s) 0 ([wn_start run] @ bs @ [window_end run]) = Inr spans"
proof -
  have v: "throw_if_failed (strategy_validate s []) = Inr ()"
    using assms(1) by (auto simp: partition_window_def split: sum.splits)
  obtain anchor where a: "month_start (wn_start run) = Inr anchor"
    using assms v by (auto simp: partition_window_def Let_def split: sum.splits)
  obtain bs where b: "future_bounds anchor (months_per_chunk s) (wn_start run) (window_end run) 1 = Some (Inr bs)"
    using assms v a by (auto simp: partition_window_def Let_def split: sum.splits option.splits)
  obtain spans where sp: "build_spans (wn_start run) (window_end run) (lookahead_days s) 0 ([wn_start run] @ bs @ [window_end run]) = Inr spans"
    "sched = \<lparr>sc_window = run, sc_spans = spans\<rparr>"
    using assms v a b by (auto simp: partition_window_def Let_def split: sum.splits)
  show thesis
    using sp(2) _ _ _ b [unfolded month_start_inverse [OF a]] sp(1)
    by (rule that) (use v strategy_valid_iff in auto)
qed

lemma partition_spans:
  assumes "partition_window run s = Some (Inr sched)" "0 < wn_days run"
  shows "sc_window sched = run" "tiles (wn_start run) (window_end run) (sc_spans sched)"
    "\<forall>j < length (sc_spans sched). span_described run (lookahead_days s) j (sc_spans sched ! j)"
    "set (map (\<lambda>p. wn_start (sp_active p)) (sc_spans sched)) = insert (wn_start run)
       ({first_of_month (month_count (wn_start run) + j * months_per_chunk s) | j. 1 \<le> j} \<inter> {wn_start run <..< window_end run})"
proof -
  obtain bs spans where p: "sched = \<lparr>sc_window = run, sc_spans = spans\<rparr>" "0 < months_per_chunk s"
    "0 \<le> lookahead_days s" "lookahead_days s \<le> 60"
    "future_bounds (first_of_month (month_count (wn_start run))) (months_per_chunk s) (wn_start run) (window_end run) 1 = Some (Inr bs)"
    "build_spans (wn_start run) (window_end run) (lookahead_days s) 0 ([wn_start run] @ bs @ [window_end run]) = Inr spans"
    by (rule partition_window_cases [OF assms])
  note f = future_bounds_eq [OF p(2,5)]
  have "wn_start run < window_end run" using assms(2) by (simp add: window_end_def)
  then have srt: "sorted_wrt (<) (wn_start run # bs @ [window_end run])"
    using f by (auto simp: sorted_wrt_append)
  have b: "build_spans (wn_start run) (window_end run) (lookahead_days s) 0 (wn_start run # bs @ [window_end run]) = Inr spans"
    using p(6) by simp
  note c = build_spans_correct [OF b srt]
  show "sc_window sched = run" "tiles (wn_start run) (window_end run) (sc_spans sched)"
    "\<forall>j < length (sc_spans sched). span_described run (lookahead_days s) j (sc_spans sched ! j)"
    using c by (simp_all add: p(1))
  have "map (\<lambda>p. wn_start (sp_active p)) spans = wn_start run # bs" using c by (simp add: butlast_append)
  then have "set (map (\<lambda>p. wn_start (sp_active p)) spans) = insert (wn_start run) (set bs)" by simp
  then show "set (map (\<lambda>p. wn_start (sp_active p)) (sc_spans sched)) = insert (wn_start run)
       ({first_of_month (month_count (wn_start run) + j * months_per_chunk s) | j. 1 \<le> j} \<inter> {wn_start run <..< window_end run})"
    using f by (simp add: p(1))
qed

end
