(* ===== verification/LedgerReplay.thy ===== *)
theory LedgerReplay
  imports ReplayChunks Schedule
begin

text \<open>
  \<open>pipeline/stages/transfers/ledger_replay.cpp\<close>: the replay of a whole run, in one pass or
  span by span along a schedule, before and after fraud rows are merged in. The generator is
  a reference in the sources, so every run returns it.
\<close>

record candidate =
  cd_txns :: "txn list"
  cd_drops :: drop_ledger

record posted =
  pd_txns :: "txn list"
  pd_declined :: "declined_attempt list"
  pd_book :: "ledger option"

definition pre_fraud :: "funding \<Rightarrow> ledger \<Rightarrow> rng \<Rightarrow> txn list \<Rightarrow> candidate \<times> rng option" where
  "pre_fraud f initial_book g sorted_rows =
     (let s = extend_rows sorted_rows True (replay_new (Some initial_book) (Some g) f True)
      in (\<lparr>cd_txns = rp_txns s, cd_drops = rp_drops s\<rparr>, rp_rng s))"

definition post_fraud :: "funding \<Rightarrow> rng \<Rightarrow> ledger \<Rightarrow> txn list \<Rightarrow> posted \<times> rng option" where
  "post_fraud f g initial_book merged =
     (let s = extend_rows (sort_for_replay merged) True (replay_new (Some initial_book) (Some g) f False)
      in (\<lparr>pd_txns = rp_txns s, pd_declined = [], pd_book = rp_book s\<rparr>, rp_rng s))"

definition rows_before :: "time_point \<Rightarrow> txn list \<Rightarrow> txn list" where
  "rows_before b rows = takeWhile (\<lambda>t. tx_time t < b) rows"

definition rows_from :: "time_point \<Rightarrow> txn list \<Rightarrow> txn list" where
  "rows_from b rows = dropWhile (\<lambda>t. tx_time t < b) rows"

text \<open>
  The loop of \<open>replayChunked\<close> over the spans; \<open>rows\<close> are the rows from the index \<open>begin\<close> on,
  and \<open>std::lower_bound\<close> on the replay-sorted rows cuts them by time.
\<close>

fun replay_spans :: "span list \<Rightarrow> txn list \<Rightarrow> replay \<Rightarrow> txn list \<Rightarrow> replay \<times> txn list" where
  "replay_spans [] rows s out = (s, out)"
| "replay_spans (sp # sps) rows s out =
     (let last = (sps = []);
          bound = window_end (sp_active sp);
          rest = rows_from bound rows;
          look = (if \<not> last then rows_before (sp_lookahead sp) rest else rest);
          s = extend_chunk (rows_before bound rows) look bound s;
          (settled, s) = take_settled_before bound s
      in replay_spans sps rest s (out @ settled))"

definition replay_chunked :: "replay \<Rightarrow> txn list \<Rightarrow> schedule \<Rightarrow> txn list \<Rightarrow> replay \<times> txn list" where
  "replay_chunked s rows sched out =
     replay_spans (sc_spans sched) (rows_from (wn_start (sc_window sched)) rows) s out"

definition pre_fraud_chunked :: "funding \<Rightarrow> ledger \<Rightarrow> rng \<Rightarrow> txn list \<Rightarrow> schedule \<Rightarrow> candidate \<times> rng option" where
  "pre_fraud_chunked f initial_book g sorted_rows sched =
     (let (s, out) = replay_chunked (replay_new (Some initial_book) (Some g) f True) sorted_rows sched []
      in (\<lparr>cd_txns = out, cd_drops = rp_drops s\<rparr>, rp_rng s))"

definition post_fraud_chunked :: "funding \<Rightarrow> rng \<Rightarrow> ledger \<Rightarrow> txn list \<Rightarrow> schedule \<Rightarrow> posted \<times> rng option" where
  "post_fraud_chunked f g initial_book merged sched =
     (let rows = sort_for_replay merged;
          (s, out) = replay_chunked (replay_new (Some initial_book) (Some g) f False) rows sched []
      in (\<lparr>pd_txns = out, pd_declined = [], pd_book = rp_book s\<rparr>, rp_rng s))"

text \<open>
  \<open>postFraudChunkedMerged\<close> merges the two streams span by span. The lookahead is the candidate
  rows and then the fraud rows: it is not in time order.
\<close>

fun replay_merged ::
    "span list \<Rightarrow> txn list \<Rightarrow> txn list \<Rightarrow> replay \<Rightarrow> posted \<Rightarrow> replay \<times> posted" where
  "replay_merged [] cand fr s out = (s, out)"
| "replay_merged (sp # sps) cand fr s out =
     (let last = (sps = []);
          bound = window_end (sp_active sp);
          c_rest = rows_from bound cand; f_rest = rows_from bound fr;
          c_look = (if \<not> last then rows_before (sp_lookahead sp) c_rest else c_rest);
          f_look = (if \<not> last then rows_before (sp_lookahead sp) f_rest else f_rest);
          slice = merge_by audit_key (rows_before bound cand) (rows_before bound fr);
          s = extend_chunk slice (c_look @ f_look) bound s;
          (settled, s) = take_settled_before bound s;
          (s, declined) = append_declined_span s (pd_declined out)
      in replay_merged sps c_rest f_rest s (out\<lparr>pd_txns := pd_txns out @ settled, pd_declined := declined\<rparr>))"

definition post_fraud_chunked_merged ::
    "funding \<Rightarrow> rng \<Rightarrow> ledger \<Rightarrow> txn list \<Rightarrow> txn list \<Rightarrow> schedule \<Rightarrow> posted \<times> rng option" where
  "post_fraud_chunked_merged f g initial_book candidates_sorted fraud sched =
     (let fr = sort_for_replay fraud; start = wn_start (sc_window sched);
          (s, out) = replay_merged (sc_spans sched) (rows_from start candidates_sorted) (rows_from start fr)
            (replay_new (Some initial_book) (Some g) f False)
            \<lparr>pd_txns = [], pd_declined = [], pd_book = None\<rparr>
      in (out\<lparr>pd_book := rp_book s\<rparr>, rp_rng s))"

subsection \<open>Rows already settled are only carried along\<close>

definition prefixed :: "txn list \<Rightarrow> replay \<Rightarrow> replay" where
  "prefixed r s = s\<lparr>rp_txns := r @ rp_txns s\<rparr>"

lemma prefixed_simps [simp]:
  "rp_pending (prefixed r s) = rp_pending s" "rp_book (prefixed r s) = rp_book s"
  "rp_txns (prefixed r s) = r @ rp_txns s" "rp_inbound (prefixed r s) = rp_inbound s"
  "rp_funding (prefixed r s) = rp_funding s" "rp_emit (prefixed r s) = rp_emit s"
  "rp_taps (prefixed r s) = rp_taps s" "rp_rng (prefixed r s) = rp_rng s"
  "rp_drops (prefixed r s) = rp_drops s" "rp_declined (prefixed r s) = rp_declined s"
  "rp_next_seq (prefixed r s) = rp_next_seq s" "rp_retry_seq (prefixed r s) = rp_retry_seq s"
  by (simp_all add: prefixed_def)

lemma prefixed_update:
  "(prefixed r s)\<lparr>rp_pending := p\<rparr> = prefixed r (s\<lparr>rp_pending := p\<rparr>)"
  "(prefixed r s)\<lparr>rp_book := b\<rparr> = prefixed r (s\<lparr>rp_book := b\<rparr>)"
  "(prefixed r s)\<lparr>rp_txns := r @ t\<rparr> = prefixed r (s\<lparr>rp_txns := t\<rparr>)"
  "(prefixed r s)\<lparr>rp_inbound := i\<rparr> = prefixed r (s\<lparr>rp_inbound := i\<rparr>)"
  "(prefixed r s)\<lparr>rp_taps := tp\<rparr> = prefixed r (s\<lparr>rp_taps := tp\<rparr>)"
  "(prefixed r s)\<lparr>rp_rng := g\<rparr> = prefixed r (s\<lparr>rp_rng := g\<rparr>)"
  "(prefixed r s)\<lparr>rp_drops := d\<rparr> = prefixed r (s\<lparr>rp_drops := d\<rparr>)"
  "(prefixed r s)\<lparr>rp_declined := de\<rparr> = prefixed r (s\<lparr>rp_declined := de\<rparr>)"
  "(prefixed r s)\<lparr>rp_next_seq := n\<rparr> = prefixed r (s\<lparr>rp_next_seq := n\<rparr>)"
  "(prefixed r s)\<lparr>rp_retry_seq := n\<rparr> = prefixed r (s\<lparr>rp_retry_seq := n\<rparr>)"
  by (simp_all add: prefixed_def)

lemma event_prefixed: "on_liquidity_event ev (prefixed r s) = prefixed r (on_liquidity_event ev s)"
  by (simp add: on_liquidity_event_def fee_budget_allows_def Let_def prefixed_update split: option.split)

lemma events_prefixed: "fold on_liquidity_event evs (prefixed r s) = prefixed r (fold on_liquidity_event evs s)"
  by (induction evs arbitrary: s) (simp_all add: event_prefixed)

lemma absorb_prefixed: "absorb l evs (prefixed r s) = prefixed r (absorb l evs s)"
  by (simp add: absorb_def prefixed_update events_prefixed)

lemma accrue_prefixed: "accrue_book ts (prefixed r s) = prefixed r (accrue_book ts s)"
  by (simp add: accrue_book_def absorb_prefixed split: option.split prod.split)

lemma post_prefixed: "post_row t (prefixed r s) = (prefixed r (fst (post_row t s)), snd (post_row t s))"
  by (simp add: post_row_def absorb_prefixed split: option.split prod.split)

lemma retry_prefixed:
  "resolve_retry_timestamp t n (prefixed r s)
    = (fst (resolve_retry_timestamp t n s), prefixed r (snd (resolve_retry_timestamp t n s)))"
proof -
  have "find_future_cure t (prefixed r s) = find_future_cure t s" by (rule find_future_cure_reads) simp_all
  then show ?thesis by (simp add: resolve_retry_timestamp_def Let_def split_beta prefixed_update split: option.split)
qed

lemma drain_item_prefixed: "drain_item q (prefixed r s) = prefixed r (drain_item q s)"
  by (simp add: drain_item_def Let_def accrue_prefixed post_prefixed split_beta prefixed_update retry_prefixed
      split: option.split)

lemma drain_prefixed: "drain_pending b (prefixed r s) = prefixed r (drain_pending b s)"
proof (induction b s rule: drain_pending.induct)
  case (1 b s)
  show ?case
  proof (cases "rp_pending s \<noteq> [] \<and> qi_time (pq_top (rp_pending s)) < b")
    case True
    then show ?thesis using 1 [OF True]
      by (subst (1 2) drain_pending.simps) (simp add: prefixed_update drain_item_prefixed)
  next
    case False
    then show ?thesis by (subst (1 2) drain_pending.simps) auto
  qed
qed

lemma push_rows_prefixed: "fold push_row ts (prefixed r s) = prefixed r (fold push_row ts s)"
  by (simp add: fold_push_row prefixed_update)

lemma sink_prefixed:
  "install_sink (prefixed r s) = prefixed r (install_sink s)"
  "uninstall_sink (prefixed r s) = prefixed r (uninstall_sink s)"
  by (simp_all add: install_sink_def uninstall_sink_def Let_def prefixed_update split: option.split)

lemma extend_chunk_prefixed:
  assumes "rp_book s \<noteq> None"
  shows "extend_chunk items la b (prefixed r s) = prefixed r (extend_chunk items la b s)"
proof -
  have "rp_book (prefixed r s) \<noteq> None" using assms by simp
  then show ?thesis
    by (simp add: extend_chunk_open [OF assms] extend_chunk_open [of "prefixed r s"] Let_def prefixed_update
        sink_prefixed push_rows_prefixed drain_prefixed accrue_prefixed)
qed

subsection \<open>Settling span by span is settling at the end\<close>

lemma extend_chunk_facts:
  assumes "replay_inv s" "rp_next_seq s + length items \<le> 2 ^ 62" "rp_book s \<noteq> None" "b \<noteq> int64_max"
  shows "replay_inv (extend_chunk items la b s)"
    "list_all (\<lambda>q. b \<le> qi_time q) (rp_pending (extend_chunk items la b s))"
    "rp_next_seq (extend_chunk items la b s) = rp_next_seq s + length items"
    "rp_book (extend_chunk items la b s) \<noteq> None" "rp_funding (extend_chunk items la b s) = rp_funding s"
proof -
  note c = chunk_drained_facts [OF assms(1-3), where la = la and b = b]
  have e: "extend_chunk items la b s = (uninstall_sink (chunk_drained items la b s))\<lparr>rp_inbound := (\<lambda>_. [])\<rparr>"
    using assms(4) by (simp add: extend_chunk_open [OF assms(3)] chunk_drained_def Let_def)
  show "replay_inv (extend_chunk items la b s)" by (rule extend_chunk_inv [OF assms(1,2)])
  show "list_all (\<lambda>q. b \<le> qi_time q) (rp_pending (extend_chunk items la b s))"
    "rp_next_seq (extend_chunk items la b s) = rp_next_seq s + length items"
    "rp_funding (extend_chunk items la b s) = rp_funding s"
    using c by (simp_all add: e frame_simps)
  show "rp_book (extend_chunk items la b s) \<noteq> None" using c(4) by (auto simp: e uninstall_sink_def)
qed

lemma extend_chunk_grows:
  assumes "replay_inv s" "rp_next_seq s + length items \<le> 2 ^ 62" "rp_book s \<noteq> None" "b \<noteq> int64_max"
    "delays_ok (rp_funding s)" "sorted (map tx_time (items @ la))"
    "list_all (\<lambda>q. b0 \<le> qi_time q) (rp_pending s)" "\<forall>t \<in> set items. b0 \<le> tx_time t"
  shows "grows (\<lambda>t. b0 \<le> tx_time t) s (extend_chunk items la b s)"
proof -
  let ?X = "fold push_row items (install_sink (s\<lparr>rp_inbound := inbound_times (items @ la)\<rparr>))"
  have "replay_inv (install_sink (s\<lparr>rp_inbound := inbound_times (items @ la)\<rparr>))"
    by (rule replay_inv_frame [THEN iffD2, OF _ _ _ assms(1)]) (simp_all add: frame_simps)
  then have "replay_inv ?X" using assms(2) by (intro fold_push_inv) (simp_all add: frame_simps)
  moreover have "inbound_sorted ?X"
    using assms(6) by (simp add: inbound_sorted_def frame_simps inbound_times_sorted del: inbound_times_append)
  moreover have "list_all (\<lambda>q. b0 \<le> qi_time q) (rp_pending ?X)"
    using assms(7,8) fold_push_items [of _ items "install_sink (s\<lparr>rp_inbound := inbound_times (items @ la)\<rparr>)"]
    by (fastforce simp: list_all_iff frame_simps)
  ultimately have "grows (\<lambda>t. b0 \<le> tx_time t) ?X (drain_pending b ?X)"
    using assms(5) by (intro drain_rows_from) (simp_all add: frame_simps)
  then show ?thesis
    using assms(4) by (simp add: grows_def extend_chunk_open [OF assms(3)] Let_def frame_simps)
qed

lemma sort_audit_time: "sorted (map tx_time (sort_key audit_key rows))"
proof -
  have "sorted_wrt (\<lambda>x y. audit_key x \<le> audit_key y) (sort_key audit_key rows)"
    unfolding sorted_wrt_map [symmetric] by simp
  then show ?thesis unfolding sorted_wrt_map
    by (rule sorted_wrt_mono_rel [rotated]) (auto simp: audit_key_def less_eq_prod_def)
qed

lemma rows_from_later: "sorted (map tx_time rows) \<Longrightarrow> t \<in> set (rows_from b rows) \<Longrightarrow> b \<le> tx_time t"
  unfolding rows_from_def by (induction rows) (auto split: if_splits)

lemma rows_before_earlier: "t \<in> set (rows_before b rows) \<Longrightarrow> tx_time t < b"
  by (auto simp: rows_before_def dest: set_takeWhileD)

lemma sort_key_split:
  assumes "\<forall>t \<in> set N. b \<le> tx_time t"
  shows "sort_key audit_key (R @ N) =
    rows_before b (sort_key audit_key R) @ sort_key audit_key (rows_from b (sort_key audit_key R) @ N)"
proof (rule properties_for_sort_key)
  let ?S = "sort_key audit_key R"
  have S: "rows_before b ?S @ rows_from b ?S = ?S" by (simp add: rows_before_def rows_from_def)
  show "mset (rows_before b ?S @ sort_key audit_key (rows_from b ?S @ N)) = mset (R @ N)"
    using arg_cong [OF S, of mset] by (simp add: union_assoc [symmetric])
  have "tx_time x < b" if "x \<in> set (rows_before b ?S)" for x using that by (rule rows_before_earlier)
  moreover have "b \<le> tx_time y" if "y \<in> set (rows_from b ?S)" for y
    using rows_from_later [OF sort_audit_time that] .
  ultimately have "audit_key x \<le> audit_key y"
    if "x \<in> set (rows_before b ?S)" "y \<in> set (rows_from b ?S) \<union> set N" for x y
    using that assms by (force simp: audit_key_def less_eq_prod_def)
  moreover have "sorted (map audit_key (rows_before b ?S))"
    unfolding rows_before_def by (rule sorted_map_takeWhile) simp
  ultimately show "sorted (map audit_key (rows_before b ?S @ sort_key audit_key (rows_from b ?S @ N)))"
    by (auto simp: sorted_append)
  show "filter (\<lambda>y. audit_key k = audit_key y) (rows_before b ?S @ sort_key audit_key (rows_from b ?S @ N))
      = filter (\<lambda>y. audit_key k = audit_key y) (R @ N)" for k
    using arg_cong [OF S, of "filter (\<lambda>y. audit_key y = audit_key k)"]
    by (simp add: eq_commute [of "audit_key k"] sort_key_stable)
qed

lemma take_settled_split:
  assumes "b \<le> b'" "\<forall>t \<in> set N. b \<le> tx_time t"
    "rp_txns u = R" "v = u\<lparr>rp_txns := rows_from b (sort_key audit_key R)\<rparr>"
    "rp_txns u' = R @ N" "v' = u'\<lparr>rp_txns := rows_from b (sort_key audit_key R) @ N\<rparr>"
  shows "rows_before b (sort_key audit_key R) @ fst (take_settled_before b' v') = fst (take_settled_before b' u')"
    "snd (take_settled_before b' v') = snd (take_settled_before b' u')"
proof -
  let ?A = "rows_before b (sort_key audit_key R)" and ?B = "sort_key audit_key (rows_from b (sort_key audit_key R) @ N)"
  have all: "\<forall>t \<in> set ?A. tx_time t < b'" using assms(1) by (auto simp: rows_before_def dest: set_takeWhileD)
  have s: "sort_key audit_key (R @ N) = ?A @ ?B" by (rule sort_key_split [OF assms(2)])
  show "?A @ fst (take_settled_before b' v') = fst (take_settled_before b' u')"
    using all by (simp add: take_settled_before_def Let_def assms(5,6) s takeWhile_append2)
  show "snd (take_settled_before b' v') = snd (take_settled_before b' u')"
    using all by (simp add: take_settled_before_def Let_def assms(5,6) s dropWhile_append2)
qed

definition horizons_covered :: "funding \<Rightarrow> span list \<Rightarrow> bool" where
  "horizons_covered f spans =
     list_all (\<lambda>sp. window_end (sp_active sp) + cure_horizon f \<le> sp_lookahead sp) (butlast spans)"

lemma tiles_less: "tiles a e (sp # sps) \<Longrightarrow> sps \<noteq> [] \<Longrightarrow> window_end (sp_active sp) < e"
proof (induction sps arbitrary: a sp)
  case (Cons sq sqs)
  have "wn_start (sp_active sq) < window_end (sp_active sq)"
    using Cons.prems by (simp add: window_end_def)
  then show ?case using Cons by (cases "sqs = []") force+
qed simp

lemma rows_split:
  assumes "sorted (map tx_time rows)" "b \<le> e"
  shows "rows_before b rows @ rows_before e (rows_from b rows) = rows_before e rows"
    "rows_from e (rows_from b rows) = rows_from e rows"
    "\<forall>t \<in> set (rows_from b rows). b \<le> tx_time t"
proof -
  let ?A = "rows_before b rows" and ?B = "rows_from b rows"
  have r: "rows = ?A @ ?B" by (simp add: rows_before_def rows_from_def)
  have all: "tx_time t < e" if "t \<in> set ?A" for t using rows_before_earlier [OF that] assms(2) by simp
  have "rows_before e (?A @ ?B) = ?A @ rows_before e ?B" "rows_from e (?A @ ?B) = rows_from e ?B"
    unfolding rows_before_def [of e] rows_from_def [of e]
    by (rule takeWhile_append2, erule all, rule dropWhile_append2, erule all)
  then show "?A @ rows_before e ?B = rows_before e rows" "rows_from e ?B = rows_from e rows"
    using r by simp_all
  show "\<forall>t \<in> set ?B. b \<le> tx_time t" using rows_from_later [OF assms(1)] by blast
qed

definition one_pass :: "time_point \<Rightarrow> txn list \<Rightarrow> replay \<Rightarrow> txn list \<times> replay" where
  "one_pass e rows s = take_settled_before e (extend_chunk (rows_before e rows) (rows_from e rows) e s)"

lemma take_settled_facts:
  "rp_next_seq (snd (take_settled_before b s)) = rp_next_seq s"
  "rp_funding (snd (take_settled_before b s)) = rp_funding s"
  "rp_book (snd (take_settled_before b s)) = rp_book s"
  "rp_pending (snd (take_settled_before b s)) = rp_pending s"
  "snd (take_settled_before b s) = s\<lparr>rp_txns := rows_from b (sort_key audit_key (rp_txns s))\<rparr>"
  "fst (take_settled_before b s) = rows_before b (sort_key audit_key (rp_txns s))"
  by (simp_all add: take_settled_before_def rows_before_def rows_from_def Let_def)

lemma sorted_map_suffix: "sorted (map f (xs @ ys)) \<Longrightarrow> sorted (map f ys)"
  by (simp add: sorted_append)

text \<open>One more span in front: what it settles comes first, and nothing else changes.\<close>

lemma one_pass_front:
  assumes inv: "replay_inv s" "rp_next_seq s + length rows \<le> 2 ^ 62" "delays_ok (rp_funding s)" "rp_book s \<noteq> None"
    and rows: "sorted (map tx_time rows)" and bounds: "b \<le> e" "e < int64_max"
    and look: "la = rows_before l (rows_from b rows)" "b + cure_horizon (rp_funding s) \<le> l"
  defines "u \<equiv> extend_chunk (rows_before b rows) la b s"
  shows "fst (take_settled_before b u) @ fst (one_pass e (rows_from b rows) (snd (take_settled_before b u))) = fst (one_pass e rows s)"
    "snd (one_pass e (rows_from b rows) (snd (take_settled_before b u))) = snd (one_pass e rows s)"
proof -
  let ?xs = "rows_before b rows" and ?ys = "rows_before e (rows_from b rows)" and ?z = "rows_from e rows"
  let ?v = "snd (take_settled_before b u)" and ?R = "rp_txns u"
  note cut = rows_split [OF rows bounds(1)]
  have all: "?xs @ ?ys @ ?z = rows"
    unfolding append_assoc [symmetric] cut(1) by (simp add: rows_before_def rows_from_def)
  have len: "length ?xs + length ?ys \<le> length rows" using arg_cong [OF all, of length] by simp
  then have n: "rp_next_seq s + length ?xs + length ?ys \<le> 2 ^ 62" "rp_next_seq s + length ?xs \<le> 2 ^ 62" using inv(2) by linarith+
  note U = extend_chunk_facts [OF inv(1) n(2) inv(4), of b la, folded u_def]
  have ub: "b \<noteq> int64_max" using bounds by simp
  have rest: "?ys @ ?z = rows_from b rows" using all by (simp add: rows_before_def rows_from_def) (metis append_same_eq takeWhile_dropWhile_id same_append_eq)
  have chunk: "extend_chunk ?ys ?z e u = extend_chunk (?xs @ ?ys) ?z e s"
    unfolding u_def
  proof (rule extend_chunk_split [OF inv(1) n(1) inv(3)])
    show "sorted (map tx_time (?xs @ ?ys @ ?z))" using rows by (simp only: all)
    show "\<forall>t \<in> set (?ys @ ?z). b \<le> tx_time t" using cut(3) by (simp only: rest)
    show "la = takeWhile (\<lambda>t. tx_time t < l) (?ys @ ?z)" using look(1) unfolding rest by (simp only: rows_before_def)
  qed (use rows_before_earlier bounds look inv(4) in auto)
  let ?c = "u\<lparr>rp_txns := []\<rparr>"
  have cb: "rp_book ?c \<noteq> None" using U(4) [OF ub] by simp
  define N where "N = rp_txns (extend_chunk ?ys ?z e ?c)"
  have up: "u = prefixed ?R ?c" by (simp add: prefixed_def)
  have vp: "?v = prefixed (rows_from b (sort_key audit_key ?R)) ?c" by (simp add: take_settled_facts prefixed_def)
  have eu: "extend_chunk ?ys ?z e u = prefixed ?R (extend_chunk ?ys ?z e ?c)"
    by (subst up) (rule extend_chunk_prefixed [OF cb])
  have ev: "extend_chunk ?ys ?z e ?v = prefixed (rows_from b (sort_key audit_key ?R)) (extend_chunk ?ys ?z e ?c)"
    unfolding vp by (rule extend_chunk_prefixed [OF cb])
  have "replay_inv ?c" by (rule replay_inv_frame [THEN iffD2, OF _ _ _ U(1) [OF ub]]) simp_all
  then have "grows (\<lambda>t. b \<le> tx_time t) ?c (extend_chunk ?ys ?z e ?c)"
  proof (rule extend_chunk_grows)
    have "sorted (map tx_time (?xs @ ?ys @ ?z))" using rows by (simp only: all)
    then show "sorted (map tx_time (?ys @ ?z))" by (rule sorted_map_suffix)
    have "set ?ys \<subseteq> set (rows_from b rows)" by (auto simp: rows_before_def dest: set_takeWhileD)
    then show "\<forall>t \<in> set ?ys. b \<le> tx_time t" using cut(3) by blast
    show "rp_book ?c \<noteq> None" by (rule cb)
    show "rp_next_seq ?c + length ?ys \<le> 2 ^ 62" using U(3) [OF ub] n(1) by simp
    show "delays_ok (rp_funding ?c)" using U(5) [OF ub] inv(3) by simp
    show "list_all (\<lambda>q. b \<le> qi_time q) (rp_pending ?c)" using U(2) [OF ub] by simp
  qed (use bounds in simp)
  then have N: "\<forall>t \<in> set N. b \<le> tx_time t" by (auto simp: grows_def N_def list_all_iff)
  have o: "one_pass e rows s = take_settled_before e (extend_chunk ?ys ?z e u)"
    "one_pass e (rows_from b rows) ?v = take_settled_before e (extend_chunk ?ys ?z e ?v)"
    by (simp_all only: one_pass_def chunk cut(1,2))
  note t = take_settled_split [where b = b and b' = e and N = N and R = ?R and u = u and v = ?v
      and u' = "extend_chunk ?ys ?z e u" and v' = "extend_chunk ?ys ?z e ?v"]
  have tx: "rp_txns (extend_chunk ?ys ?z e u) = ?R @ N"
    "extend_chunk ?ys ?z e ?v = (extend_chunk ?ys ?z e u)\<lparr>rp_txns := rows_from b (sort_key audit_key ?R) @ N\<rparr>"
    unfolding eu ev N_def by (simp_all add: prefixed_def)
  show "fst (take_settled_before b u) @ fst (one_pass e (rows_from b rows) ?v) = fst (one_pass e rows s)"
    "snd (one_pass e (rows_from b rows) ?v) = snd (one_pass e rows s)"
    using t [OF bounds(1) N refl take_settled_facts(5) tx] unfolding o take_settled_facts(6) [of b u] by simp_all
qed

lemma replay_spans_one_pass:
  assumes "spans \<noteq> []" "tiles a e spans" "e < int64_max" "sorted (map tx_time rows)"
    "horizons_covered (rp_funding s) spans"
    and inv: "replay_inv s" "rp_next_seq s + length rows \<le> 2 ^ 62" "delays_ok (rp_funding s)" "rp_book s \<noteq> None"
  shows "replay_spans spans rows s out = (snd (one_pass e rows s), out @ fst (one_pass e rows s))"
  using assms
proof (induction spans arbitrary: a rows s out)
  case (Cons sp sps)
  let ?b = "window_end (sp_active sp)"
  show ?case
  proof (cases "sps = []")
    case True
    then have "?b = e" using Cons.prems(2) by simp
    then show ?thesis by (simp add: True one_pass_def Let_def split_beta)
  next
    case False
    let ?u = "extend_chunk (rows_before ?b rows) (rows_before (sp_lookahead sp) (rows_from ?b rows)) ?b s"
    let ?v = "snd (take_settled_before ?b ?u)"
    have be: "?b \<le> e" using tiles_less [OF Cons.prems(2) False] by simp
    then have bm: "?b \<noteq> int64_max" using Cons.prems(3) by simp
    have len: "length (rows_before ?b rows) + length (rows_from ?b rows) = length rows"
      unfolding rows_before_def rows_from_def by (metis length_append takeWhile_dropWhile_id)
    have n: "rp_next_seq s + length (rows_before ?b rows) \<le> 2 ^ 62" using Cons.prems(7) len by linarith
    note U = extend_chunk_facts [OF Cons.prems(6) n Cons.prems(9) bm,
        where la = "rows_before (sp_lookahead sp) (rows_from ?b rows)"]
    have h: "?b + cure_horizon (rp_funding s) \<le> sp_lookahead sp" "horizons_covered (rp_funding ?v) sps"
      using Cons.prems(5) False by (simp_all add: horizons_covered_def take_settled_facts U(5))
    note front = one_pass_front [OF Cons.prems(6-9,4) be Cons.prems(3) refl h(1)]
    have "replay_spans sps (rows_from ?b rows) ?v (out @ fst (take_settled_before ?b ?u)) =
        (snd (one_pass e (rows_from ?b rows) ?v), (out @ fst (take_settled_before ?b ?u)) @ fst (one_pass e (rows_from ?b rows) ?v))"
    proof (rule Cons.IH [OF False _ Cons.prems(3)])
      show "tiles ?b e sps" using Cons.prems(2) by simp
      show "sorted (map tx_time (rows_from ?b rows))"
        using Cons.prems(4) unfolding rows_from_def by (metis map_append sorted_append takeWhile_dropWhile_id)
      show "replay_inv ?v" by (rule take_settled_inv [OF U(1)])
    qed (use h(2) U(3-5) Cons.prems(7,8) len in \<open>simp_all add: take_settled_facts\<close>)
    then show ?thesis using False front by (simp add: Let_def split_beta)
  qed
qed simp

end
