(* ===== verification/ReplayClaims.thy ===== *)
theory ReplayClaims
  imports LedgerReplay LedgerClaims
begin

text \<open>
  The properties of the replay, with instances on the small ledger of \<open>LedgerClaims\<close>, and the
  two places where the sources do not do what their comments say.
\<close>

subsection \<open>Histories of an accumulator\<close>

inductive replay_reachable :: "replay \<Rightarrow> bool" where
  start: "replay_reachable (replay_new book g f emit)"
| append: "replay_reachable s \<Longrightarrow> \<not> bank_row t \<Longrightarrow> replay_reachable (fst (append_row t s))"
| extend: "replay_reachable s \<Longrightarrow> rp_next_seq s + length items \<le> 2 ^ 62 \<Longrightarrow>
    list_all (\<lambda>t. \<not> bank_row t) items \<Longrightarrow> replay_reachable (extend_rows items presorted s)"
| chunk: "replay_reachable s \<Longrightarrow> rp_next_seq s + length items \<le> 2 ^ 62 \<Longrightarrow>
    list_all (\<lambda>t. \<not> bank_row t) items \<Longrightarrow> replay_reachable (extend_chunk items look b s)"
| take: "replay_reachable s \<Longrightarrow> replay_reachable (snd (take_settled_before b s))"
| drain: "replay_reachable s \<Longrightarrow> replay_reachable (snd (drain_declined s))"

definition replay_ok :: "replay \<Rightarrow> bool" where
  "replay_ok s = (replay_inv s \<and> no_bank_items s \<and> fee_inv s)"

lemma fee_inv_install: "fee_inv s \<Longrightarrow> fee_inv (install_sink s)" "fee_inv s \<Longrightarrow> fee_inv (uninstall_sink s)"
  by (erule fee_inv_frame; simp add: frame_simps install_sink_def uninstall_sink_def Let_def
      set_emit_liquidity_def set_liquidity_sink_def split: option.split)+

lemma replay_ok_drain: "replay_ok s \<Longrightarrow> replay_ok (drain_pending b s)"
proof (induction b s rule: drain_pending.induct)
  case (1 b s)
  show ?case
  proof (cases "rp_pending s \<noteq> [] \<and> qi_time (pq_top (rp_pending s)) < b")
    case True
    then obtain q rest where q: "rp_pending s = q # rest" by (meson neq_Nil_conv)
    have inv: "replay_inv s" "no_bank_items s" "fee_inv s" using 1(2) by (simp_all add: replay_ok_def)
    let ?t = "s\<lparr>rp_pending := rest\<rparr>"
    have "replay_inv (drain_item q ?t)"
      using replay_inv_pop [OF inv(1) q] by (intro replay_inv_drain_item) simp
    moreover have "no_bank_items (drain_item q ?t)"
      using inv(2) q by (intro no_bank_items_drain_item) (simp_all add: no_bank_items_def)
    moreover have "fee_inv (drain_item q ?t)"
      using inv(2,3) q by (intro fee_inv_drain_item fee_inv_frame [OF inv(3)]) (simp_all add: no_bank_items_def)
    ultimately have "replay_ok (drain_item (pq_top (rp_pending s)) (s\<lparr>rp_pending := pq_pop (rp_pending s)\<rparr>))"
      by (simp add: replay_ok_def q pq_defs)
    from 1(1) [OF True this] show ?thesis
      by (simp only: drain_pending.simps [of b s] True simp_thms if_True)
  next
    case False
    then show ?thesis using 1(2) by (simp only: drain_pending.simps [of b s] if_False)
  qed
qed

lemma replay_ok_push:
  assumes "replay_ok s" "rp_next_seq s + length items \<le> 2 ^ 62" "list_all (\<lambda>t. \<not> bank_row t) items"
  shows "replay_ok (fold push_row items s)"
proof -
  have "no_bank_items (fold push_row items s)"
    using assms(1,3) fold_push_items [of _ items s]
    by (fastforce simp: replay_ok_def no_bank_items_def list_all_iff)
  moreover have "fee_inv (fold push_row items s)"
    by (rule fee_inv_frame [of s]) (use assms(1) in \<open>simp_all add: replay_ok_def frame_simps\<close>)
  ultimately show ?thesis using fold_push_inv assms by (simp add: replay_ok_def)
qed

lemma replay_ok_accrue: "replay_ok s \<Longrightarrow> replay_ok (accrue_book ts s)"
  using fee_inv_accrue [of s ts] replay_inv_frame [of "accrue_book ts s" s]
  by (simp add: replay_ok_def no_bank_items_def frame_simps)

lemma replay_ok_sinks: "replay_ok s \<Longrightarrow> replay_ok (install_sink s)" "replay_ok s \<Longrightarrow> replay_ok (uninstall_sink s)"
  using fee_inv_install [of s] replay_inv_frame [of "install_sink s" s] replay_inv_frame [of "uninstall_sink s" s]
  by (simp_all add: replay_ok_def no_bank_items_def frame_simps)

lemma replay_ok_same:
  assumes "replay_ok s" "rp_pending s' = rp_pending s" "rp_next_seq s' = rp_next_seq s"
    "rp_retry_seq s' = rp_retry_seq s" "rp_taps s' = rp_taps s" "rp_funding s' = rp_funding s"
    "rp_book s' = rp_book s" "\<forall>k day. fee_rows k day (rp_txns s') \<le> fee_rows k day (rp_txns s)"
  shows "replay_ok s'"
  using assms replay_inv_frame [of s' s] fee_inv_frame [of s s']
  by (simp add: replay_ok_def no_bank_items_def)

lemma fee_rows_mset: "mset xs = mset ys \<Longrightarrow> fee_rows k day xs = fee_rows k day ys"
proof -
  assume "mset xs = mset ys"
  then have "mset (filter P xs) = mset (filter P ys)" for P by simp
  then show ?thesis unfolding fee_rows_def by (intro mset_eq_length) blast
qed

lemma fee_rows_sort [simp]: "fee_rows k day (sort_key f xs) = fee_rows k day xs"
  by (rule fee_rows_mset) simp

lemma fee_rows_dropWhile: "fee_rows k day (dropWhile P xs) \<le> fee_rows k day xs"
  by (induction xs) (auto simp: fee_rows_def)

lemma no_fee_rows: "list_all (\<lambda>t. \<not> bank_row t) xs \<Longrightarrow> fee_rows k day xs = 0"
  using bank_tags(1) by (auto simp: fee_rows_def list_all_iff bank_row_def filter_empty_conv)

lemma replay_reachable_ok: "replay_reachable s \<Longrightarrow> replay_ok s"
proof (induction rule: replay_reachable.induct)
  case (start book g f emit)
  show ?case using replay_new_inv [of book g f emit]
    by (auto simp: replay_ok_def no_bank_items_def fee_inv_def replay_new_def fee_rows_def split: option.split)
next
  case (append s t)
  let ?p = "fst (post_row t (install_sink s))"
  have n: "fee_rows k day [t] = 0" for k day using no_fee_rows [of "[t]"] append(2) by simp
  have i: "replay_ok (install_sink s)" by (rule replay_ok_sinks [OF append.IH])
  have "replay_ok ?p"
    using i fee_inv_post [of "install_sink s" t] replay_inv_frame [of ?p "install_sink s"]
    by (simp add: replay_ok_def no_bank_items_def frame_simps)
  then have u: "replay_ok (uninstall_sink ?p)" by (rule replay_ok_sinks)
  obtain r d where p: "post_row t (install_sink s) = (r, d)" by fastforce
  show ?case
    using append.IH u p
    by (auto simp: append_row_def n Let_def split: option.splits reject_reason.splits intro: replay_ok_same)
next
  case (extend s items presorted)
  let ?items = "if presorted then items else sort_for_replay items"
  have it: "length ?items = length items" "list_all (\<lambda>t. \<not> bank_row t) ?items"
    using extend(3) by (auto simp: sort_for_replay_def list_all_iff)
  let ?i = "install_sink (build_future_inbound_index ?items s)"
  have "replay_ok ?i"
    by (intro replay_ok_sinks replay_ok_same [OF extend.IH])
      (simp_all add: build_future_inbound_index_def frame_simps)
  then have "replay_ok (drain_pending int64_max (fold push_row ?items ?i))"
    using it extend(2) by (intro replay_ok_drain replay_ok_push) (simp_all add: frame_simps build_future_inbound_index_def)
  then have u: "replay_ok (uninstall_sink (if ?items \<noteq> []
      then accrue_book (tx_time (last ?items) + 1) (drain_pending int64_max (fold push_row ?items ?i))
      else drain_pending int64_max (fold push_row ?items ?i)))"
    by (simp only: replay_ok_sinks(2) replay_ok_accrue split: if_split) simp
  show ?case
  proof (cases "rp_book s = None")
    case True
    have "extend_rows items presorted s = s\<lparr>rp_txns := rp_txns s @ ?items\<rparr>"
      unfolding extend_rows_def Let_def if_P [OF True] ..
    then show ?thesis using no_fee_rows [OF it(2)] by (simp only:) (rule replay_ok_same [OF extend.IH], simp_all)
  next
    case False
    show ?thesis unfolding extend_rows_def Let_def if_not_P [OF False] by (rule replay_ok_same [OF u]) simp_all
  qed
next
  case (chunk s items look b)
  show ?case
  proof (cases "rp_book s = None")
    case True
    then show ?thesis using no_fee_rows [OF chunk(3)] chunk.IH by (auto simp: extend_chunk_def intro: replay_ok_same)
  next
    case False
    let ?i = "install_sink (s\<lparr>rp_inbound := inbound_times (items @ look)\<rparr>)"
    have "replay_ok ?i" by (intro replay_ok_sinks replay_ok_same [OF chunk.IH]) simp_all
    then have d: "replay_ok (drain_pending b (fold push_row items ?i))"
      using chunk(2,3) by (intro replay_ok_drain replay_ok_push) (simp_all add: frame_simps)
    then have "replay_ok (uninstall_sink (if b = int64_max \<and> items \<noteq> []
        then accrue_book (tx_time (last items) + 1) (drain_pending b (fold push_row items ?i))
        else drain_pending b (fold push_row items ?i)))"
      by (auto intro: replay_ok_sinks replay_ok_accrue)
    then show ?thesis unfolding extend_chunk_open [OF False] Let_def by (rule replay_ok_same) simp_all
  qed
next
  case (take s b)
  have "fee_rows k day (dropWhile P (sort_key audit_key (rp_txns s))) \<le> fee_rows k day (rp_txns s)" for k day P
    using fee_rows_dropWhile [of k day P "sort_key audit_key (rp_txns s)"] by simp
  then show ?case by (auto simp: take_settled_before_def Let_def intro: replay_ok_same [OF take.IH])
next
  case (drain s)
  then show ?case by (auto simp: drain_declined_def intro: replay_ok_same)
qed

subsection \<open>A small run\<close>

definition demo_rng :: rng where
  "demo_rng = from_seed 7"

definition demo_txn :: "key \<Rightarrow> key \<Rightarrow> f64 \<Rightarrow> i64 \<Rightarrow> txn" where
  "demo_txn src dst amount ts =
     default_txn\<lparr>tx_source := src, tx_target := dst, tx_amount := amount, tx_time := ts,
       tx_session := (tx_session default_txn)\<lparr>se_channel := tag_of (Legit LegBill)\<rparr>\<rparr>"

definition demo_rows :: "txn list" where
  "demo_rows = [demo_txn demo_alice demo_bob (Fin 130) 100, demo_txn demo_bob demo_alice (Fin 500) 200,
     demo_txn demo_atm demo_bob (Fin 600) 200000, demo_txn demo_bob demo_alice (Fin 5) 900000]"

definition demo_replay :: replay where
  "demo_replay = replay_new (Some demo_ledger) (Some demo_rng) default_funding True"

lemma demo_not_bank: "\<not> bank_row (demo_txn a b x t)"
  by (simp add: demo_txn_def bank_row_def is_gl_posting_def tag_is_def)

lemma demo_rows_ok: "list_all (\<lambda>t. \<not> bank_row t) demo_rows" "sorted (map tx_time demo_rows)" "length demo_rows = 4"
  by (simp_all add: demo_rows_def demo_not_bank) (simp_all add: demo_txn_def)

lemma demo_replay_fields:
  "rp_next_seq demo_replay = 0" "rp_book demo_replay = Some demo_ledger" "rp_funding demo_replay = default_funding"
  "rp_pending demo_replay = []" "rp_txns demo_replay = []"
  by (simp_all add: demo_replay_def replay_new_def)

lemma default_funding_ok: "delays_ok default_funding" "cure_horizon default_funding = 129600"
  by (simp_all add: delays_ok_def default_funding_def cure_horizon_def)

subsection \<open>Properties\<close>


lemma demo_reachable: "replay_reachable demo_replay"
  unfolding demo_replay_def by (rule replay_reachable.start)






text \<open>When everything pending and everything handed in is at or after \<open>b0\<close> and in time order, what
\<open>takeSettledBefore b\<close> returns after the chunk lies in \<open>[b0, b)\<close> and is replay-sorted, and everything the accumulator
still holds, settled or pending, is at or after \<open>b\<close>: a later span can never settle a row before an earlier one.\<close>

theorem settled_span_is_final:
  assumes "replay_inv s" "rp_next_seq s + length items \<le> 2 ^ 62" "rp_book s \<noteq> None" "delays_ok (rp_funding s)"
    "sorted (map tx_time (items @ look))" "b \<noteq> int64_max"
    "\<forall>q \<in> set (rp_pending s). b0 \<le> qi_time q" "\<forall>t \<in> set (rp_txns s @ items). b0 \<le> tx_time t"
  shows "let (out, s') = take_settled_before b (extend_chunk items look b s) in
    (\<forall>t \<in> set out. b0 \<le> tx_time t \<and> tx_time t < b) \<and> sorted (map audit_key out) \<and>
    mset (out @ rp_txns s') = mset (rp_txns (extend_chunk items look b s)) \<and>
    (\<forall>t \<in> set (rp_txns s'). b \<le> tx_time t) \<and> (\<forall>q \<in> set (rp_pending s'). b \<le> qi_time q)"
proof -
  let ?u = "extend_chunk items look b s"
  let ?S = "sort_key audit_key (rp_txns ?u)"
  have S: "rows_before b ?S @ rows_from b ?S = ?S" by (simp add: rows_before_def rows_from_def)
  have "grows (\<lambda>t. b0 \<le> tx_time t) s ?u"
    using assms by (intro extend_chunk_grows) (simp_all add: list_all_iff)
  then have b0: "\<forall>t \<in> set ?S. b0 \<le> tx_time t" using assms(8) by (auto simp: grows_def list_all_iff)
  have sub: "set (rows_before b ?S) \<subseteq> set ?S" by (auto simp: rows_before_def dest: set_takeWhileD)
  have "\<forall>q \<in> set (rp_pending ?u). b \<le> qi_time q"
    using extend_chunk_facts(2) [OF assms(1-3,6)] by (simp add: list_all_iff)
  moreover have "sorted (map audit_key (rows_before b ?S))"
    unfolding rows_before_def by (rule sorted_map_takeWhile) simp
  moreover have "mset (rows_before b ?S @ rows_from b ?S) = mset (rp_txns ?u)" unfolding S by simp
  ultimately show ?thesis
    using b0 sub rows_before_earlier rows_from_later [OF sort_audit_time]
    by (auto simp: split_beta Let_def take_settled_facts)
qed

lemma settled_span_is_final_witness:
  "list_all (\<lambda>t. 100 \<le> tx_time t \<and> tx_time t < 150)
     (fst (take_settled_before 150 (extend_chunk demo_rows [] 150 demo_replay)))"
proof -
  have "replay_inv demo_replay" using replay_reachable_ok [OF demo_reachable] by (simp add: replay_ok_def)
  moreover have "\<forall>t \<in> set demo_rows. 100 \<le> tx_time t" by (simp add: demo_rows_def demo_txn_def)
  ultimately show ?thesis
    using settled_span_is_final [of demo_replay demo_rows "[]" 150 100]
    by (simp add: list_all_iff demo_replay_fields demo_rows_ok default_funding_ok int64_max_def split_beta Let_def)
qed

text \<open>C26: replaying a time-ordered run span by span along a schedule settles the same rows in the same
order as one pass over the whole window, with the same ledger, drops, declines, generator and pending items, when the
lookahead of every span but the last covers the cure window.\<close>

theorem chunked_replay_is_one_pass:
  assumes "sc_spans sched \<noteq> []"
    "tiles (wn_start (sc_window sched)) (window_end (sc_window sched)) (sc_spans sched)"
    "window_end (sc_window sched) < int64_max" "sorted (map tx_time rows)" "length rows \<le> 2 ^ 62"
    "horizons_covered f (sc_spans sched)" "delays_ok f"
  shows "replay_chunked (replay_new (Some book) g f emit) rows sched [] =
    (let e = window_end (sc_window sched); live = rows_from (wn_start (sc_window sched)) rows;
         (settled, s) = take_settled_before e
           (extend_chunk (rows_before e live) (rows_from e live) e (replay_new (Some book) g f emit))
     in (s, settled))"
proof -
  let ?live = "rows_from (wn_start (sc_window sched)) rows"
  have "sorted (map tx_time ?live)"
    using assms(4) unfolding rows_from_def by (metis map_append sorted_append takeWhile_dropWhile_id)
  moreover have "length ?live \<le> length rows" unfolding rows_from_def by (rule length_dropWhile_le)
  ultimately show ?thesis
    using replay_spans_one_pass [OF assms(1-3), of ?live "replay_new (Some book) g f emit" "[]"] assms(5-7)
      replay_new_inv [of "Some book" g f emit]
    by (simp add: replay_chunked_def one_pass_def Let_def split_beta replay_new_def)
qed

definition demo_schedule :: schedule where
  "demo_schedule = \<lparr>sc_window = \<lparr>wn_start = 0, wn_days = 8\<rparr>,
     sc_spans = [\<lparr>sp_index = 0, sp_active = \<lparr>wn_start = 0, wn_days = 1\<rparr>, sp_lookahead = 604800, sp_first_day = 0\<rparr>,
       \<lparr>sp_index = 1, sp_active = \<lparr>wn_start = 86400, wn_days = 7\<rparr>, sp_lookahead = 691200, sp_first_day = 1\<rparr>]\<rparr>"

lemma chunked_replay_is_one_pass_witness:
  "snd (replay_chunked demo_replay demo_rows demo_schedule []) =
   fst (take_settled_before 691200 (extend_chunk (rows_before 691200 (rows_from 0 demo_rows))
     (rows_from 691200 (rows_from 0 demo_rows)) 691200 demo_replay))"
  using chunked_replay_is_one_pass [of demo_schedule demo_rows default_funding demo_ledger "Some demo_rng" True]
  by (simp add: demo_schedule_def window_end_def seconds_per_day_def int64_max_def demo_rows_ok default_funding_ok
      horizons_covered_def demo_replay_def [symmetric] Let_def split_beta)

text \<open>C30: the cure a declined row waits for is the earliest inbound credit of its account after the row
and inside the cure window, and there is none exactly when the search says 0, provided the times were indexed in order and
are not 0.\<close>

theorem future_cure_is_earliest_in_window:
  assumes "sorted (rp_inbound s (tx_source t))" "\<forall>x \<in> set (rp_inbound s (tx_source t)). x \<noteq> 0"
  shows "let cures = filter (\<lambda>x. tx_time t < x \<and> x \<le> tx_time t + cure_hours_for (rp_funding s) (tx_channel t) * 3600)
            (rp_inbound s (tx_source t))
    in find_future_cure t s = (if cures = [] then 0 else Min (set cures)) \<and> (find_future_cure t s = 0 \<longleftrightarrow> cures = [])"
proof -
  let ?u = "tx_time t + cure_hours_for (rp_funding s) (tx_channel t) * 3600"
  have *: "first_cure xs v u = (if filter (\<lambda>x. v < x \<and> x \<le> u) xs = [] then 0 else Min (set (filter (\<lambda>x. v < x \<and> x \<le> u) xs)))"
    if "sorted xs" for xs v u
    using that
  proof (induction xs)
    case (Cons x xs)
    show ?case
    proof (cases "x \<le> v")
      case True
      then show ?thesis using Cons by (simp add: first_cure_def)
    next
      case False
      have "Min (set (x # filter (\<lambda>x. v < x \<and> x \<le> u) xs)) = x" if "x \<le> u"
        using Cons.prems by (intro Min_eqI) auto
      moreover have "filter (\<lambda>x. v < x \<and> x \<le> u) xs = []" if "u < x"
        using Cons.prems that by (auto simp: filter_empty_conv)
      ultimately show ?thesis using False by (auto simp: first_cure_def)
    qed
  qed (simp add: first_cure_def)
  let ?w = "filter (\<lambda>x. tx_time t < x \<and> x \<le> ?u) (rp_inbound s (tx_source t))"
  have "Min (set ?w) \<noteq> 0" if "?w \<noteq> []"
  proof -
    have "set ?w \<noteq> {}" using that unfolding set_empty .
    then have "Min (set ?w) \<in> set ?w" by (rule Min_in [OF List.finite_set])
    then have "Min (set ?w) \<in> set (rp_inbound s (tx_source t))" by (rule subsetD [OF filter_is_subset])
    then show ?thesis using assms(2) by blast
  qed
  then show ?thesis
    using find_future_cure_sorted [OF assms(1)] * [OF assms(1), of "tx_time t" ?u] by (simp add: Let_def)
qed

lemma future_cure_is_earliest_in_window_witness:
  "find_future_cure (demo_txn demo_bob demo_alice (Fin 5) 100)
     (demo_replay\<lparr>rp_inbound := (\<lambda>_. [50, 200, 300])\<rparr>) = 200"
  using future_cure_is_earliest_in_window [of "demo_replay\<lparr>rp_inbound := (\<lambda>_. [50, 200, 300])\<rparr>"
      "demo_txn demo_bob demo_alice (Fin 5) 100"]
  by (simp add: demo_replay_fields demo_txn_def default_funding_def cure_hours_for_def Let_def)

subsection \<open>Where the sources and their comments part\<close>

text \<open>
  \<open>ledger_replay.cpp\<close> and \<open>windowed_driver.cpp\<close> hand the candidate rows of the lookahead and then
  its fraud rows to \<open>extendChunk\<close>, with the comment that the order of the lookahead is irrelevant.
  The bisection of \<open>findFutureCure\<close> takes the first time past the row in the order indexed, so
  two inbound rows swapped give another cure.
\<close>

definition demo_inbound :: "i64 \<Rightarrow> txn" where
  "demo_inbound ts = demo_txn demo_atm demo_bob (Fin 600) ts"

theorem lookahead_order_changes_the_cure:
  "find_future_cure (demo_txn demo_bob demo_alice (Fin 5) 100)
     (fold index_inbound [demo_inbound 200, demo_inbound 150] demo_replay) = 200 \<and>
   find_future_cure (demo_txn demo_bob demo_alice (Fin 5) 100)
     (fold index_inbound [demo_inbound 150, demo_inbound 200] demo_replay) = 150"
proof -
  have i: "rp_inbound (fold index_inbound [demo_inbound x, demo_inbound y] demo_replay) demo_bob = [x, y]" for x y
    unfolding fold_index_inbound
    by (simp add: demo_replay_def replay_new_def inbound_times_def is_cure_inbound_def demo_inbound_def demo_txn_def)
  have u: "upper_bound [200, 150] 100 = 0" "upper_bound [150, 200] 100 = 0"
    by (simp_all add: upper_bound_def upper_from.simps Let_def numeral_2_eq_2)
  have "find_future_cure (demo_txn demo_bob demo_alice (Fin 5) 100) s =
      (let pos = upper_bound xs 100 in if xs = [] \<or> pos = length xs \<or> 129700 < xs ! pos then 0 else xs ! pos)"
    if "rp_inbound s demo_bob = xs" "rp_funding s = default_funding" for s xs
    using that by (simp add: find_future_cure_def demo_txn_def default_funding_def cure_hours_for_def
        is_card_like_def tag_is_def Let_def)
  from this [OF i] u show ?thesis by (simp only: fold_index_frame demo_replay_fields Let_def) simp
qed

text \<open>
  An overdraft fee past the daily cap gets no row, but the ledger has already debited it: the
  settled rows no longer add up to the cash.
\<close>

theorem capped_fee_is_debited_without_a_row:
  assumes "rp_book s = Some l" "transfer_at (posting_of t) l = (l', d, evs)"
    "\<forall>ev \<in> set evs. find_account l (ev_payer ev) \<noteq> invalid_index" "fee_daily_cap (rp_funding s) \<le> 0"
    "\<forall>slot. 0 \<le> rp_taps s slot"
  shows "rp_txns (fst (post_row t s)) = rp_txns s \<and> rp_book (fst (post_row t s)) = Some l' \<and>
    snd (post_row t s) = d"
proof -
  have i: "lg_internal l' = lg_internal l"
    using same_setup_fields(5) [OF same_setup_transfer_at [of l "posting_of t"]] assms(2) by simp
  have "on_liquidity_event ev u = u" if "ev \<in> set evs" "u = s\<lparr>rp_book := Some l'\<rparr>" for ev u
  proof -
    have "fee_daily_cap (rp_funding s) \<le> rp_taps s slot" for slot
      using assms(4,5) order_trans by blast
    moreover have "ev_channel ev = fee_tag" using transfer_at_events [OF assms(2) that(1)] by simp
    ultimately show ?thesis
      using assms(3) that i
      by (simp add: on_liquidity_event_def fee_budget_allows_def fee_tag_def find_account_def Let_def del: tag_of.simps)
  qed
  then have "fold on_liquidity_event es (s\<lparr>rp_book := Some l'\<rparr>) = s\<lparr>rp_book := Some l'\<rparr>" if "set es \<subseteq> set evs" for es
    using that by (induction es) simp_all
  then have "absorb l' evs s = s\<lparr>rp_book := Some l'\<rparr>" by (simp add: absorb_def)
  then show ?thesis using assms(1,2) by (simp add: post_row_def)
qed

end
