(* ===== verification/TimeClaims.thy ===== *)
theory TimeClaims
  imports Schedule
begin

text \<open>The properties of the calendar, of month arithmetic and of chunk schedules.\<close>

text \<open>C31: composing an instant from a valid date and time of day and taking it apart again gives the date and
the time back, and composing what an instant was taken apart into gives the instant back.\<close>

theorem calendar_round_trip:
  assumes "valid_date c" "valid_tod t" "\<bar>cd_year (to_calendar_date tp)\<bar> \<le> 32767"
  shows "(\<exists>tp'. make_time c t = Inr tp' \<and> to_calendar_date tp' = c \<and> to_time_of_day tp' = t) \<and>
    make_time (to_calendar_date tp) (to_time_of_day tp) = Inr tp"
  using to_calendar_date_make_time [OF assms(1,2)] make_time_valid [OF assms(1)] make_time_to_calendar_date [OF assms(3)]
  by blast

lemma civil_0: "to_calendar_date 0 = \<lparr>cd_year = 1970, cd_month = 1, cd_day = 1\<rparr>"
  using civil_sys_days [of 1 1 1970] by (simp add: to_calendar_date_def sys_days_start year_start_1970 month_table days_in_month_def)

lemma calendar_round_trip_witness:
  "make_time (to_calendar_date 0) (to_time_of_day 0) = Inr 0 \<and>
   (\<exists>tp. make_time \<lparr>cd_year = 2024, cd_month = 2, cd_day = 29\<rparr> midnight = Inr tp \<and>
      to_calendar_date tp = \<lparr>cd_year = 2024, cd_month = 2, cd_day = 29\<rparr>)"
  using calendar_round_trip [of "\<lparr>cd_year = 2024, cd_month = 2, cd_day = 29\<rparr>" midnight 0]
  by (auto simp: civil_0 valid_date_def ymd_ok_def days_in_month_def is_leap_def valid_tod_def midnight_def)

text \<open>\<open>makeTime\<close> throws exactly for the dates that are not in the calendar.\<close>

theorem make_time_error:
  assumes "0 \<le> cd_month c" "cd_month c < 256" "0 \<le> cd_day c" "cd_day c < 256"
  shows "make_time c t = Inl (InvalidArgument ''invalid calendar date'') \<longleftrightarrow> \<not> valid_date c"
  using assms by (simp add: make_time_def valid_date_def Let_def)

lemma make_time_error_witness:
  "make_time \<lparr>cd_year = 2023, cd_month = 2, cd_day = 29\<rparr> midnight = Inl (InvalidArgument ''invalid calendar date'')"
  using make_time_error [of "\<lparr>cd_year = 2023, cd_month = 2, cd_day = 29\<rparr>" midnight]
  by (simp add: valid_date_def ymd_ok_def days_in_month_def is_leap_def)

text \<open>\<open>addMonths\<close> lands in the month that many months away, at the same time of day, on the same day of
the month or on the last day of a shorter month; it throws exactly when that month's year does not fit.\<close>

theorem add_months_lands:
  "case add_months tp k of
     Inl e \<Rightarrow> e = InvalidArgument ''addMonths: invalid shifted month'' \<and> \<not> year_in_range ((month_count tp + k) div 12)
   | Inr t \<Rightarrow> year_in_range ((month_count tp + k) div 12) \<and> month_count t = month_count tp + k \<and>
       t mod seconds_per_day = tp mod seconds_per_day \<and>
       cd_day (to_calendar_date t) = min (cd_day (to_calendar_date tp))
         (days_in_month (cd_year (to_calendar_date t)) (cd_month (to_calendar_date t)))"
proof (cases "add_months tp k")
  case (Inl e)
  then show ?thesis by (auto simp: add_months_eq Let_def split: if_splits)
next
  case (Inr t)
  then show ?thesis using add_months_month [OF Inr] by (auto simp: add_months_eq Let_def split: if_splits)
qed

text \<open>\<open>monthStarts\<close> returns, and returns exactly the first midnights of the months that overlap the
window, in order.\<close>

theorem month_starts_exact:
  assumes "year_in_range (cd_year (to_calendar_date start))" "year_in_range (month_count e div 12 + 1)"
  shows "\<exists>anchors. month_starts start e = Inr anchors \<and> sorted_wrt (<) anchors \<and>
    set anchors = {first_of_month n | n. month_count start \<le> n \<and> first_of_month n < e}"
proof -
  let ?n = "month_count start"
  have "year_in_range (?n div 12)" using assms(1) by (simp add: month_count_day)
  then obtain anchors where a: "month_starts_from (first_of_month ?n) e = Inr anchors"
    using month_starts_from_total [OF assms(2)] by blast
  obtain k where k: "anchors = map (\<lambda>i. first_of_month (?n + int i)) [0..<k]" "e \<le> first_of_month (?n + int k)"
    "\<forall>i < k. first_of_month (?n + int i) < e"
    using month_starts_from_eq [OF a] by blast
  have "set anchors = {first_of_month n | n. ?n \<le> n \<and> first_of_month n < e}"
  proof (intro equalityI subsetI)
    fix x assume "x \<in> {first_of_month n | n. ?n \<le> n \<and> first_of_month n < e}"
    then obtain n where n: "x = first_of_month n" "?n \<le> n" "first_of_month n < e" by blast
    then have "nat (n - ?n) < k" using k(2) first_of_month_le_iff [of "?n + int k" n] by linarith
    then show "x \<in> set anchors" using n k(1) by (auto intro!: image_eqI [of _ _ "nat (n - ?n)"])
  qed (use k in auto)
  moreover have "sorted_wrt (<) anchors"
    unfolding k(1) sorted_wrt_map by (rule sorted_wrt_mono_rel [OF _ sorted_wrt_upt]) (simp add: first_of_month_less)
  ultimately show ?thesis
    using a month_start_eq [OF assms(1)] by (simp add: month_starts_def)
qed

lemma month_starts_exact_witness:
  "\<exists>anchors. month_starts 0 1 = Inr anchors \<and> first_of_month 23640 \<in> set anchors"
proof -
  have m: "month_count 0 = 23640" by (simp add: month_count_def civil_0)
  have f: "first_of_month 23640 = 0" by (simp add: first_of_month_def sys_days_start year_start_1970 month_table)
  have "month_count 1 = 23640"
    by (rule month_count_eq) (use f first_of_month_Suc [of 23640] days_in_month_bounds(1) in
        \<open>simp_all add: seconds_per_day_def days_in_month_def\<close>)
  then show ?thesis
    using month_starts_exact [of 0 1] m f by (force simp: year_in_range_def civil_0)
qed

text \<open>A formatted timestamp begins with its date, which \<open>parseYmd\<close> reads back as midnight of that day.\<close>

theorem format_then_parse_ymd:
  assumes "0 \<le> cd_year (to_calendar_date tp)" "cd_year (to_calendar_date tp) \<le> 9999"
  shows "parse_ymd (take 10 (format_timestamp tp)) = Inr (tp - tp mod seconds_per_day)"
proof -
  let ?c = "to_calendar_date tp"
  note f = civil_facts [of "tp div seconds_per_day", folded to_calendar_date_def]
  have small: "cd_month ?c < 100" "cd_day ?c < 100" "1 \<le> cd_month ?c" "1 \<le> cd_day ?c"
    using f days_in_month_bounds(2) [of "cd_year ?c" "cd_month ?c"] by auto
  define y m d where "y = pad_zeros 4 (digits (nat (cd_year ?c)))" "m = pad_zeros 2 (digits (nat (cd_month ?c)))"
    "d = pad_zeros 2 (digits (nat (cd_day ?c)))"
  have len: "length y = 4" "length m = 2" "length d = 2"
    unfolding y_m_d_def using small assms by (auto intro!: length_pad_zeros length_digits)
  obtain rest where fmt: "format_timestamp tp = y @ ''-'' @ m @ ''-'' @ d @ rest"
    using small assms by (auto simp: format_timestamp_def Let_def print_padded_def y_m_d_def)
  have t: "take 10 (format_timestamp tp) = y @ ''-'' @ m @ ''-'' @ d"
    unfolding fmt using len by (simp add: take_Cons')
  have parts: "length (take 10 (format_timestamp tp)) = 10" "take 10 (format_timestamp tp) ! 4 = CHR ''-''"
    "take 10 (format_timestamp tp) ! 7 = CHR ''-''" "substr 0 4 (take 10 (format_timestamp tp)) = y"
    "substr 5 2 (take 10 (format_timestamp tp)) = m" "substr 8 2 (take 10 (format_timestamp tp)) = d"
    unfolding t using len by (simp_all add: nth_append substr_def drop_Cons')
  have v: "stoi y = Inr (cd_year ?c)" "stoi m = Inr (cd_month ?c)" "stoi d = Inr (cd_day ?c)"
    unfolding y_m_d_def stoi_padded using assms small by simp_all
  have "parse_ymd (take 10 (format_timestamp tp)) = make_time ?c midnight"
    unfolding parse_ymd_def parts v using small by (cases ?c) simp
  also have "valid_date ?c" using f assms by (auto simp: valid_date_def ymd_ok_def)
  then have "make_time ?c midnight = Inr (tp div seconds_per_day * seconds_per_day)"
    using f(5) by (simp add: make_time_valid midnight_def)
  finally show ?thesis by (simp add: minus_mod_eq_div_mult)
qed

lemma format_then_parse_ymd_witness: "parse_ymd (take 10 (format_timestamp 0)) = Inr 0"
  using format_then_parse_ymd [of 0] by (simp add: civil_0)

text \<open>Clipping is intersection: the result is the overlap of the window and the active interval, and there is
no result exactly when they do not overlap.\<close>

theorem clip_is_intersection:
  "{t. w \<le> t \<and> t < e \<and> a \<le> t \<and> (case ae of None \<Rightarrow> True | Some x \<Rightarrow> t < x)} =
     (case clip_half_open w e a ae of None \<Rightarrow> {} | Some h \<Rightarrow> {t. ho_start h \<le> t \<and> t < ho_end h}) \<and>
   (case clip_half_open w e a ae of None \<Rightarrow> True | Some h \<Rightarrow> ho_start h < ho_end h)"
  by (auto simp: clip_half_open_def Let_def split: option.splits if_splits)

text \<open>C32: partitioning a window gives non-empty spans that follow each other from the start of the window to its
end, cut at the window's start and at every month boundary that is a whole number of chunks away and strictly inside;
every span knows its position, its first day and its lookahead, which never passes the window.\<close>

theorem partition_tiles_window:
  assumes "partition_window run s = Some (Inr sched)" "0 < wn_days run"
  shows "tiles (wn_start run) (window_end run) (sc_spans sched) \<and>
    (\<forall>j < length (sc_spans sched). span_described run (lookahead_days s) j (sc_spans sched ! j)) \<and>
    set (map (\<lambda>p. wn_start (sp_active p)) (sc_spans sched)) = insert (wn_start run)
      ({first_of_month (month_count (wn_start run) + j * months_per_chunk s) | j. 1 \<le> j} \<inter> {wn_start run <..< window_end run})"
  using partition_spans [OF assms] by blast

text \<open>partitioning always returns, and succeeds for a valid strategy and a window that starts at midnight
and stays inside the calendar.\<close>

theorem partition_returns:
  assumes "0 < months_per_chunk s" "0 \<le> lookahead_days s" "lookahead_days s \<le> 60"
    "wn_start run mod seconds_per_day = 0" "year_in_range (cd_year (to_calendar_date (wn_start run)))"
    "year_in_range ((month_count (window_end run) + months_per_chunk s) div 12)"
    "year_in_range ((month_count (wn_start run) + months_per_chunk s) div 12)"
  shows "\<exists>sched. partition_window run s = Some (Inr sched)"
proof (cases "wn_days run \<le> 0")
  case True
  then show ?thesis using assms(1-3) strategy_valid_iff [of s] by (simp add: partition_window_def)
next
  case False
  let ?n = "month_count (wn_start run)"
  obtain bs where b: "future_bounds (first_of_month ?n) (months_per_chunk s) (wn_start run) (window_end run) 1 = Some (Inr bs)"
    using future_bounds_succeeds [OF assms(1) _ assms(6), of 1 ?n "wn_start run"] assms(7) by auto
  have m: "t mod seconds_per_day = 0" if "t \<in> set ([wn_start run] @ bs @ [window_end run])" for t
    using that future_bounds_eq [OF assms(1) b] assms(4) by (auto simp: first_of_month_def window_end_def)
  have "\<forall>t \<in> set ([wn_start run] @ bs @ [window_end run]). (t - wn_start run) mod seconds_per_day = 0"
    using m assms(4) by (metis dvd_diff mod_eq_0_iff_dvd)
  then obtain spans where "build_spans (wn_start run) (window_end run) (lookahead_days s) 0
      ([wn_start run] @ bs @ [window_end run]) = Inr spans"
    using build_spans_succeeds by blast
  then show ?thesis
    using assms(1-3) False b strategy_valid_iff [of s] month_start_eq [OF assms(5)]
    by (simp add: partition_window_def Let_def)
qed

definition demo_run :: window where
  "demo_run = \<lparr>wn_start = 0, wn_days = 400\<rparr>"

definition demo_strategy :: strategy where
  "demo_strategy = \<lparr>months_per_chunk = 3, lookahead_days = 6\<rparr>"

lemma demo_run_facts: "month_count 0 = 23640" "year_in_range ((month_count (window_end demo_run) + 3) div 12)"
proof -
  show m: "month_count 0 = 23640" by (simp add: month_count_def civil_0)
  have "civil 400 = \<lparr>cd_year = 1971, cd_month = 2, cd_day = 5\<rparr>"
    using civil_sys_days [of 2 5 1971] year_start_Suc [of 1970]
    by (simp add: sys_days_start year_start_1970 month_table days_in_month_def is_leap_def)
  then show "year_in_range ((month_count (window_end demo_run) + 3) div 12)"
    by (simp add: demo_run_def window_end_def month_count_def to_calendar_date_def year_in_range_def)
qed

lemma partition_returns_witness: "\<exists>sched. partition_window demo_run demo_strategy = Some (Inr sched)"
  using partition_returns [of demo_strategy demo_run] demo_run_facts
  by (simp add: demo_strategy_def demo_run_def civil_0 year_in_range_def)

lemma demo_partition: "\<exists>sched. partition_window demo_run demo_strategy = Some (Inr sched)"
proof -
  have v: "throw_if_failed (strategy_validate demo_strategy []) = Inr ()"
    by (simp add: strategy_valid_iff demo_strategy_def)
  have "month_start 0 = Inr (first_of_month 23640)"
    using month_start_eq [of 0] demo_run_facts(1) by (simp add: civil_0 year_in_range_def)
  moreover obtain bs where b: "future_bounds (first_of_month 23640) 3 0 (window_end demo_run) 1 = Some (Inr bs)"
    using future_bounds_succeeds [of 3 1 "window_end demo_run" 23640 0] demo_run_facts(2) by (auto simp: year_in_range_def)
  moreover have "\<exists>spans. build_spans 0 (window_end demo_run) 6 0 ([0] @ bs @ [window_end demo_run]) = Inr spans"
    using future_bounds_eq [OF _ b] by (intro build_spans_succeeds) (auto simp: first_of_month_def window_end_def demo_run_def)
  ultimately show ?thesis using v
    by (auto simp: partition_window_def Let_def demo_run_def demo_strategy_def)
qed

lemma partition_tiles_window_witness:
  "\<exists>sched :: schedule. tiles 0 (window_end demo_run) (sc_spans sched) \<and> sc_window sched = demo_run"
proof -
  obtain sched where p: "partition_window demo_run demo_strategy = Some (Inr sched)" using demo_partition by blast
  have "0 < wn_days demo_run" "wn_start demo_run = 0" by (simp_all add: demo_run_def)
  then show ?thesis
    using partition_tiles_window [OF p] partition_spans(1) [OF p] by (intro exI [of _ sched]) simp
qed

end
