(* ===== verification/BlakeFacts.thy ===== *)
theory BlakeFacts
  imports Blake2b
begin

text \<open>
  RFC 7693 as a function of the whole message, and the lemmas that lead from the streaming code
  to it: absorbing a buffer is absorbing its bytes one by one (so pieces compose), and after any
  prefix the state holds the chain value of the blocks already compressed, their byte count as a
  128-bit number and the bytes of the pending block.
\<close>

unbundle bit_operations_syntax

subsection \<open>The specification\<close>

text \<open>The high half of a 128-bit byte count.\<close>

definition high_word :: "nat \<Rightarrow> u64" where
  "high_word t = of_nat (t div 2 ^ 64)"

definition rfc_F :: "u64 list \<Rightarrow> u8 list \<Rightarrow> nat \<Rightarrow> bool \<Rightarrow> u64 list" where
  "rfc_F h block t final =
     (let v = h @ initial_vector;
          v = v[12 := v ! 12 XOR of_nat t];
          v = v[13 := v ! 13 XOR high_word t];
          v = (if final then v[14 := NOT (v ! 14)] else v);
          m = block_words block;
          w = fold (\<lambda>i. mix_round m (sigma ! (i mod 10))) [0..<12] v
      in map (\<lambda>i. h ! i XOR (w ! i XOR w ! (i + 8))) [0..<8])"

definition rfc_block :: "u8 list \<Rightarrow> nat \<Rightarrow> u8 list" where
  "rfc_block dd i = take 128 (drop (128 * i) (dd @ replicate 128 0))"

definition rfc_chain :: "u64 list \<Rightarrow> u8 list \<Rightarrow> nat \<Rightarrow> u64 list" where
  "rfc_chain h dd n = fold (\<lambda>i h. rfc_F h (rfc_block dd i) (128 * (i + 1)) False) [0..<n] h"

definition rfc_start :: "nat \<Rightarrow> nat \<Rightarrow> u64 list" where
  "rfc_start kk nn = initial_vector[0 := initial_vector ! 0 XOR
     (0x01010000 XOR push_bit 8 (of_nat kk) XOR of_nat nn)]"

definition rfc_padded_key :: "u8 list \<Rightarrow> u8 list" where
  "rfc_padded_key key = (if key = [] then [] else key @ replicate (128 - length key) 0)"

definition rfc_last :: "u8 list \<Rightarrow> nat" where
  "rfc_last dd = (length dd - 1) div 128"

definition rfc_final :: "u64 list \<Rightarrow> u8 list \<Rightarrow> u64 list" where
  "rfc_final h dd =
     rfc_F (rfc_chain h dd (rfc_last dd)) (rfc_block dd (rfc_last dd)) (length dd) True"

definition rfc_digest :: "u8 list \<Rightarrow> u8 list \<Rightarrow> nat \<Rightarrow> u8 list" where
  "rfc_digest key data nn =
     take nn (concat (map store_u64_le
       (rfc_final (rfc_start (length key) nn) (rfc_padded_key key @ data))))"

subsection \<open>Well-formed states\<close>

definition blake_wf :: "blake_state \<Rightarrow> bool" where
  "blake_wf s \<longleftrightarrow> length (chain_words s) = 8 \<and> length (block_buf s) = 128 \<and>
     unat (buf_size s) \<le> 128"

lemma compress_fields [frame_simps]:
  "count0 (compress s b) = count0 s" "count1 (compress s b) = count1 s"
  "last0 (compress s b) = last0 s" "last1 (compress s b) = last1 s"
  "block_buf (compress s b) = block_buf s" "buf_size (compress s b) = buf_size s"
  "out_size (compress s b) = out_size s" "length (chain_words (compress s b)) = 8"
  by (simp_all add: compress_def Let_def)

lemma add_count_fields [frame_simps]:
  "chain_words (add_count s a) = chain_words s" "last0 (add_count s a) = last0 s"
  "last1 (add_count s a) = last1 s" "block_buf (add_count s a) = block_buf s"
  "buf_size (add_count s a) = buf_size s" "out_size (add_count s a) = out_size s"
  by (simp_all add: add_count_def Let_def)

lemma blank_wf [simp]: "blake_wf blank_state"
  by (simp add: blake_wf_def blank_state_def block_bytes_def)

lemma flush_full_wf: "blake_wf s \<Longrightarrow> blake_wf (flush_full s)"
  by (simp add: blake_wf_def flush_full_def Let_def frame_simps)

lemma flush_full_room:
  assumes "blake_wf s" shows "unat (buf_size (flush_full s)) < 128"
proof -
  have "unat (buf_size (flush_full s)) \<noteq> unat (128 :: u64)"
    using flush_full_not_full [of s] unfolding word_unat_eq_iff [symmetric]
    by (simp add: block_bytes_def)
  then show ?thesis using flush_full_wf [OF assms] by (simp add: blake_wf_def)
qed

lemma flush_full_id: "unat (buf_size s) < 128 \<Longrightarrow> flush_full s = s"
  by (auto simp: flush_full_def block_bytes_def)

lemma flush_full_flush [simp]: "flush_full (flush_full s) = flush_full s"
  using flush_full_not_full [of s] by (simp add: flush_full_def [of "flush_full s"])

lemma writable_room:
  assumes "unat (buf_size s) \<le> 128"
  shows "writable s n = min (128 - unat (buf_size s)) n"
proof -
  have "buf_size s \<le> 128" using assms by (simp add: word_le_nat_alt)
  then show ?thesis by (simp add: writable_def block_bytes_def unat_sub)
qed

lemma buf_size_add:
  assumes "unat (buf_size s) + n \<le> 128"
  shows "unat (buf_size s + of_nat n) = unat (buf_size s) + n"
  using assms by (simp add: unat_word_ariths unat_of_nat)

subsection \<open>Byte by byte\<close>

definition absorb_byte :: "u8 \<Rightarrow> blake_state \<Rightarrow> blake_state" where
  "absorb_byte x s =
     (let s = flush_full s
      in s\<lparr>block_buf := (block_buf s)[unat (buf_size s) := x], buf_size := buf_size s + 1\<rparr>)"

lemma absorb_byte_wf:
  assumes "blake_wf s" shows "blake_wf (absorb_byte x s)"
  using flush_full_wf [OF assms] flush_full_room [OF assms]
    buf_size_add [of "flush_full s" 1]
  by (simp add: absorb_byte_def blake_wf_def Let_def)

lemma absorb_bytes_wf: "blake_wf s \<Longrightarrow> blake_wf (fold absorb_byte xs s)"
  by (induction xs arbitrary: s) (simp_all add: absorb_byte_wf)

lemma buf_write_snoc:
  assumes "off + length ys < length buf"
  shows "(buf_write buf off ys)[off + length ys := y] = buf_write buf off (ys @ [y])"
proof -
  have "drop (off + length ys) buf = buf ! (off + length ys) # drop (off + length ys + 1) buf"
    using assms by (simp add: Cons_nth_drop_Suc)
  then show ?thesis using assms
    by (simp add: buf_write_def list_update_append)
qed

lemma absorb_bytes_fill:
  assumes "blake_wf s" "unat (buf_size s) + length ys \<le> 128"
    "unat (buf_size s) < 128"
  shows "fold absorb_byte ys s =
    s\<lparr>block_buf := buf_write (block_buf s) (unat (buf_size s)) ys,
      buf_size := buf_size s + of_nat (length ys)\<rparr>"
  using assms(2)
proof (induction ys rule: rev_induct)
  case Nil
  then show ?case by (simp add: buf_write_def)
next
  case (snoc y ys)
  let ?t = "fold absorb_byte ys s"
  have t: "?t = s\<lparr>block_buf := buf_write (block_buf s) (unat (buf_size s)) ys,
      buf_size := buf_size s + of_nat (length ys)\<rparr>" using snoc by simp
  have size: "unat (buf_size ?t) = unat (buf_size s) + length ys"
    using buf_size_add [of s "length ys"] snoc(2) by (simp add: t)
  then have "flush_full ?t = ?t" using snoc(2) by (simp add: flush_full_id)
  moreover have "(buf_write (block_buf s) (unat (buf_size s)) ys)[unat (buf_size s) + length ys := y]
      = buf_write (block_buf s) (unat (buf_size s)) (ys @ [y])"
    using snoc(2) assms(1) by (intro buf_write_snoc) (simp add: blake_wf_def)
  ultimately have "absorb_byte y ?t =
      s\<lparr>block_buf := buf_write (block_buf s) (unat (buf_size s)) (ys @ [y]),
        buf_size := buf_size s + of_nat (length (ys @ [y]))\<rparr>"
    using size unfolding t by (simp add: absorb_byte_def Let_def add.assoc)
  then show ?case by simp
qed

lemma absorb_byte_flush: "xs \<noteq> [] \<Longrightarrow> fold absorb_byte xs (flush_full s) = fold absorb_byte xs s"
  by (cases xs) (simp_all add: absorb_byte_def)

text \<open>The buffered loop of \<open>absorb\<close> is the byte-wise one.\<close>

lemma absorb_loop_bytes:
  "blake_wf s \<Longrightarrow> absorb_loop s xs = fold absorb_byte xs s"
proof (induction s xs rule: absorb_loop.induct)
  case (1 s xs)
  show ?case
  proof (cases "xs = []")
    case True
    then show ?thesis by (simp add: absorb_loop.simps)
  next
    case False
    let ?s = "flush_full s"
    let ?n = "writable ?s (length xs)"
    let ?t = "?s\<lparr>block_buf := buf_write (block_buf ?s) (unat (buf_size ?s)) (take ?n xs),
                 buf_size := buf_size ?s + of_nat ?n\<rparr>"
    have wf: "blake_wf ?s" and room: "unat (buf_size ?s) < 128"
      using 1(2) flush_full_wf flush_full_room by auto
    have n: "?n = min (128 - unat (buf_size ?s)) (length xs)"
      using room by (simp add: writable_room)
    have t: "?t = fold absorb_byte (take ?n xs) ?s"
      using absorb_bytes_fill [OF wf _ room, of "take ?n xs"] room n by simp
    have "absorb_loop s xs = absorb_loop ?t (drop ?n xs)"
      using False by (subst absorb_loop.simps) (simp add: Let_def)
    also have "\<dots> = fold absorb_byte (drop ?n xs) ?t"
      using 1(1) [OF False refl refl] absorb_bytes_wf [OF wf] t by simp
    also have "\<dots> = fold absorb_byte xs ?s"
      unfolding t by (metis append_take_drop_id comp_apply fold_append)
    also have "\<dots> = fold absorb_byte xs s" using False by (rule absorb_byte_flush)
    finally show ?thesis .
  qed
qed

lemma absorb_loop_wf: "blake_wf s \<Longrightarrow> blake_wf (absorb_loop s xs)"
  by (simp add: absorb_loop_bytes absorb_bytes_wf)

lemma absorb_loop_append:
  "blake_wf s \<Longrightarrow> absorb_loop s (xs @ ys) = absorb_loop (absorb_loop s xs) ys"
  by (simp add: absorb_loop_bytes absorb_bytes_wf)

subsection \<open>The byte counter is one 128-bit number\<close>

lemma carry_mod:
  assumes "m < M" "k < (M :: nat)"
  shows "(m + k) mod M < m \<longleftrightarrow> M \<le> m + k"
proof (cases "m + k < M")
  case False
  then have "(m + k) mod M = m + k - M" using assms by (simp add: mod_if)
  then show ?thesis using False assms by linarith
qed simp

lemma carry_div:
  assumes "k < (M :: nat)"
  shows "(t + k) div M = (if M \<le> t mod M + k then t div M + 1 else t div M)"
proof -
  have "t mod M < M" using assms by simp
  then have "t mod M + k < M + M" using assms by linarith
  then have "(t mod M + k) div M = (if M \<le> t mod M + k then 1 else 0)"
    using div_nat_eqI [of M 1 "t mod M + k"] by auto
  moreover have "(t + k) div M = t div M + (t mod M + k) div M"
    using assms by (simp add: div_add1_eq [of t k] )
  ultimately show ?thesis by simp
qed

lemma unat_of_nat_64: "unat (of_nat t :: u64) = t mod 2 ^ 64"
  by (simp add: unat_of_nat take_bit_eq_mod)

lemma add_count_total:
  assumes "count0 s = of_nat t" "count1 s = high_word t" "k < 2 ^ 64"
  shows "count0 (add_count s (of_nat k)) = of_nat (t + k)"
    and "count1 (add_count s (of_nat k)) = high_word (t + k)"
proof -
  have carry: "(of_nat (t + k) :: u64) < of_nat t \<longleftrightarrow> 2 ^ 64 \<le> t mod 2 ^ 64 + k"
    unfolding word_less_nat_alt unat_of_nat_64
    using carry_mod [of "t mod 2 ^ 64" "2 ^ 64" k] assms(3) by (simp only: mod_add_left_eq) simp
  show "count0 (add_count s (of_nat k)) = of_nat (t + k)"
    using assms(1) by (simp add: add_count_def Let_def)
  show "count1 (add_count s (of_nat k)) = high_word (t + k)"
    unfolding high_word_def carry_div [OF assms(3)] using assms(1,2) carry
    by (simp only: add_count_def Let_def high_word_def) simp
qed

subsection \<open>Compression is the function F\<close>

lemma sigma_wraps: "take blake_rounds sigma = map (\<lambda>i. sigma ! (i mod 10)) [0..<12]"
  by (simp add: blake_rounds_def sigma_def upt_rec)

lemma initial_vector_length [simp]: "length initial_vector = 8"
  by (simp add: initial_vector_def)

lemma rfc_F_length [simp]: "length (rfc_F h b t f) = 8"
  by (simp add: rfc_F_def Let_def)

lemma rfc_chain_length [simp]: "length h = 8 \<Longrightarrow> length (rfc_chain h dd n) = 8"
  by (induction n) (simp_all add: rfc_chain_def)

lemma rfc_chain_Suc:
  "rfc_chain h dd (Suc n) = rfc_F (rfc_chain h dd n) (rfc_block dd n) (128 * (n + 1)) False"
  by (simp add: rfc_chain_def)

lemma start_work_append:
  assumes "length (chain_words s) = 8"
  shows "start_work s = (chain_words s @ initial_vector)
    [12 := initial_vector ! 4 XOR count0 s, 13 := initial_vector ! 5 XOR count1 s,
     14 := initial_vector ! 6 XOR last0 s, 15 := initial_vector ! 7 XOR last1 s]"
  using assms by (simp add: start_work_def initial_vector_def list_update_append)

lemma compress_is_F:
  assumes "length (chain_words s) = 8" "count0 s = of_nat t" "count1 s = high_word t"
    "last0 s = (if final then NOT 0 else 0)" "last1 s = 0"
  shows "chain_words (compress s b) = rfc_F (chain_words s) b t final"
proof -
  define v where "v = chain_words s @ initial_vector"
  have v: "v ! 12 = initial_vector ! 4" "v ! 13 = initial_vector ! 5" "v ! 14 = initial_vector ! 6"
    "v ! 15 = initial_vector ! 7"
    using assms(1) by (simp_all add: v_def nth_append)
  have "start_work s =
    (let v = v[12 := v ! 12 XOR of_nat t]; v = v[13 := v ! 13 XOR high_word t]
     in if final then v[14 := NOT (v ! 14)] else v)"
    using assms by (simp add: start_work_append v Let_def list_update_swap flip: v_def)
      (simp flip: v add: list_update_swap)
  then show ?thesis
    by (simp add: compress_def rfc_F_def sigma_wraps fold_map comp_def Let_def v_def)
qed

subsection \<open>What the state holds after a prefix\<close>

definition holds_prefix :: "u64 list \<Rightarrow> u8 list \<Rightarrow> blake_state \<Rightarrow> bool" where
  "holds_prefix h p s \<longleftrightarrow>
     (let m = rfc_last p in
      blake_wf s \<and> chain_words s = rfc_chain h p m \<and> last0 s = 0 \<and> last1 s = 0 \<and>
      count0 s = of_nat (128 * m) \<and> count1 s = high_word (128 * m) \<and>
      unat (buf_size s) = length p - 128 * m \<and>
      take (unat (buf_size s)) (block_buf s) = drop (128 * m) p)"

lemma rfc_block_prefix:
  "128 * (i + 1) \<le> length p \<Longrightarrow> rfc_block (p @ q) i = rfc_block p i"
  by (simp add: rfc_block_def)

lemma rfc_chain_prefix:
  "128 * n \<le> length p \<Longrightarrow> rfc_chain h (p @ q) n = rfc_chain h p n"
proof (induction n)
  case (Suc n)
  then show ?case by (simp add: rfc_chain_Suc rfc_block_prefix)
qed (simp add: rfc_chain_def)

lemma rfc_last_room: "length p - 128 * rfc_last p \<le> 128" "128 * rfc_last p \<le> length p"
  by (auto simp: rfc_last_def)

lemma rfc_last_snoc:
  "rfc_last (p @ [x]) =
    (if length p - 128 * rfc_last p = 128 then rfc_last p + 1 else rfc_last p)"
proof (cases "p = []")
  case False
  then obtain n where n: "length p = Suc n" by (cases p) auto
  define q r where "q = n div 128" and "r = n mod 128"
  have nq: "n = 128 * q + r" and r: "r < 128" by (simp_all add: q_def r_def)
  have "(128 * q + (r + 1)) div 128 = q + (r + 1) div 128" by (rule div_mult_self4) simp
  also have "(r + 1) div 128 = (if r = 127 then 1 else 0)" using r by auto
  finally have "Suc n div 128 = (if r = 127 then q + 1 else q)" by (simp add: nq)
  moreover have "Suc n - 128 * q = 128 \<longleftrightarrow> r = 127" by (simp add: nq)
  moreover have "n div 128 = q" by (simp add: q_def)
  ultimately show ?thesis by (simp add: rfc_last_def n)
qed (simp add: rfc_last_def)

lemma holds_prefix_flush:
  assumes "holds_prefix h p s" "length h = 8" "unat (buf_size s) = 128"
  shows "flush_full s = (compress (add_count s 128) (block_buf s))\<lparr>buf_size := 0\<rparr>"
    and "chain_words (compress (add_count s 128) (block_buf s)) = rfc_chain h p (rfc_last p + 1)"
    and "count0 (add_count s 128) = of_nat (128 * (rfc_last p + 1))"
    and "count1 (add_count s 128) = high_word (128 * (rfc_last p + 1))"
proof -
  let ?m = "rfc_last p"
  have s: "blake_wf s" "chain_words s = rfc_chain h p ?m" "last0 s = 0" "last1 s = 0"
    "count0 s = of_nat (128 * ?m)" "count1 s = high_word (128 * ?m)"
    "length p - 128 * ?m = 128" "take 128 (block_buf s) = drop (128 * ?m) p"
    using assms(1,3) by (auto simp: holds_prefix_def Let_def)
  have "buf_size s = 128" using assms(3) by (simp add: word_unat_eq_iff)
  then show "flush_full s = (compress (add_count s 128) (block_buf s))\<lparr>buf_size := 0\<rparr>"
    by (simp add: flush_full_def block_bytes_def Let_def frame_simps)
  have total: "128 * ?m + 128 = 128 * (?m + 1)" by simp
  note counts = add_count_total [OF s(5,6), of 128, unfolded total]
  show c0: "count0 (add_count s 128) = of_nat (128 * (?m + 1))"
    using counts(1) by simp
  show c1: "count1 (add_count s 128) = high_word (128 * (?m + 1))"
    using counts(2) by simp
  have block: "block_buf s = rfc_block p ?m"
    using s(1,7,8) by (simp add: blake_wf_def rfc_block_def)
  show "chain_words (compress (add_count s 128) (block_buf s)) = rfc_chain h p (?m + 1)"
    using compress_is_F [OF _ c0 c1, of False "block_buf s"] s(2-4) assms(2)
    by (simp add: frame_simps rfc_chain_Suc block)
qed

lemma holds_prefix_step:
  assumes "holds_prefix h p s" "length h = 8"
  shows "holds_prefix h (p @ [x]) (absorb_byte x s)"
proof (cases "unat (buf_size s) = 128")
  case True
  note f = holds_prefix_flush [OF assms True]
  have p: "length p - 128 * rfc_last p = 128" and wf: "blake_wf s"
    and l: "last0 s = 0" "last1 s = 0"
    using assms(1) True by (auto simp: holds_prefix_def Let_def)
  have len: "length p = 128 * (rfc_last p + 1)" using p by simp
  have "length (block_buf s) = 128" using wf by (simp add: blake_wf_def)
  then have "take 1 ((block_buf s)[0 := x]) = [x]" by (cases "block_buf s") simp_all
  moreover have "rfc_chain h (p @ [x]) (rfc_last p + 1) = rfc_chain h p (rfc_last p + 1)"
    using len by (intro rfc_chain_prefix) simp
  ultimately show ?thesis
    using absorb_byte_wf [OF wf, of x] f l len
    by (simp add: holds_prefix_def rfc_last_snoc p absorb_byte_def Let_def frame_simps)
next
  case False
  have wf: "blake_wf s" and size: "unat (buf_size s) = length p - 128 * rfc_last p"
    and held: "take (unat (buf_size s)) (block_buf s) = drop (128 * rfc_last p) p"
    using assms(1) by (auto simp: holds_prefix_def Let_def)
  have room: "unat (buf_size s) < 128" and len: "length (block_buf s) = 128"
    using False wf by (auto simp: blake_wf_def)
  have last: "rfc_last (p @ [x]) = rfc_last p"
    using room size by (simp add: rfc_last_snoc)
  have "take (unat (buf_size s) + 1) ((block_buf s)[unat (buf_size s) := x]) =
      take (unat (buf_size s)) (block_buf s) @ [x]"
    using room len by (simp add: take_Suc_conv_app_nth)
  moreover have "unat (buf_size s + 1) = unat (buf_size s) + 1"
    using buf_size_add [of s 1] room by simp
  moreover have "rfc_chain h (p @ [x]) (rfc_last p) = rfc_chain h p (rfc_last p)"
    using rfc_last_room(2) by (rule rfc_chain_prefix)
  ultimately show ?thesis
    using absorb_byte_wf [OF wf, of x] assms(1) held size rfc_last_room(2) [of p]
    by (simp add: holds_prefix_def last absorb_byte_def Let_def flush_full_id [OF room] Suc_diff_le)
qed

lemma holds_prefix_absorb:
  assumes "holds_prefix h p s" "length h = 8"
  shows "holds_prefix h (p @ xs) (absorb_loop s xs)"
proof -
  have "holds_prefix h (p @ xs) (fold absorb_byte xs s)"
  proof (induction xs rule: rev_induct)
    case (snoc x xs)
    then show ?case using holds_prefix_step [OF _ assms(2)] by (simp flip: append_assoc)
  qed (simp add: assms(1))
  moreover have "blake_wf s" using assms(1) by (simp add: holds_prefix_def Let_def)
  ultimately show ?thesis by (simp add: absorb_loop_bytes)
qed

subsection \<open>Start and finish\<close>

lemma rfc_start_length [simp]: "length (rfc_start kk nn) = 8"
  by (simp add: rfc_start_def)

lemma blake_start_ok:
  "fst (blake_start s outSize key keySize) \<longleftrightarrow>
     0 < outSize \<and> outSize \<le> 64 \<and> keySize \<le> 64 \<and> (keySize = 0 \<or> key \<noteq> None)"
  by (auto simp: blake_start_def max_digest_bytes_def max_key_bytes_def Let_def)

lemma holds_prefix_blank:
  "length h = 8 \<Longrightarrow> holds_prefix h [] (blank_state\<lparr>out_size := n, chain_words := h\<rparr>)"
  by (simp add: holds_prefix_def rfc_last_def rfc_chain_def blake_wf_def blank_state_def
      block_bytes_def high_word_def)

lemma blake_start_state:
  assumes "blake_start s0 outSize key (length k) = (True, s)" "k \<noteq> [] \<Longrightarrow> key = Some k"
  shows "holds_prefix (rfc_start (length k) outSize) (rfc_padded_key k) s \<and> out_size s = outSize"
proof (cases "k = []")
  case True
  have "s = blank_state\<lparr>out_size := outSize, chain_words := rfc_start 0 outSize\<rparr>"
    using assms(1) True
    by (auto simp: blake_start_def Let_def rfc_start_def initial_vector_def split: if_splits)
  then show ?thesis using True by (simp add: holds_prefix_blank rfc_padded_key_def)
next
  case False
  have size: "length k \<le> 64" using assms(1) blake_start_ok [of s0 outSize key "length k"] by simp
  have "s = blank_state\<lparr>out_size := outSize, chain_words := rfc_start (length k) outSize,
      block_buf := rfc_padded_key k, buf_size := 128\<rparr>"
    using assms False size
    by (auto simp: blake_start_def Let_def rfc_start_def rfc_padded_key_def buf_write_def
        block_bytes_def split: if_splits)
  then show ?thesis using False size
    by (simp add: holds_prefix_def rfc_last_def rfc_chain_def blake_wf_def blank_state_def
        block_bytes_def high_word_def rfc_padded_key_def)
qed

lemma add_count_buf_size:
  assumes "count0 s = of_nat t" "count1 s = high_word t"
  shows "count0 (add_count s (buf_size s)) = of_nat (t + unat (buf_size s))"
    and "count1 (add_count s (buf_size s)) = high_word (t + unat (buf_size s))"
  using add_count_total [OF assms, of "unat (buf_size s)"] unsigned_less [where ?'a = nat and w = "buf_size s"]
  by simp_all

lemma last_block_final:
  assumes "holds_prefix h p s" "length h = 8"
  shows "chain_words (last_block s) = rfc_final h p"
proof -
  let ?m = "rfc_last p"
  have s: "blake_wf s" "chain_words s = rfc_chain h p ?m" "last1 s = 0"
    "count0 s = of_nat (128 * ?m)" "count1 s = high_word (128 * ?m)"
    "unat (buf_size s) = length p - 128 * ?m"
    "take (unat (buf_size s)) (block_buf s) = drop (128 * ?m) p"
    using assms(1) by (auto simp: holds_prefix_def Let_def)
  have total: "128 * ?m + unat (buf_size s) = length p" using s(6) rfc_last_room(2) [of p] by simp
  note counts = add_count_buf_size [OF s(4,5), unfolded total]
  have block: "take (unat (buf_size s)) (block_buf s) @
      replicate (length (block_buf s) - unat (buf_size s)) 0 = rfc_block p ?m"
    using s(1,6,7) rfc_last_room [of p] by (simp add: blake_wf_def rfc_block_def)
  let ?s = "(add_count s (buf_size s))\<lparr>last0 := NOT 0, last1 := 0, block_buf := rfc_block p ?m\<rparr>"
  have "last_block s = compress ?s (rfc_block p ?m)"
    by (simp add: last_block_def Let_def frame_simps block)
  moreover have "chain_words (compress ?s (rfc_block p ?m)) =
      rfc_F (chain_words ?s) (rfc_block p ?m) (length p) True"
    using counts assms(2) s(2) by (intro compress_is_F) (simp_all add: frame_simps)
  ultimately show ?thesis by (simp add: rfc_final_def s(2) frame_simps)
qed

subsection \<open>Digest bytes\<close>

lemma store_u64_le_length [simp]: "length (store_u64_le x) = 8"
  by (simp add: store_u64_le_def)

lemma take_concat_8:
  assumes "\<And>w. length (f w) = 8" "q * 8 + r \<le> 8 * length ws" "r < 8"
  shows "take (q * 8 + r) (concat (map f ws)) =
    concat (map (\<lambda>i. f (ws ! i)) [0..<q]) @ (if 0 < r then take r (f (ws ! q)) else [])"
  using assms(2)
proof (induction q arbitrary: ws)
  case 0
  then show ?case using assms(1,3) by (cases ws) auto
next
  case (Suc q)
  then obtain w ws' where ws: "ws = w # ws'" by (cases ws) auto
  have "[0..<Suc q] = 0 # map Suc [0..<q]" by (simp add: upt_conv_Cons map_Suc_upt)
  then show ?case using Suc.IH [of ws'] Suc.prems assms(1) by (simp add: ws comp_def)
qed

lemma digest_bytes_prefix:
  assumes "length ws = 8" "n \<le> 64"
  shows "digest_bytes ws n = take n (concat (map store_u64_le ws))"
  using take_concat_8 [of store_u64_le "n div 8" "n mod 8" ws] assms
  by (simp add: digest_bytes_def Let_def)

lemma concat_store_length [simp]:
  "length (concat (map store_u64_le ws)) = 8 * length ws"
  by (induction ws) simp_all

lemma rfc_final_length [simp]: "length (rfc_final h dd) = 8"
  by (simp add: rfc_final_def)

lemma rfc_digest_length: "nn \<le> 64 \<Longrightarrow> length (rfc_digest key data nn) = nn"
  by (simp add: rfc_digest_def)

text \<open>Reading eight stored bytes back.\<close>

lemma push_bit_ucast_8:
  "(ucast (ucast x :: u8) :: u64) OR push_bit 8 (drop_bit 8 x) = x"
proof (rule bit_word_eqI)
  fix n :: nat
  assume "n < LENGTH(64)"
  then show "bit ((ucast (ucast x :: u8) :: u64) OR push_bit 8 (drop_bit 8 x)) n = bit x n"
    by (cases "n < 8") (simp_all add: bit_simps)
qed

lemma load_store_u64: "load_u64_le (store_u64_le x) = x"
proof -
  have step: "ucast (ucast y :: u8) OR push_bit 8 (drop_bit 8 y) = y" for y :: u64
    by (rule push_bit_ucast_8)
  have "drop_bit 64 x = 0" by (rule bit_word_eqI) (auto simp: bit_simps dest: bit_imp_le_length)
  then show ?thesis
    using step [of x] step [of "drop_bit 8 x"] step [of "drop_bit 16 x"] step [of "drop_bit 24 x"]
      step [of "drop_bit 32 x"] step [of "drop_bit 40 x"] step [of "drop_bit 48 x"]
      step [of "drop_bit 56 x"]
    by (simp add: store_u64_le_def upt_rec drop_bit_drop_bit)
qed

end
