(* ===== verification/Seed.thy ===== *)
theory Seed
  imports BlakeFacts Text Sampling
begin

text \<open>
  \<open>primitives/random/seed.hpp\<close> and \<open>factory.hpp\<close>: the seed of a named random stream is the
  eight-byte BLAKE2b digest of a text key; and \<open>primitives/hashing\<close>: FNV-1a and the hash combiner.
  A \<open>std::string_view\<close> is a list of characters, its bytes their codes. \<open>std::hash\<close> of a
  composite's parts is an argument of \<open>hash_make\<close>: the caller passes the hashed values.
\<close>

unbundle bit_operations_syntax

subsection \<open>Seed derivation\<close>

definition seed_separator :: char where "seed_separator = CHR ''|''"
definition seed_bytes :: nat where "seed_bytes = 8"
definition bits_per_byte :: nat where "bits_per_byte = 8"

definition char_bytes :: "string \<Rightarrow> u8 list" where
  "char_bytes = map of_char"

definition build_key :: "u64 \<Rightarrow> string list \<Rightarrow> string" where
  "build_key base parts = fold (\<lambda>part key. (key @ [seed_separator]) @ part) parts (digits (unat base))"

definition read_u64_le :: "u8 list \<Rightarrow> u64" where
  "read_u64_le bytes =
     fold (\<lambda>i value. value OR push_bit (i * bits_per_byte) (ucast (bytes ! i))) [0..<length bytes] 0"

definition derive_seed :: "u64 \<Rightarrow> string list \<Rightarrow> u64 option" where
  "derive_seed base parts =
     (let key = char_bytes (build_key base parts);
          bytes = replicate seed_bytes 0;
          (ok, out) = blake_digest (Some key) (length key) (Some bytes) (length bytes) None 0
      in if \<not> ok then None else Some (read_u64_le (the out)))"

text \<open>\<open>RngFactory\<close>: a base seed, and the stream of every list of parts.\<close>

definition factory_seed :: "u64 \<Rightarrow> string list \<Rightarrow> u64 result" where
  "factory_seed base parts =
     (case derive_seed base parts of
        Some derived \<Rightarrow> Inr derived
      | None \<Rightarrow> Inl (RuntimeError ''RngFactory: failed to derive seed''))"

definition factory_rng :: "u64 \<Rightarrow> string list \<Rightarrow> rng result" where
  "factory_rng base parts =
     (case factory_seed base parts of Inl e \<Rightarrow> Inl e | Inr s \<Rightarrow> Inr (from_seed s))"

subsection \<open>FNV-1a and the combiner\<close>

definition fnv64_offset :: u64 where "fnv64_offset = 14695981039346656037"
definition fnv64_prime :: u64 where "fnv64_prime = 1099511628211"
definition golden64 :: u64 where "golden64 = 0x9e3779b97f4a7c15"

definition fnv_byte :: "u8 \<Rightarrow> u64 \<Rightarrow> u64" where
  "fnv_byte c hash = (hash XOR ucast c) * fnv64_prime"

definition fnv1a64 :: "u8 list \<Rightarrow> u64" where
  "fnv1a64 value = fold fnv_byte value fnv64_offset"

definition fnv1a64_join :: "u8 list list \<Rightarrow> u8 \<Rightarrow> u64" where
  "fnv1a64_join parts sep =
     fold (\<lambda>part hash. fnv_byte sep (fold fnv_byte part hash)) parts fnv64_offset"

definition hash_combine :: "u64 \<Rightarrow> u64 \<Rightarrow> u64" where
  "hash_combine seed value =
     (let mixed = value + golden64 in seed XOR (mixed + push_bit 6 seed + drop_bit 2 seed))"

definition hash_make :: "u64 list \<Rightarrow> u64" where
  "hash_make values = foldl hash_combine 0 values"

subsection \<open>Keys\<close>

lemma build_key_concat:
  "build_key base parts = digits (unat base) @ concat (map (\<lambda>p. seed_separator # p) parts)"
proof -
  have "fold (\<lambda>part key. (key @ [seed_separator]) @ part) parts k =
      k @ concat (map (\<lambda>p. seed_separator # p) parts)" for k
    by (induction parts arbitrary: k) simp_all
  then show ?thesis by (simp add: build_key_def)
qed

lemma takeWhile_stop [simp]:
  "sep \<notin> set x \<Longrightarrow> takeWhile (\<lambda>c. c \<noteq> sep) (x @ sep # r) = x"
  "sep \<notin> set x \<Longrightarrow> takeWhile (\<lambda>c. c \<noteq> sep) x = x"
  by (induction x) auto

lemma separated_parts_inj:
  assumes "\<And>p. p \<in> set ps \<union> set qs \<Longrightarrow> sep \<notin> set p"
    and "concat (map (\<lambda>p. sep # p) ps) = concat (map (\<lambda>p. sep # p) qs)"
  shows "ps = qs"
  using assms
proof (induction ps arbitrary: qs)
  case Nil
  then show ?case by (cases qs) auto
next
  case (Cons p ps)
  then obtain q qs' where qs: "qs = q # qs'" by (cases qs) auto
  let ?r = "\<lambda>xs. concat (map (\<lambda>p. sep # p) xs)"
  have head: "takeWhile (\<lambda>c. c \<noteq> sep) (x @ ?r xs) = x" if "sep \<notin> set x" for x xs
    using that by (cases xs) simp_all
  have eq: "p @ ?r ps = q @ ?r qs'" using Cons.prems(2) qs by simp
  have "p = q" using head [of p ps] head [of q qs'] eq Cons.prems(1) qs by simp
  moreover have "ps = qs'" using Cons.IH [of qs'] eq Cons.prems(1) qs \<open>p = q\<close> by auto
  ultimately show ?case by (simp add: qs)
qed

lemma digits_no_separator: "seed_separator \<notin> set (digits n)"
  using digits_are_digits by (force simp: seed_separator_def is_digit_def)

lemma takeWhile_digits:
  "takeWhile (\<lambda>c. c \<noteq> seed_separator) (build_key base parts) = digits (unat base)"
  using digits_no_separator [of "unat base"]
  by (cases parts) (simp_all add: build_key_concat)

lemma digits_inj: "digits a = digits b \<Longrightarrow> a = b"
  by (metis digits_value_digits)

lemma build_key_inj:
  assumes "\<And>p. p \<in> set ps \<union> set qs \<Longrightarrow> seed_separator \<notin> set p"
  shows "build_key a ps = build_key b qs \<longleftrightarrow> a = b \<and> ps = qs"
proof
  assume eq: "build_key a ps = build_key b qs"
  then have "digits (unat a) = digits (unat b)" using takeWhile_digits by metis
  then have "a = b" by (simp add: digits_inj word_unat_eq_iff)
  with eq separated_parts_inj [OF assms] show "a = b \<and> ps = qs" by (simp add: build_key_concat)
qed simp

subsection \<open>Reading the digest\<close>

lemma read_u64_le_load: "length bs = 8 \<Longrightarrow> read_u64_le bs = load_u64_le bs"
proof -
  assume "length bs = 8"
  then obtain a b c d e f g h where "bs = [a, b, c, d, e, f, g, h]"
    by (auto simp: length_Suc_conv numeral_eq_Suc)
  then show ?thesis
    by (simp add: read_u64_le_def bits_per_byte_def upt_rec push_bit_or push_bit_push_bit ac_simps)
qed

end
