(* ===== verification/SeedClaims.thy ===== *)
theory SeedClaims
  imports Seed
begin

text \<open>
  What the hash and the seeds promise: BLAKE2b as RFC 7693 states it, whatever the pieces; every
  refusal of \<open>digest\<close>; a seed for every key, and a different key for different names; FNV-1a
  tells apart words that differ in one byte.
\<close>

unbundle bit_operations_syntax

subsection \<open>Streams\<close>

definition feed_pieces :: "blake_stream \<Rightarrow> u8 list list \<Rightarrow> bool \<times> blake_stream" where
  "feed_pieces t pieces =
     fold (\<lambda>piece (ok, t). case stream_update t (Some piece) (length piece) of
             (now_ok, t) \<Rightarrow> (ok \<and> now_ok, t)) pieces (True, t)"

lemma absorb_out_size: "blake_wf s \<Longrightarrow> out_size (absorb_loop s xs) = out_size s"
proof -
  have flush: "out_size (flush_full s) = out_size s" for s
    by (simp add: flush_full_def Let_def frame_simps)
  have "out_size (fold absorb_byte xs s) = out_size s"
    by (induction xs arbitrary: s) (simp_all add: absorb_byte_def Let_def flush)
  then show "blake_wf s \<Longrightarrow> out_size (absorb_loop s xs) = out_size s"
    by (simp add: absorb_loop_bytes)
qed

lemma absorb_loop_Nil [simp]: "absorb_loop s [] = s"
  by (simp add: absorb_loop.simps)

lemma feed_pieces_concat:
  assumes "blake_wf (stream_state t)" "is_valid t"
  shows "feed_pieces t pieces = (True, t\<lparr>stream_state := absorb_loop (stream_state t) (concat pieces)\<rparr>)"
proof -
  have "fold (\<lambda>piece (ok, t). case stream_update t (Some piece) (length piece) of
             (now_ok, t) \<Rightarrow> (ok \<and> now_ok, t)) pieces (True, t) =
      (True, t\<lparr>stream_state := absorb_loop (stream_state t) (concat pieces)\<rparr>)"
    using assms
  proof (induction pieces arbitrary: t)
    case (Cons piece pieces)
    have up: "stream_update t (Some piece) (length piece) =
        (True, t\<lparr>stream_state := absorb_loop (stream_state t) piece\<rparr>)"
      using Cons.prems(2) by (simp add: stream_update_def blake_absorb_def)
    show ?case
      using Cons.IH [of "t\<lparr>stream_state := absorb_loop (stream_state t) piece\<rparr>"] Cons.prems
      by (simp add: up absorb_loop_wf absorb_loop_append is_valid_def)
  qed simp
  then show ?thesis by (simp add: feed_pieces_def)
qed

lemma finish_writes_digest:
  assumes "holds_prefix h p s" "length h = 8" "out_size s \<le> 64" "out_size s \<le> length old"
  shows "\<exists>s'. blake_finish s (Some old) =
    (True, s', Some (take (out_size s) (concat (map store_u64_le (rfc_final h p))) @ drop (out_size s) old))"
proof -
  have "out_size (last_block s) = out_size s" by (simp add: last_block_def Let_def frame_simps)
  then show ?thesis
    using last_block_final [OF assms(1,2)] assms(3,4)
    by (simp add: blake_finish_def Let_def digest_bytes_prefix buf_write_def)
qed

text \<open>C33: Feeding a message to a \<open>Stream\<close> in pieces of any sizes and finalizing it writes the
  RFC 7693 hash of the whole message under the key: every update is accepted, the digest is the
  first \<open>outSize\<close> bytes of the buffer, the rest of the buffer is untouched, and the finished
  stream accepts nothing more.\<close>

theorem stream_computes_rfc7693:
  assumes "0 < outSize" "outSize \<le> 64" "length key \<le> 64" "outSize \<le> length old"
  shows "\<exists>t t'. feed_pieces (stream_new outSize (Some key) (length key)) pieces = (True, t) \<and>
    stream_finalize t (Some old) outSize =
      (True, t', Some (rfc_digest key (concat pieces) outSize @ drop outSize old)) \<and>
    \<not> is_valid t'"
proof -
  obtain s where start: "blake_start blank_state outSize (Some key) (length key) = (True, s)"
    using assms blake_start_ok [of blank_state outSize "Some key" "length key"]
    by (metis prod.collapse option.distinct(1))
  let ?h = "rfc_start (length key) outSize"
  let ?t = "stream_new outSize (Some key) (length key)"
  have s: "holds_prefix ?h (rfc_padded_key key) s" "out_size s = outSize" "blake_wf s"
    using blake_start_state [OF start] by (auto simp: holds_prefix_def Let_def)
  let ?s = "absorb_loop s (concat pieces)"
  have t: "stream_state ?t = s" "is_valid ?t"
    by (simp_all add: stream_new_def start is_valid_def)
  have feed: "feed_pieces ?t pieces = (True, ?t\<lparr>stream_state := ?s\<rparr>)"
    using feed_pieces_concat [of ?t pieces] t s(3) by simp
  have held: "holds_prefix ?h (rfc_padded_key key @ concat pieces) ?s"
    using holds_prefix_absorb [OF s(1)] by simp
  have size: "out_size ?s = outSize" using absorb_out_size s by simp
  obtain s' where "blake_finish ?s (Some old) =
      (True, s', Some (rfc_digest key (concat pieces) outSize @ drop outSize old))"
    using finish_writes_digest [OF held] assms size by (auto simp: rfc_digest_def)
  then have "stream_finalize (?t\<lparr>stream_state := ?s\<rparr>) (Some old) outSize =
      (True, ?t\<lparr>stream_finished := True, stream_state := blake_wipe s'\<rparr>,
       Some (rfc_digest key (concat pieces) outSize @ drop outSize old))"
    using t(2) size by (simp add: stream_finalize_def is_valid_def)
  then show ?thesis using feed by (auto simp: is_valid_def)
qed

theorem stream_computes_rfc7693_witness:
  "\<exists>t t'. feed_pieces (stream_new 8 (Some [1, 2]) (length [1, 2 :: u8])) [[3], [4, 5]] = (True, t) \<and>
    stream_finalize t (Some (replicate 8 0)) 8 =
      (True, t', Some (rfc_digest [1, 2] (concat [[3], [4, 5]]) 8 @ drop 8 (replicate 8 0))) \<and>
    \<not> is_valid t'"
  by (rule stream_computes_rfc7693) simp_all

subsection \<open>One-shot digests\<close>

text \<open>\<open>digest\<close> on every input: it refuses, leaving the output alone, exactly when a size is
  out of bounds or a pointer that is needed is null; otherwise it writes the RFC 7693 hash of the
  data under the key.\<close>

theorem digest_refuses_or_hashes:
  assumes "\<And>xs. data = Some xs \<Longrightarrow> length xs = len" "\<And>k. key = Some k \<Longrightarrow> length k = keySize"
    and "\<And>old. out = Some old \<Longrightarrow> outSize \<le> length old"
  shows "blake_digest data len out outSize key keySize =
    (if outSize = 0 \<or> 64 < outSize \<or> 64 < keySize \<or> (0 < keySize \<and> key = None) \<or>
        (0 < len \<and> data = None) \<or> out = None
     then (False, out)
     else (True, Some (rfc_digest (if keySize = 0 then [] else the key)
             (if len = 0 then [] else the data) outSize @ drop outSize (the out))))"
proof -
  obtain ok s where start: "blake_start blank_state outSize key keySize = (ok, s)" by fastforce
  have ok: "ok \<longleftrightarrow> 0 < outSize \<and> outSize \<le> 64 \<and> keySize \<le> 64 \<and> (keySize = 0 \<or> key \<noteq> None)"
    using blake_start_ok [of blank_state outSize key keySize] by (simp add: start)
  show ?thesis
  proof (cases "ok \<and> (len = 0 \<or> data \<noteq> None)")
    case False
    then show ?thesis using ok by (auto simp: blake_digest_def start blake_absorb_def split: bool.split)
  next
    case True
    let ?k = "if keySize = 0 then [] else the key"
    let ?m = "if len = 0 then [] else the data"
    have k: "length ?k = keySize" "?k \<noteq> [] \<Longrightarrow> key = Some ?k"
      using True ok assms(2) by (auto split: if_splits)
    have s: "holds_prefix (rfc_start keySize outSize) (rfc_padded_key ?k) s" "out_size s = outSize"
        "blake_wf s"
      using blake_start_state [of blank_state outSize key ?k s] start k True
      by (auto simp: holds_prefix_def Let_def)
    have absorb: "blake_absorb s data len = (True, absorb_loop s ?m)"
      using True assms(1) by (auto simp: blake_absorb_def)
    let ?s = "absorb_loop s ?m"
    have held: "holds_prefix (rfc_start keySize outSize) (rfc_padded_key ?k @ ?m) ?s"
      using holds_prefix_absorb [OF s(1)] by simp
    have size: "out_size ?s = outSize" using absorb_out_size s by simp
    show ?thesis
    proof (cases out)
      case None
      then show ?thesis using True ok size
        by (simp add: blake_digest_def start absorb blake_finish_def)
    next
      case (Some old)
      obtain s' where "blake_finish ?s (Some old) =
          (True, s', Some (rfc_digest ?k ?m outSize @ drop outSize old))"
        using finish_writes_digest [OF held] assms(3) [OF Some] True ok size k(1)
        by (auto simp: rfc_digest_def)
      then show ?thesis using True ok Some by (simp add: blake_digest_def start absorb)
    qed
  qed
qed

theorem digest_refuses_or_hashes_witness:
  "blake_digest (Some [1]) 1 (Some [0, 0]) 2 None 0 =
     (True, Some (rfc_digest [] [1] 2 @ drop 2 [0, 0])) \<and>
   blake_digest (Some [1]) 1 (Some [0, 0]) 65 None 0 = (False, Some [0, 0])"
proof -
  have "blake_digest (Some [1]) 1 (Some [0, 0]) 2 None 0 =
     (True, Some (rfc_digest [] [1] 2 @ drop 2 [0, 0]))"
    by (subst digest_refuses_or_hashes) simp_all
  moreover have "blake_digest (Some [1]) 1 (Some [0, 0]) 65 None 0 = (False, Some [0, 0])"
    by (simp add: blake_digest_def blake_start_def max_digest_bytes_def)
  ultimately show ?thesis by blast
qed

subsection \<open>Seeds\<close>

lemma derive_seed_first_word:
  "derive_seed base parts =
     Some (hd (rfc_final (rfc_start 0 8) (char_bytes (build_key base parts))))"
proof -
  let ?k = "char_bytes (build_key base parts)"
  obtain s where start: "blake_start blank_state 8 None 0 = (True, s)"
    using blake_start_ok [of blank_state 8 None 0]
    by (cases "blake_start blank_state 8 None 0") simp
  have s: "holds_prefix (rfc_start 0 8) [] s" "out_size s = 8" "blake_wf s"
    using blake_start_state [of blank_state 8 None "[]" s] start
    by (auto simp: rfc_padded_key_def holds_prefix_def Let_def)
  let ?s = "absorb_loop s ?k" and ?f = "rfc_final (rfc_start 0 8) ?k"
  have held: "holds_prefix (rfc_start 0 8) ?k ?s" using holds_prefix_absorb [OF s(1)] by simp
  have size: "out_size ?s = 8" using absorb_out_size s by simp
  obtain s' where fin: "blake_finish ?s (Some (replicate 8 0)) =
      (True, s', Some (take 8 (concat (map store_u64_le ?f))))"
    using finish_writes_digest [OF held, of "replicate 8 0"] size by auto
  obtain w ws where f: "?f = w # ws"
    using rfc_final_length [of "rfc_start 0 8" ?k] by (cases ?f) auto
  have absorb: "blake_absorb s (Some ?k) (length ?k) = (True, ?s)"
    by (simp add: blake_absorb_def)
  show ?thesis
    by (simp add: derive_seed_def seed_bytes_def Let_def blake_digest_def start absorb fin f
        read_u64_le_load load_store_u64)
qed

text \<open>A seed is derived for every base and every list of parts, so the factory never throws:
  the stream starts from the first word of the RFC 7693 hash of the key, read as the
  digest's little-endian bytes.\<close>

theorem factory_never_throws:
  "factory_rng base parts =
     Inr (from_seed (hd (rfc_final (rfc_start 0 8) (char_bytes (build_key base parts)))))"
  by (simp add: factory_rng_def factory_seed_def derive_seed_first_word)

text \<open>Names without the separator give different keys unless the base and all the parts
  agree, so distinct streams of a run hash distinct messages; a part that holds the separator
  breaks this: its key is that of the two parts.\<close>

theorem seed_keys_separate_names:
  assumes "\<And>p. p \<in> set ps \<union> set qs \<Longrightarrow> seed_separator \<notin> set p"
  shows "(build_key a ps = build_key b qs \<longleftrightarrow> a = b \<and> ps = qs) \<and>
    build_key a [x @ [seed_separator] @ y] = build_key a [x, y]"
  using build_key_inj [OF assms, where a = a and b = b] by (simp add: build_key_concat)

theorem seed_keys_separate_names_witness:
  "(build_key 7 [''ab'', ''c''] = build_key 7 [''a'', ''bc''] \<longleftrightarrow>
      7 = (7 :: u64) \<and> [''ab'', ''c''] = [''a'', ''bc'']) \<and>
   build_key 7 [''x'' @ [seed_separator] @ ''y''] = build_key 7 [''x'', ''y'']"
  by (rule seed_keys_separate_names) (auto simp: seed_separator_def)

text \<open>A part that holds the separator gets the stream of two parts.\<close>

lemma separator_in_a_part_shares_the_stream:
  "factory_rng base [''user|1''] = factory_rng base [''user'', ''1'']"
  by (simp add: factory_rng_def factory_seed_def derive_seed_def build_key_concat seed_separator_def)

subsection \<open>FNV-1a\<close>

lemma unit_cancel: "k * k' = (1 :: u64) \<Longrightarrow> x * k = y * k \<longleftrightarrow> x = y"
proof
  assume k: "k * k' = 1"
  assume "x * k = y * k"
  then have "x * k * k' = y * k * k'" by simp
  then show "x = y" by (simp add: mult.assoc k)
qed simp

lemma fnv_prime_cancel: "x * fnv64_prime = y * fnv64_prime \<longleftrightarrow> x = y"
  by (rule unit_cancel [where k' = 14886173955864302971]) (simp add: fnv64_prime_def)

lemma xor_cancel: "(x XOR z = y XOR z) \<longleftrightarrow> x = (y :: u64)"
proof -
  have "(w XOR z) XOR z = w" for w :: u64 by (simp add: xor.assoc)
  then show ?thesis by metis
qed

lemma ucast_u8_inj: "(ucast c :: u64) = ucast d \<longleftrightarrow> c = (d :: u8)"
proof -
  have "(ucast (ucast b :: u64) :: u8) = b" for b :: u8
    by (rule bit_word_eqI) (auto simp: bit_simps)
  then show ?thesis by metis
qed

lemma fnv_byte_inj: "fnv_byte c h = fnv_byte c h' \<longleftrightarrow> h = h'"
  by (simp add: fnv_byte_def fnv_prime_cancel xor_cancel)

lemma fnv_byte_inj_byte: "fnv_byte c h = fnv_byte d h \<longleftrightarrow> c = d"
proof -
  have "fnv_byte c h = fnv_byte d h \<longleftrightarrow> h XOR ucast c = h XOR ucast d"
    by (simp add: fnv_byte_def fnv_prime_cancel)
  also have "\<dots> \<longleftrightarrow> (ucast c :: u64) = ucast d"
    using xor_cancel [of "ucast c" h "ucast d"] by (simp add: xor.commute)
  also have "\<dots> \<longleftrightarrow> c = d" by (rule ucast_u8_inj)
  finally show ?thesis .
qed

lemma fold_fnv_inj: "fold fnv_byte xs h = fold fnv_byte xs h' \<longleftrightarrow> h = h'"
  by (induction xs arbitrary: h h') (simp_all add: fnv_byte_inj)

lemma fnv_join_flat:
  "fnv1a64_join parts sep = fnv1a64 (concat (map (\<lambda>p. p @ [sep]) parts))"
proof -
  have "fold (\<lambda>part hash. fnv_byte sep (fold fnv_byte part hash)) parts h =
      fold fnv_byte (concat (map (\<lambda>p. p @ [sep]) parts)) h" for h
    by (induction parts arbitrary: h) simp_all
  then show ?thesis by (simp add: fnv1a64_join_def fnv1a64_def)
qed

text \<open>FNV-1a never confuses two words that differ in exactly one byte, and the hash of a list
  of parts is the hash of the parts each followed by the separator, so two lists of parts whose
  joined text differs in one byte hash apart too.\<close>

theorem fnv_sees_one_byte:
  "(fnv1a64 (xs @ c # ys) = fnv1a64 (xs @ d # ys) \<longleftrightarrow> c = d) \<and>
   (fnv1a64_join (ps @ (xs @ c # ys) # qs) sep = fnv1a64_join (ps @ (xs @ d # ys) # qs) sep \<longleftrightarrow> c = d)"
  by (simp add: fnv_join_flat fnv1a64_def fold_fnv_inj fnv_byte_inj fnv_byte_inj_byte)

end
