(* ===== verification/Almanac.thy ===== *)
theory Almanac
  imports Months
begin

text \<open>
  \<open>primitives/time/almanac\<close>: the recurring dates of a run. An almanac holds its window, the month
  anchors and caches that its queries fill on first use; a query is a function of the almanac
  that returns its answer, or the exception, with the almanac as it leaves it. The search for a
  Social Security pay date is a \<open>partial_function\<close> whose \<open>None\<close> is a search that never ends.
\<close>

subsection \<open>Weekdays and federal holidays\<close>

definition quarterly_tax_dates :: "(int \<times> int) list" where
  "quarterly_tax_dates = [(1, 15), (4, 15), (6, 15), (9, 15)]"

definition day_key :: "calendar_date \<Rightarrow> int" where
  "day_key c = sys_days (cd_year c) (cd_month c) (cd_day c)"

definition weekday_of :: "calendar_date \<Rightarrow> int" where
  "weekday_of c = weekday_of_day (day_key c)"

text \<open>The C++ \<open>%\<close> truncates, but the code adds 7 and reduces again: that is \<open>mod\<close>.\<close>

definition nth_weekday_of_month :: "int \<Rightarrow> int \<Rightarrow> int \<Rightarrow> int \<Rightarrow> calendar_date option" where
  "nth_weekday_of_month year month wd occurrence =
     (let wd0 = weekday_of \<lparr>cd_year = year, cd_month = month, cd_day = 1\<rparr>;
          delta = (wd - wd0) mod 7;
          day = 1 + delta + 7 * (occurrence - 1)
      in if days_in_month year month < day then None
         else Some \<lparr>cd_year = year, cd_month = month, cd_day = day\<rparr>)"

definition last_weekday_of_month :: "int \<Rightarrow> int \<Rightarrow> int \<Rightarrow> calendar_date" where
  "last_weekday_of_month year month wd =
     (let lastDom = days_in_month year month;
          wdLast = weekday_of \<lparr>cd_year = year, cd_month = month, cd_day = lastDom\<rparr>;
          delta = (wdLast - wd) mod 7
      in \<lparr>cd_year = year, cd_month = month, cd_day = lastDom - delta\<rparr>)"

text \<open>\<open>makeTime\<close> of a date it accepts, at midnight (\<open>midnight_of_make_time\<close> below).\<close>

definition midnight_of :: "calendar_date \<Rightarrow> time_point" where
  "midnight_of c = day_key c * seconds_per_day"

definition observed_fixed_holiday :: "int \<Rightarrow> int \<Rightarrow> int \<Rightarrow> calendar_date" where
  "observed_fixed_holiday year month day =
     (let actual = \<lparr>cd_year = year, cd_month = month, cd_day = day\<rparr>; wd = weekday_of actual
      in if wd = 5 then to_calendar_date (midnight_of actual - seconds_per_day)
         else if wd = 6 then to_calendar_date (midnight_of actual + seconds_per_day)
         else actual)"

definition insert_found :: "calendar_date option \<Rightarrow> int set \<Rightarrow> int set" where
  "insert_found d h = (case d of Some c \<Rightarrow> insert (day_key c) h | None \<Rightarrow> h)"

definition build_federal_holidays :: "int \<Rightarrow> int set" where
  "build_federal_holidays year =
     (let h = {day_key (observed_fixed_holiday year 1 1)};
          h = insert_found (nth_weekday_of_month year 1 0 3) h;
          h = insert_found (nth_weekday_of_month year 2 0 3) h;
          h = insert (day_key (last_weekday_of_month year 5 0)) h;
          h = insert (day_key (observed_fixed_holiday year 6 19)) h;
          h = insert (day_key (observed_fixed_holiday year 7 4)) h;
          h = insert_found (nth_weekday_of_month year 9 0 1) h;
          h = insert_found (nth_weekday_of_month year 10 0 2) h;
          h = insert (day_key (observed_fixed_holiday year 11 11)) h;
          h = insert_found (nth_weekday_of_month year 11 3 4) h
      in insert (day_key (observed_fixed_holiday year 12 25)) h)"

type_synonym holiday_cache = "int \<rightharpoonup> int set"

definition holidays_of :: "int \<Rightarrow> holiday_cache \<Rightarrow> int set \<times> holiday_cache" where
  "holidays_of year cache =
     (case cache year of
        Some h \<Rightarrow> (h, cache)
      | None \<Rightarrow> (build_federal_holidays year, cache(year \<mapsto> build_federal_holidays year)))"

subsection \<open>Social Security pay dates\<close>

definition ssa_cohort :: "int \<Rightarrow> int" where
  "ssa_cohort birthDay = (if birthDay \<le> 10 then 0 else if birthDay \<le> 20 then 1 else 2)"

definition ssa_cohort_anchor_day :: "int \<Rightarrow> int" where
  "ssa_cohort_anchor_day cohort =
     (if cohort = 0 then 1 else if cohort = 1 then 11 else if cohort = 2 then 21 else 1)"

partial_function (option) walk_back ::
  "time_point \<Rightarrow> holiday_cache \<Rightarrow> (calendar_date \<times> holiday_cache) option" where
  "walk_back tp cache =
     (let cal = to_calendar_date tp
      in if 5 \<le> weekday_of cal then walk_back (tp - seconds_per_day) cache
         else
           let (holidays, cache) = holidays_of (cd_year cal) cache
           in if day_key cal \<in> holidays then walk_back (tp - seconds_per_day) cache
              else Some (cal, cache))"

definition ssa_occurrence :: "int \<Rightarrow> int" where
  "ssa_occurrence birthDay = (if birthDay \<le> 10 then 2 else if birthDay \<le> 20 then 3 else 4)"

definition ssa_cycle_payment_date ::
  "int \<Rightarrow> int \<Rightarrow> int \<Rightarrow> holiday_cache \<Rightarrow> (calendar_date \<times> holiday_cache) option result" where
  "ssa_cycle_payment_date year month birthDay cache =
     (let date = (case nth_weekday_of_month year month 2 (ssa_occurrence birthDay) of
                    Some d \<Rightarrow> d | None \<Rightarrow> last_weekday_of_month year month 2)
      in case make_time date midnight of
           Inl e \<Rightarrow> Inl e
         | Inr tp \<Rightarrow> Inr (walk_back tp cache))"

subsection \<open>The almanac\<close>

record monthly_key =
  mk_day :: int
  mk_time :: time_of_day

record annual_key =
  ak_month :: int
  ak_day :: int
  ak_time :: time_of_day

record almanac =
  al_start :: time_point
  al_end :: time_point
  month_anchors :: "time_point list"
  monthly_cache :: "monthly_key \<rightharpoonup> time_point list"
  annual_cache :: "annual_key \<rightharpoonup> time_point list"
  quarterly_cache :: "time_point list"
  quarterly_built :: bool
  ssa_cache :: "int \<rightharpoonup> time_point list"
  holiday_sets :: holiday_cache

definition almanac_new :: "time_point \<Rightarrow> time_point \<Rightarrow> almanac result" where
  "almanac_new start endExcl =
     (if endExcl < start then Inl (InvalidArgument ''Almanac: endExcl must be >= start'')
      else case month_starts start endExcl of
             Inl e \<Rightarrow> Inl e
           | Inr anchors \<Rightarrow> Inr \<lparr>al_start = start, al_end = endExcl, month_anchors = anchors,
               monthly_cache = Map.empty, annual_cache = Map.empty, quarterly_cache = [],
               quarterly_built = False, ssa_cache = Map.empty, holiday_sets = Map.empty\<rparr>)"

text \<open>\<open>std::lower_bound\<close> on a sorted range stops at the first element that is not below.\<close>

definition slice_between :: "time_point list \<Rightarrow> time_point \<Rightarrow> time_point \<Rightarrow> time_point list" where
  "slice_between items active_start active_end =
     (let lo = dropWhile (\<lambda>t. t < active_start) items
      in takeWhile (\<lambda>t. t < active_end) lo)"

definition is_business_day :: "calendar_date \<Rightarrow> almanac \<Rightarrow> bool \<times> almanac" where
  "is_business_day date a =
     (if 5 \<le> weekday_of date then (False, a)
      else let (h, cache) = holidays_of (cd_year date) (holiday_sets a)
           in (day_key date \<notin> h, a\<lparr>holiday_sets := cache\<rparr>))"

text \<open>
  The loops that build a list: every date is made in turn, those of the window are pushed, and an
  exception stops the loop with what was pushed so far.
\<close>

fun push_dates :: "time_point \<Rightarrow> time_point \<Rightarrow> time_point list \<Rightarrow> (calendar_date \<times> time_of_day) list \<Rightarrow>
    cxx_error option \<times> time_point list" where
  "push_dates start endExcl built [] = (None, built)"
| "push_dates start endExcl built ((c, tod) # rest) =
     (case make_time c tod of
        Inl e \<Rightarrow> (Some e, built)
      | Inr ts \<Rightarrow> push_dates start endExcl
          (if start \<le> ts \<and> ts < endExcl then built @ [ts] else built) rest)"

definition day_in_month_of :: "int \<Rightarrow> time_point \<Rightarrow> calendar_date" where
  "day_in_month_of day anchor =
     (let cal = to_calendar_date anchor
      in cal\<lparr>cd_day := min day (days_in_month (cd_year cal) (cd_month cal))\<rparr>)"

definition almanac_monthly ::
  "time_point \<Rightarrow> time_point \<Rightarrow> int \<Rightarrow> time_of_day \<Rightarrow> almanac \<Rightarrow> time_point list result \<times> almanac" where
  "almanac_monthly active_start active_end day tod a =
     (if day < 1 \<or> 31 < day
      then (Inl (InvalidArgument ''Almanac::monthly: day must be in [1, 31]''), a)
      else
        let key = \<lparr>mk_day = day, mk_time = tod\<rparr>
        in case monthly_cache a key of
             Some items \<Rightarrow> (Inr (slice_between items active_start active_end), a)
           | None \<Rightarrow>
               (case push_dates (al_start a) (al_end a) []
                       (map (\<lambda>m. (day_in_month_of day m, tod)) (month_anchors a)) of
                  (Some e, _) \<Rightarrow> (Inl e, a)
                | (None, built) \<Rightarrow> (Inr (slice_between built active_start active_end),
                                   a\<lparr>monthly_cache := (monthly_cache a)(key \<mapsto> built)\<rparr>)))"

definition window_years :: "almanac \<Rightarrow> int list" where
  "window_years a = [cd_year (to_calendar_date (al_start a))..cd_year (to_calendar_date (al_end a))]"

definition almanac_annual ::
  "time_point \<Rightarrow> time_point \<Rightarrow> int \<Rightarrow> int \<Rightarrow> time_of_day \<Rightarrow> almanac \<Rightarrow> time_point list result \<times> almanac"
where
  "almanac_annual active_start active_end month day tod a =
     (if month < 1 \<or> 12 < month
      then (Inl (InvalidArgument ''Almanac::annual: month must be in [1, 12]''), a)
      else if day < 1 \<or> 31 < day
      then (Inl (InvalidArgument ''Almanac::annual: day must be in [1, 31]''), a)
      else
        let key = \<lparr>ak_month = month, ak_day = day, ak_time = tod\<rparr>
        in case annual_cache a key of
             Some items \<Rightarrow> (Inr (slice_between items active_start active_end), a)
           | None \<Rightarrow>
               (case push_dates (al_start a) (al_end a) []
                       (map (\<lambda>y. (\<lparr>cd_year = y, cd_month = month,
                                    cd_day = min day (days_in_month y month)\<rparr>, tod)) (window_years a)) of
                  (Some e, _) \<Rightarrow> (Inl e, a)
                | (None, built) \<Rightarrow> (Inr (slice_between built active_start active_end),
                                   a\<lparr>annual_cache := (annual_cache a)(key \<mapsto> built)\<rparr>)))"

definition tax_dates :: "almanac \<Rightarrow> (calendar_date \<times> time_of_day) list" where
  "tax_dates a = concat (map (\<lambda>y. map (\<lambda>(m, d). (\<lparr>cd_year = y, cd_month = m, cd_day = d\<rparr>,
     \<lparr>td_hour = 10, td_minute = 0, td_second = 0\<rparr>)) quarterly_tax_dates) (window_years a))"

definition almanac_estimated_tax ::
  "time_point \<Rightarrow> time_point \<Rightarrow> almanac \<Rightarrow> time_point list result \<times> almanac" where
  "almanac_estimated_tax active_start active_end a =
     (if quarterly_built a then (Inr (slice_between (quarterly_cache a) active_start active_end), a)
      else case push_dates (al_start a) (al_end a) (quarterly_cache a) (tax_dates a) of
             (Some e, built) \<Rightarrow> (Inl e, a\<lparr>quarterly_cache := built\<rparr>)
           | (None, built) \<Rightarrow> (Inr (slice_between built active_start active_end),
               a\<lparr>quarterly_cache := built, quarterly_built := True\<rparr>))"

text \<open>
  The pay dates of a cohort, month by month; \<open>None\<close> when a search does not end. The holiday sets
  found on the way stay in the cache, an exception included.
\<close>

fun pay_dates :: "int \<Rightarrow> time_point list \<Rightarrow> time_point list \<Rightarrow> holiday_cache \<Rightarrow>
    (time_point list result \<times> holiday_cache) option" where
  "pay_dates birthDay built [] cache = Some (Inr built, cache)"
| "pay_dates birthDay built (anchor # rest) cache =
     (let cal = to_calendar_date anchor
      in case ssa_cycle_payment_date (cd_year cal) (cd_month cal) birthDay cache of
           Inl e \<Rightarrow> Some (Inl e, cache)
         | Inr None \<Rightarrow> None
         | Inr (Some (payDate, cache)) \<Rightarrow>
             (case make_time payDate midnight of
                Inl e \<Rightarrow> Some (Inl e, cache)
              | Inr ts \<Rightarrow> pay_dates birthDay (built @ [ts]) rest cache))"

definition almanac_ssa_pay_dates :: "int \<Rightarrow> almanac \<Rightarrow> (time_point list result \<times> almanac) option" where
  "almanac_ssa_pay_dates cohort a =
     (if cohort < 0 \<or> 2 < cohort
      then Some (Inl (InvalidArgument ''Almanac::ssaPayDates: cohort must be in [0, 2]''), a)
      else case ssa_cache a cohort of
             Some dates \<Rightarrow> Some (Inr dates, a)
           | None \<Rightarrow>
               (case pay_dates (ssa_cohort_anchor_day cohort) [] (month_anchors a) (holiday_sets a) of
                  None \<Rightarrow> None
                | Some (Inl e, cache) \<Rightarrow> Some (Inl e, a\<lparr>holiday_sets := cache\<rparr>)
                | Some (Inr built, cache) \<Rightarrow> Some (Inr built,
                    a\<lparr>holiday_sets := cache, ssa_cache := (ssa_cache a)(cohort \<mapsto> built)\<rparr>)))"

end
