(* ===== verification/AlmanacFacts.thy ===== *)
theory AlmanacFacts
  imports Almanac
begin

text \<open>
  Facts about the almanac: the nth weekday is that weekday, a Wednesday holiday is a fixed date
  and the Tuesday before it is none, so the search for a pay date takes one step at most; and the
  cached lists are the ones a fresh almanac would build.
\<close>

subsection \<open>Weekdays\<close>

lemma day_key_civil [simp]: "day_key (civil n) = n"
  using civil_facts(5) [of n] by (simp add: day_key_def)

lemma weekday_of_civil [simp]: "weekday_of (civil n) = weekday_of_day n"
  by (simp add: weekday_of_def)

lemma to_calendar_date_midnight [simp]: "to_calendar_date (n * seconds_per_day) = civil n"
  by (simp add: to_calendar_date_def)

lemma midnight_of_make_time: "valid_date c \<Longrightarrow> make_time c midnight = Inr (midnight_of c)"
  by (simp add: make_time_valid midnight_def midnight_of_def day_key_def)

lemma day_key_day: "day_key \<lparr>cd_year = y, cd_month = m, cd_day = d + k\<rparr> =
    day_key \<lparr>cd_year = y, cd_month = m, cd_day = d\<rparr> + k"
  by (simp add: day_key_def sys_days_def)

lemma weekday_reached:
  assumes "0 \<le> wd" "wd < 7"
  shows "weekday_of_day (n + (wd - weekday_of_day n) mod 7 + 7 * k) = wd"
proof -
  let ?w = "wd - (n + 3) mod 7"
  have "n + ?w mod 7 + 7 * k + 3 = n + 3 + 7 * k + ?w mod 7" by simp
  also have "(n + 3 + 7 * k + ?w mod 7) mod 7 = (n + 3 + 7 * k + ?w) mod 7"
    by (rule mod_add_right_eq)
  also have "n + 3 + 7 * k + ?w = wd + 7 * k + (n + 3 - (n + 3) mod 7)" by simp
  also have "n + 3 - (n + 3) mod 7 = 7 * ((n + 3) div 7)" by (rule minus_mod_eq_mult_div)
  also have "(wd + 7 * k + 7 * ((n + 3) div 7)) mod 7 = wd mod 7" by simp
  finally show ?thesis using assms by (simp add: weekday_of_day_def)
qed

lemma nth_weekday_shape:
  assumes "nth_weekday_of_month y m wd k = Some c" "0 \<le> wd" "wd < 7"
  shows "weekday_of c = wd" "cd_year c = y" "cd_month c = m"
    "7 * k - 6 \<le> cd_day c" "cd_day c \<le> 7 * k" "cd_day c \<le> days_in_month y m"
proof -
  let ?n = "day_key \<lparr>cd_year = y, cd_month = m, cd_day = 1\<rparr>"
  let ?delta = "(wd - weekday_of_day ?n) mod 7"
  have c: "c = \<lparr>cd_year = y, cd_month = m, cd_day = 1 + ?delta + 7 * (k - 1)\<rparr>"
      "1 + ?delta + 7 * (k - 1) \<le> days_in_month y m"
    using assms(1) by (auto simp: nth_weekday_of_month_def weekday_of_def Let_def split: if_splits)
  have "day_key c = ?n + ?delta + 7 * (k - 1)"
    using day_key_day [of y m 1 "?delta + 7 * (k - 1)"] by (simp add: c(1) add.assoc)
  then show "weekday_of c = wd"
    unfolding weekday_of_def using weekday_reached [OF assms(2,3), of ?n "k - 1"] by simp
  have "0 \<le> ?delta" "?delta < 7" by simp_all
  then show "7 * k - 6 \<le> cd_day c" "cd_day c \<le> 7 * k" by (simp_all add: c(1))
  show "cd_year c = y" "cd_month c = m" "cd_day c \<le> days_in_month y m" using c by simp_all
qed

lemma nth_weekday_exists:
  assumes "k \<le> 4" shows "nth_weekday_of_month y m wd k \<noteq> None"
proof -
  have "(wd - z) mod 7 < 7" for z :: int by simp
  then have "\<not> days_in_month y m < 1 + (wd - z) mod 7 + 7 * (k - 1)" for z :: int
    using assms days_in_month_bounds(1) [of y m] by (smt (verit))
  then show ?thesis unfolding nth_weekday_of_month_def Let_def by simp
qed

lemma last_weekday_weekday:
  assumes "0 \<le> wd" "wd < 7"
  shows "weekday_of (last_weekday_of_month y m wd) = wd"
proof -
  let ?n = "day_key \<lparr>cd_year = y, cd_month = m, cd_day = days_in_month y m\<rparr>"
  let ?delta = "(weekday_of_day ?n - wd) mod 7"
  have "day_key (last_weekday_of_month y m wd) = ?n - ?delta"
    using day_key_day [of y m "days_in_month y m" "- ?delta"]
    by (simp add: last_weekday_of_month_def Let_def weekday_of_def)
  moreover have "(?n - ((?n + 3) mod 7 - wd) mod 7 + 3) mod 7 = wd mod 7"
  proof -
    have "(?n + 3 - ((?n + 3) mod 7 - wd) mod 7) mod 7 = (?n + 3 - ((?n + 3) mod 7 - wd)) mod 7"
      by (rule mod_diff_right_eq)
    also have "?n + 3 - ((?n + 3) mod 7 - wd) = wd + (?n + 3 - (?n + 3) mod 7)" by simp
    also have "?n + 3 - (?n + 3) mod 7 = 7 * ((?n + 3) div 7)" by (rule minus_mod_eq_mult_div)
    also have "(wd + 7 * ((?n + 3) div 7)) mod 7 = wd mod 7" by simp
    finally show ?thesis by (simp add: algebra_simps)
  qed
  ultimately show ?thesis using assms by (simp add: weekday_of_def weekday_of_day_def)
qed

subsection \<open>Holidays in the middle of the week\<close>

definition fixed_holidays :: "(int \<times> int) list" where
  "fixed_holidays = [(1, 1), (6, 19), (7, 4), (11, 11), (12, 25)]"

definition nth_holidays :: "(int \<times> int \<times> int) list" where
  "nth_holidays = [(1, 0, 3), (2, 0, 3), (9, 0, 1), (10, 0, 2), (11, 3, 4)]"

lemma observed_day:
  "day_key (observed_fixed_holiday y m d) =
     (let n = sys_days y m d
      in if weekday_of_day n = 5 then n - 1 else if weekday_of_day n = 6 then n + 1 else n)"
proof -
  let ?n = "sys_days y m d"
  have key: "day_key \<lparr>cd_year = y, cd_month = m, cd_day = d\<rparr> = ?n" by (simp add: day_key_def)
  have "?n * seconds_per_day - seconds_per_day = (?n - 1) * seconds_per_day"
    "?n * seconds_per_day + seconds_per_day = (?n + 1) * seconds_per_day"
    by (simp_all add: algebra_simps)
  then show ?thesis
    by (simp add: observed_fixed_holiday_def Let_def midnight_of_def key weekday_of_def)
qed

lemma observed_midweek:
  assumes "weekday_of_day (day_key (observed_fixed_holiday y m d)) \<in> {1, 2}"
  shows "day_key (observed_fixed_holiday y m d) = sys_days y m d"
proof -
  have "(n - 1 + 3) mod 7 = 4" if "(n + 3) mod 7 = 5" for n :: int
    using that mod_diff_left_eq [of "n + 3" 7 1] by simp
  moreover have "(n + 1 + 3) mod 7 = 0" if "(n + 3) mod 7 = 6" for n :: int
    using that mod_add_left_eq [of "n + 3" 7 1] by simp
  ultimately show ?thesis using assms
    by (auto simp: observed_day Let_def weekday_of_day_def split: if_splits)
qed

lemma federal_holidays_set:
  "build_federal_holidays y =
     (\<lambda>(m, d). day_key (observed_fixed_holiday y m d)) ` set fixed_holidays \<union>
     {day_key c | c m wd k. (m, wd, k) \<in> set nth_holidays \<and>
        nth_weekday_of_month y m wd k = Some c} \<union>
     {day_key (last_weekday_of_month y 5 0)}"
proof -
  have found: "insert_found d h = {day_key c | c. d = Some c} \<union> h" for d h
    by (auto simp: insert_found_def split: option.split)
  show ?thesis
    unfolding build_federal_holidays_def Let_def found fixed_holidays_def nth_holidays_def by auto
qed

lemma midweek_holiday_is_fixed:
  assumes "n \<in> build_federal_holidays y" "weekday_of_day n \<in> {1, 2}"
  shows "\<exists>(m, d) \<in> set fixed_holidays. n = sys_days y m d"
proof -
  consider (fixed) m d where "(m, d) \<in> set fixed_holidays" "n = day_key (observed_fixed_holiday y m d)"
    | (nth) c m wd k where "(m, wd, k) \<in> set nth_holidays"
        "nth_weekday_of_month y m wd k = Some c" "n = day_key c"
    | (last) "n = day_key (last_weekday_of_month y 5 0)"
    using assms(1) unfolding federal_holidays_set by auto
  then show ?thesis
  proof cases
    case fixed
    then show ?thesis using assms(2) observed_midweek [of y m d] by (intro bexI [of _ "(m, d)"]) auto
  next
    case nth
    then have "weekday_of_day n \<in> {0, 3}"
      using nth_weekday_shape(1) [of y m wd k c] by (auto simp: weekday_of_def nth_holidays_def)
    then show ?thesis using assms(2) by auto
  next
    case last
    then show ?thesis using assms(2) last_weekday_weekday [of 0 y 5] by (auto simp: weekday_of_def)
  qed
qed

lemma fixed_holidays_apart:
  assumes "(m, d) \<in> set fixed_holidays" "(m', d') \<in> set fixed_holidays"
  shows "sys_days y m d - 1 \<noteq> sys_days y m' d'"
  using assms by (cases "is_leap y") (auto simp: fixed_holidays_def sys_days_start month_table)

lemma day_before_wednesday: "weekday_of_day n = 2 \<Longrightarrow> weekday_of_day (n - 1) = 1"
  using mod_diff_left_eq [of "n + 3" 7 1] by (simp add: weekday_of_day_def)

lemma tuesday_before_a_holiday:
  assumes "n \<in> build_federal_holidays y" "weekday_of_day n = 2"
  shows "n - 1 \<notin> build_federal_holidays y"
proof
  assume n': "n - 1 \<in> build_federal_holidays y"
  have "weekday_of_day (n - 1) = 1" using assms(2) by (rule day_before_wednesday)
  with midweek_holiday_is_fixed [OF n'] midweek_holiday_is_fixed [OF assms(1)] assms(2)
  show False using fixed_holidays_apart by fastforce
qed

subsection \<open>The search for a pay date\<close>

definition cache_ok :: "holiday_cache \<Rightarrow> bool" where
  "cache_ok cache \<longleftrightarrow> (\<forall>y h. cache y = Some h \<longrightarrow> h = build_federal_holidays y)"

lemma cache_ok_empty [simp]: "cache_ok Map.empty"
  by (simp add: cache_ok_def)

lemma holidays_of_ok:
  "cache_ok cache \<Longrightarrow> fst (holidays_of y cache) = build_federal_holidays y \<and> cache_ok (snd (holidays_of y cache))"
  by (auto simp: holidays_of_def cache_ok_def split: option.split)

definition business_day :: "calendar_date \<Rightarrow> bool" where
  "business_day c \<longleftrightarrow> weekday_of c < 5 \<and> day_key c \<notin> build_federal_holidays (cd_year c)"

lemma walk_back_here:
  assumes "cache_ok cache" "business_day (civil n)"
  shows "\<exists>cache'. walk_back (n * seconds_per_day) cache = Some (civil n, cache') \<and> cache_ok cache'"
  using assms holidays_of_ok [OF assms(1), of "cd_year (civil n)"]
  by (subst walk_back.simps) (auto simp: business_day_def Let_def split: prod.split)

lemma walk_back_step:
  assumes "cache_ok cache" "weekday_of_day n < 5" "n \<in> build_federal_holidays (cd_year (civil n))"
  shows "\<exists>cache'. walk_back (n * seconds_per_day) cache = walk_back ((n - 1) * seconds_per_day) cache' \<and>
    cache_ok cache'"
proof -
  have "n * seconds_per_day - seconds_per_day = (n - 1) * seconds_per_day" by (simp add: algebra_simps)
  then show ?thesis
    using assms holidays_of_ok [OF assms(1), of "cd_year (civil n)"]
    by (subst walk_back.simps) (auto simp: Let_def split: prod.split)
qed

lemma walk_back_wednesday:
  assumes "cache_ok cache" "weekday_of_day n = 2" "cd_year (civil (n - 1)) = cd_year (civil n)"
  defines "pay \<equiv> if n \<in> build_federal_holidays (cd_year (civil n)) then n - 1 else n"
  shows "\<exists>cache'. walk_back (n * seconds_per_day) cache = Some (civil pay, cache') \<and> cache_ok cache' \<and>
    business_day (civil pay)"
proof (cases "n \<in> build_federal_holidays (cd_year (civil n))")
  case True
  have "weekday_of_day (n - 1) = 1" using assms(2) by (rule day_before_wednesday)
  then have b: "business_day (civil (n - 1))"
    using tuesday_before_a_holiday [OF True assms(2)] assms(3) by (simp add: business_day_def)
  obtain cache' where c: "walk_back (n * seconds_per_day) cache = walk_back ((n - 1) * seconds_per_day) cache'"
      "cache_ok cache'"
    using walk_back_step [OF assms(1) _ True] assms(2) by auto
  show ?thesis using walk_back_here [OF c(2) b] b c(1) True by (simp add: pay_def)
next
  case False
  then have b: "business_day (civil n)" using assms(2) by (simp add: business_day_def)
  show ?thesis using walk_back_here [OF assms(1) b] b False by (simp add: pay_def)
qed

text \<open>The pay date of a month: its Wednesday, or the Tuesday before when that is a holiday.\<close>

definition ssa_pay_spec :: "int \<Rightarrow> int \<Rightarrow> int \<Rightarrow> calendar_date" where
  "ssa_pay_spec y m birthDay =
     (let w = the (nth_weekday_of_month y m 2 (ssa_occurrence birthDay))
      in if day_key w \<in> build_federal_holidays y then w\<lparr>cd_day := cd_day w - 1\<rparr> else w)"

lemma ssa_occurrence_range: "2 \<le> ssa_occurrence b" "ssa_occurrence b \<le> 4"
  by (simp_all add: ssa_occurrence_def)

lemma civil_day_key:
  "1 \<le> cd_month c \<Longrightarrow> cd_month c \<le> 12 \<Longrightarrow> 1 \<le> cd_day c \<Longrightarrow> cd_day c \<le> days_in_month (cd_year c) (cd_month c)
    \<Longrightarrow> civil (day_key c) = c"
  by (simp add: day_key_def civil_sys_days)

lemma ssa_payment_correct:
  assumes "cache_ok cache" "1 \<le> m" "m \<le> 12" "year_in_range y"
  shows "\<exists>cache'. ssa_cycle_payment_date y m b cache = Inr (Some (ssa_pay_spec y m b, cache')) \<and>
    cache_ok cache'"
    and "business_day (ssa_pay_spec y m b)"
    and "valid_date (ssa_pay_spec y m b)" "cd_year (ssa_pay_spec y m b) = y" "cd_month (ssa_pay_spec y m b) = m"
proof -
  obtain w where w: "nth_weekday_of_month y m 2 (ssa_occurrence b) = Some w"
    using nth_weekday_exists [OF ssa_occurrence_range(2)] by blast
  note shape = nth_weekday_shape [OF w]
  have day: "8 \<le> cd_day w" using shape(4) ssa_occurrence_range(1) [of b] by simp
  let ?n = "day_key w" and ?t = "w\<lparr>cd_day := cd_day w - 1\<rparr>"
  have valid: "valid_date w" "valid_date ?t"
    using assms shape day by (auto simp: valid_date_def ymd_ok_def year_in_range_def)
  have t: "day_key ?t = ?n - 1" by (simp add: day_key_def sys_days_def)
  have cw: "civil ?n = w" using assms shape day by (intro civil_day_key) auto
  have ct: "civil (?n - 1) = ?t" using assms shape day by (subst t [symmetric], intro civil_day_key) auto
  have pay: "ssa_pay_spec y m b = civil (if ?n \<in> build_federal_holidays y then ?n - 1 else ?n)"
    by (simp add: ssa_pay_spec_def Let_def w cw ct)
  have wed: "weekday_of_day ?n = 2" "cd_year w = y" using shape by (simp_all add: weekday_of_def)
  note walk = walk_back_wednesday [of _ ?n, unfolded cw ct, OF _ wed(1)]
  have "make_time w midnight = Inr (?n * seconds_per_day)"
    using midnight_of_make_time [OF valid(1)] by (simp add: midnight_of_def)
  then show "\<exists>cache'. ssa_cycle_payment_date y m b cache = Inr (Some (ssa_pay_spec y m b, cache')) \<and>
      cache_ok cache'"
    using walk [OF assms(1)] wed(2)
    by (auto simp: ssa_cycle_payment_date_def Let_def w pay cw ct split: if_splits)
  show "business_day (ssa_pay_spec y m b)"
    using walk [OF cache_ok_empty] wed(2) by (auto simp: pay cw ct split: if_splits)
  show "valid_date (ssa_pay_spec y m b)" "cd_year (ssa_pay_spec y m b) = y"
    "cd_month (ssa_pay_spec y m b) = m"
    using valid shape by (auto simp: ssa_pay_spec_def Let_def w)
qed

text \<open>Every day of a cohort has the pay dates of its anchor day.\<close>

lemma cohort_anchor_occurrence:
  "ssa_occurrence (ssa_cohort_anchor_day (ssa_cohort b)) = ssa_occurrence b"
  by (simp add: ssa_occurrence_def ssa_cohort_anchor_day_def ssa_cohort_def)

lemma pay_dates_correct:
  assumes "cache_ok cache" "\<forall>t \<in> set anchors. year_in_range (cd_year (to_calendar_date t))"
  shows "\<exists>cache'. pay_dates b built anchors cache = Some (Inr (built @
     map (\<lambda>t. midnight_of (ssa_pay_spec (cd_year (to_calendar_date t)) (cd_month (to_calendar_date t)) b)) anchors),
     cache') \<and> cache_ok cache'"
  using assms
proof (induction anchors arbitrary: built cache)
  case (Cons t anchors)
  let ?c = "to_calendar_date t"
  have c: "1 \<le> cd_month ?c" "cd_month ?c \<le> 12" "year_in_range (cd_year ?c)"
    using civil_facts [of "t div seconds_per_day"] Cons.prems(2) by (auto simp: to_calendar_date_def)
  note p = ssa_payment_correct [OF Cons.prems(1) c, of b]
  obtain cache' where one: "ssa_cycle_payment_date (cd_year ?c) (cd_month ?c) b cache =
      Inr (Some (ssa_pay_spec (cd_year ?c) (cd_month ?c) b, cache'))" "cache_ok cache'"
    using p(1) by blast
  show ?case
    using Cons.IH [OF one(2), of "built @ [midnight_of (ssa_pay_spec (cd_year ?c) (cd_month ?c) b)]"]
      Cons.prems(2)
    by (simp add: Let_def one(1) midnight_of_make_time [OF p(3)])
qed simp

subsection \<open>Lists the queries build\<close>

definition instant_of :: "calendar_date \<Rightarrow> time_of_day \<Rightarrow> time_point" where
  "instant_of c tod =
     midnight_of c + (td_hour tod * 3600 + td_minute tod * 60 + td_second tod)"

lemma make_time_instant: "valid_date c \<Longrightarrow> make_time c tod = Inr (instant_of c tod)"
  by (simp add: make_time_valid instant_of_def midnight_of_def day_key_def)

lemma push_dates_valid:
  assumes "\<forall>d \<in> set ds. valid_date (fst d)"
  shows "push_dates s e built ds = (None, built @
    filter (\<lambda>t. s \<le> t \<and> t < e) (map (\<lambda>(c, tod). instant_of c tod) ds))"
  using assms
proof (induction ds arbitrary: built)
  case (Cons d ds)
  obtain c tod where d: "d = (c, tod)" by fastforce
  have "make_time c tod = Inr (instant_of c tod)"
    using Cons.prems make_time_instant [of c tod] d by simp
  moreover have "\<forall>d \<in> set ds. valid_date (fst d)" using Cons.prems by simp
  ultimately show ?case using Cons.IH by (simp add: d)
qed simp

lemma slice_filter:
  "sorted items \<Longrightarrow> slice_between items a b = filter (\<lambda>t. a \<le> t \<and> t < b) items"
proof (induction items)
  case (Cons x items)
  have tail: "takeWhile (\<lambda>t. t < b) (x # items) = filter (\<lambda>t. a \<le> t \<and> t < b) (x # items)"
    if "a \<le> x"
  proof (cases "x < b")
    case True
    have "dropWhile (\<lambda>t. t < a) items = items"
      using Cons.prems that by (cases items) auto
    then show ?thesis using True that Cons by (simp add: slice_between_def)
  next
    case False
    then have "\<forall>t \<in> set items. \<not> t < b" using Cons.prems by auto
    then show ?thesis using False by (auto simp: filter_empty_conv)
  qed
  show ?case
  proof (cases "x < a")
    case True
    then show ?thesis using Cons by (auto simp: slice_between_def)
  next
    case False
    then show ?thesis using tail by (simp add: slice_between_def)
  qed
qed (simp add: slice_between_def)

subsection \<open>What the caches hold\<close>

definition monthly_dates :: "almanac \<Rightarrow> int \<Rightarrow> time_of_day \<Rightarrow> (calendar_date \<times> time_of_day) list" where
  "monthly_dates a day tod = map (\<lambda>m. (day_in_month_of day m, tod)) (month_anchors a)"

definition annual_dates :: "almanac \<Rightarrow> int \<Rightarrow> int \<Rightarrow> time_of_day \<Rightarrow> (calendar_date \<times> time_of_day) list" where
  "annual_dates a month day tod =
     map (\<lambda>y. (\<lparr>cd_year = y, cd_month = month, cd_day = min day (days_in_month y month)\<rparr>, tod)) (window_years a)"

definition window_instants :: "almanac \<Rightarrow> (calendar_date \<times> time_of_day) list \<Rightarrow> time_point list" where
  "window_instants a ds =
     filter (\<lambda>t. al_start a \<le> t \<and> t < al_end a) (map (\<lambda>(c, tod). instant_of c tod) ds)"

definition ssa_dates :: "almanac \<Rightarrow> int \<Rightarrow> time_point list" where
  "ssa_dates a cohort =
     map (\<lambda>t. midnight_of (ssa_pay_spec (cd_year (to_calendar_date t)) (cd_month (to_calendar_date t))
            (ssa_cohort_anchor_day cohort))) (month_anchors a)"

definition years_ok :: "almanac \<Rightarrow> bool" where
  "years_ok a \<longleftrightarrow> (\<forall>t \<in> set (month_anchors a). year_in_range (cd_year (to_calendar_date t))) \<and>
     (\<forall>y \<in> set (window_years a). year_in_range y)"

definition almanac_ok :: "almanac \<Rightarrow> bool" where
  "almanac_ok a \<longleftrightarrow> years_ok a \<and> cache_ok (holiday_sets a) \<and>
     (\<forall>k v. monthly_cache a k = Some v \<longrightarrow>
        v = window_instants a (monthly_dates a (mk_day k) (mk_time k))) \<and>
     (\<forall>k v. annual_cache a k = Some v \<longrightarrow>
        v = window_instants a (annual_dates a (ak_month k) (ak_day k) (ak_time k))) \<and>
     quarterly_cache a = (if quarterly_built a then window_instants a (tax_dates a) else []) \<and>
     (\<forall>k v. ssa_cache a k = Some v \<longrightarrow> v = ssa_dates a k)"

text \<open>The fixed part of an almanac.\<close>

definition same_window :: "almanac \<Rightarrow> almanac \<Rightarrow> bool" where
  "same_window a b \<longleftrightarrow> al_start a = al_start b \<and> al_end a = al_end b \<and> month_anchors a = month_anchors b"

lemma same_window_lists:
  assumes "same_window a b"
  shows "window_years a = window_years b" "window_instants a ds = window_instants b ds"
    "monthly_dates a d t = monthly_dates b d t" "annual_dates a m d t = annual_dates b m d t"
    "tax_dates a = tax_dates b" "ssa_dates a c = ssa_dates b c" "years_ok a = years_ok b"
  using assms by (simp_all add: same_window_def window_years_def window_instants_def
      monthly_dates_def annual_dates_def tax_dates_def ssa_dates_def years_ok_def)

lemma almanac_ok_same:
  assumes "same_window a b" "almanac_ok a"
    and "cache_ok (holiday_sets b)"
    and "\<And>k v. monthly_cache b k = Some v \<Longrightarrow> v = window_instants a (monthly_dates a (mk_day k) (mk_time k))"
    and "\<And>k v. annual_cache b k = Some v \<Longrightarrow>
      v = window_instants a (annual_dates a (ak_month k) (ak_day k) (ak_time k))"
    and "quarterly_cache b = (if quarterly_built b then window_instants a (tax_dates a) else [])"
    and "\<And>k v. ssa_cache b k = Some v \<Longrightarrow> v = ssa_dates a k"
  shows "almanac_ok b"
  using assms unfolding almanac_ok_def same_window_lists [OF assms(1)] by blast

lemma day_in_month_valid:
  assumes "year_in_range (cd_year (to_calendar_date t))" "1 \<le> day"
  shows "valid_date (day_in_month_of day t)"
  using assms civil_facts [of "t div seconds_per_day"] days_in_month_bounds(1)
  by (auto simp: day_in_month_of_def Let_def valid_date_def ymd_ok_def year_in_range_def
      to_calendar_date_def min_def intro: order_trans [of 1 28])

lemma monthly_push:
  assumes "years_ok a" "1 \<le> day"
  shows "push_dates (al_start a) (al_end a) [] (map (\<lambda>m. (day_in_month_of day m, tod)) (month_anchors a)) =
    (None, window_instants a (monthly_dates a day tod))"
proof -
  have "\<forall>d \<in> set (monthly_dates a day tod). valid_date (fst d)"
    using assms day_in_month_valid by (auto simp: monthly_dates_def years_ok_def)
  from push_dates_valid [OF this] show ?thesis
    by (simp add: window_instants_def monthly_dates_def)
qed

lemma annual_push:
  assumes "years_ok a" "1 \<le> month" "month \<le> 12" "1 \<le> day"
  shows "push_dates (al_start a) (al_end a) [] (map (\<lambda>y. (\<lparr>cd_year = y, cd_month = month,
      cd_day = min day (days_in_month y month)\<rparr>, tod)) (window_years a)) =
    (None, window_instants a (annual_dates a month day tod))"
proof -
  have "1 \<le> days_in_month y month" for y using days_in_month_bounds(1) [of y month] by simp
  then have "\<forall>d \<in> set (annual_dates a month day tod). valid_date (fst d)"
    using assms by (auto simp: annual_dates_def years_ok_def valid_date_def ymd_ok_def year_in_range_def)
  from push_dates_valid [OF this] show ?thesis
    by (simp add: window_instants_def annual_dates_def)
qed

lemma tax_push:
  assumes "years_ok a"
  shows "push_dates (al_start a) (al_end a) [] (tax_dates a) = (None, window_instants a (tax_dates a))"
proof -
  have "\<forall>d \<in> set (tax_dates a). valid_date (fst d)"
    using assms by (auto simp: tax_dates_def years_ok_def valid_date_def ymd_ok_def
        year_in_range_def quarterly_tax_dates_def days_in_month_def)
  from push_dates_valid [OF this] show ?thesis
    by (simp add: window_instants_def)
qed

end
