(* ===== verification/AlmanacClaims.thy ===== *)
theory AlmanacClaims
  imports AlmanacFacts
begin

text \<open>
  What the almanac promises: pay dates are business days found in one step, and every query
  answers what a fresh almanac would, however the caches stand.
\<close>

subsection \<open>Pay dates\<close>

text \<open>C34: The search for a Social Security pay date ends for every month and day of birth: it
  returns the cohort's Wednesday of the month, or the Tuesday before when that Wednesday is a
  federal holiday; the date is a business day of the same month, every day of a cohort gets the
  date of its anchor day, and the cached holiday sets stay those of their years.\<close>

theorem ssa_pay_date_found:
  assumes "cache_ok cache" "1 \<le> m" "m \<le> 12" "\<bar>y\<bar> \<le> 32767"
  shows "\<exists>pay w cache'. ssa_cycle_payment_date y m b cache = Inr (Some (pay, cache')) \<and> cache_ok cache' \<and>
    business_day pay \<and> cd_year pay = y \<and> cd_month pay = m \<and>
    nth_weekday_of_month y m 2 (ssa_occurrence b) = Some w \<and>
    (if day_key w \<in> build_federal_holidays y then day_key pay = day_key w - 1 else pay = w) \<and>
    ssa_cycle_payment_date y m (ssa_cohort_anchor_day (ssa_cohort b)) cache = Inr (Some (pay, cache'))"
proof -
  have y: "year_in_range y" using assms(4) by (auto simp: year_in_range_def abs_le_iff)
  note p = ssa_payment_correct [OF assms(1-3) y, of b]
  obtain w where w: "nth_weekday_of_month y m 2 (ssa_occurrence b) = Some w"
    using nth_weekday_exists [OF ssa_occurrence_range(2)] by blast
  obtain cache' where one: "ssa_cycle_payment_date y m b cache = Inr (Some (ssa_pay_spec y m b, cache'))"
      "cache_ok cache'"
    using p(1) by blast
  have "ssa_cycle_payment_date y m (ssa_cohort_anchor_day (ssa_cohort b)) cache =
      ssa_cycle_payment_date y m b cache"
    by (simp add: ssa_cycle_payment_date_def cohort_anchor_occurrence)
  moreover have "if day_key w \<in> build_federal_holidays y then day_key (ssa_pay_spec y m b) = day_key w - 1
      else ssa_pay_spec y m b = w"
    by (simp add: ssa_pay_spec_def Let_def w day_key_def sys_days_def)
  ultimately show ?thesis using one p(2,4,5) w by metis
qed

theorem ssa_pay_date_found_witness:
  "\<exists>pay w cache'. ssa_cycle_payment_date 2018 7 5 Map.empty = Inr (Some (pay, cache')) \<and> cache_ok cache' \<and>
    business_day pay \<and> cd_year pay = 2018 \<and> cd_month pay = 7 \<and>
    nth_weekday_of_month 2018 7 2 (ssa_occurrence 5) = Some w \<and>
    (if day_key w \<in> build_federal_holidays 2018 then day_key pay = day_key w - 1 else pay = w) \<and>
    ssa_cycle_payment_date 2018 7 (ssa_cohort_anchor_day (ssa_cohort 5)) Map.empty = Inr (Some (pay, cache'))"
  by (rule ssa_pay_date_found) simp_all

text \<open>
  The observed New Year's Day of a year whose January 1 is a Saturday is December 31 of the year
  before, and it is filed under the later year only: December 31, 2021 passes as a business day.
\<close>

lemma observed_new_year_is_missed:
  assumes "holiday_sets a = Map.empty"
  shows "observed_fixed_holiday 2022 1 1 = \<lparr>cd_year = 2021, cd_month = 12, cd_day = 31\<rparr>"
    and "fst (is_business_day \<lparr>cd_year = 2021, cd_month = 12, cd_day = 31\<rparr> a)"
proof -
  let ?d = "\<lparr>cd_year = 2021, cd_month = 12, cd_day = 31\<rparr>"
  show "observed_fixed_holiday 2022 1 1 = ?d" by code_simp
  have "\<not> 5 \<le> weekday_of ?d" by code_simp
  moreover have "day_key ?d \<notin> build_federal_holidays 2021" by code_simp
  ultimately show "fst (is_business_day ?d a)"
    by (simp add: is_business_day_def holidays_of_def assms)
qed

subsection \<open>Caches\<close>

datatype almanac_query =
    Monthly time_point time_point int time_of_day
  | Annual time_point time_point int int time_of_day
  | EstimatedTax time_point time_point
  | SsaPayDates int

fun run_query :: "almanac_query \<Rightarrow> almanac \<Rightarrow> (time_point list result \<times> almanac) option" where
  "run_query (Monthly s e day tod) a = Some (almanac_monthly s e day tod a)"
| "run_query (Annual s e month day tod) a = Some (almanac_annual s e month day tod a)"
| "run_query (EstimatedTax s e) a = Some (almanac_estimated_tax s e a)"
| "run_query (SsaPayDates cohort) a = almanac_ssa_pay_dates cohort a"

fun run_queries :: "almanac_query list \<Rightarrow> almanac \<Rightarrow> almanac option" where
  "run_queries [] a = Some a"
| "run_queries (q # qs) a = (case run_query q a of None \<Rightarrow> None | Some (_, a) \<Rightarrow> run_queries qs a)"

text \<open>The answer of a query, from the window alone.\<close>

fun query_answer :: "almanac \<Rightarrow> almanac_query \<Rightarrow> time_point list result" where
  "query_answer a (Monthly s e day tod) =
     (if day < 1 \<or> 31 < day then Inl (InvalidArgument ''Almanac::monthly: day must be in [1, 31]'')
      else Inr (slice_between (window_instants a (monthly_dates a day tod)) s e))"
| "query_answer a (Annual s e month day tod) =
     (if month < 1 \<or> 12 < month then Inl (InvalidArgument ''Almanac::annual: month must be in [1, 12]'')
      else if day < 1 \<or> 31 < day then Inl (InvalidArgument ''Almanac::annual: day must be in [1, 31]'')
      else Inr (slice_between (window_instants a (annual_dates a month day tod)) s e))"
| "query_answer a (EstimatedTax s e) = Inr (slice_between (window_instants a (tax_dates a)) s e)"
| "query_answer a (SsaPayDates cohort) =
     (if cohort < 0 \<or> 2 < cohort then Inl (InvalidArgument ''Almanac::ssaPayDates: cohort must be in [0, 2]'')
      else Inr (ssa_dates a cohort))"

lemma cache_hits:
  assumes "almanac_ok a"
  shows "monthly_cache a \<lparr>mk_day = day, mk_time = tod\<rparr> = Some v \<Longrightarrow>
      v = window_instants a (monthly_dates a day tod)"
    and "annual_cache a \<lparr>ak_month = month, ak_day = day, ak_time = tod\<rparr> = Some v \<Longrightarrow>
      v = window_instants a (annual_dates a month day tod)"
    and "ssa_cache a cohort = Some v \<Longrightarrow> v = ssa_dates a cohort"
    and "quarterly_built a \<Longrightarrow> quarterly_cache a = window_instants a (tax_dates a)"
  using assms unfolding almanac_ok_def
  by (metis monthly_key.select_convs, metis annual_key.select_convs, simp_all)

lemma run_query_correct:
  assumes "almanac_ok a"
  shows "\<exists>b. run_query q a = Some (query_answer a q, b) \<and> same_window a b \<and> almanac_ok b"
proof -
  have y: "years_ok a" and refl: "same_window a a" using assms by (auto simp: almanac_ok_def same_window_def)
  show ?thesis
  proof (cases q)
    case (Monthly s e day tod)
    let ?k = "\<lparr>mk_day = day, mk_time = tod\<rparr>"
    show ?thesis
    proof (cases "day < 1 \<or> 31 < day \<or> monthly_cache a ?k \<noteq> None")
      case True
      then show ?thesis using assms refl Monthly
        by (auto simp: almanac_monthly_def Let_def dest: cache_hits [OF assms])
    next
      case False
      let ?b = "a\<lparr>monthly_cache := (monthly_cache a)(?k \<mapsto> window_instants a (monthly_dates a day tod))\<rparr>"
      have s: "same_window a ?b" by (simp add: same_window_def)
      have "almanac_ok ?b" using assms
        by (intro almanac_ok_same [OF s assms]) (auto simp: almanac_ok_def split: if_splits)
      then show ?thesis using s False monthly_push [OF y] Monthly
        by (auto simp: almanac_monthly_def Let_def)
    qed
  next
    case (Annual s e month day tod)
    let ?k = "\<lparr>ak_month = month, ak_day = day, ak_time = tod\<rparr>"
    show ?thesis
    proof (cases "month < 1 \<or> 12 < month \<or> day < 1 \<or> 31 < day \<or> annual_cache a ?k \<noteq> None")
      case True
      then show ?thesis using assms refl Annual
        by (auto simp: almanac_annual_def Let_def dest: cache_hits [OF assms])
    next
      case False
      let ?b = "a\<lparr>annual_cache := (annual_cache a)(?k \<mapsto> window_instants a (annual_dates a month day tod))\<rparr>"
      have s: "same_window a ?b" by (simp add: same_window_def)
      have "almanac_ok ?b" using assms
        by (intro almanac_ok_same [OF s assms]) (auto simp: almanac_ok_def split: if_splits)
      then show ?thesis using s False annual_push [OF y] Annual
        by (auto simp: almanac_annual_def Let_def)
    qed
  next
    case (EstimatedTax s e)
    show ?thesis
    proof (cases "quarterly_built a")
      case True
      then show ?thesis using assms refl EstimatedTax
        by (auto simp: almanac_estimated_tax_def cache_hits [OF assms])
    next
      case False
      let ?b = "a\<lparr>quarterly_cache := window_instants a (tax_dates a), quarterly_built := True\<rparr>"
      have s: "same_window a ?b" by (simp add: same_window_def)
      have "almanac_ok ?b" using assms
        by (intro almanac_ok_same [OF s assms]) (auto simp: almanac_ok_def split: if_splits)
      moreover have "quarterly_cache a = []" using assms False by (simp add: almanac_ok_def)
      ultimately show ?thesis using s False tax_push [OF y] EstimatedTax
        by (auto simp: almanac_estimated_tax_def)
    qed
  next
    case (SsaPayDates cohort)
    show ?thesis
    proof (cases "cohort < 0 \<or> 2 < cohort \<or> ssa_cache a cohort \<noteq> None")
      case True
      then show ?thesis using assms refl SsaPayDates
        by (auto simp: almanac_ssa_pay_dates_def dest: cache_hits [OF assms])
    next
      case False
      obtain cache' where p: "pay_dates (ssa_cohort_anchor_day cohort) [] (month_anchors a) (holiday_sets a) =
          Some (Inr (ssa_dates a cohort), cache')" "cache_ok cache'"
        using pay_dates_correct [of "holiday_sets a" "month_anchors a" "ssa_cohort_anchor_day cohort" "[]"]
          assms y by (auto simp: ssa_dates_def almanac_ok_def years_ok_def)
      let ?b = "a\<lparr>holiday_sets := cache', ssa_cache := (ssa_cache a)(cohort \<mapsto> ssa_dates a cohort)\<rparr>"
      have s: "same_window a ?b" by (simp add: same_window_def)
      have "almanac_ok ?b" using assms p(2)
        by (intro almanac_ok_same [OF s assms]) (auto simp: almanac_ok_def split: if_splits)
      then show ?thesis using s False p SsaPayDates
        by (auto simp: almanac_ssa_pay_dates_def)
    qed
  qed
qed

lemma query_answer_same: "same_window a b \<Longrightarrow> query_answer b q = query_answer a q"
  by (cases q) (simp_all add: same_window_lists [of a b])

lemma run_queries_correct:
  "almanac_ok a \<Longrightarrow> \<exists>b. run_queries qs a = Some b \<and> same_window a b \<and> almanac_ok b"
proof (induction qs arbitrary: a)
  case Nil
  then show ?case by (simp add: same_window_def)
next
  case (Cons q qs)
  obtain b where b: "run_query q a = Some (query_answer a q, b)" "same_window a b" "almanac_ok b"
    using run_query_correct [OF Cons.prems] by blast
  then obtain c where "run_queries qs b = Some c" "same_window b c" "almanac_ok c"
    using Cons.IH by blast
  then show ?case using b by (auto simp: same_window_def)
qed

lemma month_start_year: "month_start tp = Inr t \<Longrightarrow> year_in_range (cd_year (to_calendar_date tp))"
  by (auto simp: month_start_def make_time_def Let_def ymd_ok_def year_in_range_def split: if_splits)

lemma almanac_new_ok:
  assumes "almanac_new start endExcl = Inr a" "cd_year (to_calendar_date endExcl) \<le> 32767"
  shows "almanac_ok a"
proof -
  let ?n = "month_count start"
  obtain current where c: "month_start start = Inr current"
      "month_starts_from current endExcl = Inr (month_anchors a)"
      and w: "al_start a = start" "al_end a = endExcl"
    using assms(1) by (auto simp: almanac_new_def month_starts_def split: if_splits sum.splits)
  have y: "year_in_range (cd_year (to_calendar_date start))" using month_start_year [OF c(1)] .
  have current: "current = first_of_month ?n" using c(1) month_start_eq [OF y] by simp
  obtain k where k: "month_anchors a = map (\<lambda>i. first_of_month (?n + int i)) [0..<k]"
      "\<forall>i < k. first_of_month (?n + int i) < endExcl"
    using month_starts_from_eq c(2) current by blast
  have "year_in_range (cd_year (to_calendar_date t))" if "t \<in> set (month_anchors a)" for t
  proof -
    obtain i where i: "i < k" "t = first_of_month (?n + int i)" using \<open>t \<in> _\<close> k(1) by auto
    have "?n + int i \<le> month_count endExcl"
      using k(2) i month_bounds(2) [of endExcl] first_of_month_le_iff [of "month_count endExcl + 1" "?n + int i"]
      by force
    then have "(?n + int i) div 12 \<le> month_count endExcl div 12" "?n div 12 \<le> (?n + int i) div 12"
      by (simp_all add: zdiv_mono1)
    then show ?thesis using y assms(2)
      by (simp add: i(2) day_of_first month_count_day year_in_range_def)
  qed
  moreover have "year_in_range z" if "z \<in> set (window_years a)" for z
    using that y assms(2) by (auto simp: window_years_def w year_in_range_def)
  ultimately have "years_ok a" by (simp add: years_ok_def)
  moreover have "cache_ok (holiday_sets a)" "monthly_cache a = Map.empty" "annual_cache a = Map.empty"
    "ssa_cache a = Map.empty" "quarterly_cache a = []" "\<not> quarterly_built a"
    using assms(1) by (auto simp: almanac_new_def split: if_splits sum.splits)
  ultimately show ?thesis by (simp add: almanac_ok_def)
qed

text \<open>The caches are invisible: on an almanac with any history of queries, failed ones
  included, every query ends and answers exactly what it answers on a fresh almanac, and the
  answer is the list its window and arguments define.\<close>

theorem cached_answers_are_fresh:
  assumes "almanac_new start endExcl = Inr fresh" "cd_year (to_calendar_date endExcl) \<le> 32767"
  shows "\<exists>a b c. run_queries history fresh = Some a \<and>
    run_query q a = Some (query_answer fresh q, b) \<and> run_query q fresh = Some (query_answer fresh q, c)"
proof -
  have ok: "almanac_ok fresh" using almanac_new_ok [OF assms] .
  obtain a where a: "run_queries history fresh = Some a" "same_window fresh a" "almanac_ok a"
    using run_queries_correct [OF ok] by blast
  then obtain b where "run_query q a = Some (query_answer a q, b)"
    using run_query_correct by blast
  moreover obtain c where "run_query q fresh = Some (query_answer fresh q, c)"
    using run_query_correct [OF ok] by blast
  ultimately show ?thesis using a query_answer_same [OF a(2)] by auto
qed

lemma month_day_between:
  fixes tod :: time_of_day
  assumes "1 \<le> day"
  defines "tod_seconds \<equiv> td_hour tod * 3600 + td_minute tod * 60 + td_second tod"
  shows "first_of_month n + tod_seconds \<le> instant_of (day_in_month_of day (first_of_month n)) tod"
    and "instant_of (day_in_month_of day (first_of_month n)) tod < first_of_month (n + 1) + tod_seconds"
proof -
  let ?y = "n div 12" and ?m = "n mod 12 + 1"
  let ?d = "min day (days_in_month ?y ?m)"
  have d: "0 \<le> ?d - 1" "?d - 1 + 1 \<le> days_in_month ?y ?m"
    using assms(1) days_in_month_bounds(1) [of ?y ?m] by auto
  have c: "day_in_month_of day (first_of_month n) = \<lparr>cd_year = ?y, cd_month = ?m, cd_day = ?d\<rparr>"
    by (simp add: day_in_month_of_def Let_def day_of_first)
  have at: "instant_of (day_in_month_of day (first_of_month n)) tod =
      first_of_month n + (?d - 1) * seconds_per_day + tod_seconds"
    unfolding c by (simp add: instant_of_def midnight_of_def day_key_def
        first_of_month_def sys_days_def tod_seconds_def algebra_simps)
  show "first_of_month n + tod_seconds \<le> instant_of (day_in_month_of day (first_of_month n)) tod"
    using d(1) by (simp add: at)
  have "(?d - 1) * seconds_per_day < days_in_month ?y ?m * seconds_per_day"
    using d(2) by (intro mult_strict_right_mono) auto
  then show "instant_of (day_in_month_of day (first_of_month n)) tod < first_of_month (n + 1) + tod_seconds"
    by (simp add: at first_of_month_Suc)
qed

lemma month_days_sorted:
  assumes "1 \<le> day"
  shows "sorted (map (\<lambda>i. instant_of (day_in_month_of day (first_of_month (n + int i))) tod) [0..<k])"
proof -
  have "instant_of (day_in_month_of day (first_of_month (n + int i))) tod \<le>
      instant_of (day_in_month_of day (first_of_month (n + int j))) tod" if "i < j" for i j
    using month_day_between(2) [OF assms, of "n + int i" tod] month_day_between(1) [OF assms, of "n + int j" tod]
      first_of_month_le_iff [of "n + int i + 1" "n + int j"] that by linarith
  then have "instant_of (day_in_month_of day (first_of_month (n + int i))) tod \<le>
      instant_of (day_in_month_of day (first_of_month (n + int j))) tod" if "i \<le> j" for i j
    using that by (cases "i = j") auto
  then show ?thesis by (simp add: sorted_iff_nth_mono)
qed

text \<open>An almanac of 2000 hours from the epoch.\<close>

definition spring_almanac :: almanac where
  "spring_almanac = \<lparr>al_start = 0, al_end = 7200000, month_anchors = [0, 2678400, 5097600],
     monthly_cache = Map.empty, annual_cache = Map.empty, quarterly_cache = [],
     quarterly_built = False, ssa_cache = Map.empty, holiday_sets = Map.empty\<rparr>"

lemma spring_almanac_new: "almanac_new 0 7200000 = Inr spring_almanac"
proof -
  have "month_starts 0 7200000 = Inr [0, 2678400, 5097600]" by code_simp
  then show ?thesis by (simp add: almanac_new_def spring_almanac_def)
qed

lemma spring_almanac_year: "cd_year (to_calendar_date 7200000) \<le> 32767"
  by code_simp

theorem cached_answers_are_fresh_witness:
  "\<exists>a b c. run_queries [EstimatedTax 0 100, SsaPayDates 7, Monthly 0 10 31 midnight] spring_almanac = Some a \<and>
    run_query (EstimatedTax 0 7200000) a = Some (query_answer spring_almanac (EstimatedTax 0 7200000), b) \<and>
    run_query (EstimatedTax 0 7200000) spring_almanac =
      Some (query_answer spring_almanac (EstimatedTax 0 7200000), c)"
  by (rule cached_answers_are_fresh [OF spring_almanac_new spring_almanac_year])

text \<open>A monthly query answers one instant for each month of the window, on the wanted day or on
  the last day of a shorter month, in order, keeping those of the almanac's window and of the
  active one.\<close>

theorem monthly_query_exact:
  assumes "almanac_new start endExcl = Inr fresh" "cd_year (to_calendar_date endExcl) \<le> 32767"
    and "run_queries history fresh = Some a" "1 \<le> day" "day \<le> 31"
  shows "fst (almanac_monthly active_start active_end day tod a) = Inr
    (filter (\<lambda>t. max start active_start \<le> t \<and> t < min endExcl active_end)
      (map (\<lambda>anchor. instant_of (day_in_month_of day anchor) tod) (month_anchors fresh)))"
    (is "_ = Inr (filter _ (map ?at _))")
proof -
  have ok: "almanac_ok fresh" using almanac_new_ok [OF assms(1,2)] .
  have a: "same_window fresh a" "almanac_ok a" using run_queries_correct [OF ok, of history] assms(3) by auto
  obtain current where c: "month_start start = Inr current"
      "month_starts_from current endExcl = Inr (month_anchors fresh)"
      and w: "al_start fresh = start" "al_end fresh = endExcl"
    using assms(1) by (auto simp: almanac_new_def month_starts_def split: if_splits sum.splits)
  have current: "current = first_of_month (month_count start)"
    using c(1) month_start_eq [OF month_start_year [OF c(1)]] by simp
  obtain k where k: "month_anchors fresh = map (\<lambda>i. first_of_month (month_count start + int i)) [0..<k]"
    using month_starts_from_eq c(2) current by blast
  have "sorted (map ?at (month_anchors fresh))"
    using month_days_sorted [OF assms(4)] by (simp add: k comp_def)
  then have sorted: "sorted (window_instants fresh (monthly_dates fresh day tod))"
    by (simp add: window_instants_def monthly_dates_def comp_def sorted_wrt_filter)
  have "fst (almanac_monthly active_start active_end day tod a) =
      query_answer a (Monthly active_start active_end day tod)"
    using run_query_correct [OF a(2), of "Monthly active_start active_end day tod"] by auto
  also have "\<dots> = Inr (slice_between (window_instants fresh (monthly_dates fresh day tod)) active_start active_end)"
    unfolding query_answer_same [OF a(1)] using assms(4,5) by simp
  finally show ?thesis
    unfolding slice_filter [OF sorted]
    by (simp add: window_instants_def monthly_dates_def w comp_def conj_ac)
qed

theorem monthly_query_exact_witness:
  "fst (almanac_monthly 0 7000000 31 midnight spring_almanac) = Inr
    (filter (\<lambda>t. max 0 0 \<le> t \<and> t < min 7200000 7000000)
      (map (\<lambda>anchor. instant_of (day_in_month_of 31 anchor) midnight) (month_anchors spring_almanac)))"
  by (rule monthly_query_exact [OF spring_almanac_new spring_almanac_year, where history = "[]"]) simp_all

end
