(* ===== verification/Flush.thy ===== *)
theory Flush
  imports Schedule Rows
begin

text \<open>
  \<open>pipeline/chunk/sink.hpp\<close> and \<open>flush.hpp\<close>: the \<open>Sink\<close> concept, its two implementations and the
  functions that drive a sink through a schedule. A sink is a state with the operations the
  concept asks for; the templates take them as an argument, here a record. Rows already written
  are counted in \<open>nat\<close>. An exception leaves the sink as it is at the throw.
\<close>

record 's sink_ops =
  begin_span :: "span \<Rightarrow> 's \<Rightarrow> 's"
  append_rows :: "txn list \<Rightarrow> 's \<Rightarrow> 's"
  end_span :: "span \<Rightarrow> 's \<Rightarrow> 's"
  finish_sink :: "'s \<Rightarrow> 's"
  rows_written :: "'s \<Rightarrow> nat"

definition null_sink :: "nat sink_ops" where
  "null_sink = \<lparr>begin_span = (\<lambda>_ s. s), append_rows = (\<lambda>txns s. s + length txns),
     end_span = (\<lambda>_ s. s), finish_sink = (\<lambda>s. s), rows_written = (\<lambda>s. s)\<rparr>"

definition tee_sink :: "'a sink_ops \<Rightarrow> 'b sink_ops \<Rightarrow> ('a \<times> 'b) sink_ops" where
  "tee_sink A B = \<lparr>begin_span = (\<lambda>sp (a, b). (begin_span A sp a, begin_span B sp b)),
     append_rows = (\<lambda>txns (a, b). (append_rows A txns a, append_rows B txns b)),
     end_span = (\<lambda>sp (a, b). (end_span A sp a, end_span B sp b)),
     finish_sink = (\<lambda>(a, b). (finish_sink A a, finish_sink B b)),
     rows_written = (\<lambda>(a, b). rows_written A a)\<rparr>"

definition flush_unpartitioned :: "'s sink_ops \<Rightarrow> schedule \<Rightarrow> txn list \<Rightarrow> 's \<Rightarrow> nat result \<times> 's" where
  "flush_unpartitioned ops sched rows s =
     (if length (sc_spans sched) \<noteq> 1
      then (Inl (LogicError ''flushUnpartitioned: schedule must contain exactly one span; use Schedule::unpartitioned''), s)
      else
        let sp = hd (sc_spans sched);
            s = end_span ops sp (append_rows ops rows (begin_span ops sp s));
            s = finish_sink ops s
        in (Inr (rows_written ops s), s))"

text \<open>
  The loop over the spans; \<open>rows\<close> are those from \<open>offset\<close> on. The callback of every span is
  recorded, oldest first.
\<close>

fun flush_spans :: "'s sink_ops \<Rightarrow> span list \<Rightarrow> txn list \<Rightarrow> 's \<Rightarrow> (span \<times> nat) list \<Rightarrow> 's \<times> (span \<times> nat) list" where
  "flush_spans ops [] rows s done_spans = (s, done_spans)"
| "flush_spans ops (sp # sps) rows s done_spans =
     (let bound = window_end (sp_active sp);
          here = (if sps \<noteq> [] then takeWhile (\<lambda>tx. tx_time tx < bound) rows else rows);
          s = begin_span ops sp s;
          s = (if here \<noteq> [] then append_rows ops here s else s);
          s = end_span ops sp s
      in flush_spans ops sps (drop (length here) rows) s (done_spans @ [(sp, length here)]))"

definition flush_partitioned ::
  "'s sink_ops \<Rightarrow> schedule \<Rightarrow> txn list \<Rightarrow> 's \<Rightarrow> nat result \<times> 's \<times> (span \<times> nat) list" where
  "flush_partitioned ops sched rows s =
     (if sc_spans sched = [] then (Inl (LogicError ''flushPartitioned: empty schedule''), s, [])
      else if \<not> sorted (map tx_time rows)
      then (Inl (LogicError ''flushPartitioned: rows must be timestamp-nondecreasing (replay order)''), s, [])
      else
        let (s, done_spans) = flush_spans ops (sc_spans sched) rows s [];
            s = finish_sink ops s
        in (Inr (rows_written ops s), s, done_spans))"

subsection \<open>The contract of a sink\<close>

text \<open>Only appending counts rows, and it counts all of them.\<close>

locale row_sink =
  fixes ops :: "'s sink_ops"
  assumes begin_keeps: "rows_written ops (begin_span ops sp s) = rows_written ops s"
    and end_keeps: "rows_written ops (end_span ops sp s) = rows_written ops s"
    and finish_keeps: "rows_written ops (finish_sink ops s) = rows_written ops s"
    and append_counts: "rows_written ops (append_rows ops rows s) = rows_written ops s + length rows"
begin

lemma flush_spans_count:
  "sps \<noteq> [] \<Longrightarrow>
     rows_written ops (fst (flush_spans ops sps rows s ds)) = rows_written ops s + length rows"
proof (induction sps arbitrary: rows s ds)
  case (Cons sp sps)
  let ?here = "if sps \<noteq> [] then takeWhile (\<lambda>tx. tx_time tx < window_end (sp_active sp)) rows else rows"
  have "length ?here \<le> length rows" by (simp add: length_takeWhile_le)
  then show ?case
    using Cons.IH
    by (cases "sps = []") (auto simp: Let_def begin_keeps end_keeps append_counts)
qed simp

lemma flush_partitioned_count:
  assumes "flush_partitioned ops sched rows s = (Inr n, s', ds)"
  shows "n = rows_written ops s + length rows"
proof -
  obtain t ds' where t: "flush_spans ops (sc_spans sched) rows s [] = (t, ds')" by fastforce
  then have "n = rows_written ops (finish_sink ops t)" "sc_spans sched \<noteq> []"
    using assms by (auto simp: flush_partitioned_def Let_def split: if_splits)
  then show ?thesis
    using flush_spans_count [of "sc_spans sched" rows s "[]"] t by (simp add: finish_keeps)
qed

lemma flush_unpartitioned_count:
  assumes "flush_unpartitioned ops sched rows s = (Inr n, s')"
  shows "n = rows_written ops s + length rows"
  using assms
  by (auto simp: flush_unpartitioned_def Let_def begin_keeps end_keeps append_counts finish_keeps split: if_splits)

end

lemma tee_row_sink: "row_sink A \<Longrightarrow> row_sink (tee_sink A B)"
  by (simp add: row_sink_def tee_sink_def split_beta)

interpretation null_rows: row_sink null_sink
  by unfold_locales (simp_all add: null_sink_def)

interpretation tee_rows: row_sink "tee_sink null_sink null_sink"
  by (rule tee_row_sink) unfold_locales

subsection \<open>What a sink sees\<close>

datatype sink_call = BeginSpan span | AppendRows "txn list" | EndSpan span | FinishSink

fun sink_step :: "'s sink_ops \<Rightarrow> sink_call \<Rightarrow> 's \<Rightarrow> 's" where
  "sink_step ops (BeginSpan sp) s = begin_span ops sp s"
| "sink_step ops (AppendRows rows) s = append_rows ops rows s"
| "sink_step ops (EndSpan sp) s = end_span ops sp s"
| "sink_step ops FinishSink s = finish_sink ops s"

text \<open>The rows of every span, and the calls they cause.\<close>

fun cut_rows :: "span list \<Rightarrow> txn list \<Rightarrow> (span \<times> txn list) list" where
  "cut_rows [] rows = []"
| "cut_rows [sp] rows = [(sp, rows)]"
| "cut_rows (sp # sps) rows =
     (sp, filter (\<lambda>tx. tx_time tx < window_end (sp_active sp)) rows) #
     cut_rows sps (filter (\<lambda>tx. window_end (sp_active sp) \<le> tx_time tx) rows)"

definition span_calls :: "span \<times> txn list \<Rightarrow> sink_call list" where
  "span_calls p = BeginSpan (fst p) # (if snd p = [] then [] else [AppendRows (snd p)]) @ [EndSpan (fst p)]"

lemma takeWhile_sorted_time:
  "sorted (map tx_time rows) \<Longrightarrow>
     takeWhile (\<lambda>tx. tx_time tx < b) rows = filter (\<lambda>tx. tx_time tx < b) rows \<and>
     drop (length (takeWhile (\<lambda>tx. tx_time tx < b) rows)) rows = filter (\<lambda>tx. b \<le> tx_time tx) rows"
proof (induction rows)
  case (Cons r rows)
  show ?case
  proof (cases "tx_time r < b")
    case False
    then have "\<forall>t \<in> set rows. b \<le> tx_time t \<and> \<not> tx_time t < b" using Cons.prems by auto
    then show ?thesis using False by (simp add: filter_empty_conv)
  qed (use Cons in auto)
qed simp

lemma flush_spans_cut:
  "sorted (map tx_time rows) \<Longrightarrow>
     flush_spans ops sps rows s ds =
       (fold (sink_step ops) (concat (map span_calls (cut_rows sps rows))) s,
        ds @ map (\<lambda>(sp, xs). (sp, length xs)) (cut_rows sps rows))"
proof (induction sps rows arbitrary: s ds rule: cut_rows.induct)
  case (3 sp sp' sps rows)
  let ?b = "window_end (sp_active sp)"
  have t: "takeWhile (\<lambda>tx. tx_time tx < ?b) rows = filter (\<lambda>tx. tx_time tx < ?b) rows"
    "drop (length (filter (\<lambda>tx. tx_time tx < ?b) rows)) rows = filter (\<lambda>tx. ?b \<le> tx_time tx) rows"
    using takeWhile_sorted_time [OF 3(2), of ?b] by auto
  have sorted: "sorted (map tx_time (filter (\<lambda>tx. ?b \<le> tx_time tx) rows))"
    using 3(2) by (rule sorted_filter)
  have "flush_spans ops (sp # sp' # sps) rows s ds =
      flush_spans ops (sp' # sps) (filter (\<lambda>tx. ?b \<le> tx_time tx) rows)
        (fold (sink_step ops) (span_calls (sp, filter (\<lambda>tx. tx_time tx < ?b) rows)) s)
        (ds @ [(sp, length (filter (\<lambda>tx. tx_time tx < ?b) rows))])"
    by (subst flush_spans.simps) (simp add: Let_def t span_calls_def del: flush_spans.simps)
  also have "\<dots> = (fold (sink_step ops) (concat (map span_calls (cut_rows (sp # sp' # sps) rows))) s,
        ds @ map (\<lambda>(sp, xs). (sp, length xs)) (cut_rows (sp # sp' # sps) rows))"
    unfolding 3(1) [OF sorted] by simp
  finally show ?case .
qed (simp_all add: span_calls_def Let_def)

end
