(* ===== verification/FlushClaims.thy ===== *)
theory FlushClaims
  imports Flush TimeClaims
begin

text \<open>
  What the flush promises: driven through a partitioned schedule, a sink sees every span begun and
  ended in order, each row once, in the span whose active window holds it.
\<close>

lemma cut_rows_spans: "map fst (cut_rows sps rows) = sps"
  by (induction sps rows rule: cut_rows.induct) simp_all

lemma cut_rows_concat:
  "sps \<noteq> [] \<Longrightarrow> sorted (map tx_time rows) \<Longrightarrow> concat (map snd (cut_rows sps rows)) = rows"
proof (induction sps rows rule: cut_rows.induct)
  case (3 sp sp' sps rows)
  let ?b = "window_end (sp_active sp)"
  have "takeWhile (\<lambda>tx. tx_time tx < ?b) rows @ drop (length (takeWhile (\<lambda>tx. tx_time tx < ?b) rows)) rows = rows"
    using takeWhile_eq_take [of "\<lambda>tx. tx_time tx < ?b" rows] by (metis append_take_drop_id)
  then have "filter (\<lambda>tx. tx_time tx < ?b) rows @ filter (\<lambda>tx. ?b \<le> tx_time tx) rows = rows"
    using takeWhile_sorted_time [OF 3(3), of ?b] by metis
  then show ?case using 3(1) sorted_filter [OF 3(3)] by simp
qed simp_all

lemma cut_rows_in_window:
  "tiles a e sps \<Longrightarrow> \<forall>tx \<in> set rows. a \<le> tx_time tx \<and> tx_time tx < e \<Longrightarrow>
     (sp, xs) \<in> set (cut_rows sps rows) \<Longrightarrow> tx \<in> set xs \<Longrightarrow>
     wn_start (sp_active sp) \<le> tx_time tx \<and> tx_time tx < window_end (sp_active sp)"
proof (induction sps rows arbitrary: a rule: cut_rows.induct)
  case (3 sp0 sp' sps rows)
  let ?later = "filter (\<lambda>tx. window_end (sp_active sp0) \<le> tx_time tx) rows"
  consider (here) "sp = sp0" "xs = filter (\<lambda>tx. tx_time tx < window_end (sp_active sp0)) rows"
    | (later) "(sp, xs) \<in> set (cut_rows (sp' # sps) ?later)"
    using 3(4) by auto
  then show ?case
  proof cases
    case here
    then show ?thesis using 3(2,3,5) by auto
  next
    case later
    have "tiles (window_end (sp_active sp0)) e (sp' # sps)" using 3(2) by simp
    moreover have "\<forall>tx \<in> set ?later. window_end (sp_active sp0) \<le> tx_time tx \<and> tx_time tx < e"
      using 3(3) by auto
    ultimately show ?thesis using 3(1) later 3(5) by blast
  qed
qed auto

text \<open>Flushing time-sorted rows of the run through its partitioned schedule succeeds on any sink:
  the sink sees, for every span in order, its begin, its rows if it has any and its end, then one
  finish; the rows so written are all the rows, once and in order, each inside the active window of
  its span, the callback reports their numbers, and a counting sink ends with their total.\<close>

theorem partitioned_flush_writes_each_row_once:
  fixes ops :: "'s sink_ops"
  assumes "partition_window run strat = Some (Inr sched)" "0 < wn_days run"
    and "sorted (map tx_time rows)"
    and "\<forall>tx \<in> set rows. wn_start run \<le> tx_time tx \<and> tx_time tx < window_end run"
  shows "\<exists>cut. map fst cut = sc_spans sched \<and> concat (map snd cut) = rows \<and>
    (\<forall>(sp, xs) \<in> set cut. \<forall>tx \<in> set xs.
       wn_start (sp_active sp) \<le> tx_time tx \<and> tx_time tx < window_end (sp_active sp)) \<and>
    (let t = fold (sink_step ops) (concat (map span_calls cut) @ [FinishSink]) s
     in flush_partitioned ops sched rows s =
          (Inr (rows_written ops t), t, map (\<lambda>(sp, xs). (sp, length xs)) cut)) \<and>
    fst (flush_partitioned (tee_sink null_sink null_sink) sched rows (0, 0)) = Inr (length rows)"
proof -
  let ?cut = "cut_rows (sc_spans sched) rows"
  note part = partition_spans [OF assms(1,2)]
  have some: "sc_spans sched \<noteq> []"
  proof
    assume "sc_spans sched = []"
    with part(2) have "wn_days run * seconds_per_day = 0" by (simp add: window_end_def)
    with assms(2) show False by (simp add: seconds_per_day_def)
  qed
  have run: "flush_partitioned o' sched rows t =
      (let t = fold (sink_step o') (concat (map span_calls ?cut) @ [FinishSink]) t
       in (Inr (rows_written o' t), t, map (\<lambda>(sp, xs). (sp, length xs)) ?cut))"
    for o' :: "'b sink_ops" and t
    using flush_spans_cut [OF assms(3), of o' "sc_spans sched" t "[]"] some assms(3)
    by (simp add: flush_partitioned_def Let_def)
  have "fst (flush_partitioned (tee_sink null_sink null_sink) sched rows (0, 0)) = Inr (length rows)"
  proof -
    let ?t = "fold (sink_step (tee_sink null_sink null_sink)) (concat (map span_calls ?cut) @ [FinishSink]) (0, 0)"
    have "flush_partitioned (tee_sink null_sink null_sink) sched rows (0, 0) =
        (Inr (rows_written (tee_sink null_sink null_sink) ?t), ?t, map (\<lambda>(sp, xs). (sp, length xs)) ?cut)"
      using run [of "tee_sink null_sink null_sink" "(0, 0)"] by (simp only: Let_def)
    from tee_rows.flush_partitioned_count [OF this] this show ?thesis
      by (simp add: tee_sink_def null_sink_def)
  qed
  moreover have "\<forall>(sp, xs) \<in> set ?cut. \<forall>tx \<in> set xs.
       wn_start (sp_active sp) \<le> tx_time tx \<and> tx_time tx < window_end (sp_active sp)"
    using cut_rows_in_window [OF part(2) assms(4)] by auto
  ultimately show ?thesis
    using run [of ops s] cut_rows_spans cut_rows_concat [OF some assms(3)]
    by (intro exI [of _ ?cut]) simp
qed

theorem partitioned_flush_writes_each_row_once_witness:
  "\<exists>sched cut. map fst cut = sc_spans sched \<and> concat (map snd cut) = [default_txn] \<and>
    fst (flush_partitioned (tee_sink null_sink null_sink) sched [default_txn] (0, 0)) = Inr 1"
proof -
  obtain sched where p: "partition_window demo_run demo_strategy = Some (Inr sched)" using demo_partition by blast
  have "0 < wn_days demo_run" by (simp add: demo_run_def)
  then show ?thesis
    using partitioned_flush_writes_each_row_once [OF p, of "[default_txn]" null_sink 0]
    by (auto simp: demo_run_def default_txn_def window_end_def seconds_per_day_def)
qed

end
