(* ===== verification/Cursor.thy ===== *)
theory Cursor
  imports LedgerReplay
begin

text \<open>
  The streaming sources of the transfer stage (\<open>windowed_driver.hpp\<close>, \<open>window_sources\<close>): the
  \<open>ScheduleCursorSource\<close> interface as a locale, and the cursor over rows held in memory. A cursor
  hands out, at every call, the rows before a bound that may not move backward.
\<close>

subsection \<open>Cutting time-sorted rows\<close>

lemma rows_cut_sorted:
  assumes "sorted (map tx_time rows)"
  shows "rows_before b rows = filter (\<lambda>t. tx_time t < b) rows"
    "rows_from b rows = filter (\<lambda>t. b \<le> tx_time t) rows"
proof -
  have "rows_before b rows = filter (\<lambda>t. tx_time t < b) rows \<and> rows_from b rows = filter (\<lambda>t. b \<le> tx_time t) rows"
    using assms unfolding rows_before_def rows_from_def
  proof (induction rows)
    case (Cons r rows)
    show ?case
    proof (cases "tx_time r < b")
      case False
      then have "\<forall>t \<in> set rows. b \<le> tx_time t \<and> \<not> tx_time t < b" using Cons.prems by auto
      then show ?thesis using False by (simp add: filter_empty_conv)
    qed (use Cons in auto)
  qed simp
  then show "rows_before b rows = filter (\<lambda>t. tx_time t < b) rows"
    "rows_from b rows = filter (\<lambda>t. b \<le> tx_time t) rows" by simp_all
qed

lemma rows_before_from [simp]: "rows_before b rows @ rows_from b rows = rows"
  by (simp add: rows_before_def rows_from_def)

lemma rows_cut_time_sorted:
  assumes "sorted (map tx_time rows)"
  shows "sorted (map tx_time (rows_before b rows))" "sorted (map tx_time (rows_from b rows))"
  using assms unfolding rows_cut_sorted [OF assms] by (simp_all add: sorted_filter)

lemma rows_from_all: "\<forall>t \<in> set rows. b \<le> tx_time t \<Longrightarrow> rows_from b rows = rows"
  by (cases rows) (auto simp: rows_from_def)

lemma rows_before_all: "\<forall>t \<in> set rows. tx_time t < b \<Longrightarrow> rows_before b rows = rows"
  by (simp add: rows_before_def)

lemma rows_before_none: "\<forall>t \<in> set rows. b \<le> tx_time t \<Longrightarrow> rows_before b rows = []"
  by (cases rows) (auto simp: rows_before_def)

lemma rows_from_none: "\<forall>t \<in> set rows. tx_time t < b \<Longrightarrow> rows_from b rows = []"
  by (simp add: rows_from_def)

subsection \<open>The interface\<close>

fun emit_bounds :: "(i64 \<Rightarrow> 'c \<Rightarrow> (txn list \<times> 'c) result) \<Rightarrow> i64 list \<Rightarrow> 'c \<Rightarrow> (txn list list \<times> 'c) result" where
  "emit_bounds emit [] c = Inr ([], c)"
| "emit_bounds emit (b # bs) c =
     (case emit b c of Inl e \<Rightarrow> Inl e
      | Inr (rows, c) \<Rightarrow> (case emit_bounds emit bs c of Inl e \<Rightarrow> Inl e | Inr (cuts, c) \<Rightarrow> Inr (rows # cuts, c)))"

fun cut_at :: "i64 list \<Rightarrow> txn list \<Rightarrow> txn list list" where
  "cut_at [] rows = []"
| "cut_at (b # bs) rows = rows_before b rows # cut_at bs (rows_from b rows)"

fun ascending_from :: "i64 option \<Rightarrow> i64 list \<Rightarrow> bool" where
  "ascending_from l [] = True"
| "ascending_from l (b # bs) = ((case l of Some b0 \<Rightarrow> b0 \<le> b | None \<Rightarrow> True) \<and> ascending_from (Some b) bs)"

text \<open>
  \<open>left_rows\<close> are the rows not yet handed out and \<open>last_bound\<close> the bound of the last call.
\<close>

locale schedule_cursor =
  fixes emit_until :: "i64 \<Rightarrow> 'c \<Rightarrow> (txn list \<times> 'c) result"
    and left_rows :: "'c \<Rightarrow> txn list"
    and last_bound :: "'c \<Rightarrow> i64 option"
    and cursor_ok :: "'c \<Rightarrow> bool"
  assumes left_sorted: "cursor_ok c \<Longrightarrow> sorted (map tx_time (left_rows c))"
    and emit_forward: "cursor_ok c \<Longrightarrow> (\<And>b0. last_bound c = Some b0 \<Longrightarrow> b0 \<le> b) \<Longrightarrow>
      \<exists>c'. emit_until b c = Inr (rows_before b (left_rows c), c') \<and> cursor_ok c' \<and>
        left_rows c' = rows_from b (left_rows c) \<and> last_bound c' = Some b"
    and emit_backward: "last_bound c = Some b0 \<Longrightarrow> b < b0 \<Longrightarrow> \<exists>m. emit_until b c = Inl (LogicError m)"
begin

text \<open>A stage filled by the cursor: with every staged row before the bound, the stage becomes all
  the rows before it.\<close>

lemma pull_stage:
  assumes "cursor_ok c" "\<And>b0. last_bound c = Some b0 \<Longrightarrow> b0 \<le> b"
    and "\<forall>t \<in> set stage. tx_time t < b"
  shows "\<exists>c'. emit_until b c = Inr (rows_before b (left_rows c), c') \<and> cursor_ok c' \<and>
    last_bound c' = Some b \<and>
    stage @ rows_before b (left_rows c) = rows_before b (stage @ left_rows c) \<and>
    left_rows c' = rows_from b (stage @ left_rows c)"
proof -
  have "rows_before b (stage @ left_rows c) = stage @ rows_before b (left_rows c)"
    "rows_from b (stage @ left_rows c) = rows_from b (left_rows c)"
    using assms(3) by (simp_all add: rows_before_def rows_from_def)
  then show ?thesis using emit_forward [OF assms(1,2)] by auto
qed

text \<open>Any sequence of calls: the rows cut at the bounds, or an exception when a bound moves backward.\<close>

lemma emit_bounds_cut:
  assumes "cursor_ok c"
  shows "if ascending_from (last_bound c) bs
     then \<exists>c'. emit_bounds emit_until bs c = Inr (cut_at bs (left_rows c), c') \<and> cursor_ok c'
     else \<exists>m. emit_bounds emit_until bs c = Inl (LogicError m)"
  using assms
proof (induction bs arbitrary: c)
  case (Cons b bs)
  show ?case
  proof (cases "\<exists>b0. last_bound c = Some b0 \<and> b < b0")
    case True
    then obtain b0 m where "last_bound c = Some b0" "b < b0" "emit_until b c = Inl (LogicError m)"
      using emit_backward by blast
    then show ?thesis by simp
  next
    case False
    then have "\<And>b0. last_bound c = Some b0 \<Longrightarrow> b0 \<le> b" by (simp add: not_less)
    from emit_forward [OF Cons.prems this] obtain c'
      where c': "emit_until b c = Inr (rows_before b (left_rows c), c')" "cursor_ok c'"
        "left_rows c' = rows_from b (left_rows c)" "last_bound c' = Some b" by blast
    have "ascending_from (last_bound c) (b # bs) = ascending_from (Some b) bs"
      using False by (auto split: option.splits)
    then show ?thesis using Cons.IH [OF c'(2)] c' by (auto split: if_splits)
  qed
qed simp

end

subsection \<open>Rows held in memory\<close>

record precomputed_cursor =
  pc_rows :: "txn list"
  pc_cursor :: nat
  pc_emitted :: nat
  pc_last_bound :: i64
  pc_bound_seen :: bool

definition compaction_threshold :: nat where "compaction_threshold = 4096"

fun is_replay_sorted :: "txn list \<Rightarrow> bool" where
  "is_replay_sorted (a # b # rows) = (\<not> funds_less b a \<and> is_replay_sorted (b # rows))"
| "is_replay_sorted _ = True"

definition precomputed_new :: "txn list \<Rightarrow> precomputed_cursor result" where
  "precomputed_new rows =
     (if \<not> is_replay_sorted rows
      then Inl (InvalidArgument ''PrecomputedCursorSource requires replay-sorted rows'')
      else Inr \<lparr>pc_rows = rows, pc_cursor = 0, pc_emitted = 0, pc_last_bound = 0, pc_bound_seen = False\<rparr>)"

text \<open>\<open>rows_.size() - cursor_\<close> never wraps: the cursor is inside the rows.\<close>

definition maybe_compact :: "precomputed_cursor \<Rightarrow> precomputed_cursor" where
  "maybe_compact c =
     (if pc_cursor c = 0 then c
      else if \<not> compaction_threshold \<le> pc_cursor c \<and> \<not> length (pc_rows c) - pc_cursor c \<le> pc_cursor c then c
      else c\<lparr>pc_rows := drop (pc_cursor c) (pc_rows c), pc_cursor := 0\<rparr>)"

definition precomputed_emit :: "i64 \<Rightarrow> precomputed_cursor \<Rightarrow> (txn list \<times> precomputed_cursor) result" where
  "precomputed_emit bound c =
     (if pc_bound_seen c \<and> bound < pc_last_bound c
      then Inl (LogicError ''PrecomputedCursorSource::emitUntil bounds must be monotone'')
      else
        let c = c\<lparr>pc_last_bound := bound, pc_bound_seen := True\<rparr>;
            emitted = rows_before bound (drop (pc_cursor c) (pc_rows c));
            c = c\<lparr>pc_cursor := pc_cursor c + length emitted, pc_emitted := pc_emitted c + length emitted\<rparr>
        in Inr (emitted, maybe_compact c))"

definition precomputed_remaining :: "precomputed_cursor \<Rightarrow> nat" where
  "precomputed_remaining c = length (pc_rows c) - pc_cursor c"

definition precomputed_left :: "precomputed_cursor \<Rightarrow> txn list" where
  "precomputed_left c = drop (pc_cursor c) (pc_rows c)"

definition precomputed_bound :: "precomputed_cursor \<Rightarrow> i64 option" where
  "precomputed_bound c = (if pc_bound_seen c then Some (pc_last_bound c) else None)"

definition precomputed_ok :: "precomputed_cursor \<Rightarrow> bool" where
  "precomputed_ok c \<longleftrightarrow> sorted (map tx_time (precomputed_left c)) \<and> pc_cursor c \<le> length (pc_rows c)"

lemma maybe_compact_left [simp]:
  "precomputed_left (maybe_compact c) = precomputed_left c"
  "precomputed_bound (maybe_compact c) = precomputed_bound c"
  "pc_emitted (maybe_compact c) = pc_emitted c"
  "pc_cursor c \<le> length (pc_rows c) \<Longrightarrow> pc_cursor (maybe_compact c) \<le> length (pc_rows (maybe_compact c))"
  by (auto simp: maybe_compact_def precomputed_left_def precomputed_bound_def)

lemma drop_length_takeWhile: "drop (length (takeWhile P xs)) xs = dropWhile P xs"
  by (metis append_eq_conv_conj takeWhile_dropWhile_id)

interpretation precomputed: schedule_cursor precomputed_emit precomputed_left precomputed_bound precomputed_ok
proof unfold_locales
  fix c :: precomputed_cursor and b b0 :: i64
  show "precomputed_ok c \<Longrightarrow> sorted (map tx_time (precomputed_left c))"
    by (simp add: precomputed_ok_def)
  show "precomputed_bound c = Some b0 \<Longrightarrow> b < b0 \<Longrightarrow> \<exists>m. precomputed_emit b c = Inl (LogicError m)"
    by (auto simp: precomputed_emit_def precomputed_bound_def split: if_splits)
  assume ok: "precomputed_ok c" and le: "\<And>b0. precomputed_bound c = Some b0 \<Longrightarrow> b0 \<le> b"
  let ?e = "rows_before b (precomputed_left c)"
  let ?c = "c\<lparr>pc_last_bound := b, pc_bound_seen := True, pc_cursor := pc_cursor c + length ?e,
              pc_emitted := pc_emitted c + length ?e\<rparr>"
  have "length ?e \<le> length (precomputed_left c)" by (simp add: rows_before_def length_takeWhile_le)
  then have "length ?e \<le> length (pc_rows c) - pc_cursor c" by (simp add: precomputed_left_def)
  then have cur: "pc_cursor ?c \<le> length (pc_rows ?c)"
    using ok unfolding precomputed_ok_def by (simp add: le_diff_conv2 add.commute)
  have left: "precomputed_left ?c = rows_from b (precomputed_left c)"
    by (simp add: precomputed_left_def rows_before_def rows_from_def flip: drop_length_takeWhile)
      (simp add: add.commute)
  have "\<not> (pc_bound_seen c \<and> b < pc_last_bound c)"
    using le [of "pc_last_bound c"] by (auto simp: precomputed_bound_def)
  then have "precomputed_emit b c = Inr (?e, maybe_compact ?c)"
    by (simp add: precomputed_emit_def Let_def precomputed_left_def)
  moreover have "precomputed_ok (maybe_compact ?c)"
    using ok left cur rows_cut_time_sorted(2) by (simp add: precomputed_ok_def)
  moreover have "precomputed_bound ?c = Some b" by (simp add: precomputed_bound_def)
  ultimately show "\<exists>c'. precomputed_emit b c = Inr (?e, c') \<and> precomputed_ok c' \<and>
      precomputed_left c' = rows_from b (precomputed_left c) \<and> precomputed_bound c' = Some b"
    using left by (intro exI [of _ "maybe_compact ?c"]) simp
qed

text \<open>What the constructor checks, for rows whose amounts are numbers.\<close>

lemma is_replay_sorted_iff:
  "\<forall>t \<in> set rows. tx_amount t \<noteq> NaN \<Longrightarrow> is_replay_sorted rows \<longleftrightarrow> sorted (map audit_key rows)"
proof (induction rows rule: is_replay_sorted.induct)
  case (1 a b rows)
  then show ?case using funds_less_key [of b a] by (auto simp: not_less intro: order_trans)
qed auto

lemma audit_le_time: "audit_key x \<le> audit_key y \<Longrightarrow> tx_time x \<le> tx_time y"
  by (auto simp: audit_key_def less_eq_prod_def)

lemma audit_sorted_time: "sorted (map audit_key rows) \<Longrightarrow> sorted (map tx_time rows)"
  unfolding sorted_map by (erule sorted_wrt_mono_rel [rotated]) (rule audit_le_time)

lemma not_funds_less_time: "\<not> funds_less b a \<Longrightarrow> tx_time a \<le> tx_time b"
  by (auto simp: funds_less_def audit_compare_def funds_compare_def three_way_def split: if_splits)

lemma is_replay_sorted_time: "is_replay_sorted rows \<Longrightarrow> sorted (map tx_time rows)"
proof (induction rows rule: is_replay_sorted.induct)
  case (1 a b rows)
  then show ?case using not_funds_less_time [of b a] by (auto intro: order_trans)
qed auto

lemma is_replay_sorted_Cons: "is_replay_sorted (a # rows) \<Longrightarrow> is_replay_sorted rows"
  by (cases rows) auto

lemma precomputed_new_ok:
  assumes "is_replay_sorted rows"
  shows "\<exists>c. precomputed_new rows = Inr c \<and> precomputed_ok c \<and> precomputed_left c = rows \<and>
    precomputed_bound c = None"
  using assms by (simp add: precomputed_new_def precomputed_ok_def precomputed_left_def
      precomputed_bound_def is_replay_sorted_time)

subsection \<open>Replay order\<close>

lemma funds_less_audit: "funds_less a b \<Longrightarrow> audit_key a < audit_key b"
proof -
  assume less: "funds_less a b"
  have amounts: "f64_three_way x y = PLess \<Longrightarrow> x < y" "f64_three_way x y = PEquivalent \<Longrightarrow> x = y" for x y
    by (cases x; cases y; auto simp: f64_three_way_def feq_def less_f64_def split: if_splits)+
  show ?thesis
    using less unfolding funds_less_def audit_compare_def funds_compare_def audit_key_def append.simps pair_less
    by (auto simp: three_way_def dest: amounts split: if_splits)
qed

lemma audit_sorted_replay: "sorted (map audit_key rows) \<Longrightarrow> is_replay_sorted rows"
proof (induction rows rule: is_replay_sorted.induct)
  case (1 a b rows)
  then show ?case using funds_less_audit [of b a] by (auto simp: not_less)
qed auto

lemma sort_for_replay_sorted: "is_replay_sorted (sort_for_replay rows)"
  by (rule audit_sorted_replay) (simp add: sort_for_replay_def)

lemma merge_replay_sorted_sorted:
  "sorted (map audit_key xs) \<Longrightarrow> sorted (map audit_key (merge_replay_sorted xs ys))"
  by (auto simp: merge_replay_sorted_def Let_def intro: sorted_merge_by)

end
