(* ===== verification/Records.thy ===== *)
theory Records
  imports Rows
begin

text \<open>
  The record codec of \<open>pipeline/stages/transfers/binary_spool.cpp\<close>: a transaction as 66 bytes,
  field by field, every integer little-endian and the amount as its IEEE-754 bit pattern. The
  C++ pointer that the writers advance is list append; a reader gives its value and the bytes
  left. \<open>std::bit_cast\<close> is written out. The sign of a zero and the payload of a NaN are not in
  \<open>f64\<close>: a zero is written as the positive one and a NaN as the quiet one.
\<close>

unbundle bit_operations_syntax

subsection \<open>The bit pattern of a double\<close>

definition f64_magnitude_bits :: "rat \<Rightarrow> nat" where
  "f64_magnitude_bits x =
     (if x = 0 then 0
      else nat ((ulp_exp x + 1074) * 2 ^ 52 + \<lfloor>\<bar>x\<bar> / 2 powi ulp_exp x\<rfloor>))"

definition f64_to_bits :: "f64 \<Rightarrow> u64" where
  "f64_to_bits v = (case v of
     Fin x \<Rightarrow> of_nat ((if x < 0 then 2 ^ 63 else 0) + f64_magnitude_bits x)
   | PInf \<Rightarrow> 0x7FF0000000000000
   | NInf \<Rightarrow> 0xFFF0000000000000
   | NaN \<Rightarrow> 0x7FF8000000000000)"

definition f64_of_magnitude :: "nat \<Rightarrow> f64" where
  "f64_of_magnitude n =
     (let e = n div 2 ^ 52; m = n mod 2 ^ 52
      in if e = 2047 then (if m = 0 then PInf else NaN)
         else if e = 0 then Fin (of_nat m * 2 powi (- 1074))
         else Fin (of_nat (2 ^ 52 + m) * 2 powi (int e - 1075)))"

definition f64_of_bits :: "u64 \<Rightarrow> f64" where
  "f64_of_bits w =
     (let n = unat w in if n < 2 ^ 63 then f64_of_magnitude n else fneg (f64_of_magnitude (n - 2 ^ 63)))"

lemma f64_magnitude_exact:
  assumes "rnd x = x" "x \<noteq> 0" "\<bar>x\<bar> < 2 ^ 1024"
  defines "m \<equiv> \<lfloor>\<bar>x\<bar> / 2 powi ulp_exp x\<rfloor>"
  shows "\<bar>x\<bar> = of_int m * 2 powi ulp_exp x" "0 \<le> m" "m < 2 ^ 53" "- 1074 \<le> ulp_exp x" "ulp_exp x \<le> 971"
    "ulp_exp x = - 1074 \<or> 2 ^ 52 \<le> m"
proof -
  let ?e = "ulp_exp x" and ?y = "\<bar>x\<bar>"
  have y: "0 < ?y" and ye: "ulp_exp ?y = ?e" using assms(2) by (simp_all add: ulp_exp_def)
  have "rnd ?y = ?y" using assms(1) rnd_minus [of x] by (cases "0 \<le> x") auto
  then have q: "?y = of_int (round_half_even (?y / 2 powi ?e)) * 2 powi ?e"
    using y ye by (simp add: rnd_def)
  then have "?y / 2 powi ?e = of_int (round_half_even (?y / 2 powi ?e))"
    by (metis nonzero_mult_div_cancel_right power_int_eq_0_iff zero_neq_numeral)
  then have m: "?y / 2 powi ?e = of_int m" unfolding m_def by (metis floor_of_int)
  then show ym: "?y = of_int m * 2 powi ?e" by (simp add: field_simps)
  have "(0::rat) \<le> of_int m" unfolding m [symmetric] by simp
  then show "0 \<le> m" by simp
  have "(of_int m :: rat) < of_int (2 ^ 53)" using scaled_less [OF y] m ye by simp
  then show "m < 2 ^ 53" unfolding of_int_less_iff .
  show "- 1074 \<le> ?e" by (simp add: ulp_exp_def)
  note il = ilog2_bounds [OF y]
  have "ilog2 ?y \<le> 1023"
  proof (rule ccontr)
    assume "\<not> ilog2 ?y \<le> 1023"
    then have "(2::rat) powi 1024 \<le> 2 powi ilog2 ?y" by (intro powi_2_mono) simp
    then show False using il(1) assms(3) by simp
  qed
  then show "?e \<le> 971" by (simp add: ulp_exp_def)
  show "?e = - 1074 \<or> 2 ^ 52 \<le> m"
  proof (cases "?e = - 1074")
    case False
    then have e: "?e = ilog2 ?y - 52" by (auto simp: ulp_exp_def max_def split: if_splits)
    have "(2::rat) powi 52 * 2 powi ?e = 2 powi ilog2 ?y" by (simp only: powi_2_mult e) simp
    also have "\<dots> \<le> of_int m * 2 powi ?e" using il(1) ym by simp
    finally have "(2::rat) powi 52 * 2 powi ?e \<le> of_int m * 2 powi ?e" .
    then have "of_int (2 ^ 52) \<le> (of_int m :: rat)" by simp
    then show ?thesis unfolding of_int_le_iff by simp
  qed simp
qed

lemma f64_of_magnitude_bits:
  assumes "rnd x = x" "\<bar>x\<bar> < 2 ^ 1024"
  shows "f64_of_magnitude (f64_magnitude_bits x) = Fin \<bar>x\<bar>" "f64_magnitude_bits x < 2 ^ 63"
proof -
  have "f64_of_magnitude (f64_magnitude_bits x) = Fin \<bar>x\<bar> \<and> f64_magnitude_bits x < 2 ^ 63"
  proof (cases "x = 0")
    case False
    define m e where "m = \<lfloor>\<bar>x\<bar> / 2 powi ulp_exp x\<rfloor>" and "e = ulp_exp x"
    note f = f64_magnitude_exact [OF assms(1) False assms(2), folded m_def e_def]
    define k j where "k = nat (e + 1074)" and "j = nat m"
    have kj: "k \<le> 2045" "j < 2 ^ 53" "k = 0 \<or> 2 ^ 52 \<le> j" "e = int k - 1074" "m = int j"
      using f by (auto simp: k_def j_def)
    have "f64_magnitude_bits x = nat ((e + 1074) * 2 ^ 52 + m)"
      by (simp only: f64_magnitude_bits_def m_def e_def False if_False)
    also have "\<dots> = nat (int k * 2 ^ 52 + int j)" using kj(4,5) by simp
    also have "\<dots> = k * 2 ^ 52 + j" by (simp add: nat_add_distrib nat_mult_distrib)
    finally have b: "f64_magnitude_bits x = k * 2 ^ 52 + j" .
    have ax: "\<bar>x\<bar> = of_nat j * 2 powi (int k - 1074)" using f(1) kj(4,5) by simp
    have lt: "k * 2 ^ 52 + j < 2 ^ 63" using kj(1,2) by simp
    show ?thesis
    proof (cases "j < 2 ^ 52")
      case True
      then have "k = 0" using kj(3) by simp
      then show ?thesis using True ax lt by (simp add: b f64_of_magnitude_def)
    next
      case False
      then obtain i where i: "j = 2 ^ 52 + i" "i < 2 ^ 52"
        using kj(2) le_Suc_ex [of "2 ^ 52" j] by (auto simp: not_less)
      have "(k * 2 ^ 52 + j) div 2 ^ 52 = k + 1" "(k * 2 ^ 52 + j) mod 2 ^ 52 = i"
        using i by (simp_all add: i(1))
      then show ?thesis using ax lt kj(1) i(1) by (simp add: b f64_of_magnitude_def Let_def algebra_simps)
    qed
  qed (simp add: f64_magnitude_bits_def f64_of_magnitude_def)
  then show "f64_of_magnitude (f64_magnitude_bits x) = Fin \<bar>x\<bar>" "f64_magnitude_bits x < 2 ^ 63" by auto
qed

lemma f64_bits_roundtrip:
  assumes "representable v"
  shows "f64_of_bits (f64_to_bits v) = v"
proof (cases v)
  case (Fin x)
  then have "rnd x = x" "\<bar>x\<bar> < 2 ^ 1024" using assms by (auto simp: representable_def)
  note b = f64_of_magnitude_bits [OF this]
  define n where "n = (if x < 0 then 2 ^ 63 else 0) + f64_magnitude_bits x"
  have n: "n < 2 ^ 64" using b(2) by (simp add: n_def)
  then have "unat (of_nat n :: u64) = n" by (simp add: unsigned_of_nat take_bit_nat_eq_self)
  then show ?thesis using b
    by (cases "x < 0") (simp_all add: Fin f64_to_bits_def f64_of_bits_def n_def [symmetric] Let_def, simp_all add: n_def)
qed (simp_all add: f64_to_bits_def f64_of_bits_def f64_of_magnitude_def)

subsection \<open>Little-endian integers\<close>

definition put_le :: "nat \<Rightarrow> 'a::len word \<Rightarrow> u8 list" where
  "put_le n value = map (\<lambda>i. ucast (drop_bit (8 * i) value AND 0xFF)) [0..<n]"

definition read_le :: "nat \<Rightarrow> u8 list \<Rightarrow> 'a::len word \<times> u8 list" where
  "read_le n p = (fold (\<lambda>i value. value OR push_bit (8 * i) (ucast (p ! i))) [0..<n] 0, drop n p)"

definition put_u8 :: "u8 \<Rightarrow> u8 list" where "put_u8 value = [value]"
definition put_u32 :: "u32 \<Rightarrow> u8 list" where "put_u32 = put_le 4"
definition put_u64 :: "u64 \<Rightarrow> u8 list" where "put_u64 = put_le 8"

definition read_u8 :: "u8 list \<Rightarrow> u8 \<times> u8 list" where "read_u8 p = (p ! 0, drop 1 p)"
definition read_u32 :: "u8 list \<Rightarrow> u32 \<times> u8 list" where "read_u32 = read_le 4"
definition read_u64 :: "u8 list \<Rightarrow> u64 \<times> u8 list" where "read_u64 = read_le 8"

lemma fold_or_bit:
  "bit (fold (\<lambda>i value. value OR push_bit (8 * i) (ucast (f i :: u8))) [0..<k] (0::'a::len word)) n \<longleftrightarrow>
     n < LENGTH('a) \<and> n < 8 * k \<and> bit (f (n div 8)) (n mod 8)"
proof (induction k)
  case (Suc k)
  let ?r = "fold (\<lambda>i value. value OR push_bit (8 * i) (ucast (f i :: u8))) [0..<k] (0::'a::len word)"
  have step: "bit (fold (\<lambda>i value. value OR push_bit (8 * i) (ucast (f i :: u8))) [0..<Suc k] (0::'a word)) n \<longleftrightarrow>
      bit ?r n \<or> n < LENGTH('a) \<and> 8 * k \<le> n \<and> bit (f k) (n - 8 * k)"
    by (auto simp: bit_or_iff bit_push_bit_iff bit_ucast_iff)
  consider "n < 8 * k" | "8 * k \<le> n" "n < 8 * k + 8" | "8 * k + 8 \<le> n" by linarith
  then show ?case
  proof cases
    case 1
    then show ?thesis using Suc unfolding step by simp
  next
    case 2
    then have "n div 8 = k" "n - 8 * k = n mod 8" by (simp_all add: div_nat_eqI minus_mult_div_eq_mod [symmetric])
    then show ?thesis using Suc 2 unfolding step by auto
  next
    case 3
    then have "\<not> bit (f k) (n - 8 * k)" using bit_imp_le_length [of "f k" "n - 8 * k"] by auto
    then show ?thesis using Suc 3 unfolding step by auto
  qed
qed simp

lemma read_put_le: "8 * n = LENGTH('a) \<Longrightarrow> read_le n (put_le n (v :: 'a::len word) @ p) = (v, p)"
proof -
  assume n: "8 * n = LENGTH('a)"
  have nth: "(put_le n v @ p) ! i = ucast (drop_bit (8 * i) v AND 0xFF)" if "i < n" for i
    using that by (simp add: put_le_def nth_append)
  have "fold (\<lambda>i value. value OR push_bit (8 * i) (ucast ((put_le n v @ p) ! i))) [0..<n] 0 = v"
  proof (rule bit_word_eqI)
    fix k assume k: "k < LENGTH('a)"
    then have i: "k div 8 < n" using n by simp
    have "(0xFF :: 'a word) = mask 8" by (simp add: mask_eq_exp_minus_1)
    moreover have "bit (mask 8 :: 'a word) j" if "j < 8" for j
      using that n i by (simp add: bit_mask_iff)
    ultimately have ff: "bit (0xFF :: 'a word) j" if "j < 8" for j
      using that by presburger
    have "bit (255 :: 'a word) (k mod 8)" by (rule ff) simp
    moreover have "k mod 8 < LENGTH('a)" using k by (rule le_less_trans [OF mod_less_eq_dividend])
    ultimately show "bit (fold (\<lambda>i value. value OR push_bit (8 * i) (ucast ((put_le n v @ p) ! i))) [0..<n] 0 :: 'a word) k = bit v k"
      using k n by (simp add: fold_or_bit nth [OF i] bit_ucast_iff bit_and_iff bit_drop_bit_eq)
  qed
  then show ?thesis by (simp add: read_le_def put_le_def)
qed

lemma read_put [simp]:
  "read_u8 (put_u8 b @ p) = (b, p)" "read_u32 (put_u32 v @ p) = (v, p)" "read_u64 (put_u64 w @ p) = (w, p)"
  by (simp_all add: read_u8_def put_u8_def read_u32_def put_u32_def read_u64_def put_u64_def read_put_le)

lemma put_length [simp]: "length (put_u8 b) = 1" "length (put_u32 v) = 4" "length (put_u64 w) = 8"
  by (simp_all add: put_u8_def put_u32_def put_u64_def put_le_def)

subsection \<open>Keys, optional values and enumerators\<close>

fun fraud_type_byte :: "fraud_type \<Rightarrow> u8" where
  "fraud_type_byte FtNone = 0"
| "fraud_type_byte FtLaunderRing = 1"
| "fraud_type_byte FtLaunderSolo = 2"
| "fraud_type_byte FtTxnFraudSolo = 3"
| "fraud_type_byte FtTxnFraudRing = 4"
| "fraud_type_byte FtScamGiftCard = 5"
| "fraud_type_byte FtScamImpostor = 6"

text \<open>\<open>static_cast\<close> of a byte to an enum; a byte without enumerator has no value here.\<close>

definition role_of_byte :: "u8 \<Rightarrow> role option" where
  "role_of_byte b = find (\<lambda>r. of_nat (role_index r) = b) roles"

definition bank_of_byte :: "u8 \<Rightarrow> bank option" where
  "bank_of_byte b = find (\<lambda>k. of_nat (bank_index k) = b) [Internal, External]"

definition fraud_type_of_byte :: "u8 \<Rightarrow> fraud_type option" where
  "fraud_type_of_byte b = find (\<lambda>t. fraud_type_byte t = b)
     [FtNone, FtLaunderRing, FtLaunderSolo, FtTxnFraudSolo, FtTxnFraudRing, FtScamGiftCard, FtScamImpostor]"

definition owner_of_byte :: "u8 \<Rightarrow> owner_type option" where
  "owner_of_byte b = find (\<lambda>t. owner_byte t = b)
     [OwnerPerson, OwnerRing, OwnerLegitShared, OwnerNone, OwnerPublicTerminal]"

lemma enum_bytes [simp]:
  "role_of_byte (of_nat (role_index r)) = Some r" "bank_of_byte (of_nat (bank_index k)) = Some k"
  "fraud_type_of_byte (fraud_type_byte f) = Some f" "owner_of_byte (owner_byte w) = Some w"
proof -
  show "role_of_byte (of_nat (role_index r)) = Some r" by (cases r) (simp_all add: role_of_byte_def roles_def)
  show "bank_of_byte (of_nat (bank_index k)) = Some k" by (cases k) (simp_all add: bank_of_byte_def)
  show "fraud_type_of_byte (fraud_type_byte f) = Some f" by (cases f) (simp_all add: fraud_type_of_byte_def)
  show "owner_of_byte (owner_byte w) = Some w" by (cases w) (simp_all add: owner_of_byte_def)
qed

definition put_key :: "key \<Rightarrow> u8 list" where
  "put_key k = put_u8 (of_nat (role_index (key_role k))) @ put_u8 (of_nat (bank_index (key_bank k))) @ put_u64 (key_number k)"

definition read_key :: "u8 list \<Rightarrow> key option \<times> u8 list" where
  "read_key p =
     (let (role, p) = read_u8 p; (bank, p) = read_u8 p; (number, p) = read_u64 p
      in (case (role_of_byte role, bank_of_byte bank) of
            (Some r, Some b) \<Rightarrow> Some (Key r b number) | _ \<Rightarrow> None, p))"

definition put_opt_u32 :: "u32 option \<Rightarrow> u8 list" where
  "put_opt_u32 v = put_u8 (if v \<noteq> None then 1 else 0) @ put_u32 (case v of Some x \<Rightarrow> x | None \<Rightarrow> 0)"

definition read_opt_u32 :: "u8 list \<Rightarrow> u32 option \<times> u8 list" where
  "read_opt_u32 p =
     (let (has, p) = read_u8 p; (v, p) = read_u32 p in (if has = 0 then None else Some v, p))"

lemma read_put_parts [simp]: "read_key (put_key k @ p) = (Some k, p)" "read_opt_u32 (put_opt_u32 v @ p) = (v, p)"
  by (simp_all add: read_key_def put_key_def read_opt_u32_def put_opt_u32_def Let_def split: option.split)

subsection \<open>The record\<close>

definition record_bytes :: nat where "record_bytes = 66"

definition encode_record :: "txn \<Rightarrow> u8 list" where
  "encode_record t =
     put_key (tx_source t) @ put_key (tx_target t) @
     put_u64 (f64_to_bits (tx_amount t)) @ put_u64 (word_of_int (tx_time t)) @
     put_u8 (fr_flag (tx_fraud t)) @ put_opt_u32 (fr_ring (tx_fraud t)) @
     put_opt_u32 (fr_chain (tx_fraud t)) @ put_u8 (fraud_type_byte (fr_type (tx_fraud t))) @
     put_u8 (owner_byte (dev_owner_type (se_device (tx_session t)))) @
     put_u64 (dev_owner_id (se_device (tx_session t))) @
     put_u32 (dev_slot (se_device (tx_session t))) @
     put_u32 (se_ip (tx_session t)) @ put_u8 (tag_value (se_channel (tx_session t)))"

definition decode_record :: "u8 list \<Rightarrow> txn option" where
  "decode_record record =
     (let p = record;
          (source, p) = read_key p; (target, p) = read_key p;
          (amount, p) = read_u64 p; (timestamp, p) = read_u64 p;
          (flag, p) = read_u8 p; (ring, p) = read_opt_u32 p; (chain, p) = read_opt_u32 p;
          (ftype, p) = read_u8 p; (otype, p) = read_u8 p; (oid, p) = read_u64 p;
          (slot, p) = read_u32 p; (ip, p) = read_u32 p; (channel, p) = read_u8 p
      in case (source, target, fraud_type_of_byte ftype, owner_of_byte otype) of
           (Some src, Some tgt, Some ft, Some ot) \<Rightarrow> Some
             \<lparr>tx_source = src, tx_target = tgt, tx_amount = f64_of_bits amount, tx_time = sint timestamp,
              tx_fraud = \<lparr>fr_flag = flag, fr_ring = ring, fr_chain = chain, fr_type = ft\<rparr>,
              tx_session = \<lparr>se_device = \<lparr>dev_owner_type = ot, dev_owner_id = oid, dev_slot = slot\<rparr>,
                se_ip = ip, se_channel = Tag channel\<rparr>\<rparr>
         | _ \<Rightarrow> None)"

text \<open>What the C++ field types allow: a timestamp of 64 bits and an amount that is a double.\<close>

definition row_storable :: "txn \<Rightarrow> bool" where
  "row_storable t \<longleftrightarrow> representable (tx_amount t) \<and> - (2 ^ 63) \<le> tx_time t \<and> tx_time t < 2 ^ 63"

lemma encode_length [simp]: "length (encode_record t) = record_bytes"
  by (simp add: encode_record_def put_key_def put_opt_u32_def record_bytes_def)

lemma sint_of_i64: "- (2 ^ 63) \<le> i \<Longrightarrow> i < 2 ^ 63 \<Longrightarrow> sint (word_of_int i :: u64) = i"
  by (simp add: sint_sbintrunc' signed_take_bit_int_eq_self)

lemma decode_encode:
  assumes "row_storable t"
  shows "decode_record (encode_record t @ p) = Some t"
proof -
  have "tx_amount t = f64_of_bits (f64_to_bits (tx_amount t))" "tx_time t = sint (word_of_int (tx_time t) :: u64)"
    using assms by (simp_all add: row_storable_def f64_bits_roundtrip sint_of_i64)
  then show ?thesis
    using assms read_put(1) [of "tag_value (se_channel (tx_session t))" p]
    by (simp add: decode_record_def encode_record_def Let_def)
qed

end
