(* ===== verification/Spool.thy ===== *)
theory Spool
  imports Cursor Records
begin

text \<open>
  \<open>BinaryCandidateSpool\<close> and \<open>BinarySpoolCursor\<close> (\<open>binary_spool.cpp\<close>): rows written as records
  through a bounded buffer to a file, and a cursor that reads them back through a bounded buffer
  and checks their order. A file is its bytes, a position, the room left on its volume and
  whether flushing and rewinding succeed; the destructor, which closes and removes it, is not
  modelled. A sealed spool writes no more, so its cursor takes the file along.
\<close>

subsection \<open>Files\<close>

record c_file =
  fl_bytes :: "u8 list"
  fl_pos :: nat
  fl_room :: nat
  fl_flush_ok :: bool
  fl_seek_ok :: bool

definition c_fwrite :: "u8 list \<Rightarrow> c_file \<Rightarrow> nat \<times> c_file" where
  "c_fwrite bytes f =
     (let n = min (length bytes) (fl_room f)
      in (n, f\<lparr>fl_bytes := take (fl_pos f) (fl_bytes f) @ take n bytes @ drop (fl_pos f + n) (fl_bytes f),
               fl_pos := fl_pos f + n, fl_room := fl_room f - n\<rparr>))"

definition c_fread :: "nat \<Rightarrow> c_file \<Rightarrow> u8 list \<times> c_file" where
  "c_fread n f =
     (let got = take n (drop (fl_pos f) (fl_bytes f)) in (got, f\<lparr>fl_pos := fl_pos f + length got\<rparr>))"

definition empty_file :: "nat \<Rightarrow> c_file" where
  "empty_file room = \<lparr>fl_bytes = [], fl_pos = 0, fl_room = room, fl_flush_ok = True, fl_seek_ok = True\<rparr>"

subsection \<open>Writing\<close>

definition flush_threshold_bytes :: nat where "flush_threshold_bytes = 2 ^ 18"
definition read_buffer_bytes :: nat where "read_buffer_bytes = 2 ^ 18"
definition spool_magic :: "u8 list" where
  "spool_magic = map of_char ''PLSPOOL1''"
definition spool_version :: u32 where "spool_version = 1"
definition header_bytes :: nat where "header_bytes = length spool_magic + 4 + 4"

record spool =
  bs_file :: c_file
  bs_buffer :: "u8 list"
  bs_rows :: nat
  bs_sealed :: bool
  bs_opened :: bool

definition spool_header :: "u8 list" where
  "spool_header = spool_magic @ put_u32 spool_version @ put_u32 (of_nat record_bytes)"

definition start_header :: "spool \<Rightarrow> spool" where
  "start_header s = s\<lparr>bs_buffer := bs_buffer s @ spool_header\<rparr>"

definition spool_fresh :: "c_file \<Rightarrow> spool" where
  "spool_fresh f = \<lparr>bs_file = f, bs_buffer = [], bs_rows = 0, bs_sealed = False, bs_opened = False\<rparr>"

text \<open>The argument is what \<open>std::tmpfile\<close> or \<open>std::fopen\<close> returned.\<close>

definition spool_temporary :: "c_file option \<Rightarrow> spool result" where
  "spool_temporary file =
     (case file of
        None \<Rightarrow> Inl (RuntimeError ''BinaryCandidateSpool: std::tmpfile() failed (no temp directory?)'')
      | Some f \<Rightarrow> Inr (start_header (spool_fresh f)))"

definition spool_at_path :: "string \<Rightarrow> c_file option \<Rightarrow> spool result" where
  "spool_at_path path file =
     (case file of
        None \<Rightarrow> Inl (RuntimeError (''BinaryCandidateSpool: cannot create spool file '' @ path))
      | Some f \<Rightarrow> Inr (start_header (spool_fresh f)))"

definition flush_buffer :: "spool \<Rightarrow> spool result" where
  "flush_buffer s =
     (if bs_buffer s = [] then Inr s
      else
        let (written, f) = c_fwrite (bs_buffer s) (bs_file s); s = s\<lparr>bs_file := f\<rparr>
        in if written \<noteq> length (bs_buffer s)
           then Inl (RuntimeError ''BinaryCandidateSpool: short write (spool volume full?)'')
           else Inr (s\<lparr>bs_buffer := []\<rparr>))"

definition spool_append :: "txn list \<Rightarrow> spool \<Rightarrow> spool result" where
  "spool_append txns s =
     (if bs_sealed s then Inl (LogicError ''BinaryCandidateSpool: append after finish()'')
      else
        let s = s\<lparr>bs_buffer := fold (\<lambda>t buffer. buffer @ encode_record t) txns (bs_buffer s)\<rparr>;
            s = s\<lparr>bs_rows := bs_rows s + length txns\<rparr>
        in if flush_threshold_bytes \<le> length (bs_buffer s) then flush_buffer s else Inr s)"

definition spool_finish :: "spool \<Rightarrow> spool result" where
  "spool_finish s =
     (if bs_sealed s then Inr s
      else case flush_buffer s of Inl e \<Rightarrow> Inl e
        | Inr s \<Rightarrow>
            if \<not> fl_flush_ok (bs_file s) then Inl (RuntimeError ''BinaryCandidateSpool: fflush failed'')
            else Inr (s\<lparr>bs_sealed := True\<rparr>))"

definition bytes_spooled :: "spool \<Rightarrow> nat" where
  "bytes_spooled s = bs_rows s * record_bytes"

subsection \<open>Reading\<close>

text \<open>\<open>bc_buffer\<close> is the part of the read buffer between \<open>bufferPos_\<close> and \<open>bufferEnd_\<close>.\<close>

record spool_cursor =
  bc_file :: c_file
  bc_row_count :: nat
  bc_buffer :: "u8 list"
  bc_pending :: "txn option"
  bc_decoded :: nat
  bc_emitted :: nat
  bc_last :: "txn option"
  bc_last_bound :: i64
  bc_bound_seen :: bool

definition spool_cursor_new :: "c_file \<Rightarrow> nat \<Rightarrow> spool_cursor result" where
  "spool_cursor_new file rows =
     (let (header, file) = c_fread header_bytes file
      in if length header \<noteq> header_bytes
         then Inl (RuntimeError ''BinarySpoolCursor: truncated spool header'')
         else if take (length spool_magic) header \<noteq> spool_magic
         then Inl (RuntimeError ''BinarySpoolCursor: bad spool magic'')
         else
           let (version, p) = read_u32 (drop (length spool_magic) header); (bytes, p) = read_u32 p
           in if version \<noteq> spool_version \<or> bytes \<noteq> of_nat record_bytes
              then Inl (RuntimeError ''BinarySpoolCursor: spool format mismatch'')
              else Inr \<lparr>bc_file = file, bc_row_count = rows, bc_buffer = [], bc_pending = None, bc_decoded = 0,
                bc_emitted = 0, bc_last = None, bc_last_bound = 0, bc_bound_seen = False\<rparr>)"

definition open_cursor :: "spool \<Rightarrow> (spool_cursor \<times> spool) result" where
  "open_cursor s =
     (if \<not> bs_sealed s then Inl (LogicError ''BinaryCandidateSpool::openCursor requires finish() first'')
      else if bs_opened s then Inl (LogicError ''BinaryCandidateSpool: single-cursor spool'')
      else if \<not> fl_seek_ok (bs_file s) then Inl (RuntimeError ''BinaryCandidateSpool: rewind failed'')
      else case spool_cursor_new ((bs_file s)\<lparr>fl_pos := 0\<rparr>) (bs_rows s) of Inl e \<Rightarrow> Inl e
        | Inr c \<Rightarrow> Inr (c, s\<lparr>bs_opened := True\<rparr>))"

text \<open>The refill slides the tail to the front and reads as much as the buffer takes.\<close>

definition cursor_refill :: "spool_cursor \<Rightarrow> spool_cursor result" where
  "cursor_refill c =
     (if length (bc_buffer c) < record_bytes
      then
        let (got, file) = c_fread (read_buffer_bytes - length (bc_buffer c)) (bc_file c);
            c = c\<lparr>bc_file := file, bc_buffer := bc_buffer c @ got\<rparr>
        in if length (bc_buffer c) < record_bytes
           then Inl (RuntimeError ''BinarySpoolCursor: spool truncated mid-record'')
           else Inr c
      else Inr c)"

definition cursor_advance :: "spool_cursor \<Rightarrow> (bool \<times> spool_cursor) result" where
  "cursor_advance c =
     (if bc_decoded c = bc_row_count c then Inr (False, c)
      else case cursor_refill c of Inl e \<Rightarrow> Inl e
        | Inr c \<Rightarrow>
          (case decode_record (bc_buffer c) of
             None \<Rightarrow> Inl (Unmodelled ''a record byte without enumerator'')
           | Some t \<Rightarrow>
               let c = c\<lparr>bc_pending := Some t, bc_buffer := drop record_bytes (bc_buffer c),
                         bc_decoded := bc_decoded c + 1\<rparr>
               in if (case bc_last c of Some l \<Rightarrow> funds_less t l | None \<Rightarrow> False)
                  then Inl (InvalidArgument ''BinarySpoolCursor requires replay-sorted rows'')
                  else Inr (True, c\<lparr>bc_last := Some t\<rparr>)))"

text \<open>The condition \<open>pendingValid_ || advance()\<close> of the loop.\<close>

definition cursor_fetch :: "spool_cursor \<Rightarrow> (bool \<times> spool_cursor) result" where
  "cursor_fetch c = (if bc_pending c \<noteq> None then Inr (True, c) else cursor_advance c)"

definition unread :: "spool_cursor \<Rightarrow> u8 list" where
  "unread c = bc_buffer c @ drop (fl_pos (bc_file c)) (fl_bytes (bc_file c))"

lemma fread_rest:
  "c_fread n f = (got, f') \<Longrightarrow> got @ drop (fl_pos f') (fl_bytes f') = drop (fl_pos f) (fl_bytes f)"
proof -
  assume "c_fread n f = (got, f')"
  then have "got = take n (drop (fl_pos f) (fl_bytes f))" "fl_bytes f' = fl_bytes f" "fl_pos f' = length got + fl_pos f"
    by (auto simp: c_fread_def Let_def)
  then show ?thesis
    by (metis append_eq_conv_conj append_take_drop_id drop_drop)
qed

lemma refill_unread:
  assumes "cursor_refill c = Inr c'"
  shows "unread c' = unread c" "record_bytes \<le> length (bc_buffer c')"
    "c' = c\<lparr>bc_file := bc_file c', bc_buffer := bc_buffer c'\<rparr>"
proof -
  obtain got f where g: "c_fread (read_buffer_bytes - length (bc_buffer c)) (bc_file c) = (got, f)" by fastforce
  have "unread c' = unread c \<and> record_bytes \<le> length (bc_buffer c') \<and>
    c' = c\<lparr>bc_file := bc_file c', bc_buffer := bc_buffer c'\<rparr>"
  proof (cases "length (bc_buffer c) < record_bytes")
    case True
    then have "c' = c\<lparr>bc_file := f, bc_buffer := bc_buffer c @ got\<rparr>" "record_bytes \<le> length (bc_buffer c @ got)"
      using assms g by (auto simp: cursor_refill_def split: if_splits)
    then show ?thesis using fread_rest [OF g] by (simp add: unread_def)
  qed (use assms in \<open>auto simp: cursor_refill_def\<close>)
  then show "unread c' = unread c" "record_bytes \<le> length (bc_buffer c')"
    "c' = c\<lparr>bc_file := bc_file c', bc_buffer := bc_buffer c'\<rparr>" by auto
qed

lemma advance_cases:
  assumes "cursor_advance c = Inr (True, c')"
  obtains d t where "bc_decoded c \<noteq> bc_row_count c" "cursor_refill c = Inr d" "decode_record (bc_buffer d) = Some t"
    "c' = d\<lparr>bc_pending := Some t, bc_buffer := drop record_bytes (bc_buffer d), bc_decoded := bc_decoded d + 1, bc_last := Some t\<rparr>"
  using assms by (auto simp: cursor_advance_def Let_def split: if_splits sum.splits option.splits)

lemma advance_unread:
  "cursor_advance c = Inr (True, c') \<Longrightarrow> length (unread c') + record_bytes = length (unread c) \<and> bc_pending c' \<noteq> None"
proof (erule advance_cases)
  fix d t
  assume r: "cursor_refill c = Inr d" and c': "c' = d\<lparr>bc_pending := Some t, bc_buffer := drop record_bytes (bc_buffer d),
      bc_decoded := bc_decoded d + 1, bc_last := Some t\<rparr>"
  have "length (unread c') + record_bytes = length (unread d)"
    using refill_unread(2) [OF r] by (simp add: c' unread_def)
  then show ?thesis using refill_unread(1) [OF r] c' by simp
qed

function emit_loop :: "i64 \<Rightarrow> spool_cursor \<Rightarrow> txn list \<Rightarrow> (txn list \<times> spool_cursor) result" where
  "emit_loop bound c out =
     (case cursor_fetch c of
        Inl e \<Rightarrow> Inl e
      | Inr (have, c) \<Rightarrow>
          if \<not> have then Inr (out, c)
          else case bc_pending c of
              None \<Rightarrow> Inr (out, c)
            | Some t \<Rightarrow>
                if bound \<le> tx_time t then Inr (out, c)
                else emit_loop bound (c\<lparr>bc_pending := None, bc_emitted := bc_emitted c + 1\<rparr>) (out @ [t]))"
  by pat_completeness auto
termination
proof (relation "measure (\<lambda>(_, c, _). length (unread c) + (if bc_pending c = None then 0 else 1))")
  fix bound c out have' c' t and p :: "bool \<times> spool_cursor"
  assume "cursor_fetch c = Inr p" "(have', c') = p" "\<not> \<not> have'" "bc_pending c' = Some t"
  then show "((bound, c'\<lparr>bc_pending := None, bc_emitted := bc_emitted c' + 1\<rparr>, out @ [t]), bound, c, out)
      \<in> measure (\<lambda>(_, c, _). length (unread c) + (if bc_pending c = None then 0 else 1))"
    using advance_unread [of c c'] by (auto simp: cursor_fetch_def unread_def record_bytes_def split: if_splits)
qed simp

declare emit_loop.simps [simp del]

definition spool_emit :: "i64 \<Rightarrow> spool_cursor \<Rightarrow> (txn list \<times> spool_cursor) result" where
  "spool_emit bound c =
     (if bc_bound_seen c \<and> bound < bc_last_bound c
      then Inl (LogicError ''BinarySpoolCursor::emitUntil bounds must be monotone'')
      else emit_loop bound (c\<lparr>bc_last_bound := bound, bc_bound_seen := True\<rparr>) [])"

definition spool_remaining :: "spool_cursor \<Rightarrow> nat" where
  "spool_remaining c = bc_row_count c - bc_emitted c"

end
