(* ===== verification/SpoolFacts.thy ===== *)
theory SpoolFacts
  imports Spool
begin

text \<open>
  What the spool keeps: the bytes of every row it was given, in order, and the cursor that hands
  the rows back. The cursor is an instance of the cursor interface.
\<close>

subsection \<open>The cursor\<close>

definition stored :: "txn list \<Rightarrow> u8 list" where
  "stored rows = concat (map encode_record rows)"

lemma stored_simps [simp]: "stored [] = []" "stored (t # rows) = encode_record t @ stored rows"
  "stored (xs @ ys) = stored xs @ stored ys" "length (stored rows) = length rows * record_bytes"
  by (simp_all add: stored_def) (induction rows; simp)

text \<open>\<open>rows\<close> are still to be decoded.\<close>

definition cursor_reads :: "spool_cursor \<Rightarrow> txn list \<Rightarrow> bool" where
  "cursor_reads c rows \<longleftrightarrow>
     unread c = stored rows \<and> bc_row_count c = bc_decoded c + length rows \<and>
     list_all row_storable rows \<and> length (bc_buffer c) \<le> read_buffer_bytes \<and>
     (bc_pending c \<noteq> None \<longrightarrow> bc_pending c = bc_last c)"

definition after_last :: "spool_cursor \<Rightarrow> txn list \<Rightarrow> txn list" where
  "after_last c rows = (case bc_last c of Some l \<Rightarrow> l # rows | None \<Rightarrow> rows)"

definition cursor_holds :: "spool_cursor \<Rightarrow> txn list \<Rightarrow> bool" where
  "cursor_holds c rows \<longleftrightarrow> cursor_reads c rows \<and> is_replay_sorted (after_last c rows)"

lemma refill_succeeds:
  assumes "record_bytes \<le> length (unread c)" "length (bc_buffer c) \<le> read_buffer_bytes"
  shows "\<exists>d. cursor_refill c = Inr d \<and> length (bc_buffer d) \<le> read_buffer_bytes"
proof (cases "length (bc_buffer c) < record_bytes")
  case True
  let ?n = "read_buffer_bytes - length (bc_buffer c)" and ?rest = "drop (fl_pos (bc_file c)) (fl_bytes (bc_file c))"
  have "record_bytes \<le> length (bc_buffer c) + length (take ?n ?rest)"
    "length (bc_buffer c) + length (take ?n ?rest) \<le> read_buffer_bytes"
    using assms by (auto simp: unread_def min_def record_bytes_def read_buffer_bytes_def)
  then show ?thesis using True by (simp add: cursor_refill_def c_fread_def Let_def)
qed (use assms in \<open>simp add: cursor_refill_def\<close>)

abbreviation unsorted_rows :: cxx_error where
  "unsorted_rows \<equiv> InvalidArgument ''BinarySpoolCursor requires replay-sorted rows''"

lemma advance_reads:
  assumes h: "cursor_reads c (t # rows)"
  shows "if (case bc_last c of Some l \<Rightarrow> funds_less t l | None \<Rightarrow> False) then cursor_advance c = Inl unsorted_rows
    else \<exists>c'. cursor_advance c = Inr (True, c') \<and> cursor_reads c' rows \<and> bc_pending c' = Some t \<and> bc_last c' = Some t \<and>
      bc_emitted c' = bc_emitted c \<and> bc_last_bound c' = bc_last_bound c \<and> bc_bound_seen c' = bc_bound_seen c \<and>
      bc_row_count c' = bc_row_count c"
proof -
  have u: "unread c = encode_record t @ stored rows" and s: "row_storable t"
    and l: "length (bc_buffer c) \<le> read_buffer_bytes" and n: "bc_decoded c \<noteq> bc_row_count c"
    using h by (auto simp: cursor_reads_def)
  obtain d where d: "cursor_refill c = Inr d" "length (bc_buffer d) \<le> read_buffer_bytes"
    using refill_succeeds [OF _ l] u by auto
  note r = refill_unread [OF d(1)]
  obtain q where q: "bc_buffer d = encode_record t @ q"
  proof
    have "take record_bytes (unread d) = encode_record t" using r(1) u by simp
    then have "take record_bytes (bc_buffer d) = encode_record t" using r(2) by (simp add: unread_def)
    then show "bc_buffer d = encode_record t @ drop record_bytes (bc_buffer d)" by (metis append_take_drop_id)
  qed
  let ?c = "d\<lparr>bc_pending := Some t, bc_buffer := q, bc_decoded := bc_decoded d + 1, bc_last := Some t\<rparr>"
  have dc: "bc_last d = bc_last c" "bc_decoded d = bc_decoded c" "bc_row_count d = bc_row_count c"
    "bc_emitted d = bc_emitted c" "bc_last_bound d = bc_last_bound c" "bc_bound_seen d = bc_bound_seen c"
    by (subst r(3), simp)+
  have "unread ?c = stored rows" using r(1) u by (simp add: unread_def q)
  then have "cursor_reads ?c rows" using h d(2) by (auto simp: cursor_reads_def dc q)
  then show ?thesis using n by (auto simp: cursor_advance_def d q decode_encode [OF s] Let_def dc)
qed

lemma advance_holds:
  assumes h: "cursor_holds c (t # rows)"
  shows "\<exists>c'. cursor_advance c = Inr (True, c') \<and> cursor_holds c' rows \<and> bc_pending c' = Some t \<and>
    bc_emitted c' = bc_emitted c \<and> bc_last_bound c' = bc_last_bound c \<and> bc_bound_seen c' = bc_bound_seen c \<and>
    bc_row_count c' = bc_row_count c"
proof -
  have "\<not> (case bc_last c of Some l \<Rightarrow> funds_less t l | None \<Rightarrow> False)" "is_replay_sorted (t # rows)"
    using h by (auto simp: cursor_holds_def after_last_def split: option.splits)
  then show ?thesis using advance_reads [of c t rows] h by (auto simp: cursor_holds_def after_last_def)
qed

definition spool_pending :: "spool_cursor \<Rightarrow> txn list" where
  "spool_pending c = (case bc_pending c of Some t \<Rightarrow> [t] | None \<Rightarrow> [])"

lemma emit_loop_holds:
  assumes "cursor_holds c rows"
  shows "\<exists>c' rows'. emit_loop b c out = Inr (out @ rows_before b (spool_pending c @ rows), c') \<and>
    cursor_holds c' rows' \<and> spool_pending c' @ rows' = rows_from b (spool_pending c @ rows) \<and>
    bc_emitted c' = bc_emitted c + length (rows_before b (spool_pending c @ rows)) \<and>
    bc_row_count c' = bc_row_count c \<and>
    bc_last_bound c' = bc_last_bound c \<and> bc_bound_seen c' = bc_bound_seen c"
  using assms
proof (induction "spool_pending c @ rows" arbitrary: c rows out)
  case Nil
  then have "cursor_fetch c = Inr (False, c)"
    by (auto simp: cursor_fetch_def cursor_advance_def cursor_holds_def cursor_reads_def spool_pending_def split: option.splits)
  then show ?case using Nil by (subst emit_loop.simps) (auto simp: rows_before_def rows_from_def)
next
  case (Cons t ts)
  obtain d where d: "cursor_fetch c = Inr (True, d)" "cursor_holds d ts" "bc_pending d = Some t"
    "bc_emitted d = bc_emitted c" "bc_last_bound d = bc_last_bound c" "bc_bound_seen d = bc_bound_seen c"
    "bc_row_count d = bc_row_count c"
  proof (cases "bc_pending c")
    case None
    then have "cursor_holds c (t # ts)" using Cons by (simp add: spool_pending_def)
    from advance_holds [OF this] that show thesis using None by (auto simp: cursor_fetch_def)
  next
    case (Some p)
    then have "p = t" "rows = ts" using Cons by (simp_all add: spool_pending_def)
    then show thesis using that [of c] Cons Some by (simp add: cursor_fetch_def)
  qed
  let ?d = "d\<lparr>bc_pending := None, bc_emitted := bc_emitted d + 1\<rparr>"
  have L: "spool_pending c @ rows = t # ts" using Cons by simp
  show ?case
  proof (cases "b \<le> tx_time t")
    case True
    then have "emit_loop b c out = Inr (out, d)" using d by (subst emit_loop.simps) simp
    then show ?thesis using True d unfolding L
      by (intro exI [of _ d] exI [of _ ts]) (simp add: rows_before_def rows_from_def spool_pending_def)
  next
    case False
    have e: "emit_loop b c out = emit_loop b ?d (out @ [t])" using d False by (subst emit_loop.simps) simp
    have h: "cursor_holds ?d ts" using d(2) by (simp add: cursor_holds_def cursor_reads_def after_last_def unread_def)
    have p: "ts = spool_pending ?d @ ts" by (simp add: spool_pending_def)
    from Cons.hyps(1) [OF p h, of "out @ [t]"] show ?thesis
      using False d unfolding e L p [symmetric] by (simp add: rows_before_def rows_from_def)
  qed
qed

lemma emit_loop_unsorted:
  "cursor_reads c rows \<Longrightarrow> bc_pending c = None \<Longrightarrow> \<not> is_replay_sorted (after_last c rows) \<Longrightarrow>
     \<forall>t \<in> set rows. tx_time t < b \<Longrightarrow> emit_loop b c out = Inl unsorted_rows"
proof (induction rows arbitrary: c out)
  case (Cons t rows)
  show ?case
  proof (cases "case bc_last c of Some l \<Rightarrow> funds_less t l | None \<Rightarrow> False")
    case True
    then have "cursor_fetch c = Inl unsorted_rows"
      using advance_reads [OF Cons.prems(1)] Cons.prems(2) by (simp add: cursor_fetch_def)
    then show ?thesis by (subst emit_loop.simps) simp
  next
    case False
    then obtain d where d: "cursor_advance c = Inr (True, d)" "cursor_reads d rows" "bc_pending d = Some t" "bc_last d = Some t"
      using advance_reads [OF Cons.prems(1)] by auto
    let ?d = "d\<lparr>bc_pending := None, bc_emitted := bc_emitted d + 1\<rparr>"
    have "\<not> is_replay_sorted (after_last ?d rows)"
      using Cons.prems(3) False d(4) by (auto simp: after_last_def split: option.splits)
    then have "emit_loop b ?d (out @ [t]) = Inl unsorted_rows"
      using Cons.IH [of ?d "out @ [t]"] d(2) Cons.prems(4) by (simp add: cursor_reads_def unread_def)
    moreover have "cursor_fetch c = Inr (True, d)" using d(1) Cons.prems(2) by (simp add: cursor_fetch_def)
    ultimately show ?thesis using d(3) Cons.prems(4) by (subst emit_loop.simps) simp
  qed
qed (auto simp: after_last_def split: option.splits)

subsection \<open>The spool cursor keeps the contract of a cursor\<close>

fun decode_all :: "nat \<Rightarrow> u8 list \<Rightarrow> txn list" where
  "decode_all 0 p = []"
| "decode_all (Suc n) p = (case decode_record p of None \<Rightarrow> [] | Some t \<Rightarrow> t # decode_all n (drop record_bytes p))"

definition spool_left :: "spool_cursor \<Rightarrow> txn list" where
  "spool_left c = spool_pending c @ decode_all (bc_row_count c - bc_decoded c) (unread c)"

definition spool_bound :: "spool_cursor \<Rightarrow> i64 option" where
  "spool_bound c = (if bc_bound_seen c then Some (bc_last_bound c) else None)"

definition spool_ok :: "spool_cursor \<Rightarrow> bool" where
  "spool_ok c \<longleftrightarrow> (\<exists>rows. cursor_holds c rows)"

lemma decode_all_stored: "list_all row_storable rows \<Longrightarrow> decode_all (length rows) (stored rows) = rows"
  by (induction rows) (simp_all add: decode_encode)

lemma spool_left_holds: "cursor_holds c rows \<Longrightarrow> spool_left c = spool_pending c @ rows"
  by (simp add: spool_left_def cursor_holds_def cursor_reads_def decode_all_stored)

interpretation spooled: schedule_cursor spool_emit spool_left spool_bound spool_ok
proof unfold_locales
  fix c :: spool_cursor and b b0 :: i64
  show "spool_bound c = Some b0 \<Longrightarrow> b < b0 \<Longrightarrow> \<exists>m. spool_emit b c = Inl (LogicError m)"
    by (auto simp: spool_emit_def spool_bound_def split: if_splits)
  assume ok: "spool_ok c"
  then obtain rows where h: "cursor_holds c rows" by (auto simp: spool_ok_def)
  have "is_replay_sorted (spool_pending c @ rows)"
    using h by (auto simp: cursor_holds_def cursor_reads_def after_last_def spool_pending_def dest: is_replay_sorted_Cons
        split: option.splits)
  then show "sorted (map tx_time (spool_left c))"
    unfolding spool_left_holds [OF h] by (rule is_replay_sorted_time)
  assume le: "\<And>b0. spool_bound c = Some b0 \<Longrightarrow> b0 \<le> b"
  let ?c = "c\<lparr>bc_last_bound := b, bc_bound_seen := True\<rparr>"
  have hc: "cursor_holds ?c rows" using h by (simp add: cursor_holds_def cursor_reads_def after_last_def unread_def)
  have pc: "spool_pending ?c = spool_pending c" by (simp add: spool_pending_def)
  have "spool_emit b c = emit_loop b ?c []"
    using le [of "bc_last_bound c"] by (auto simp: spool_emit_def spool_bound_def not_less)
  then obtain c' rows' where e: "spool_emit b c = Inr (rows_before b (spool_pending c @ rows), c')" "cursor_holds c' rows'"
      "spool_pending c' @ rows' = rows_from b (spool_pending c @ rows)" "bc_last_bound c' = b" "bc_bound_seen c'"
    using emit_loop_holds [OF hc, of b "[]"] unfolding pc by auto
  then show "\<exists>c'. spool_emit b c = Inr (rows_before b (spool_left c), c') \<and> spool_ok c' \<and>
      spool_left c' = rows_from b (spool_left c) \<and> spool_bound c' = Some b"
    unfolding spool_left_holds [OF h]
    by (intro exI [of _ c']) (auto simp: spool_ok_def spool_bound_def spool_left_holds)
qed

subsection \<open>The writer\<close>

text \<open>What is in the file and what is still in the buffer are the header and the rows.\<close>

definition spool_holds :: "spool \<Rightarrow> nat \<Rightarrow> txn list \<Rightarrow> bool" where
  "spool_holds s room rows \<longleftrightarrow>
     fl_bytes (bs_file s) @ bs_buffer s = spool_header @ stored rows \<and>
     fl_pos (bs_file s) = length (fl_bytes (bs_file s)) \<and> bs_rows s = length rows \<and>
     fl_room (bs_file s) + length (fl_bytes (bs_file s)) = room \<and>
     fl_flush_ok (bs_file s) \<and> fl_seek_ok (bs_file s) \<and> \<not> bs_sealed s \<and> \<not> bs_opened s"

lemma spool_start_holds: "spool_temporary (Some (empty_file room)) = Inr (start_header (spool_fresh (empty_file room)))
    \<and> spool_holds (start_header (spool_fresh (empty_file room))) room []"
  by (simp add: spool_temporary_def spool_holds_def start_header_def spool_fresh_def empty_file_def)

abbreviation short_write :: cxx_error where
  "short_write \<equiv> RuntimeError ''BinaryCandidateSpool: short write (spool volume full?)''"

definition spool_fits :: "nat \<Rightarrow> txn list \<Rightarrow> bool" where
  "spool_fits room rows \<longleftrightarrow> header_bytes + length rows * record_bytes \<le> room"

lemma header_length [simp]: "length spool_header = header_bytes"
  by (simp add: spool_header_def header_bytes_def)

lemma flush_holds:
  assumes "spool_holds s room rows"
  shows "if spool_fits room rows
     then \<exists>s'. flush_buffer s = Inr s' \<and> spool_holds s' room rows \<and> bs_buffer s' = []
     else flush_buffer s = Inl short_write"
proof -
  have E: "fl_bytes (bs_file s) @ bs_buffer s = spool_header @ stored rows"
    and P: "fl_pos (bs_file s) = length (fl_bytes (bs_file s))" using assms by (simp_all add: spool_holds_def)
  have len: "length (fl_bytes (bs_file s)) + length (bs_buffer s) = header_bytes + length rows * record_bytes"
    using arg_cong [OF E, of length] by simp
  have room: "fl_room (bs_file s) + length (fl_bytes (bs_file s)) = room"
    using assms by (simp add: spool_holds_def)
  have fits: "length (bs_buffer s) \<le> fl_room (bs_file s) \<longleftrightarrow> spool_fits room rows"
    using len room by (auto simp: spool_fits_def)
  show ?thesis
  proof (cases "length (bs_buffer s) \<le> fl_room (bs_file s)")
    case True
    let ?f = "(bs_file s)\<lparr>fl_bytes := fl_bytes (bs_file s) @ bs_buffer s, fl_pos := length (fl_bytes (bs_file s) @ bs_buffer s),
        fl_room := fl_room (bs_file s) - length (bs_buffer s)\<rparr>"
    have w: "c_fwrite (bs_buffer s) (bs_file s) = (length (bs_buffer s), ?f)"
      using True P by (simp add: c_fwrite_def Let_def min_def)
    have "spool_holds (s\<lparr>bs_file := ?f, bs_buffer := []\<rparr>) room rows"
      using assms True len room E unfolding spool_holds_def by simp
    moreover have "flush_buffer s = Inr (s\<lparr>bs_file := ?f, bs_buffer := []\<rparr>)" if "bs_buffer s \<noteq> []"
      using that w by (simp add: flush_buffer_def)
    moreover have "flush_buffer s = Inr s" if "bs_buffer s = []" using that by (simp add: flush_buffer_def)
    ultimately show ?thesis using True fits assms by (cases "bs_buffer s = []") auto
  next
    case False
    then have "bs_buffer s \<noteq> []" by auto
    then show ?thesis using False fits by (auto simp: flush_buffer_def c_fwrite_def Let_def)
  qed
qed

fun append_batches :: "txn list list \<Rightarrow> spool \<Rightarrow> spool result" where
  "append_batches [] s = Inr s"
| "append_batches (rows # batches) s =
     (case spool_append rows s of Inl e \<Rightarrow> Inl e | Inr s \<Rightarrow> append_batches batches s)"

lemma fold_encode: "fold (\<lambda>t buffer. buffer @ encode_record t) txns buffer = buffer @ stored txns"
  by (induction txns arbitrary: buffer) simp_all

lemma append_holds:
  assumes "spool_holds s room rows"
  obtains (kept) s' where "spool_append txns s = Inr s'" "spool_holds s' room (rows @ txns)"
  | (full) "spool_append txns s = Inl short_write" "\<not> spool_fits room (rows @ txns)"
proof -
  let ?s = "s\<lparr>bs_buffer := bs_buffer s @ stored txns, bs_rows := bs_rows s + length txns\<rparr>"
  have h: "spool_holds ?s room (rows @ txns)" using assms by (simp add: spool_holds_def flip: append_assoc)
  have "spool_append txns s = (if flush_threshold_bytes \<le> length (bs_buffer ?s) then flush_buffer ?s else Inr ?s)"
    using assms by (simp add: spool_append_def spool_holds_def fold_encode Let_def)
  then show thesis using that h flush_holds [OF h] by (auto split: if_splits)
qed

lemma fits_prefix: "spool_fits room (rows @ xs) \<Longrightarrow> spool_fits room rows"
  by (simp add: spool_fits_def algebra_simps)

lemma append_batches_holds:
  "spool_holds s room rows \<Longrightarrow>
     (\<exists>s'. append_batches batches s = Inr s' \<and> spool_holds s' room (rows @ concat batches)) \<or>
     append_batches batches s = Inl short_write \<and> \<not> spool_fits room (rows @ concat batches)"
proof (induction batches arbitrary: s rows)
  case (Cons b batches)
  show ?case
  proof (rule append_holds [OF Cons.prems, of b])
    fix s' assume "spool_append b s = Inr s'" "spool_holds s' room (rows @ b)"
    then show ?thesis using Cons.IH [of s' "rows @ b"] by simp
  next
    assume "spool_append b s = Inl short_write" "\<not> spool_fits room (rows @ b)"
    then show ?thesis using fits_prefix [of room "rows @ b" "concat batches"] by auto
  qed
qed simp

lemma finish_holds:
  assumes "spool_holds s room rows"
  shows "if spool_fits room rows
     then \<exists>s'. spool_finish s = Inr s' \<and> fl_bytes (bs_file s') = spool_header @ stored rows \<and>
       bs_rows s' = length rows \<and> bs_sealed s' \<and> \<not> bs_opened s' \<and> fl_seek_ok (bs_file s')
     else spool_finish s = Inl short_write"
  using assms flush_holds [OF assms] by (auto simp: spool_finish_def spool_holds_def split: if_splits)

subsection \<open>Writing everything and opening the cursor\<close>

definition spool_run :: "nat \<Rightarrow> txn list list \<Rightarrow> (spool_cursor \<times> spool) result" where
  "spool_run room batches =
     (case spool_temporary (Some (empty_file room)) of Inl e \<Rightarrow> Inl e
      | Inr s \<Rightarrow> (case append_batches batches s of Inl e \<Rightarrow> Inl e
        | Inr s \<Rightarrow> (case spool_finish s of Inl e \<Rightarrow> Inl e | Inr s \<Rightarrow> open_cursor s)))"

lemma open_cursor_fresh:
  assumes "fl_bytes (bs_file s) = spool_header @ stored rows" "bs_rows s = length rows" "bs_sealed s" "\<not> bs_opened s"
    "fl_seek_ok (bs_file s)"
  shows "\<exists>c. open_cursor s = Inr (c, s\<lparr>bs_opened := True\<rparr>) \<and> unread c = stored rows \<and> bc_buffer c = [] \<and>
    bc_row_count c = length rows \<and> bc_decoded c = 0 \<and> bc_pending c = None \<and> bc_last c = None \<and>
    bc_emitted c = 0 \<and> \<not> bc_bound_seen c"
proof -
  have h: "take header_bytes (spool_header @ stored rows) = spool_header" using header_length by (metis append_eq_conv_conj)
  have d: "drop header_bytes (spool_header @ stored rows) = stored rows" using header_length by (metis append_eq_conv_conj)
  have m: "take (length spool_magic) spool_header = spool_magic"
    "drop (length spool_magic) spool_header = put_u32 spool_version @ put_u32 (of_nat record_bytes) @ []"
    by (simp_all add: spool_header_def)
  show ?thesis
    using assms by (simp add: open_cursor_def spool_cursor_new_def c_fread_def Let_def h m unread_def d del: append_Nil2)
qed

lemma spool_run_holds:
  "if spool_fits room (concat batches)
   then \<exists>c s. spool_run room batches = Inr (c, s) \<and> unread c = stored (concat batches) \<and> bc_buffer c = [] \<and>
     bc_row_count c = length (concat batches) \<and> bc_decoded c = 0 \<and> bc_pending c = None \<and> bc_last c = None \<and>
     bc_emitted c = 0 \<and> \<not> bc_bound_seen c \<and> bs_rows s = length (concat batches)
   else spool_run room batches = Inl short_write"
proof -
  let ?s = "start_header (spool_fresh (empty_file room))"
  have run: "spool_run room batches = (case append_batches batches ?s of Inl e \<Rightarrow> Inl e
      | Inr s \<Rightarrow> (case spool_finish s of Inl e \<Rightarrow> Inl e | Inr s \<Rightarrow> open_cursor s))"
    using spool_start_holds by (simp add: spool_run_def)
  from append_batches_holds [of ?s room "[]" batches] spool_start_holds [of room]
  consider s' where "append_batches batches ?s = Inr s'" "spool_holds s' room (concat batches)"
    | "append_batches batches ?s = Inl short_write" "\<not> spool_fits room (concat batches)" by auto
  then show ?thesis
  proof cases
    case 1
    show ?thesis
    proof (cases "spool_fits room (concat batches)")
      case True
      then obtain s where "spool_finish s' = Inr s" "fl_bytes (bs_file s) = spool_header @ stored (concat batches)"
        "bs_rows s = length (concat batches)" "bs_sealed s" "\<not> bs_opened s" "fl_seek_ok (bs_file s)"
        using finish_holds [OF 1(2)] by auto
      then show ?thesis using True 1(1) open_cursor_fresh [of s "concat batches"] by (auto simp: run)
    qed (use 1 finish_holds [OF 1(2)] in \<open>simp add: run\<close>)
  qed (simp add: run)
qed

end
