(* ===== verification/SpoolClaims.thy ===== *)
theory SpoolClaims
  imports SpoolFacts
begin

text \<open>The properties of the candidate spools.\<close>

lemma spool_run_reads:
  assumes "spool_fits room (concat batches)" "list_all row_storable (concat batches)"
  obtains c s where "spool_run room batches = Inr (c, s)" "cursor_reads c (concat batches)" "bc_pending c = None"
    "bc_last c = None" "spool_bound c = None" "bs_rows s = length (concat batches)"
proof -
  obtain c s where "spool_run room batches = Inr (c, s)" "unread c = stored (concat batches)" "bc_buffer c = []"
    "bc_row_count c = length (concat batches)" "bc_decoded c = 0" "bc_pending c = None" "bc_last c = None"
    "\<not> bc_bound_seen c" "bs_rows s = length (concat batches)"
    using spool_run_holds [of room batches] assms(1) by auto
  then show thesis using that [of c s] assms(2) by (simp add: cursor_reads_def spool_bound_def)
qed

text \<open>C22: a record is 66 bytes and decodes to the transaction it was made from, whatever follows it.\<close>

theorem record_roundtrip:
  assumes "row_storable t"
  shows "decode_record (encode_record t @ rest) = Some t \<and> length (encode_record t) = 66"
  using decode_encode [OF assms] encode_length [of t] by (simp add: record_bytes_def)

definition spool_demo_row :: "int \<Rightarrow> rat \<Rightarrow> txn" where
  "spool_demo_row time amount = default_txn\<lparr>tx_source := Key RAccount Internal 7, tx_target := Key RMerchant External 9,
     tx_amount := mk_f64 amount, tx_time := time\<rparr>"

lemma spool_demo_storable: "- (2 ^ 63) \<le> time \<Longrightarrow> time < 2 ^ 63 \<Longrightarrow> row_storable (spool_demo_row time amount)"
  by (simp add: row_storable_def spool_demo_row_def)

lemma record_roundtrip_witness:
  "decode_record (encode_record (spool_demo_row 100 (25 / 2)) @ [1, 2]) = Some (spool_demo_row 100 (25 / 2))"
  using record_roundtrip [of "spool_demo_row 100 (25 / 2)" "[1, 2]"] spool_demo_storable by simp

text \<open>C21: the binary spool and the spool in memory cannot be told apart: for rows in replay order,
every sequence of bounds gives the same rows from both cursors, and both throw when a bound moves backward.\<close>

theorem spools_indistinguishable:
  assumes "is_replay_sorted (concat batches)" "list_all row_storable (concat batches)" "spool_fits room (concat batches)"
  shows "\<exists>c s p. spool_run room batches = Inr (c, s) \<and> precomputed_new (concat batches) = Inr p \<and>
    (if ascending_from None bs
     then \<exists>c' p'. emit_bounds spool_emit bs c = Inr (cut_at bs (concat batches), c') \<and>
       emit_bounds precomputed_emit bs p = Inr (cut_at bs (concat batches), p')
     else \<exists>m m'. emit_bounds spool_emit bs c = Inl (LogicError m) \<and> emit_bounds precomputed_emit bs p = Inl (LogicError m'))"
proof -
  obtain c s where c: "spool_run room batches = Inr (c, s)" "cursor_reads c (concat batches)" "bc_pending c = None"
    "bc_last c = None" "spool_bound c = None"
    by (rule spool_run_reads [OF assms(3,2)])
  then have h: "cursor_holds c (concat batches)" using assms(1) by (simp add: cursor_holds_def after_last_def)
  then have ok: "spool_ok c" and left: "spool_left c = concat batches"
    using c(3) by (auto simp: spool_ok_def spool_left_holds spool_pending_def)
  obtain p where p: "precomputed_new (concat batches) = Inr p" "precomputed_ok p" "precomputed_left p = concat batches"
    "precomputed_bound p = None" using precomputed_new_ok [OF assms(1)] by blast
  show ?thesis
    using spooled.emit_bounds_cut [OF ok, of bs] precomputed.emit_bounds_cut [OF p(2), of bs] c(1,5) p left
    by (auto split: if_splits)
qed

definition spool_demo :: "txn list list" where
  "spool_demo = [[spool_demo_row 100 5, spool_demo_row 200 7], [], [spool_demo_row 300 9]]"

lemma spool_demo_facts: "is_replay_sorted (concat spool_demo)" "list_all row_storable (concat spool_demo)"
  "length (concat spool_demo) = 3"
  by (simp_all add: spool_demo_def spool_demo_storable)
    (simp_all add: spool_demo_row_def funds_less_def audit_compare_def funds_compare_def three_way_def)

lemma spools_indistinguishable_witness:
  "\<exists>c s p. spool_run 1000 spool_demo = Inr (c, s) \<and> precomputed_new (concat spool_demo) = Inr p \<and>
    (\<exists>c' p'. emit_bounds spool_emit [150, 250] c = Inr ([[spool_demo_row 100 5], [spool_demo_row 200 7]], c') \<and>
       emit_bounds precomputed_emit [150, 250] p = Inr ([[spool_demo_row 100 5], [spool_demo_row 200 7]], p'))"
proof -
  have "cut_at [150, 250] (concat spool_demo) = [[spool_demo_row 100 5], [spool_demo_row 200 7]]"
    by (simp add: spool_demo_def spool_demo_row_def rows_before_def rows_from_def)
  moreover have "spool_fits 1000 (concat spool_demo)"
    using spool_demo_facts(3) by (simp add: spool_fits_def record_bytes_def header_bytes_def spool_magic_def)
  ultimately show ?thesis
    using spools_indistinguishable [OF spool_demo_facts(1,2), of 1000 "[150, 250]"] by simp
qed

text \<open>The volume must hold the header and 66 bytes for every row: with less room the
run ends in a short-write exception, whenever the buffer is flushed, and with enough every row is spooled.\<close>

theorem spool_needs_room:
  "if 16 + 66 * length (concat batches) \<le> room
   then \<exists>c s. spool_run room batches = Inr (c, s) \<and> bs_rows s = length (concat batches) \<and>
     bytes_spooled s = 66 * length (concat batches)
   else spool_run room batches = Inl (RuntimeError ''BinaryCandidateSpool: short write (spool volume full?)'')"
proof -
  have "spool_fits room (concat batches) \<longleftrightarrow> 16 + 66 * length (concat batches) \<le> room"
    by (simp add: spool_fits_def header_bytes_def spool_magic_def record_bytes_def mult.commute)
  then show ?thesis
    using spool_run_holds [of room batches] by (auto simp: bytes_spooled_def record_bytes_def)
qed

text \<open>Rows that are not in replay order are found out when they are read back, whatever their
batches: a cursor asked for all of them throws.\<close>

theorem unsorted_spool_rejected:
  assumes "\<not> is_replay_sorted (concat batches)" "list_all row_storable (concat batches)" "spool_fits room (concat batches)"
    "\<forall>t \<in> set (concat batches). tx_time t < bound"
  shows "\<exists>c s. spool_run room batches = Inr (c, s) \<and>
    spool_emit bound c = Inl (InvalidArgument ''BinarySpoolCursor requires replay-sorted rows'')"
proof -
  obtain c s where c: "spool_run room batches = Inr (c, s)" "cursor_reads c (concat batches)" "bc_pending c = None"
    "bc_last c = None" "spool_bound c = None"
    by (rule spool_run_reads [OF assms(3,2)])
  let ?c = "c\<lparr>bc_last_bound := bound, bc_bound_seen := True\<rparr>"
  have "emit_loop bound ?c [] = Inl unsorted_rows"
    using c assms(1,4) by (intro emit_loop_unsorted [of _ "concat batches"]) (auto simp: cursor_reads_def unread_def after_last_def)
  then show ?thesis using c(1,5) by (auto simp: spool_emit_def spool_bound_def split: if_splits)
qed

lemma unsorted_spool_rejected_witness:
  "\<exists>c s. spool_run 1000 [[spool_demo_row 200 7], [spool_demo_row 100 5]] = Inr (c, s) \<and>
    spool_emit 250 c = Inl (InvalidArgument ''BinarySpoolCursor requires replay-sorted rows'')"
  by (rule unsorted_spool_rejected)
    (simp_all add: spool_demo_storable spool_fits_def record_bytes_def header_bytes_def spool_magic_def,
     simp_all add: spool_demo_row_def funds_less_def audit_compare_def funds_compare_def three_way_def)

end
