(* ===== verification/Driver.thy ===== *)
theory Driver
  imports Spool Seed Flush
begin

text \<open>
  \<open>pipeline/stages/transfers/windowed_driver\<close>: the transfer stage over bounded windows. Phase A
  generates rows window by window, settles every span of the settlement schedule as soon as the
  generated rows cover its lookahead, and sends the accepted rows to a sink; Phase B replays them
  together with the fraud rows. The session, the sources and the sinks are references in C++: here
  they are states, threaded through. Sources do not share state.
\<close>

subsection \<open>Exceptions\<close>

definition bind_result :: "'a result \<Rightarrow> ('a \<Rightarrow> 'b result) \<Rightarrow> 'b result" where
  "bind_result r f = (case r of Inl e \<Rightarrow> Inl e | Inr v \<Rightarrow> f v)"

lemma bind_result_simps [simp]: "bind_result (Inl e) f = Inl e" "bind_result (Inr v) f = f v"
  by (simp_all add: bind_result_def)

lemma bind_result_Inr: "bind_result r f = Inr v \<longleftrightarrow> (\<exists>u. r = Inr u \<and> f u = Inr v)"
  by (cases r) simp_all

text \<open>A computation that may not end, then one that may throw.\<close>

definition bind_run :: "'a result option \<Rightarrow> ('a \<Rightarrow> 'b result option) \<Rightarrow> 'b result option" where
  "bind_run r f = (case r of None \<Rightarrow> None | Some (Inl e) \<Rightarrow> Some (Inl e) | Some (Inr v) \<Rightarrow> f v)"

lemma bind_run_simps [simp]: "bind_run None f = None" "bind_run (Some (Inl e)) f = Some (Inl e)"
  "bind_run (Some (Inr v)) f = f v"
  by (simp_all add: bind_run_def)

subsection \<open>Sinks behind a reference\<close>

record 's sink_ref =
  rf_begin :: "span \<Rightarrow> 's \<Rightarrow> 's result"
  rf_append :: "txn list \<Rightarrow> 's \<Rightarrow> 's result"
  rf_end :: "span \<Rightarrow> 's \<Rightarrow> 's result"
  rf_finish :: "'s \<Rightarrow> 's result"
  rf_rows :: "'s \<Rightarrow> nat"

text \<open>\<open>SinkRef(sink)\<close> of a sink whose operations do not throw.\<close>

definition erase_sink :: "'s sink_ops \<Rightarrow> 's sink_ref" where
  "erase_sink ops =
     \<lparr>rf_begin = (\<lambda>sp s. Inr (begin_span ops sp s)), rf_append = (\<lambda>rows s. Inr (append_rows ops rows s)),
      rf_end = (\<lambda>sp s. Inr (end_span ops sp s)), rf_finish = (\<lambda>s. Inr (finish_sink ops s)),
      rf_rows = rows_written ops\<rparr>"

definition vector_spool :: "txn list sink_ops" where
  "vector_spool = \<lparr>begin_span = (\<lambda>_ rows. rows), append_rows = (\<lambda>txns rows. rows @ txns),
     end_span = (\<lambda>_ rows. rows), finish_sink = (\<lambda>rows. rows), rows_written = length\<rparr>"

text \<open>\<open>takeRows\<close>: the rows, and an emptied spool.\<close>

definition take_rows :: "txn list \<Rightarrow> txn list \<times> txn list" where
  "take_rows rows = (rows, [])"

definition deliver_span :: "'s sink_ref \<Rightarrow> span \<Rightarrow> txn list \<Rightarrow> 's \<Rightarrow> 's result" where
  "deliver_span ops sp rows s =
     bind_result (rf_begin ops sp s) (\<lambda>s. bind_result (rf_append ops rows s) (rf_end ops sp))"

subsection \<open>Configuration, session and sources\<close>

record windowed_config =
  wc_generation :: strategy
  wc_settlement :: strategy
  wc_funding :: funding
  wc_pre_emit :: bool
  wc_post_emit :: bool
  wc_declined_out :: "declined_attempt list option"

definition default_windowed_config :: windowed_config where
  "default_windowed_config =
     \<lparr>wc_generation = \<lparr>months_per_chunk = 3, lookahead_days = 35\<rparr>,
      wc_settlement = \<lparr>months_per_chunk = 1, lookahead_days = 35\<rparr>,
      wc_funding = default_funding, wc_pre_emit = True, wc_post_emit = False, wc_declined_out = None\<rparr>"

record batch =
  bt_simulated :: window
  bt_finalized :: window
  bt_txns :: "txn list"

text \<open>
  What the driver calls: the session's \<open>advance\<close>, \<open>finish\<close> and \<open>cardEventCount\<close>, \<open>emit\<close> of a
  calendar source and \<open>emitUntil\<close> of a cursor source.
\<close>

record ('x, 'w, 'c) driver_env =
  ev_advance :: "window \<Rightarrow> 'x \<Rightarrow> (batch \<times> 'x) result"
  ev_finish :: "'x \<Rightarrow> (batch \<times> 'x) result"
  ev_card_events :: "'x \<Rightarrow> nat"
  ev_calendar :: "window \<Rightarrow> 'w \<Rightarrow> (txn list \<times> 'w) result"
  ev_cursor :: "i64 \<Rightarrow> 'c \<Rightarrow> (txn list \<times> 'c) result"

subsection \<open>The driver\<close>

text \<open>\<open>dv_spans\<close> are the spans from \<open>nextPreSpan_\<close> on.\<close>

record ('x, 'w, 'c) driver =
  dv_config :: windowed_config
  dv_session :: "'x option"
  dv_calendar :: "'w list"
  dv_cursors :: "'c list"
  dv_pre :: replay
  dv_post :: replay
  dv_stage :: "txn list"
  dv_coverage :: i64
  dv_spans :: "span list"
  dv_a_run :: bool
  dv_b_run :: bool

definition driver_new :: "ledger option \<Rightarrow> ledger option \<Rightarrow> u64 \<Rightarrow> windowed_config \<Rightarrow> ('x, 'w, 'c) driver result" where
  "driver_new pre_book post_book base config =
     bind_result (factory_rng base [''settlement'', ''pre_fraud'']) (\<lambda>pre_rng.
     bind_result (factory_rng base [''settlement'', ''post_fraud'']) (\<lambda>post_rng.
       if pre_book = None \<or> post_book = None
       then Inl (InvalidArgument ''WindowedTransferDriver requires two opening-book copies'')
       else Inr
         \<lparr>dv_config = config, dv_session = None, dv_calendar = [], dv_cursors = [],
          dv_pre = replay_new pre_book (Some pre_rng) (wc_funding config) (wc_pre_emit config),
          dv_post = replay_new post_book (Some post_rng) (wc_funding config) (wc_post_emit config),
          dv_stage = [], dv_coverage = 0, dv_spans = [], dv_a_run = False, dv_b_run = False\<rparr>))"

definition driver_session :: "'x \<Rightarrow> ('x, 'w, 'c) driver \<Rightarrow> ('x, 'w, 'c) driver" where
  "driver_session x d = d\<lparr>dv_session := Some x\<rparr>"

definition add_calendar_source :: "'w \<Rightarrow> ('x, 'w, 'c) driver \<Rightarrow> ('x, 'w, 'c) driver" where
  "add_calendar_source w d = d\<lparr>dv_calendar := dv_calendar d @ [w]\<rparr>"

definition add_cursor_source :: "'c \<Rightarrow> ('x, 'w, 'c) driver \<Rightarrow> ('x, 'w, 'c) driver" where
  "add_cursor_source c d = d\<lparr>dv_cursors := dv_cursors d @ [c]\<rparr>"

definition merge_sorted :: "txn list \<Rightarrow> txn list \<Rightarrow> txn list" where
  "merge_sorted lhs rhs =
     (if lhs = [] then rhs else if rhs = [] then lhs else merge_by audit_key lhs rhs)"

subsection \<open>Phase A\<close>

record phase_a_result =
  pa_candidates :: nat
  pa_legit :: nat
  pa_sources :: nat
  pa_cards :: nat
  pa_drops :: drop_ledger

definition no_drops :: drop_ledger where
  "no_drops = \<lparr>by_reason = Map.empty, by_channel = Map.empty\<rparr>"

definition phase_a_start :: phase_a_result where
  "phase_a_start = \<lparr>pa_candidates = 0, pa_legit = 0, pa_sources = 0, pa_cards = 0, pa_drops = no_drops\<rparr>"

text \<open>One of the two loops of \<open>stagePreRows\<close>: every source pulled and merged in.\<close>

fun merge_sources :: "('c \<Rightarrow> (txn list \<times> 'c) result) \<Rightarrow> 'c list \<Rightarrow> txn list \<Rightarrow> ('c list \<times> txn list \<times> nat) result" where
  "merge_sources pull [] rows = Inr ([], rows, 0)"
| "merge_sources pull (c # cs) rows =
     bind_result (pull c) (\<lambda>(extra, c).
     bind_result (merge_sources pull cs (merge_sorted rows extra)) (\<lambda>(cs, rows, n).
       Inr (c # cs, rows, length extra + n)))"

text \<open>The rows of a finalized window: the session's, the calendar sources' and the cursors'.\<close>

definition gather_rows ::
    "('x, 'w, 'c) driver_env \<Rightarrow> txn list \<Rightarrow> window \<Rightarrow> 'w list \<Rightarrow> 'c list \<Rightarrow> ('w list \<times> 'c list \<times> txn list \<times> nat) result" where
  "gather_rows env legit w ws cs =
     bind_result (merge_sources (\<lambda>src. bind_result (ev_calendar env w src)
         (\<lambda>(extra, src). Inr (sort_for_replay extra, src))) ws legit) (\<lambda>(ws, rows, n).
     bind_result (merge_sources (ev_cursor env (window_end w)) cs rows) (\<lambda>(cs, rows, m).
       Inr (ws, cs, rows, n + m)))"

definition stage_pre_rows ::
    "('x, 'w, 'c) driver_env \<Rightarrow> txn list \<Rightarrow> window \<Rightarrow> ('x, 'w, 'c) driver \<times> phase_a_result
      \<Rightarrow> (('x, 'w, 'c) driver \<times> phase_a_result) result" where
  "stage_pre_rows env legit w = (\<lambda>(d, summary).
     bind_result (gather_rows env legit w (dv_calendar d) (dv_cursors d)) (\<lambda>(ws, cs, rows, n).
       Inr (d\<lparr>dv_calendar := ws, dv_cursors := cs, dv_stage := dv_stage d @ rows\<rparr>,
            summary\<lparr>pa_sources := pa_sources summary + n\<rparr>)))"

fun settle_spans ::
    "'s sink_ref \<Rightarrow> bool \<Rightarrow> i64 \<Rightarrow> span list \<Rightarrow> txn list \<times> replay \<times> 's \<times> nat
      \<Rightarrow> (span list \<times> txn list \<times> replay \<times> 's \<times> nat) result" where
  "settle_spans ops finished coverage [] st = Inr ([], st)"
| "settle_spans ops finished coverage (sp # sps) (stage, acc, s, n) =
     (let last = (sps = [])
      in if last \<and> \<not> finished \<or> \<not> last \<and> \<not> finished \<and> coverage < sp_lookahead sp
         then Inr (sp # sps, stage, acc, s, n)
         else
           let start = wn_start (sp_active sp); bound = window_end (sp_active sp);
               live = rows_from start stage; rest = rows_from bound live;
               look = (if last then rest else rows_before (sp_lookahead sp) rest);
               acc = extend_chunk (rows_before bound live) look bound acc;
               (settled, acc) = take_settled_before bound acc
           in bind_result (deliver_span ops sp settled s) (\<lambda>s.
                settle_spans ops finished coverage sps (rest, acc, s, n + length settled)))"

definition settle_pre_spans ::
    "'s sink_ref \<Rightarrow> bool \<Rightarrow> ('x, 'w, 'c) driver \<times> phase_a_result \<times> 's
      \<Rightarrow> (('x, 'w, 'c) driver \<times> phase_a_result \<times> 's) result" where
  "settle_pre_spans ops finished = (\<lambda>(d, summary, s).
     bind_result (settle_spans ops finished (dv_coverage d) (dv_spans d) (dv_stage d, dv_pre d, s, pa_candidates summary))
       (\<lambda>(spans, stage, acc, s, n).
         Inr (d\<lparr>dv_spans := spans, dv_stage := stage, dv_pre := acc\<rparr>, summary\<lparr>pa_candidates := n\<rparr>, s)))"

text \<open>\<open>feedFinalized\<close>; its memory probe has no effect on the run.\<close>

definition feed_finalized ::
    "('x, 'w, 'c) driver_env \<Rightarrow> 's sink_ref \<Rightarrow> batch \<Rightarrow> bool \<Rightarrow> ('x, 'w, 'c) driver \<times> phase_a_result \<times> 's
      \<Rightarrow> (('x, 'w, 'c) driver \<times> phase_a_result \<times> 's) result" where
  "feed_finalized env ops bt finished = (\<lambda>(d, summary, s).
     let summary = summary\<lparr>pa_legit := pa_legit summary + length (bt_txns bt)\<rparr>;
         w = bt_finalized bt
     in bind_result
          (if 0 < wn_days w
           then bind_result (stage_pre_rows env (bt_txns bt) w (d, summary)) (\<lambda>(d, summary).
             Inr (d\<lparr>dv_coverage := window_end w\<rparr>, summary))
           else Inr (d, summary))
          (\<lambda>(d, summary). settle_pre_spans ops finished (d, summary, s)))"

fun feed_spans ::
    "('x, 'w, 'c) driver_env \<Rightarrow> 's sink_ref \<Rightarrow> span list \<Rightarrow> 'x \<times> ('x, 'w, 'c) driver \<times> phase_a_result \<times> 's
      \<Rightarrow> ('x \<times> ('x, 'w, 'c) driver \<times> phase_a_result \<times> 's) result" where
  "feed_spans env ops [] st = Inr st"
| "feed_spans env ops (sp # sps) (x, st) =
     bind_result (ev_advance env (sp_active sp) x) (\<lambda>(bt, x).
     bind_result (feed_finalized env ops bt False st) (\<lambda>st. feed_spans env ops sps (x, st)))"

text \<open>\<open>runPhaseA\<close>. What an exception leaves behind is not modelled.\<close>

definition run_phase_a ::
    "('x, 'w, 'c) driver_env \<Rightarrow> 's sink_ref \<Rightarrow> window \<Rightarrow> ('x, 'w, 'c) driver \<Rightarrow> 's
      \<Rightarrow> (phase_a_result \<times> ('x, 'w, 'c) driver \<times> 's) result option" where
  "run_phase_a env ops full d s =
     (case dv_session d of
        None \<Rightarrow> Some (Inl (LogicError ''WindowedTransferDriver requires a bound Session''))
      | Some x \<Rightarrow>
          if dv_a_run d then Some (Inl (LogicError ''WindowedTransferDriver: Phase A already run''))
          else
            bind_run (partition_window full (wc_generation (dv_config d))) (\<lambda>generation.
            bind_run (partition_window full (wc_settlement (dv_config d))) (\<lambda>settlement.
              let d = d\<lparr>dv_a_run := True, dv_spans := sc_spans settlement, dv_stage := [],
                        dv_coverage := wn_start full\<rparr>
              in Some (
                bind_result (feed_spans env ops (sc_spans generation) (x, d, phase_a_start, s)) (\<lambda>(x, st).
                bind_result (ev_finish env x) (\<lambda>(bt, x).
                bind_result (feed_finalized env ops bt True st) (\<lambda>(d, summary, s).
                bind_result (rf_finish ops s) (\<lambda>s.
                  Inr (summary\<lparr>pa_cards := ev_card_events env x, pa_drops := rp_drops (dv_pre d)\<rparr>,
                       d\<lparr>dv_session := Some x\<rparr>, s)))))))))"

subsection \<open>Phase B\<close>

record phase_b_result =
  pb_flushed :: nat
  pb_candidates :: nat
  pb_fraud :: nat
  pb_drops :: drop_ledger

record ('c, 'f, 's) phase_b_state =
  fb_cand :: 'c
  fb_fraud :: "'f option"
  fb_cand_stage :: "txn list"
  fb_fraud_stage :: "txn list"
  fb_acc :: replay
  fb_declined :: "declined_attempt list option"
  fb_sink :: 's
  fb_n_cand :: nat
  fb_n_fraud :: nat

text \<open>The pull of a span: both stages are filled up to its bound.\<close>

definition pull_streams ::
    "(i64 \<Rightarrow> 'c \<Rightarrow> (txn list \<times> 'c) result) \<Rightarrow> (i64 \<Rightarrow> 'f \<Rightarrow> (txn list \<times> 'f) result) \<Rightarrow> i64
      \<Rightarrow> ('c, 'f, 's) phase_b_state \<Rightarrow> ('c, 'f, 's) phase_b_state result" where
  "pull_streams emit_c emit_f pull_bound b =
     bind_result (emit_c pull_bound (fb_cand b)) (\<lambda>(rows, c).
       let b = b\<lparr>fb_cand := c, fb_cand_stage := fb_cand_stage b @ rows\<rparr>
       in case fb_fraud b of None \<Rightarrow> Inr b
          | Some f \<Rightarrow> bind_result (emit_f pull_bound f) (\<lambda>(rows, f).
              Inr (b\<lparr>fb_fraud := Some f, fb_fraud_stage := fb_fraud_stage b @ rows\<rparr>)))"

definition settle_streams ::
    "'s sink_ref \<Rightarrow> bool \<Rightarrow> span \<Rightarrow> ('c, 'f, 's) phase_b_state \<Rightarrow> ('c, 'f, 's) phase_b_state result" where
  "settle_streams ops final sp b =
     (let start = wn_start (sp_active sp); bound = window_end (sp_active sp); look_sec = sp_lookahead sp;
          c_live = rows_from start (fb_cand_stage b); f_live = rows_from start (fb_fraud_stage b);
          c_active = rows_before bound c_live; f_active = rows_before bound f_live;
          c_rest = rows_from bound c_live; f_rest = rows_from bound f_live;
          c_look = (if final then c_rest else rows_before look_sec c_rest);
          f_look = (if final then f_rest else rows_before look_sec f_rest);
          acc = extend_chunk (merge_by audit_key c_active f_active) (c_look @ f_look) bound (fb_acc b);
          (finalized, acc) = take_settled_before bound acc;
          (acc, declined) = (case fb_declined b of None \<Rightarrow> (acc, None)
            | Some out \<Rightarrow> (case append_declined_span acc out of (acc, out) \<Rightarrow> (acc, Some out)))
      in bind_result (deliver_span ops sp finalized (fb_sink b)) (\<lambda>s.
           Inr (b\<lparr>fb_cand_stage := c_rest, fb_fraud_stage := f_rest, fb_acc := acc, fb_declined := declined,
             fb_sink := s, fb_n_cand := fb_n_cand b + length c_active,
             fb_n_fraud := fb_n_fraud b + length f_active\<rparr>)))"

fun phase_b_spans ::
    "'s sink_ref \<Rightarrow> (i64 \<Rightarrow> 'c \<Rightarrow> (txn list \<times> 'c) result) \<Rightarrow> (i64 \<Rightarrow> 'f \<Rightarrow> (txn list \<times> 'f) result)
      \<Rightarrow> span list \<Rightarrow> ('c, 'f, 's) phase_b_state \<Rightarrow> ('c, 'f, 's) phase_b_state result" where
  "phase_b_spans ops emit_c emit_f [] b = Inr b"
| "phase_b_spans ops emit_c emit_f (sp # sps) b =
     (let last = (sps = []); pull_bound = (if last then int64_max else sp_lookahead sp)
      in bind_result (pull_streams emit_c emit_f pull_bound b) (\<lambda>b.
         bind_result (settle_streams ops last sp b) (\<lambda>b. phase_b_spans ops emit_c emit_f sps b)))"

definition phase_b_start ::
    "('x, 'w, 'k) driver \<Rightarrow> 'c \<Rightarrow> 'f option \<Rightarrow> 's \<Rightarrow> ('c, 'f, 's) phase_b_state" where
  "phase_b_start d c f s =
     \<lparr>fb_cand = c, fb_fraud = f, fb_cand_stage = [], fb_fraud_stage = [], fb_acc = dv_post d,
      fb_declined = wc_declined_out (dv_config d), fb_sink = s, fb_n_cand = 0, fb_n_fraud = 0\<rparr>"

text \<open>The caller's vector of declined attempts is in the configuration of the driver returned.\<close>

definition run_phase_b ::
    "'s sink_ref \<Rightarrow> (i64 \<Rightarrow> 'c \<Rightarrow> (txn list \<times> 'c) result) \<Rightarrow> (i64 \<Rightarrow> 'f \<Rightarrow> (txn list \<times> 'f) result)
      \<Rightarrow> window \<Rightarrow> 'c \<Rightarrow> 'f option \<Rightarrow> ('x, 'w, 'k) driver \<Rightarrow> 's
      \<Rightarrow> (phase_b_result \<times> ('x, 'w, 'k) driver \<times> 's) result option" where
  "run_phase_b ops emit_c emit_f full c f d s =
     (if dv_b_run d then Some (Inl (LogicError ''WindowedTransferDriver: Phase B already run''))
      else
        let d = d\<lparr>dv_b_run := True\<rparr>
        in bind_run (partition_window full (wc_settlement (dv_config d))) (\<lambda>settlement. Some (
             bind_result (phase_b_spans ops emit_c emit_f (sc_spans settlement) (phase_b_start d c f s)) (\<lambda>b.
             bind_result (rf_finish ops (fb_sink b)) (\<lambda>s.
               Inr (\<lparr>pb_flushed = rf_rows ops s, pb_candidates = fb_n_cand b, pb_fraud = fb_n_fraud b,
                     pb_drops = rp_drops (fb_acc b)\<rparr>,
                    d\<lparr>dv_post := fb_acc b, dv_config := (dv_config d)\<lparr>wc_declined_out := fb_declined b\<rparr>\<rparr>, s))))))"

subsection \<open>Both phases\<close>

text \<open>
  \<open>runTwoPhase\<close>: the fraud source is made from the exact number of candidates. An empty
  \<open>std::function\<close> is \<open>None\<close>, and a factory may return no source.
\<close>

definition run_two_phase ::
    "('x, 'w, 'k) driver_env \<Rightarrow> 's sink_ref \<Rightarrow> (i64 \<Rightarrow> 'f \<Rightarrow> (txn list \<times> 'f) result) \<Rightarrow> window
      \<Rightarrow> (nat \<Rightarrow> 'f option result) option \<Rightarrow> ('x, 'w, 'k) driver \<Rightarrow> 's
      \<Rightarrow> ((phase_a_result \<times> phase_b_result) \<times> ('x, 'w, 'k) driver \<times> 's) result option" where
  "run_two_phase env ops emit_f full make_fraud d s =
     bind_run (run_phase_a env (erase_sink vector_spool) full d []) (\<lambda>(summary_a, d, spool).
     bind_run (Some (case make_fraud of None \<Rightarrow> Inr None | Some factory \<Rightarrow> factory (pa_candidates summary_a))) (\<lambda>f.
     bind_run (Some (precomputed_new (fst (take_rows spool)))) (\<lambda>c.
     bind_run (run_phase_b ops precomputed_emit emit_f full c f d s) (\<lambda>(summary_b, d, s).
       Some (Inr ((summary_a, summary_b), d, s))))))"

text \<open>\<open>makeProductSource\<close> and \<open>makeFraudSource\<close>; what the emitters and the injector generate is an argument.\<close>

definition make_product_source :: "txn list \<Rightarrow> txn list \<Rightarrow> txn list \<Rightarrow> precomputed_cursor result" where
  "make_product_source premiums claims obligations =
     precomputed_new (merge_replay_sorted (merge_replay_sorted (merge_replay_sorted [] premiums) claims) obligations)"

definition make_fraud_source :: "(nat \<Rightarrow> txn list) \<Rightarrow> nat \<Rightarrow> precomputed_cursor result" where
  "make_fraud_source inject realized = precomputed_new (sort_for_replay (inject realized))"

subsection \<open>The file-backed composition (windowed_run.cpp)\<close>

definition spool_sink :: "spool sink_ref" where
  "spool_sink = \<lparr>rf_begin = (\<lambda>_ s. Inr s), rf_append = spool_append, rf_end = (\<lambda>_ s. Inr s),
     rf_finish = spool_finish, rf_rows = bs_rows\<rparr>"

record windowed_run_result =
  wr_phase_a :: phase_a_result
  wr_phase_b :: phase_b_result
  wr_spool_rows :: nat
  wr_spool_bytes :: nat

definition run_binary_spool ::
    "('x, 'w, 'k) driver_env \<Rightarrow> 's sink_ref \<Rightarrow> (i64 \<Rightarrow> 'f \<Rightarrow> (txn list \<times> 'f) result) \<Rightarrow> window
      \<Rightarrow> (nat \<Rightarrow> 'f option result) \<Rightarrow> c_file option \<Rightarrow> ('x, 'w, 'k) driver \<Rightarrow> 's
      \<Rightarrow> (windowed_run_result \<times> ('x, 'w, 'k) driver \<times> 's) result option" where
  "run_binary_spool env ops emit_f full make_fraud temporary d s =
     bind_run (Some (spool_temporary temporary)) (\<lambda>spool.
     bind_run (run_phase_a env spool_sink full d spool) (\<lambda>(a, d, spool).
     bind_run (Some (make_fraud (pa_candidates a))) (\<lambda>fraud.
     bind_run (Some (open_cursor spool)) (\<lambda>(candidates, spool).
     bind_run (run_phase_b ops spool_emit emit_f full candidates fraud d s) (\<lambda>(b, d, s).
       Some (Inr (\<lparr>wr_phase_a = a, wr_phase_b = b, wr_spool_rows = bs_rows spool,
                   wr_spool_bytes = bytes_spooled spool\<rparr>, d, s)))))))"

end
