(* ===== verification/DriverFacts.thy ===== *)
theory DriverFacts
  imports Driver
begin

text \<open>
  What the driver computes. Phase B pulls its two streams span by span: it settles what the
  replay of the whole streams settles. Phase A settles a span as soon as it is covered: it settles
  what the replay of everything it ever stages settles.
\<close>

subsection \<open>Delivering spans\<close>

fun deliver_all :: "'s sink_ref \<Rightarrow> (span \<times> txn list) list \<Rightarrow> 's \<Rightarrow> 's result" where
  "deliver_all ops [] s = Inr s"
| "deliver_all ops ((sp, rows) # cuts) s = bind_result (deliver_span ops sp rows s) (deliver_all ops cuts)"

lemma bind_result_assoc: "bind_result (bind_result r f) g = bind_result r (\<lambda>v. bind_result (f v) g)"
  by (cases r) simp_all

lemma deliver_all_append:
  "deliver_all ops (xs @ ys) s = bind_result (deliver_all ops xs s) (deliver_all ops ys)"
  by (induction xs arbitrary: s) (auto simp: bind_result_def split: sum.split)

lemma deliver_vector: "deliver_all (erase_sink vector_spool) cuts rows = Inr (rows @ concat (map snd cuts))"
  by (induction cuts arbitrary: rows) (auto simp: deliver_span_def erase_sink_def vector_spool_def)

subsection \<open>Cutting what has been pulled\<close>

lemma staged_cut:
  assumes "sorted (map tx_time rows)" "bound \<le> p"
  shows "rows_before bound (rows_from start (rows_before p rows)) = rows_before bound (rows_from start rows)"
    "rows_from bound (rows_from start (rows_before p rows)) @ rows_from p rows = rows_from bound (rows_from start rows)
      \<or> p < start"
    "l \<le> p \<Longrightarrow> rows_before l (rows_from bound (rows_from start (rows_before p rows)))
      = rows_before l (rows_from bound (rows_from start rows))"
    "\<forall>t \<in> set (rows_from bound (rows_from start (rows_before p rows))). tx_time t < p"
proof -
  note s = rows_cut_time_sorted
  have ss: "sorted (map tx_time (rows_before p rows))" "sorted (map tx_time (rows_from start (rows_before p rows)))"
    "sorted (map tx_time (rows_from start rows))" "sorted (map tx_time (rows_from bound (rows_from start (rows_before p rows))))"
    "sorted (map tx_time (rows_from bound (rows_from start rows)))" "sorted (map tx_time (rows_from p rows))"
    by (intro s assms(1))+
  have f: "rows_from start (rows_before p rows) = filter (\<lambda>t. start \<le> tx_time t \<and> tx_time t < p) rows"
    unfolding rows_cut_sorted(2) [OF ss(1)] unfolding rows_cut_sorted(1) [OF assms(1)] by (simp add: conj_commute)
  have g: "rows_from bound (rows_from start (rows_before p rows))
      = filter (\<lambda>t. bound \<le> tx_time t \<and> start \<le> tx_time t \<and> tx_time t < p) rows"
    unfolding rows_cut_sorted(2) [OF ss(2)] unfolding f by (simp add: conj_ac)
  have h: "rows_from bound (rows_from start rows) = filter (\<lambda>t. bound \<le> tx_time t \<and> start \<le> tx_time t) rows"
    unfolding rows_cut_sorted(2) [OF ss(3)] unfolding rows_cut_sorted(2) [OF assms(1)] by (simp add: conj_ac)
  show "rows_before bound (rows_from start (rows_before p rows)) = rows_before bound (rows_from start rows)"
    unfolding rows_cut_sorted(1) [OF ss(2)] rows_cut_sorted(1) [OF ss(3)] unfolding f rows_cut_sorted(2) [OF assms(1)]
    using assms(2) by (auto intro!: filter_cong)
  show "rows_before l (rows_from bound (rows_from start (rows_before p rows)))
      = rows_before l (rows_from bound (rows_from start rows))" if "l \<le> p"
    unfolding rows_cut_sorted(1) [OF ss(4)] rows_cut_sorted(1) [OF ss(5)] unfolding g h
    using that by (auto intro!: filter_cong)
  show "\<forall>t \<in> set (rows_from bound (rows_from start (rows_before p rows))). tx_time t < p" by (simp add: g)
  show "rows_from bound (rows_from start (rows_before p rows)) @ rows_from p rows = rows_from bound (rows_from start rows)
      \<or> p < start"
  proof (cases "p < start")
    case False
    have "rows_from bound (rows_from start (rows_before p rows @ rows_from p rows))
        = rows_from bound (rows_from start (rows_before p rows)) @ rows_from p rows"
    proof -
      have all: "\<forall>t \<in> set (rows_from p rows). bound \<le> tx_time t \<and> start \<le> tx_time t"
        using assms(2) False by (auto simp: rows_cut_sorted(2) [OF assms(1)])
      have "rows_from b (xs @ rows_from p rows) = rows_from b xs @ rows_from p rows"
        if "\<forall>t \<in> set (rows_from p rows). b \<le> tx_time t" for b xs
        using that unfolding rows_from_def [of b] by (cases "rows_from p rows") (auto simp: dropWhile_append)
      then show ?thesis using all by (simp del: rows_before_from)
    qed
    then show ?thesis by simp
  qed simp
qed

subsection \<open>Phase B\<close>

text \<open>What the replay of the merged streams settles in every span.\<close>

fun merged_cuts ::
    "span list \<Rightarrow> txn list \<Rightarrow> txn list \<Rightarrow> replay \<Rightarrow> declined_attempt list
      \<Rightarrow> (span \<times> txn list) list \<times> replay \<times> declined_attempt list" where
  "merged_cuts [] cand fr s out = ([], s, out)"
| "merged_cuts (sp # sps) cand fr s out =
     (let bound = window_end (sp_active sp);
          c_rest = rows_from bound cand; f_rest = rows_from bound fr;
          c_look = (if sps \<noteq> [] then rows_before (sp_lookahead sp) c_rest else c_rest);
          f_look = (if sps \<noteq> [] then rows_before (sp_lookahead sp) f_rest else f_rest);
          slice = merge_by audit_key (rows_before bound cand) (rows_before bound fr);
          s = extend_chunk slice (c_look @ f_look) bound s;
          (settled, s) = take_settled_before bound s;
          (s, out) = append_declined_span s out;
          (cuts, s, out) = merged_cuts sps c_rest f_rest s out
      in ((sp, settled) # cuts, s, out))"

lemma replay_merged_cuts:
  "replay_merged sps cand fr s out =
     (case merged_cuts sps cand fr s (pd_declined out) of (cuts, s, de) \<Rightarrow>
       (s, out\<lparr>pd_txns := pd_txns out @ concat (map snd cuts), pd_declined := de\<rparr>))"
  by (induction sps arbitrary: cand fr s out) (simp_all add: Let_def split_beta)

definition pull_of :: "span \<Rightarrow> span list \<Rightarrow> i64" where
  "pull_of sp sps = (if sps = [] then int64_max else sp_lookahead sp)"

text \<open>Every lookahead reaches past its span, and none moves backward.\<close>

fun pulls_ok :: "span list \<Rightarrow> bool" where
  "pulls_ok [] = True"
| "pulls_ok [sp] = True"
| "pulls_ok (sp # sq # sps) =
     (window_end (sp_active sp) \<le> sp_lookahead sp \<and> sp_lookahead sp \<le> pull_of sq sps \<and> pulls_ok (sq # sps))"

locale fraud_replay =
  cand: schedule_cursor emit_c left_c bound_c ok_c + fraud: schedule_cursor emit_f left_f bound_f ok_f
  for emit_c :: "i64 \<Rightarrow> 'c \<Rightarrow> (txn list \<times> 'c) result" and left_c bound_c ok_c
    and emit_f :: "i64 \<Rightarrow> 'f \<Rightarrow> (txn list \<times> 'f) result" and left_f bound_f ok_f
begin

definition fraud_left :: "'f option \<Rightarrow> txn list" where
  "fraud_left f = (case f of None \<Rightarrow> [] | Some f \<Rightarrow> left_f f)"

definition cand_rows :: "('c, 'f, 's) phase_b_state \<Rightarrow> txn list" where
  "cand_rows b = fb_cand_stage b @ left_c (fb_cand b)"

definition fraud_rows :: "('c, 'f, 's) phase_b_state \<Rightarrow> txn list" where
  "fraud_rows b = fb_fraud_stage b @ fraud_left (fb_fraud b)"

text \<open>Both streams can be pulled up to \<open>p\<close>.\<close>

definition ready :: "i64 \<Rightarrow> ('c, 'f, 's) phase_b_state \<Rightarrow> bool" where
  "ready p b \<longleftrightarrow>
     ok_c (fb_cand b) \<and> (\<forall>b0. bound_c (fb_cand b) = Some b0 \<longrightarrow> b0 \<le> p) \<and> (\<forall>t \<in> set (fb_cand_stage b). tx_time t < p) \<and>
     sorted (map tx_time (cand_rows b)) \<and>
     (\<forall>f. fb_fraud b = Some f \<longrightarrow> ok_f f \<and> (\<forall>b0. bound_f f = Some b0 \<longrightarrow> b0 \<le> p)) \<and>
     (\<forall>t \<in> set (fb_fraud_stage b). tx_time t < p) \<and> sorted (map tx_time (fraud_rows b))"

lemma pull_streams_ready:
  assumes "ready p b"
  shows "\<exists>b'. pull_streams emit_c emit_f p b = Inr b' \<and> fb_cand_stage b' = rows_before p (cand_rows b) \<and>
    fb_fraud_stage b' = rows_before p (fraud_rows b) \<and> left_c (fb_cand b') = rows_from p (cand_rows b) \<and>
    fraud_left (fb_fraud b') = rows_from p (fraud_rows b) \<and>
    ok_c (fb_cand b') \<and> bound_c (fb_cand b') = Some p \<and>
    (\<forall>f. fb_fraud b' = Some f \<longrightarrow> ok_f f \<and> bound_f f = Some p) \<and>
    fb_acc b' = fb_acc b \<and> fb_declined b' = fb_declined b \<and> fb_sink b' = fb_sink b \<and>
    fb_n_cand b' = fb_n_cand b \<and> fb_n_fraud b' = fb_n_fraud b"
proof -
  have rc: "ok_c (fb_cand b)" "\<And>b0. bound_c (fb_cand b) = Some b0 \<Longrightarrow> b0 \<le> p"
    "\<forall>t \<in> set (fb_cand_stage b). tx_time t < p" using assms by (auto simp: ready_def)
  from cand.pull_stage [OF this] obtain c' where c': "emit_c p (fb_cand b) = Inr (rows_before p (left_c (fb_cand b)), c')"
    "ok_c c'" "bound_c c' = Some p" "fb_cand_stage b @ rows_before p (left_c (fb_cand b)) = rows_before p (cand_rows b)"
    "left_c c' = rows_from p (cand_rows b)" unfolding cand_rows_def by blast
  let ?b = "b\<lparr>fb_cand := c', fb_cand_stage := rows_before p (cand_rows b)\<rparr>"
  show ?thesis
  proof (cases "fb_fraud b")
    case None
    have "rows_before p (fb_fraud_stage b) = fb_fraud_stage b" "rows_from p (fb_fraud_stage b) = []"
      using assms by (simp_all add: ready_def rows_before_all rows_from_none)
    moreover have "pull_streams emit_c emit_f p b = Inr ?b" using c' None by (simp add: pull_streams_def)
    ultimately show ?thesis using c' None by (intro exI [of _ ?b]) (simp add: fraud_rows_def fraud_left_def)
  next
    case (Some f)
    have rf: "ok_f f" "\<And>b0. bound_f f = Some b0 \<Longrightarrow> b0 \<le> p" "\<forall>t \<in> set (fb_fraud_stage b). tx_time t < p"
      using assms Some by (auto simp: ready_def)
    have fr: "fraud_rows b = fb_fraud_stage b @ left_f f" using Some by (simp add: fraud_rows_def fraud_left_def)
    from fraud.pull_stage [OF rf] obtain f' where f': "emit_f p f = Inr (rows_before p (left_f f), f')"
      "ok_f f'" "bound_f f' = Some p" "fb_fraud_stage b @ rows_before p (left_f f) = rows_before p (fraud_rows b)"
      "left_f f' = rows_from p (fraud_rows b)" unfolding fr by blast
    have "pull_streams emit_c emit_f p b = Inr (?b\<lparr>fb_fraud := Some f', fb_fraud_stage := rows_before p (fraud_rows b)\<rparr>)"
      using c' f' Some by (simp add: pull_streams_def)
    then show ?thesis using c' f' Some by (simp add: fraud_left_def)
  qed
qed

lemma pull_streams_sink:
  "pull_streams emit_c emit_f p (b\<lparr>fb_sink := s\<rparr>) = bind_result (pull_streams emit_c emit_f p b) (\<lambda>b. Inr (b\<lparr>fb_sink := s\<rparr>))"
  by (auto simp: pull_streams_def bind_result_def Let_def split: sum.split option.split)

lemma span_step:
  assumes r: "ready (pull_of sp sps) b" and d: "fb_declined b = Some out"
    and a: "wn_start (sp_active sp) \<le> window_end (sp_active sp)" "window_end (sp_active sp) \<le> pull_of sp sps"
    and top: "\<forall>t \<in> set (cand_rows b) \<union> set (fraud_rows b). tx_time t < int64_max"
  defines "bound \<equiv> window_end (sp_active sp)"
  defines "C \<equiv> rows_from (wn_start (sp_active sp)) (cand_rows b)"
  defines "F \<equiv> rows_from (wn_start (sp_active sp)) (fraud_rows b)"
  defines "c_look \<equiv> (if sps \<noteq> [] then rows_before (sp_lookahead sp) (rows_from bound C) else rows_from bound C)"
  defines "f_look \<equiv> (if sps \<noteq> [] then rows_before (sp_lookahead sp) (rows_from bound F) else rows_from bound F)"
  defines "u \<equiv> take_settled_before bound (extend_chunk (merge_by audit_key (rows_before bound C) (rows_before bound F))
      (c_look @ f_look) bound (fb_acc b))"
  shows "\<exists>b'. (\<forall>s. bind_result (pull_streams emit_c emit_f (pull_of sp sps) (b\<lparr>fb_sink := s\<rparr>)) (settle_streams ops (sps = []) sp)
        = bind_result (deliver_span ops sp (fst u) s) (\<lambda>s. Inr (b'\<lparr>fb_sink := s\<rparr>))) \<and>
    cand_rows b' = rows_from bound C \<and> fraud_rows b' = rows_from bound F \<and>
    fb_acc b' = fst (append_declined_span (snd u) out) \<and> fb_declined b' = Some (snd (append_declined_span (snd u) out)) \<and>
    fb_n_cand b' = fb_n_cand b + length (rows_before bound C) \<and>
    fb_n_fraud b' = fb_n_fraud b + length (rows_before bound F) \<and>
    (\<forall>q. pull_of sp sps \<le> q \<longrightarrow> ready q b')"
proof -
  let ?p = "pull_of sp sps" and ?a = "wn_start (sp_active sp)"
  from pull_streams_ready [OF r] obtain b1 where b1: "pull_streams emit_c emit_f ?p b = Inr b1"
    "fb_cand_stage b1 = rows_before ?p (cand_rows b)" "fb_fraud_stage b1 = rows_before ?p (fraud_rows b)"
    "left_c (fb_cand b1) = rows_from ?p (cand_rows b)" "fraud_left (fb_fraud b1) = rows_from ?p (fraud_rows b)"
    "ok_c (fb_cand b1)" "bound_c (fb_cand b1) = Some ?p" "\<forall>f. fb_fraud b1 = Some f \<longrightarrow> ok_f f \<and> bound_f f = Some ?p"
    "fb_acc b1 = fb_acc b" "fb_declined b1 = fb_declined b" "fb_n_cand b1 = fb_n_cand b" "fb_n_fraud b1 = fb_n_fraud b"
    by blast
  have srt: "sorted (map tx_time (cand_rows b))" "sorted (map tx_time (fraud_rows b))" using r by (simp_all add: ready_def)
  let ?c = "rows_from bound (rows_from ?a (fb_cand_stage b1))" and ?f = "rows_from bound (rows_from ?a (fb_fraud_stage b1))"
  note cut = staged_cut [where p = ?p and bound = bound and start = ?a]
  have le: "bound \<le> ?p" "\<not> ?p < ?a" using a by (auto simp: bound_def)
  have act: "rows_before bound (rows_from ?a (fb_cand_stage b1)) = rows_before bound C"
    "rows_before bound (rows_from ?a (fb_fraud_stage b1)) = rows_before bound F"
    unfolding b1(2,3) C_def F_def using cut(1) [OF srt(1) le(1)] cut(1) [OF srt(2) le(1)] by auto
  have rest: "?c @ rows_from ?p (cand_rows b) = rows_from bound C" "?f @ rows_from ?p (fraud_rows b) = rows_from bound F"
    unfolding b1(2,3) C_def F_def using cut(2) [OF srt(1) le(1)] cut(2) [OF srt(2) le(1)] le(2) by auto
  have early: "\<forall>t \<in> set ?c. tx_time t < ?p" "\<forall>t \<in> set ?f. tx_time t < ?p"
    unfolding b1(2,3) using cut(4) [OF srt(1) le(1)] cut(4) [OF srt(2) le(1)] by auto
  have look: "(if sps = [] then ?c else rows_before (sp_lookahead sp) ?c) = c_look"
    "(if sps = [] then ?f else rows_before (sp_lookahead sp) ?f) = f_look"
  proof -
    show "(if sps = [] then ?c else rows_before (sp_lookahead sp) ?c) = c_look"
    proof (cases "sps = []")
      case True
      then have "rows_from ?p (cand_rows b) = []" using top by (simp add: pull_of_def rows_from_none)
      then show ?thesis using True rest by (simp add: c_look_def)
    next
      case False
      then show ?thesis using cut(3) [OF srt(1) le(1), of "sp_lookahead sp"]
        by (simp add: c_look_def pull_of_def b1(2) C_def)
    qed
    show "(if sps = [] then ?f else rows_before (sp_lookahead sp) ?f) = f_look"
    proof (cases "sps = []")
      case True
      then have "rows_from ?p (fraud_rows b) = []" using top by (simp add: pull_of_def rows_from_none)
      then show ?thesis using True rest by (simp add: f_look_def)
    next
      case False
      then show ?thesis using cut(3) [OF srt(2) le(1), of "sp_lookahead sp"]
        by (simp add: f_look_def pull_of_def b1(3) F_def)
    qed
  qed
  let ?d = "append_declined_span (snd u) out"
  let ?b = "b1\<lparr>fb_cand_stage := ?c, fb_fraud_stage := ?f, fb_acc := fst ?d, fb_declined := Some (snd ?d),
      fb_n_cand := fb_n_cand b + length (rows_before bound C), fb_n_fraud := fb_n_fraud b + length (rows_before bound F)\<rparr>"
  have "settle_streams ops (sps = []) sp (b1\<lparr>fb_sink := s\<rparr>) =
      bind_result (deliver_span ops sp (fst u) s) (\<lambda>s. Inr (?b\<lparr>fb_sink := s\<rparr>))" for s
    unfolding settle_streams_def Let_def bound_def [symmetric]
    by (simp add: act look b1(9-12) d split_beta u_def [symmetric] split del: if_split cong: if_cong)
      (cases b1, simp)
  then have "\<forall>s. bind_result (pull_streams emit_c emit_f ?p (b\<lparr>fb_sink := s\<rparr>)) (settle_streams ops (sps = []) sp)
        = bind_result (deliver_span ops sp (fst u) s) (\<lambda>s. Inr (?b\<lparr>fb_sink := s\<rparr>))"
    by (simp add: pull_streams_sink b1(1))
  moreover have rows: "cand_rows ?b = rows_from bound C" "fraud_rows ?b = rows_from bound F"
    using rest by (simp_all add: cand_rows_def fraud_rows_def b1(4,5))
  moreover have "ready q ?b" if "?p \<le> q" for q
  proof -
    have "sorted (map tx_time (rows_from bound C))" "sorted (map tx_time (rows_from bound F))"
      unfolding C_def F_def by (intro rows_cut_time_sorted srt)+
    then have "sorted (map tx_time (cand_rows ?b))" "sorted (map tx_time (fraud_rows ?b))"
      by (simp_all only: rows)
    then show ?thesis unfolding ready_def using early b1(6-8) that by fastforce
  qed
  ultimately show ?thesis by (intro exI [of _ ?b]) simp
qed

lemma phase_b_spans_cuts:
  assumes "sps \<noteq> []" "tiles a e sps" "pulls_ok sps" "e < int64_max"
    "ready (pull_of (hd sps) (tl sps)) b" "fb_declined b = Some out"
    "\<forall>t \<in> set (cand_rows b) \<union> set (fraud_rows b). tx_time t < int64_max"
    "merged_cuts sps (rows_from a (cand_rows b)) (rows_from a (fraud_rows b)) (fb_acc b) out = (cuts, acc, out')"
  shows "\<exists>b'. (\<forall>s. phase_b_spans ops emit_c emit_f sps (b\<lparr>fb_sink := s\<rparr>) =
      bind_result (deliver_all ops cuts s) (\<lambda>s. Inr (b'\<lparr>fb_sink := s\<rparr>))) \<and>
    fb_acc b' = acc \<and> fb_declined b' = Some out' \<and>
    fb_n_cand b' = fb_n_cand b + length (rows_before e (rows_from a (cand_rows b))) \<and>
    fb_n_fraud b' = fb_n_fraud b + length (rows_before e (rows_from a (fraud_rows b)))"
  using assms
proof (induction sps arbitrary: a b out cuts acc out')
  case (Cons sp sps)
  let ?bound = "window_end (sp_active sp)"
  have t: "wn_start (sp_active sp) = a" "a \<le> ?bound" "tiles ?bound e sps"
    using Cons.prems(2) by (auto simp: window_end_def)
  have p: "?bound \<le> pull_of sp sps" "sps \<noteq> [] \<longrightarrow> pulls_ok sps \<and> pull_of sp sps \<le> pull_of (hd sps) (tl sps)"
    using Cons.prems(2-4) by (cases sps; simp add: pull_of_def)+
  have r: "ready (pull_of sp sps) b" using Cons.prems(5) by simp
  define C F where "C = rows_from a (cand_rows b)" and "F = rows_from a (fraud_rows b)"
  note step = span_step [OF r Cons.prems(6) _ p(1) Cons.prems(7), unfolded t(1), folded C_def F_def, of ops, OF t(2)]
  define u where "u = take_settled_before ?bound (extend_chunk (merge_by audit_key (rows_before ?bound C) (rows_before ?bound F))
      ((if sps \<noteq> [] then rows_before (sp_lookahead sp) (rows_from ?bound C) else rows_from ?bound C) @
       (if sps \<noteq> [] then rows_before (sp_lookahead sp) (rows_from ?bound F) else rows_from ?bound F)) ?bound (fb_acc b))"
  define d where "d = append_declined_span (snd u) out"
  from step obtain b1 where b1: "\<And>s. bind_result (pull_streams emit_c emit_f (pull_of sp sps) (b\<lparr>fb_sink := s\<rparr>)) (settle_streams ops (sps = []) sp)
        = bind_result (deliver_span ops sp (fst u) s) (\<lambda>s. Inr (b1\<lparr>fb_sink := s\<rparr>))"
    "cand_rows b1 = rows_from ?bound C" "fraud_rows b1 = rows_from ?bound F"
    "fb_acc b1 = fst d" "fb_declined b1 = Some (snd d)"
    "fb_n_cand b1 = fb_n_cand b + length (rows_before ?bound C)"
    "fb_n_fraud b1 = fb_n_fraud b + length (rows_before ?bound F)" "\<And>q. pull_of sp sps \<le> q \<Longrightarrow> ready q b1"
    unfolding u_def [symmetric] d_def [symmetric] by blast
  obtain cuts1 acc1 out1 where m: "merged_cuts sps (rows_from ?bound C) (rows_from ?bound F) (fst d) (snd d) = (cuts1, acc1, out1)"
    by (metis prod_cases3)
  have res: "cuts = (sp, fst u) # cuts1" "acc = acc1" "out' = out1"
    using Cons.prems(8) m by (simp_all add: Let_def split_beta C_def [symmetric] F_def [symmetric] u_def [symmetric] d_def [symmetric])
  have srt: "sorted (map tx_time C)" "sorted (map tx_time F)"
    unfolding C_def F_def using r by (auto simp: ready_def intro: rows_cut_time_sorted)
  have loop: "phase_b_spans ops emit_c emit_f (sp # sps) (b\<lparr>fb_sink := s\<rparr>) =
      bind_result (deliver_span ops sp (fst u) s) (\<lambda>s. phase_b_spans ops emit_c emit_f sps (b1\<lparr>fb_sink := s\<rparr>))" for s
    using b1(1) [of s] by (simp add: Let_def pull_of_def [symmetric] bind_result_assoc [symmetric]) (simp add: bind_result_assoc)
  show ?case
  proof (cases "sps = []")
    case True
    then have "?bound = e" "cuts1 = []" "acc1 = fst d" "out1 = snd d" using t(3) m by auto
    then show ?thesis using True b1 res loop
      by (intro exI [of _ b1]) (simp add: C_def F_def bind_result_assoc)
  next
    case False
    have be: "?bound \<le> e" using tiles_less [OF Cons.prems(2) False] by simp
    have idem: "rows_from ?bound (rows_from ?bound X) = rows_from ?bound X" if "sorted (map tx_time X)" for X
      using rows_split(2) [OF that order.refl] .
    have "\<exists>b'. (\<forall>s. phase_b_spans ops emit_c emit_f sps (b1\<lparr>fb_sink := s\<rparr>) =
        bind_result (deliver_all ops cuts1 s) (\<lambda>s. Inr (b'\<lparr>fb_sink := s\<rparr>))) \<and>
      fb_acc b' = acc1 \<and> fb_declined b' = Some out1 \<and>
      fb_n_cand b' = fb_n_cand b1 + length (rows_before e (rows_from ?bound (cand_rows b1))) \<and>
      fb_n_fraud b' = fb_n_fraud b1 + length (rows_before e (rows_from ?bound (fraud_rows b1)))"
    proof (rule Cons.IH [OF False t(3) _ Cons.prems(4) _ b1(5)])
      show "pulls_ok sps" "ready (pull_of (hd sps) (tl sps)) b1" using p(2) False b1(8) by auto
      have "set (cand_rows b1) \<subseteq> set (cand_rows b)" "set (fraud_rows b1) \<subseteq> set (fraud_rows b)"
        unfolding b1(2,3) C_def F_def by (auto simp: rows_from_def dest: set_dropWhileD)
      then show "\<forall>t \<in> set (cand_rows b1) \<union> set (fraud_rows b1). tx_time t < int64_max" using Cons.prems(7) by blast
      show "merged_cuts sps (rows_from ?bound (cand_rows b1)) (rows_from ?bound (fraud_rows b1)) (fb_acc b1) (snd d) = (cuts1, acc1, out1)"
        using m by (simp add: b1(2-4) idem srt)
    qed
    then obtain b' where b': "\<And>s. phase_b_spans ops emit_c emit_f sps (b1\<lparr>fb_sink := s\<rparr>) =
        bind_result (deliver_all ops cuts1 s) (\<lambda>s. Inr (b'\<lparr>fb_sink := s\<rparr>))" "fb_acc b' = acc1" "fb_declined b' = Some out1"
      "fb_n_cand b' = fb_n_cand b1 + length (rows_before e (rows_from ?bound (cand_rows b1)))"
      "fb_n_fraud b' = fb_n_fraud b1 + length (rows_before e (rows_from ?bound (fraud_rows b1)))" by blast
    have len: "length (rows_before ?bound X) + length (rows_before e (rows_from ?bound X)) = length (rows_before e X)"
      if "sorted (map tx_time X)" for X
      using rows_split(1) [OF that be] by (metis length_append)
    show ?thesis using b' loop res b1(2,3,6,7) len [OF srt(1)] len [OF srt(2)] idem srt
      by (intro exI [of _ b']) (simp add: bind_result_assoc C_def [symmetric] F_def [symmetric])
  qed
qed simp

lemma run_phase_b_cuts:
  assumes part: "partition_window full (wc_settlement (dv_config d)) = Some (Inr sched)" "0 < wn_days full"
      "window_end full < int64_max" "pulls_ok (sc_spans sched)" "tiles (wn_start full) (window_end full) (sc_spans sched)"
    and run: "\<not> dv_b_run d" "wc_declined_out (dv_config d) = Some out"
    and c: "ok_c c" "bound_c c = None" and f: "\<forall>g. f = Some g \<longrightarrow> ok_f g \<and> bound_f g = None"
    and top: "\<forall>t \<in> set (left_c c) \<union> set (fraud_left f). tx_time t < int64_max"
    and cuts: "merged_cuts (sc_spans sched) (rows_from (wn_start full) (left_c c)) (rows_from (wn_start full) (fraud_left f))
      (dv_post d) out = (cuts, acc, out')"
  shows "run_phase_b ops emit_c emit_f full c f d s = Some (bind_result (deliver_all ops cuts s) (\<lambda>s.
    bind_result (rf_finish ops s) (\<lambda>s. Inr
      (\<lparr>pb_flushed = rf_rows ops s,
        pb_candidates = length (rows_before (window_end full) (rows_from (wn_start full) (left_c c))),
        pb_fraud = length (rows_before (window_end full) (rows_from (wn_start full) (fraud_left f))),
        pb_drops = rp_drops acc\<rparr>,
       d\<lparr>dv_b_run := True, dv_post := acc, dv_config := (dv_config d)\<lparr>wc_declined_out := Some out'\<rparr>\<rparr>, s))))"
proof -
  let ?d = "d\<lparr>dv_b_run := True\<rparr>"
  let ?b = "phase_b_start ?d c f s"
  have ne: "sc_spans sched \<noteq> []"
  proof
    assume "sc_spans sched = []"
    then have "wn_start full = window_end full" using part(5) by simp
    then show False using part(2) by (simp add: window_end_def seconds_per_day_def)
  qed
  have rows: "cand_rows ?b = left_c c" "fraud_rows ?b = fraud_left f" "fb_acc ?b = dv_post d" "fb_declined ?b = Some out"
    using run(2) by (simp_all add: cand_rows_def fraud_rows_def phase_b_start_def)
  have "ready p ?b" for p
    using c f cand.left_sorted [OF c(1)] fraud.left_sorted rows
    by (auto simp: ready_def phase_b_start_def fraud_left_def split: option.split)
  then obtain b' where b': "\<forall>s. phase_b_spans ops emit_c emit_f (sc_spans sched) (?b\<lparr>fb_sink := s\<rparr>) =
      bind_result (deliver_all ops cuts s) (\<lambda>s. Inr (b'\<lparr>fb_sink := s\<rparr>))" "fb_acc b' = acc" "fb_declined b' = Some out'"
    "fb_n_cand b' = fb_n_cand ?b + length (rows_before (window_end full) (rows_from (wn_start full) (cand_rows ?b)))"
    "fb_n_fraud b' = fb_n_fraud ?b + length (rows_before (window_end full) (rows_from (wn_start full) (fraud_rows ?b)))"
    using phase_b_spans_cuts [OF ne part(5,4,3), of ?b out cuts acc out' ops] top cuts rows by auto
  have "phase_b_spans ops emit_c emit_f (sc_spans sched) ?b = bind_result (deliver_all ops cuts s) (\<lambda>s. Inr (b'\<lparr>fb_sink := s\<rparr>))"
    using b'(1) [THEN spec, of s] by (simp add: phase_b_start_def)
  moreover have "fb_n_cand ?b = 0" "fb_n_fraud ?b = 0" by (simp_all add: phase_b_start_def)
  ultimately show ?thesis using part(1) run(1) b'(2-5) rows
    by (simp add: run_phase_b_def Let_def bind_result_assoc)
qed

end

interpretation in_memory: fraud_replay precomputed_emit precomputed_left precomputed_bound precomputed_ok
  precomputed_emit precomputed_left precomputed_bound precomputed_ok
  by unfold_locales

end
