(* ===== verification/DriverPhaseA.thy ===== *)
theory DriverPhaseA
  imports DriverFacts
begin

text \<open>
  Phase A settles eagerly: a span is replayed as soon as the rows cover its lookahead. What it
  delivers is what the chunked replay of everything it ever stages settles.
\<close>

subsection \<open>Staging alone\<close>

text \<open>The rows of a finalized batch and the coverage after it, without any settlement.\<close>

definition stage_batch ::
    "('x, 'w, 'c) driver_env \<Rightarrow> batch \<Rightarrow> 'w list \<times> 'c list \<Rightarrow> (('w list \<times> 'c list) \<times> (txn list \<times> i64) list \<times> nat) result" where
  "stage_batch env bt = (\<lambda>(ws, cs).
     if 0 < wn_days (bt_finalized bt)
     then bind_result (gather_rows env (bt_txns bt) (bt_finalized bt) ws cs) (\<lambda>(ws, cs, rows, n).
       Inr ((ws, cs), [(rows, window_end (bt_finalized bt))], n))
     else Inr ((ws, cs), [], 0))"

fun stage_run ::
    "('x, 'w, 'c) driver_env \<Rightarrow> span list \<Rightarrow> 'x \<times> 'w list \<times> 'c list
      \<Rightarrow> ((txn list \<times> i64) list \<times> nat \<times> nat \<times> 'x \<times> 'w list \<times> 'c list) result" where
  "stage_run env [] (x, wc) =
     bind_result (ev_finish env x) (\<lambda>(bt, x).
     bind_result (stage_batch env bt wc) (\<lambda>(wc, tr, n). Inr (tr, length (bt_txns bt), n, x, wc)))"
| "stage_run env (sp # sps) (x, wc) =
     bind_result (ev_advance env (sp_active sp) x) (\<lambda>(bt, x).
     bind_result (stage_batch env bt wc) (\<lambda>(wc, tr, n).
     bind_result (stage_run env sps (x, wc)) (\<lambda>(tr', legit, m, x, wc).
       Inr (tr @ tr', length (bt_txns bt) + legit, n + m, x, wc))))"

text \<open>No row is staged behind the coverage, and the coverage never moves backward.\<close>

fun covered_from :: "i64 \<Rightarrow> (txn list \<times> i64) list \<Rightarrow> bool" where
  "covered_from c [] = True"
| "covered_from c ((rows, c') # tr) = ((\<forall>t \<in> set rows. c \<le> tx_time t) \<and> c \<le> c' \<and> covered_from c' tr)"

lemma covered_rows: "covered_from c tr \<Longrightarrow> t \<in> set (concat (map fst tr)) \<Longrightarrow> c \<le> tx_time t"
  by (induction c tr rule: covered_from.induct) force+

lemma covered_append:
  "covered_from c (xs @ ys) \<longleftrightarrow> covered_from c xs \<and> covered_from (case xs of [] \<Rightarrow> c | _ \<Rightarrow> snd (last xs)) ys"
  by (induction c xs rule: covered_from.induct) (auto split: list.split)

subsection \<open>Settling\<close>

fun pre_cuts :: "span list \<Rightarrow> txn list \<Rightarrow> replay \<Rightarrow> (span \<times> txn list) list \<times> replay" where
  "pre_cuts [] rows acc = ([], acc)"
| "pre_cuts (sp # sps) rows acc =
     (let bound = window_end (sp_active sp);
          live = rows_from (wn_start (sp_active sp)) rows; rest = rows_from bound live;
          look = (if sps = [] then rest else rows_before (sp_lookahead sp) rest);
          (settled, acc) = take_settled_before bound (extend_chunk (rows_before bound live) look bound acc);
          (cuts, acc) = pre_cuts sps rest acc
      in ((sp, settled) # cuts, acc))"

fun settle_ok :: "span list \<Rightarrow> bool" where
  "settle_ok [] = True"
| "settle_ok (sp # sps) =
     (wn_start (sp_active sp) \<le> window_end (sp_active sp) \<and>
      (sps \<noteq> [] \<longrightarrow> window_end (sp_active sp) \<le> sp_lookahead sp) \<and> settle_ok sps)"

lemma rows_before_later: "\<forall>t \<in> set F. b \<le> tx_time t \<Longrightarrow> rows_before b (xs @ F) = rows_before b xs"
proof (induction xs)
  case Nil
  then show ?case by (simp add: rows_before_none)
qed (simp add: rows_before_def)

lemma rows_from_later_append: "\<forall>t \<in> set F. b \<le> tx_time t \<Longrightarrow> rows_from b (xs @ F) = rows_from b xs @ F"
  by (cases F) (auto simp: rows_from_def dropWhile_append)

lemma settle_spans_cuts:
  assumes "settle_ok sps"
  shows "\<exists>cuts sps' stage' acc'. settle_ok sps' \<and> (finished \<longrightarrow> sps' = []) \<and>
    (\<forall>s n. settle_spans ops finished c sps (stage, acc, s, n) =
      bind_result (deliver_all ops cuts s) (\<lambda>s. Inr (sps', stage', acc', s, n + length (concat (map snd cuts))))) \<and>
    (\<forall>F. (\<forall>t \<in> set F. c \<le> tx_time t) \<and> (finished \<longrightarrow> F = []) \<longrightarrow>
      pre_cuts sps (stage @ F) acc = (case pre_cuts sps' (stage' @ F) acc' of (cuts', a) \<Rightarrow> (cuts @ cuts', a)))"
  using assms
proof (induction sps arbitrary: stage acc)
  case Nil
  then show ?case by (intro exI [of _ "[]"] exI [of _ stage] exI [of _ acc]) simp
next
  case (Cons sp sps)
  show ?case
  proof (cases "\<not> finished \<and> (sps = [] \<or> c < sp_lookahead sp)")
    case True
    then show ?thesis using Cons.prems
      by (intro exI [of _ "[]"] exI [of _ "sp # sps"] exI [of _ stage] exI [of _ acc]) (auto simp: Let_def)
  next
    case False
    let ?b = "window_end (sp_active sp)" and ?a = "wn_start (sp_active sp)"
    define live where "live = rows_from ?a stage"
    define look where "look = (if sps = [] then rows_from ?b live else rows_before (sp_lookahead sp) (rows_from ?b live))"
    define u where "u = take_settled_before ?b (extend_chunk (rows_before ?b live) look ?b acc)"
    have ok: "settle_ok sps" using Cons.prems by simp
    from Cons.IH [OF ok, of "rows_from ?b live" "snd u"]
    obtain cuts sps' stage' acc' where IH: "settle_ok sps'" "finished \<longrightarrow> sps' = []"
      "\<forall>s n. settle_spans ops finished c sps (rows_from ?b live, snd u, s, n) =
        bind_result (deliver_all ops cuts s) (\<lambda>s. Inr (sps', stage', acc', s, n + length (concat (map snd cuts))))"
      "\<forall>F. (\<forall>t \<in> set F. c \<le> tx_time t) \<and> (finished \<longrightarrow> F = []) \<longrightarrow>
        pre_cuts sps (rows_from ?b live @ F) (snd u) = (case pre_cuts sps' (stage' @ F) acc' of (cuts', a) \<Rightarrow> (cuts @ cuts', a))"
      by (elim exE conjE)
    have go: "\<not> (sps = [] \<and> \<not> finished \<or> sps \<noteq> [] \<and> \<not> finished \<and> c < sp_lookahead sp)" using False by blast
    have step: "settle_spans ops finished c (sp # sps) (stage, acc, s, n) = bind_result (deliver_span ops sp (fst u) s)
        (\<lambda>s. settle_spans ops finished c sps (rows_from ?b live, snd u, s, n + length (fst u)))" for s n
      unfolding settle_spans.simps Let_def if_not_P [OF go] live_def [symmetric] look_def [symmetric] u_def [symmetric]
      by (simp add: split_beta)
    have "settle_spans ops finished c (sp # sps) (stage, acc, s, n) =
        bind_result (deliver_all ops ((sp, fst u) # cuts) s)
          (\<lambda>s. Inr (sps', stage', acc', s, n + length (concat (map snd ((sp, fst u) # cuts)))))" for s n
      using IH(3) by (simp add: step bind_result_assoc add.assoc del: settle_spans.simps)
    moreover have "pre_cuts (sp # sps) (stage @ F) acc =
        (case pre_cuts sps' (stage' @ F) acc' of (cuts', a) \<Rightarrow> (((sp, fst u) # cuts) @ cuts', a))"
      if F: "\<forall>t \<in> set F. c \<le> tx_time t" "finished \<Longrightarrow> F = []" for F
    proof -
      have l: "\<forall>t \<in> set F. sp_lookahead sp \<le> tx_time t \<and> sps \<noteq> []" using False F by fastforce
      then have "\<forall>t \<in> set F. ?b \<le> tx_time t" "\<forall>t \<in> set F. ?a \<le> tx_time t"
        using Cons.prems by fastforce+
      then have "rows_from ?a (stage @ F) = live @ F" "rows_before ?b (live @ F) = rows_before ?b live"
        "rows_from ?b (live @ F) = rows_from ?b live @ F"
        by (simp_all add: live_def rows_before_later rows_from_later_append)
      moreover have "(if sps = [] then rows_from ?b live @ F else rows_before (sp_lookahead sp) (rows_from ?b live @ F)) = look"
        using l by (cases F) (auto simp: look_def rows_before_later)
      ultimately have "pre_cuts (sp # sps) (stage @ F) acc =
          (case pre_cuts sps (rows_from ?b live @ F) (snd u) of (cuts, a) \<Rightarrow> ((sp, fst u) # cuts, a))"
        unfolding pre_cuts.simps Let_def by (simp only: split_beta u_def)
      then show ?thesis using IH(4) F by (simp add: split_beta)
    qed
    ultimately show ?thesis using IH(1,2)
      by (intro exI [of _ "(sp, fst u) # cuts"] exI [of _ sps'] exI [of _ stage'] exI [of _ acc']) blast
  qed
qed

subsection \<open>Feeding\<close>

definition same_frame :: "('x, 'w, 'c) driver \<Rightarrow> ('x, 'w, 'c) driver \<Rightarrow> bool" where
  "same_frame d d' \<longleftrightarrow> dv_config d' = dv_config d \<and> dv_session d' = dv_session d \<and> dv_post d' = dv_post d \<and>
     dv_a_run d' = dv_a_run d \<and> dv_b_run d' = dv_b_run d"

definition coverage_after :: "i64 \<Rightarrow> (txn list \<times> i64) list \<Rightarrow> i64" where
  "coverage_after c tr = (case tr of [] \<Rightarrow> c | _ \<Rightarrow> snd (last tr))"

definition summary_plus :: "nat \<Rightarrow> nat \<Rightarrow> nat \<Rightarrow> phase_a_result \<Rightarrow> phase_a_result" where
  "summary_plus legit n cand r =
     r\<lparr>pa_candidates := pa_candidates r + cand, pa_legit := pa_legit r + legit, pa_sources := pa_sources r + n\<rparr>"

lemma summary_plus_plus: "summary_plus a b c (summary_plus a' b' c' r) = summary_plus (a' + a) (b' + b) (c' + c) r"
  by (simp add: summary_plus_def add.assoc)

lemma settle_pre_cuts:
  assumes "settle_ok (dv_spans d)"
  shows "\<exists>cuts d'. (\<forall>s r. settle_pre_spans ops fin (d, r, s) =
      bind_result (deliver_all ops cuts s) (\<lambda>s. Inr (d', summary_plus 0 0 (length (concat (map snd cuts))) r, s))) \<and>
    same_frame d d' \<and> dv_calendar d' = dv_calendar d \<and> dv_cursors d' = dv_cursors d \<and> dv_coverage d' = dv_coverage d \<and>
    settle_ok (dv_spans d') \<and> (fin \<longrightarrow> dv_spans d' = []) \<and>
    (\<forall>F. (\<forall>t \<in> set F. dv_coverage d \<le> tx_time t) \<and> (fin \<longrightarrow> F = []) \<longrightarrow>
      pre_cuts (dv_spans d) (dv_stage d @ F) (dv_pre d) =
        (case pre_cuts (dv_spans d') (dv_stage d' @ F) (dv_pre d') of (cuts', a) \<Rightarrow> (cuts @ cuts', a)))"
proof -
  from settle_spans_cuts [OF assms, of fin ops "dv_coverage d" "dv_stage d" "dv_pre d"]
  obtain cuts sps stage acc where c: "settle_ok sps" "fin \<longrightarrow> sps = []"
    "\<forall>s n. settle_spans ops fin (dv_coverage d) (dv_spans d) (dv_stage d, dv_pre d, s, n) =
        bind_result (deliver_all ops cuts s) (\<lambda>s. Inr (sps, stage, acc, s, n + length (concat (map snd cuts))))"
    "\<forall>F. (\<forall>t \<in> set F. dv_coverage d \<le> tx_time t) \<and> (fin \<longrightarrow> F = []) \<longrightarrow>
      pre_cuts (dv_spans d) (dv_stage d @ F) (dv_pre d) = (case pre_cuts sps (stage @ F) acc of (cuts', a) \<Rightarrow> (cuts @ cuts', a))"
    by (elim exE conjE)
  let ?d = "d\<lparr>dv_spans := sps, dv_stage := stage, dv_pre := acc\<rparr>"
  have "settle_pre_spans ops fin (d, r, s) =
      bind_result (deliver_all ops cuts s) (\<lambda>s. Inr (?d, summary_plus 0 0 (length (concat (map snd cuts))) r, s))" for s r
    using c(3) by (simp add: settle_pre_spans_def bind_result_assoc summary_plus_def)
  then show ?thesis using c(1,2,4)
    by (intro exI [of _ cuts] exI [of _ ?d]) (simp add: same_frame_def)
qed

lemma feed_cuts:
  assumes b: "stage_batch env bt (dv_calendar d, dv_cursors d) = Inr ((ws, cs), tr, n)" and ok: "settle_ok (dv_spans d)"
  shows "\<exists>cuts d'. (\<forall>s r. feed_finalized env ops bt fin (d, r, s) =
      bind_result (deliver_all ops cuts s)
        (\<lambda>s. Inr (d', summary_plus (length (bt_txns bt)) n (length (concat (map snd cuts))) r, s))) \<and>
    same_frame d d' \<and> dv_calendar d' = ws \<and> dv_cursors d' = cs \<and> dv_coverage d' = coverage_after (dv_coverage d) tr \<and>
    settle_ok (dv_spans d') \<and> (fin \<longrightarrow> dv_spans d' = []) \<and>
    (\<forall>F. (\<forall>t \<in> set F. coverage_after (dv_coverage d) tr \<le> tx_time t) \<and> (fin \<longrightarrow> F = []) \<longrightarrow>
      pre_cuts (dv_spans d) (dv_stage d @ concat (map fst tr) @ F) (dv_pre d) =
        (case pre_cuts (dv_spans d') (dv_stage d' @ F) (dv_pre d') of (cuts', a) \<Rightarrow> (cuts @ cuts', a)))"
proof -
  let ?d = "d\<lparr>dv_calendar := ws, dv_cursors := cs, dv_stage := dv_stage d @ concat (map fst tr),
      dv_coverage := coverage_after (dv_coverage d) tr\<rparr>"
  have feed: "feed_finalized env ops bt fin (d, r, s) =
      settle_pre_spans ops fin (?d, summary_plus (length (bt_txns bt)) n 0 r, s)" for r s
  proof (cases "0 < wn_days (bt_finalized bt)")
    case True
    then obtain rows where "gather_rows env (bt_txns bt) (bt_finalized bt) (dv_calendar d) (dv_cursors d) = Inr (ws, cs, rows, n)"
      "tr = [(rows, window_end (bt_finalized bt))]"
      using b by (auto simp: stage_batch_def bind_result_def split: sum.splits)
    then show ?thesis using True
      by (simp add: feed_finalized_def stage_pre_rows_def Let_def coverage_after_def summary_plus_def)
  next
    case False
    then have "ws = dv_calendar d" "cs = dv_cursors d" "tr = []" "n = 0"
      using b by (auto simp: stage_batch_def)
    then show ?thesis using False
      by (simp add: feed_finalized_def Let_def coverage_after_def summary_plus_def)
  qed
  have ok': "settle_ok (dv_spans ?d)" using ok by simp
  from settle_pre_cuts [OF ok', of ops fin] obtain cuts d' where c: "\<forall>s r. settle_pre_spans ops fin (?d, r, s) =
      bind_result (deliver_all ops cuts s) (\<lambda>s. Inr (d', summary_plus 0 0 (length (concat (map snd cuts))) r, s))"
    "same_frame ?d d'" "dv_calendar d' = dv_calendar ?d" "dv_cursors d' = dv_cursors ?d" "dv_coverage d' = dv_coverage ?d"
    "settle_ok (dv_spans d')" "fin \<longrightarrow> dv_spans d' = []"
    "\<forall>F. (\<forall>t \<in> set F. dv_coverage ?d \<le> tx_time t) \<and> (fin \<longrightarrow> F = []) \<longrightarrow>
      pre_cuts (dv_spans ?d) (dv_stage ?d @ F) (dv_pre ?d) =
        (case pre_cuts (dv_spans d') (dv_stage d' @ F) (dv_pre d') of (cuts', a) \<Rightarrow> (cuts @ cuts', a))"
    by (elim exE conjE)
  show ?thesis using c
    by (intro exI [of _ cuts] exI [of _ d']) (simp add: feed summary_plus_plus same_frame_def)
qed

definition feed_run ::
    "('x, 'w, 'c) driver_env \<Rightarrow> 's sink_ref \<Rightarrow> span list \<Rightarrow> 'x \<times> ('x, 'w, 'c) driver \<times> phase_a_result \<times> 's
      \<Rightarrow> ('x \<times> ('x, 'w, 'c) driver \<times> phase_a_result \<times> 's) result" where
  "feed_run env ops gens st =
     bind_result (feed_spans env ops gens st) (\<lambda>(x, st).
     bind_result (ev_finish env x) (\<lambda>(bt, x).
     bind_result (feed_finalized env ops bt True st) (\<lambda>st. Inr (x, st))))"

lemma feed_run_cuts:
  assumes "stage_run env gens (x, dv_calendar d, dv_cursors d) = Inr (tr, legit, n, x', wc)"
    "covered_from (dv_coverage d) tr" "settle_ok (dv_spans d)"
    "pre_cuts (dv_spans d) (dv_stage d @ concat (map fst tr)) (dv_pre d) = (cuts, acc)"
  shows "\<exists>d'. (\<forall>s r. feed_run env ops gens (x, d, r, s) =
      bind_result (deliver_all ops cuts s)
        (\<lambda>s. Inr (x', d', summary_plus legit n (length (concat (map snd cuts))) r, s))) \<and>
    same_frame d d' \<and> dv_pre d' = acc"
  using assms
proof (induction gens arbitrary: x d tr legit n cuts acc)
  case Nil
  obtain bt where bt: "ev_finish env x = Inr (bt, x')" "stage_batch env bt (dv_calendar d, dv_cursors d) = Inr (wc, tr, n)"
    "legit = length (bt_txns bt)"
    using Nil.prems(1) by (auto simp: bind_result_Inr)
  obtain ws cs where wc: "wc = (ws, cs)" by fastforce
  from feed_cuts [OF bt(2) [unfolded wc] Nil.prems(3), of ops True] obtain cuts1 d' where d': "\<forall>s r. feed_finalized env ops bt True (d, r, s) =
      bind_result (deliver_all ops cuts1 s)
        (\<lambda>s. Inr (d', summary_plus (length (bt_txns bt)) n (length (concat (map snd cuts1))) r, s))" "same_frame d d'"
    "True \<longrightarrow> dv_spans d' = []"
    "\<forall>F. (\<forall>t \<in> set F. coverage_after (dv_coverage d) tr \<le> tx_time t) \<and> (True \<longrightarrow> F = []) \<longrightarrow>
      pre_cuts (dv_spans d) (dv_stage d @ concat (map fst tr) @ F) (dv_pre d) =
        (case pre_cuts (dv_spans d') (dv_stage d' @ F) (dv_pre d') of (cuts', a) \<Rightarrow> (cuts1 @ cuts', a))"
    by (elim exE conjE)
  have "cuts = cuts1" "acc = dv_pre d'" using d'(4) d'(3) Nil.prems(4) by simp_all
  then show ?case using d' bt by (intro exI [of _ d']) (simp add: feed_run_def bind_result_assoc)
next
  case (Cons sp gens)
  obtain bt x1 wc1 tr1 n1 tr2 legit2 n2 where st: "ev_advance env (sp_active sp) x = Inr (bt, x1)"
    "stage_batch env bt (dv_calendar d, dv_cursors d) = Inr (wc1, tr1, n1)"
    "stage_run env gens (x1, wc1) = Inr (tr2, legit2, n2, x', wc)"
    "tr = tr1 @ tr2" "legit = length (bt_txns bt) + legit2" "n = n1 + n2"
    using Cons.prems(1) by (auto simp: bind_result_Inr)
  obtain ws cs where wc1: "wc1 = (ws, cs)" by fastforce
  have cov: "covered_from (coverage_after (dv_coverage d) tr1) tr2"
    using Cons.prems(2) by (simp add: st(4) covered_append coverage_after_def)
  from feed_cuts [OF st(2) [unfolded wc1] Cons.prems(3), of ops False] obtain cuts1 d1 where d1: "\<forall>s r. feed_finalized env ops bt False (d, r, s) =
      bind_result (deliver_all ops cuts1 s)
        (\<lambda>s. Inr (d1, summary_plus (length (bt_txns bt)) n1 (length (concat (map snd cuts1))) r, s))" "same_frame d d1"
    "dv_calendar d1 = ws" "dv_cursors d1 = cs" "dv_coverage d1 = coverage_after (dv_coverage d) tr1" "settle_ok (dv_spans d1)"
    "\<forall>F. (\<forall>t \<in> set F. coverage_after (dv_coverage d) tr1 \<le> tx_time t) \<and> (False \<longrightarrow> F = []) \<longrightarrow>
      pre_cuts (dv_spans d) (dv_stage d @ concat (map fst tr1) @ F) (dv_pre d) =
        (case pre_cuts (dv_spans d1) (dv_stage d1 @ F) (dv_pre d1) of (cuts', a) \<Rightarrow> (cuts1 @ cuts', a))"
    by (elim exE conjE)
  obtain cuts2 acc2 where p: "pre_cuts (dv_spans d1) (dv_stage d1 @ concat (map fst tr2)) (dv_pre d1) = (cuts2, acc2)" by fastforce
  have "\<forall>t \<in> set (concat (map fst tr2)). coverage_after (dv_coverage d) tr1 \<le> tx_time t"
    using covered_rows [OF cov] by blast
  then have res: "cuts = cuts1 @ cuts2" "acc = acc2"
    using d1(7) Cons.prems(4) p by (simp_all add: st(4))
  have cov1: "covered_from (dv_coverage d1) tr2" using cov d1(5) by simp
  have run1: "stage_run env gens (x1, dv_calendar d1, dv_cursors d1) = Inr (tr2, legit2, n2, x', wc)"
    using st(3) wc1 d1(3,4) by simp
  from Cons.IH [OF run1 cov1 d1(6) p] obtain d' where d': "\<forall>s r. feed_run env ops gens (x1, d1, r, s) =
      bind_result (deliver_all ops cuts2 s)
        (\<lambda>s. Inr (x', d', summary_plus legit2 n2 (length (concat (map snd cuts2))) r, s))" "same_frame d1 d'" "dv_pre d' = acc2"
    by blast
  have "feed_run env ops (sp # gens) (x, d, r, s) =
      bind_result (feed_finalized env ops bt False (d, r, s)) (\<lambda>st. feed_run env ops gens (x1, st))" for r s
    by (simp add: feed_run_def st(1) bind_result_assoc)
  then show ?case using d1(1,2) d' res
    by (intro exI [of _ d']) (simp add: bind_result_assoc deliver_all_append summary_plus_plus same_frame_def st(5,6))
qed

subsection \<open>The cuts are the chunked replay\<close>

lemma rows_from_idem: "sorted (map tx_time rows) \<Longrightarrow> rows_from b (rows_from b rows) = rows_from b rows"
  using rows_split(2) [OF _ order.refl] .

lemma pre_cuts_replay:
  "tiles a e sps \<Longrightarrow> sorted (map tx_time rows) \<Longrightarrow>
     replay_spans sps (rows_from a rows) acc out =
       (case pre_cuts sps rows acc of (cuts, acc') \<Rightarrow> (acc', out @ concat (map snd cuts)))"
proof (induction sps arbitrary: a rows acc out)
  case (Cons sp sps)
  let ?b = "window_end (sp_active sp)"
  have a: "wn_start (sp_active sp) = a" "tiles ?b e sps" using Cons.prems(1) by auto
  have s: "sorted (map tx_time (rows_from ?b (rows_from a rows)))" by (intro rows_cut_time_sorted Cons.prems(2))
  have "rows_from ?b (rows_from ?b (rows_from a rows)) = rows_from ?b (rows_from a rows)"
    by (intro rows_from_idem rows_cut_time_sorted Cons.prems(2))
  then show ?case using Cons.IH [OF a(2) s] by (auto simp: Let_def split_beta a(1))
qed simp

lemma schedule_ok:
  "tiles a e sps \<Longrightarrow> \<forall>sp \<in> set sps. sp_lookahead sp = min (add_days (window_end (sp_active sp)) l) e \<Longrightarrow>
     0 \<le> l \<Longrightarrow> e \<le> int64_max \<Longrightarrow> settle_ok sps \<and> pulls_ok sps"
proof (induction sps arbitrary: a)
  case (Cons sp sps)
  have t: "tiles (window_end (sp_active sp)) e sps" "wn_start (sp_active sp) \<le> window_end (sp_active sp)"
    using Cons.prems(1) by (auto simp: window_end_def)
  have IH: "settle_ok sps \<and> pulls_ok sps" using Cons.IH [OF t(1)] Cons.prems by simp
  have look: "window_end (sp_active sp) \<le> sp_lookahead sp" if "sps \<noteq> []"
    using tiles_less [OF Cons.prems(1) that] Cons.prems(2,3) by (simp add: add_days_def seconds_per_day_def)
  show ?case
  proof (cases sps)
    case (Cons sq sqs)
    have "window_end (sp_active sp) \<le> window_end (sp_active sq)" using t(1) Cons by (auto simp: window_end_def)
    then have "sp_lookahead sp \<le> pull_of sq sqs"
      using Cons.prems(2,4) Cons by (auto simp: pull_of_def add_days_def min_def)
    then show ?thesis using IH look t(2) Cons by simp
  qed (use t(2) in simp)
qed simp

lemma partition_ok:
  assumes "partition_window run st = Some (Inr sched)" "window_end run \<le> int64_max"
  shows "settle_ok (sc_spans sched) \<and> pulls_ok (sc_spans sched) \<and>
    (sc_spans sched = [] \<or> tiles (wn_start run) (window_end run) (sc_spans sched)) \<and> sc_window sched = run"
proof (cases "0 < wn_days run")
  case True
  note p = partition_spans [OF assms(1) True]
  have l: "0 \<le> lookahead_days st" by (rule partition_window_cases [OF assms(1) True])
  have "\<forall>sp \<in> set (sc_spans sched). sp_lookahead sp = min (add_days (window_end (sp_active sp)) (lookahead_days st)) (window_end run)"
    using p(3) by (auto simp: in_set_conv_nth span_described_def)
  then show ?thesis using schedule_ok [OF p(2) _ l assms(2)] p by simp
next
  case False
  then have "sc_spans sched = []" "sc_window sched = run"
    using assms(1) by (auto simp: partition_window_def split: sum.splits)
  then show ?thesis by simp
qed

lemma pre_cuts_chunked:
  assumes "partition_window run st = Some (Inr sched)" "window_end run \<le> int64_max" "sorted (map tx_time rows)"
    "pre_cuts (sc_spans sched) rows acc = (cuts, acc')"
  shows "replay_chunked acc rows sched [] = (acc', concat (map snd cuts))"
proof (cases "sc_spans sched = []")
  case False
  then have "tiles (wn_start run) (window_end run) (sc_spans sched)" "sc_window sched = run"
    using partition_ok [OF assms(1,2)] by auto
  then show ?thesis
    using pre_cuts_replay [OF _ assms(3), of "wn_start run" "window_end run" "sc_spans sched" acc "[]"] assms(4)
    by (simp add: replay_chunked_def)
qed (use assms(4) in \<open>auto simp: replay_chunked_def\<close>)

subsection \<open>What Phase A settles is in replay order\<close>

lemma sorted_audit_append:
  assumes "sorted (map audit_key xs)" "sorted (map audit_key ys)" "\<forall>x \<in> set xs. tx_time x < b" "\<forall>y \<in> set ys. b \<le> tx_time y"
  shows "sorted (map audit_key (xs @ ys))"
proof -
  have "audit_key x \<le> audit_key y" if "x \<in> set xs" "y \<in> set ys" for x y
    using assms(3,4) that by (force simp: audit_key_def less_eq_prod_def)
  then show ?thesis using assms(1,2) by (auto simp: sorted_append)
qed

lemma chunk_items_sorted:
  "sorted (map tx_time live) \<Longrightarrow> sorted (map tx_time (rows_before b live @ rows_from b live))"
  "sorted (map tx_time live) \<Longrightarrow> sorted (map tx_time (rows_before b live @ rows_before l (rows_from b live)))"
proof -
  assume s: "sorted (map tx_time live)"
  then show "sorted (map tx_time (rows_before b live @ rows_from b live))" by simp
  then show "sorted (map tx_time (rows_before b live @ rows_before l (rows_from b live)))"
    using rows_before_from [of l "rows_from b live"] by (metis append_assoc map_append sorted_append)
qed

lemma pre_cuts_sorted:
  assumes "tiles a e sps" "e < int64_max" "sorted (map tx_time rows)" "replay_inv acc"
    "rp_next_seq acc + length rows \<le> 2 ^ 62" "rp_book acc \<noteq> None" "delays_ok (rp_funding acc)"
    "\<forall>q \<in> set (rp_pending acc). a \<le> qi_time q" "\<forall>t \<in> set (rp_txns acc). a \<le> tx_time t"
  shows "sorted (map audit_key (concat (map snd (fst (pre_cuts sps rows acc))))) \<and>
    (\<forall>t \<in> set (concat (map snd (fst (pre_cuts sps rows acc)))). a \<le> tx_time t \<and> tx_time t < e)"
  using assms
proof (induction sps arbitrary: a rows acc)
  case (Cons sp sps)
  let ?b = "window_end (sp_active sp)"
  have a: "wn_start (sp_active sp) = a" "tiles ?b e sps" "a \<le> ?b" "?b \<le> e"
    using Cons.prems(1) tiles_less [OF Cons.prems(1)] by (cases "sps = []"; force simp: window_end_def)+
  define live look where "live = rows_from a rows"
    and "look = (if sps = [] then rows_from ?b live else rows_before (sp_lookahead sp) (rows_from ?b live))"
  define u where "u = extend_chunk (rows_before ?b live) look ?b acc"
  have live: "sorted (map tx_time live)" "\<forall>t \<in> set live. a \<le> tx_time t" "length live \<le> length rows"
    unfolding live_def by (rule rows_cut_time_sorted(2) [OF Cons.prems(3)])
      (simp_all add: rows_cut_sorted(2) [OF Cons.prems(3), of a])
  have len: "length (rows_before ?b live) + length (rows_from ?b live) = length live"
    by (metis length_append rows_before_from)
  have n: "rp_next_seq acc + length (rows_before ?b live) \<le> 2 ^ 62" using Cons.prems(5) len live(3) by linarith
  have bm: "?b \<noteq> int64_max" using a(4) Cons.prems(2) by simp
  note U = extend_chunk_facts [OF Cons.prems(4) n Cons.prems(6) bm, of look, folded u_def]
  have items: "sorted (map tx_time (rows_before ?b live @ look))"
    unfolding look_def using chunk_items_sorted [OF live(1)] live(1) by (simp del: map_append)
  have "\<forall>t \<in> set (rows_before ?b live). a \<le> tx_time t" using live(2) by (auto simp: rows_before_def dest: set_takeWhileD)
  then have "grows (\<lambda>t. a \<le> tx_time t) acc u"
    unfolding u_def using Cons.prems(4,6-8) n bm items by (intro extend_chunk_grows) (simp_all add: list_all_iff)
  then have ut: "\<forall>t \<in> set (rp_txns u). a \<le> tx_time t" using Cons.prems(9) by (auto simp: grows_def list_all_iff)
  let ?S = "sort_key audit_key (rp_txns u)" and ?v = "snd (take_settled_before ?b u)"
  have cut: "fst (take_settled_before ?b u) = rows_before ?b ?S" "rp_txns ?v = rows_from ?b ?S"
    by (simp_all add: take_settled_facts)
  have IH: "sorted (map audit_key (concat (map snd (fst (pre_cuts sps (rows_from ?b live) ?v))))) \<and>
    (\<forall>t \<in> set (concat (map snd (fst (pre_cuts sps (rows_from ?b live) ?v)))). ?b \<le> tx_time t \<and> tx_time t < e)"
  proof (rule Cons.IH [OF a(2) Cons.prems(2) rows_cut_time_sorted(2) [OF live(1)] take_settled_inv [OF U(1)]])
    show "\<forall>t \<in> set (rp_txns ?v). ?b \<le> tx_time t"
      unfolding cut(2) using rows_from_later [OF sort_audit_time] by blast
  qed (use U(2-5) n len live(3) Cons.prems(5,7) in \<open>simp_all add: take_settled_facts list_all_iff\<close>)
  have first: "sorted (map audit_key (rows_before ?b ?S))" "\<forall>t \<in> set (rows_before ?b ?S). a \<le> tx_time t \<and> tx_time t < ?b"
    using ut by (auto simp: rows_before_def dest: set_takeWhileD intro: sorted_map_takeWhile)
  have res: "concat (map snd (fst (pre_cuts (sp # sps) rows acc))) =
      rows_before ?b ?S @ concat (map snd (fst (pre_cuts sps (rows_from ?b live) ?v)))"
    unfolding pre_cuts.simps Let_def a(1) live_def [symmetric] look_def [symmetric] u_def [symmetric]
    by (simp add: split_beta cut(1))
  show ?case
    unfolding res using sorted_audit_append [OF first(1) _ _, of _ ?b] first(2) IH a(3,4) by fastforce
qed simp

end
