(* ===== verification/DriverDemo.thy ===== *)
theory DriverDemo
  imports DriverPhaseA LedgerClaims TimeClaims
begin

text \<open>
  A small run of the driver on which its properties are applied: five days, one settlement span, a
  session that finalizes everything at the end, and one payment that the opening book funds.
\<close>

subsection \<open>One payment replayed\<close>

definition small_ledger :: ledger where
  "small_ledger =
     \<lparr>lg_size = 2, lg_cash = [Fin 100, Fin 40],
      lg_overdrafts = [Fin 0, Fin 0], lg_linked = [Fin 0, Fin 0],
      lg_courtesy = [Fin 0, Fin 0],
      lg_internal = [demo_alice \<mapsto> 0, demo_bob \<mapsto> 1],
      lg_external = Map.empty,
      lg_keys = [demo_alice, demo_bob],
      lg_protection = [ProtNone, ProtNone],
      lg_tier = [ZeroFee, ZeroFee], lg_fee = [Fin 0, Fin 0],
      lg_loc = loc_initialize 2, lg_sink = True, lg_emit = True\<rparr>"
definition small_row :: "i64 \<Rightarrow> txn" where
  "small_row ts = default_txn\<lparr>tx_source := demo_bob, tx_target := demo_alice, tx_amount := Fin 5, tx_time := ts,
       tx_session := (tx_session default_txn)\<lparr>se_channel := tag_of (Legit LegP2p)\<rparr>\<rparr>"


lemma small_loc: "i < 2 \<Longrightarrow> loc_touch i ts small_ledger = small_ledger"
  by (auto simp: loc_touch_def loc_update_def loc_enabled_def small_ledger_def loc_initialize_def less_2_cases_iff)

lemma small_accrue: "accrue_loc_interest_through ts small_ledger = (small_ledger, [])"
  by (simp add: accrue_loc_interest_through_def loc_sweep_def small_ledger_def loc_initialize_def collect_due.simps pq_defs Let_def)

lemma small_sink: "set_liquidity_sink True small_ledger = small_ledger" "set_emit_liquidity True small_ledger = small_ledger"
  by (simp_all add: small_ledger_def set_liquidity_sink_def set_emit_liquidity_def)

lemma small_apply: "apply_transfer \<lparr>po_src = 1, po_dst = 0, po_amount = Fin 5, po_channel = tag_of (Legit LegP2p), po_time = ts\<rparr> small_ledger
    = (small_ledger\<lparr>lg_cash := [Fin 105, Fin 35]\<rparr>, None, Fin 40)"
proof -
  have "decide small_ledger 1 0 (Fin 5) (tag_of (Legit LegP2p)) = None"
    by (simp add: decide_def accept_def total_liquidity_def small_ledger_def invalid_index_def mk_f64_def Let_def del: tag_of.simps)
  then show ?thesis
    by (simp add: apply_transfer_def accepted_def invalid_index_def Let_def del: tag_of.simps)
      (simp add: small_ledger_def set_cash_def mk_f64_def fsub_def)
qed

lemma small_transfer: "transfer_at (posting_of (small_row ts)) small_ledger = (small_ledger\<lparr>lg_cash := [Fin 105, Fin 35]\<rparr>, None, [])"
proof -
  have f: "find_account small_ledger demo_bob = 1" "find_account small_ledger demo_alice = 0"
    "index_valid small_ledger 0" "index_valid small_ledger 1" "1 \<noteq> invalid_index" "0 \<noteq> invalid_index"
    by (simp_all add: find_account_def small_ledger_def demo_fields index_valid_def invalid_index_def)
  have t: "transfer_indexed \<lparr>po_src = 1, po_dst = 0, po_amount = Fin 5, po_channel = tag_of (Legit LegP2p), po_time = ts\<rparr> small_ledger
      = (small_ledger\<lparr>lg_cash := [Fin 105, Fin 35]\<rparr>, None, [])"
    by (simp add: f [simplified] transfer_indexed_def small_loc small_apply [unfolded One_nat_def] accepted_def del: tag_of.simps)
      (simp add: small_ledger_def assess_overdraft_fee_def)
  have p: "posting_of (small_row ts) = \<lparr>kp_source = demo_bob, kp_dest = demo_alice, kp_amount = Fin 5, kp_channel = tag_of (Legit LegP2p), kp_time = ts\<rparr>"
    by (simp add: posting_of_def small_row_def)
  show ?thesis
    using f t unfolding p by (simp add: transfer_at_def demo_fields boundary_ok_def booked_boundary_def del: tag_of.simps)
qed

definition small_span :: span where
  "small_span = \<lparr>sp_index = 0, sp_active = \<lparr>wn_start = 0, wn_days = 5\<rparr>, sp_lookahead = 432000, sp_first_day = 0\<rparr>"

definition small_replay :: replay where
  "small_replay = replay_new (Some small_ledger) (Some (from_seed 7)) default_funding True"

lemma small_item: "drain_item \<lparr>qi_time = ts, qi_seq = n, qi_kind = ItemTxn, qi_retry = 0, qi_txn = small_row ts\<rparr>
    (s\<lparr>rp_book := Some small_ledger\<rparr>) =
   s\<lparr>rp_book := Some (small_ledger\<lparr>lg_cash := [Fin 105, Fin 35]\<rparr>), rp_txns := rp_txns s @ [small_row ts]\<rparr>"
  by (simp add: drain_item_def accrue_book_def small_accrue absorb_def post_row_def small_transfer)

lemma small_row_time: "tx_time (small_row ts) = ts" by (simp add: small_row_def)

lemma small_chunk: "rp_txns (extend_chunk [small_row 100] [] 432000 small_replay) = [small_row 100]"
proof -
  have bk: "rp_book small_replay \<noteq> None" by (simp add: small_replay_def replay_new_def)
  define i where "i = inbound_times ([small_row 100] @ [])"
  define s where "s = small_replay\<lparr>rp_inbound := i, rp_next_seq := 1\<rparr>"
  have u: "fold push_row [small_row 100] (install_sink (small_replay\<lparr>rp_inbound := i\<rparr>)) = s\<lparr>rp_pending :=
     [\<lparr>qi_time = 100, qi_seq = 0, qi_kind = ItemTxn, qi_retry = 0, qi_txn = small_row 100\<rparr>]\<rparr>"
    by (simp add: small_replay_def replay_new_def install_sink_def small_sink push_row_def pq_defs small_row_time s_def)
  have d: "drain_pending 432000 (s\<lparr>rp_pending := [\<lparr>qi_time = 100, qi_seq = 0, qi_kind = ItemTxn, qi_retry = 0, qi_txn = small_row 100\<rparr>]\<rparr>)
    = s\<lparr>rp_book := Some (small_ledger\<lparr>lg_cash := [Fin 105, Fin 35]\<rparr>), rp_txns := rp_txns s @ [small_row 100]\<rparr>"
  proof -
    have b: "s = s\<lparr>rp_book := Some small_ledger\<rparr>" "rp_pending s = []" by (simp_all add: s_def small_replay_def replay_new_def)
    have p: "s\<lparr>rp_pending := []\<rparr> = s" by (simp add: s_def small_replay_def replay_new_def)
    have it: "drain_item \<lparr>qi_time = 100, qi_seq = 0, qi_kind = ItemTxn, qi_retry = 0, qi_txn = small_row 100\<rparr> s =
        s\<lparr>rp_book := Some (small_ledger\<lparr>lg_cash := [Fin 105, Fin 35]\<rparr>), rp_txns := rp_txns s @ [small_row 100]\<rparr>"
      using small_item [of 100 0 s] by (simp only: b(1) [symmetric])
    have "drain_pending 432000 (s\<lparr>rp_pending := [\<lparr>qi_time = 100, qi_seq = 0, qi_kind = ItemTxn, qi_retry = 0, qi_txn = small_row 100\<rparr>]\<rparr>)
      = drain_pending 432000 (s\<lparr>rp_book := Some (small_ledger\<lparr>lg_cash := [Fin 105, Fin 35]\<rparr>), rp_txns := rp_txns s @ [small_row 100]\<rparr>)"
      by (subst drain_pending.simps) (simp add: pq_defs p it)
    also have "\<dots> = s\<lparr>rp_book := Some (small_ledger\<lparr>lg_cash := [Fin 105, Fin 35]\<rparr>), rp_txns := rp_txns s @ [small_row 100]\<rparr>"
      by (subst drain_pending.simps) (simp add: b(2))
    finally show ?thesis .
  qed
  show ?thesis
    unfolding extend_chunk_open [OF bk] Let_def i_def [symmetric] u d
    by (simp add: int64_max_def uninstall_sink_def s_def small_replay_def replay_new_def)
qed

lemma small_cut: "concat (map snd (fst (pre_cuts [small_span] [small_row 100] small_replay))) = [small_row 100]"
  by (simp add: small_span_def rows_from_def rows_before_def small_row_time window_end_def seconds_per_day_def Let_def split_beta
    take_settled_before_def small_chunk)
subsection \<open>The run\<close>

definition small_window :: window where
  "small_window = \<lparr>wn_start = 0, wn_days = 5\<rparr>"

definition small_schedule :: schedule where
  "small_schedule = \<lparr>sc_window = small_window, sc_spans = [small_span]\<rparr>"

lemma small_partition: "partition_window small_window demo_strategy = Some (Inr small_schedule)"
proof -
  have v: "throw_if_failed (strategy_validate demo_strategy []) = Inr ()"
    by (simp add: strategy_valid_iff demo_strategy_def)
  have m: "month_start 0 = Inr (first_of_month 23640)"
    using month_start_eq [of 0] demo_run_facts(1) by (simp add: civil_0 year_in_range_def)
  have "\<not> first_of_month 23643 < 432000"
    by (simp add: first_of_month_def sys_days_def days_before_year_def days_before_month_def days_in_month_def is_leap_def seconds_per_day_def
        eval_nat_numeral)
  then have b: "future_bounds (first_of_month 23640) 3 0 432000 1 = Some (Inr [])"
    by (subst future_bounds.simps) (simp add: add_months_first year_in_range_def)
  show ?thesis using v m b
    by (simp add: partition_window_def small_window_def window_end_def seconds_per_day_def demo_strategy_def Let_def
        whole_days_between_def cast_days_def add_days_def small_schedule_def small_span_def)
qed

text \<open>The session hands over nothing until it is finished, then the whole window; one cursor source.\<close>

definition small_env :: "(unit, unit, precomputed_cursor) driver_env" where
  "small_env =
     \<lparr>ev_advance = (\<lambda>w x. Inr (\<lparr>bt_simulated = w, bt_finalized = \<lparr>wn_start = 0, wn_days = 0\<rparr>, bt_txns = []\<rparr>, x)),
      ev_finish = (\<lambda>x. Inr (\<lparr>bt_simulated = \<lparr>wn_start = 432000, wn_days = 0\<rparr>, bt_finalized = small_window,
        bt_txns = [small_row 100]\<rparr>, x)),
      ev_card_events = (\<lambda>_. 0), ev_calendar = (\<lambda>_ w. Inr ([], w)), ev_cursor = precomputed_emit\<rparr>"

definition small_config :: windowed_config where
  "small_config = \<lparr>wc_generation = demo_strategy, wc_settlement = demo_strategy, wc_funding = default_funding,
     wc_pre_emit = True, wc_post_emit = False, wc_declined_out = Some []\<rparr>"

definition small_cursor :: precomputed_cursor where
  "small_cursor = \<lparr>pc_rows = [], pc_cursor = 0, pc_emitted = 0, pc_last_bound = 0, pc_bound_seen = False\<rparr>"

definition small_driver :: "(unit, unit, precomputed_cursor) driver" where
  "small_driver = \<lparr>dv_config = small_config, dv_session = Some (), dv_calendar = [()], dv_cursors = [small_cursor],
     dv_pre = small_replay, dv_post = replay_new (Some small_ledger) (Some (from_seed 8)) default_funding False,
     dv_stage = [], dv_coverage = 0, dv_spans = [], dv_a_run = False, dv_b_run = False\<rparr>"

lemma small_stage: "\<exists>cs. stage_run small_env gens ((), [()], [small_cursor]) = Inr ([([small_row 100], 432000)], 1, 0, (), [()], cs)"
proof -
  have "\<exists>c. precomputed_emit 432000 small_cursor = Inr ([], c)"
    by (simp add: precomputed_emit_def small_cursor_def rows_before_def Let_def)
  then have "\<exists>cs. stage_run small_env [] ((), [()], [small_cursor]) = Inr ([([small_row 100], 432000)], 1, 0, (), [()], cs)"
    by (auto simp: small_env_def stage_batch_def gather_rows_def small_window_def window_end_def seconds_per_day_def
        merge_sorted_def sort_for_replay_def)
  then obtain cs where base: "stage_run small_env [] ((), [()], [small_cursor]) = Inr ([([small_row 100], 432000)], 1, 0, (), [()], cs)" by blast
  have "stage_run small_env gens ((), [()], [small_cursor]) = Inr ([([small_row 100], 432000)], 1, 0, (), [()], cs)"
    using base by (induction gens) (simp_all add: small_env_def stage_batch_def del: stage_run.simps(1))
  then show ?thesis by blast
qed

lemma small_facts: "delays_ok default_funding" "window_end small_window = 432000" "wn_start small_window = 0"
  "0 < wn_days small_window" "covered_from 0 [([small_row 100], 432000)]"
  by (simp_all add: delays_ok_def default_funding_def small_window_def window_end_def seconds_per_day_def small_row_time)

lemma small_fields:
  "dv_session small_driver = Some ()" "\<not> dv_a_run small_driver" "\<not> dv_b_run small_driver"
  "dv_pre small_driver = replay_new (Some small_ledger) (Some (from_seed 7)) default_funding True"
  "dv_post small_driver = replay_new (Some small_ledger) (Some (from_seed 8)) default_funding False"
  "wc_declined_out (dv_config small_driver) = Some []" "wc_generation (dv_config small_driver) = demo_strategy"
  "wc_settlement (dv_config small_driver) = demo_strategy"
  by (simp_all add: small_driver_def small_config_def small_replay_def)

lemma small_candidates:
  "cd_txns (fst (pre_fraud_chunked default_funding small_ledger (from_seed 7) [small_row 100] small_schedule)) = [small_row 100]"
proof -
  obtain cuts acc where p: "pre_cuts (sc_spans small_schedule) [small_row 100] small_replay = (cuts, acc)" by fastforce
  have "replay_chunked small_replay [small_row 100] small_schedule [] = (acc, concat (map snd cuts))"
    using pre_cuts_chunked [OF small_partition _ _ p] by (simp add: small_facts int64_max_def)
  moreover have "concat (map snd cuts) = [small_row 100]" using small_cut p by (simp add: small_schedule_def)
  ultimately show ?thesis by (simp add: pre_fraud_chunked_def small_replay_def)
qed

end
