(* ===== verification/DriverClaims.thy ===== *)
theory DriverClaims
  imports DriverDemo SpoolClaims
begin

text \<open>
  The properties of the windowed driver: each phase is the chunked replay it streams, and the two
  phases together are the authoritative two-stage replay, whatever the candidate spool.
\<close>

interpretation spooled_candidates: fraud_replay spool_emit spool_left spool_bound spool_ok
  precomputed_emit precomputed_left precomputed_bound precomputed_ok
  by unfold_locales

lemma finish_vector: "rf_finish (erase_sink vector_spool) rows = Inr rows" "rf_rows (erase_sink vector_spool) rows = length rows"
  by (simp_all add: erase_sink_def vector_spool_def)

subsection \<open>Phase A\<close>

lemma run_phase_a_cuts:
  assumes "dv_session d = Some x" "\<not> dv_a_run d"
    "partition_window full (wc_generation (dv_config d)) = Some (Inr gen)"
    "partition_window full (wc_settlement (dv_config d)) = Some (Inr sched)" "window_end full \<le> int64_max"
    "stage_run env (sc_spans gen) (x, dv_calendar d, dv_cursors d) = Inr (tr, legit, n, x', wc)"
    "covered_from (wn_start full) tr"
    "pre_cuts (sc_spans sched) (concat (map fst tr)) (dv_pre d) = (cuts, acc)"
  shows "\<exists>d'. (\<forall>s. run_phase_a env ops full d s = Some (bind_result (deliver_all ops cuts s) (\<lambda>s.
      bind_result (rf_finish ops s) (\<lambda>s. Inr
        (\<lparr>pa_candidates = length (concat (map snd cuts)), pa_legit = legit, pa_sources = n,
          pa_cards = ev_card_events env x', pa_drops = rp_drops acc\<rparr>, d', s))))) \<and>
    dv_pre d' = acc \<and> dv_post d' = dv_post d \<and> dv_config d' = dv_config d \<and> dv_b_run d' = dv_b_run d"
proof -
  let ?d = "d\<lparr>dv_a_run := True, dv_spans := sc_spans sched, dv_stage := [], dv_coverage := wn_start full\<rparr>"
  have "settle_ok (sc_spans sched)" using partition_ok [OF assms(4,5)] by simp
  then obtain d' where d': "\<forall>s r. feed_run env ops (sc_spans gen) (x, ?d, r, s) =
      bind_result (deliver_all ops cuts s)
        (\<lambda>s. Inr (x', d', summary_plus legit n (length (concat (map snd cuts))) r, s))" "same_frame ?d d'" "dv_pre d' = acc"
    using feed_run_cuts [of env "sc_spans gen" x ?d tr legit n x' wc cuts acc ops] assms(6-8) by auto
  have run: "run_phase_a env ops full d s = Some (bind_result (feed_run env ops (sc_spans gen) (x, ?d, phase_a_start, s))
      (\<lambda>(x, d, summary, s). bind_result (rf_finish ops s) (\<lambda>s.
        Inr (summary\<lparr>pa_cards := ev_card_events env x, pa_drops := rp_drops (dv_pre d)\<rparr>, d\<lparr>dv_session := Some x\<rparr>, s))))" for s
    using assms(1-4) by (simp add: run_phase_a_def Let_def feed_run_def) (auto simp: bind_result_def split: sum.split)
  show ?thesis using d'
    by (intro exI [of _ "d'\<lparr>dv_session := Some x'\<rparr>"])
      (simp add: run bind_result_assoc same_frame_def summary_plus_def phase_a_start_def)
qed

text \<open>C5: Phase A, which settles every span as soon as the generated rows cover its lookahead, sends its sink
exactly the candidates of the authoritative chunked pre-fraud replay of all the rows it stages, with the same drops, the same
count and the same random stream afterwards, provided no row is staged behind the coverage.\<close>

theorem phase_a_is_chunked_replay:
  assumes "dv_session d = Some x" "\<not> dv_a_run d" "dv_pre d = replay_new (Some book) (Some g) f True"
    "partition_window full (wc_generation (dv_config d)) = Some (Inr gen)"
    "partition_window full (wc_settlement (dv_config d)) = Some (Inr sched)" "window_end full \<le> int64_max"
    "stage_run env (sc_spans gen) (x, dv_calendar d, dv_cursors d) = Inr (tr, legit, n, x', wc)"
    "covered_from (wn_start full) tr" "sorted (map tx_time (concat (map fst tr)))"
  shows "\<exists>a d' rows. run_phase_a env (erase_sink vector_spool) full d [] = Some (Inr (a, d', rows)) \<and>
    (let (c, g') = pre_fraud_chunked f book g (concat (map fst tr)) sched
     in rows = cd_txns c \<and> pa_drops a = cd_drops c \<and> pa_candidates a = length (cd_txns c) \<and>
        pa_legit a = legit \<and> pa_sources a = n \<and> rp_rng (dv_pre d') = g')"
proof -
  obtain cuts acc where p: "pre_cuts (sc_spans sched) (concat (map fst tr)) (dv_pre d) = (cuts, acc)" by fastforce
  from run_phase_a_cuts [OF assms(1,2,4-8) p, of "erase_sink vector_spool"] obtain d' where
    "run_phase_a env (erase_sink vector_spool) full d [] = Some (Inr
        (\<lparr>pa_candidates = length (concat (map snd cuts)), pa_legit = legit, pa_sources = n,
          pa_cards = ev_card_events env x', pa_drops = rp_drops acc\<rparr>, d', concat (map snd cuts)))" "dv_pre d' = acc"
    by (auto simp: deliver_vector finish_vector)
  moreover have "replay_chunked (replay_new (Some book) (Some g) f True) (concat (map fst tr)) sched [] = (acc, concat (map snd cuts))"
    using pre_cuts_chunked [OF assms(5,6,9) p] assms(3) by simp
  ultimately show ?thesis by (simp add: pre_fraud_chunked_def)
qed

lemma phase_a_is_chunked_replay_witness:
  "\<exists>a d' rows. run_phase_a small_env (erase_sink vector_spool) small_window small_driver [] = Some (Inr (a, d', rows)) \<and>
    rows = [small_row 100] \<and> pa_legit a = 1 \<and> pa_candidates a = 1"
proof -
  obtain cs where st: "stage_run small_env (sc_spans small_schedule) ((), dv_calendar small_driver, dv_cursors small_driver) =
      Inr ([([small_row 100], 432000)], 1, 0, (), [()], cs)"
    using small_stage [of "sc_spans small_schedule"] by (auto simp: small_driver_def)
  show ?thesis
    using phase_a_is_chunked_replay [where d = small_driver and x = "()" and book = small_ledger and g = "from_seed 7"
        and f = default_funding and full = small_window, OF _ _ _ _ _ _ st] small_partition small_candidates
    by (auto simp: small_fields small_facts small_row_time int64_max_def split_beta Let_def)
qed

subsection \<open>Phase B\<close>

lemma phase_b_core:
  assumes "\<not> dv_b_run d" "dv_post d = replay_new (Some book) (Some g) f False" "wc_declined_out (dv_config d) = Some []"
    "partition_window full (wc_settlement (dv_config d)) = Some (Inr sched)" "0 < wn_days full" "window_end full < int64_max"
    "precomputed_new cand = Inr c" "precomputed_new (sort_for_replay fraud) = Inr k"
    "\<forall>t \<in> set cand \<union> set fraud. tx_time t < int64_max"
  shows "\<exists>b d' rows. run_phase_b (erase_sink vector_spool) precomputed_emit precomputed_emit full c (Some k) d [] = Some (Inr (b, d', rows)) \<and>
    (let (posted, g') = post_fraud_chunked_merged f g book cand fraud sched
     in rows = pd_txns posted \<and> wc_declined_out (dv_config d') = Some (pd_declined posted) \<and>
        rp_book (dv_post d') = pd_book posted \<and> rp_rng (dv_post d') = g' \<and> pb_flushed b = length rows \<and>
        pb_candidates b = length (rows_before (window_end full) (rows_from (wn_start full) cand)))"
proof -
  have ok: "precomputed_ok c" "precomputed_left c = cand" "precomputed_bound c = None"
    "precomputed_ok k" "precomputed_left k = sort_for_replay fraud" "precomputed_bound k = None"
    using precomputed_new_ok [of cand] precomputed_new_ok [of "sort_for_replay fraud"] assms(7,8)
    by (auto simp: precomputed_new_def split: if_splits)
  have p: "tiles (wn_start full) (window_end full) (sc_spans sched)" "pulls_ok (sc_spans sched)" "sc_window sched = full"
    using partition_spans [OF assms(4,5)] partition_ok [OF assms(4)] assms(6) by auto
  obtain cuts acc out where m: "merged_cuts (sc_spans sched) (rows_from (wn_start full) cand)
      (rows_from (wn_start full) (sort_for_replay fraud)) (dv_post d) [] = (cuts, acc, out)" by (metis prod_cases3)
  have "\<forall>t \<in> set (precomputed_left c) \<union> set (in_memory.fraud_left (Some k)). tx_time t < int64_max"
    using assms(9) ok by (simp add: in_memory.fraud_left_def sort_for_replay_def)
  then have "run_phase_b (erase_sink vector_spool) precomputed_emit precomputed_emit full c (Some k) d [] = Some (Inr
      (\<lparr>pb_flushed = length (concat (map snd cuts)),
        pb_candidates = length (rows_before (window_end full) (rows_from (wn_start full) cand)),
        pb_fraud = length (rows_before (window_end full) (rows_from (wn_start full) (sort_for_replay fraud))),
        pb_drops = rp_drops acc\<rparr>,
       d\<lparr>dv_b_run := True, dv_post := acc, dv_config := (dv_config d)\<lparr>wc_declined_out := Some out\<rparr>\<rparr>, concat (map snd cuts)))"
    using in_memory.run_phase_b_cuts [OF assms(4-6) p(2,1) assms(1,3) ok(1,3), of "Some k" cuts acc out "erase_sink vector_spool" "[]"]
      m ok by (simp add: in_memory.fraud_left_def deliver_vector finish_vector)
  moreover have "post_fraud_chunked_merged f g book cand fraud sched =
      (\<lparr>pd_txns = concat (map snd cuts), pd_declined = out, pd_book = rp_book acc\<rparr>, rp_rng acc)"
    using m assms(2) p(3) by (simp add: post_fraud_chunked_merged_def replay_merged_cuts)
  ultimately show ?thesis by simp
qed

text \<open>C6: Phase B, which pulls its two cursors span by span, flushes exactly the rows of the authoritative
chunked replay of the merged streams, with the same declined attempts in the same order, the same book and random stream,
and counts exactly the rows inside the run window.\<close>

theorem phase_b_is_merged_replay:
  assumes "\<not> dv_b_run d" "dv_post d = replay_new (Some book) (Some g) f False" "wc_declined_out (dv_config d) = Some []"
    "partition_window full (wc_settlement (dv_config d)) = Some (Inr sched)" "0 < wn_days full" "window_end full < int64_max"
    "precomputed_new cand = Inr c" "precomputed_new (sort_for_replay fraud) = Inr k"
    "\<forall>t \<in> set cand \<union> set fraud. tx_time t < int64_max"
  shows "\<exists>b d' rows. run_phase_b (erase_sink vector_spool) precomputed_emit precomputed_emit full c (Some k) d [] = Some (Inr (b, d', rows)) \<and>
    (let (posted, g') = post_fraud_chunked_merged f g book cand fraud sched
     in rows = pd_txns posted \<and> wc_declined_out (dv_config d') = Some (pd_declined posted) \<and>
        rp_book (dv_post d') = pd_book posted \<and> rp_rng (dv_post d') = g' \<and> pb_flushed b = length rows \<and>
        pb_candidates b = length (rows_before (window_end full) (rows_from (wn_start full) cand)))"
  by (rule phase_b_core [OF assms])

lemma phase_b_is_merged_replay_witness:
  "\<exists>b d' rows. run_phase_b (erase_sink vector_spool) precomputed_emit precomputed_emit small_window
      small_cursor (Some (small_cursor\<lparr>pc_rows := [small_row 200]\<rparr>)) small_driver [] = Some (Inr (b, d', rows)) \<and>
    pb_flushed b = length rows \<and> pb_candidates b = 0"
proof -
  have c: "precomputed_new [] = Inr small_cursor"
    "precomputed_new (sort_for_replay [small_row 200]) = Inr (small_cursor\<lparr>pc_rows := [small_row 200]\<rparr>)"
    by (simp_all add: precomputed_new_def small_cursor_def sort_for_replay_def)
  show ?thesis
    using phase_b_is_merged_replay [of small_driver small_ledger "from_seed 8" default_funding small_window small_schedule "[]"
        small_cursor "[small_row 200]", OF _ _ _ _ _ _ c] small_partition
    by (auto simp: small_fields small_facts small_row_time int64_max_def split_beta Let_def rows_before_def rows_from_def)
qed

subsection \<open>Both phases\<close>

text \<open>What \<open>runWindowed\<close> passes as the factory of the fraud source.\<close>

definition fraud_factory :: "(nat \<Rightarrow> txn list) \<Rightarrow> nat \<Rightarrow> precomputed_cursor option result" where
  "fraud_factory inject n = bind_result (make_fraud_source inject n) (\<lambda>k. Inr (Some k))"

lemma fraud_factory_ok: "\<exists>k. fraud_factory inject n = Inr (Some k) \<and> precomputed_new (sort_for_replay (inject n)) = Inr k"
  using precomputed_new_ok [OF sort_for_replay_sorted, of "inject n"]
  by (auto simp: fraud_factory_def make_fraud_source_def)

lemma phase_a_rows:
  assumes "dv_pre d = replay_new (Some book) (Some g) f True"
    "partition_window full (wc_settlement (dv_config d)) = Some (Inr sched)" "0 < wn_days full" "window_end full < int64_max"
    "sorted (map tx_time rows)" "length rows \<le> 2 ^ 62" "delays_ok f"
    "pre_cuts (sc_spans sched) rows (dv_pre d) = (cuts, acc)"
  shows "concat (map snd cuts) = cd_txns (fst (pre_fraud_chunked f book g rows sched))"
    "rp_drops acc = cd_drops (fst (pre_fraud_chunked f book g rows sched))"
    "is_replay_sorted (concat (map snd cuts))" "\<forall>t \<in> set (concat (map snd cuts)). tx_time t < int64_max"
proof -
  have p: "tiles (wn_start full) (window_end full) (sc_spans sched)" using partition_spans [OF assms(2,3)] by simp
  have "replay_chunked (replay_new (Some book) (Some g) f True) rows sched [] = (acc, concat (map snd cuts))"
    using pre_cuts_chunked [OF assms(2) _ assms(5,8)] assms(1,4) by simp
  then show "concat (map snd cuts) = cd_txns (fst (pre_fraud_chunked f book g rows sched))"
    "rp_drops acc = cd_drops (fst (pre_fraud_chunked f book g rows sched))" by (simp_all add: pre_fraud_chunked_def)
  have "sorted (map audit_key (concat (map snd cuts))) \<and>
    (\<forall>t \<in> set (concat (map snd cuts)). wn_start full \<le> tx_time t \<and> tx_time t < window_end full)"
    using pre_cuts_sorted [OF p assms(4,5), of "dv_pre d"] assms(1,6-8) replay_new_inv [of "Some book" "Some g" f True]
    by (simp add: replay_new_def)
  then have srt: "sorted (map audit_key (concat (map snd cuts)))"
    and lt: "\<forall>t \<in> set (concat (map snd cuts)). tx_time t < window_end full" by auto
  show "is_replay_sorted (concat (map snd cuts))" by (rule audit_sorted_replay [OF srt])
  show "\<forall>t \<in> set (concat (map snd cuts)). tx_time t < int64_max" using lt assms(4) less_trans by blast
qed



subsection \<open>The file-backed run\<close>

lemma deliver_spool: "deliver_all spool_sink cuts s = append_batches (map snd cuts) s"
  by (induction cuts arbitrary: s) (auto simp: deliver_span_def spool_sink_def bind_result_def split: sum.split)

lemma finish_spool: "rf_finish spool_sink s = spool_finish s"
  by (simp add: spool_sink_def)

text \<open>What a caller sees of a run: the summaries, the book and the declined attempts, and its sink.\<close>

definition two_phase_outcome where
  "two_phase_outcome r = (case r of None \<Rightarrow> None | Some (Inl e) \<Rightarrow> Some (Inl e)
     | Some (Inr ((a, b), d, s)) \<Rightarrow> Some (Inr (a, b, dv_post d, dv_config d, s)))"

definition binary_outcome where
  "binary_outcome r = (case r of None \<Rightarrow> None | Some (Inl e) \<Rightarrow> Some (Inl e)
     | Some (Inr (w, d, s)) \<Rightarrow> Some (Inr (wr_phase_a w, wr_phase_b w, dv_post d, dv_config d, s)))"

lemma spool_phase_a:
  assumes "spool_fits room (concat batches)"
  shows "\<exists>spool. bind_result (append_batches batches (start_header (spool_fresh (empty_file room)))) spool_finish = Inr spool \<and>
    open_cursor spool = spool_run room batches"
proof -
  obtain s' where s': "append_batches batches (start_header (spool_fresh (empty_file room))) = Inr s'" "spool_holds s' room (concat batches)"
    using append_batches_holds [of _ room "[]" batches] spool_start_holds [of room] assms by auto
  obtain s where "spool_finish s' = Inr s" using finish_holds [OF s'(2)] assms by auto
  then show ?thesis using s'(1) spool_start_holds [of room] by (simp add: spool_run_def)
qed

text \<open>C4: the file-backed run, whose candidates go through the binary spool, gives the caller the same summaries,
book, declined attempts and sink contents as the run with the spool in memory, for any sink, even one that throws, as long as
the candidates are values the record can hold and the volume has room for them.\<close>

theorem binary_run_is_two_phase:
  assumes "dv_session d = Some x" "\<not> dv_a_run d" "\<not> dv_b_run d" "dv_pre d = replay_new (Some pre) (Some g1) f True"
    "wc_declined_out (dv_config d) = Some out0"
    "partition_window full (wc_generation (dv_config d)) = Some (Inr gen)"
    "partition_window full (wc_settlement (dv_config d)) = Some (Inr sched)" "0 < wn_days full" "window_end full < int64_max"
    "stage_run env (sc_spans gen) (x, dv_calendar d, dv_cursors d) = Inr (tr, legit, n, x', wc)"
    "covered_from (wn_start full) tr" "sorted (map tx_time (concat (map fst tr)))" "length (concat (map fst tr)) \<le> 2 ^ 62"
    "delays_ok f" "\<forall>k. \<forall>t \<in> set (inject k). tx_time t < int64_max"
    "list_all row_storable (cd_txns (fst (pre_fraud_chunked f pre g1 (concat (map fst tr)) sched)))"
    "spool_fits room (cd_txns (fst (pre_fraud_chunked f pre g1 (concat (map fst tr)) sched)))"
  shows "binary_outcome (run_binary_spool env ops precomputed_emit full (fraud_factory inject) (Some (empty_file room)) d s) =
    two_phase_outcome (run_two_phase env ops precomputed_emit full (Some (fraud_factory inject)) d s)"
proof -
  obtain cuts acc where p: "pre_cuts (sc_spans sched) (concat (map fst tr)) (dv_pre d) = (cuts, acc)" by fastforce
  let ?cand = "concat (map snd cuts)" and ?a = "\<lparr>pa_candidates = length (concat (map snd cuts)), pa_legit = legit, pa_sources = n,
          pa_cards = ev_card_events env x', pa_drops = rp_drops acc\<rparr>"
  note r = phase_a_rows [OF assms(4,7-9,12-14) p]
  from run_phase_a_cuts [OF assms(1,2,6,7) _ assms(10,11) p, of "erase_sink vector_spool"] assms(9) obtain d1 where
    A: "run_phase_a env (erase_sink vector_spool) full d [] = Some (Inr (?a, d1, ?cand))"
      "dv_post d1 = dv_post d" "dv_config d1 = dv_config d" "dv_b_run d1 = dv_b_run d"
    by (auto simp: deliver_vector finish_vector)
  have fits: "spool_fits room (concat (map snd cuts))" using assms(17) r(1) by simp
  obtain spool where spool: "bind_result (append_batches (map snd cuts) (start_header (spool_fresh (empty_file room)))) spool_finish = Inr spool"
    "open_cursor spool = spool_run room (map snd cuts)" using spool_phase_a [OF fits] by blast
  from run_phase_a_cuts [OF assms(1,2,6,7) _ assms(10,11) p, of spool_sink] assms(9) obtain d2 where
    R: "\<forall>s. run_phase_a env spool_sink full d s = Some (bind_result (deliver_all spool_sink cuts s) (\<lambda>s.
      bind_result (rf_finish spool_sink s) (\<lambda>s. Inr (?a, d2, s))))"
      "dv_post d2 = dv_post d" "dv_config d2 = dv_config d" "dv_b_run d2 = dv_b_run d"
    by auto
  have A2: "run_phase_a env spool_sink full d (start_header (spool_fresh (empty_file room))) = Some (Inr (?a, d2, spool))"
    using R(1) spool(1) by (auto simp: deliver_spool finish_spool bind_result_Inr)
  obtain k where k: "fraud_factory inject (length ?cand) = Inr (Some k)"
    "precomputed_new (sort_for_replay (inject (length ?cand))) = Inr k" using fraud_factory_ok by blast
  obtain c where c: "precomputed_new ?cand = Inr c" "precomputed_ok c" "precomputed_left c = ?cand" "precomputed_bound c = None"
    using precomputed_new_ok [OF r(3)] by blast
  have kk: "precomputed_ok k" "precomputed_left k = sort_for_replay (inject (length ?cand))" "precomputed_bound k = None"
    using precomputed_new_ok [OF sort_for_replay_sorted, of "inject (length ?cand)"] k(2) by auto
  have st: "list_all row_storable (concat (map snd cuts))" using assms(16) r(1) by simp
  obtain q s1 where q: "spool_run room (map snd cuts) = Inr (q, s1)" "cursor_reads q (concat (map snd cuts))" "bc_pending q = None"
    "bc_last q = None" "spool_bound q = None" "bs_rows s1 = length (concat (map snd cuts))"
    by (rule spool_run_reads [OF fits st])
  have qq: "spool_ok q" "spool_left q = ?cand"
  proof -
    have "cursor_holds q ?cand" using q r(3) by (simp add: cursor_holds_def after_last_def)
    then show "spool_ok q" "spool_left q = ?cand" using q(3) by (auto simp: spool_ok_def spool_left_holds spool_pending_def)
  qed
  have pt: "pulls_ok (sc_spans sched)" "tiles (wn_start full) (window_end full) (sc_spans sched)"
    using partition_spans [OF assms(7,8)] partition_ok [OF assms(7)] assms(9) by auto
  obtain mc macc mout where m: "merged_cuts (sc_spans sched) (rows_from (wn_start full) ?cand)
      (rows_from (wn_start full) (sort_for_replay (inject (length ?cand)))) (dv_post d) out0 = (mc, macc, mout)" by (metis prod_cases3)
  have top: "\<forall>t \<in> set ?cand \<union> set (sort_for_replay (inject (length ?cand))). tx_time t < int64_max"
    using r(4) assms(15) by (auto simp: sort_for_replay_def)
  have fl: "in_memory.fraud_left (Some k) = sort_for_replay (inject (length ?cand))"
    "spooled_candidates.fraud_left (Some k) = sort_for_replay (inject (length ?cand))"
    using kk by (simp_all add: in_memory.fraud_left_def spooled_candidates.fraud_left_def)
  note b1 = in_memory.run_phase_b_cuts [where d = d1 and f = "Some k" and c = c and out = out0 and full = full and ops = ops and s = s,
      OF _ assms(8,9) pt, unfolded A(2-4) fl c(3), OF assms(7,3,5) c(2,4) _ top m]
  note b2 = spooled_candidates.run_phase_b_cuts [where d = d2 and f = "Some k" and c = q and out = out0 and full = full and ops = ops and s = s,
      OF _ assms(8,9) pt, unfolded R(2-4) fl qq(2), OF assms(7,3,5) qq(1) q(5) _ top m]
  have kb: "\<forall>g. Some k = Some g \<longrightarrow> precomputed_ok g \<and> precomputed_bound g = None" using kk by simp
  have two: "run_two_phase env ops precomputed_emit full (Some (fraud_factory inject)) d s =
      bind_run (run_phase_b ops precomputed_emit precomputed_emit full c (Some k) d1 s) (\<lambda>(b, d, s). Some (Inr ((?a, b), d, s)))"
    using A(1) k(1) c(1) by (simp add: run_two_phase_def take_rows_def)
  have bin: "run_binary_spool env ops precomputed_emit full (fraud_factory inject) (Some (empty_file room)) d s =
      bind_run (run_phase_b ops spool_emit precomputed_emit full q (Some k) d2 s) (\<lambda>(b, d, s).
       Some (Inr (\<lparr>wr_phase_a = ?a, wr_phase_b = b, wr_spool_rows = bs_rows s1,
                   wr_spool_bytes = bytes_spooled s1\<rparr>, d, s)))"
    using A2 k(1) q(1) spool(2) spool_start_holds [of room] by (simp add: run_binary_spool_def)
  show ?thesis
    unfolding two bin b1 [OF kb] b2 [OF kb] binary_outcome_def two_phase_outcome_def
    by (auto simp: bind_result_def bind_run_def A(3) R(3) split: sum.split)
qed

lemma binary_run_is_two_phase_witness:
  "binary_outcome (run_binary_spool small_env (erase_sink null_sink) precomputed_emit small_window
      (fraud_factory (\<lambda>n. replicate n (small_row 200))) (Some (empty_file 100)) small_driver 0) =
    two_phase_outcome (run_two_phase small_env (erase_sink null_sink) precomputed_emit small_window
      (Some (fraud_factory (\<lambda>n. replicate n (small_row 200)))) small_driver 0)"
proof -
  obtain cs where st: "stage_run small_env (sc_spans small_schedule) ((), dv_calendar small_driver, dv_cursors small_driver) =
      Inr ([([small_row 100], 432000)], 1, 0, (), [()], cs)"
    using small_stage [of "sc_spans small_schedule"] by (auto simp: small_driver_def)
  have "row_storable (small_row 100)" by (simp add: row_storable_def small_row_def representable_def)
  moreover have "spool_fits 100 [small_row 100]" by (simp add: spool_fits_def header_bytes_def spool_magic_def record_bytes_def)
  ultimately show ?thesis
    using binary_run_is_two_phase [where x = "()" and d = small_driver and pre = small_ledger and ?g1.0 = "from_seed 7" and f = default_funding
        and ?out0.0 = "[]" and full = small_window and room = 100 and ops = "erase_sink null_sink" and s = 0
        and inject = "\<lambda>n. replicate n (small_row 200)", OF _ _ _ _ _ _ _ _ _ st] small_partition small_candidates
    by (simp add: small_fields small_facts small_row_time int64_max_def)
qed

end
