(* ===== verification/Screening.thy ===== *)
theory Screening
  imports LedgerReplay Spool
begin

text \<open>
  The base stream that the spending simulator posts into its screening ledger day by day:
  \<open>clearing/screening.hpp\<close>, the seam \<open>activity/spending/replay_source.hpp\<close> with its resident
  adapter, and the disk-backed source \<open>replay_spool.hpp\<close>. A posting's liquidity events are
  collected; a null ledger is \<open>None\<close>.
\<close>

subsection \<open>The resident stream\<close>

record time_bound =
  tb_until :: i64
  tb_inclusive :: bool

definition bound_includes :: "time_bound \<Rightarrow> i64 \<Rightarrow> bool" where
  "bound_includes b ts = (if tb_inclusive b then ts \<le> tb_until b else ts < tb_until b)"

text \<open>The loop of \<open>advanceBookThrough\<close>, over the rows from the index on; the first result is how many it posts.\<close>

fun post_included :: "time_bound \<Rightarrow> txn list \<Rightarrow> ledger \<Rightarrow> nat \<times> ledger \<times> event list" where
  "post_included b [] l = (0, l, [])"
| "post_included b (t # ts) l =
     (if bound_includes b (tx_time t)
      then let (l, _, evs) = transfer_at (posting_of t) l; (n, l, later) = post_included b ts l
           in (Suc n, l, evs @ later)
      else (0, l, []))"

definition advance_book_through ::
    "ledger option \<Rightarrow> txn list \<Rightarrow> nat \<Rightarrow> time_bound \<Rightarrow> nat \<times> ledger option \<times> event list" where
  "advance_book_through book rows idx b =
     (case book of
        None \<Rightarrow> (idx, None, [])
      | Some l \<Rightarrow> let (n, l, evs) = post_included b (drop idx rows) l in (idx + n, Some l, evs))"

text \<open>\<open>SpanReplaySource\<close> is the rows it was made of.\<close>

definition span_post_through :: "txn list \<Rightarrow> ledger option \<Rightarrow> nat \<Rightarrow> time_bound \<Rightarrow> nat \<times> ledger option \<times> event list" where
  "span_post_through rows book idx b = advance_book_through book rows idx b"

subsection \<open>The record of a base row\<close>

definition replay_record_bytes :: nat where "replay_record_bytes = 37"
definition replay_buffer_bytes :: nat where "replay_buffer_bytes = 2 ^ 16"

text \<open>Host byte order, which is little-endian on every platform the program builds for.\<close>

definition replay_encode :: "txn \<Rightarrow> u8 list" where
  "replay_encode t =
     put_u8 (of_nat (role_index (key_role (tx_source t)))) @ put_u8 (of_nat (bank_index (key_bank (tx_source t)))) @
     put_u64 (key_number (tx_source t)) @
     put_u8 (of_nat (role_index (key_role (tx_target t)))) @ put_u8 (of_nat (bank_index (key_bank (tx_target t)))) @
     put_u64 (key_number (tx_target t)) @
     put_u64 (f64_to_bits (tx_amount t)) @ put_u8 (tag_value (se_channel (tx_session t))) @
     put_u64 (word_of_int (tx_time t))"

text \<open>The fields of a record in a transaction that is otherwise default; a byte without enumerator has no row here.\<close>

definition replay_decode :: "u8 list \<Rightarrow> txn option" where
  "replay_decode record =
     (let p = record;
          (source, p) = read_key p; (target, p) = read_key p;
          (amount, p) = read_u64 p; (channel, p) = read_u8 p; (timestamp, p) = read_u64 p
      in case (source, target) of
           (Some src, Some tgt) \<Rightarrow> Some (default_txn\<lparr>tx_source := src, tx_target := tgt,
             tx_amount := f64_of_bits amount, tx_time := sint timestamp,
             tx_session := (tx_session default_txn)\<lparr>se_channel := Tag channel\<rparr>\<rparr>)
         | _ \<Rightarrow> None)"

subsection \<open>The disk-backed stream\<close>

text \<open>\<open>ry_read\<close> is the read buffer between \<open>readPos_\<close> and \<open>readEnd_\<close>.\<close>

record replay_spool =
  ry_file :: c_file
  ry_buffer :: "u8 list"
  ry_rows :: nat
  ry_sealed :: bool
  ry_read :: "u8 list"
  ry_pending :: "txn option"
  ry_decoded :: nat
  ry_consumed :: nat

definition replay_spool_new :: "c_file option \<Rightarrow> replay_spool result" where
  "replay_spool_new file =
     (case file of
        None \<Rightarrow> Inl (RuntimeError ''BaseReplaySpool: cannot create temporary spool file'')
      | Some f \<Rightarrow> Inr \<lparr>ry_file = f, ry_buffer = [], ry_rows = 0, ry_sealed = False, ry_read = [],
          ry_pending = None, ry_decoded = 0, ry_consumed = 0\<rparr>)"

definition flush_writes :: "replay_spool \<Rightarrow> replay_spool result" where
  "flush_writes s =
     (if ry_buffer s = [] then Inr s
      else
        let (written, f) = c_fwrite (ry_buffer s) (ry_file s); s = s\<lparr>ry_file := f\<rparr>
        in if written \<noteq> length (ry_buffer s)
           then Inl (RuntimeError ''BaseReplaySpool: short write to spool file'')
           else Inr (s\<lparr>ry_buffer := []\<rparr>))"

fun spool_each :: "txn list \<Rightarrow> replay_spool \<Rightarrow> replay_spool result" where
  "spool_each [] s = Inr s"
| "spool_each (t # ts) s =
     (let s = s\<lparr>ry_buffer := ry_buffer s @ replay_encode t, ry_rows := ry_rows s + 1\<rparr>
      in case (if replay_buffer_bytes \<le> length (ry_buffer s) then flush_writes s else Inr s) of
           Inl e \<Rightarrow> Inl e | Inr s \<Rightarrow> spool_each ts s)"

definition spool_rows :: "txn list \<Rightarrow> replay_spool \<Rightarrow> replay_spool result" where
  "spool_rows rows s =
     (if ry_sealed s then Inl (LogicError ''BaseReplaySpool: spool() after seal()'') else spool_each rows s)"

definition seal_spool :: "replay_spool \<Rightarrow> replay_spool result" where
  "seal_spool s =
     (if ry_sealed s then Inr s
      else case flush_writes s of Inl e \<Rightarrow> Inl e
        | Inr s \<Rightarrow>
            if \<not> fl_flush_ok (ry_file s) \<or> \<not> fl_seek_ok (ry_file s)
            then Inl (RuntimeError ''BaseReplaySpool: seal flush/rewind failed'')
            else Inr (s\<lparr>ry_file := (ry_file s)\<lparr>fl_pos := 0\<rparr>, ry_sealed := True\<rparr>))"

definition replay_bytes_spooled :: "replay_spool \<Rightarrow> nat" where
  "replay_bytes_spooled s = ry_rows s * replay_record_bytes"

definition replay_refill :: "replay_spool \<Rightarrow> replay_spool result" where
  "replay_refill s =
     (let (got, f) = c_fread (replay_buffer_bytes - length (ry_read s)) (ry_file s);
          s = s\<lparr>ry_file := f, ry_read := ry_read s @ got\<rparr>
      in if length (ry_read s) < replay_record_bytes
         then Inl (RuntimeError ''BaseReplaySpool: truncated spool record'')
         else Inr s)"

definition decode_next :: "replay_spool \<Rightarrow> (bool \<times> replay_spool) result" where
  "decode_next s =
     (if ry_decoded s = ry_rows s then Inr (False, s)
      else case (if length (ry_read s) < replay_record_bytes then replay_refill s else Inr s) of
          Inl e \<Rightarrow> Inl e
        | Inr s \<Rightarrow> (case replay_decode (ry_read s) of
              None \<Rightarrow> Inl (Unmodelled ''a record byte without enumerator'')
            | Some t \<Rightarrow> Inr (True, s\<lparr>ry_pending := Some t, ry_read := drop replay_record_bytes (ry_read s),
                                    ry_decoded := ry_decoded s + 1\<rparr>)))"

definition next_pending :: "replay_spool \<Rightarrow> (bool \<times> replay_spool) result" where
  "next_pending s = (if ry_pending s \<noteq> None then Inr (True, s) else decode_next s)"

definition spool_unread :: "replay_spool \<Rightarrow> u8 list" where
  "spool_unread s = ry_read s @ drop (fl_pos (ry_file s)) (fl_bytes (ry_file s))"

lemma decode_next_unread:
  assumes "decode_next s = Inr (True, s')"
  shows "length (spool_unread s') + replay_record_bytes = length (spool_unread s) \<and> ry_pending s' \<noteq> None"
proof -
  obtain d t where d: "(if length (ry_read s) < replay_record_bytes then replay_refill s else Inr s) = Inr d"
    "s' = d\<lparr>ry_pending := Some t, ry_read := drop replay_record_bytes (ry_read d), ry_decoded := ry_decoded d + 1\<rparr>"
    using assms by (auto simp: decode_next_def split: if_splits sum.splits option.splits)
  have u: "spool_unread d = spool_unread s \<and> replay_record_bytes \<le> length (ry_read d)"
  proof (cases "length (ry_read s) < replay_record_bytes")
    case True
    obtain got f where g: "c_fread (replay_buffer_bytes - length (ry_read s)) (ry_file s) = (got, f)" by fastforce
    have "d = s\<lparr>ry_file := f, ry_read := ry_read s @ got\<rparr>" "replay_record_bytes \<le> length (ry_read s @ got)"
      using True d(1) g by (auto simp: replay_refill_def split: if_splits)
    then show ?thesis using fread_rest [OF g] by (simp add: spool_unread_def)
  qed (use d in simp)
  have "length (spool_unread s') + replay_record_bytes = length (spool_unread d)"
    using conjunct2 [OF u] by (simp add: d(2) spool_unread_def)
  then show ?thesis using u d(2) by simp
qed

text \<open>The loop of \<open>postThrough\<close>: a row is posted without its timestamp.\<close>

function post_spooled :: "time_bound \<Rightarrow> replay_spool \<Rightarrow> ledger \<Rightarrow> (replay_spool \<times> ledger \<times> event list) result" where
  "post_spooled b s l =
     (case next_pending s of
        Inl e \<Rightarrow> Inl e
      | Inr (have, s) \<Rightarrow>
          if \<not> have then Inr (s, l, [])
          else case ry_pending s of
              None \<Rightarrow> Inr (s, l, [])
            | Some t \<Rightarrow>
                if \<not> bound_includes b (tx_time t) then Inr (s, l, [])
                else
                  let (l, _, evs) = transfer_keys (tx_source t) (tx_target t) (tx_amount t) (se_channel (tx_session t)) l
                  in case post_spooled b (s\<lparr>ry_pending := None, ry_consumed := ry_consumed s + 1\<rparr>) l of
                       Inl e \<Rightarrow> Inl e | Inr (s, l, later) \<Rightarrow> Inr (s, l, evs @ later))"
  by pat_completeness auto
termination
proof (relation "measure (\<lambda>(_, s, _). length (spool_unread s) + (if ry_pending s = None then 0 else 1))")
  fix b s l have' s' t l' d evs and p :: "bool \<times> replay_spool" and q r
  assume "next_pending s = Inr p" "(have', s') = p" "\<not> \<not> have'" "ry_pending s' = Some t"
  then show "((b, s'\<lparr>ry_pending := None, ry_consumed := ry_consumed s' + 1\<rparr>, l'), b, s, l)
      \<in> measure (\<lambda>(_, s, _). length (spool_unread s) + (if ry_pending s = None then 0 else 1))"
    using decode_next_unread [of s s']
    by (auto simp: next_pending_def spool_unread_def replay_record_bytes_def split: if_splits)
qed simp

declare post_spooled.simps [simp del]

definition spool_post_through ::
    "replay_spool \<Rightarrow> ledger option \<Rightarrow> nat \<Rightarrow> time_bound \<Rightarrow> (nat \<times> replay_spool \<times> ledger option \<times> event list) result" where
  "spool_post_through s book idx b =
     (case book of
        None \<Rightarrow> Inr (idx, s, None, [])
      | Some l \<Rightarrow>
          if \<not> ry_sealed s then Inl (LogicError ''BaseReplaySpool: postThrough before seal()'')
          else if idx \<noteq> ry_consumed s
          then Inl (LogicError ''BaseReplaySpool: replay index diverged from spool position'')
          else case post_spooled b s l of Inl e \<Rightarrow> Inl e
            | Inr (s, l, evs) \<Rightarrow> Inr (ry_consumed s, s, Some l, evs))"

end
