(* ===== verification/ScreeningFacts.thy ===== *)
theory ScreeningFacts
  imports Screening SpoolFacts Driver
begin

text \<open>
  What the disk-backed base stream keeps: it posts the rows the resident stream posts, at the same
  indices, with every timestamp replaced by 0.
\<close>

subsection \<open>Posting without a timestamp\<close>

definition untimed_event :: "event \<Rightarrow> event" where
  "untimed_event e = e\<lparr>ev_time := 0\<rparr>"

lemma loc_touch_0 [simp]: "loc_touch i 0 l = l"
  by (simp add: loc_touch_def loc_update_def)

lemma loc_touch_with_loc: "loc_touch i ts l = l\<lparr>lg_loc := lg_loc (loc_touch i ts l)\<rparr>"
  by (simp add: loc_touch_def)

lemma decide_with_loc [simp]: "decide (l\<lparr>lg_loc := x\<rparr>) = decide l"
  by (intro ext) (simp add: decide_def index_valid_def total_liquidity_def Let_def)

lemma set_cash_with_loc [simp]: "set_cash i c (l\<lparr>lg_loc := x\<rparr>) = (set_cash i c l)\<lparr>lg_loc := x\<rparr>"
  "lg_loc (set_cash i c l) = lg_loc l"
  by (simp_all add: set_cash_def)

lemma apply_with_loc:
  "apply_transfer (p\<lparr>po_time := ts\<rparr>) (l\<lparr>lg_loc := x\<rparr>) = (case apply_transfer p l of (l, d, c) \<Rightarrow> (l\<lparr>lg_loc := x\<rparr>, d, c))"
  by (simp add: apply_transfer_def Let_def)

lemma debit_untimed:
  "debit_and_emit i a ch 0 (l\<lparr>lg_loc := x\<rparr>) =
     (case debit_and_emit i a ch ts l of (l, evs) \<Rightarrow> (l\<lparr>lg_loc := x\<rparr>, map untimed_event evs))"
proof -
  obtain y where y: "loc_touch i ts l = l\<lparr>lg_loc := y\<rparr>" using loc_touch_with_loc by blast
  show ?thesis by (simp add: debit_and_emit_def y untimed_event_def set_cash_def Let_def)
qed

lemma indexed_untimed:
  "transfer_indexed (p\<lparr>po_time := 0\<rparr>) (l\<lparr>lg_loc := x\<rparr>) =
     (case transfer_indexed p l of (l, d, evs) \<Rightarrow> (l\<lparr>lg_loc := x\<rparr>, d, map untimed_event evs))"
proof -
  obtain y where y: "(if index_valid l (po_src p) then loc_touch (po_src p) (po_time p) l else l) = l\<lparr>lg_loc := y\<rparr>"
    using loc_touch_with_loc by (metis ledger.surjective ledger.update_convs(12))
  obtain z where z: "(if index_valid (l\<lparr>lg_loc := y\<rparr>) (po_dst p) then loc_touch (po_dst p) (po_time p) (l\<lparr>lg_loc := y\<rparr>)
      else l\<lparr>lg_loc := y\<rparr>) = l\<lparr>lg_loc := z\<rparr>"
    using loc_touch_with_loc [of "po_dst p" "po_time p" "l\<lparr>lg_loc := y\<rparr>"]
    by (cases "index_valid (l\<lparr>lg_loc := y\<rparr>) (po_dst p)") auto
  obtain l' d c where a: "apply_transfer p l = (l', d, c)" by (metis prod_cases3)
  have a': "apply_transfer p (l\<lparr>lg_loc := z\<rparr>) = (l'\<lparr>lg_loc := z\<rparr>, d, c)"
    using apply_with_loc [of "po_time p" p z l] a by simp
  have u: "apply_transfer (p\<lparr>po_time := 0\<rparr>) (l\<lparr>lg_loc := x\<rparr>) = (l'\<lparr>lg_loc := x\<rparr>, d, c)"
    using apply_with_loc [of 0 p x l] a by simp
  show ?thesis
    using debit_untimed [of "po_src p" _ "tag_of (Liquidity LiqOverdraftFee)" x "l'\<lparr>lg_loc := z\<rparr>" "po_time p"]
    unfolding transfer_indexed_def Let_def y z a'
    by (simp add: u split: option.split prod.split)
qed

lemma keys_untimed:
  "transfer_keys (tx_source t) (tx_target t) (tx_amount t) (tx_channel t) (l\<lparr>lg_loc := x\<rparr>) =
     (case transfer_at (posting_of t) l of (l, d, evs) \<Rightarrow> (l\<lparr>lg_loc := x\<rparr>, d, map untimed_event evs))"
proof -
  have s: "find_account (l\<lparr>lg_loc := x\<rparr>) = find_account l" "booked_boundary (l\<lparr>lg_loc := x\<rparr>) = booked_boundary l"
    "boundary_ok (l\<lparr>lg_loc := x\<rparr>) = boundary_ok l"
    by (intro ext; simp add: find_account_def booked_boundary_def boundary_ok_def)+
  show ?thesis
    using indexed_untimed [where p = "\<lparr>po_src = _, po_dst = _, po_amount = tx_amount t, po_channel = tx_channel t, po_time = tx_time t\<rparr>" and l = l and x = x]
    by (auto simp: transfer_keys_def transfer_at_def posting_of_def s Let_def)
qed

subsection \<open>The record\<close>

text \<open>What is left of a row on disk.\<close>

definition replay_view :: "txn \<Rightarrow> txn" where
  "replay_view t = default_txn\<lparr>tx_source := tx_source t, tx_target := tx_target t, tx_amount := tx_amount t,
     tx_time := tx_time t, tx_session := (tx_session default_txn)\<lparr>se_channel := tx_channel t\<rparr>\<rparr>"

lemma replay_view_fields [simp]:
  "tx_time (replay_view t) = tx_time t" "posting_of (replay_view t) = posting_of t"
  "tx_source (replay_view t) = tx_source t" "tx_target (replay_view t) = tx_target t"
  "tx_amount (replay_view t) = tx_amount t" "tx_channel (replay_view t) = tx_channel t"
  by (simp_all add: replay_view_def posting_of_def)

lemma replay_encode_length [simp]: "length (replay_encode t) = replay_record_bytes"
  by (simp add: replay_encode_def replay_record_bytes_def)

lemma replay_decode_encode:
  assumes "row_storable t"
  shows "replay_decode (replay_encode t @ p) = Some (replay_view t)"
proof -
  have e: "replay_encode t @ p = put_key (tx_source t) @ put_key (tx_target t) @ put_u64 (f64_to_bits (tx_amount t)) @
      put_u8 (tag_value (tx_channel t)) @ put_u64 (word_of_int (tx_time t)) @ p"
    by (simp add: replay_encode_def put_key_def)
  have "tx_amount t = f64_of_bits (f64_to_bits (tx_amount t))" "tx_time t = sint (word_of_int (tx_time t) :: u64)"
    using assms by (simp_all add: row_storable_def f64_bits_roundtrip sint_of_i64)
  then show ?thesis
    unfolding e replay_decode_def by (simp add: Let_def replay_view_def read_put)
qed

definition base_stored :: "txn list \<Rightarrow> u8 list" where
  "base_stored rows = concat (map replay_encode rows)"

lemma base_stored_simps [simp]: "base_stored [] = []" "base_stored (t # rows) = replay_encode t @ base_stored rows"
  "base_stored (xs @ ys) = base_stored xs @ base_stored ys" "length (base_stored rows) = length rows * replay_record_bytes"
  by (simp_all add: base_stored_def) (induction rows; simp)

subsection \<open>Reading\<close>

text \<open>\<open>rows\<close> are still to be decoded; with a held row they are what is still to be posted.\<close>

definition base_reads :: "replay_spool \<Rightarrow> txn list \<Rightarrow> bool" where
  "base_reads s rows \<longleftrightarrow>
     spool_unread s = base_stored rows \<and> ry_rows s = ry_decoded s + length rows \<and>
     list_all row_storable rows \<and> length (ry_read s) \<le> replay_buffer_bytes \<and> ry_sealed s"

definition base_holds :: "replay_spool \<Rightarrow> txn list \<Rightarrow> bool" where
  "base_holds s rows \<longleftrightarrow>
     (case ry_pending s of
        None \<Rightarrow> base_reads s rows
      | Some v \<Rightarrow> rows \<noteq> [] \<and> v = replay_view (hd rows) \<and> base_reads s (tl rows))"

lemma base_refill:
  assumes "replay_record_bytes \<le> length (spool_unread s)" "length (ry_read s) \<le> replay_buffer_bytes"
  shows "\<exists>f got. (if length (ry_read s) < replay_record_bytes then replay_refill s else Inr s) =
      Inr (s\<lparr>ry_file := f, ry_read := ry_read s @ got\<rparr>) \<and>
    ry_read s @ got @ drop (fl_pos f) (fl_bytes f) = spool_unread s \<and>
    replay_record_bytes \<le> length (ry_read s @ got) \<and> length (ry_read s @ got) \<le> replay_buffer_bytes"
proof (cases "length (ry_read s) < replay_record_bytes")
  case True
  let ?n = "replay_buffer_bytes - length (ry_read s)"
  obtain got f where g: "c_fread ?n (ry_file s) = (got, f)" by fastforce
  have rest: "got @ drop (fl_pos f) (fl_bytes f) = drop (fl_pos (ry_file s)) (fl_bytes (ry_file s))"
    by (rule fread_rest [OF g])
  have got: "got = take ?n (drop (fl_pos (ry_file s)) (fl_bytes (ry_file s)))"
    using g by (auto simp: c_fread_def Let_def)
  have "replay_record_bytes \<le> length (ry_read s @ got)" "length (ry_read s @ got) \<le> replay_buffer_bytes"
    using assms unfolding got by (auto simp: spool_unread_def min_def replay_record_bytes_def replay_buffer_bytes_def)
  then show ?thesis using True g rest by (auto simp: replay_refill_def spool_unread_def)
next
  case False
  then show ?thesis using assms(2) by (intro exI [of _ "ry_file s"] exI [of _ "[]"]) (auto simp: spool_unread_def)
qed

lemma decode_next_reads:
  assumes "base_reads s (t # rows)"
  shows "\<exists>s'. decode_next s = Inr (True, s') \<and> base_reads s' rows \<and> ry_pending s' = Some (replay_view t) \<and>
    ry_consumed s' = ry_consumed s"
proof -
  have u: "spool_unread s = replay_encode t @ base_stored rows" and st: "row_storable t"
    and n: "ry_decoded s \<noteq> ry_rows s"
    using assms by (auto simp: base_reads_def)
  have "replay_record_bytes \<le> length (spool_unread s)" "length (ry_read s) \<le> replay_buffer_bytes"
    using assms u by (auto simp: base_reads_def)
  from base_refill [OF this] obtain f got where r:
    "(if length (ry_read s) < replay_record_bytes then replay_refill s else Inr s) =
      Inr (s\<lparr>ry_file := f, ry_read := ry_read s @ got\<rparr>)"
    "ry_read s @ got @ drop (fl_pos f) (fl_bytes f) = spool_unread s"
    "replay_record_bytes \<le> length (ry_read s @ got)" "length (ry_read s @ got) \<le> replay_buffer_bytes" by blast
  obtain q where q: "ry_read s @ got = replay_encode t @ q"
  proof
    have "take replay_record_bytes ((ry_read s @ got) @ drop (fl_pos f) (fl_bytes f)) = replay_encode t" using r(2) u by simp
    then have "take replay_record_bytes (ry_read s @ got) = replay_encode t" using r(3) by simp
    then show "ry_read s @ got = replay_encode t @ drop replay_record_bytes (ry_read s @ got)"
      by (metis append_take_drop_id)
  qed
  then have rest: "q @ drop (fl_pos f) (fl_bytes f) = base_stored rows"
    using r(2) u by (metis append_assoc same_append_eq)
  have "length q \<le> replay_buffer_bytes" using r(4) q by simp
  then show ?thesis
    using assms n rest unfolding decode_next_def r(1)
    by (simp add: q replay_decode_encode [OF st] base_reads_def spool_unread_def)
qed

lemma decode_next_end: "base_reads s [] \<Longrightarrow> decode_next s = Inr (False, s)"
  by (simp add: decode_next_def base_reads_def)

lemma next_pending_holds:
  "base_holds s [] \<Longrightarrow> next_pending s = Inr (False, s)"
  "base_holds s (t # rows) \<Longrightarrow> \<exists>s'. next_pending s = Inr (True, s') \<and> base_reads s' rows \<and>
     ry_pending s' = Some (replay_view t) \<and> ry_consumed s' = ry_consumed s"
  using decode_next_end [of s] decode_next_reads [of s t rows]
  by (auto simp: next_pending_def base_holds_def split: option.splits)

lemma post_spooled_holds:
  "base_holds s rows \<Longrightarrow> post_included b rows l = (n, l', evs) \<Longrightarrow>
     \<exists>s'. post_spooled b s (l\<lparr>lg_loc := x\<rparr>) = Inr (s', l'\<lparr>lg_loc := x\<rparr>, map untimed_event evs) \<and>
       base_holds s' (drop n rows) \<and> ry_consumed s' = ry_consumed s + n"
proof (induction rows arbitrary: s l n l' evs)
  case Nil
  then show ?case using next_pending_holds(1) [of s] by (subst post_spooled.simps) auto
next
  case (Cons t rows)
  obtain s1 where s1: "next_pending s = Inr (True, s1)" "base_reads s1 rows" "ry_pending s1 = Some (replay_view t)"
    "ry_consumed s1 = ry_consumed s"
    using next_pending_holds(2) [OF Cons.prems(1)] by blast
  show ?case
  proof (cases "bound_includes b (tx_time t)")
    case False
    then show ?thesis using s1 Cons.prems(2)
      by (subst post_spooled.simps) (auto simp: base_holds_def)
  next
    case True
    obtain l1 d e1 where t1: "transfer_at (posting_of t) l = (l1, d, e1)" by (metis prod_cases3)
    obtain m l2 e2 where p2: "post_included b rows l1 = (m, l2, e2)" by (metis prod_cases3)
    have c: "n = Suc m" "l' = l2" "evs = e1 @ e2" using Cons.prems(2) True t1 p2 by auto
    let ?s = "s1\<lparr>ry_pending := None, ry_consumed := ry_consumed s1 + 1\<rparr>"
    have "base_holds ?s rows" using s1(2) by (simp add: base_holds_def base_reads_def spool_unread_def)
    from Cons.IH [OF this p2] obtain s' where
      "post_spooled b ?s (l1\<lparr>lg_loc := x\<rparr>) = Inr (s', l2\<lparr>lg_loc := x\<rparr>, map untimed_event e2)"
      "base_holds s' (drop m rows)" "ry_consumed s' = ry_consumed s + n"
      using s1(4) c by auto
    then show ?thesis using s1 True c keys_untimed [of t x l] t1
      by (subst post_spooled.simps) auto
  qed
qed

subsection \<open>Writing\<close>

definition base_room :: "nat \<Rightarrow> txn list \<Rightarrow> bool" where
  "base_room room rows \<longleftrightarrow> length rows * replay_record_bytes \<le> room"

definition base_writes :: "replay_spool \<Rightarrow> nat \<Rightarrow> txn list \<Rightarrow> bool" where
  "base_writes s room rows \<longleftrightarrow>
     fl_bytes (ry_file s) @ ry_buffer s = base_stored rows \<and>
     fl_pos (ry_file s) = length (fl_bytes (ry_file s)) \<and> ry_rows s = length rows \<and>
     fl_room (ry_file s) + length (fl_bytes (ry_file s)) = room \<and>
     fl_flush_ok (ry_file s) \<and> fl_seek_ok (ry_file s) \<and> \<not> ry_sealed s \<and>
     ry_read s = [] \<and> ry_pending s = None \<and> ry_decoded s = 0 \<and> ry_consumed s = 0"

lemma flush_writes_holds:
  assumes w: "base_writes s room rows" and room: "base_room room rows"
  shows "\<exists>s'. flush_writes s = Inr s' \<and> base_writes s' room rows \<and> ry_buffer s' = []"
proof (cases "ry_buffer s = []")
  case False
  have E: "fl_bytes (ry_file s) @ ry_buffer s = base_stored rows" using w by (simp add: base_writes_def)
  have len: "length (fl_bytes (ry_file s)) + length (ry_buffer s) = length rows * replay_record_bytes"
    using arg_cong [OF E, of length] by simp
  have fits: "length (ry_buffer s) \<le> fl_room (ry_file s)" using len w room by (simp add: base_writes_def base_room_def)
  then have "c_fwrite (ry_buffer s) (ry_file s) = (length (ry_buffer s), (ry_file s)\<lparr>
      fl_bytes := fl_bytes (ry_file s) @ ry_buffer s, fl_pos := length (fl_bytes (ry_file s)) + length (ry_buffer s),
      fl_room := fl_room (ry_file s) - length (ry_buffer s)\<rparr>)"
    using w by (simp add: c_fwrite_def Let_def min_def base_writes_def del: base_stored_simps)
  then show ?thesis using False w fits E len
    by (simp add: flush_writes_def base_writes_def) linarith
qed (use w in \<open>simp add: flush_writes_def\<close>)

lemma spool_each_holds:
  "base_writes s room rows \<Longrightarrow> base_room room (rows @ txns) \<Longrightarrow>
     \<exists>s'. spool_each txns s = Inr s' \<and> base_writes s' room (rows @ txns)"
proof (induction txns arbitrary: s rows)
  case (Cons t txns)
  let ?s = "s\<lparr>ry_buffer := ry_buffer s @ replay_encode t, ry_rows := ry_rows s + 1\<rparr>"
  have w: "base_writes ?s room (rows @ [t])"
    using Cons.prems(1) by (auto simp: base_writes_def simp flip: append_assoc)
  have r: "base_room room (rows @ [t])" using Cons.prems(2) by (simp add: base_room_def replay_record_bytes_def)
  obtain s1 where s1: "(if replay_buffer_bytes \<le> length (ry_buffer ?s) then flush_writes ?s else Inr ?s) = Inr s1"
    "base_writes s1 room (rows @ [t])"
    using flush_writes_holds [OF w r] w by (cases "replay_buffer_bytes \<le> length (ry_buffer ?s)") auto
  obtain s' where "spool_each txns s1 = Inr s'" "base_writes s' room (rows @ t # txns)"
    using Cons.IH [OF s1(2)] Cons.prems(2) by auto
  then show ?case using s1(1) unfolding spool_each.simps Let_def s1(1) by auto
qed simp

definition base_spooled :: "nat \<Rightarrow> txn list \<Rightarrow> replay_spool result" where
  "base_spooled room rows =
     bind_result (replay_spool_new (Some (empty_file room))) (\<lambda>s. bind_result (spool_rows rows s) seal_spool)"

lemma base_spooled_holds:
  assumes "base_room room rows" "list_all row_storable rows"
  shows "\<exists>s. base_spooled room rows = Inr s \<and> base_holds s rows \<and> ry_consumed s = 0 \<and> ry_rows s = length rows \<and> ry_sealed s"
proof -
  obtain s0 where s0: "replay_spool_new (Some (empty_file room)) = Inr s0" "base_writes s0 room []"
    by (simp add: replay_spool_new_def base_writes_def empty_file_def)
  obtain s1 where s1: "spool_rows rows s0 = Inr s1" "base_writes s1 room rows"
    using spool_each_holds [OF s0(2), of rows] s0(2) assms(1) by (auto simp: spool_rows_def base_writes_def)
  obtain s2 where s2: "flush_writes s1 = Inr s2" "base_writes s2 room rows" "ry_buffer s2 = []"
    using flush_writes_holds [OF s1(2) assms(1)] by blast
  show ?thesis
    using s0(1) s1 s2 assms(2)
    by (auto simp: base_spooled_def seal_spool_def base_writes_def base_holds_def base_reads_def spool_unread_def)
qed

subsection \<open>The seam of the base stream\<close>

definition without_loc :: "ledger \<Rightarrow> ledger" where
  "without_loc l = l\<lparr>lg_loc := undefined\<rparr>"

lemma without_loc_eq: "without_loc a = without_loc b \<longleftrightarrow> (\<exists>x. a = b\<lparr>lg_loc := x\<rparr>)"
proof
  assume "without_loc a = without_loc b"
  then have "a = b\<lparr>lg_loc := lg_loc a\<rparr>"
    unfolding without_loc_def by (metis ledger.surjective ledger.update_convs(12) ledger.ext_inject)
  then show "\<exists>x. a = b\<lparr>lg_loc := x\<rparr>" ..
qed (auto simp: without_loc_def)

lemma post_included_loc:
  "without_loc l = without_loc k \<Longrightarrow> post_included b rows l = (n, l', evs) \<Longrightarrow>
     \<exists>k' evs'. post_included b rows k = (n, k', evs') \<and> without_loc k' = without_loc l' \<and>
       map untimed_event evs' = map untimed_event evs"
proof (induction rows arbitrary: l k n l' evs)
  case (Cons t rows)
  show ?case
  proof (cases "bound_includes b (tx_time t)")
    case True
    obtain l1 d e1 where l1: "transfer_at (posting_of t) l = (l1, d, e1)" by (metis prod_cases3)
    obtain k1 d' f1 where k1: "transfer_at (posting_of t) k = (k1, d', f1)" by (metis prod_cases3)
    obtain x where x: "l = k\<lparr>lg_loc := x\<rparr>" using Cons.prems(1) without_loc_eq by blast
    have "l1\<lparr>lg_loc := x\<rparr> = k1\<lparr>lg_loc := x\<rparr>" "map untimed_event e1 = map untimed_event f1"
      using keys_untimed [of t x l] keys_untimed [of t x k] l1 k1 by (simp_all add: x)
    then have w: "without_loc l1 = without_loc k1" "map untimed_event e1 = map untimed_event f1"
      by (metis without_loc_eq ledger.update_convs(12) ledger.surjective, simp)
    obtain m l2 e2 where l2: "post_included b rows l1 = (m, l2, e2)" by (metis prod_cases3)
    from Cons.IH [OF w(1) l2] obtain k2 f2 where "post_included b rows k1 = (m, k2, f2)"
      "without_loc k2 = without_loc l2" "map untimed_event f2 = map untimed_event e2" by blast
    then show ?thesis using Cons.prems(2) True l1 k1 l2 w(2) by auto
  qed (use Cons.prems in auto)
qed simp

text \<open>
  What the day driver relies on: a source posts the rows from the caller's index on while the bound
  includes them; whether it passes their timestamps is left open, so the interest tracker is too.
\<close>

locale replay_source =
  fixes post :: "'s \<Rightarrow> ledger option \<Rightarrow> nat \<Rightarrow> time_bound \<Rightarrow> (nat \<times> 's \<times> ledger option \<times> event list) result"
    and left :: "'s \<Rightarrow> nat \<Rightarrow> txn list"
    and ok :: "'s \<Rightarrow> nat \<Rightarrow> bool"
  assumes null_book: "ok s idx \<Longrightarrow> post s None idx b = Inr (idx, s, None, [])"
    and posts: "ok s idx \<Longrightarrow> post_included b (left s idx) l = (n, l', evs) \<Longrightarrow>
      \<exists>s' k evs'. post s (Some l) idx b = Inr (idx + n, s', Some k, evs') \<and> without_loc k = without_loc l' \<and>
        map untimed_event evs' = map untimed_event evs \<and> ok s' (idx + n) \<and> left s' (idx + n) = drop n (left s idx)"
begin

fun post_bounds :: "time_bound list \<Rightarrow> 's \<Rightarrow> ledger option \<Rightarrow> nat \<Rightarrow> (nat \<times> 's \<times> ledger option \<times> event list) result" where
  "post_bounds [] s book idx = Inr (idx, s, book, [])"
| "post_bounds (b # bs) s book idx =
     bind_result (post s book idx b) (\<lambda>(idx, s, book, evs).
     bind_result (post_bounds bs s book idx) (\<lambda>(idx, s, book, later). Inr (idx, s, book, evs @ later)))"

end

text \<open>The reference: the rows themselves, posted bound by bound.\<close>

fun included_by :: "time_bound list \<Rightarrow> txn list \<Rightarrow> ledger \<Rightarrow> nat \<times> ledger \<times> event list" where
  "included_by [] rows l = (0, l, [])"
| "included_by (b # bs) rows l =
     (let (n, l, evs) = post_included b rows l; (m, l, later) = included_by bs (drop n rows) l
      in (n + m, l, evs @ later))"

lemma included_by_loc:
  "without_loc l = without_loc k \<Longrightarrow> included_by bs rows l = (n, l', evs) \<Longrightarrow>
     \<exists>k' evs'. included_by bs rows k = (n, k', evs') \<and> without_loc k' = without_loc l' \<and>
       map untimed_event evs' = map untimed_event evs"
proof (induction bs arbitrary: rows l k n l' evs)
  case (Cons b bs)
  obtain n1 l1 e1 where l1: "post_included b rows l = (n1, l1, e1)" by (metis prod_cases3)
  obtain k1 f1 where k1: "post_included b rows k = (n1, k1, f1)" "without_loc k1 = without_loc l1"
    "map untimed_event f1 = map untimed_event e1" using post_included_loc [OF Cons.prems(1) l1] by blast
  obtain n2 l2 e2 where l2: "included_by bs (drop n1 rows) l1 = (n2, l2, e2)" by (metis prod_cases3)
  from Cons.IH [OF k1(2) [symmetric] l2] show ?case using Cons.prems(2) l1 k1 l2 by auto
qed simp

context replay_source
begin

lemma post_bounds_included:
  "ok s idx \<Longrightarrow> included_by bs (left s idx) l = (n, l', evs) \<Longrightarrow>
     \<exists>s' k evs'. post_bounds bs s (Some l) idx = Inr (idx + n, s', Some k, evs') \<and> without_loc k = without_loc l' \<and>
       map untimed_event evs' = map untimed_event evs \<and> ok s' (idx + n) \<and> left s' (idx + n) = drop n (left s idx)"
proof (induction bs arbitrary: s idx l n l' evs)
  case (Cons b bs)
  obtain n1 l1 e1 where l1: "post_included b (left s idx) l = (n1, l1, e1)" by (metis prod_cases3)
  from posts [OF Cons.prems(1) this] obtain s1 k1 f1 where s1: "post s (Some l) idx b = Inr (idx + n1, s1, Some k1, f1)"
    "without_loc k1 = without_loc l1" "map untimed_event f1 = map untimed_event e1" "ok s1 (idx + n1)"
    "left s1 (idx + n1) = drop n1 (left s idx)" by blast
  obtain n2 l2 e2 where l2: "included_by bs (drop n1 (left s idx)) l1 = (n2, l2, e2)" by (metis prod_cases3)
  then obtain k2 f2 where k2: "included_by bs (left s1 (idx + n1)) k1 = (n2, k2, f2)" "without_loc k2 = without_loc l2"
    "map untimed_event f2 = map untimed_event e2" using included_by_loc [OF s1(2) [symmetric] l2] s1(5) by metis
  from Cons.IH [OF s1(4) k2(1)] show ?case using Cons.prems(2) l1 l2 s1 k2
    by (auto simp: ac_simps)
qed simp

end

definition span_post :: "txn list \<Rightarrow> ledger option \<Rightarrow> nat \<Rightarrow> time_bound \<Rightarrow> (nat \<times> txn list \<times> ledger option \<times> event list) result" where
  "span_post rows book idx b = (case span_post_through rows book idx b of (i, book, evs) \<Rightarrow> Inr (i, rows, book, evs))"

interpretation resident: replay_source span_post "\<lambda>rows idx. drop idx rows" "\<lambda>_ _. True"
  by unfold_locales (auto simp: span_post_def span_post_through_def advance_book_through_def add.commute)

text \<open>The rows on disk: the held one and what the rest of the file decodes to.\<close>

fun replay_decode_all :: "nat \<Rightarrow> u8 list \<Rightarrow> txn list" where
  "replay_decode_all 0 p = []"
| "replay_decode_all (Suc n) p =
     (case replay_decode p of None \<Rightarrow> [] | Some t \<Rightarrow> t # replay_decode_all n (drop replay_record_bytes p))"

definition disk_left :: "replay_spool \<Rightarrow> txn list" where
  "disk_left s = (case ry_pending s of None \<Rightarrow> [] | Some t \<Rightarrow> [t]) @
     replay_decode_all (ry_rows s - ry_decoded s) (spool_unread s)"

definition disk_ok :: "replay_spool \<Rightarrow> nat \<Rightarrow> bool" where
  "disk_ok s idx \<longleftrightarrow> idx = ry_consumed s \<and> (\<exists>rows. base_holds s rows)"

lemma replay_decode_stored:
  "list_all row_storable rows \<Longrightarrow> replay_decode_all (length rows) (base_stored rows) = map replay_view rows"
  by (induction rows) (simp_all add: replay_decode_encode)

lemma disk_left_holds: "base_holds s rows \<Longrightarrow> disk_left s = map replay_view rows"
  by (cases rows; cases "ry_pending s")
    (auto simp: disk_left_def base_holds_def base_reads_def replay_decode_stored replay_decode_encode)

lemma post_included_view: "post_included b (map replay_view rows) l = post_included b rows l"
  by (induction rows arbitrary: l) (simp_all split: prod.split)

lemma base_holds_sealed: "base_holds s rows \<Longrightarrow> ry_sealed s"
  by (auto simp: base_holds_def base_reads_def split: option.splits)

interpretation on_disk: replay_source spool_post_through "\<lambda>s idx. disk_left s" disk_ok
proof
  fix s :: replay_spool and idx n :: nat and b :: time_bound and l l' :: ledger and evs :: "event list"
  show "disk_ok s idx \<Longrightarrow> spool_post_through s None idx b = Inr (idx, s, None, [])" by (simp add: spool_post_through_def)
  assume ok: "disk_ok s idx" and p: "post_included b (disk_left s) l = (n, l', evs)"
  obtain rows where rows: "base_holds s rows" "idx = ry_consumed s" using ok by (auto simp: disk_ok_def)
  then have "post_included b rows l = (n, l', evs)" using p by (simp add: disk_left_holds post_included_view)
  from post_spooled_holds [OF rows(1) this, of "lg_loc l"] obtain s' where s':
    "post_spooled b s l = Inr (s', l'\<lparr>lg_loc := lg_loc l\<rparr>, map untimed_event evs)" "base_holds s' (drop n rows)"
    "ry_consumed s' = ry_consumed s + n" by auto
  then have "spool_post_through s (Some l) idx b = Inr (idx + n, s', Some (l'\<lparr>lg_loc := lg_loc l\<rparr>), map untimed_event evs)"
    using rows base_holds_sealed by (simp add: spool_post_through_def)
  moreover have "without_loc (l'\<lparr>lg_loc := lg_loc l\<rparr>) = without_loc l'" by (simp add: without_loc_def)
  moreover have "map untimed_event (map untimed_event evs) = map untimed_event evs" by (simp add: untimed_event_def)
  ultimately show "\<exists>s' k evs'. spool_post_through s (Some l) idx b = Inr (idx + n, s', Some k, evs') \<and>
      without_loc k = without_loc l' \<and> map untimed_event evs' = map untimed_event evs \<and> disk_ok s' (idx + n) \<and>
      disk_left s' = drop n (disk_left s)"
    using s' rows by (auto simp: disk_ok_def disk_left_holds drop_map)
qed

end
