(* ===== verification/BaseRuns.thy ===== *)
theory BaseRuns
  imports ScreeningFacts SpoolClaims
begin

text \<open>
  \<open>BaseRunSet\<close> (\<open>base_run_set.hpp\<close>): the two disk-backed views of the base stream, one in timestamp
  order for the screening replay and one in full replay order, written in bounded runs. The
  default target is a number of rows that depends on the size of a transaction in memory, so the
  target is always an argument here.
\<close>

record base_run_set =
  br_timestamp :: replay_spool
  br_audit :: spool
  br_peak :: nat

text \<open>The end of a run moves past the rows that share the timestamp of its last row.\<close>

fun extend_tie :: "txn list \<Rightarrow> txn list \<Rightarrow> txn list \<times> txn list" where
  "extend_tie run [] = (run, [])"
| "extend_tie run (t # ts) = (if tx_time (last run) = tx_time t then extend_tie (run @ [t]) ts else (run, t # ts))"

lemma extend_tie_append: "extend_tie run ts = (run', rest) \<Longrightarrow> run' @ rest = run @ ts"
  by (induction run ts rule: extend_tie.induct) (auto split: if_splits)

lemma extend_tie_length: "length (snd (extend_tie run ts)) \<le> length ts"
  by (induction run ts rule: extend_tie.induct) (auto intro: le_SucI)

text \<open>The rows of the first run, for a positive target, and the rows after it.\<close>

definition first_run :: "nat \<Rightarrow> txn \<Rightarrow> txn list \<Rightarrow> txn list \<times> txn list" where
  "first_run target t ts = extend_tie (t # take (target - 1) ts) (drop (target - 1) ts)"

lemma first_run_rest: "first_run target t ts = (run, rest) \<Longrightarrow> length rest < length (t # ts)"
  using extend_tie_length [of "t # take (target - 1) ts" "drop (target - 1) ts"] by (auto simp: first_run_def)

lemma first_run_append: "first_run target t ts = (run, rest) \<Longrightarrow> run @ rest = t # ts"
  using extend_tie_append [of "t # take (target - 1) ts" "drop (target - 1) ts"] by (simp add: first_run_def)

text \<open>The loop over the runs.\<close>

function audit_runs :: "nat \<Rightarrow> txn list \<Rightarrow> spool \<times> nat \<Rightarrow> (spool \<times> nat) result" where
  "audit_runs target [] st = Inr st"
| "audit_runs target (t # ts) (s, peak) =
     (let (run, rest) = first_run target t ts;
          audit_run = sort_key audit_key run
      in bind_result (spool_append audit_run s) (\<lambda>s. audit_runs target rest (s, max peak (length audit_run))))"
  by pat_completeness auto
termination
proof (relation "measure (\<lambda>(_, rows, _). length rows)")
  fix target t ts s peak x run rest y s'
  assume "x = first_run target t ts" "(run, rest) = x"
  then show "((target, rest, s', max peak (length y)), target, t # ts, s, peak) \<in> measure (\<lambda>(_, rows, _). length rows)"
    using first_run_rest [of target t ts run rest] by simp
qed simp

definition base_run_set_new :: "c_file option \<Rightarrow> c_file option \<Rightarrow> txn list \<Rightarrow> nat \<Rightarrow> base_run_set result" where
  "base_run_set_new timestamp_file audit_file rows target =
     bind_result (replay_spool_new timestamp_file) (\<lambda>r.
     bind_result (spool_temporary audit_file) (\<lambda>a.
       if target = 0 then Inl (InvalidArgument ''BaseRunSet requires a non-zero audit-run target'')
       else if \<not> sorted (map tx_time rows)
       then Inl (InvalidArgument ''BaseRunSet requires timestamp-sorted input rows'')
       else
         bind_result (spool_rows rows r) (\<lambda>r.
         bind_result (seal_spool r) (\<lambda>r.
         bind_result (audit_runs target rows (a, 0)) (\<lambda>(a, peak).
         bind_result (spool_finish a) (\<lambda>a. Inr \<lparr>br_timestamp = r, br_audit = a, br_peak = peak\<rparr>))))))"

definition open_audit_cursor :: "base_run_set \<Rightarrow> (spool_cursor \<times> base_run_set) result" where
  "open_audit_cursor br = bind_result (open_cursor (br_audit br)) (\<lambda>(c, a). Inr (c, br\<lparr>br_audit := a\<rparr>))"

definition base_rows :: "base_run_set \<Rightarrow> nat" where "base_rows br = bs_rows (br_audit br)"

definition timestamp_bytes :: "base_run_set \<Rightarrow> nat" where
  "timestamp_bytes br = replay_bytes_spooled (br_timestamp br)"

definition audit_bytes :: "base_run_set \<Rightarrow> nat" where "audit_bytes br = bytes_spooled (br_audit br)"

subsection \<open>The runs\<close>

function cut_runs :: "nat \<Rightarrow> txn list \<Rightarrow> txn list list" where
  "cut_runs target [] = []"
| "cut_runs target (t # ts) =
     (let (run, rest) = first_run target t ts in run # cut_runs target rest)"
  by pat_completeness auto
termination
proof (relation "measure (\<lambda>(_, rows). length rows)")
  fix target t ts x run rest
  assume "x = first_run target t ts" "(run, rest) = x"
  then show "((target, rest), target, t # ts) \<in> measure (\<lambda>(_, rows). length rows)"
    using first_run_rest [of target t ts run rest] by simp
qed simp

lemma audit_runs_batches:
  "audit_runs target rows (s, peak) =
     bind_result (append_batches (map (sort_key audit_key) (cut_runs target rows)) s)
       (\<lambda>s. Inr (s, fold max (map length (cut_runs target rows)) peak))"
proof (induction target rows arbitrary: s peak rule: cut_runs.induct)
  case (2 target t ts)
  obtain run rest where e: "first_run target t ts = (run, rest)" by fastforce
  show ?case using 2 [OF e [symmetric] refl]
    by (simp add: e Let_def max.commute split: sum.split add: bind_result_def)
qed simp

lemma concat_cut_runs: "concat (cut_runs target rows) = rows"
proof (induction target rows rule: cut_runs.induct)
  case (2 target t ts)
  obtain run rest where e: "first_run target t ts = (run, rest)" by fastforce
  then have "concat (cut_runs target rest) = rest" using 2 [OF e [symmetric] refl] by simp
  then show ?case using first_run_append [OF e] by (simp add: e Let_def)
qed simp

lemma extend_tie_separates:
  "extend_tie run ts = (run', rest) \<Longrightarrow> run \<noteq> [] \<Longrightarrow> sorted (map tx_time (run @ ts)) \<Longrightarrow>
     (\<forall>x \<in> set run'. \<forall>y \<in> set rest. tx_time x < tx_time y) \<and>
     length run' \<le> length run + length (filter (\<lambda>u. tx_time u = tx_time (last run)) ts)"
proof (induction run ts rule: extend_tie.induct)
  case (2 run t ts)
  show ?case
  proof (cases "tx_time (last run) = tx_time t")
    case True
    then show ?thesis using 2 by auto
  next
    case False
    have "tx_time x \<le> tx_time (last run)" if "x \<in> set run" for x
    proof -
      have "sorted (map tx_time (butlast run @ [last run]))" "x \<in> set (butlast run @ [last run])"
        using that 2(3,4) by (simp_all add: sorted_append)
      then show ?thesis unfolding map_append sorted_append by auto
    qed
    moreover have "tx_time (last run) < tx_time t" using 2(3,4) False by (simp add: sorted_append order.strict_iff_order)
    ultimately have "tx_time x < tx_time y" if "x \<in> set run" "y \<in> set (t # ts)" for x y
      using that 2(4) by (fastforce simp: sorted_append)
    then show ?thesis using 2(2) False by auto
  qed
qed simp

lemma sort_key_blocks:
  "\<forall>x \<in> set xs. \<forall>y \<in> set ys. k x < k y \<Longrightarrow> sort_key k (xs @ ys) = sort_key k xs @ sort_key k ys"
proof (rule properties_for_sort_key)
  assume less: "\<forall>x \<in> set xs. \<forall>y \<in> set ys. k x < k y"
  show "sorted (map k (sort_key k xs @ sort_key k ys))" using less by (auto simp: sorted_append intro: less_imp_le)
  show "filter (\<lambda>z. k x = k z) (sort_key k xs @ sort_key k ys) = filter (\<lambda>z. k x = k z) (xs @ ys)" for x
    by (simp add: eq_commute [of "k x"] sort_key_stable)
qed simp

lemma time_less_key: "tx_time a < tx_time b \<Longrightarrow> audit_key a < audit_key b"
  by (simp add: audit_key_def less_prod_def)

lemma sorted_runs:
  "sorted (map tx_time rows) \<Longrightarrow> concat (map (sort_key audit_key) (cut_runs target rows)) = sort_for_replay rows"
proof (induction target rows rule: cut_runs.induct)
  case (2 target t ts)
  obtain run rest where e: "first_run target t ts = (run, rest)" by fastforce
  have all: "run @ rest = t # ts" by (rule first_run_append [OF e])
  then have "sorted (map tx_time rest)" using 2(2) by (metis map_append sorted_append)
  then have "concat (map (sort_key audit_key) (cut_runs target rest)) = sort_for_replay rest"
    using 2(1) [OF e [symmetric] refl] by simp
  moreover have "\<forall>x \<in> set run. \<forall>y \<in> set rest. audit_key x < audit_key y"
    using extend_tie_separates [OF e [unfolded first_run_def]] 2(2) time_less_key by simp
  ultimately show ?case using sort_key_blocks [of run rest audit_key] all
    by (simp add: e Let_def sort_for_replay_def)
qed (simp add: sort_for_replay_def)

text \<open>The largest number of rows with one timestamp.\<close>

definition tie_size :: "txn list \<Rightarrow> nat" where
  "tie_size rows = Max (insert 0 ((\<lambda>t. length (filter (\<lambda>u. tx_time u = tx_time t) rows)) ` set rows))"

lemma tie_size_ge: "t \<in> set rows \<Longrightarrow> length (filter (\<lambda>u. tx_time u = tx_time t) rows) \<le> tie_size rows"
  by (simp add: tie_size_def)

lemma filter_length_append: "length (filter P (xs @ ys)) = length (filter P xs) + length (filter P ys)"
  by simp

lemma cut_run_length:
  assumes "sorted (map tx_time rows)" "set rows \<subseteq> set all" "\<And>P. length (filter P rows) \<le> length (filter P all)"
  shows "run \<in> set (cut_runs target rows) \<Longrightarrow> length run \<le> target + tie_size all"
  using assms
proof (induction target rows rule: cut_runs.induct)
  case (2 target t ts)
  obtain r rest where e: "first_run target t ts = (r, rest)" by fastforce
  let ?head = "t # take (target - 1) ts" and ?tail = "drop (target - 1) ts"
  have ht: "?head @ ?tail = t # ts" by simp
  have "length r \<le> length ?head + length (filter (\<lambda>u. tx_time u = tx_time (last ?head)) ?tail)"
    using extend_tie_separates [OF e [unfolded first_run_def]] 2(3) unfolding ht by blast
  moreover have "length ?head + length (filter (\<lambda>u. tx_time u = tx_time (last ?head)) ?tail) \<le> target + tie_size all"
  proof -
    let ?P = "\<lambda>u. tx_time u = tx_time (last ?head)"
    have "last ?head \<in> set ?head" by (rule last_in_set) simp
    then have m: "last ?head \<in> set (t # ts)" "last ?head \<in> set (filter ?P ?head)"
      by (simp_all only: set_ConsD ht [symmetric] set_append Un_iff set_filter mem_Collect_eq simp_thms)
    have l: "last ?head \<in> set all" "0 < length (filter ?P ?head)"
      by (rule subsetD [OF 2(4) m(1)], rule length_pos_if_in_set [OF m(2)])
    have "length (filter ?P ?head) + length (filter ?P ?tail) = length (filter ?P (t # ts))"
      by (subst ht [symmetric]) (rule filter_length_append [symmetric])
    also have "\<dots> \<le> tie_size all" using 2(5) tie_size_ge [OF l(1)] by (rule order_trans)
    finally have "Suc (length (filter ?P ?tail)) \<le> tie_size all" using l(2) by linarith
    moreover have "length ?head \<le> Suc target" by simp
    ultimately show ?thesis by linarith
  qed
  ultimately have first: "length r \<le> target + tie_size all" by linarith
  have all: "r @ rest = t # ts" by (rule first_run_append [OF e])
  have "sorted (map tx_time rest)" "set rest \<subseteq> set all" "length (filter P rest) \<le> length (filter P all)" for P
    using 2(3,4) 2(5) [of P] unfolding all [symmetric] by (simp_all add: sorted_append)
  then show ?case using 2(1) [OF e [symmetric] refl] 2(2) first by (auto simp: e Let_def)
qed simp

subsection \<open>Both views\<close>

lemma base_run_set_built:
  assumes "base_room room1 rows" "spool_fits room2 rows" "list_all row_storable rows" "0 < target" "sorted (map tx_time rows)"
  shows "\<exists>r br c br'. base_spooled room1 rows = Inr r \<and>
    base_run_set_new (Some (empty_file room1)) (Some (empty_file room2)) rows target = Inr br \<and> br_timestamp br = r \<and>
    br_peak br = fold max (map length (cut_runs target rows)) 0 \<and> open_audit_cursor br = Inr (c, br') \<and>
    spool_run room2 (map (sort_key audit_key) (cut_runs target rows)) = Inr (c, br_audit br') \<and>
    base_rows br = length rows \<and> timestamp_bytes br = 37 * length rows \<and> audit_bytes br = 66 * length rows"
proof -
  obtain r where r: "base_spooled room1 rows = Inr r" "ry_rows r = length rows"
    using base_spooled_holds [OF assms(1,3)] by blast
  let ?batches = "map (sort_key audit_key) (cut_runs target rows)"
  have srt: "concat ?batches = sort_for_replay rows" by (rule sorted_runs [OF assms(5)])
  then have len: "length (concat ?batches) = length rows" by (simp add: sort_for_replay_def)
  have fits: "spool_fits room2 (concat ?batches)" using assms(2) len by (simp add: spool_fits_def)
  obtain c s where c: "spool_run room2 ?batches = Inr (c, s)" "bs_rows s = length rows"
    using spool_run_holds [of room2 ?batches] fits len by auto
  obtain a0 where a0: "spool_temporary (Some (empty_file room2)) = Inr a0" using spool_start_holds by blast
  obtain a1 where a1: "append_batches ?batches a0 = Inr a1"
    using c(1) a0 by (auto simp: spool_run_def split: sum.splits)
  obtain a2 where a2: "spool_finish a1 = Inr a2" "open_cursor a2 = Inr (c, s)"
    using c(1) a0 a1 by (auto simp: spool_run_def split: sum.splits)
  obtain r0 where r0: "replay_spool_new (Some (empty_file room1)) = Inr r0" by (simp add: replay_spool_new_def)
  obtain r1 where r1: "spool_rows rows r0 = Inr r1" "seal_spool r1 = Inr r"
    using r(1) r0 by (auto simp: base_spooled_def bind_result_Inr)
  let ?br = "\<lparr>br_timestamp = r, br_audit = a2, br_peak = fold max (map length (cut_runs target rows)) 0\<rparr>"
  have "base_run_set_new (Some (empty_file room1)) (Some (empty_file room2)) rows target = Inr ?br"
    using r0 r1 a0 a1 a2(1) assms(4,5) by (simp add: base_run_set_new_def audit_runs_batches)
  moreover have "bs_rows a2 = length rows" using a2(2) c(2) by (auto simp: open_cursor_def split: if_splits sum.splits)
  ultimately show ?thesis using r c a2(2)
    by (intro exI [of _ r] exI [of _ ?br] exI [of _ c] exI [of _ "?br\<lparr>br_audit := s\<rparr>"])
      (simp add: open_audit_cursor_def base_rows_def timestamp_bytes_def replay_bytes_spooled_def replay_record_bytes_def
        audit_bytes_def bytes_spooled_def record_bytes_def)
qed

end
