(* ===== verification/ScreeningClaims.thy ===== *)
theory ScreeningClaims
  imports BaseRuns DriverDemo
begin

text \<open>The properties of the two forms of the base stream.\<close>

subsection \<open>The screening replay\<close>

lemma resident_bounds_exact:
  "included_by bs (drop idx rows) l = (n, l', evs) \<Longrightarrow>
     resident.post_bounds bs rows (Some l) idx = Inr (idx + n, rows, Some l', evs)"
proof (induction bs arbitrary: idx l n l' evs)
  case (Cons b bs)
  obtain n1 l1 e1 where l1: "post_included b (drop idx rows) l = (n1, l1, e1)" by (metis prod_cases3)
  obtain n2 l2 e2 where l2: "included_by bs (drop n1 (drop idx rows)) l1 = (n2, l2, e2)" by (metis prod_cases3)
  then have "resident.post_bounds bs rows (Some l1) (idx + n1) = Inr (idx + n1 + n2, rows, Some l2, e2)"
    using Cons.IH [of "idx + n1" l1] by (simp add: add.commute)
  moreover have "span_post rows (Some l) idx b = Inr (idx + n1, rows, Some l1, e1)"
    using l1 by (simp add: span_post_def span_post_through_def advance_book_through_def)
  ultimately show ?case using Cons.prems l1 l2 by (auto simp: drop_drop add.commute)
qed simp

lemma disk_bounds_exact:
  "base_holds s rows \<Longrightarrow> included_by bs rows l = (n, l', evs) \<Longrightarrow>
     \<exists>s'. on_disk.post_bounds bs s (Some (l\<lparr>lg_loc := x\<rparr>)) (ry_consumed s) =
       Inr (ry_consumed s + n, s', Some (l'\<lparr>lg_loc := x\<rparr>), map untimed_event evs)"
proof (induction bs arbitrary: s rows l n l' evs)
  case (Cons b bs)
  obtain n1 l1 e1 where l1: "post_included b rows l = (n1, l1, e1)" by (metis prod_cases3)
  obtain n2 l2 e2 where l2: "included_by bs (drop n1 rows) l1 = (n2, l2, e2)" by (metis prod_cases3)
  from post_spooled_holds [OF Cons.prems(1) l1, of x] obtain s1 where s1:
    "post_spooled b s (l\<lparr>lg_loc := x\<rparr>) = Inr (s1, l1\<lparr>lg_loc := x\<rparr>, map untimed_event e1)"
    "base_holds s1 (drop n1 rows)" "ry_consumed s1 = ry_consumed s + n1" by blast
  have "spool_post_through s (Some (l\<lparr>lg_loc := x\<rparr>)) (ry_consumed s) b =
      Inr (ry_consumed s1, s1, Some (l1\<lparr>lg_loc := x\<rparr>), map untimed_event e1)"
    using s1(1) base_holds_sealed [OF Cons.prems(1)] by (simp add: spool_post_through_def)
  then show ?case using Cons.IH [OF s1(2) l2] Cons.prems(2) l1 l2 s1(3) by auto
qed simp

text \<open>C10: the base stream read back from disk drives the screening ledger like the resident one: for any
sequence of day bounds it stops at the same rows and leaves the same ledger, except that it posts without timestamps, so
its events carry none and its interest tracker stays as it was.\<close>

theorem disk_replay_is_resident_replay:
  assumes "37 * length rows \<le> room" "list_all row_storable rows"
  shows "\<exists>s s' n l' evs. base_spooled room rows = Inr s \<and>
    resident.post_bounds bs rows (Some l) 0 = Inr (n, rows, Some l', evs) \<and>
    on_disk.post_bounds bs s (Some l) 0 = Inr (n, s', Some (l'\<lparr>lg_loc := lg_loc l\<rparr>), map untimed_event evs)"
proof -
  have "base_room room rows" using assms(1) by (simp add: base_room_def replay_record_bytes_def mult.commute)
  then obtain s where s: "base_spooled room rows = Inr s" "base_holds s rows" "ry_consumed s = 0"
    using base_spooled_holds assms(2) by blast
  obtain n l' evs where i: "included_by bs rows l = (n, l', evs)" by (metis prod_cases3)
  have "resident.post_bounds bs rows (Some l) 0 = Inr (n, rows, Some l', evs)"
    using resident_bounds_exact [of bs 0 rows l] i by simp
  moreover obtain s' where "on_disk.post_bounds bs s (Some l) 0 =
      Inr (n, s', Some (l'\<lparr>lg_loc := lg_loc l\<rparr>), map untimed_event evs)"
    using disk_bounds_exact [OF s(2) i, of "lg_loc l"] s(3) by auto
  ultimately show ?thesis using s(1) by blast
qed

lemma small_row_storable: "- (2 ^ 63) \<le> ts \<Longrightarrow> ts < 2 ^ 63 \<Longrightarrow> row_storable (small_row ts)"
  by (simp add: row_storable_def small_row_def representable_def)

definition small_bounds :: "time_bound list" where
  "small_bounds = [\<lparr>tb_until = 150, tb_inclusive = False\<rparr>]"

lemma small_posted:
  "resident.post_bounds small_bounds [small_row 100, small_row 200] (Some small_ledger) 0 =
     Inr (1, [small_row 100, small_row 200], Some (small_ledger\<lparr>lg_cash := [Fin 105, Fin 35]\<rparr>), [])"
proof -
  have "included_by small_bounds (drop 0 [small_row 100, small_row 200]) small_ledger =
      (1, small_ledger\<lparr>lg_cash := [Fin 105, Fin 35]\<rparr>, [])"
    by (simp add: small_bounds_def bound_includes_def small_row_time small_transfer)
  from resident_bounds_exact [OF this] show ?thesis by simp
qed

lemma disk_replay_is_resident_replay_witness:
  "\<exists>s s'. base_spooled 100 [small_row 100, small_row 200] = Inr s \<and>
    on_disk.post_bounds small_bounds s (Some small_ledger) 0 =
      Inr (1, s', Some (small_ledger\<lparr>lg_cash := [Fin 105, Fin 35]\<rparr>), [])"
proof -
  obtain s s' n l' evs where "base_spooled 100 [small_row 100, small_row 200] = Inr s"
    "resident.post_bounds small_bounds [small_row 100, small_row 200] (Some small_ledger) 0 =
      Inr (n, [small_row 100, small_row 200], Some l', evs)"
    "on_disk.post_bounds small_bounds s (Some small_ledger) 0 =
      Inr (n, s', Some (l'\<lparr>lg_loc := lg_loc small_ledger\<rparr>), map untimed_event evs)"
    using disk_replay_is_resident_replay [of "[small_row 100, small_row 200]" 100 small_bounds small_ledger] small_row_storable
    by auto
  then show ?thesis unfolding small_posted by auto
qed

text \<open>With a credit line the two ledgers differ: the resident replay starts the borrower's interest clock at the
row's instant, the replay from disk never starts it.\<close>

definition line_ledger :: ledger where
  "line_ledger = small_ledger\<lparr>lg_loc := loc_enable 1 (Fin (1/5)) 15 (lg_loc small_ledger)\<rparr>"

definition line_after :: ledger where
  "line_after = line_ledger\<lparr>lg_loc := (lg_loc line_ledger)\<lparr>tr_last_update := [0, 100]\<rparr>\<rparr>"

lemma line_touch: "loc_touch 1 100 line_ledger = line_after" "loc_touch 0 ts line_after = line_after"
  by (simp_all add: loc_touch_def loc_update_def line_after_def line_ledger_def loc_enable_def schedule_billing_def loc_enabled_def
      small_ledger_def loc_initialize_def pq_defs numeral_2_eq_2 Let_def)

lemma line_transfer:
  "transfer_at (posting_of (small_row 100)) line_ledger = (line_after\<lparr>lg_cash := [Fin 105, Fin 35]\<rparr>, None, [])"
proof -
  have f: "find_account line_ledger demo_bob = 1" "find_account line_ledger demo_alice = 0"
    "index_valid line_ledger 1" "index_valid line_after 0" "1 \<noteq> invalid_index" "0 \<noteq> invalid_index"
    by (simp_all add: find_account_def line_after_def line_ledger_def small_ledger_def demo_fields index_valid_def invalid_index_def)
  have a: "apply_transfer \<lparr>po_src = 1, po_dst = 0, po_amount = Fin 5, po_channel = tag_of (Legit LegP2p), po_time = 100\<rparr> line_after
    = (line_after\<lparr>lg_cash := [Fin 105, Fin 35]\<rparr>, None, Fin 40)"
    using apply_with_loc [of 100 "\<lparr>po_src = 1, po_dst = 0, po_amount = Fin 5, po_channel = tag_of (Legit LegP2p), po_time = 100\<rparr>"
        "lg_loc line_after" small_ledger] small_apply [of 100]
    by (simp add: line_after_def line_ledger_def del: tag_of.simps)
  have t: "transfer_indexed \<lparr>po_src = 1, po_dst = 0, po_amount = Fin 5, po_channel = tag_of (Legit LegP2p), po_time = 100\<rparr> line_ledger
      = (line_after\<lparr>lg_cash := [Fin 105, Fin 35]\<rparr>, None, [])"
    by (simp add: f [simplified] transfer_indexed_def line_touch [unfolded One_nat_def] a [unfolded One_nat_def] accepted_def del: tag_of.simps)
      (simp add: line_after_def line_ledger_def small_ledger_def assess_overdraft_fee_def)
  have p: "posting_of (small_row 100) = \<lparr>kp_source = demo_bob, kp_dest = demo_alice, kp_amount = Fin 5, kp_channel = tag_of (Legit LegP2p), kp_time = 100\<rparr>"
    by (simp add: posting_of_def small_row_def)
  show ?thesis
    using f t unfolding p by (simp add: transfer_at_def demo_fields boundary_ok_def booked_boundary_def del: tag_of.simps)
qed

lemma replay_from_disk_stops_the_interest_clock:
  "\<exists>s s' l k. base_spooled 100 [small_row 100] = Inr s \<and>
    resident.post_bounds small_bounds [small_row 100] (Some line_ledger) 0 = Inr (1, [small_row 100], Some l, []) \<and>
    on_disk.post_bounds small_bounds s (Some line_ledger) 0 = Inr (1, s', Some k, []) \<and>
    tr_last_update (lg_loc l) = [0, 100] \<and> tr_last_update (lg_loc k) = [0, 0]"
proof -
  have i: "included_by small_bounds (drop 0 [small_row 100]) line_ledger =
      (1, line_after\<lparr>lg_cash := [Fin 105, Fin 35]\<rparr>, [])"
    by (simp add: small_bounds_def bound_includes_def small_row_time line_transfer)
  obtain s where s: "base_spooled 100 [small_row 100] = Inr s" "base_holds s [small_row 100]" "ry_consumed s = 0"
    using base_spooled_holds [of 100 "[small_row 100]"] small_row_storable by (auto simp: base_room_def replay_record_bytes_def)
  have same: "line_ledger\<lparr>lg_loc := lg_loc line_ledger\<rparr> = line_ledger" by simp
  obtain s' where d: "on_disk.post_bounds small_bounds s (Some line_ledger) 0 =
      Inr (1, s', Some ((line_after\<lparr>lg_cash := [Fin 105, Fin 35]\<rparr>)\<lparr>lg_loc := lg_loc line_ledger\<rparr>), [])"
    using disk_bounds_exact [OF s(2) i [unfolded drop0], of "lg_loc line_ledger"] s(3) by (auto simp: same)
  have "tr_last_update (lg_loc line_ledger) = [0, 0]" "tr_last_update (lg_loc line_after) = [0, 100]"
    by (simp_all add: line_after_def line_ledger_def small_ledger_def loc_enable_def schedule_billing_def loc_initialize_def numeral_2_eq_2)
  then show ?thesis using resident_bounds_exact [OF i] s(1) d by auto
qed

subsection \<open>The bounded runs\<close>

text \<open>C11: whatever the target, the audit view written in bounded runs is one sort of the whole base stream: its
cursor hands out exactly the sorted rows for any ascending bounds, both views hold every row, and no run is longer than
the target and the largest group of rows with one timestamp.\<close>

theorem base_runs_are_one_sort:
  assumes "sorted (map tx_time rows)" "0 < target" "list_all row_storable rows" "37 * length rows \<le> room1"
    "16 + 66 * length rows \<le> room2" "ascending_from None bs"
  shows "\<exists>br c br' c'. base_run_set_new (Some (empty_file room1)) (Some (empty_file room2)) rows target = Inr br \<and>
    open_audit_cursor br = Inr (c, br') \<and> emit_bounds spool_emit bs c = Inr (cut_at bs (sort_for_replay rows), c') \<and>
    disk_left (br_timestamp br) = map replay_view rows \<and> base_rows br = length rows \<and>
    br_peak br \<le> target + tie_size rows"
proof -
  have room: "base_room room1 rows" "spool_fits room2 rows"
    using assms(4,5) by (simp_all add: base_room_def replay_record_bytes_def spool_fits_def header_bytes_def spool_magic_def
        record_bytes_def mult.commute)
  let ?batches = "map (sort_key audit_key) (cut_runs target rows)"
  obtain r br c br' where b: "base_spooled room1 rows = Inr r"
    "base_run_set_new (Some (empty_file room1)) (Some (empty_file room2)) rows target = Inr br" "br_timestamp br = r"
    "br_peak br = fold max (map length (cut_runs target rows)) 0" "open_audit_cursor br = Inr (c, br')"
    "spool_run room2 ?batches = Inr (c, br_audit br')" "base_rows br = length rows"
    using base_run_set_built [OF room assms(3,2,1)] by blast
  have srt: "concat ?batches = sort_for_replay rows" by (rule sorted_runs [OF assms(1)])
  have fits: "spool_fits room2 (concat ?batches)" "list_all row_storable (concat ?batches)"
    using room(2) assms(3) by (simp_all add: srt sort_for_replay_def spool_fits_def list_all_iff)
  obtain c0 s0 where c0: "spool_run room2 ?batches = Inr (c0, s0)" "cursor_reads c0 (concat ?batches)" "bc_pending c0 = None"
    "bc_last c0 = None" "spool_bound c0 = None"
    by (rule spool_run_reads [OF fits])
  have "is_replay_sorted (sort_for_replay rows)" by (rule sort_for_replay_sorted)
  then have "cursor_holds c0 (sort_for_replay rows)" using c0 unfolding srt by (simp add: cursor_holds_def after_last_def)
  then have ok: "spool_ok c0" "spool_left c0 = sort_for_replay rows"
    using c0(3) by (auto simp: spool_ok_def spool_left_holds spool_pending_def)
  then obtain c' where e: "emit_bounds spool_emit bs c = Inr (cut_at bs (sort_for_replay rows), c')"
    using spooled.emit_bounds_cut [OF ok(1), of bs] assms(6) c0(1,5) b(6) ok(2) by (auto split: if_splits)
  have "fold max ns k \<le> m" if "\<forall>n \<in> set ns. n \<le> m" "k \<le> m" for ns and k m :: nat
    using that by (induction ns arbitrary: k) auto
  moreover have "\<forall>n \<in> set (map length (cut_runs target rows)). n \<le> target + tie_size rows"
    using cut_run_length [OF assms(1), of rows] by auto
  ultimately have "br_peak br \<le> target + tie_size rows" unfolding b(4) by blast
  moreover obtain s where "base_spooled room1 rows = Inr s" "base_holds s rows" using base_spooled_holds [OF room(1) assms(3)] by blast
  then have "disk_left (br_timestamp br) = map replay_view rows" using b(1,3) by (simp add: disk_left_holds)
  ultimately show ?thesis using b(2,5,7) e by blast
qed

lemma base_demo_sorted:
  "sort_for_replay [spool_demo_row 100 7, spool_demo_row 100 5, spool_demo_row 200 9] =
     [spool_demo_row 100 5, spool_demo_row 100 7, spool_demo_row 200 9]"
  by (simp add: sort_for_replay_def spool_demo_row_def audit_key_def pair_less less_f64_def less_eq_f64_def mk_f64_def)

lemma base_runs_are_one_sort_witness:
  "\<exists>br c br' c'. base_run_set_new (Some (empty_file 1000)) (Some (empty_file 1000))
      [spool_demo_row 100 7, spool_demo_row 100 5, spool_demo_row 200 9] 1 = Inr br \<and>
    open_audit_cursor br = Inr (c, br') \<and>
    emit_bounds spool_emit [150] c = Inr ([[spool_demo_row 100 5, spool_demo_row 100 7]], c')"
proof -
  have "cut_at [150] [spool_demo_row 100 5, spool_demo_row 100 7, spool_demo_row 200 9] =
      [[spool_demo_row 100 5, spool_demo_row 100 7]]"
    by (simp add: spool_demo_row_def rows_before_def)
  moreover have "sorted (map tx_time [spool_demo_row 100 7, spool_demo_row 100 5, spool_demo_row 200 9])"
    by (simp add: spool_demo_row_def)
  ultimately show ?thesis
    using base_runs_are_one_sort [of "[spool_demo_row 100 7, spool_demo_row 100 5, spool_demo_row 200 9]" 1 1000 1000 "[150]"]
    by (auto simp: base_demo_sorted spool_demo_storable)
qed

end
