(* ===== verification/Workers.thy ===== *)
theory Workers
  imports Prelude
begin

text \<open>
  The worker pool of the spending simulator (\<open>simulator/thread_runner.hpp\<close>): the split of the
  spenders over the threads, and the pool as a transition system. A step is a section under the
  mutex, the execution of a body outside it, or a join; \<open>std::condition_variable::wait\<close> with a
  predicate is a step enabled when the predicate holds. A worker is known by its position, which is
  its thread index less one. The last two fields are history: which bodies ran on which thread, and
  which bodies were submitted for how many threads.
\<close>

subsection \<open>The split\<close>

definition partition_range :: "nat \<Rightarrow> nat \<Rightarrow> nat \<Rightarrow> nat \<times> nat" where
  "partition_range amount thread_count thread_idx =
     (if thread_count = 0 then (0, 0)
      else
        let base = amount div thread_count; rem = amount mod thread_count;
            begin = thread_idx * base + (if thread_idx < rem then thread_idx else rem);
            extra = (if thread_idx < rem then 1 else 0)
        in (begin, begin + base + extra))"

subsection \<open>The pool\<close>

text \<open>A parked worker has seen a generation; a loaded one has read \<open>body_\<close>; a crashed one called a null body.\<close>

datatype 'b worker = Parked u64 | Loaded "'b option" u64 | Ran u64 | Exited | Crashed

text \<open>Where the owner is: outside the pool, before its own share, waiting for the workers, or joining them.\<close>

datatype 'b owner = Idle | Announced 'b | Waiting | Joining

record 'b pool =
  wp_workers :: "'b worker list"
  wp_body :: "'b option"
  wp_threads :: nat
  wp_remaining :: u32
  wp_generation :: u64
  wp_stop :: bool
  wp_owner :: "'b owner"
  wp_log :: "('b \<times> nat) list"
  wp_runs :: "('b \<times> nat) list"

definition pool_new :: "'b pool" where
  "pool_new = \<lparr>wp_workers = [], wp_body = None, wp_threads = 1, wp_remaining = 0, wp_generation = 0,
     wp_stop = False, wp_owner = Idle, wp_log = [], wp_runs = []\<rparr>"

text \<open>\<open>start\<close> after its call of \<open>stop\<close>.\<close>

definition pool_start :: "nat \<Rightarrow> 'b pool \<Rightarrow> 'b pool" where
  "pool_start n p =
     (let p = p\<lparr>wp_threads := (if n = 0 then 1 else n)\<rparr>
      in if wp_threads p \<le> 1 then p
         else p\<lparr>wp_stop := False, wp_workers := replicate (wp_threads p - 1) (Parked 0)\<rparr>)"

definition pool_run :: "'b \<Rightarrow> 'b pool \<Rightarrow> 'b pool" where
  "pool_run b p =
     (if wp_threads p \<le> 1 \<or> wp_workers p = []
      then p\<lparr>wp_log := wp_log p @ [(b, 0)], wp_runs := wp_runs p @ [(b, 1)]\<rparr>
      else p\<lparr>wp_body := Some b, wp_remaining := of_nat (wp_threads p - 1), wp_generation := wp_generation p + 1,
             wp_owner := Announced b, wp_runs := wp_runs p @ [(b, wp_threads p)]\<rparr>)"

definition pool_own :: "'b \<Rightarrow> 'b pool \<Rightarrow> 'b pool" where
  "pool_own b p = p\<lparr>wp_log := wp_log p @ [(b, 0)], wp_owner := Waiting\<rparr>"

definition pool_release :: "'b pool \<Rightarrow> 'b pool" where
  "pool_release p = p\<lparr>wp_body := None, wp_owner := Idle\<rparr>"

definition pool_stop :: "'b pool \<Rightarrow> 'b pool" where
  "pool_stop p =
     (if wp_workers p \<noteq> []
      then p\<lparr>wp_stop := True, wp_generation := wp_generation p + 1, wp_owner := Joining\<rparr>
      else p\<lparr>wp_stop := False\<rparr>)"

definition pool_join :: "'b pool \<Rightarrow> 'b pool" where
  "pool_join p = p\<lparr>wp_workers := [], wp_stop := False, wp_owner := Idle\<rparr>"

definition set_worker :: "nat \<Rightarrow> 'b worker \<Rightarrow> 'b pool \<Rightarrow> 'b pool" where
  "set_worker t w p = p\<lparr>wp_workers := (wp_workers p)[t := w]\<rparr>"

text \<open>The predicate of the workers' wait, and what they do once it holds.\<close>

definition wakes :: "u64 \<Rightarrow> 'b pool \<Rightarrow> bool" where
  "wakes seen p \<longleftrightarrow> wp_stop p \<or> wp_generation p \<noteq> seen"

definition pool_wake :: "nat \<Rightarrow> 'b pool \<Rightarrow> 'b pool" where
  "pool_wake t p = set_worker t (if wp_stop p then Exited else Loaded (wp_body p) (wp_generation p)) p"

definition pool_exec :: "nat \<Rightarrow> 'b option \<Rightarrow> u64 \<Rightarrow> 'b pool \<Rightarrow> 'b pool" where
  "pool_exec t job seen p =
     (case job of
        None \<Rightarrow> set_worker t Crashed p
      | Some b \<Rightarrow> (set_worker t (Ran seen) p)\<lparr>wp_log := wp_log p @ [(b, t + 1)]\<rparr>)"

definition pool_retire :: "nat \<Rightarrow> u64 \<Rightarrow> 'b pool \<Rightarrow> 'b pool" where
  "pool_retire t seen p = (set_worker t (Parked seen) p)\<lparr>wp_remaining := wp_remaining p - 1\<rparr>"

inductive pool_step :: "'b pool \<Rightarrow> 'b pool \<Rightarrow> bool" where
  call_run: "wp_owner p = Idle \<Longrightarrow> pool_step p (pool_run b p)"
| call_stop: "wp_owner p = Idle \<Longrightarrow> pool_step p (pool_stop p)"
| own: "wp_owner p = Announced b \<Longrightarrow> pool_step p (pool_own b p)"
| release: "wp_owner p = Waiting \<Longrightarrow> wp_remaining p = 0 \<Longrightarrow> pool_step p (pool_release p)"
| join: "wp_owner p = Joining \<Longrightarrow> \<forall>w \<in> set (wp_workers p). w = Exited \<Longrightarrow> pool_step p (pool_join p)"
| wake: "t < length (wp_workers p) \<Longrightarrow> wp_workers p ! t = Parked seen \<Longrightarrow> wakes seen p \<Longrightarrow> pool_step p (pool_wake t p)"
| exec: "t < length (wp_workers p) \<Longrightarrow> wp_workers p ! t = Loaded job seen \<Longrightarrow> pool_step p (pool_exec t job seen p)"
| retire: "t < length (wp_workers p) \<Longrightarrow> wp_workers p ! t = Ran seen \<Longrightarrow> pool_step p (pool_retire t seen p)"

inductive_cases pool_stepE: "pool_step p q"

subsection \<open>The invariant\<close>

definition owed :: "('b \<times> nat) list \<Rightarrow> ('b \<times> nat) multiset" where
  "owed runs = sum_list (map (\<lambda>(b, k). mset (map (Pair b) [0..<k])) runs)"

lemma owed_simps [simp]: "owed [] = {#}" "owed (rs @ [(b, k)]) = owed rs + mset (map (Pair b) [0..<k])"
  by (simp_all add: owed_def)

text \<open>The workers that have executed the current body.\<close>

definition executed :: "'b worker list \<Rightarrow> u64 \<Rightarrow> nat set" where
  "executed ws gen = {t. t < length ws \<and> ws ! t \<in> {Ran gen, Parked gen}}"

definition busy :: "'b worker list \<Rightarrow> u64 \<Rightarrow> nat set" where
  "busy ws gen = {t. t < length ws \<and> ws ! t \<noteq> Parked gen}"

definition running_inv :: "nat \<Rightarrow> 'b \<Rightarrow> bool \<Rightarrow> 'b pool \<Rightarrow> bool" where
  "running_inv n b own_done p \<longleftrightarrow>
     length (wp_workers p) = n - 1 \<and> wp_body p = Some b \<and> \<not> wp_stop p \<and>
     (\<forall>w \<in> set (wp_workers p). w \<in> {Parked (wp_generation p - 1), Loaded (Some b) (wp_generation p), Ran (wp_generation p),
        Parked (wp_generation p)}) \<and>
     unat (wp_remaining p) = card (busy (wp_workers p) (wp_generation p)) \<and>
     (\<exists>rs. wp_runs p = rs @ [(b, n)] \<and> (\<forall>(c, k) \<in> set rs. k = n) \<and>
       mset (wp_log p) = owed rs + (if own_done then {#(b, 0)#} else {#}) +
         image_mset (\<lambda>t. (b, Suc t)) (mset_set (executed (wp_workers p) (wp_generation p))))"

definition pool_inv :: "nat \<Rightarrow> 'b pool \<Rightarrow> bool" where
  "pool_inv n p \<longleftrightarrow> wp_threads p = n \<and>
     (case wp_owner p of
        Idle \<Rightarrow> wp_body p = None \<and> \<not> wp_stop p \<and> mset (wp_log p) = owed (wp_runs p) \<and>
          (wp_workers p = [] \<or> length (wp_workers p) = n - 1 \<and>
            (\<forall>w \<in> set (wp_workers p). w = Parked (wp_generation p)) \<and> (\<forall>(c, k) \<in> set (wp_runs p). k = n))
      | Announced b \<Rightarrow> running_inv n b False p
      | Waiting \<Rightarrow> (\<exists>b. running_inv n b True p)
      | Joining \<Rightarrow> wp_stop p \<and> wp_body p = None \<and> mset (wp_log p) = owed (wp_runs p) \<and> length (wp_workers p) = n - 1 \<and>
          (\<forall>w \<in> set (wp_workers p). w \<in> {Parked (wp_generation p - 1), Exited}))"

lemma words_apart [simp]: "g - 1 \<noteq> (g :: u64)" "g \<noteq> g - 1" "g + 1 \<noteq> g" "g \<noteq> g + 1"
  by simp_all

lemma executed_update:
  assumes "t < length ws" "ws ! t \<notin> {Ran g, Parked g}"
  shows "w \<notin> {Ran g, Parked g} \<Longrightarrow> executed (ws[t := w]) g = executed ws g"
    "w \<in> {Ran g, Parked g} \<Longrightarrow> executed (ws[t := w]) g = insert t (executed ws g)" "t \<notin> executed ws g"
  using assms by (auto simp: executed_def nth_list_update split: if_splits)

lemma executed_retire: "t < length ws \<Longrightarrow> ws ! t = Ran g \<Longrightarrow> executed (ws[t := Parked g]) g = executed ws g"
  by (auto simp: executed_def nth_list_update split: if_splits)

lemma finite_work [simp]: "finite (executed ws g)" "finite (busy ws g)"
  by (simp_all add: executed_def busy_def)

lemma busy_keep: "ws ! t \<noteq> Parked g \<Longrightarrow> w \<noteq> Parked g \<Longrightarrow> t < length ws \<Longrightarrow> busy (ws[t := w]) g = busy ws g"
  by (auto simp: busy_def nth_list_update split: if_splits)

lemma busy_retire:
  "t < length ws \<Longrightarrow> ws ! t = Ran g \<Longrightarrow> busy ws g = insert t (busy (ws[t := Parked g]) g) \<and> t \<notin> busy (ws[t := Parked g]) g"
  by (auto simp: busy_def nth_list_update split: if_splits)

lemma set_update_all: "\<forall>w \<in> set ws. P w \<Longrightarrow> P v \<Longrightarrow> \<forall>w \<in> set (ws[t := v]). P w"
  using set_update_subset_insert [of ws t v] by blast

lemma announce_inv:
  assumes "pool_inv n p" "wp_owner p = Idle" "1 < n" "n < 2 ^ 32" "wp_workers p \<noteq> []"
  shows "pool_inv n (pool_run b p)"
proof -
  let ?g = "wp_generation p + 1"
  have ws: "length (wp_workers p) = n - 1" "\<forall>w \<in> set (wp_workers p). w = Parked (wp_generation p)" "wp_threads p = n"
    using assms by (auto simp: pool_inv_def)
  have nth: "wp_workers p ! t = Parked (wp_generation p)" if "t < n - 1" for t
    using ws(1,2) that by (metis nth_mem)
  have "busy (wp_workers p) ?g = {..<n - 1}" "executed (wp_workers p) ?g = {}"
    using nth ws(1) by (auto simp: busy_def executed_def)
  moreover have "unat (of_nat (n - 1) :: u32) = n - 1" using assms(4) by (simp add: unat_of_nat)
  ultimately show ?thesis using assms ws
    by (auto simp: pool_run_def pool_inv_def running_inv_def intro!: exI [of _ "wp_runs p"])
qed

lemma own_inv:
  assumes "running_inv n b False p"
  shows "running_inv n b True (pool_own b p)"
  using assms by (auto simp: running_inv_def pool_own_def)

lemma owed_run:
  assumes "1 < n" "executed ws g = {..<n - 1}"
  shows "{#(b, 0)#} + image_mset (\<lambda>t. (b, Suc t)) (mset_set (executed ws g)) = mset (map (Pair b) [0..<n])"
proof -
  have "[0..<n] = 0 # map Suc [0..<n - 1]" using assms(1) by (simp add: upt_rec [of 0 n] map_Suc_upt)
  then have "mset (map (Pair b) [0..<n]) = {#(b, 0)#} + image_mset (\<lambda>t. (b, Suc t)) (mset [0..<n - 1])"
    by (simp add: comp_def)
  moreover have "mset_set {..<n - 1} = mset [0..<n - 1]" by (simp add: lessThan_atLeast0)
  ultimately show ?thesis using assms(2) by simp
qed

lemma release_inv:
  assumes "pool_inv n p" "wp_owner p = Waiting" "wp_remaining p = 0" "1 < n"
  shows "pool_inv n (pool_release p)"
proof -
  obtain b rs where i: "running_inv n b True p" "wp_runs p = rs @ [(b, n)]" "\<forall>(c, k) \<in> set rs. k = n"
    "mset (wp_log p) = owed rs + {#(b, 0)#} + image_mset (\<lambda>t. (b, Suc t)) (mset_set (executed (wp_workers p) (wp_generation p)))"
    "wp_threads p = n"
    using assms(1,2) by (auto simp: pool_inv_def running_inv_def)
  have "busy (wp_workers p) (wp_generation p) = {}"
    using i(1) assms(3) by (simp add: running_inv_def card_eq_0_iff)
  then have all: "\<forall>t < length (wp_workers p). wp_workers p ! t = Parked (wp_generation p)" by (auto simp: busy_def)
  then have "executed (wp_workers p) (wp_generation p) = {..<n - 1}" using i(1) by (auto simp: executed_def running_inv_def)
  then have "mset (wp_log p) = owed (wp_runs p)" using i(2,4) owed_run [OF assms(4), of "wp_workers p" "wp_generation p" b]
    by (simp add: add.assoc)
  moreover have "\<forall>w \<in> set (wp_workers p). w = Parked (wp_generation p)" using all by (metis in_set_conv_nth)
  ultimately show ?thesis using i by (auto simp: pool_inv_def pool_release_def running_inv_def)
qed

lemma worker_step_inv:
  assumes "running_inv n b own_done p" "t < length (wp_workers p)"
  shows "wp_workers p ! t = Parked seen \<Longrightarrow> wakes seen p \<Longrightarrow> running_inv n b own_done (pool_wake t p)"
    "wp_workers p ! t = Loaded job seen \<Longrightarrow> running_inv n b own_done (pool_exec t job seen p)"
    "wp_workers p ! t = Ran seen \<Longrightarrow> running_inv n b own_done (pool_retire t seen p)"
proof -
  let ?g = "wp_generation p" and ?ws = "wp_workers p"
  have mem: "?ws ! t \<in> {Parked (?g - 1), Loaded (Some b) ?g, Ran ?g, Parked ?g}"
    using assms by (auto simp: running_inv_def)
  have stop: "\<not> wp_stop p" "wp_body p = Some b" using assms(1) by (auto simp: running_inv_def)
  { assume w: "?ws ! t = Parked seen" "wakes seen p"
    then have seen: "seen = ?g - 1" using mem stop by (auto simp: wakes_def)
    have "pool_wake t p = p\<lparr>wp_workers := ?ws[t := Loaded (Some b) ?g]\<rparr>"
      using stop by (simp add: pool_wake_def set_worker_def)
    moreover have "busy (?ws[t := Loaded (Some b) ?g]) ?g = busy ?ws ?g"
      using assms(2) w(1) seen by (intro busy_keep) auto
    moreover have "executed (?ws[t := Loaded (Some b) ?g]) ?g = executed ?ws ?g"
      using assms(2) w(1) seen by (intro executed_update(1)) auto
    ultimately show "running_inv n b own_done (pool_wake t p)"
      using assms(1) set_update_all [of ?ws "\<lambda>w. w \<in> {Parked (?g - 1), Loaded (Some b) ?g, Ran ?g, Parked ?g}" "Loaded (Some b) ?g" t]
      by (simp add: running_inv_def) }
  { assume w: "?ws ! t = Loaded job seen"
    then have seen: "seen = ?g" "job = Some b" using mem by auto
    have "pool_exec t job seen p = p\<lparr>wp_workers := ?ws[t := Ran ?g], wp_log := wp_log p @ [(b, Suc t)]\<rparr>"
      using seen by (simp add: pool_exec_def set_worker_def)
    moreover have "busy (?ws[t := Ran ?g]) ?g = busy ?ws ?g" using assms(2) w by (intro busy_keep) auto
    moreover have "executed (?ws[t := Ran ?g]) ?g = insert t (executed ?ws ?g)" "t \<notin> executed ?ws ?g"
      using executed_update(2) [of t ?ws ?g "Ran ?g"] executed_update(3) [of t ?ws ?g] assms(2) w by auto
    ultimately show "running_inv n b own_done (pool_exec t job seen p)"
      using assms(1) set_update_all [of ?ws "\<lambda>w. w \<in> {Parked (?g - 1), Loaded (Some b) ?g, Ran ?g, Parked ?g}" "Ran ?g" t]
      by (auto simp: running_inv_def) }
  { assume w: "?ws ! t = Ran seen"
    then have seen: "seen = ?g" using mem by auto
    have eq: "pool_retire t seen p = p\<lparr>wp_workers := ?ws[t := Parked ?g], wp_remaining := wp_remaining p - 1\<rparr>"
      using seen by (simp add: pool_retire_def set_worker_def)
    have b: "busy ?ws ?g = insert t (busy (?ws[t := Parked ?g]) ?g)" "t \<notin> busy (?ws[t := Parked ?g]) ?g"
      using busy_retire [of t ?ws ?g] assms(2) w seen by auto
    then have c: "unat (wp_remaining p) = Suc (card (busy (?ws[t := Parked ?g]) ?g))"
      using assms(1) by (simp add: running_inv_def)
    then have "wp_remaining p \<noteq> 0" by auto
    then have "unat (wp_remaining p - 1) = card (busy (?ws[t := Parked ?g]) ?g)" using c by (simp add: unat_minus_one)
    moreover have "executed (?ws[t := Parked ?g]) ?g = executed ?ws ?g" using executed_retire assms(2) w seen by simp
    ultimately show "running_inv n b own_done (pool_retire t seen p)"
      using assms(1) set_update_all [of ?ws "\<lambda>w. w \<in> {Parked (?g - 1), Loaded (Some b) ?g, Ran ?g, Parked ?g}" "Parked ?g" t]
      unfolding eq by (simp add: running_inv_def) }
qed

lemma worker_step_owner [simp]:
  "wp_owner (pool_wake t p) = wp_owner p" "wp_threads (pool_wake t p) = wp_threads p"
  "wp_owner (pool_exec t job seen p) = wp_owner p" "wp_threads (pool_exec t job seen p) = wp_threads p"
  "wp_owner (pool_retire t seen p) = wp_owner p" "wp_threads (pool_retire t seen p) = wp_threads p"
  by (simp_all add: pool_wake_def pool_exec_def pool_retire_def set_worker_def split: option.split)

theorem pool_step_inv:
  assumes "pool_step p q" "pool_inv n p" "0 < n" "n < 2 ^ 32"
  shows "pool_inv n q"
  using assms(1)
proof cases
  case (call_run b)
  show ?thesis
  proof (cases "n \<le> 1 \<or> wp_workers p = []")
    case True
    then have "wp_workers p = []" using assms(2,3) call_run by (auto simp: pool_inv_def)
    then show ?thesis using assms(2) call_run by (auto simp: pool_inv_def pool_run_def)
  next
    case False
    then show ?thesis using announce_inv [of n p b] assms call_run by simp
  qed
next
  case call_stop
  then show ?thesis using assms(2) by (auto simp: pool_inv_def pool_stop_def)
next
  case (own b)
  then show ?thesis using assms(2) own_inv by (fastforce simp: pool_inv_def pool_own_def)
next
  case release
  have "1 < n \<or> n = 1" using assms(3) by auto
  then show ?thesis
  proof
    assume "n = 1"
    then show ?thesis using assms(2) release
      by (auto simp: pool_inv_def running_inv_def pool_release_def executed_def)
  qed (use release_inv assms release in auto)
next
  case join
  then show ?thesis using assms(2) by (auto simp: pool_inv_def pool_join_def)
next
  case (wake t seen)
  have mem: "wp_workers p ! t \<in> set (wp_workers p)" using wake(2) by (rule nth_mem)
  show ?thesis
  proof (cases "wp_owner p")
    case Idle
    then have "wp_workers p ! t = Parked (wp_generation p)" "\<not> wp_stop p"
      using assms(2) mem by (auto simp: pool_inv_def)
    then show ?thesis using wake by (auto simp: wakes_def)
  next
    case Joining
    then have "pool_wake t p = p\<lparr>wp_workers := (wp_workers p)[t := Exited]\<rparr>"
      using assms(2) by (simp add: pool_inv_def pool_wake_def set_worker_def)
    then show ?thesis using assms(2) Joining wake
        set_update_all [of "wp_workers p" "\<lambda>w. w \<in> {Parked (wp_generation p - 1), Exited}" Exited t]
      by (simp add: pool_inv_def)
  qed (use assms(2) wake worker_step_inv(1) in \<open>fastforce simp: pool_inv_def\<close>)+
next
  case (exec t job seen)
  have mem: "wp_workers p ! t \<in> set (wp_workers p)" using exec(2) by (rule nth_mem)
  show ?thesis
  proof (cases "wp_owner p")
    case Idle
    then have "wp_workers p ! t = Parked (wp_generation p)" using assms(2) mem by (auto simp: pool_inv_def)
    then show ?thesis using exec by simp
  next
    case Joining
    then have "wp_workers p ! t \<in> {Parked (wp_generation p - 1), Exited}"
      using assms(2) mem by (auto simp: pool_inv_def)
    then show ?thesis using exec by simp
  qed (use assms(2) exec worker_step_inv(2) in \<open>fastforce simp: pool_inv_def\<close>)+
next
  case (retire t seen)
  have mem: "wp_workers p ! t \<in> set (wp_workers p)" using retire(2) by (rule nth_mem)
  show ?thesis
  proof (cases "wp_owner p")
    case Idle
    then have "wp_workers p ! t = Parked (wp_generation p)" using assms(2) mem by (auto simp: pool_inv_def)
    then show ?thesis using retire by simp
  next
    case Joining
    then have "wp_workers p ! t \<in> {Parked (wp_generation p - 1), Exited}"
      using assms(2) mem by (auto simp: pool_inv_def)
    then show ?thesis using retire by simp
  qed (use assms(2) retire worker_step_inv(3) in \<open>fastforce simp: pool_inv_def\<close>)+
qed

lemma pool_start_inv: "0 < n \<Longrightarrow> pool_inv n (pool_start n pool_new)"
  by (auto simp: pool_inv_def pool_start_def pool_new_def Let_def)

lemma pool_reach_inv:
  "pool_step\<^sup>*\<^sup>* (pool_start n pool_new) p \<Longrightarrow> 0 < n \<Longrightarrow> n < 2 ^ 32 \<Longrightarrow> pool_inv n p"
  by (induction rule: rtranclp_induct) (auto intro: pool_start_inv pool_step_inv)

end
