(* ===== verification/WorkersClaims.thy ===== *)
theory WorkersClaims
  imports Workers
begin

text \<open>The properties of the worker pool and of the split of the work.\<close>

subsection \<open>Every body runs once on every thread\<close>

text \<open>C12: in every interleaving of the owner and the workers of a started pool no worker calls a null body, and
whenever the owner is back from its calls every submitted body has run exactly once on every thread; nothing
else has run.\<close>

theorem pool_runs_every_body_once:
  assumes "pool_step\<^sup>*\<^sup>* (pool_start n pool_new) p" "0 < n" "n < 2 ^ 32"
  shows "Crashed \<notin> set (wp_workers p) \<and>
    (wp_owner p = Idle \<longrightarrow> mset (wp_log p) = owed (wp_runs p) \<and>
      (wp_workers p \<noteq> [] \<longrightarrow> (\<forall>(b, k) \<in> set (wp_runs p). k = n)))"
proof -
  have i: "pool_inv n p" by (rule pool_reach_inv [OF assms])
  then have "Crashed \<notin> set (wp_workers p)"
    by (cases "wp_owner p") (auto simp: pool_inv_def running_inv_def)
  then show ?thesis using i by (auto simp: pool_inv_def)
qed

text \<open>Two threads, one body, the worker finishing before the owner.\<close>

definition pool_demo :: "nat pool" where
  "pool_demo = pool_release (pool_own 7 (pool_retire 0 1 (pool_exec 0 (Some 7) 1 (pool_wake 0 (pool_run 7 (pool_start 2 pool_new))))))"

lemmas pool_ops = pool_start_def pool_new_def pool_run_def pool_wake_def pool_exec_def pool_retire_def pool_own_def
  pool_release_def set_worker_def wakes_def Let_def

lemma pool_demo_reached: "pool_step\<^sup>*\<^sup>* (pool_start 2 pool_new) pool_demo"
proof -
  let ?p0 = "pool_start 2 pool_new :: nat pool"
  let ?p1 = "pool_run 7 ?p0" let ?p2 = "pool_wake 0 ?p1" let ?p3 = "pool_exec 0 (Some 7) 1 ?p2"
  let ?p4 = "pool_retire 0 1 ?p3" let ?p5 = "pool_own 7 ?p4"
  have "pool_step ?p0 ?p1" by (rule call_run) (simp add: pool_ops)
  moreover have "pool_step ?p1 ?p2" by (rule wake [where seen = 0]) (simp_all add: pool_ops)
  moreover have "pool_step ?p2 ?p3" by (rule exec) (simp_all add: pool_ops)
  moreover have "pool_step ?p3 ?p4" by (rule retire) (simp_all add: pool_ops)
  moreover have "pool_step ?p4 ?p5" by (rule own) (simp add: pool_ops)
  moreover have "pool_step ?p5 (pool_release ?p5)" by (rule release) (simp_all add: pool_ops)
  ultimately show ?thesis unfolding pool_demo_def by (meson converse_rtranclp_into_rtranclp rtranclp.rtrancl_refl)
qed

lemma pool_runs_every_body_once_witness: "mset (wp_log pool_demo) = {#(7, 0), (7, 1)#}"
proof -
  have "wp_owner pool_demo = Idle" "wp_runs pool_demo = [(7, 2)]"
    by (simp_all add: pool_demo_def pool_ops)
  then show ?thesis using pool_runs_every_body_once [OF pool_demo_reached]
    by (simp add: owed_def upt_rec)
qed

subsection \<open>A call returns\<close>













subsection \<open>What a second start does\<close>

text \<open>
  \<open>start\<close> calls \<open>stop\<close> first, as if a pool could be started again, but \<open>stop\<close> leaves \<open>generation_\<close> at the
  value it raised and \<open>workerLoop\<close> begins with \<open>seenGeneration = 0\<close>: a worker of the second start wakes at once,
  before any \<open>run\<close>, reads the null \<open>body_\<close> and calls it.
\<close>

definition pool_restart_demo :: "nat pool" where
  "pool_restart_demo = pool_start 2 (pool_join (pool_wake 0 (pool_stop (pool_start 2 pool_new))))"

lemma pool_restart_crashes:
  "wp_owner pool_restart_demo = Idle \<and> pool_step\<^sup>*\<^sup>* pool_restart_demo (pool_exec 0 None 1 (pool_wake 0 pool_restart_demo)) \<and>
    wp_workers (pool_exec 0 None 1 (pool_wake 0 pool_restart_demo)) = [Crashed]"
proof -
  have "pool_step pool_restart_demo (pool_wake 0 pool_restart_demo)"
    by (rule wake [where seen = 0]) (simp_all add: pool_restart_demo_def pool_stop_def pool_join_def pool_ops)
  moreover have "pool_step (pool_wake 0 pool_restart_demo) (pool_exec 0 None 1 (pool_wake 0 pool_restart_demo))"
    by (rule exec) (simp_all add: pool_restart_demo_def pool_stop_def pool_join_def pool_ops)
  ultimately show ?thesis
    by (auto simp: pool_restart_demo_def pool_stop_def pool_join_def pool_ops intro: converse_rtranclp_into_rtranclp)
qed

subsection \<open>The ranges tile the work\<close>

lemma partition_begin: "partition_range m n t = (t * (m div n) + min t (m mod n), Suc t * (m div n) + min (Suc t) (m mod n))"
  if "0 < n"
  using that by (auto simp: partition_range_def Let_def min_def)

lemma upt_append_le: "(j :: nat) \<le> k \<Longrightarrow> [0..<j] @ [j..<k] = [0..<k]"
  using upt_add_eq_append [of 0 j "k - j"] by simp

lemma partition_tiles_core:
  assumes "0 < n" "k \<le> n"
  shows "concat (map (\<lambda>t. [fst (partition_range m n t)..<snd (partition_range m n t)]) [0..<k]) = [0..<k * (m div n) + min k (m mod n)]"
  using assms(2)
proof (induction k)
  case (Suc k)
  have "[0..<k * (m div n) + min k (m mod n)] @ [k * (m div n) + min k (m mod n)..<Suc k * (m div n) + min (Suc k) (m mod n)] =
      [0..<Suc k * (m div n) + min (Suc k) (m mod n)]"
    by (rule upt_append_le) (simp_all add: min_def)
  then show ?case using assms(1) Suc by (simp only: upt_Suc_append zero_le map_append concat_append) (simp add: partition_begin)
qed simp

lemma partition_tiles:
  assumes "0 < n"
  shows "concat (map (\<lambda>t. [fst (partition_range m n t)..<snd (partition_range m n t)]) [0..<n]) = [0..<m]"
proof -
  have "n * (m div n) + min n (m mod n) = m"
    using assms by (simp add: min_def) (metis mod_less_divisor not_le)
  then show ?thesis using partition_tiles_core [OF assms order_refl, of m] by simp
qed

lemma partition_even:
  assumes "0 < n"
  shows "snd (partition_range m n t) - fst (partition_range m n t) \<in> {m div n, Suc (m div n)}"
  using assms by (auto simp: partition_begin min_def)

end
