(* ===== verification/SimState.thy ===== *)
theory SimState
  imports Prelude F64 Rows
begin

text \<open>
  The spending simulator's run state (\<open>simulator/state.hpp\<close>), the compressed rows it is indexed by
  (\<open>primitives/utils/groups.hpp\<close>), the payday index (\<open>payday_index.hpp\<close>) and the warm start of
  the payday counters (\<open>warm_start.hpp\<close>). Offsets and counts are \<open>nat\<close>; the two counters shared by
  the workers are updated by compare-and-swap loops, whose effect is one atomic update.
\<close>

type_synonym u16 = "16 word"

subsection \<open>Compressed rows\<close>

record 'v csr =
  cs_offsets :: "nat list"
  cs_flat :: "'v list"
  cs_counts :: "nat list"

definition csr_fixed :: "nat list \<Rightarrow> 'v list \<Rightarrow> 'v csr" where
  "csr_fixed offsets flat = \<lparr>cs_offsets = offsets, cs_flat = flat, cs_counts = []\<rparr>"

definition csr_variable :: "nat list \<Rightarrow> 'v list \<Rightarrow> nat list \<Rightarrow> 'v csr" where
  "csr_variable offsets flat counts = \<lparr>cs_offsets = offsets, cs_flat = flat, cs_counts = counts\<rparr>"

definition row_capacity :: "nat \<Rightarrow> 'v csr \<Rightarrow> nat" where
  "row_capacity row c = cs_offsets c ! (row + 1) - cs_offsets c ! row"

definition row_length :: "nat \<Rightarrow> 'v csr \<Rightarrow> nat" where
  "row_length row c = (if cs_counts c = [] then row_capacity row c else cs_counts c ! row)"

definition row_of :: "nat \<Rightarrow> 'v csr \<Rightarrow> 'v list" where
  "row_of row c = take (row_length row c) (drop (cs_offsets c ! row) (cs_flat c))"

definition row_push_back :: "nat \<Rightarrow> 'v \<Rightarrow> 'v csr \<Rightarrow> bool \<times> 'v csr" where
  "row_push_back row v c =
     (if cs_counts c = [] \<or> row_capacity row c \<le> row_length row c then (False, c)
      else (True, c\<lparr>cs_flat := (cs_flat c)[cs_offsets c ! row + cs_counts c ! row := v],
                     cs_counts := (cs_counts c)[row := cs_counts c ! row + 1]\<rparr>))"

definition row_swap_remove :: "nat \<Rightarrow> nat \<Rightarrow> 'v csr \<Rightarrow> bool \<times> 'v csr" where
  "row_swap_remove row slot c =
     (let len = row_length row c
      in if cs_counts c = [] \<or> len \<le> slot then (False, c)
         else let base = cs_offsets c ! row
              in (True, c\<lparr>cs_flat := (cs_flat c)[base + slot := cs_flat c ! (base + len - 1)],
                          cs_counts := (cs_counts c)[row := cs_counts c ! row - 1]\<rparr>))"

definition row_count :: "'v csr \<Rightarrow> nat" where
  "row_count c = (if cs_offsets c = [] then 0 else length (cs_offsets c) - 1)"

definition total_entries :: "'v csr \<Rightarrow> nat" where "total_entries c = length (cs_flat c)"

subsection \<open>Paydays\<close>

text \<open>\<open>market/population/paydays.hpp\<close>: the paydays of every person, a row each, as day indices.\<close>

definition person_view :: "nat \<Rightarrow> nat csr \<Rightarrow> nat list" where
  "person_view p paydays = row_of p paydays"

record payday_index =
  pi_days :: nat
  pi_storage :: "nat csr"

definition persons_on :: "nat \<Rightarrow> payday_index \<Rightarrow> nat list" where
  "persons_on day idx = (if pi_days idx \<le> day then [] else row_of day (pi_storage idx))"

text \<open>The nested loop over the people and their paydays inside the window, one step for each.\<close>

definition payday_pairs :: "nat csr \<Rightarrow> nat \<Rightarrow> (nat \<times> nat) list" where
  "payday_pairs paydays num_days =
     filter (\<lambda>(day, p). day < num_days)
       (concat (map (\<lambda>p. map (\<lambda>day. (day, p)) (person_view p paydays)) [0..<row_count paydays]))"

definition count_days :: "(nat \<times> nat) list \<Rightarrow> nat list \<Rightarrow> nat list" where
  "count_days = fold (\<lambda>(day, p) offsets. offsets[day + 1 := offsets ! (day + 1) + 1])"

definition prefix_sums :: "nat \<Rightarrow> nat list \<Rightarrow> nat list" where
  "prefix_sums num_days = fold (\<lambda>d offsets. offsets[d + 1 := offsets ! (d + 1) + offsets ! d]) [0..<num_days]"

definition place_days :: "(nat \<times> nat) list \<Rightarrow> nat list \<times> nat list \<Rightarrow> nat list \<times> nat list" where
  "place_days = fold (\<lambda>(day, p) (flat, cursor).
     (flat[cursor ! day := p], cursor[day := cursor ! day + 1]))"

definition payday_index_build :: "nat csr \<Rightarrow> nat \<Rightarrow> payday_index" where
  "payday_index_build paydays num_days =
     (let offsets = replicate (num_days + 1) 0
      in if num_days = 0 then \<lparr>pi_days = num_days, pi_storage = csr_fixed offsets []\<rparr>
         else
           let pairs = payday_pairs paydays num_days;
               offsets = prefix_sums num_days (count_days pairs offsets);
               flat = replicate (last offsets) 0;
               (flat, cursor) = place_days pairs (flat, offsets)
           in \<lparr>pi_days = num_days, pi_storage = csr_fixed offsets flat\<rparr>)"

subsection \<open>The run state\<close>

record run_state =
  rs_txns :: "txn list"
  rs_since :: "u16 list"
  rs_base_idx :: nat
  rs_person_days :: nat
  rs_target :: f64

definition initial_since :: u16 where "initial_since = 7"

definition run_state_new :: "nat \<Rightarrow> nat \<Rightarrow> f64 \<Rightarrow> run_state" where
  "run_state_new persons person_days target =
     \<lparr>rs_txns = [], rs_since = replicate persons initial_since, rs_base_idx = 0,
      rs_person_days = person_days, rs_target = target\<rparr>"

definition set_since :: "nat \<Rightarrow> u16 \<Rightarrow> run_state \<Rightarrow> run_state" where
  "set_since p v rs = rs\<lparr>rs_since := (rs_since rs)[p := v]\<rparr>"

definition reset_since :: "nat \<Rightarrow> run_state \<Rightarrow> run_state" where
  "reset_since p rs = set_since p 0 rs"

definition since_cap :: u16 where "since_cap = 65535"

definition bump_all_since :: "run_state \<Rightarrow> run_state" where
  "bump_all_since rs = rs\<lparr>rs_since := map (\<lambda>v. v + (if v < since_cap then 1 else 0)) (rs_since rs)\<rparr>"

definition consume_one_person_day :: "run_state \<Rightarrow> run_state" where
  "consume_one_person_day rs =
     (if 0 < rs_person_days rs then rs\<lparr>rs_person_days := rs_person_days rs - 1\<rparr> else rs)"

definition consume_accepted :: "nat \<Rightarrow> run_state \<Rightarrow> run_state" where
  "consume_accepted n rs =
     (if n = 0 then rs
      else let c = f64_of_int (int n)
           in rs\<lparr>rs_target := (if flt c (rs_target rs) then fsub (rs_target rs) c else Fin 0)\<rparr>)"

subsection \<open>The warm start\<close>

definition default_cycle_days :: u16 where "default_cycle_days = 14"

definition infer_cycle_days :: "u32 list \<Rightarrow> u16" where
  "infer_cycle_days paydays =
     (if length paydays < 2 then default_cycle_days
      else let gap = paydays ! 1 - paydays ! 0
           in if gap = 0 then default_cycle_days else ucast (min gap 65535))"

definition warm_start_since :: "u32 list \<Rightarrow> u16" where
  "warm_start_since paydays =
     (let cycle = infer_cycle_days paydays
      in if paydays = [] then cycle div 2
         else
           let mod_first = paydays ! 0 mod ucast cycle;
               d_emit = (ucast cycle - mod_first) mod ucast cycle
           in if d_emit = (0 :: u32) then 0 else ucast (d_emit - 1))"

text \<open>\<open>applyWarmStartDaysSincePayday\<close>; a spender is its person index and its paydays.\<close>

definition apply_warm_start :: "(nat \<times> u32 list) list \<Rightarrow> run_state \<Rightarrow> run_state" where
  "apply_warm_start = fold (\<lambda>(p, paydays). set_since p (warm_start_since paydays))"

text \<open>\<open>DayDriver::updatePaydayState\<close>.\<close>

definition update_payday_state :: "payday_index \<Rightarrow> nat \<Rightarrow> run_state \<Rightarrow> nat list \<times> run_state" where
  "update_payday_state idx day rs =
     (let rs = bump_all_since rs; persons = persons_on day idx in (persons, fold reset_since persons rs))"

end
