(* ===== verification/SimStateFacts.thy ===== *)
theory SimStateFacts
  imports SimState
begin

text \<open>
  The payday index is a counting sort, the compressed rows are a list of bags, and the warm start
  puts every counter where its pay cycle has it.
\<close>

subsection \<open>The three passes of the payday index\<close>

definition on_day :: "nat \<Rightarrow> (nat \<times> nat) list \<Rightarrow> nat list" where
  "on_day day pairs = map snd (filter (\<lambda>(d, p). d = day) pairs)"

lemma on_day_simps [simp]: "on_day day [] = []"
  "on_day day (x # xs) = (if fst x = day then snd x # on_day day xs else on_day day xs)"
  "on_day day (xs @ ys) = on_day day xs @ on_day day ys"
  by (auto simp: on_day_def split_beta)

lemma count_days_length [simp]: "length (count_days pairs offsets) = length offsets"
  by (induction pairs arbitrary: offsets) (auto simp: count_days_def split_beta)

lemma count_days_nth:
  "\<forall>(day, p) \<in> set pairs. day + 1 < length offsets \<Longrightarrow> i < length offsets \<Longrightarrow>
     count_days pairs offsets ! i = offsets ! i + (if i = 0 then 0 else length (on_day (i - 1) pairs))"
proof (induction pairs arbitrary: offsets)
  case (Cons x pairs)
  obtain d p where x: "x = (d, p)" by fastforce
  have "count_days (x # pairs) offsets = count_days pairs (offsets[d + 1 := offsets ! (d + 1) + 1])"
    by (simp add: count_days_def x)
  then show ?case using Cons.IH [of "offsets[d + 1 := offsets ! (d + 1) + 1]"] Cons.prems
    by (auto simp: x nth_list_update split: if_splits)
qed (simp add: count_days_def)

text \<open>Where the row of a day starts.\<close>

fun day_start :: "(nat \<times> nat) list \<Rightarrow> nat \<Rightarrow> nat" where
  "day_start pairs 0 = 0"
| "day_start pairs (Suc d) = day_start pairs d + length (on_day d pairs)"

lemma day_start_mono: "d \<le> e \<Longrightarrow> day_start pairs d \<le> day_start pairs e"
  by (induction e) (auto simp: le_Suc_eq)

lemma day_start_disjoint: "d < e \<Longrightarrow> day_start pairs d + length (on_day d pairs) \<le> day_start pairs e"
  using day_start_mono [of "Suc d" e pairs] by simp

lemma prefix_sums_nth:
  assumes "length offsets = Suc n" "\<And>i. i \<le> n \<Longrightarrow> offsets ! i = (if i = 0 then 0 else length (on_day (i - 1) pairs))"
  shows "length (prefix_sums n offsets) = Suc n \<and> (\<forall>d \<le> n. prefix_sums n offsets ! d = day_start pairs d)"
proof -
  have "length (prefix_sums k offsets) = Suc n \<and> (\<forall>d \<le> n. prefix_sums k offsets ! d =
      (if d \<le> k then day_start pairs d else offsets ! d))" if "k \<le> n" for k
    using that
  proof (induction k)
    case 0
    then show ?case using assms by (auto simp: prefix_sums_def)
  next
    case (Suc k)
    let ?o = "prefix_sums k offsets"
    have o: "length ?o = Suc n" "\<And>d. d \<le> n \<Longrightarrow> ?o ! d = (if d \<le> k then day_start pairs d else offsets ! d)"
      using Suc by auto
    have "prefix_sums (Suc k) offsets = ?o[Suc k := ?o ! Suc k + ?o ! k]" by (simp add: prefix_sums_def)
    then show ?case using o Suc.prems assms(2) [of "Suc k"] by (auto simp: nth_list_update le_Suc_eq)
  qed
  from this [of n] show ?thesis by simp
qed

lemma place_days_correct:
  assumes "\<forall>(d, p) \<in> set (done @ todo). d < n" "length flat = day_start (done @ todo) n"
    "length cursor = Suc n" "\<And>d. d < n \<Longrightarrow> cursor ! d = day_start (done @ todo) d + length (on_day d done)"
    "\<And>d k. d < n \<Longrightarrow> k < length (on_day d done) \<Longrightarrow> flat ! (day_start (done @ todo) d + k) = on_day d done ! k"
  shows "d < n \<Longrightarrow> k < length (on_day d (done @ todo)) \<Longrightarrow>
    fst (place_days todo (flat, cursor)) ! (day_start (done @ todo) d + k) = on_day d (done @ todo) ! k"
  using assms
proof (induction todo arbitrary: "done" flat cursor)
  case Nil
  then show ?case by (simp add: place_days_def)
next
  case (Cons x todo)
  obtain e p where x: "x = (e, p)" by fastforce
  let ?all = "done @ x # todo" and ?f = "flat[cursor ! e := p]" and ?c = "cursor[e := cursor ! e + 1]"
  have e: "e < n" using Cons.prems(3) x by simp
  have step: "place_days (x # todo) (flat, cursor) = place_days todo (?f, ?c)" by (simp add: place_days_def x)
  have c: "cursor ! e = day_start ?all e + length (on_day e done)" by (rule Cons.prems(6) [OF e])
  have "cursor ! e < day_start ?all (Suc e)" using c by (simp add: x)
  then have in_range: "cursor ! e < length flat"
    using day_start_mono [of "Suc e" n ?all] e Cons.prems(4) by simp
  have "?c ! d' = day_start ?all d' + length (on_day d' (done @ [x]))" if "d' < n" for d'
    using Cons.prems(5,6) that e by (auto simp: nth_list_update x)
  moreover have "?f ! (day_start ?all d' + k') = on_day d' (done @ [x]) ! k'"
    if "d' < n" "k' < length (on_day d' (done @ [x]))" for d' k'
  proof (cases "d' = e")
    case True
    show ?thesis
    proof (cases "k' < length (on_day e done)")
      case True
      then have "day_start ?all e + k' \<noteq> cursor ! e" using c by simp
      then show ?thesis using True \<open>d' = e\<close> Cons.prems(7) [OF e True] by (simp add: x nth_append)
    next
      case False
      then have "k' = length (on_day e done)" using that(2) \<open>d' = e\<close> by (simp add: x)
      then show ?thesis using \<open>d' = e\<close> c in_range by (simp add: x)
    qed
  next
    case False
    then have k: "k' < length (on_day d' done)" using that(2) by (simp add: x)
    have "on_day d' done = take (length (on_day d' done)) (on_day d' ?all)" by simp
    have "day_start ?all d' + k' \<noteq> cursor ! e"
    proof (cases "d' < e")
      case True
      have "day_start ?all d' + k' < day_start ?all d' + length (on_day d' ?all)" using k by simp
      also have "\<dots> \<le> day_start ?all e" by (rule day_start_disjoint [OF True])
      finally show ?thesis using c by simp
    next
      case False
      then have "e < d'" using \<open>d' \<noteq> e\<close> by simp
      have "cursor ! e < day_start ?all e + length (on_day e ?all)" using c by (simp add: x)
      also have "\<dots> \<le> day_start ?all d'" by (rule day_start_disjoint [OF \<open>e < d'\<close>])
      finally show ?thesis by simp
    qed
    then show ?thesis using False Cons.prems(7) [OF that(1) k] by (simp add: x)
  qed
  ultimately show ?case
    using Cons.IH [of "done @ [x]" ?f ?c] Cons.prems(1-5) unfolding step by simp
qed

lemma place_days_length [simp]: "length (fst (place_days pairs (flat, cursor))) = length flat"
  by (induction pairs arbitrary: flat cursor) (auto simp: place_days_def split_beta)

lemma payday_pairs_days: "\<forall>(d, p) \<in> set (payday_pairs paydays n). d < n"
  by (auto simp: payday_pairs_def)

lemma persons_on_pairs:
  assumes "day < n"
  shows "persons_on day (payday_index_build paydays n) = on_day day (payday_pairs paydays n)"
proof -
  let ?pairs = "payday_pairs paydays n"
  let ?offsets = "prefix_sums n (count_days ?pairs (replicate (n + 1) 0))"
  have "length ?offsets = Suc n \<and> (\<forall>d \<le> n. ?offsets ! d = day_start ?pairs d)"
    using count_days_nth [of ?pairs "replicate (n + 1) 0"] payday_pairs_days [of paydays n]
    by (intro prefix_sums_nth) (auto simp: nth_Cons split: nat.split)
  then have o: "length ?offsets = Suc n" "\<And>d. d \<le> n \<Longrightarrow> ?offsets ! d = day_start ?pairs d" by auto
  have l: "last ?offsets = day_start ?pairs n" using o by (simp add: last_conv_nth flip: length_greater_0_conv)
  let ?flat = "fst (place_days ?pairs (replicate (day_start ?pairs n) 0, ?offsets))"
  have f: "?flat ! (day_start ?pairs day + k) = on_day day ?pairs ! k" if "k < length (on_day day ?pairs)" for k
    using place_days_correct [of "[]" ?pairs n "replicate (day_start ?pairs n) 0" ?offsets day k] payday_pairs_days o assms that by simp
  have b: "payday_index_build paydays n = \<lparr>pi_days = n, pi_storage = csr_fixed ?offsets ?flat\<rparr>"
    using assms unfolding payday_index_build_def Let_def l by (simp add: split_beta)
  have "day_start ?pairs (Suc day) \<le> day_start ?pairs n" using assms by (intro day_start_mono) simp
  then have "take (length (on_day day ?pairs)) (drop (day_start ?pairs day) ?flat) = on_day day ?pairs"
    using f by (intro nth_equalityI) auto
  then show ?thesis using assms o by (simp add: persons_on_def b row_of_def row_length_def row_capacity_def csr_fixed_def)
qed

lemma on_day_concat: "on_day day (concat xss) = concat (map (on_day day) xss)"
  by (induction xss) simp_all

lemma on_day_person: "on_day day (map (\<lambda>d. (d, p)) ds) = replicate (count_list ds day) p"
  by (induction ds) simp_all

lemma persons_on_counts:
  "persons_on day (payday_index_build paydays n) =
     (if day < n then concat (map (\<lambda>p. replicate (count_list (person_view p paydays) day) p) [0..<row_count paydays]) else [])"
proof (cases "day < n")
  case True
  have "on_day day (payday_pairs paydays n) =
      on_day day (concat (map (\<lambda>p. map (\<lambda>d. (d, p)) (person_view p paydays)) [0..<row_count paydays]))"
    using True unfolding payday_pairs_def on_day_def filter_filter by (metis (mono_tags, lifting) case_prod_beta filter_cong)
  then show ?thesis using True by (simp add: persons_on_pairs on_day_concat on_day_person comp_def)
next
  case False
  then show ?thesis by (simp add: persons_on_def payday_index_build_def Let_def split_beta)
qed

subsection \<open>Compressed rows as a list of lists\<close>

definition csr_ok :: "'v csr \<Rightarrow> bool" where
  "csr_ok c \<longleftrightarrow> cs_counts c \<noteq> [] \<and> length (cs_counts c) = row_count c \<and> sorted (cs_offsets c) \<and>
     (cs_offsets c \<noteq> [] \<longrightarrow> last (cs_offsets c) \<le> length (cs_flat c)) \<and>
     (\<forall>r < row_count c. cs_counts c ! r \<le> row_capacity r c)"

definition csr_rows :: "'v csr \<Rightarrow> 'v list list" where
  "csr_rows c = map (\<lambda>r. row_of r c) [0..<row_count c]"

lemma csr_layout:
  assumes "csr_ok c" "r < row_count c"
  shows "cs_offsets c ! r + row_capacity r c \<le> length (cs_flat c)"
    "r' < r \<Longrightarrow> cs_offsets c ! r' + row_capacity r' c \<le> cs_offsets c ! r"
proof -
  have len: "Suc r < length (cs_offsets c)" using assms(2) by (auto simp: row_count_def split: if_splits)
  have mono: "i \<le> j \<Longrightarrow> j < length (cs_offsets c) \<Longrightarrow> cs_offsets c ! i \<le> cs_offsets c ! j" for i j
    using assms(1) by (simp add: csr_ok_def sorted_nth_mono)
  have "cs_offsets c ! Suc r \<le> last (cs_offsets c)"
    using mono [of "Suc r" "length (cs_offsets c) - 1"] len by (simp add: last_conv_nth flip: length_greater_0_conv)
  then show "cs_offsets c ! r + row_capacity r c \<le> length (cs_flat c)"
    using assms(1) len mono [of r "Suc r"] by (auto simp: csr_ok_def row_capacity_def)
  assume "r' < r"
  then show "cs_offsets c ! r' + row_capacity r' c \<le> cs_offsets c ! r"
    using mono [of r' "Suc r'"] mono [of "Suc r'" r] len by (simp add: row_capacity_def)
qed

text \<open>Writing inside the capacity of one row leaves the others alone.\<close>

lemma row_of_write:
  assumes "csr_ok c" "r < row_count c" "r' < row_count c" "k < row_capacity r c"
  shows "take (cs_counts c ! r') (drop (cs_offsets c ! r') ((cs_flat c)[cs_offsets c ! r + k := v])) =
    (if r' = r then (take (cs_counts c ! r) (drop (cs_offsets c ! r) (cs_flat c)))[k := v] else row_of r' c)"
proof (cases "r' = r")
  case False
  have cap: "cs_counts c ! r' \<le> row_capacity r' c" using assms(1,3) by (simp add: csr_ok_def)
  have "cs_offsets c ! r + k < cs_offsets c ! r' \<or> cs_offsets c ! r' + cs_counts c ! r' \<le> cs_offsets c ! r + k"
    using csr_layout(2) [OF assms(1,3), of r] csr_layout(2) [OF assms(1,2), of r'] False cap assms(4)
    by (cases r r' rule: linorder_cases) auto
  then show ?thesis using False assms(1)
    by (intro nth_equalityI) (auto simp: row_of_def row_length_def csr_ok_def nth_list_update)
qed (simp add: drop_update_swap take_update_swap)

lemma csr_push:
  assumes "csr_ok c" "r < row_count c" "row_push_back r v c = (pushed, c')"
  shows "csr_ok c'" "pushed \<longleftrightarrow> length (row_of r c) < row_capacity r c"
    "csr_rows c' = (if pushed then (csr_rows c)[r := row_of r c @ [v]] else csr_rows c)"
proof -
  have n: "cs_counts c \<noteq> []" "r < length (cs_counts c)" "cs_counts c ! r \<le> row_capacity r c"
    using assms(1,2) by (simp_all add: csr_ok_def)
  have len: "length (row_of r c) = cs_counts c ! r"
    using csr_layout(1) [OF assms(1,2)] n by (simp add: row_of_def row_length_def)
  show p: "pushed \<longleftrightarrow> length (row_of r c) < row_capacity r c"
    using assms(3) n unfolding len by (auto simp: row_push_back_def row_length_def split: if_splits)
  show "csr_ok c'" using assms n
    by (auto simp: row_push_back_def csr_ok_def row_count_def row_capacity_def row_length_def nth_list_update split: if_splits)
  show "csr_rows c' = (if pushed then (csr_rows c)[r := row_of r c @ [v]] else csr_rows c)"
  proof (cases pushed)
    case True
    then have k: "cs_counts c ! r < row_capacity r c" using p len by simp
    have c': "c' = c\<lparr>cs_flat := (cs_flat c)[cs_offsets c ! r + cs_counts c ! r := v],
        cs_counts := (cs_counts c)[r := cs_counts c ! r + 1]\<rparr>"
      using assms(3) True by (auto simp: row_push_back_def split: if_splits)
    have other: "row_of r' c' = row_of r' c" if "r' < row_count c" "r' \<noteq> r" for r'
      using row_of_write [OF assms(1,2) that(1) k, of v] that n by (simp add: c' row_of_def row_length_def)
    have this_row: "row_of r c' = row_of r c @ [v]"
      using csr_layout(1) [OF assms(1,2)] k n
      by (simp add: c' row_of_def row_length_def take_Suc_conv_app_nth drop_update_swap)
    have "row_count c' = row_count c" by (simp add: c' row_count_def)
    then show ?thesis using True other this_row assms(2)
      by (simp add: csr_rows_def list_eq_iff_nth_eq nth_list_update)
  qed (use assms(3) in \<open>auto simp: row_push_back_def split: if_splits\<close>)
qed

lemma csr_remove:
  assumes "csr_ok c" "r < row_count c" "row_swap_remove r slot c = (removed, c')"
  shows "csr_ok c'" "removed \<longleftrightarrow> slot < length (row_of r c)"
    "csr_rows c' = (if removed then (csr_rows c)[r := butlast ((row_of r c)[slot := last (row_of r c)])] else csr_rows c)"
proof -
  have n: "cs_counts c \<noteq> []" "r < length (cs_counts c)" "cs_counts c ! r \<le> row_capacity r c"
    using assms(1,2) by (simp_all add: csr_ok_def)
  have len: "length (row_of r c) = cs_counts c ! r"
    using csr_layout(1) [OF assms(1,2)] n by (simp add: row_of_def row_length_def)
  show p: "removed \<longleftrightarrow> slot < length (row_of r c)"
    using assms(3) n unfolding len by (auto simp: row_swap_remove_def row_length_def Let_def split: if_splits)
  have "(cs_counts c)[r := cs_counts c ! r - 1] ! r' \<le> row_capacity r' c" if "r' < row_count c" for r'
    using le_trans [OF diff_le_self n(3), of 1] assms(1) n(2) that by (cases "r' = r") (auto simp: csr_ok_def)
  then show "csr_ok c'" using assms n(1)
    by (auto simp: row_swap_remove_def csr_ok_def row_count_def row_capacity_def row_length_def Let_def split: if_splits)
  show "csr_rows c' = (if removed then (csr_rows c)[r := butlast ((row_of r c)[slot := last (row_of r c)])] else csr_rows c)"
  proof (cases removed)
    case True
    then have k: "slot < cs_counts c ! r" "slot < row_capacity r c" using p len n by simp_all
    let ?v = "cs_flat c ! (cs_offsets c ! r + cs_counts c ! r - 1)"
    have c': "c' = c\<lparr>cs_flat := (cs_flat c)[cs_offsets c ! r + slot := ?v], cs_counts := (cs_counts c)[r := cs_counts c ! r - 1]\<rparr>"
      using assms(3) True n by (auto simp: row_swap_remove_def row_length_def Let_def split: if_splits)
    have other: "row_of r' c' = row_of r' c" if "r' < row_count c" "r' \<noteq> r" for r'
      using row_of_write [OF assms(1,2) that(1) k(2), of ?v] that n by (simp add: c' row_of_def row_length_def)
    have v: "last (row_of r c) = ?v"
    proof -
      have "row_of r c \<noteq> []" using k(1) len by (metis length_0_conv less_zeroE)
      then have "last (row_of r c) = row_of r c ! (cs_counts c ! r - 1)" by (simp add: last_conv_nth len)
      also have "\<dots> = ?v" using k(1) csr_layout(1) [OF assms(1,2)] n by (simp add: row_of_def row_length_def)
      finally show ?thesis .
    qed
    have "row_of r c' = take (cs_counts c ! r - 1) ((row_of r c)[slot := ?v])"
      using n by (simp add: c' row_of_def row_length_def drop_update_swap take_update_swap)
    then have this_row: "row_of r c' = butlast ((row_of r c)[slot := last (row_of r c)])"
      by (simp add: v butlast_conv_take len)
    have "row_count c' = row_count c" by (simp add: c' row_count_def)
    then show ?thesis using True other this_row assms(2)
      by (simp add: csr_rows_def list_eq_iff_nth_eq nth_list_update)
  qed (use assms(3) in \<open>auto simp: row_swap_remove_def Let_def split: if_splits\<close>)
qed

subsection \<open>The payday counters\<close>

lemma fold_reset_since:
  "length (rs_since (fold reset_since ps rs)) = length (rs_since rs)"
  "p < length (rs_since rs) \<Longrightarrow> rs_since (fold reset_since ps rs) ! p = (if p \<in> set ps then 0 else rs_since rs ! p)"
proof (induction ps arbitrary: rs)
  case (Cons q ps)
  { case 1 show ?case using Cons(1) by (simp add: reset_since_def set_since_def) }
  { case 2 then show ?case using Cons(2) [of "reset_since q rs"]
      by (auto simp: reset_since_def set_since_def nth_list_update) }
qed simp_all

lemma update_payday_tracks:
  "length (rs_since (snd (update_payday_state idx day rs))) = length (rs_since rs)"
  "p < length (rs_since rs) \<Longrightarrow> rs_since (snd (update_payday_state idx day rs)) ! p =
     (if p \<in> set (persons_on day idx) then 0 else rs_since rs ! p + (if rs_since rs ! p < since_cap then 1 else 0))"
  using fold_reset_since [where rs = "bump_all_since rs" and ps = "persons_on day idx"]
  by (simp_all add: update_payday_state_def Let_def bump_all_since_def)

lemma persons_on_member:
  "p \<in> set (persons_on day (payday_index_build paydays n)) \<longleftrightarrow>
     day < n \<and> p < row_count paydays \<and> day \<in> set (person_view p paydays)"
  by (auto simp: persons_on_counts count_list_0_iff)

text \<open>The counter of a day, after its update.\<close>

definition run_paydays :: "payday_index \<Rightarrow> nat \<Rightarrow> run_state \<Rightarrow> run_state" where
  "run_paydays idx d = fold (\<lambda>day rs. snd (update_payday_state idx day rs)) [0..<Suc d]"

lemma run_paydays_Suc: "run_paydays idx (Suc d) rs = snd (update_payday_state idx (Suc d) (run_paydays idx d rs))"
  by (simp add: run_paydays_def)

lemma warm_start_regular:
  assumes "f < T" "T \<le> 65535" "T \<noteq> 0"
  shows "unat (warm_start_since (of_nat f # of_nat (f + T) # rest)) = (if f = 0 then 0 else T - f - 1)"
proof -
  have gap: "of_nat (f + T) - of_nat f = (of_nat T :: u32)" by simp
  have small: "unat (of_nat T :: u32) = T" "unat (of_nat f :: u32) = f" "unat (of_nat T :: u16) = T"
    using assms by (simp_all add: unat_of_nat)
  have "(of_nat T :: u32) \<noteq> 0" using small(1) assms(3) by auto
  moreover have "min (of_nat T :: u32) 65535 = of_nat T" using small(1) assms(2) by (simp add: min_def word_le_nat_alt)
  ultimately have cycle: "infer_cycle_days (of_nat f # of_nat (f + T) # rest) = of_nat T"
    using gap assms(2) by (simp add: infer_cycle_days_def Let_def unsigned_of_nat take_bit_nat_eq_self)
  have wide: "ucast (of_nat T :: u16) = (of_nat T :: u32)"
    using assms(2) by (simp add: unsigned_of_nat take_bit_nat_eq_self)
  have m: "(of_nat f :: u32) mod of_nat T = of_nat f"
    using assms(1) small by (simp add: word_unat_eq_iff unat_mod_distrib)
  have diff: "unat (of_nat T - of_nat f :: u32) = T - f"
    using assms(1) small by (simp add: unat_sub word_le_nat_alt)
  then have d: "unat ((of_nat T - of_nat f) mod of_nat T :: u32) = (T - f) mod T"
    using small by (simp add: unat_mod_distrib)
  show ?thesis
  proof (cases "f = 0")
    case True
    then show ?thesis using d cycle wide m by (simp add: warm_start_since_def Let_def word_unat_eq_iff)
  next
    case False
    then have "(T - f) mod T = T - f" using assms(1) by simp
    then have nz: "(of_nat T - of_nat f) mod of_nat T \<noteq> (0 :: u32)"
      using d assms(1) by (metis diff_is_0_eq not_le unat_0)
    have "unat ((of_nat T - of_nat f) mod of_nat T - 1 :: u32) = T - f - 1"
      using nz d \<open>(T - f) mod T = T - f\<close> by (simp add: unat_minus_one)
    then have "unat (ucast ((of_nat T - of_nat f) mod of_nat T - 1 :: u32) :: u16) = T - f - 1"
      using assms(2) by (simp add: unsigned_ucast_eq take_bit_nat_eq_self)
    then show ?thesis using False nz cycle wide m by (simp add: warm_start_since_def Let_def)
  qed
qed

text \<open>With a pay cycle of \<open>T\<close> days and the first payday inside the first cycle, every counter is the
days since the last payday of the cycle, the virtual paydays before the window included.\<close>

lemma payday_counter_steady:
  assumes "person_view p paydays = map (\<lambda>k. f + k * T) [0..<m]" "f < T" "T \<le> 65535" "p < row_count paydays"
    "p < length (rs_since rs)" "rs_since rs ! p = warm_start_since (of_nat f # of_nat (f + T) # rest)"
  shows "d < n \<Longrightarrow> d < f + m * T \<Longrightarrow>
    length (rs_since (run_paydays (payday_index_build paydays n) d rs)) = length (rs_since rs) \<and>
    unat (rs_since (run_paydays (payday_index_build paydays n) d rs) ! p) = (d + (T - f)) mod T"
proof (induction d)
  case 0
  have w: "unat (rs_since rs ! p) = (if f = 0 then 0 else T - f - 1)"
    using warm_start_regular [OF assms(2,3)] assms(2,6) by simp
  have paid: "p \<in> set (persons_on 0 (payday_index_build paydays n)) \<longleftrightarrow> f = 0"
    using 0 assms(1,2,4) by (cases m) (auto simp: persons_on_member image_iff)
  have "rs_since rs ! p < since_cap" using w assms(3) by (auto simp: word_less_nat_alt since_cap_def split: if_splits)
  moreover have "unat (rs_since rs ! p + 1) = T - f" if "f \<noteq> 0"
    using w that assms(2,3) by (simp add: unat_word_ariths)
  ultimately show ?case
    using update_payday_tracks [where idx = "payday_index_build paydays n" and day = 0 and rs = rs] assms(2,5) paid
    by (auto simp: run_paydays_def)
next
  case (Suc d)
  let ?idx = "payday_index_build paydays n" and ?rs = "run_paydays (payday_index_build paydays n) d rs"
  have IH: "length (rs_since ?rs) = length (rs_since rs)" "unat (rs_since ?rs ! p) = (d + (T - f)) mod T"
    using Suc by auto
  have lt: "(d + (T - f)) mod T < T" using assms(2) by simp
  have cap: "rs_since ?rs ! p < since_cap"
    using lt assms(3) by (simp add: word_less_nat_alt since_cap_def IH(2))
  have paid: "p \<in> set (persons_on (Suc d) ?idx) \<longleftrightarrow> (Suc d + (T - f)) mod T = 0"
  proof
    assume "p \<in> set (persons_on (Suc d) ?idx)"
    then obtain k where "Suc d = f + k * T" using assms(1) by (auto simp: persons_on_member)
    then have "Suc d + (T - f) = Suc k * T" using assms(2) by simp
    then show "(Suc d + (T - f)) mod T = 0" by (metis mod_mult_self2_is_0)
  next
    assume "(Suc d + (T - f)) mod T = 0"
    then obtain q where q: "Suc d + (T - f) = T * q" by (auto simp: mod_eq_0_iff_dvd)
    then have "0 < q" by (cases q) auto
    then obtain k where "q = Suc k" by (cases q) auto
    then have k: "Suc d = f + k * T" using q assms(2) by (simp add: mult.commute)
    then have "k * T < m * T" using Suc.prems(2) by simp
    then have "k < m" by simp
    then show "p \<in> set (persons_on (Suc d) ?idx)" using Suc.prems(1) assms(1,4) k by (auto simp: persons_on_member)
  qed
  have "unat (rs_since ?rs ! p + 1) = Suc ((d + (T - f)) mod T)"
    using lt assms(3) by (simp add: unat_word_ariths IH(2))
  then have "unat (rs_since (snd (update_payday_state ?idx (Suc d) ?rs)) ! p) = (Suc d + (T - f)) mod T"
    using update_payday_tracks(2) [where p = p and rs = ?rs and idx = ?idx and day = "Suc d"] IH(1) assms(5) cap paid
    by (simp add: mod_Suc)
  then show ?case using update_payday_tracks(1) IH(1) by (simp add: run_paydays_Suc)
qed

end
