(* ===== verification/SimClaims.thy ===== *)
theory SimClaims
  imports SimStateFacts
begin

text \<open>The properties of the payday index, of the compressed rows and of the payday counters.\<close>

subsection \<open>The payday index\<close>

text \<open>C35: the payday index is exact. For a day inside the window \<open>personsOn\<close> lists the people in index order,
each as often as the day occurs among its paydays, and for a day outside it lists nobody: the counting sort of
\<open>PaydayIndex::build\<close> neither loses nor misplaces a payday.\<close>

theorem payday_index_is_exact:
  "persons_on day (payday_index_build paydays n) =
     (if day < n then concat (map (\<lambda>p. replicate (count_list (person_view p paydays) day) p) [0..<row_count paydays]) else [])"
  by (rule persons_on_counts)

subsection \<open>Rows that grow and shrink\<close>

text \<open>\<open>pushBack\<close> and \<open>swapRemove\<close> refine the operations on a list of lists. A push appends to its row when
the row has room left and is refused otherwise, a removal moves the last entry of the row into the freed slot
and is refused past the end, no other row changes, and the layout stays well formed.\<close>

theorem csr_refines_rows:
  assumes "csr_ok c" "r < row_count c"
  shows "(case row_push_back r v c of (pushed, c') \<Rightarrow>
      csr_ok c' \<and> pushed = (length (csr_rows c ! r) < row_capacity r c) \<and>
      csr_rows c' = (if pushed then (csr_rows c)[r := csr_rows c ! r @ [v]] else csr_rows c)) \<and>
    (case row_swap_remove r slot c of (removed, c') \<Rightarrow>
      csr_ok c' \<and> removed = (slot < length (csr_rows c ! r)) \<and>
      csr_rows c' = (if removed then (csr_rows c)[r := butlast ((csr_rows c ! r)[slot := last (csr_rows c ! r)])] else csr_rows c))"
proof (rule conjI)
  have row: "csr_rows c ! r = row_of r c" using assms(2) by (simp add: csr_rows_def)
  show "case row_push_back r v c of (pushed, c') \<Rightarrow>
      csr_ok c' \<and> pushed = (length (csr_rows c ! r) < row_capacity r c) \<and>
      csr_rows c' = (if pushed then (csr_rows c)[r := csr_rows c ! r @ [v]] else csr_rows c)"
    using csr_push [OF assms] row by (auto split: prod.split)
  show "case row_swap_remove r slot c of (removed, c') \<Rightarrow>
      csr_ok c' \<and> removed = (slot < length (csr_rows c ! r)) \<and>
      csr_rows c' = (if removed then (csr_rows c)[r := butlast ((csr_rows c ! r)[slot := last (csr_rows c ! r)])] else csr_rows c)"
    using csr_remove [OF assms] row by (auto split: prod.split)
qed

text \<open>Two rows of capacity two and one, the first holding 4, 5.\<close>

definition csr_demo :: "nat csr" where "csr_demo = csr_variable [0, 2, 3] [4, 5, 6] [2, 0]"

lemma csr_refines_rows_witness:
  "csr_rows (snd (row_swap_remove 0 0 csr_demo)) = [[5], []] \<and> \<not> fst (row_push_back 0 9 csr_demo)"
proof -
  have ok: "csr_ok csr_demo" "0 < row_count csr_demo"
    by (auto simp: csr_demo_def csr_variable_def csr_ok_def row_count_def row_capacity_def nth_Cons split: nat.splits)
  have rows: "csr_rows csr_demo = [[4, 5], []]"
    by (simp add: csr_demo_def csr_variable_def csr_rows_def row_count_def row_of_def row_length_def upt_rec)
  have cap: "row_capacity 0 csr_demo = 2" by (simp add: csr_demo_def csr_variable_def row_capacity_def)
  show ?thesis using csr_refines_rows [OF ok, of 9 0]
    by (auto simp: rows cap split: prod.splits)
qed

subsection \<open>The payday counters\<close>

text \<open>C36: the warm start puts the payday counter into its steady state. For a person paid every \<open>T\<close> days from
day \<open>f < T\<close> on, the counter that the day's emission reads is on every day the days since the last payday of the
cycle continued backwards before the window: no day of the run shows the arbitrary initial value.\<close>

theorem warm_start_is_steady:
  assumes "person_view p paydays = map (\<lambda>k. f + k * T) [0..<m]" "f < T" "T \<le> 65535" "p < row_count paydays"
    "p < length (rs_since rs)" "d < n" "d < f + m * T"
  shows "unat (rs_since (run_paydays (payday_index_build paydays n) d
      (apply_warm_start [(p, of_nat f # of_nat (f + T) # rest)] rs)) ! p) = (d + (T - f)) mod T"
proof -
  let ?rs = "apply_warm_start [(p, of_nat f # of_nat (f + T) # rest)] rs"
  have "rs_since ?rs ! p = warm_start_since (of_nat f # of_nat (f + T) # rest)" "length (rs_since ?rs) = length (rs_since rs)"
    using assms(5) by (simp_all add: apply_warm_start_def set_since_def)
  then show ?thesis using payday_counter_steady [OF assms(1-4), of ?rs rest d n] assms(5-7) by simp
qed

text \<open>Paid on days 3, 10 and 17: on day 1 the last payday was five days ago, on day 11 one day ago.\<close>

definition paydays_demo :: "nat csr" where "paydays_demo = csr_fixed [0, 3] [3, 10, 17]"

lemma warm_start_is_steady_witness:
  "unat (rs_since (run_paydays (payday_index_build paydays_demo 20) 1
      (apply_warm_start [(0, [3, 10, 17])] (run_state_new 1 20 (Fin 5)))) ! 0) = 5 \<and>
   unat (rs_since (run_paydays (payday_index_build paydays_demo 20) 11
      (apply_warm_start [(0, [3, 10, 17])] (run_state_new 1 20 (Fin 5)))) ! 0) = 1"
proof -
  have view: "person_view 0 paydays_demo = map (\<lambda>k. 3 + k * 7) [0..<3]"
    by (simp add: person_view_def paydays_demo_def csr_fixed_def row_of_def row_length_def row_capacity_def upt_rec)
  have rows: "0 < row_count paydays_demo" by (simp add: paydays_demo_def csr_fixed_def row_count_def)
  have state: "0 < length (rs_since (run_state_new 1 20 (Fin 5)))" by (simp add: run_state_new_def)
  show ?thesis
    using warm_start_is_steady [OF view _ _ rows state, of 1 20 "[17]"] warm_start_is_steady [OF view _ _ rows state, of 11 20 "[17]"]
    by simp
qed

text \<open>
  The comment of \<open>warm_start.hpp\<close> takes a vanishing \<open>d_emit(0)\<close> for a payday on day 0. When the first payday is a
  whole cycle into the window there is none: the counter starts at 0, the bump of day 0 makes it 1, and it stays
  one day ahead of the steady state until the first payday.
\<close>

lemma warm_start_whole_cycle:
  "unat (rs_since (run_paydays (payday_index_build (csr_fixed [0, 2] [7, 14]) 20) 0
      (apply_warm_start [(0, [7, 14])] (run_state_new 1 20 (Fin 5)))) ! 0) = 1"
proof -
  have w: "warm_start_since [7, 14] = 0" by (simp add: warm_start_since_def infer_cycle_days_def min_def)
  have "persons_on 0 (payday_index_build (csr_fixed [0, 2] [7, 14]) 20) = []"
    by (simp add: persons_on_counts person_view_def csr_fixed_def row_of_def row_length_def row_capacity_def row_count_def upt_rec)
  then show ?thesis using w
    by (simp add: run_paydays_def update_payday_state_def bump_all_since_def apply_warm_start_def set_since_def run_state_new_def since_cap_def)
qed

end
