(* ===== verification/Endpoints.thy ===== *)
theory Endpoints
  imports Driver
begin

text \<open>
  The endpoints a row is attributed to (\<open>entities/infra\<close>): the tenure of an endpoint, the hash-derived
  addresses, the pools of public endpoints, the router's walk along the endpoints of a person, and the
  row factory that asks it (\<open>transactions/factory.hpp\<close>).

  The router's pools are generic in the endpoint; the sticky index of a person is the only state it
  changes. A draw that can throw or fail to return is a \<open>result option\<close>, as in the driver.
\<close>

subsection \<open>Draws that may throw or not return\<close>

definition to_run :: "'a option result \<Rightarrow> 'a result option" where
  "to_run r = (case r of Inl e \<Rightarrow> Some (Inl e) | Inr None \<Rightarrow> None | Inr (Some v) \<Rightarrow> Some (Inr v))"

lemma to_run_simps [simp]: "to_run (Inl e) = Some (Inl e)" "to_run (Inr None) = None" "to_run (Inr (Some v)) = Some (Inr v)"
  by (simp_all add: to_run_def)

lemma bind_run_Inr: "bind_run r f = Some (Inr v) \<longleftrightarrow> (\<exists>u. r = Some (Inr u) \<and> f u = Some (Inr v))"
  by (cases r) (auto simp: bind_run_def split: sum.split)

subsection \<open>Tenures and derived addresses\<close>

record tenure =
  tn_first :: i64
  tn_last_excl :: i64

definition tenure_contains :: "tenure \<Rightarrow> i64 \<Rightarrow> bool" where
  "tenure_contains t ts \<longleftrightarrow> tn_first t \<le> ts \<and> ts < tn_last_excl t"

definition splitmix :: "u64 \<Rightarrow> u64" where
  "splitmix value =
     (let value = value + 0x9E3779B97F4A7C15;
          value = (value XOR drop_bit 30 value) * 0xBF58476D1CE4E5B9;
          value = (value XOR drop_bit 27 value) * 0x94D049BB133111EB
      in value XOR drop_bit 31 value)"

definition unit_from :: "u64 \<Rightarrow> f64" where
  "unit_from mixed = fmul (f64_of_int (uint (drop_bit 11 (splitmix mixed)))) (lit (1 / 2 ^ 53))"

definition endpoint_ip_domain :: u64 where "endpoint_ip_domain = 0x4445525600000001"

definition mix_identity :: "device_identity \<Rightarrow> u64" where
  "mix_identity d =
     (let kind = ucast (owner_byte (dev_owner_type d)) :: u64
      in splitmix (dev_owner_id d + fnv64_prime) XOR splitmix (push_bit 40 kind XOR ucast (dev_slot d)))"

definition ipv4_from :: "u64 \<Rightarrow> u32" where
  "ipv4_from seed =
     (let lo = splitmix (seed XOR endpoint_ip_domain); hi = splitmix lo
      in ipv4_pack (ucast (11 + lo mod 212)) (ucast (drop_bit 24 lo mod 256)) (ucast (drop_bit 8 hi mod 256))
           (ucast (1 + drop_bit 32 hi mod 254)))"

definition endpoint_ip :: "device_identity \<Rightarrow> u32" where
  "endpoint_ip d = ipv4_from (mix_identity d)"

definition burner_slot_domain :: u64 where "burner_slot_domain = 0x4445525600000002"
definition burner_slot_base :: u32 where "burner_slot_base = 2 ^ 20"

definition burner_device_from :: "device_identity \<Rightarrow> u64 \<Rightarrow> device_identity" where
  "burner_device_from d seq =
     (let mixed = splitmix (burner_slot_domain XOR splitmix seq XOR mix_identity d)
      in d\<lparr>dev_slot := burner_slot_base + ucast (mixed mod 0xFFFFF)\<rparr>)"

definition attacker_owner_id_base :: u64 where "attacker_owner_id_base = 0xACE00000"

definition is_burner_device :: "device_identity \<Rightarrow> bool" where
  "is_burner_device d \<longleftrightarrow> dev_owner_type d = OwnerRing \<and> attacker_owner_id_base \<le> dev_owner_id d \<and> burner_slot_base \<le> dev_slot d"

subsection \<open>Pools of public endpoints\<close>

definition public_unit_for :: "u64 \<Rightarrow> u64 \<Rightarrow> u64 \<Rightarrow> f64" where
  "public_unit_for a b domain =
     (let mixed = splitmix (domain XOR splitmix a) XOR (splitmix (b + fnv64_prime) * golden64)
      in unit_from mixed)"

definition home_domain :: u64 where "home_domain = 0x5055424C000001"
definition use_domain :: u64 where "use_domain = 0x5055424C000002"

record 'e public_pool =
  pb_links :: "('e \<times> tenure) list"
  pb_lines :: "(nat \<times> nat) list"
  pb_cdf :: "f64 list"
  pb_share :: f64
  pb_domain :: u64

definition public_active :: "'e public_pool \<Rightarrow> bool" where
  "public_active p \<longleftrightarrow> pb_lines p \<noteq> [] \<and> length (pb_cdf p) = length (pb_lines p) \<and> flt (Fin 0) (pb_share p)"

text \<open>The scan of the reach weights: the first line whose weight exceeds the uniform, the last one otherwise.\<close>

fun scan_cdf :: "f64 \<Rightarrow> f64 list \<Rightarrow> nat \<Rightarrow> nat" where
  "scan_cdf u [] i = 0"
| "scan_cdf u [c] i = i"
| "scan_cdf u (c # cs) i = (if flt u c then i else scan_cdf u cs (Suc i))"

definition home_line_for :: "nat \<Rightarrow> 'e public_pool \<Rightarrow> nat" where
  "home_line_for person p = scan_cdf (public_unit_for (of_nat person) 0 (home_domain XOR pb_domain p)) (pb_cdf p) 0"

definition live_on :: "nat \<Rightarrow> i64 \<Rightarrow> 'e public_pool \<Rightarrow> 'e option" where
  "live_on line ts p =
     (if length (pb_lines p) \<le> line then None
      else let (first, links) = pb_lines p ! line
           in map_option fst (List.find (\<lambda>(e, t). tenure_contains t ts) (take links (drop first (pb_links p)))))"

definition covering_on :: "nat \<Rightarrow> i64 \<Rightarrow> i64 \<Rightarrow> 'e public_pool \<Rightarrow> 'e option" where
  "covering_on line from_ts to_ts p =
     (if length (pb_lines p) \<le> line \<or> to_ts \<le> from_ts then None
      else let (first, links) = pb_lines p ! line
           in map_option fst (List.find (\<lambda>(e, t). tenure_contains t from_ts \<and> tenure_contains t (to_ts - 1))
                (take links (drop first (pb_links p)))))"

definition public_resolve :: "nat \<Rightarrow> i64 \<Rightarrow> u64 \<Rightarrow> 'e public_pool \<Rightarrow> 'e option" where
  "public_resolve person ts salt p =
     (if \<not> public_active p then None
      else let use = public_unit_for (of_nat person) salt (use_domain XOR pb_domain p)
           in if fle (pb_share p) use then None else live_on (home_line_for person p) ts p)"

subsection \<open>Routing along a person's endpoints\<close>

text \<open>The sticky index of a person; \<open>None\<close> is \<open>kUnanchored\<close>.\<close>

type_synonym sticky = "nat option"

definition live_indices :: "tenure list \<Rightarrow> i64 \<Rightarrow> nat list" where
  "live_indices spans ts = filter (\<lambda>i. tenure_contains (spans ! i) ts) [0..<length spans]"

text \<open>Anchoring, or succeeding a retired endpoint by walking forward.\<close>

definition anchor :: "tenure list \<Rightarrow> i64 \<Rightarrow> sticky \<Rightarrow> nat" where
  "anchor spans ts cur =
     (case cur of
        Some c \<Rightarrow>
          if c < length spans \<and> tenure_contains (spans ! c) ts then c
          else let begin = (if length spans \<le> c then 0 else c + 1)
               in (case filter (\<lambda>i. begin \<le> i) (live_indices spans ts) of [] \<Rightarrow> hd (live_indices spans ts) | i # _ \<Rightarrow> i)
      | None \<Rightarrow> hd (live_indices spans ts))"

definition route_live :: "f64 \<Rightarrow> tenure list \<Rightarrow> i64 \<Rightarrow> sticky \<Rightarrow> rng \<Rightarrow> (nat option \<times> sticky \<times> rng) result option" where
  "route_live switch_p spans ts cur g =
     (let live = live_indices spans ts
      in if live = [] then Some (Inr (None, cur, g))
         else
           let c = anchor spans ts cur
           in if 1 < length live
              then let (switch, g) = coin switch_p g
                   in if switch
                      then bind_run (to_run (choice_index (length live - 1) g)) (\<lambda>(pick, g).
                             let c = filter (\<lambda>i. i \<noteq> c) live ! pick in Some (Inr (Some c, Some c, g)))
                      else Some (Inr (Some c, Some c, g))
              else Some (Inr (Some c, Some c, g)))"

text \<open>Without a tenure table for the person the whole pool is live.\<close>

definition route_lifetime :: "f64 \<Rightarrow> nat \<Rightarrow> sticky \<Rightarrow> rng \<Rightarrow> (nat option \<times> sticky \<times> rng) result option" where
  "route_lifetime switch_p items cur g =
     (case cur of
        None \<Rightarrow> Some (Inr (Some 0, Some 0, g))
      | Some c \<Rightarrow>
          if 1 < items
          then let (switch, g) = coin switch_p g
               in if switch
                  then bind_run (to_run (choice_index (items - 1) g)) (\<lambda>(pick, g).
                         let pick = (if c \<le> pick then pick + 1 else pick) in Some (Inr (Some pick, Some pick, g)))
                  else Some (Inr (Some c, Some c, g))
          else Some (Inr (Some c, Some c, g)))"

definition route_from_pool ::
    "f64 \<Rightarrow> 'e list option \<Rightarrow> tenure list option \<Rightarrow> i64 \<Rightarrow> sticky \<Rightarrow> rng \<Rightarrow> ('e option \<times> sticky \<times> rng) result option" where
  "route_from_pool switch_p pool spans ts cur g =
     (case pool of
        None \<Rightarrow> Some (Inr (None, cur, g))
      | Some items \<Rightarrow>
          if items = [] then Some (Inr (None, cur, g))
          else bind_run
            (case spans of
               None \<Rightarrow> route_lifetime switch_p (length items) cur g
             | Some ss \<Rightarrow>
                 if length ss \<noteq> length items then route_lifetime switch_p (length items) cur g
                 else route_live switch_p ss ts cur g)
            (\<lambda>(i, cur, g). Some (Inr (map_option (\<lambda>i. items ! i) i, cur, g))))"

definition live_from_pool ::
    "'e list option \<Rightarrow> tenure list option \<Rightarrow> i64 \<Rightarrow> i64 \<Rightarrow> u64 \<Rightarrow> 'e option" where
  "live_from_pool pool spans ts end_ts salt =
     (case pool of
        None \<Rightarrow> None
      | Some items \<Rightarrow>
          if items = [] then None
          else case spans of
              None \<Rightarrow> Some (items ! (unat salt mod length items))
            | Some ss \<Rightarrow>
                if length ss \<noteq> length items then Some (items ! (unat salt mod length items))
                else let cover = filter (\<lambda>i. tenure_contains (ss ! i) ts \<and> end_ts \<le> tn_last_excl (ss ! i)) [0..<length items]
                     in if cover = [] then None else Some (items ! (cover ! (unat salt mod length cover))))"

record router =
  rt_switch_p :: f64
  rt_owner :: "key \<Rightarrow> nat option"
  rt_devices :: "nat \<Rightarrow> device_identity list option"
  rt_ips :: "nat \<Rightarrow> u32 list option"
  rt_device_tenures :: "nat \<Rightarrow> tenure list option"
  rt_ip_tenures :: "nat \<Rightarrow> tenure list option"
  rt_terminals :: "device_identity public_pool"
  rt_carrier_nat :: "u32 public_pool"
  rt_cur_device :: "nat \<Rightarrow> sticky"
  rt_cur_ip :: "nat \<Rightarrow> sticky"

definition router_build ::
    "f64 \<Rightarrow> (key \<Rightarrow> nat option) \<Rightarrow> (nat \<Rightarrow> device_identity list option) \<Rightarrow> (nat \<Rightarrow> u32 list option) \<Rightarrow>
     (nat \<Rightarrow> tenure list option) \<Rightarrow> (nat \<Rightarrow> tenure list option) \<Rightarrow> device_identity public_pool \<Rightarrow> u32 public_pool \<Rightarrow> router" where
  "router_build switch_p owners devices ips device_tenures ip_tenures terminals nat_pool =
     \<lparr>rt_switch_p = switch_p, rt_owner = owners, rt_devices = devices, rt_ips = ips,
      rt_device_tenures = device_tenures, rt_ip_tenures = ip_tenures, rt_terminals = terminals,
      rt_carrier_nat = nat_pool, rt_cur_device = (\<lambda>_. None), rt_cur_ip = (\<lambda>_. None)\<rparr>"

definition route_device_for :: "nat \<Rightarrow> i64 \<Rightarrow> rng \<Rightarrow> router \<Rightarrow> (device_identity option \<times> rng \<times> router) result option" where
  "route_device_for person ts g r =
     bind_run (route_from_pool (rt_switch_p r) (rt_devices r person) (rt_device_tenures r person) ts (rt_cur_device r person) g)
       (\<lambda>(d, cur, g). Some (Inr (d, g, r\<lparr>rt_cur_device := (rt_cur_device r)(person := cur)\<rparr>)))"

definition route_ip_for :: "nat \<Rightarrow> i64 \<Rightarrow> rng \<Rightarrow> router \<Rightarrow> (u32 option \<times> rng \<times> router) result option" where
  "route_ip_for person ts g r =
     bind_run (route_from_pool (rt_switch_p r) (rt_ips r person) (rt_ip_tenures r person) ts (rt_cur_ip r person) g)
       (\<lambda>(ip, cur, g). Some (Inr (ip, g, r\<lparr>rt_cur_ip := (rt_cur_ip r)(person := cur)\<rparr>)))"

definition live_ip_for :: "nat \<Rightarrow> i64 \<Rightarrow> i64 \<Rightarrow> u64 \<Rightarrow> router \<Rightarrow> u32 option" where
  "live_ip_for person ts end_ts salt r = live_from_pool (rt_ips r person) (rt_ip_tenures r person) ts end_ts salt"

definition live_device_for :: "nat \<Rightarrow> i64 \<Rightarrow> i64 \<Rightarrow> u64 \<Rightarrow> router \<Rightarrow> device_identity option" where
  "live_device_for person ts end_ts salt r =
     live_from_pool (rt_devices r person) (rt_device_tenures r person) ts end_ts salt"

definition public_device_for :: "nat \<Rightarrow> i64 \<Rightarrow> u64 \<Rightarrow> router \<Rightarrow> device_identity option" where
  "public_device_for person ts salt r = public_resolve person ts salt (rt_terminals r)"

definition public_ip_for :: "nat \<Rightarrow> i64 \<Rightarrow> u64 \<Rightarrow> router \<Rightarrow> u32 option" where
  "public_ip_for person ts salt r = public_resolve person ts salt (rt_carrier_nat r)"

definition public_device_for_case :: "nat \<Rightarrow> i64 \<Rightarrow> i64 \<Rightarrow> router \<Rightarrow> device_identity option" where
  "public_device_for_case person from_ts to_ts r =
     (if \<not> public_active (rt_terminals r) then None
      else covering_on (home_line_for person (rt_terminals r)) from_ts to_ts (rt_terminals r))"

subsection \<open>The row factory\<close>

record draft =
  df_source :: key
  df_destination :: key
  df_amount :: f64
  df_time :: i64
  df_fraud :: u8
  df_ring :: int
  df_channel :: tag
  df_chain :: int

record shared_infra =
  sh_device :: "u32 \<Rightarrow> device_identity option"
  sh_ip :: "u32 \<Rightarrow> u32 option"
  sh_device_p :: f64
  sh_ip_p :: f64

definition device_for_ring :: "int \<Rightarrow> shared_infra \<Rightarrow> device_identity option" where
  "device_for_ring ring s = (if ring < 0 then None else sh_device s (word_of_int ring))"

definition ip_for_ring :: "int \<Rightarrow> shared_infra \<Rightarrow> u32 option" where
  "ip_for_ring ring s = (if ring < 0 then None else sh_ip s (word_of_int ring))"

text \<open>The fields the draft fixes, before any endpoint is resolved.\<close>

definition draft_row :: "draft \<Rightarrow> txn" where
  "draft_row d =
     default_txn\<lparr>tx_source := df_source d, tx_target := df_destination d, tx_amount := df_amount d, tx_time := df_time d,
       tx_fraud := (tx_fraud default_txn)\<lparr>fr_flag := df_fraud d,
         fr_ring := (if 0 \<le> df_ring d then Some (word_of_int (df_ring d)) else fr_ring (tx_fraud default_txn)),
         fr_chain := (if 0 \<le> df_chain d then Some (word_of_int (df_chain d)) else fr_chain (tx_fraud default_txn))\<rparr>,
       tx_session := (tx_session default_txn)\<lparr>se_channel := df_channel d\<rparr>\<rparr>"

text \<open>\<open>Factory::make\<close>: the ring's shared endpoints, then the owner's own, overridden by a public terminal for
both or a carrier address for the IP alone.\<close>

definition ring_endpoints :: "shared_infra option \<Rightarrow> draft \<Rightarrow> rng \<Rightarrow> txn \<Rightarrow> bool \<times> bool \<times> txn \<times> rng" where
  "ring_endpoints ring d g t =
     (case ring of
        None \<Rightarrow> (False, False, t, g)
      | Some s \<Rightarrow>
          if df_ring d < 0 then (False, False, t, g)
          else
            let (dev, t, g) =
                  (case device_for_ring (df_ring d) s of
                     None \<Rightarrow> (False, t, g)
                   | Some v \<Rightarrow> let (hit, g) = coin (sh_device_p s) g
                       in (hit, if hit then t\<lparr>tx_session := (tx_session t)\<lparr>se_device := v\<rparr>\<rparr> else t, g));
                (ip, t, g) =
                  (case ip_for_ring (df_ring d) s of
                     None \<Rightarrow> (False, t, g)
                   | Some v \<Rightarrow> let (hit, g) = coin (sh_ip_p s) g
                       in (hit, if hit then t\<lparr>tx_session := (tx_session t)\<lparr>se_ip := v\<rparr>\<rparr> else t, g))
            in (dev, ip, t, g))"

definition set_device :: "device_identity option \<Rightarrow> txn \<Rightarrow> txn" where
  "set_device d t = (case d of None \<Rightarrow> t | Some v \<Rightarrow> t\<lparr>tx_session := (tx_session t)\<lparr>se_device := v\<rparr>\<rparr>)"

definition set_ip :: "u32 option \<Rightarrow> txn \<Rightarrow> txn" where
  "set_ip ip t = (case ip of None \<Rightarrow> t | Some v \<Rightarrow> t\<lparr>tx_session := (tx_session t)\<lparr>se_ip := v\<rparr>\<rparr>)"

text \<open>The public overrides; \<open>salt\<close> is the row's own time.\<close>

definition public_endpoints :: "bool \<Rightarrow> bool \<Rightarrow> nat \<Rightarrow> i64 \<Rightarrow> router \<Rightarrow> txn \<Rightarrow> txn" where
  "public_endpoints dev_resolved ip_resolved owner ts r t =
     (let salt = word_of_int ts;
          terminal = (if \<not> dev_resolved \<and> \<not> ip_resolved then public_device_for owner ts salt r else None)
      in case terminal of
           Some v \<Rightarrow> set_ip (Some (endpoint_ip v)) (set_device (Some v) t)
         | None \<Rightarrow> if \<not> ip_resolved then set_ip (public_ip_for owner ts salt r) t else t)"

definition owner_endpoints :: "bool \<Rightarrow> bool \<Rightarrow> draft \<Rightarrow> rng \<Rightarrow> router \<Rightarrow> txn \<Rightarrow> (txn \<times> rng \<times> router) result option" where
  "owner_endpoints dev_resolved ip_resolved d g r t =
     (if is_externally_initiated (df_channel d) \<or> dev_resolved \<and> ip_resolved then Some (Inr (t, g, r))
      else case rt_owner r (df_source d) of
          None \<Rightarrow> Some (Inr (t, g, r))
        | Some owner \<Rightarrow>
            bind_run (if dev_resolved then Some (Inr (t, g, r))
                      else bind_run (route_device_for owner (df_time d) g r) (\<lambda>(v, g, r). Some (Inr (set_device v t, g, r))))
              (\<lambda>(t, g, r).
            bind_run (if ip_resolved then Some (Inr (t, g, r))
                      else bind_run (route_ip_for owner (df_time d) g r) (\<lambda>(v, g, r). Some (Inr (set_ip v t, g, r))))
              (\<lambda>(t, g, r).
            Some (Inr (public_endpoints dev_resolved ip_resolved owner (df_time d) r t, g, r)))))"

definition make_row :: "shared_infra option \<Rightarrow> draft \<Rightarrow> rng \<Rightarrow> router option \<Rightarrow> (txn \<times> rng \<times> router option) result option" where
  "make_row ring d g r =
     (let (dev, ip, t, g) = ring_endpoints ring d g (draft_row d)
      in case r of
           None \<Rightarrow> Some (Inr (t, g, None))
         | Some r \<Rightarrow> bind_run (owner_endpoints dev ip d g r t) (\<lambda>(t, g, r). Some (Inr (t, g, Some r))))"

end
