(* ===== verification/CardTerms.thy ===== *)
theory CardTerms
  imports Endpoints Months
begin

text \<open>
  The arithmetic of a revolving card (\<open>transfers/channels/credit_cards\<close>): the statement closes of a window
  and due dates (\<open>cycle.cpp\<close>), the balance integral, minimum payment and interest (\<open>statement.cpp\<close>), the
  sampled payments (\<open>payment.cpp\<close>) and disputes (\<open>dispute/sampler.cpp\<close>).

  The beta sampler (\<open>primitives/random/distributions/beta.hpp\<close>) is an argument, since it rests on the C
  library's transcendental functions.
\<close>

subsection \<open>Rounding (primitives/utils/rounding.hpp)\<close>

definition round_money :: "f64 \<Rightarrow> f64" where
  "round_money amount = fdiv (std_round (fmul amount (Fin 100))) (Fin 100)"

definition floor_and_round :: "f64 \<Rightarrow> f64 \<Rightarrow> f64" where
  "floor_and_round value floor_v = round_money (std_max floor_v value)"

subsection \<open>Closes and due dates\<close>

definition statement_close_time :: time_of_day where
  "statement_close_time = \<lparr>td_hour = 23, td_minute = 30, td_second = 0\<rparr>"

definition clamp_day :: "int \<Rightarrow> int \<Rightarrow> nat \<Rightarrow> int" where
  "clamp_day year month requested = min (int requested) (days_in_month year month)"

text \<open>The loop over the months, from the month of the window's start.\<close>

partial_function (option) close_dates_from ::
    "time_point \<Rightarrow> time_point \<Rightarrow> nat \<Rightarrow> int \<Rightarrow> int \<Rightarrow> time_point list \<Rightarrow> time_point list result option" where
  "close_dates_from w_start w_end cycle_day year month closes =
     (case make_time \<lparr>cd_year = year, cd_month = month, cd_day = clamp_day year month cycle_day\<rparr> statement_close_time of
        Inl e \<Rightarrow> Some (Inl e)
      | Inr close \<Rightarrow>
          if w_end \<le> close then Some (Inr closes)
          else
            let closes = (if w_start \<le> close then closes @ [close] else closes)
            in if month = 12 then close_dates_from w_start w_end cycle_day (year + 1) 1 closes
               else close_dates_from w_start w_end cycle_day year (month + 1) closes)"

definition statement_close_dates :: "time_point \<Rightarrow> time_point \<Rightarrow> nat \<Rightarrow> time_point list result option" where
  "statement_close_dates w_start w_end cycle_day =
     (if w_end \<le> w_start \<or> cycle_day = 0 then Some (Inr [])
      else let d = to_calendar_date w_start
           in close_dates_from w_start w_end cycle_day (cd_year d) (cd_month d) [])"

definition resolve_due_date :: "time_point \<Rightarrow> time_point result" where
  "resolve_due_date due =
     (let wd = weekday due;
          adjusted = (if wd = 5 then add_days due 2 else if wd = 6 then add_days due 1 else due)
      in make_time (to_calendar_date adjusted) ((to_time_of_day adjusted)\<lparr>td_second := 0\<rparr>))"

definition is_on_time :: "time_point \<Rightarrow> time_point \<Rightarrow> bool result" where
  "is_on_time payment due = bind_result (resolve_due_date due) (\<lambda>d. Inr (payment \<le> d))"

subsection \<open>Statements\<close>

record billing_terms =
  bt_grace_days :: int
  bt_min_pct :: f64
  bt_min_dollars :: f64
  bt_late_fee :: f64

definition balance_delta :: "key \<Rightarrow> txn \<Rightarrow> f64" where
  "balance_delta acct t =
     (if tx_source t = acct then fneg (tx_amount t) else if tx_target t = acct then tx_amount t else Fin 0)"

definition interval_days :: "time_point \<Rightarrow> time_point \<Rightarrow> f64" where
  "interval_days a b =
     (if b \<le> a then Fin 0 else fdiv (f64_of_int (b - a)) (f64_of_int seconds_per_day))"

record balance_snapshot =
  bl_average :: f64
  bl_ending :: f64

text \<open>One step of the integral: balance, dollar days and the time of the last event.\<close>

definition integrate_event :: "key \<Rightarrow> half_open \<Rightarrow> txn \<Rightarrow> f64 \<times> f64 \<times> time_point \<Rightarrow> f64 \<times> f64 \<times> time_point" where
  "integrate_event acct cycle ev st =
     (case st of (balance, dollar_days, prev) \<Rightarrow>
        if tx_time ev < ho_start cycle \<or> ho_end cycle \<le> tx_time ev then st
        else (fadd balance (balance_delta acct ev),
              fadd dollar_days (fmul balance (interval_days prev (tx_time ev))), tx_time ev))"

definition integrate_balance :: "key \<Rightarrow> f64 \<Rightarrow> txn list \<Rightarrow> half_open \<Rightarrow> balance_snapshot" where
  "integrate_balance acct opening events cycle =
     (if ho_end cycle \<le> ho_start cycle then \<lparr>bl_average = opening, bl_ending = opening\<rparr>
      else
        let (balance, dollar_days, prev) = fold (integrate_event acct cycle) events (opening, Fin 0, ho_start cycle);
            dollar_days = fadd dollar_days (fmul balance (interval_days prev (ho_end cycle)));
            whole = interval_days (ho_start cycle) (ho_end cycle)
        in if fle whole (Fin 0) then \<lparr>bl_average = balance, bl_ending = balance\<rparr>
           else \<lparr>bl_average = fdiv dollar_days whole, bl_ending = balance\<rparr>)"

definition minimum_due :: "billing_terms \<Rightarrow> f64 \<Rightarrow> f64" where
  "minimum_due terms statement_abs = std_max (bt_min_dollars terms) (fmul (bt_min_pct terms) statement_abs)"

definition billable_interest :: "f64 \<Rightarrow> f64 option" where
  "billable_interest raw = (if \<not> is_finite raw \<or> fle raw (lit (1 / 100)) then None else Some (round_money raw))"

subsection \<open>Payments\<close>

record payment_mixture =
  pm_full :: f64
  pm_partial :: f64
  pm_min :: f64
  pm_miss :: f64
  pm_alpha :: f64
  pm_beta :: f64

record payment_timing =
  pt_late_p :: f64
  pt_late_min :: int
  pt_late_max :: int

definition pay_hour_low :: int where "pay_hour_low = 9"
definition pay_hour_high :: int where "pay_hour_high = 21"
definition early_day_window :: int where "early_day_window = 4"

definition autopay_time :: time_of_day where
  "autopay_time = \<lparr>td_hour = 12, td_minute = 0, td_second = 0\<rparr>"

type_synonym beta_sampler = "f64 \<Rightarrow> f64 \<Rightarrow> rng \<Rightarrow> f64 \<times> rng"

definition sample_partial_payment :: "beta_sampler \<Rightarrow> payment_mixture \<Rightarrow> rng \<Rightarrow> f64 \<Rightarrow> f64 \<Rightarrow> f64 \<times> rng" where
  "sample_partial_payment beta m g statement_abs min_due =
     (let remaining = std_max (Fin 0) (fsub statement_abs min_due)
      in if fle remaining (lit (1 / 10 ^ 9)) then (min_due, g)
         else let (fraction, g) = beta (pm_alpha m) (pm_beta m) g
              in (fadd min_due (fmul fraction remaining), g))"

definition sample_payment_amount :: "beta_sampler \<Rightarrow> payment_mixture \<Rightarrow> rng \<Rightarrow> f64 \<Rightarrow> f64 \<Rightarrow> f64 \<times> rng" where
  "sample_payment_amount beta m g statement_abs min_due =
     (let miss = std_max (Fin 0) (pm_miss m); pay_min = std_max (Fin 0) (pm_min m);
          pay_part = std_max (Fin 0) (pm_partial m); pay_full = std_max (Fin 0) (pm_full m);
          whole = fadd (fadd (fadd miss pay_min) pay_part) pay_full
      in if fle whole (Fin 0) then (Fin 0, g)
         else
           let miss = fdiv miss whole; pay_min = fdiv pay_min whole; pay_part = fdiv pay_part whole;
               (u, g) = next_double g
           in if flt u miss then (Fin 0, g)
              else let u = fsub u miss
                in if flt u pay_min then (min_due, g)
                   else let u = fsub u pay_min
                     in if flt u pay_part then sample_partial_payment beta m g statement_abs min_due
                        else (statement_abs, g))"

definition draw_int :: "int \<Rightarrow> int \<Rightarrow> rng \<Rightarrow> (int \<times> rng) result option" where
  "draw_int low high g = to_run (uniform_int low high g)"

definition sample_payment_time :: "payment_timing \<Rightarrow> rng \<Rightarrow> time_point \<Rightarrow> bool \<Rightarrow> (time_point \<times> rng) result option" where
  "sample_payment_time timing g due autopay =
     bind_run (Some (resolve_due_date due)) (\<lambda>cutoff.
     bind_run (Some (make_time (to_calendar_date cutoff) midnight)) (\<lambda>due_day.
       if autopay
       then bind_run (Some (make_time (to_calendar_date cutoff) autopay_time)) (\<lambda>t. Some (Inr (t, g)))
       else
         bind_run (draw_int pay_hour_low pay_hour_high g) (\<lambda>(hour, g).
         bind_run (draw_int 0 60 g) (\<lambda>(minute, g).
           let payment_time = hour * seconds_per_hour + minute * seconds_per_minute; (late, g) = coin (pt_late_p timing) g
           in if late
              then bind_run (draw_int (pt_late_min timing) (pt_late_max timing + 1) g) (\<lambda>(delay, g).
                     let sampled = due_day + delay * seconds_per_day + payment_time
                     in Some (Inr (if sampled \<le> cutoff then sampled + seconds_per_day else sampled, g)))
              else bind_run (draw_int 0 early_day_window g) (\<lambda>(early, g).
                     let sampled = due_day - early * seconds_per_day + payment_time
                     in Some (Inr (if cutoff < sampled then sampled - seconds_per_day else sampled, g)))))))"

subsection \<open>Disputes\<close>

record dispute_behavior =
  db_refund_min :: int
  db_refund_max :: int
  db_chargeback_min :: int
  db_chargeback_max :: int
  db_refund_p :: f64
  db_chargeback_p :: f64

definition post_hour_low :: int where "post_hour_low = 9"
definition post_hour_high :: int where "post_hour_high = 21"

definition delay_bounds_for :: "dispute_behavior \<Rightarrow> credit \<Rightarrow> int \<times> int" where
  "delay_bounds_for b kind =
     (if kind = CrChargeback then (db_chargeback_min b, db_chargeback_max b) else (db_refund_min b, db_refund_max b))"

text \<open>The parts of a draft that every row of a card leaves at their defaults.\<close>

definition card_draft :: "key \<Rightarrow> key \<Rightarrow> f64 \<Rightarrow> i64 \<Rightarrow> tag \<Rightarrow> draft" where
  "card_draft src dst amount ts ch =
     \<lparr>df_source = src, df_destination = dst, df_amount = amount, df_time = ts, df_fraud = 0, df_ring = - 1,
      df_channel = ch, df_chain = - 1\<rparr>"

text \<open>What a session shares with the row factory: the routing lane and the router.\<close>

type_synonym lane = "rng \<times> router option"

definition make_on_lane :: "shared_infra option \<Rightarrow> draft \<Rightarrow> lane \<Rightarrow> (txn \<times> lane) result option" where
  "make_on_lane ring d l = bind_run (make_row ring d (fst l) (snd l)) (\<lambda>(t, g, r). Some (Inr (t, g, r)))"

definition build_credit ::
    "dispute_behavior \<Rightarrow> shared_infra option \<Rightarrow> txn \<Rightarrow> credit \<Rightarrow> time_point \<Rightarrow> rng \<Rightarrow> lane \<Rightarrow>
     (txn option \<times> rng \<times> lane) result option" where
  "build_credit b ring purchase kind w_end g l =
     (let (lo, hi) = delay_bounds_for b kind
      in bind_run (draw_int lo (hi + 1) g) (\<lambda>(delay, g).
         bind_run (draw_int post_hour_low post_hour_high g) (\<lambda>(hour, g).
           let ts = tx_time purchase + delay * seconds_per_day + hour * seconds_per_hour
           in if w_end \<le> ts then Some (Inr (None, g, l))
              else bind_run (make_on_lane ring
                       (card_draft (tx_target purchase) (tx_source purchase) (tx_amount purchase) ts (tag_of (Credit kind))) l)
                     (\<lambda>(t, l). Some (Inr (Some t, g, l))))))"

definition sample_dispute ::
    "dispute_behavior \<Rightarrow> shared_infra option \<Rightarrow> txn \<Rightarrow> time_point \<Rightarrow> rng \<Rightarrow> lane \<Rightarrow> (txn option \<times> rng \<times> lane) result option" where
  "sample_dispute b ring purchase w_end g l =
     (let (u, g) = next_double g
      in if flt u (db_refund_p b) then build_credit b ring purchase CrRefund w_end g l
         else let (u, g) = next_double g
           in if flt u (db_chargeback_p b) then build_credit b ring purchase CrChargeback w_end g l
              else Some (Inr (None, g, l)))"

end
