(* ===== verification/CardSession.thy ===== *)
theory CardSession
  imports CardTerms
begin

text \<open>
  The servicing of one card (\<open>credit_cards/detail/session.hpp\<close>, \<open>session.cpp\<close>): at a statement close a
  session collects the cycle's purchases and disputes, integrates the balance, accrues interest, drafts a
  payment and a late fee, and queues the postings; \<open>advanceLedgerTo\<close> posts the ones that have matured.

  The ledger, the router and the vector of emitted rows are shared by the sessions behind references:
  they are the record \<open>card_world\<close> that every operation returns updated. The C++ sorts here compare
  times only; where two keys tie the model keeps their order, which the sources leave open.
\<close>

datatype autopay = ApManual | ApMinimum | ApFull

record card_account =
  ca_card :: key
  ca_funding :: key
  ca_apr :: f64
  ca_cycle_day :: nat
  ca_autopay :: autopay

record card_env =
  ce_billing :: billing_terms
  ce_mixture :: payment_mixture
  ce_timing :: payment_timing
  ce_disputes :: dispute_behavior
  ce_ring :: "shared_infra option"
  ce_beta :: beta_sampler
  ce_price_scale :: "int \<Rightarrow> f64"

record late_fee =
  lf_due :: time_point
  lf_window_end :: time_point
  lf_amount :: f64

record pending_posting =
  pp_txn :: txn
  pp_fee :: "late_fee option"

record card_session =
  cx_account :: card_account
  cx_balance :: f64
  cx_in_grace :: bool
  cx_cursor :: nat
  cx_deferred :: "txn list"
  cx_rng :: rng
  cx_routing :: rng
  cx_events :: "txn list"
  cx_pending :: "pending_posting list"

record card_world =
  cw_router :: "router option"
  cw_ledger :: "ledger option"
  cw_out :: "txn list"

record cycle =
  cy_start :: time_point
  cy_end :: time_point
  cy_window_end :: time_point

type_synonym servicing = "card_session \<times> card_world"

definition card_session_new :: "card_account \<Rightarrow> rng \<Rightarrow> rng \<Rightarrow> card_session" where
  "card_session_new account g routing =
     \<lparr>cx_account = account, cx_balance = Fin 0, cx_in_grace = True, cx_cursor = 0, cx_deferred = [],
      cx_rng = g, cx_routing = routing, cx_events = [], cx_pending = []\<rparr>"

subsection \<open>Posting\<close>

definition card_supported :: "tag \<Rightarrow> bool" where
  "card_supported ch \<longleftrightarrow> ch = tag_of (Credit CrPayment) \<or> ch = tag_of (Credit CrInterest) \<or> ch = tag_of (Credit CrLateFee) \<or>
     ch = tag_of (Credit CrRefund) \<or> ch = tag_of (Credit CrChargeback)"

definition row_posting :: "txn \<Rightarrow> key_posting" where
  "row_posting t = \<lparr>kp_source = tx_source t, kp_dest = tx_target t, kp_amount = tx_amount t,
     kp_channel = tx_channel t, kp_time = tx_time t\<rparr>"

definition post_to_ledger :: "txn \<Rightarrow> card_world \<Rightarrow> bool \<times> card_world" where
  "post_to_ledger t w =
     (case cw_ledger w of
        None \<Rightarrow> (True, w)
      | Some l \<Rightarrow>
          if \<not> card_supported (tx_channel t) then (False, w)
          else let (l, d, evs) = transfer_at (row_posting t) l
               in (accepted d, w\<lparr>cw_ledger := Some l\<rparr>))"

definition emit_row :: "txn \<Rightarrow> servicing \<Rightarrow> servicing" where
  "emit_row t sw = (case sw of (s, w) \<Rightarrow> (s\<lparr>cx_deferred := cx_deferred s @ [t]\<rparr>, w\<lparr>cw_out := cw_out w @ [t]\<rparr>))"

definition make_routed :: "card_env \<Rightarrow> draft \<Rightarrow> servicing \<Rightarrow> (txn \<times> servicing) result option" where
  "make_routed env d sw =
     (case sw of (s, w) \<Rightarrow>
        bind_run (make_on_lane (ce_ring env) d (cx_routing s, cw_router w)) (\<lambda>(t, g, r).
          Some (Inr (t, s\<lparr>cx_routing := g\<rparr>, w\<lparr>cw_router := r\<rparr>))))"

definition book :: "card_env \<Rightarrow> draft \<Rightarrow> late_fee option \<Rightarrow> servicing \<Rightarrow> servicing result option" where
  "book env d fee sw =
     bind_run (make_routed env d sw) (\<lambda>(t, s, w).
       Some (Inr (case cw_ledger w of
           None \<Rightarrow> emit_row t (s, w)
         | Some _ \<Rightarrow> (s\<lparr>cx_pending := cx_pending s @ [\<lparr>pp_txn = t, pp_fee = fee\<rparr>]\<rparr>, w))))"

subsection \<open>A statement close\<close>

text \<open>A purchase of the cycle, and the credit a dispute may give back.\<close>

definition collect_purchase :: "card_env \<Rightarrow> cycle \<Rightarrow> txn \<Rightarrow> servicing \<Rightarrow> servicing result option" where
  "collect_purchase env cy purchase sw =
     (case sw of (s, w) \<Rightarrow>
        let s = s\<lparr>cx_events := cx_events s @ [purchase]\<rparr>
        in bind_run (sample_dispute (ce_disputes env) (ce_ring env) purchase (cy_window_end cy) (cx_rng s) (cx_routing s, cw_router w))
          (\<lambda>(credit, g, routing, r).
             let s = s\<lparr>cx_rng := g, cx_routing := routing\<rparr>; w = w\<lparr>cw_router := r\<rparr>;
                 (s, w) =
                   (case credit of
                      None \<Rightarrow> (s, w)
                    | Some t \<Rightarrow>
                        if cw_ledger w = None then emit_row t (s, w)
                        else if tx_time t < cy_end cy
                        then let (ok, w) = post_to_ledger t w in (if ok then emit_row t (s, w) else (s, w))
                        else (s\<lparr>cx_pending := cx_pending s @ [\<lparr>pp_txn = t, pp_fee = None\<rparr>]\<rparr>, w))
             in Some (Inr (s\<lparr>cx_cursor := cx_cursor s + 1\<rparr>, w))))"

text \<open>The loop from the purchase cursor, over the indices that are left.\<close>

fun collect_purchases :: "card_env \<Rightarrow> txn list \<Rightarrow> cycle \<Rightarrow> nat list \<Rightarrow> servicing \<Rightarrow> servicing result option" where
  "collect_purchases env txns cy [] sw = Some (Inr sw)"
| "collect_purchases env txns cy (ix # ixs) sw =
     (if cy_end cy \<le> tx_time (txns ! ix) then Some (Inr sw)
      else bind_run (collect_purchase env cy (txns ! ix) sw) (collect_purchases env txns cy ixs))"

definition drain_due_events :: "cycle \<Rightarrow> card_session \<Rightarrow> card_session" where
  "drain_due_events cy s =
     (let due = (\<lambda>t. cy_start cy \<le> tx_time t \<and> tx_time t < cy_end cy)
      in s\<lparr>cx_events := cx_events s @ filter due (cx_deferred s), cx_deferred := filter (\<lambda>t. \<not> due t) (cx_deferred s)\<rparr>)"

definition sort_events :: "card_session \<Rightarrow> card_session" where
  "sort_events s = s\<lparr>cx_events := sort_key tx_time (cx_events s)\<rparr>"

definition days_per_year :: int where "days_per_year = 365"
definition interest_post_offset :: int where "interest_post_offset = 15 * seconds_per_minute"
definition statement_closed_threshold :: f64 where "statement_closed_threshold = lit (1 / 100)"
definition amount_slack :: f64 where "amount_slack = lit (1 / 10 ^ 6)"
definition late_fee_morning_time :: time_of_day where
  "late_fee_morning_time = \<lparr>td_hour = 10, td_minute = 0, td_second = 0\<rparr>"
definition due_date_time :: time_of_day where
  "due_date_time = \<lparr>td_hour = 17, td_minute = 0, td_second = 0\<rparr>"

definition accrue_interest :: "card_env \<Rightarrow> f64 \<Rightarrow> cycle \<Rightarrow> servicing \<Rightarrow> servicing result option" where
  "accrue_interest env average cy sw =
     (case sw of (s, w) \<Rightarrow>
        if cx_in_grace s then Some (Inr sw)
        else
          let days = interval_days (cy_start cy) (cy_end cy);
              debt = std_max (Fin 0) (fneg average);
              raw = fmul (fmul debt (fdiv (ca_apr (cx_account s)) (f64_of_int days_per_year))) days
          in case billable_interest raw of
               None \<Rightarrow> Some (Inr sw)
             | Some interest \<Rightarrow>
                 book env (card_draft (ca_card (cx_account s)) (gl_account CardInterest) interest
                     (cy_end cy + interest_post_offset) (tag_of (Credit CrInterest))) None sw)"

record payment_intent =
  pi_amount :: f64
  pi_when :: time_point

definition draft_payment :: "card_env \<Rightarrow> f64 \<Rightarrow> f64 \<Rightarrow> time_point \<Rightarrow> card_session \<Rightarrow> (payment_intent \<times> card_session) result option" where
  "draft_payment env statement_abs min_due due s =
     (let (amount, g) =
            (case ca_autopay (cx_account s) of
               ApFull \<Rightarrow> (statement_abs, cx_rng s)
             | ApMinimum \<Rightarrow> (min_due, cx_rng s)
             | ApManual \<Rightarrow> sample_payment_amount (ce_beta env) (ce_mixture env) (cx_rng s) statement_abs min_due)
      in bind_run (sample_payment_time (ce_timing env) g due (ca_autopay (cx_account s) \<noteq> ApManual)) (\<lambda>(t, g).
           Some (Inr (\<lparr>pi_amount = round_money (std_max (Fin 0) amount), pi_when = t\<rparr>, s\<lparr>cx_rng := g\<rparr>))))"

definition post_late_fee :: "card_env \<Rightarrow> late_fee \<Rightarrow> servicing \<Rightarrow> servicing result option" where
  "post_late_fee env fee sw =
     bind_run (Some (resolve_due_date (lf_due fee))) (\<lambda>resolved.
     bind_run (Some (make_time (to_calendar_date (resolved + seconds_per_day)) late_fee_morning_time)) (\<lambda>fallback.
       if lf_window_end fee \<le> fallback then Some (Inr sw)
       else book env (card_draft (ca_card (cx_account (fst sw))) (gl_account CardFees) (round_money (lf_amount fee)) fallback
              (tag_of (Credit CrLateFee))) None sw))"

definition post_payment :: "card_env \<Rightarrow> payment_intent \<Rightarrow> late_fee \<Rightarrow> servicing \<Rightarrow> servicing result option" where
  "post_payment env intent on_reject sw =
     (if fle (pi_amount intent) (Fin 0) \<or> lf_window_end on_reject \<le> pi_when intent then Some (Inr sw)
      else book env (card_draft (ca_funding (cx_account (fst sw))) (ca_card (cx_account (fst sw))) (pi_amount intent)
               (pi_when intent) (tag_of (Credit CrPayment)))
             (if flt (Fin 0) (lf_amount on_reject) then Some on_reject else None) sw)"

text \<open>The part of \<open>run\<close> after the statement balance is known.\<close>

definition settle_statement :: "card_env \<Rightarrow> cycle \<Rightarrow> f64 \<Rightarrow> servicing \<Rightarrow> servicing result option" where
  "settle_statement env cy statement_abs sw =
     (let scale = ce_price_scale env (cd_year (to_calendar_date (cy_end cy)));
          billing = (ce_billing env)\<lparr>bt_min_dollars := fmul (bt_min_dollars (ce_billing env)) scale,
                                     bt_late_fee := fmul (bt_late_fee (ce_billing env)) scale\<rparr>;
          min_due = round_money (minimum_due billing statement_abs)
      in bind_run (Some (make_time (to_calendar_date (cy_end cy + bt_grace_days billing * seconds_per_day)) due_date_time)) (\<lambda>due.
         bind_run (draft_payment env statement_abs min_due due (fst sw)) (\<lambda>(intent, s).
         bind_run (Some (is_on_time (pi_when intent) due)) (\<lambda>on_time.
           let paid_on_time = (fle (fsub min_due amount_slack) (pi_amount intent) \<and> on_time);
               paid_full_on_time = (fle (fsub statement_abs amount_slack) (pi_amount intent) \<and> on_time);
               fee = \<lparr>lf_due = due, lf_window_end = cy_window_end cy, lf_amount = bt_late_fee billing\<rparr>
           in bind_run (post_payment env intent (fee\<lparr>lf_amount := (if paid_on_time then bt_late_fee billing else Fin 0)\<rparr>) (s, snd sw))
                (\<lambda>sw.
              bind_run (if \<not> paid_on_time \<and> flt (Fin 0) (bt_late_fee billing) then post_late_fee env fee sw else Some (Inr sw))
                (\<lambda>(s, w). Some (Inr (s\<lparr>cx_in_grace := paid_full_on_time\<rparr>, w))))))))"

definition card_run :: "card_env \<Rightarrow> txn list \<Rightarrow> nat list \<Rightarrow> cycle \<Rightarrow> servicing \<Rightarrow> servicing result option" where
  "card_run env txns indices cy sw =
     (case sw of (s, w) \<Rightarrow>
        bind_run (collect_purchases env txns cy (drop (cx_cursor s) indices) (s\<lparr>cx_events := []\<rparr>, w)) (\<lambda>(s, w).
          let s = sort_events (drain_due_events cy s);
              snapshot = integrate_balance (ca_card (cx_account s)) (cx_balance s) (cx_events s)
                \<lparr>ho_start = cy_start cy, ho_end = cy_end cy\<rparr>;
              s = s\<lparr>cx_balance := bl_ending snapshot\<rparr>
          in bind_run (accrue_interest env (bl_average snapshot) cy (s, w)) (\<lambda>(s, w).
            let statement_abs = std_max (Fin 0) (fneg (cx_balance s))
            in if fle statement_abs statement_closed_threshold then Some (Inr (s\<lparr>cx_in_grace := True\<rparr>, w))
               else settle_statement env cy statement_abs (s, w))))"

subsection \<open>Posting what has matured\<close>

text \<open>One matured posting: an accepted row is emitted, a rejected payment ends the grace and brings its fee.\<close>

definition settle_posting :: "card_env \<Rightarrow> pending_posting \<Rightarrow> servicing \<Rightarrow> servicing result option" where
  "settle_posting env p sw =
     (case sw of (s, w) \<Rightarrow>
        let (ok, w) = post_to_ledger (pp_txn p) w
        in if ok then Some (Inr (emit_row (pp_txn p) (s, w)))
           else if tx_channel (pp_txn p) = tag_of (Credit CrPayment)
           then let s = s\<lparr>cx_in_grace := False\<rparr>
                in (case pp_fee p of None \<Rightarrow> Some (Inr (s, w)) | Some fee \<Rightarrow> post_late_fee env fee (s, w))
           else Some (Inr (s, w)))"

fun settle_postings :: "card_env \<Rightarrow> pending_posting list \<Rightarrow> servicing \<Rightarrow> servicing result option" where
  "settle_postings env [] sw = Some (Inr sw)"
| "settle_postings env (p # ps) sw = bind_run (settle_posting env p sw) (settle_postings env ps)"

definition matured :: "time_point \<Rightarrow> pending_posting list \<Rightarrow> pending_posting list" where
  "matured bound ps = takeWhile (\<lambda>p. tx_time (pp_txn p) < bound) (sort_key (\<lambda>p. audit_key (pp_txn p)) ps)"

definition unmatured :: "time_point \<Rightarrow> pending_posting list \<Rightarrow> pending_posting list" where
  "unmatured bound ps = dropWhile (\<lambda>p. tx_time (pp_txn p) < bound) (sort_key (\<lambda>p. audit_key (pp_txn p)) ps)"

lemma bind_run_mono [partial_function_mono]:
  assumes "mono_option r" "\<And>x. mono_option (\<lambda>f. h f x)"
  shows "mono_option (\<lambda>f. bind_run (r f) (\<lambda>x. h f x))"
proof -
  have eq: "(\<lambda>f. bind_run (r f) (\<lambda>x. h f x)) = (\<lambda>f. Option.bind (r f) (\<lambda>v. case v of Inl e \<Rightarrow> Some (Inl e) | Inr x \<Rightarrow> h f x))"
    by (rule ext) (auto simp: bind_run_def split: option.split)
  have "mono_option (\<lambda>f. case v of Inl e \<Rightarrow> Some (Inl e) | Inr x \<Rightarrow> h f x)" for v
    by (cases v) (auto intro: assms(2) option.const_mono)
  then show ?thesis unfolding eq by (intro bind_mono assms(1))
qed

partial_function (option) advance_session :: "card_env \<Rightarrow> time_point \<Rightarrow> servicing \<Rightarrow> servicing result option" where
  "advance_session env bound sw =
     (let s = fst sw; w = snd sw
      in if cx_pending s = [] then Some (Inr sw)
         else if matured bound (cx_pending s) = []
         then Some (Inr (s\<lparr>cx_pending := unmatured bound (cx_pending s)\<rparr>, w))
         else bind_run (settle_postings env (matured bound (cx_pending s)) (s\<lparr>cx_pending := unmatured bound (cx_pending s)\<rparr>, w))
                (\<lambda>sw. advance_session env bound sw))"

end
