(* ===== verification/CardDriver.thy ===== *)
theory CardDriver
  imports CardSession
begin

text \<open>
  The card cycle driver (\<open>credit_cards/card_cycle_driver.hpp\<close>, \<open>card_cycle_driver.cpp\<close>), which implements the
  spending simulator's billing interface for all cards, and the batch lifecycle of \<open>lifecycle.cpp\<close>.

  \<open>cards_\<close> is an \<open>unordered_map\<close>: the model iterates over it in the order in which the cards were first
  used, one of the orders the sources allow. The death times of the owners are the part of
  \<open>synth/personas/timeline.hpp\<close> the driver reads.
\<close>

record card_terms =
  ct_key :: key
  ct_owner :: nat
  ct_apr :: f64
  ct_cycle_day :: nat
  ct_autopay :: autopay

record per_card =
  pc_purchases :: "txn list"
  pc_indices :: "nat list"
  pc_closes :: "time_point list"
  pc_close_cursor :: nat
  pc_prior_close :: time_point
  pc_session :: "card_session option"

definition per_card_new :: per_card where
  "per_card_new = \<lparr>pc_purchases = [], pc_indices = [], pc_closes = [], pc_close_cursor = 0, pc_prior_close = 0,
     pc_session = None\<rparr>"

record card_inputs =
  ci_terms :: "(key \<rightharpoonup> card_terms) option"
  ci_primary :: "(nat \<rightharpoonup> key) option"
  ci_window :: window
  ci_deaths :: "time_point list"

record card_driver =
  cc_env :: card_env
  cc_base :: u64
  cc_inputs :: card_inputs
  cc_cards :: "(key \<times> per_card) list"
  cc_emitted :: "txn list"
  cc_active :: bool

text \<open>A registry is empty exactly when it has no records; \<open>records.empty()\<close> is passed in as a flag.\<close>

definition card_driver_new :: "card_env \<Rightarrow> u64 \<Rightarrow> card_inputs \<Rightarrow> bool \<Rightarrow> card_driver" where
  "card_driver_new env base inputs no_records =
     \<lparr>cc_env = env, cc_base = base, cc_inputs = inputs, cc_cards = [], cc_emitted = [],
      cc_active = (ci_terms inputs \<noteq> None \<and> \<not> no_records \<and> ci_primary inputs \<noteq> None \<and> 0 < wn_days (ci_window inputs))\<rparr>"

subsection \<open>Ingestion\<close>

fun card_slot :: "key \<Rightarrow> (key \<times> per_card) list \<Rightarrow> per_card" where
  "card_slot k [] = per_card_new"
| "card_slot k ((k', c) # cs) = (if k' = k then c else card_slot k cs)"

fun put_card :: "key \<Rightarrow> per_card \<Rightarrow> (key \<times> per_card) list \<Rightarrow> (key \<times> per_card) list" where
  "put_card k c [] = [(k, c)]"
| "put_card k c ((k', c') # cs) = (if k' = k then (k, c) # cs else (k', c') # put_card k c cs)"

definition push_purchase :: "txn \<Rightarrow> per_card \<Rightarrow> per_card" where
  "push_purchase t c = c\<lparr>pc_indices := pc_indices c @ [length (pc_purchases c)], pc_purchases := pc_purchases c @ [t]\<rparr>"

text \<open>The first loop: the cards, and the size the index buffer of every touched card had before.\<close>

definition ingest_one :: "time_point \<Rightarrow> time_point \<Rightarrow> txn \<Rightarrow> (key \<times> per_card) list \<times> (key \<times> nat) list \<Rightarrow>
    (key \<times> per_card) list \<times> (key \<times> nat) list" where
  "ingest_one start_ts end_ts t st =
     (case st of (cards, before) \<Rightarrow>
        if tx_channel t \<noteq> tag_of (Legit LegCardPurchase) then st
        else if tx_time t < start_ts \<or> end_ts \<le> tx_time t then st
        else let slot = card_slot (tx_source t) cards
             in (put_card (tx_source t) (push_purchase t slot) cards,
                 if map_of before (tx_source t) = None then before @ [(tx_source t, length (pc_indices slot))] else before))"

definition sort_segment :: "nat \<Rightarrow> per_card \<Rightarrow> per_card" where
  "sort_segment first c =
     c\<lparr>pc_indices := take first (pc_indices c) @ sort_key (\<lambda>i. tx_time (pc_purchases c ! i)) (drop first (pc_indices c))\<rparr>"

definition ingest_purchases :: "txn list \<Rightarrow> card_driver \<Rightarrow> card_driver" where
  "ingest_purchases txns d =
     (if \<not> cc_active d then d
      else
        let w = ci_window (cc_inputs d);
            (cards, before) = fold (ingest_one (wn_start w) (window_end w)) txns (cc_cards d, [])
        in d\<lparr>cc_cards := fold (\<lambda>(k, n) cards. put_card k (sort_segment n (card_slot k cards)) cards) before cards\<rparr>)"

subsection \<open>Sessions\<close>

definition settlement_days :: int where "settlement_days = 120"
definition card_settle_tail_days :: int where "card_settle_tail_days = 50"

text \<open>\<open>TimePoint::max()\<close> is \<open>None\<close>.\<close>

definition card_service_end :: "card_inputs \<Rightarrow> nat \<Rightarrow> time_point option" where
  "card_service_end inputs owner =
     (if ci_deaths inputs = [] \<or> owner = 0 \<or> length (ci_deaths inputs) < owner then None
      else Some (add_days (ci_deaths inputs ! (owner - 1)) (settlement_days - card_settle_tail_days)))"

text \<open>The loop that pops the closes at or after the end of servicing.\<close>

definition truncate_closes :: "time_point option \<Rightarrow> time_point list \<Rightarrow> time_point list" where
  "truncate_closes service_end closes =
     (case service_end of None \<Rightarrow> closes | Some e \<Rightarrow> rev (dropWhile (\<lambda>c. e \<le> c) (rev closes)))"

definition ensure_session :: "card_driver \<Rightarrow> key \<Rightarrow> per_card \<Rightarrow> per_card result option" where
  "ensure_session d card_key c =
     (if pc_session c \<noteq> None then Some (Inr c)
      else case Option.bind (ci_terms (cc_inputs d)) (\<lambda>m. m card_key) of
          None \<Rightarrow> Some (Inr c)
        | Some terms \<Rightarrow>
            (case Option.bind (ci_primary (cc_inputs d)) (\<lambda>m. m (ct_owner terms)) of
               None \<Rightarrow> Some (Inr c)
             | Some funding \<Rightarrow>
                 let w = ci_window (cc_inputs d);
                     account = \<lparr>ca_card = ct_key terms, ca_funding = funding, ca_apr = ct_apr terms,
                                ca_cycle_day = ct_cycle_day terms, ca_autopay = ct_autopay terms\<rparr>
                 in bind_run (statement_close_dates (wn_start w) (window_end w) (ct_cycle_day terms)) (\<lambda>closes.
                    let number = digits (unat (key_number (ct_key terms)))
                    in bind_run (Some (factory_rng (cc_base d) [''credit_cards'', ''lifecycle'', number])) (\<lambda>g.
                       bind_run (Some (factory_rng (cc_base d) [''credit_cards'', ''routing'', number])) (\<lambda>routing.
                         Some (Inr (c\<lparr>pc_prior_close := wn_start w,
                           pc_closes := truncate_closes (card_service_end (cc_inputs d) (ct_owner terms)) closes,
                           pc_close_cursor := 0, pc_session := Some (card_session_new account g routing)\<rparr>)))))))"

definition purchase_compaction_threshold :: nat where "purchase_compaction_threshold = 256"

definition compact_purchases :: "per_card \<Rightarrow> per_card result" where
  "compact_purchases c =
     (case pc_session c of
        None \<Rightarrow> Inr c
      | Some s \<Rightarrow>
          let consumed = cx_cursor s
          in if consumed = 0 then Inr c
             else if length (pc_indices c) < consumed
             then Inl (LogicError ''CardCycleDriver purchase cursor exceeds index buffer'')
             else if \<not> purchase_compaction_threshold \<le> consumed \<and> \<not> (length (pc_indices c) + 1) div 2 \<le> consumed then Inr c
             else
               let kept = drop consumed (pc_indices c)
               in if \<exists>i \<in> set kept. length (pc_purchases c) \<le> i
                  then Inl (LogicError ''CardCycleDriver purchase index exceeds purchase buffer'')
                  else Inr (c\<lparr>pc_purchases := map (\<lambda>i. pc_purchases c ! i) kept, pc_indices := [0..<length kept],
                             pc_session := Some (s\<lparr>cx_cursor := 0\<rparr>)\<rparr>))"

text \<open>The loop over the closes that are left, up to \<open>limit\<close>.\<close>

fun close_cycles :: "card_env \<Rightarrow> time_point \<Rightarrow> time_point \<Rightarrow> time_point list \<Rightarrow> per_card \<times> card_world \<Rightarrow>
    (per_card \<times> card_world) result option" where
  "close_cycles env limit w_end [] cw = Some (Inr cw)"
| "close_cycles env limit w_end (close # closes) cw =
     (case cw of (c, w) \<Rightarrow>
        case pc_session c of
          None \<Rightarrow> Some (Inr cw)
        | Some s \<Rightarrow>
            if limit \<le> close then Some (Inr cw)
            else bind_run (card_run env (pc_purchases c) (pc_indices c)
                     \<lparr>cy_start = pc_prior_close c, cy_end = close, cy_window_end = w_end\<rparr> (s, w)) (\<lambda>(s, w).
                 bind_run (Some (compact_purchases
                     (c\<lparr>pc_session := Some s, pc_prior_close := close, pc_close_cursor := pc_close_cursor c + 1\<rparr>))) (\<lambda>c.
                   close_cycles env limit w_end closes (c, w))))"

definition close_cycles_up_to :: "card_driver \<Rightarrow> time_point \<Rightarrow> per_card \<times> card_world \<Rightarrow> (per_card \<times> card_world) result option" where
  "close_cycles_up_to d hard_limit cw =
     (let w_end = window_end (ci_window (cc_inputs d))
      in close_cycles (cc_env d) (min hard_limit w_end) w_end (drop (pc_close_cursor (fst cw)) (pc_closes (fst cw))) cw)"

subsection \<open>The billing interface\<close>

text \<open>The ledger and the router the driver shares with the simulator.\<close>

type_synonym billing_state = "card_driver \<times> router option \<times> ledger option"

text \<open>A loop over the cards, each step with the shared world. The sessions only push to \<open>emitted_\<close>, so the
rows a call emits are collected from empty and appended to it.\<close>

fun over_cards :: "(key \<Rightarrow> per_card \<times> card_world \<Rightarrow> (per_card \<times> card_world) result option) \<Rightarrow> (key \<times> per_card) list \<Rightarrow>
    card_world \<Rightarrow> ((key \<times> per_card) list \<times> card_world) result option" where
  "over_cards f [] w = Some (Inr ([], w))"
| "over_cards f ((k, c) # cs) w =
     bind_run (f k (c, w)) (\<lambda>(c, w). bind_run (over_cards f cs w) (\<lambda>(cs, w). Some (Inr ((k, c) # cs, w))))"

definition each_card :: "(card_driver \<Rightarrow> key \<Rightarrow> per_card \<times> card_world \<Rightarrow> (per_card \<times> card_world) result option) \<Rightarrow> billing_state \<Rightarrow>
    billing_state result option" where
  "each_card f st =
     (case st of (d, r, l) \<Rightarrow>
        if \<not> cc_active d then Some (Inr st)
        else bind_run (over_cards (f d) (cc_cards d) \<lparr>cw_router = r, cw_ledger = l, cw_out = []\<rparr>) (\<lambda>(cs, w).
               Some (Inr (d\<lparr>cc_cards := cs, cc_emitted := cc_emitted d @ cw_out w\<rparr>, cw_router w, cw_ledger w))))"

definition advance_card :: "time_point \<Rightarrow> card_driver \<Rightarrow> key \<Rightarrow> per_card \<times> card_world \<Rightarrow> (per_card \<times> card_world) result option" where
  "advance_card bound d k cw =
     (case cw of (c, w) \<Rightarrow>
        bind_run (ensure_session d k c) (\<lambda>c.
          case pc_session c of
            None \<Rightarrow> Some (Inr (c, w))
          | Some s \<Rightarrow> bind_run (advance_session (cc_env d) bound (s, w)) (\<lambda>(s, w). Some (Inr (c\<lparr>pc_session := Some s\<rparr>, w)))))"

definition cards_advance_ledger_to :: "time_point \<Rightarrow> billing_state \<Rightarrow> billing_state result option" where
  "cards_advance_ledger_to bound = each_card (advance_card bound)"

definition tick_card :: "time_point \<Rightarrow> card_driver \<Rightarrow> key \<Rightarrow> per_card \<times> card_world \<Rightarrow> (per_card \<times> card_world) result option" where
  "tick_card limit d k cw =
     (case cw of (c, w) \<Rightarrow> bind_run (ensure_session d k c) (\<lambda>c. close_cycles_up_to d limit (c, w)))"

definition cards_tick_day :: "time_point \<Rightarrow> billing_state \<Rightarrow> billing_state result option" where
  "cards_tick_day day_start = each_card (tick_card (day_start + seconds_per_day))"

definition drain_card :: "card_driver \<Rightarrow> key \<Rightarrow> per_card \<times> card_world \<Rightarrow> (per_card \<times> card_world) result option" where
  "drain_card d k cw =
     bind_run (tick_card (window_end (ci_window (cc_inputs d))) d k cw) (\<lambda>(c, w).
     bind_run (Some (compact_purchases c)) (\<lambda>c. Some (Inr (c, w))))"

definition cards_drain_residual :: "billing_state \<Rightarrow> billing_state result option" where
  "cards_drain_residual st =
     (if \<not> cc_active (fst st) then Some (Inr st)
      else bind_run (each_card drain_card st) (cards_advance_ledger_to (window_end (ci_window (cc_inputs (fst st))))))"

definition cards_take_emitted :: "card_driver \<Rightarrow> txn list \<times> card_driver" where
  "cards_take_emitted d = (sort_for_replay (cc_emitted d), d\<lparr>cc_emitted := []\<rparr>)"

definition cards_take_emitted_before :: "i64 \<Rightarrow> card_driver \<Rightarrow> txn list \<times> card_driver" where
  "cards_take_emitted_before bound d =
     (let rows = sort_for_replay (cc_emitted d)
      in (takeWhile (\<lambda>t. tx_time t < bound) rows, d\<lparr>cc_emitted := dropWhile (\<lambda>t. tx_time t < bound) rows\<rparr>))"

subsection \<open>The batch lifecycle (lifecycle.cpp)\<close>

definition purchase_indices :: "txn list \<Rightarrow> time_point \<Rightarrow> time_point \<Rightarrow> key \<Rightarrow> nat list" where
  "purchase_indices txns start_ts end_ts acct =
     sort_key (\<lambda>i. tx_time (txns ! i)) (filter (\<lambda>i. let t = txns ! i in tx_channel t = tag_of (Legit LegCardPurchase) \<and>
       start_ts \<le> tx_time t \<and> tx_time t < end_ts \<and> tx_source t = acct) [0..<length txns])"

definition active_cards :: "txn list \<Rightarrow> time_point \<Rightarrow> time_point \<Rightarrow> key list" where
  "active_cards txns start_ts end_ts =
     sort (remdups (map tx_source (filter (\<lambda>t. tx_channel t = tag_of (Legit LegCardPurchase) \<and>
       start_ts \<le> tx_time t \<and> tx_time t < end_ts) txns)))"

text \<open>The statements of one card over all its closes.\<close>

fun run_closes :: "card_env \<Rightarrow> txn list \<Rightarrow> nat list \<Rightarrow> time_point \<Rightarrow> time_point \<Rightarrow> time_point list \<Rightarrow> servicing \<Rightarrow>
    servicing result option" where
  "run_closes env txns indices w_end prior [] sw = Some (Inr sw)"
| "run_closes env txns indices w_end prior (close # closes) sw =
     bind_run (card_run env txns indices \<lparr>cy_start = prior, cy_end = close, cy_window_end = w_end\<rparr> sw)
       (run_closes env txns indices w_end close closes)"

definition card_lifecycle :: "card_env \<Rightarrow> u64 \<Rightarrow> (key \<rightharpoonup> card_terms) \<Rightarrow> (nat \<rightharpoonup> key) \<Rightarrow> window \<Rightarrow> txn list \<Rightarrow> key \<Rightarrow> card_world \<Rightarrow>
    card_world result option" where
  "card_lifecycle env base terms_of primary w txns acct cw =
     (case terms_of acct of
        None \<Rightarrow> Some (Inr cw)
      | Some terms \<Rightarrow>
          (case primary (ct_owner terms) of
             None \<Rightarrow> Some (Inr cw)
           | Some funding \<Rightarrow>
               bind_run (statement_close_dates (wn_start w) (window_end w) (ct_cycle_day terms)) (\<lambda>closes.
                 if closes = [] then Some (Inr cw)
                 else
                   let account = \<lparr>ca_card = ct_key terms, ca_funding = funding, ca_apr = ct_apr terms,
                         ca_cycle_day = ct_cycle_day terms, ca_autopay = ct_autopay terms\<rparr>;
                       number = digits (unat (key_number (ct_key terms)))
                   in bind_run (Some (factory_rng base [''credit_cards'', ''lifecycle'', number])) (\<lambda>g.
                      bind_run (Some (factory_rng base [''credit_cards'', ''routing'', number])) (\<lambda>routing.
                      bind_run (run_closes env txns (purchase_indices txns (wn_start w) (window_end w) acct) (window_end w)
                          (wn_start w) closes (card_session_new account g routing, cw)) (\<lambda>(s, cw). Some (Inr cw)))))))"

fun lifecycle_cards :: "(key \<Rightarrow> card_world \<Rightarrow> card_world result option) \<Rightarrow> key list \<Rightarrow> card_world \<Rightarrow> card_world result option" where
  "lifecycle_cards f [] cw = Some (Inr cw)"
| "lifecycle_cards f (k # ks) cw = bind_run (f k cw) (lifecycle_cards f ks)"

definition lifecycle_generate :: "card_env \<Rightarrow> u64 \<Rightarrow> (key \<rightharpoonup> card_terms) \<Rightarrow> bool \<Rightarrow> (nat \<rightharpoonup> key) \<Rightarrow> router option \<Rightarrow> window \<Rightarrow> txn list \<Rightarrow>
    (txn list \<times> router option) result option" where
  "lifecycle_generate env base terms_of no_records primary r w txns =
     (if no_records \<or> txns = [] \<or> wn_days w \<le> 0 then Some (Inr ([], r))
      else bind_run (lifecycle_cards (card_lifecycle env base terms_of primary w txns)
             (active_cards txns (wn_start w) (window_end w)) \<lparr>cw_router = r, cw_ledger = None, cw_out = []\<rparr>)
             (\<lambda>cw. Some (Inr (sort_for_replay (cw_out cw), cw_router cw))))"

end
