(* ===== verification/SpendRun.thy ===== *)
theory SpendRun
  imports CardDriver SimState Screening
begin

text \<open>
  A run of the spending simulator: the day driver (\<open>simulator/day_driver.cpp\<close>), the retained run
  (\<open>driver.cpp\<close>) and the windowed session that streams rows out behind a finalization watermark
  (\<open>session.hpp\<close>, \<open>session.cpp\<close>).

  What draws the day's rows is the part \<open>engine\<close> of the environment: the monthly evolution of the
  market with the day frame, the dynamics with the emission, and the end-of-run flush; it may use its
  own state, the router, the ledger and the run state. The card billing is the driver of \<open>CardDriver\<close>
  (\<open>None\<close> is the null pointer); it shares the ledger and the router with the emission, as the sites
  that wire a session do. Nothing listens to the screening ledger's liquidity events here.
\<close>

subsection \<open>The day driver\<close>

record prepared_run =
  pr_base :: "txn list"
  pr_paydays :: payday_index
  pr_persons :: nat
  pr_person_days :: nat
  pr_target :: f64
  pr_spenders :: "(nat \<times> u32 list) list"

type_synonym 'e emission = "'e \<times> router option \<times> ledger option \<times> run_state"

record 'e spend_env =
  dy_start :: time_point
  dy_days :: nat
  dy_prepare :: "'e \<times> ledger option \<Rightarrow> (prepared_run \<times> 'e \<times> ledger option) result option"
  dy_open :: "nat \<Rightarrow> 'e \<Rightarrow> 'e result option"
  dy_emit :: "nat \<Rightarrow> time_point \<Rightarrow> nat list \<Rightarrow> 'e emission \<Rightarrow> 'e emission result option"
  dy_finish :: "'e emission \<Rightarrow> 'e emission result option"

record 'e spend_state =
  sn_engine :: 'e
  sn_router :: "router option"
  sn_ledger :: "ledger option"
  sn_run :: run_state
  sn_cards :: "card_driver option"
  sn_cursor :: nat

definition frame_start :: "'e spend_env \<Rightarrow> nat \<Rightarrow> time_point" where
  "frame_start env i = add_days (dy_start env) (int i)"

definition market_end :: "'e spend_env \<Rightarrow> time_point" where
  "market_end env = add_days (dy_start env) (int (dy_days env))"

definition cards_active :: "'e spend_state \<Rightarrow> bool" where
  "cards_active st = (case sn_cards st of None \<Rightarrow> False | Some d \<Rightarrow> cc_active d)"

text \<open>A call of the billing interface.\<close>

definition billing_call :: "(billing_state \<Rightarrow> billing_state result option) \<Rightarrow> 'e spend_state \<Rightarrow> 'e spend_state result option" where
  "billing_call f st =
     (case sn_cards st of
        None \<Rightarrow> Some (Inr st)
      | Some d \<Rightarrow> bind_run (f (d, sn_router st, sn_ledger st)) (\<lambda>(d, r, l).
            Some (Inr (st\<lparr>sn_cards := Some d, sn_router := r, sn_ledger := l\<rparr>))))"

definition emission_call :: "('e emission \<Rightarrow> 'e emission result option) \<Rightarrow> 'e spend_state \<Rightarrow> 'e spend_state result option" where
  "emission_call f st =
     bind_run (f (sn_engine st, sn_router st, sn_ledger st, sn_run st)) (\<lambda>(e, r, l, run).
       Some (Inr (st\<lparr>sn_engine := e, sn_router := r, sn_ledger := l, sn_run := run\<rparr>)))"

definition ingest_emitted_to :: "'e spend_state \<Rightarrow> 'e spend_state result" where
  "ingest_emitted_to st =
     (let txns = rs_txns (sn_run st)
      in if length txns < sn_cursor st
         then Inl (LogicError ''DayDriver card-ingest cursor exceeds emitted transaction count'')
         else if sn_cursor st = length txns then Inr st
         else Inr (st\<lparr>sn_cards := map_option (ingest_purchases (drop (sn_cursor st) txns)) (sn_cards st),
                      sn_cursor := length txns\<rparr>))"

definition advance_ledger_to_day :: "prepared_run \<Rightarrow> time_point \<Rightarrow> 'e spend_state \<Rightarrow> 'e spend_state" where
  "advance_ledger_to_day pr day st =
     (let (idx, l, evs) = span_post_through (pr_base pr) (sn_ledger st) (rs_base_idx (sn_run st))
            \<lparr>tb_until = day, tb_inclusive = False\<rparr>
      in st\<lparr>sn_ledger := l, sn_run := (sn_run st)\<lparr>rs_base_idx := idx\<rparr>\<rparr>)"

definition bill_day :: "'e spend_env \<Rightarrow> nat \<Rightarrow> 'e spend_state \<Rightarrow> 'e spend_state result option" where
  "bill_day env i st =
     (let day = frame_start env i; next_day = day + seconds_per_day
      in bind_run (Some (ingest_emitted_to st)) (\<lambda>st.
         bind_run (billing_call (cards_advance_ledger_to next_day) st) (\<lambda>st.
         bind_run (billing_call (cards_tick_day day) st)
           (billing_call (cards_advance_ledger_to next_day)))))"

definition run_day :: "'e spend_env \<Rightarrow> prepared_run \<Rightarrow> nat \<Rightarrow> 'e spend_state \<Rightarrow> 'e spend_state result option" where
  "run_day env pr i st =
     bind_run (dy_open env i (sn_engine st)) (\<lambda>e.
       let st = advance_ledger_to_day pr (frame_start env i) (st\<lparr>sn_engine := e\<rparr>);
           (persons, run) = update_payday_state (pr_paydays pr) i (sn_run st)
       in bind_run (emission_call (dy_emit env i (frame_start env i) persons) (st\<lparr>sn_run := run\<rparr>)) (\<lambda>st.
            if cards_active st then bill_day env i st else Some (Inr st)))"

definition take_emitted :: "'e spend_state \<Rightarrow> (txn list \<times> 'e spend_state) result" where
  "take_emitted st =
     bind_result
       (if cards_active st
        then bind_result (ingest_emitted_to st) (\<lambda>st.
               if sn_cursor st \<noteq> length (rs_txns (sn_run st))
               then Inl (LogicError ''DayDriver card-ingest cursor does not cover emitted rows'') else Inr st)
        else if sn_cursor st \<noteq> 0
        then Inl (LogicError ''DayDriver has a card-ingest cursor without an active card driver'')
        else Inr st)
       (\<lambda>st. Inr (rs_txns (sn_run st), st\<lparr>sn_run := (sn_run st)\<lparr>rs_txns := []\<rparr>, sn_cursor := 0\<rparr>))"

text \<open>\<open>takeEmitted\<close> of the billing interface.\<close>

definition take_card_rows :: "'e spend_state \<Rightarrow> txn list \<times> 'e spend_state" where
  "take_card_rows st =
     (case sn_cards st of
        None \<Rightarrow> ([], st)
      | Some d \<Rightarrow> let (rows, d) = cards_take_emitted d in (rows, st\<lparr>sn_cards := Some d\<rparr>))"

definition drain_card_cycles :: "'e spend_state \<Rightarrow> (txn list \<times> 'e spend_state) result option" where
  "drain_card_cycles st =
     (if \<not> cards_active st then Some (Inr ([], st))
      else bind_run (billing_call cards_drain_residual st) (\<lambda>st. Some (Inr (take_card_rows st))))"

subsection \<open>The retained run\<close>

text \<open>What \<open>Simulator::run\<close> and \<open>Session::ensurePrepared\<close> both do before the first day.\<close>

definition prepare_run :: "'e spend_env \<Rightarrow> 'e spend_state \<Rightarrow> (prepared_run \<times> 'e spend_state) result option" where
  "prepare_run env st =
     bind_run (dy_prepare env (sn_engine st, sn_ledger st)) (\<lambda>(pr, e, l).
       Some (Inr (pr, st\<lparr>sn_engine := e, sn_ledger := l, sn_cursor := 0,
         sn_run := apply_warm_start (pr_spenders pr) (run_state_new (pr_persons pr) (pr_person_days pr) (pr_target pr))\<rparr>)))"

fun run_days :: "'e spend_env \<Rightarrow> prepared_run \<Rightarrow> nat list \<Rightarrow> 'e spend_state \<Rightarrow> 'e spend_state result option" where
  "run_days env pr [] st = Some (Inr st)"
| "run_days env pr (i # is) st = bind_run (run_day env pr i st) (run_days env pr is)"

definition simulator_run :: "'e spend_env \<Rightarrow> 'e spend_state \<Rightarrow> txn list result option" where
  "simulator_run env st =
     (if dy_days env = 0 then Some (Inr [])
      else
        bind_run (prepare_run env st) (\<lambda>(pr, st).
        bind_run (run_days env pr [0..<dy_days env] st) (\<lambda>st.
        bind_run (emission_call (dy_finish env) st) (\<lambda>st.
        bind_run (drain_card_cycles st) (\<lambda>(residual, st).
          Some (Inr (sort_for_replay (rs_txns (sn_run st) @ residual))))))))"

subsection \<open>The session\<close>

record 'e spend_session =
  ss_state :: "'e spend_state"
  ss_prepared :: "prepared_run option"
  ss_pending :: "txn list"
  ss_finalized :: time_point
  ss_next :: nat
  ss_card_events :: nat
  ss_finished :: bool

definition spend_session_new :: "'e spend_env \<Rightarrow> 'e spend_state \<Rightarrow> 'e spend_session" where
  "spend_session_new env st =
     \<lparr>ss_state = st, ss_prepared = None, ss_pending = [], ss_finalized = dy_start env, ss_next = 0, ss_card_events = 0,
      ss_finished = False\<rparr>"

definition finalization_lag_days :: int where "finalization_lag_days = 32"

definition day_distance :: "time_point \<Rightarrow> time_point \<Rightarrow> int result" where
  "day_distance start end_ts =
     (let seconds = end_ts - start
      in if seconds < 0 \<or> seconds mod seconds_per_day \<noteq> 0
         then Inl (LogicError ''Session finalized watermark is not day-aligned'') else Inr (seconds div seconds_per_day))"

definition ensure_prepared :: "'e spend_env \<Rightarrow> 'e spend_session \<Rightarrow> (prepared_run \<times> 'e spend_session) result option" where
  "ensure_prepared env s =
     (case ss_prepared s of
        Some pr \<Rightarrow> Some (Inr (pr, s))
      | None \<Rightarrow> bind_run (prepare_run env (ss_state s)) (\<lambda>(pr, st).
            Some (Inr (pr, s\<lparr>ss_state := st, ss_prepared := Some pr\<rparr>))))"

definition day_index_for :: "'e spend_env \<Rightarrow> time_point \<Rightarrow> nat result" where
  "day_index_for env tp =
     (if tp < dy_start env \<or> (tp - dy_start env) mod seconds_per_day \<noteq> 0
      then Inl (InvalidArgument ''Session: window start is not day-aligned with market bounds'')
      else Inr (nat ((tp - dy_start env) div seconds_per_day)))"

definition buffer_transactions :: "txn list \<Rightarrow> 'e spend_session \<Rightarrow> 'e spend_session result" where
  "buffer_transactions rows s =
     (let (card_rows, st) = (if cards_active (ss_state s) then take_card_rows (ss_state s) else ([], ss_state s));
          s = s\<lparr>ss_state := st, ss_card_events := ss_card_events s + length card_rows\<rparr>;
          rows = rows @ card_rows
      in if rows = [] then Inr s
         else
           let rows = sort_for_replay rows
           in if tx_time (hd rows) < ss_finalized s
              then Inl (LogicError (''Session observed a late-generated transaction before its finalized '' @
                     ''watermark; increase or redesign the card finalization lag''))
              else if ss_pending s = [] then Inr (s\<lparr>ss_pending := rows\<rparr>)
              else Inr (s\<lparr>ss_pending := merge_by audit_key (ss_pending s) rows\<rparr>))"

definition clamp_time :: "time_point \<Rightarrow> time_point \<Rightarrow> time_point \<Rightarrow> time_point" where
  "clamp_time v lo hi = (if v < lo then lo else if hi < v then hi else v)"

definition drain_finalized :: "'e spend_env \<Rightarrow> window \<Rightarrow> time_point \<Rightarrow> 'e spend_session \<Rightarrow> (batch \<times> 'e spend_session) result" where
  "drain_finalized env simulated bound s =
     (let bound = clamp_time bound (ss_finalized s) (market_end env);
          out = takeWhile (\<lambda>t. tx_time t < bound) (ss_pending s);
          rest = dropWhile (\<lambda>t. tx_time t < bound) (ss_pending s)
      in bind_result (day_distance (ss_finalized s) bound) (\<lambda>days.
           Inr (\<lparr>bt_simulated = simulated, bt_finalized = \<lparr>wn_start = ss_finalized s, wn_days = days\<rparr>, bt_txns = out\<rparr>,
                s\<lparr>ss_pending := rest, ss_finalized := bound\<rparr>)))"

definition session_advance :: "'e spend_env \<Rightarrow> window \<Rightarrow> 'e spend_session \<Rightarrow> (batch \<times> 'e spend_session) result option" where
  "session_advance env w s =
     (if ss_finished s then Some (Inl (LogicError ''Session::advance called after finish()''))
      else if wn_days w < 0 then Some (Inl (InvalidArgument ''Session::advance requires window.days >= 0''))
      else if dy_days env = 0
      then if wn_days w \<noteq> 0 \<or> wn_start w \<noteq> dy_start env \<or> ss_next s \<noteq> 0
           then Some (Inl (LogicError ''Session::advance window does not match the zero-day market''))
           else Some (Inr (\<lparr>bt_simulated = w, bt_finalized = w, bt_txns = []\<rparr>, s))
      else if wn_days w = 0
      then Some (Inl (InvalidArgument ''Session::advance requires a positive window for a non-empty market''))
      else
        bind_run (ensure_prepared env s) (\<lambda>(pr, s).
        bind_run (Some (day_index_for env (wn_start w))) (\<lambda>first.
          if first \<noteq> ss_next s
          then Some (Inl (LogicError (''Session::advance windows must be contiguous: expected day '' @
                 digits (ss_next s) @ '', got '' @ digits first)))
          else
            let last_excl = first + nat (wn_days w)
            in if dy_days env < last_excl
               then Some (Inl (InvalidArgument ''Session::advance window exceeds market bounds''))
               else
                 bind_run (run_days env pr [first..<last_excl] (ss_state s)) (\<lambda>st.
                 bind_run (Some (take_emitted st)) (\<lambda>(rows, st).
                 bind_run (Some (buffer_transactions rows (s\<lparr>ss_state := st, ss_next := last_excl\<rparr>))) (\<lambda>s.
                   Some (drain_finalized env w (max (add_days (window_end w) (- finalization_lag_days)) (ss_finalized s)) s)))))))"

definition session_finish :: "'e spend_env \<Rightarrow> 'e spend_session \<Rightarrow> (batch \<times> 'e spend_session) result option" where
  "session_finish env s =
     (if ss_finished s then Some (Inl (LogicError ''Session::finish called twice''))
      else if dy_days env = 0
      then let w = \<lparr>wn_start = dy_start env, wn_days = 0\<rparr>
           in Some (Inr (\<lparr>bt_simulated = w, bt_finalized = w, bt_txns = []\<rparr>, s\<lparr>ss_finished := True\<rparr>))
      else if ss_next s \<noteq> dy_days env
      then Some (Inl (LogicError ''Session::finish requires the full market range to be advanced''))
      else
        bind_run (ensure_prepared env s) (\<lambda>(pr, s).
        bind_run (emission_call (dy_finish env) (ss_state s)) (\<lambda>st.
        bind_run (Some (take_emitted st)) (\<lambda>(rows, st).
        bind_run (Some (buffer_transactions rows (s\<lparr>ss_state := st\<rparr>))) (\<lambda>s.
        bind_run (drain_card_cycles (ss_state s)) (\<lambda>(residual, st).
        bind_run (Some (buffer_transactions residual (s\<lparr>ss_state := st, ss_card_events := ss_card_events s + length residual\<rparr>))) (\<lambda>s.
          Some (drain_finalized env \<lparr>wn_start = market_end env, wn_days = 0\<rparr> (market_end env) (s\<lparr>ss_finished := True\<rparr>)))))))))"

text \<open>A caller that advances over windows and finishes.\<close>

fun session_windows :: "'e spend_env \<Rightarrow> window list \<Rightarrow> 'e spend_session \<Rightarrow> (batch list \<times> 'e spend_session) result option" where
  "session_windows env [] s = bind_run (session_finish env s) (\<lambda>(b, s). Some (Inr ([b], s)))"
| "session_windows env (w # ws) s =
     bind_run (session_advance env w s) (\<lambda>(b, s).
     bind_run (session_windows env ws s) (\<lambda>(bs, s). Some (Inr (b # bs, s))))"

end
