(* ===== verification/EndpointsFacts.thy ===== *)
theory EndpointsFacts
  imports Endpoints RandomClaims
begin

text \<open>
  What the endpoint router guarantees: an endpoint is attributed only inside its own tenure, the walk
  always finds one when one is live and draws only for a voluntary switch, and the factory changes
  nothing of a draft but the device and the address.
\<close>

subsection \<open>Draws\<close>

lemma choice_index_less: "to_run (choice_index n g) = Some (Inr (v, g')) \<Longrightarrow> n < 2 ^ 64 \<Longrightarrow> v < n"
  using bounded_less [of "word_of_nat n :: u64" g]
  by (auto simp: choice_index_def to_run_def word_less_nat_alt unat_of_nat split: if_splits option.splits)

lemma choice_index_returns:
  assumes "seeded g" "0 < n" "n < 2 ^ 64"
  shows "\<exists>v g'. to_run (choice_index n g) = Some (Inr (v, g')) \<and> v < n \<and> seeded g'"
proof -
  have "0 < (word_of_nat n :: u64)" using assms(2,3) by (simp add: word_less_nat_alt unat_of_nat)
  then obtain v g' where "bounded (word_of_nat n) g = Some (v, g')" "v < (word_of_nat n :: u64)" "seeded g'"
    by (rule bounded_seeded [OF assms(1)])
  then show ?thesis using assms(2,3) by (auto simp: choice_index_def word_less_nat_alt unat_of_nat)
qed

lemma coin_seeded: "seeded g \<Longrightarrow> seeded (snd (coin p g))"
  by (simp add: coin_def seeded_def next_double_def next_u64_def pcg_step_def Let_def split_beta)

subsection \<open>The walk\<close>

lemma live_indices_iff: "i \<in> set (live_indices spans ts) \<longleftrightarrow> i < length spans \<and> tenure_contains (spans ! i) ts"
  by (auto simp: live_indices_def)

lemma filter_head: "filter P xs = y # ys \<Longrightarrow> y \<in> set xs"
  by (metis filter_is_subset list.set_intros(1) subsetD)

lemma anchor_live:
  assumes "live_indices spans ts \<noteq> []"
  shows "anchor spans ts cur \<in> set (live_indices spans ts)"
proof -
  let ?live = "live_indices spans ts"
  have hd: "hd ?live \<in> set ?live" using assms by simp
  show ?thesis
  proof (cases cur)
    case None then show ?thesis using hd by (simp add: anchor_def)
  next
    case (Some c)
    let ?start = "if length spans \<le> c then 0 else c + 1"
    show ?thesis
    proof (cases "c < length spans \<and> tenure_contains (spans ! c) ts")
      case True then show ?thesis using Some by (simp add: anchor_def live_indices_iff)
    next
      case False
      then have "anchor spans ts cur =
          (case filter (\<lambda>i. ?start \<le> i) ?live of [] \<Rightarrow> hd ?live | i # _ \<Rightarrow> i)"
        using Some by (simp only: anchor_def option.case Let_def if_False)
      then show ?thesis using hd by (auto dest: filter_head split: list.split)
    qed
  qed
qed

lemma others_length: "distinct xs \<Longrightarrow> c \<in> set xs \<Longrightarrow> length (filter (\<lambda>i. i \<noteq> c) xs) = length xs - 1"
proof -
  assume "distinct xs" "c \<in> set xs"
  moreover have "set (filter (\<lambda>i. i \<noteq> c) xs) = set xs - {c}" by auto
  ultimately show ?thesis by (metis card_Diff_singleton distinct_card distinct_filter)
qed

lemma route_live_correct:
  assumes "length spans < 2 ^ 64" "route_live p spans ts cur g = Some (Inr (i, cur', g'))"
  shows "(live_indices spans ts = [] \<longrightarrow> i = None \<and> cur' = cur \<and> g' = g) \<and>
    (live_indices spans ts \<noteq> [] \<longrightarrow> (\<exists>c \<in> set (live_indices spans ts). i = Some c \<and> cur' = Some c)) \<and>
    (length (live_indices spans ts) = 1 \<longrightarrow> g' = g)"
proof (cases "live_indices spans ts = []")
  case False
  let ?live = "live_indices spans ts" and ?c = "anchor spans ts cur"
  have c: "?c \<in> set ?live" by (rule anchor_live [OF False])
  have "length ?live \<le> length spans"
    using length_filter_le [of "\<lambda>i. tenure_contains (spans ! i) ts" "[0..<length spans]"] by (simp add: live_indices_def)
  then have small: "length ?live - 1 < 2 ^ 64" using assms(1) by simp
  have d: "distinct ?live" by (simp add: live_indices_def)
  have pick: "filter (\<lambda>i. i \<noteq> ?c) ?live ! k \<in> set ?live" if "k < length ?live - 1" for k
    using that others_length [OF d c] by (metis filter_is_subset nth_mem subsetD)
  show ?thesis
  proof (cases "1 < length ?live \<and> fst (coin p g)")
    case True
    obtain g1 where g1: "coin p g = (True, g1)" using True by (cases "coin p g") auto
    obtain k g2 where k: "to_run (choice_index (length ?live - 1) g1) = Some (Inr (k, g2))"
      "i = Some (filter (\<lambda>i. i \<noteq> ?c) ?live ! k)" "cur' = i"
      using assms(2) False True g1 by (auto simp: route_live_def Let_def bind_run_Inr)
    then show ?thesis using pick [OF choice_index_less [OF k(1) small]] False True by auto
  qed (use assms(2) False c in \<open>auto simp: route_live_def Let_def split_beta split: if_splits\<close>)
qed (use assms(2) in \<open>simp add: route_live_def\<close>)

lemma route_live_returns:
  assumes "seeded g" "length spans < 2 ^ 64"
  shows "\<exists>i cur' g'. route_live p spans ts cur g = Some (Inr (i, cur', g')) \<and> seeded g'"
proof -
  let ?live = "live_indices spans ts"
  obtain hit g1 where g1: "coin p g = (hit, g1)" by (cases "coin p g")
  then have s1: "seeded g1" using coin_seeded [OF assms(1), of p] by simp
  show ?thesis
  proof (cases "1 < length ?live \<and> hit")
    case True
    have "length ?live \<le> length spans"
      using length_filter_le [of "\<lambda>i. tenure_contains (spans ! i) ts" "[0..<length spans]"] by (simp add: live_indices_def)
    then have "0 < length ?live - 1" "length ?live - 1 < 2 ^ 64" using True assms(2) by auto
    from choice_index_returns [OF s1 this]
    obtain v g' where "to_run (choice_index (length ?live - 1) g1) = Some (Inr (v, g'))" "seeded g'" by auto
    then have "route_live p spans ts cur g =
        Some (Inr (Some (filter (\<lambda>i. i \<noteq> anchor spans ts cur) ?live ! v), Some (filter (\<lambda>i. i \<noteq> anchor spans ts cur) ?live ! v), g'))"
      using True g1 by (auto simp: route_live_def Let_def)
    then show ?thesis using \<open>seeded g'\<close> by blast
  next
    case False
    then have "\<exists>i cur'. route_live p spans ts cur g = Some (Inr (i, cur', g)) \<or> route_live p spans ts cur g = Some (Inr (i, cur', g1))"
      using g1 by (auto simp: route_live_def Let_def)
    then show ?thesis using assms(1) s1 by blast
  qed
qed

subsection \<open>The factory leaves the draft alone\<close>

definition row_core :: "txn \<Rightarrow> txn" where
  "row_core t = t\<lparr>tx_session := (tx_session t)\<lparr>se_device := device_none, se_ip := 0\<rparr>\<rparr>"

lemma row_core_fields [simp]:
  "tx_source (row_core t) = tx_source t" "tx_target (row_core t) = tx_target t" "tx_amount (row_core t) = tx_amount t"
  "tx_time (row_core t) = tx_time t" "tx_fraud (row_core t) = tx_fraud t" "tx_channel (row_core t) = tx_channel t"
  by (simp_all add: row_core_def)

lemma row_core_set [simp]:
  "row_core (set_device d t) = row_core t" "row_core (set_ip ip t) = row_core t"
  "row_core (t\<lparr>tx_session := (tx_session t)\<lparr>se_device := v\<rparr>\<rparr>) = row_core t"
  "row_core (t\<lparr>tx_session := (tx_session t)\<lparr>se_ip := w\<rparr>\<rparr>) = row_core t"
  "row_core (t\<lparr>tx_session := (tx_session t)\<lparr>se_device := v, se_ip := w\<rparr>\<rparr>) = row_core t"
  by (simp_all add: row_core_def set_device_def set_ip_def split: option.split)

lemma ring_endpoints_core: "ring_endpoints ring d g t = (dev, ip, t', g') \<Longrightarrow> row_core t' = row_core t"
  by (auto simp: ring_endpoints_def Let_def split_beta split: option.splits if_splits)

lemma public_endpoints_core [simp]: "row_core (public_endpoints dev ip owner ts r t) = row_core t"
  by (simp add: public_endpoints_def Let_def split: option.split)

lemma owner_endpoints_core:
  "owner_endpoints dev ip d g r t = Some (Inr (t', g', r')) \<Longrightarrow> row_core t' = row_core t"
  by (auto simp: owner_endpoints_def bind_run_Inr split: if_splits option.splits)

lemma make_row_core:
  assumes "make_row ring d g r = Some (Inr (t, g', r'))"
  shows "row_core t = row_core (draft_row d)"
proof -
  obtain dev ip t1 g1 where r1: "ring_endpoints ring d g (draft_row d) = (dev, ip, t1, g1)" by (metis prod_cases4)
  show ?thesis using assms r1 ring_endpoints_core [OF r1] owner_endpoints_core
    by (auto simp: make_row_def bind_run_Inr split: option.splits)
qed

lemma draft_row_fields [simp]:
  "tx_source (draft_row d) = df_source d" "tx_target (draft_row d) = df_destination d" "tx_amount (draft_row d) = df_amount d"
  "tx_time (draft_row d) = df_time d" "tx_channel (draft_row d) = df_channel d"
  by (simp_all add: draft_row_def)

lemma make_row_fields:
  assumes "make_row ring d g r = Some (Inr (t, g', r'))"
  shows "tx_source t = df_source d" "tx_target t = df_destination d" "tx_amount t = df_amount d" "tx_time t = df_time d"
    "tx_channel t = df_channel d"
  using make_row_core [OF assms] by (metis row_core_fields draft_row_fields)+

end
