(* ===== verification/CardFacts.thy ===== *)
theory CardFacts
  imports CardDriver EndpointsFacts
begin

text \<open>
  The statement closes of a window. Months are counted as in \<open>Months\<close>; \<open>close_at\<close> is the close of a
  month, and the loop of \<open>statementCloseDates\<close> returns the closes of consecutive months.
\<close>

subsection \<open>The close of a month\<close>

definition close_day :: "nat \<Rightarrow> int \<Rightarrow> int" where
  "close_day cycle_day n = min (int cycle_day) (days_in_month (n div 12) (n mod 12 + 1))"

definition close_at :: "nat \<Rightarrow> int \<Rightarrow> time_point" where
  "close_at cycle_day n = first_of_month n + (close_day cycle_day n - 1) * seconds_per_day + (23 * 3600 + 30 * 60)"

definition month_seconds :: "int \<Rightarrow> int" where
  "month_seconds n = days_in_month (n div 12) (n mod 12 + 1) * seconds_per_day"

lemma first_of_month_next: "first_of_month (n + 1) = first_of_month n + month_seconds n"
  by (simp add: first_of_month_Suc month_seconds_def)

lemma close_day_bounds:
  assumes "0 < cycle_day"
  shows "1 \<le> close_day cycle_day n" "close_day cycle_day n \<le> days_in_month (n div 12) (n mod 12 + 1)"
  using assms days_in_month_bounds(1) [of "n div 12" "n mod 12 + 1"] by (auto simp: close_day_def)

lemma close_at_in_month:
  assumes "0 < cycle_day"
  shows "first_of_month n \<le> close_at cycle_day n" "close_at cycle_day n < first_of_month (n + 1)"
  using close_day_bounds [OF assms, of n]
  by (auto simp: close_at_def first_of_month_next month_seconds_def seconds_per_day_def)

lemma close_at_gap:
  assumes "0 < cycle_day"
  shows "close_at cycle_day n < close_at cycle_day (n + 1)"
    "close_at cycle_day (n + 1) - close_at cycle_day n \<le> 31 * seconds_per_day"
proof -
  show "close_at cycle_day n < close_at cycle_day (n + 1)"
    using close_at_in_month(2) [OF assms, of n] close_at_in_month(1) [OF assms, of "n + 1"] by simp
  let ?d = "days_in_month (n div 12) (n mod 12 + 1)" and ?e = "days_in_month ((n + 1) div 12) ((n + 1) mod 12 + 1)"
  have b: "?d \<le> 31" "?e \<le> 31" by (rule days_in_month_bounds)+
  have "?d + close_day cycle_day (n + 1) - close_day cycle_day n \<le> 31"
    using b by (auto simp: close_day_def min_def)
  then have "(?d + close_day cycle_day (n + 1) - close_day cycle_day n) * seconds_per_day \<le> 31 * seconds_per_day"
    by (intro mult_right_mono) auto
  then show "close_at cycle_day (n + 1) - close_at cycle_day n \<le> 31 * seconds_per_day"
    using first_of_month_next [of n] by (simp add: close_at_def month_seconds_def algebra_simps)
qed

lemma close_at_mono: "m < n \<Longrightarrow> 0 < cycle_day \<Longrightarrow> close_at cycle_day m < close_at cycle_day n"
proof (induction n rule: int_gr_induct)
  case (step i)
  then show ?case using close_at_gap(1) [of cycle_day i] by simp
qed (simp add: close_at_gap)

lemma close_at_le_iff: "0 < cycle_day \<Longrightarrow> close_at cycle_day m \<le> close_at cycle_day n \<longleftrightarrow> m \<le> n"
  using close_at_mono [of m n cycle_day] close_at_mono [of n m cycle_day] by (cases m n rule: linorder_cases) auto

lemma make_close:
  assumes "0 < cycle_day" "year_in_range (n div 12)"
  shows "make_time \<lparr>cd_year = n div 12, cd_month = n mod 12 + 1, cd_day = clamp_day (n div 12) (n mod 12 + 1) cycle_day\<rparr>
      statement_close_time = Inr (close_at cycle_day n)"
proof -
  let ?c = "\<lparr>cd_year = n div 12, cd_month = n mod 12 + 1, cd_day = clamp_day (n div 12) (n mod 12 + 1) cycle_day\<rparr>"
  have "valid_date ?c"
    using assms(2) month_range [of n] close_day_bounds [OF assms(1), of n]
    by (simp add: valid_date_def ymd_ok_def year_in_range_def clamp_day_def close_day_def)
  then show ?thesis
    by (simp add: make_time_valid statement_close_time_def close_at_def first_of_month_def clamp_day_def
        close_day_def sys_days_start algebra_simps)
qed

lemma make_close_error: "\<not> year_in_range (n div 12) \<Longrightarrow>
    make_time \<lparr>cd_year = n div 12, cd_month = n mod 12 + 1, cd_day = clamp_day (n div 12) (n mod 12 + 1) cycle_day\<rparr>
      statement_close_time = Inl (InvalidArgument ''invalid calendar date'')"
  by (auto simp: make_time_def Let_def ymd_ok_def year_in_range_def)

subsection \<open>The loop over the months\<close>

lemma next_month_args:
  "(if n mod 12 + 1 = 12 then f (n div 12 + 1) (1::int) else f (n div 12) (n mod 12 + 1 + 1)) =
    f ((n + 1) div 12) ((n + 1) mod 12 + 1)" for n :: int
  by (cases "n mod 12 = 11") (simp_all add: succ_month)

lemma close_dates_step:
  assumes "0 < cycle_day" "year_in_range (n div 12)"
  shows "close_dates_from w_start w_end cycle_day (n div 12) (n mod 12 + 1) acc =
    (if w_end \<le> close_at cycle_day n then Some (Inr acc)
     else close_dates_from w_start w_end cycle_day ((n + 1) div 12) ((n + 1) mod 12 + 1)
            (if w_start \<le> close_at cycle_day n then acc @ [close_at cycle_day n] else acc))"
  by (subst close_dates_from.simps)
    (simp only: make_close [OF assms] sum.case Let_def
      next_month_args [where f = "\<lambda>y m. close_dates_from w_start w_end cycle_day y m c" for c])

text \<open>The loop returns the closes of the months up to the first that closes after the window.\<close>

lemma close_dates_loop:
  assumes "0 < cycle_day" "n \<le> k" "w_end \<le> close_at cycle_day k" "\<And>i. n \<le> i \<Longrightarrow> i < k \<Longrightarrow> close_at cycle_day i < w_end"
    "\<And>i. n \<le> i \<Longrightarrow> i \<le> k \<Longrightarrow> year_in_range (i div 12)"
  shows "close_dates_from w_start w_end cycle_day (n div 12) (n mod 12 + 1) acc =
    Some (Inr (acc @ filter (\<lambda>c. w_start \<le> c) (map (close_at cycle_day) [n..k - 1])))"
  using assms(2,4,5)
proof (induction "nat (k - n)" arbitrary: n acc)
  case 0
  then have "n = k" by simp
  then show ?case using assms(1,3) 0(4) by (simp add: close_dates_step)
next
  case (Suc d)
  have lt: "n < k" using Suc.hyps(2) by simp
  have n: "\<not> w_end \<le> close_at cycle_day n" "year_in_range (n div 12)" "[n..k - 1] = n # [n + 1..k - 1]"
    using lt Suc.prems(2) [of n] Suc.prems(3) [of n] by (simp_all add: upto_rec1 not_le)
  show ?case
    using Suc.hyps(1) [of "n + 1"] Suc.hyps(2) Suc.prems n(1,3)
    by (simp add: close_dates_step [OF assms(1) n(2)])
qed

subsection \<open>The closes of a window\<close>

text \<open>Consecutive closes are at most 31 days apart, the first from the start of servicing.\<close>

fun close_chain :: "time_point \<Rightarrow> time_point list \<Rightarrow> bool" where
  "close_chain prior [] \<longleftrightarrow> True"
| "close_chain prior (c # cs) \<longleftrightarrow> prior \<le> c \<and> c - prior \<le> 31 * seconds_per_day \<and> close_chain c cs"

lemma close_chain_months:
  assumes "0 < cycle_day" "prior \<le> close_at cycle_day n" "close_at cycle_day n - prior \<le> 31 * seconds_per_day"
  shows "close_chain prior (map (close_at cycle_day) [n..k])"
  using assms(2,3)
proof (induction "nat (k + 1 - n)" arbitrary: n prior)
  case (Suc d)
  then have "[n..k] = n # [n + 1..k]" by (simp add: upto_rec1)
  then show ?case using Suc close_at_gap [OF assms(1), of n] by simp
qed simp

lemma close_chain_prefix: "close_chain prior (xs @ ys) \<Longrightarrow> close_chain prior xs"
  by (induction xs arbitrary: prior) auto

lemma close_chain_sorted: "close_chain prior cs \<Longrightarrow> sorted (prior # cs)"
  by (induction cs arbitrary: prior) (auto intro: order_trans)

text \<open>The month of the first close of a window.\<close>

definition first_close_month :: "nat \<Rightarrow> time_point \<Rightarrow> int" where
  "first_close_month cycle_day w_start =
     (let n = month_count w_start in if w_start \<le> close_at cycle_day n then n else n + 1)"

lemma first_close:
  assumes "0 < cycle_day"
  shows "w_start \<le> close_at cycle_day (first_close_month cycle_day w_start)"
    "close_at cycle_day (first_close_month cycle_day w_start) - w_start \<le> 31 * seconds_per_day"
    "close_at cycle_day i < w_start \<longleftrightarrow> i < first_close_month cycle_day w_start"
proof -
  let ?n = "month_count w_start" and ?f = "first_close_month cycle_day w_start"
  note m = month_bounds [of w_start]
  have below: "close_at cycle_day (?n - 1) < w_start"
    using close_at_in_month(2) [OF assms, of "?n - 1"] m(1) by simp
  have above: "w_start < close_at cycle_day (?n + 1)"
    using close_at_in_month(1) [OF assms, of "?n + 1"] m(2) by simp
  show 1: "w_start \<le> close_at cycle_day ?f" using above by (simp add: first_close_month_def Let_def)
  have 2: "close_at cycle_day (?f - 1) < w_start" using below by (simp add: first_close_month_def Let_def)
  show "close_at cycle_day ?f - w_start \<le> 31 * seconds_per_day"
    using close_at_gap(2) [OF assms, of "?f - 1"] 2 by simp
  show "close_at cycle_day i < w_start \<longleftrightarrow> i < ?f"
    using 1 2 close_at_le_iff [OF assms, of ?f i] close_at_le_iff [OF assms, of i "?f - 1"] by linarith
qed

lemma filter_from: "filter (\<lambda>i. a \<le> i) [n..k] = [max n a..k]" for n :: int
proof (induction "nat (k + 1 - n)" arbitrary: n)
  case 0 then show ?case by simp
next
  case (Suc d)
  then have "[n..k] = n # [n + 1..k]" by (simp add: upto_rec1)
  then show ?case using Suc by (cases "a \<le> n") (auto simp: max_def upto_rec1)
qed

lemma filter_closes:
  assumes "0 < cycle_day" "n = month_count w_start"
  shows "filter (\<lambda>c. w_start \<le> c) (map (close_at cycle_day) [n..k]) =
    map (close_at cycle_day) [first_close_month cycle_day w_start..k]"
proof -
  have p: "w_start \<le> close_at cycle_day i \<longleftrightarrow> first_close_month cycle_day w_start \<le> i" for i
    using first_close(3) [OF assms(1), of i w_start] by linarith
  have "n \<le> first_close_month cycle_day w_start" by (simp add: assms(2) first_close_month_def Let_def)
  then show ?thesis by (simp add: filter_map comp_def p filter_from max_def)
qed

lemma statement_close_dates_eq:
  assumes "0 < cycle_day" "w_start < w_end" "year_in_range (month_count w_start div 12)"
    "year_in_range (first_close_month cycle_day w_end div 12)"
  shows "statement_close_dates w_start w_end cycle_day =
    Some (Inr (map (close_at cycle_day) [first_close_month cycle_day w_start..first_close_month cycle_day w_end - 1]))"
proof -
  let ?n = "month_count w_start" and ?k = "first_close_month cycle_day w_end"
  have "close_at cycle_day (?n - 1) < w_end"
    using close_at_in_month(2) [OF assms(1), of "?n - 1"] month_bounds(1) [of w_start] assms(2) by simp
  then have le: "?n \<le> ?k" using first_close(3) [OF assms(1), of "?n - 1" w_end] by linarith
  have y: "year_in_range (i div 12)" if "?n \<le> i" "i \<le> ?k" for i
    using assms(3,4) zdiv_mono1 [OF that(1), of 12] zdiv_mono1 [OF that(2), of 12] by (auto simp: year_in_range_def)
  have "close_dates_from w_start w_end cycle_day (?n div 12) (?n mod 12 + 1) [] =
      Some (Inr ([] @ filter (\<lambda>c. w_start \<le> c) (map (close_at cycle_day) [?n..?k - 1])))"
    by (rule close_dates_loop [OF assms(1) le first_close(1) [OF assms(1)] _ y]) (simp_all add: first_close(3) [OF assms(1)])
  then show ?thesis
    using assms(1,2) by (simp add: statement_close_dates_def month_count_day filter_closes)
qed

text \<open>Whatever the window, the closes that are returned lie in it and follow each other.\<close>

lemma close_dates_result:
  assumes "0 < cycle_day" "close_dates_from w_start w_end cycle_day (n div 12) (n mod 12 + 1) acc = Some (Inr closes)"
  shows "\<exists>k. n \<le> k \<and> closes = acc @ filter (\<lambda>c. w_start \<le> c) (map (close_at cycle_day) [n..k - 1]) \<and>
    (\<forall>i. n \<le> i \<and> i < k \<longrightarrow> close_at cycle_day i < w_end) \<and> w_end \<le> close_at cycle_day k"
  using assms(2)
proof (induction "nat (first_close_month cycle_day w_end - n)" arbitrary: n acc rule: less_induct)
  case less
  let ?K = "first_close_month cycle_day w_end"
  have y: "year_in_range (n div 12)"
    using less.prems make_close_error [of n cycle_day] by (subst (asm) close_dates_from.simps) (rule ccontr, simp)
  show ?case
  proof (cases "w_end \<le> close_at cycle_day n")
    case True
    then show ?thesis using less.prems by (intro exI [of _ n]) (simp add: close_dates_step [OF assms(1) y])
  next
    case False
    let ?acc = "if w_start \<le> close_at cycle_day n then acc @ [close_at cycle_day n] else acc"
    have "n < ?K" using False first_close(3) [OF assms(1), of n w_end] by simp
    moreover have "close_dates_from w_start w_end cycle_day ((n + 1) div 12) ((n + 1) mod 12 + 1) ?acc = Some (Inr closes)"
      using less.prems False by (simp add: close_dates_step [OF assms(1) y])
    ultimately obtain k where k: "n + 1 \<le> k"
      "closes = ?acc @ filter (\<lambda>c. w_start \<le> c) (map (close_at cycle_day) [n + 1..k - 1])"
      "\<forall>i. n + 1 \<le> i \<and> i < k \<longrightarrow> close_at cycle_day i < w_end" "w_end \<le> close_at cycle_day k"
      using less.hyps [of "n + 1" ?acc] by auto
    have "[n..k - 1] = n # [n + 1..k - 1]" using k(1) by (simp add: upto_rec1)
    moreover have "\<forall>i. n \<le> i \<and> i < k \<longrightarrow> close_at cycle_day i < w_end"
      using k(3) False by (metis linorder_not_le order_le_less zless_imp_add1_zle)
    ultimately show ?thesis using k by (intro exI [of _ k]) simp
  qed
qed

lemma close_at_mod: "close_at cycle_day n mod seconds_per_day = 84600"
proof -
  have "close_at cycle_day n = 84600 +
      (sys_days (n div 12) (n mod 12 + 1) 1 + (close_day cycle_day n - 1)) * seconds_per_day"
    by (simp add: close_at_def first_of_month_def algebra_simps)
  then show ?thesis by (simp only: mod_mult_self1) (simp add: seconds_per_day_def)
qed

lemma statement_close_dates_months:
  assumes "statement_close_dates w_start w_end cycle_day = Some (Inr closes)" "closes \<noteq> []"
  shows "0 < cycle_day \<and> (\<exists>k. closes = map (close_at cycle_day) [first_close_month cycle_day w_start..k - 1] \<and>
    (\<forall>i. month_count w_start \<le> i \<and> i < k \<longrightarrow> close_at cycle_day i < w_end))"
proof -
  let ?n = "month_count w_start"
  have cd: "0 < cycle_day" using assms by (auto simp: statement_close_dates_def split: if_splits)
  have "close_dates_from w_start w_end cycle_day (?n div 12) (?n mod 12 + 1) [] = Some (Inr closes)"
    using assms by (simp add: statement_close_dates_def month_count_day Let_def split: if_splits)
  from close_dates_result [OF cd this]
  obtain k where "closes = filter (\<lambda>c. w_start \<le> c) (map (close_at cycle_day) [?n..k - 1])"
    "\<forall>i. ?n \<le> i \<and> i < k \<longrightarrow> close_at cycle_day i < w_end" by auto
  then show ?thesis using cd by (auto simp: filter_closes [OF cd refl])
qed

lemma first_close_month_ge: "month_count w_start \<le> first_close_month cycle_day w_start"
  by (simp add: first_close_month_def Let_def)

lemma statement_close_dates_chain:
  assumes "statement_close_dates w_start w_end cycle_day = Some (Inr closes)"
  shows "close_chain w_start closes" "\<forall>c \<in> set closes. c < w_end \<and> c mod seconds_per_day = 84600"
proof -
  have "close_chain w_start closes \<and> (\<forall>c \<in> set closes. c < w_end \<and> c mod seconds_per_day = 84600)"
  proof (cases "closes = []")
    case False
    from statement_close_dates_months [OF assms False]
    obtain k where cd: "0 < cycle_day"
      and k: "closes = map (close_at cycle_day) [first_close_month cycle_day w_start..k - 1]"
      "\<forall>i. month_count w_start \<le> i \<and> i < k \<longrightarrow> close_at cycle_day i < w_end" by auto
    have "close_chain w_start closes"
      unfolding k(1) by (rule close_chain_months [OF cd first_close(1,2) [OF cd]])
    moreover have "c < w_end \<and> c mod seconds_per_day = 84600" if c: "c \<in> set closes" for c
    proof -
      obtain i where "c = close_at cycle_day i" "first_close_month cycle_day w_start \<le> i" "i < k"
        using c unfolding k(1) by auto
      then show ?thesis using k(2) first_close_month_ge [of w_start cycle_day] close_at_mod by auto
    qed
    ultimately show ?thesis by blast
  qed simp
  then show "close_chain w_start closes" "\<forall>c \<in> set closes. c < w_end \<and> c mod seconds_per_day = 84600" by auto
qed

end
