(* ===== verification/CardRows.thy ===== *)
theory CardRows
  imports CardFacts
begin

text \<open>
  When the rows of a card are dated. A statement that closes inside a day books nothing before the
  purchases it reveals: a dispute follows its purchase, a payment and a late fee follow the close, and a
  posting that has matured is never older than the day it was queued for.
\<close>

subsection \<open>Times that are made from a date\<close>

abbreviation day_of :: "time_point \<Rightarrow> time_point" where
  "day_of t \<equiv> t div seconds_per_day * seconds_per_day"

lemma make_time_day:
  assumes "make_time (to_calendar_date x) tod = Inr y"
  shows "y = day_of x + td_hour tod * 3600 + td_minute tod * 60 + td_second tod"
proof -
  let ?c = "to_calendar_date x"
  note f = civil_facts [of "x div seconds_per_day", folded to_calendar_date_def]
  have small: "cd_month ?c mod 256 = cd_month ?c" "cd_day ?c mod 256 = cd_day ?c"
    using f days_in_month_bounds(2) [of "cd_year ?c" "cd_month ?c"] by auto
  show ?thesis using assms f(5) by (simp add: make_time_def Let_def small split: if_splits)
qed

lemma day_of_le: "day_of t \<le> t" "t < day_of t + seconds_per_day"
proof -
  have "t = day_of t + t mod seconds_per_day" "0 \<le> t mod seconds_per_day" "t mod seconds_per_day < seconds_per_day" by simp_all
  then show "day_of t \<le> t" "t < day_of t + seconds_per_day" by linarith+
qed

lemma day_of_mono: "s \<le> t \<Longrightarrow> day_of s \<le> day_of t"
  by (intro mult_right_mono zdiv_mono1) simp_all

lemma day_of_add [simp]: "day_of (t + k * seconds_per_day) = day_of t + k * seconds_per_day"
  by (simp add: algebra_simps)

lemma day_of_add1 [simp]: "day_of (t + seconds_per_day) = day_of t + seconds_per_day"
  using day_of_add [of t 1] by simp

lemma day_of_day_of [simp]: "day_of (day_of t) = day_of t"
  by simp

lemma day_of_plus: "0 \<le> r \<Longrightarrow> r < seconds_per_day \<Longrightarrow> day_of (day_of t + r) = day_of t"
  using day_of_seconds [of r "t div seconds_per_day"] by simp

lemma hour_minute: "r div 3600 * 3600 + (r - r div 3600 * 3600) div 60 * 60 = r - r mod 60" for r :: int
proof -
  have "(r - r div 3600 * 3600) div 60 = r div 60 - r div 3600 * 60"
    using div_mult_self3 [of 60 "- (r div 3600 * 60)" r] by (simp add: algebra_simps)
  then show ?thesis using minus_mult_div_eq_mod [of r 60] by linarith
qed

text \<open>The due date moves to Monday when it falls on a weekend, and loses its seconds.\<close>

definition business_day :: "time_point \<Rightarrow> time_point" where
  "business_day due = (if weekday due = 5 then add_days due 2 else if weekday due = 6 then add_days due 1 else due)"

lemma business_day_cases: "\<exists>k. 0 \<le> k \<and> business_day due = due + 60 * k"
proof -
  have "2 * seconds_per_day = 60 * 2880" "1 * seconds_per_day = 60 * 1440" by (simp_all add: seconds_per_day_def)
  then consider "business_day due = due + 60 * 2880" | "business_day due = due + 60 * 1440" | "business_day due = due + 60 * 0"
    unfolding business_day_def add_days_def by (metis add_0_right mult_zero_right)
  then show ?thesis by cases (rule exI, rule conjI [rotated], assumption, simp)+
qed

lemma business_day_bounds: "due \<le> business_day due" "business_day due mod 60 = due mod 60"
  using business_day_cases [of due] by auto

lemma resolve_due_date_eq:
  assumes "resolve_due_date due = Inr d"
  shows "d = business_day due - due mod 60"
proof -
  let ?a = "business_day due"
  let ?r = "?a - day_of ?a"
  have "d = day_of ?a + ?r div 3600 * 3600 + (?r - ?r div 3600 * 3600) div 60 * 60"
    using assms make_time_day [of ?a "(to_time_of_day ?a)\<lparr>td_second := 0\<rparr>" d]
    by (simp add: resolve_due_date_def Let_def business_day_def [symmetric] to_time_of_day_def)
  then have d: "d = ?a - ?r mod 60" using hour_minute [of ?r] by simp
  have "?r = ?a mod seconds_per_day" by (simp add: minus_div_mult_eq_mod)
  then have "?r mod 60 = ?a mod 60" by (simp add: seconds_per_day_def mod_mod_cancel)
  then show ?thesis using d business_day_bounds(2) by simp
qed

lemma resolve_due_date_bounds:
  assumes "resolve_due_date due = Inr d"
  shows "day_of due \<le> day_of d" "due mod 60 = 0 \<Longrightarrow> due \<le> d"
proof -
  note d = resolve_due_date_eq [OF assms]
  show "due mod 60 = 0 \<Longrightarrow> due \<le> d" using d business_day_bounds(1) [of due] by simp
  have "due mod 60 = business_day due mod 60" by (simp add: business_day_bounds)
  moreover have "day_of x = day_of (x - x mod 60)" for x
  proof -
    have "x = day_of x + x mod seconds_per_day" by simp
    moreover have "x mod seconds_per_day mod 60 = x mod 60" by (simp add: seconds_per_day_def mod_mod_cancel)
    ultimately have "x - x mod 60 = day_of x + (x mod seconds_per_day - x mod seconds_per_day mod 60)" by linarith
    moreover have "0 \<le> x mod seconds_per_day - x mod seconds_per_day mod 60"
      "x mod seconds_per_day - x mod seconds_per_day mod 60 < seconds_per_day"
      using zmod_le_nonneg_dividend [of "x mod seconds_per_day" 60] pos_mod_sign [of 60 "x mod seconds_per_day"]
        pos_mod_bound [of seconds_per_day x] by (auto simp del: pos_mod_bound)
    ultimately show ?thesis by (metis day_of_plus)
  qed
  ultimately have "day_of d = day_of (business_day due)" using d by simp
  then show "day_of due \<le> day_of d" using day_of_mono [OF business_day_bounds(1)] by simp
qed

subsection \<open>Draws\<close>

lemma draw_int_bounds:
  assumes "draw_int low high g = Some (Inr (v, g'))" "high - low < 2 ^ 63"
  shows "low \<le> v" "v < high"
proof -
  have lt: "low < high" using assms(1) by (auto simp: draw_int_def uniform_int_def split: if_splits)
  define d where "d = high - low"
  have d: "0 < d" "d < 2 ^ 63" using lt assms(2) by (simp_all add: d_def)
  obtain u where u: "bounded (word_of_int d) g = Some (u, g')" "v = low + sint u"
    using assms(1) lt by (auto simp: draw_int_def uniform_int_def to_run_def d_def split: option.splits)
  have w: "uint (word_of_int d :: u64) = d" using d by (simp add: uint_word_of_int)
  then have "0 < (word_of_int d :: u64)" using d(1) by (simp add: word_less_alt)
  from bounded_less [OF u(1) this] have "uint u < d" using w by (simp add: word_less_alt)
  moreover have "sint u = uint u"
    unfolding sint_uint using \<open>uint u < d\<close> d(2) order_trans [OF _ uint_ge_0 [of u]]
    by (intro signed_take_bit_int_eq_self) auto
  ultimately show "low \<le> v" "v < high" using u(2) by (simp_all add: d_def)
qed

definition billing_ok :: "card_env \<Rightarrow> bool" where
  "billing_ok env \<longleftrightarrow> 3 \<le> bt_grace_days (ce_billing env) \<and>
     0 \<le> pt_late_min (ce_timing env) \<and> pt_late_max (ce_timing env) < 2 ^ 31 \<and>
     0 \<le> db_refund_min (ce_disputes env) \<and> db_refund_max (ce_disputes env) < 2 ^ 31 \<and>
     0 \<le> db_chargeback_min (ce_disputes env) \<and> db_chargeback_max (ce_disputes env) < 2 ^ 31"

lemma sample_payment_time_lower:
  assumes "sample_payment_time timing g due auto = Some (Inr (p, g'))" "0 \<le> pt_late_min timing" "pt_late_max timing < 2 ^ 31"
  shows "day_of due - 3 * seconds_per_day + 9 * 3600 \<le> p"
proof -
  obtain cutoff due_day where c: "resolve_due_date due = Inr cutoff" "make_time (to_calendar_date cutoff) midnight = Inr due_day"
    using assms(1) by (auto simp: sample_payment_time_def bind_run_Inr)
  have dd: "due_day = day_of cutoff" using make_time_day [OF c(2)] by (simp add: midnight_def)
  have le: "day_of due \<le> due_day" "due_day \<le> cutoff" unfolding dd
    using resolve_due_date_bounds(1) [OF c(1)] day_of_le by simp_all
  show ?thesis
  proof (cases auto)
    case True
    then have "make_time (to_calendar_date cutoff) autopay_time = Inr p"
      using assms(1) c by (auto simp: sample_payment_time_def bind_run_Inr)
    from make_time_day [OF this] have "p = due_day + 12 * 3600" unfolding dd by (simp add: autopay_time_def)
    then show ?thesis using le by (simp add: seconds_per_day_def)
  next
    case False
    obtain hour g1 minute g2 late g3 where d: "draw_int pay_hour_low pay_hour_high g = Some (Inr (hour, g1))"
        "draw_int 0 60 g1 = Some (Inr (minute, g2))" "coin (pt_late_p timing) g2 = (late, g3)"
      using assms(1) c False by (auto simp: sample_payment_time_def bind_run_Inr split_beta) (metis prod.collapse)
    have t: "9 \<le> hour" "hour < 21" "0 \<le> minute" "minute < 60"
      using draw_int_bounds [OF d(1)] draw_int_bounds [OF d(2)] by (simp_all add: pay_hour_low_def pay_hour_high_def)
    show ?thesis
    proof (cases late)
      case True
      then obtain delay where "draw_int (pt_late_min timing) (pt_late_max timing + 1) g3 = Some (Inr (delay, g'))"
        "p = (let sampled = due_day + delay * seconds_per_day + (hour * seconds_per_hour + minute * seconds_per_minute)
            in if sampled \<le> cutoff then sampled + seconds_per_day else sampled)"
        using assms(1) c False d by (auto simp: sample_payment_time_def bind_run_Inr Let_def)
      moreover from this(1) have "0 \<le> delay" using draw_int_bounds(1) assms(2,3) by force
      ultimately show ?thesis
        using t le by (auto simp: Let_def seconds_per_day_def seconds_per_hour_def seconds_per_minute_def)
    next
      case nl: False
      then obtain early where "draw_int 0 early_day_window g3 = Some (Inr (early, g'))"
        "p = (let sampled = due_day - early * seconds_per_day + (hour * seconds_per_hour + minute * seconds_per_minute)
            in if cutoff < sampled then sampled - seconds_per_day else sampled)"
        using assms(1) c False d by (auto simp: sample_payment_time_def bind_run_Inr Let_def)
      moreover from this(1) have "early \<le> 3" using draw_int_bounds(2) [of 0 early_day_window g3] by (force simp: early_day_window_def)
      ultimately show ?thesis
        using t le by (auto simp: Let_def seconds_per_day_def seconds_per_hour_def seconds_per_minute_def)
    qed
  qed
qed

subsection \<open>What a step of a session adds\<close>

definition timely :: "time_point \<Rightarrow> time_point \<Rightarrow> txn \<Rightarrow> bool" where
  "timely lo hi t \<longleftrightarrow> lo \<le> tx_time t \<and> tx_time t < hi"

definition fee_ok :: "time_point \<Rightarrow> time_point \<Rightarrow> late_fee \<Rightarrow> bool" where
  "fee_ok lo hi fee \<longleftrightarrow> lf_window_end fee = hi \<and> (\<forall>r. resolve_due_date (lf_due fee) = Inr r \<longrightarrow> lo \<le> r)"

definition posting_ok :: "time_point \<Rightarrow> time_point \<Rightarrow> pending_posting \<Rightarrow> bool" where
  "posting_ok lo hi p \<longleftrightarrow> timely lo hi (pp_txn p) \<and>
     (\<forall>fee. pp_fee p = Some fee \<longrightarrow> fee_ok (tx_time (pp_txn p)) hi fee)"

definition adds :: "time_point \<Rightarrow> time_point \<Rightarrow> nat \<Rightarrow> servicing \<Rightarrow> servicing \<Rightarrow> bool" where
  "adds lo hi n sw sw' \<longleftrightarrow>
     cx_account (fst sw') = cx_account (fst sw) \<and> cx_cursor (fst sw') = cx_cursor (fst sw) + n \<and>
     (\<exists>rows. cw_out (snd sw') = cw_out (snd sw) @ rows \<and> (\<forall>t \<in> set rows. timely lo hi t)) \<and>
     (\<exists>ps. cx_pending (fst sw') = cx_pending (fst sw) @ ps \<and> (\<forall>p \<in> set ps. posting_ok lo hi p))"

lemma adds_refl [simp]: "adds lo hi 0 sw sw"
  by (simp add: adds_def)

lemma adds_trans: "adds lo hi m a b \<Longrightarrow> adds lo hi n b c \<Longrightarrow> adds lo hi (m + n) a c"
  unfolding adds_def by (auto intro: add.assoc)

lemma adds_trans0: "adds lo hi m a b \<Longrightarrow> adds lo hi 0 b c \<Longrightarrow> adds lo hi m a c"
  using adds_trans [of lo hi m a b 0 c] by simp

text \<open>Changes that neither emit nor queue.\<close>

lemma adds_quiet:
  assumes "adds lo hi n (s, w) (s', w')" "cx_account s'' = cx_account s'" "cx_cursor s'' = cx_cursor s'"
    "cx_pending s'' = cx_pending s'" "cw_out w'' = cw_out w'"
  shows "adds lo hi n (s, w) (s'', w'')"
  using assms by (simp add: adds_def)

lemma make_routed_adds:
  assumes "make_routed env d (s, w) = Some (Inr (t, s', w'))"
  shows "tx_time t = df_time d \<and> tx_channel t = df_channel d \<and> cx_account s' = cx_account s \<and> cx_cursor s' = cx_cursor s \<and>
    cw_out w' = cw_out w \<and> cx_pending s' = cx_pending s \<and> cw_ledger w' = cw_ledger w"
proof -
  obtain g r where m: "make_row (ce_ring env) d (cx_routing s) (cw_router w) = Some (Inr (t, g, r))"
    "s' = s\<lparr>cx_routing := g\<rparr>" "w' = w\<lparr>cw_router := r\<rparr>"
    using assms by (auto simp: make_routed_def make_on_lane_def bind_run_Inr)
  then show ?thesis using make_row_fields [OF m(1)] by simp
qed

lemma emit_row_adds: "timely lo hi t \<Longrightarrow> adds lo hi 0 sw (emit_row t sw)"
  by (cases sw) (auto simp: emit_row_def adds_def)

lemma book_adds:
  assumes "book env d fee sw = Some (Inr sw')" "lo \<le> df_time d" "df_time d < hi"
    "\<And>f. fee = Some f \<Longrightarrow> fee_ok (df_time d) hi f"
  shows "adds lo hi 0 sw sw'"
proof -
  obtain s w where sw: "sw = (s, w)" by (cases sw)
  obtain t s1 w1 where m: "make_routed env d (s, w) = Some (Inr (t, s1, w1))"
    "sw' = (case cw_ledger w1 of None \<Rightarrow> emit_row t (s1, w1)
       | Some _ \<Rightarrow> (s1\<lparr>cx_pending := cx_pending s1 @ [\<lparr>pp_txn = t, pp_fee = fee\<rparr>]\<rparr>, w1))"
    using assms(1) by (auto simp: book_def sw bind_run_Inr)
  note f = make_routed_adds [OF m(1)]
  have t: "timely lo hi t" using f assms(2,3) by (simp add: timely_def)
  have q: "adds lo hi 0 (s, w) (s1, w1)" using f by (simp add: adds_def)
  show ?thesis
  proof (cases "cw_ledger w1")
    case None then show ?thesis using adds_trans0 [OF q emit_row_adds [OF t]] m(2) sw by simp
  next
    case (Some l)
    then show ?thesis using m(2) sw f t assms(4) by (simp add: adds_def posting_ok_def)
  qed
qed

lemma post_late_fee_adds:
  assumes "post_late_fee env fee sw = Some (Inr sw')" "fee_ok lo hi fee"
  shows "adds lo hi 0 sw sw'"
proof -
  obtain r fb where f: "resolve_due_date (lf_due fee) = Inr r"
    "make_time (to_calendar_date (r + seconds_per_day)) late_fee_morning_time = Inr fb"
    "sw' = sw \<or> (\<not> hi \<le> fb \<and> book env (card_draft (ca_card (cx_account (fst sw))) (gl_account CardFees) (round_money (lf_amount fee)) fb
              (tag_of (Credit CrLateFee))) None sw = Some (Inr sw'))"
    using assms by (auto simp: post_late_fee_def bind_run_Inr fee_ok_def split: if_splits)
  have "fb = day_of (r + seconds_per_day) + 10 * 3600"
    using make_time_day [OF f(2)] by (simp add: late_fee_morning_time_def)
  then have "fb = day_of r + seconds_per_day + 10 * 3600" by (simp only: day_of_add1)
  then have "lo \<le> fb" using day_of_le(2) [of r] assms(2) f(1) by (auto simp: fee_ok_def)
  then show ?thesis using f(3) by (elim disjE conjE) (simp, rule book_adds, assumption, simp_all add: card_draft_def)
qed

lemma post_payment_adds:
  assumes "post_payment env intent fee sw = Some (Inr sw')" "lo \<le> pi_when intent" "lf_window_end fee = hi"
    "flt (Fin 0) (lf_amount fee) \<Longrightarrow> fee_ok (pi_when intent) hi fee"
  shows "adds lo hi 0 sw sw'"
  using assms by (auto simp: post_payment_def card_draft_def split: if_splits intro: book_adds)

lemma accrue_interest_adds:
  assumes "accrue_interest env average cy sw = Some (Inr sw')" "lo \<le> cy_end cy" "cy_end cy + interest_post_offset < hi"
  shows "adds lo hi 0 sw sw'"
proof -
  have "lo \<le> cy_end cy + interest_post_offset"
    using assms(2) by (simp add: interest_post_offset_def seconds_per_minute_def)
  then show ?thesis using assms
    by (auto simp: accrue_interest_def card_draft_def Let_def split: if_splits option.splits prod.splits intro!: book_adds)
qed

subsection \<open>Disputes\<close>

lemma make_on_lane_time: "make_on_lane ring d l = Some (Inr (t, l')) \<Longrightarrow> tx_time t = df_time d"
  by (auto simp: make_on_lane_def bind_run_Inr dest: make_row_fields(4))

lemma build_credit_time:
  assumes "build_credit b ring purchase kind hi g l = Some (Inr (Some t, g', l'))"
    "0 \<le> fst (delay_bounds_for b kind)" "snd (delay_bounds_for b kind) < 2 ^ 31"
  shows "timely (tx_time purchase) hi t"
proof -
  obtain lo_d hi_d where db: "delay_bounds_for b kind = (lo_d, hi_d)" by (cases "delay_bounds_for b kind")
  obtain delay g1 hour where d: "draw_int lo_d (hi_d + 1) g = Some (Inr (delay, g1))"
    "draw_int post_hour_low post_hour_high g1 = Some (Inr (hour, g'))"
    "\<not> hi \<le> tx_time purchase + delay * seconds_per_day + hour * seconds_per_hour"
    "tx_time t = tx_time purchase + delay * seconds_per_day + hour * seconds_per_hour"
    using assms(1) db by (auto simp: build_credit_def bind_run_Inr Let_def card_draft_def split: if_splits dest: make_on_lane_time)
  have "0 \<le> delay" "0 \<le> hour"
    using draw_int_bounds(1) [OF d(1)] draw_int_bounds(1) [OF d(2)] assms(2,3) db by (simp_all add: post_hour_low_def post_hour_high_def)
  then show ?thesis using d(3,4) by (simp add: timely_def seconds_per_day_def seconds_per_hour_def)
qed

lemma sample_dispute_time:
  assumes "billing_ok env" "sample_dispute (ce_disputes env) ring purchase hi g l = Some (Inr (Some t, g', l'))"
  shows "timely (tx_time purchase) hi t"
  using assms
  by (auto simp: sample_dispute_def billing_ok_def delay_bounds_for_def Let_def split: if_splits prod.splits
      intro!: build_credit_time)

lemma post_to_ledger_out: "post_to_ledger t w = (ok, w') \<Longrightarrow> cw_out w' = cw_out w"
  by (auto simp: post_to_ledger_def split: option.splits if_splits prod.splits)

lemma collect_purchase_adds:
  assumes "billing_ok env" "collect_purchase env cy purchase sw = Some (Inr sw')" "lo \<le> tx_time purchase" "cy_window_end cy = hi"
  shows "adds lo hi 1 sw sw'"
proof -
  obtain s w where sw: "sw = (s, w)" by (cases sw)
  obtain credit g routing r where d: "sample_dispute (ce_disputes env) (ce_ring env) purchase hi (cx_rng s)
      (cx_routing s, cw_router w) = Some (Inr (credit, g, routing, r))"
    using assms(2,4) by (auto simp: collect_purchase_def sw bind_run_Inr Let_def)
  define s1 where "s1 = s\<lparr>cx_events := cx_events s @ [purchase], cx_rng := g, cx_routing := routing\<rparr>"
  define w1 where "w1 = w\<lparr>cw_router := r\<rparr>"
  define q where "q = (case credit of None \<Rightarrow> (s1, w1)
      | Some t \<Rightarrow> if cw_ledger w1 = None then emit_row t (s1, w1)
          else if tx_time t < cy_end cy
          then let (ok, w) = post_to_ledger t w1 in (if ok then emit_row t (s1, w) else (s1, w))
          else (s1\<lparr>cx_pending := cx_pending s1 @ [\<lparr>pp_txn = t, pp_fee = None\<rparr>]\<rparr>, w1))"
  have e: "sw' = ((fst q)\<lparr>cx_cursor := cx_cursor (fst q) + 1\<rparr>, snd q)"
    using assms(2,4) d unfolding collect_purchase_def sw s1_def w1_def q_def
    by (cases credit) (auto simp: Let_def split_beta split: if_splits)
  have base: "adds lo hi 0 (s, w) (s1, w1)" by (simp add: adds_def s1_def w1_def)
  have "adds lo hi 0 (s, w) q"
  proof (cases credit)
    case None then show ?thesis using base by (simp add: q_def)
  next
    case (Some t)
    have t: "timely lo hi t" using sample_dispute_time [OF assms(1), of "ce_ring env" purchase hi] d Some assms(3)
      by (force simp: timely_def)
    have "adds lo hi 0 (s1, w1) q"
    proof (cases "cw_ledger w1 = None \<or> \<not> tx_time t < cy_end cy")
      case True
      then show ?thesis using Some t emit_row_adds [OF t] by (auto simp: q_def adds_def posting_ok_def)
    next
      case False
      obtain ok w2 where p: "post_to_ledger t w1 = (ok, w2)" by (cases "post_to_ledger t w1")
      have "adds lo hi 0 (s1, w1) (s1, w2)" using post_to_ledger_out [OF p] by (simp add: adds_def)
      then show ?thesis using Some False p adds_trans0 [OF _ emit_row_adds [OF t]] by (auto simp: q_def)
    qed
    then show ?thesis by (rule adds_trans0 [OF base])
  qed
  then show ?thesis by (simp add: sw e adds_def)
qed

lemma collect_purchases_adds:
  assumes "billing_ok env" "collect_purchases env txns cy ixs sw = Some (Inr sw')" "\<forall>i \<in> set ixs. lo \<le> tx_time (txns ! i)"
    "cy_window_end cy = hi"
  shows "adds lo hi (length (takeWhile (\<lambda>i. tx_time (txns ! i) < cy_end cy) ixs)) sw sw'"
  using assms(2,3)
proof (induction ixs arbitrary: sw)
  case (Cons i ixs)
  show ?case
  proof (cases "cy_end cy \<le> tx_time (txns ! i)")
    case False
    then obtain sw1 where c: "collect_purchase env cy (txns ! i) sw = Some (Inr sw1)"
      "collect_purchases env txns cy ixs sw1 = Some (Inr sw')"
      using Cons.prems(1) by (auto simp: bind_run_Inr)
    then show ?thesis
      using adds_trans [OF collect_purchase_adds [OF assms(1) c(1) _ assms(4)] Cons.IH [OF c(2)]] Cons.prems(2) False by simp
  qed (use Cons in simp)
qed simp

subsection \<open>A statement close\<close>

lemma day_of_mod_60: "(day_of x + 17 * 3600) mod 60 = 0"
proof -
  have "day_of x + 17 * 3600 = 60 * (x div seconds_per_day * 1440 + 1020)"
    using seconds_per_day_def by (simp add: algebra_simps)
  then show ?thesis by (simp only: mod_mult_self1_is_0)
qed

lemma settle_statement_adds:
  assumes "billing_ok env" "settle_statement env cy statement_abs sw = Some (Inr sw')" "lo \<le> day_of (cy_end cy)" "cy_window_end cy = hi"
  shows "adds lo hi 0 sw sw'"
proof -
  let ?grace = "bt_grace_days (ce_billing env)"
  obtain s w where sw: "sw = (s, w)" by (cases sw)
  obtain due intent s1 on_time full amount min_due paid sw1 sw2 where u:
    "make_time (to_calendar_date (cy_end cy + ?grace * seconds_per_day)) due_date_time = Inr due"
    "draft_payment env statement_abs min_due due s = Some (Inr (intent, s1))"
    "is_on_time (pi_when intent) due = Inr on_time"
    "post_payment env intent \<lparr>lf_due = due, lf_window_end = hi, lf_amount = (if paid \<and> on_time then amount else Fin 0)\<rparr>
       (s1, w) = Some (Inr sw1)"
    "sw2 = sw1 \<or> post_late_fee env \<lparr>lf_due = due, lf_window_end = hi, lf_amount = amount\<rparr> sw1 = Some (Inr sw2)"
    "sw' = ((fst sw2)\<lparr>cx_in_grace := full\<rparr>, snd sw2)"
  proof -
    let ?scale = "ce_price_scale env (cd_year (to_calendar_date (cy_end cy)))"
    let ?billing = "(ce_billing env)\<lparr>bt_min_dollars := fmul (bt_min_dollars (ce_billing env)) ?scale,
                                     bt_late_fee := fmul (bt_late_fee (ce_billing env)) ?scale\<rparr>"
    let ?min = "round_money (minimum_due ?billing statement_abs)"
    from assms(2) obtain due intent s1 on_time sw1 sw2 where x:
      "make_time (to_calendar_date (cy_end cy + ?grace * seconds_per_day)) due_date_time = Inr due"
      "draft_payment env statement_abs ?min due s = Some (Inr (intent, s1))" "is_on_time (pi_when intent) due = Inr on_time"
      "post_payment env intent (\<lparr>lf_due = due, lf_window_end = hi, lf_amount = bt_late_fee ?billing\<rparr>\<lparr>lf_amount :=
         (if fle (fsub ?min amount_slack) (pi_amount intent) \<and> on_time then bt_late_fee ?billing else Fin 0)\<rparr>) (s1, w) = Some (Inr sw1)"
      "(if \<not> (fle (fsub ?min amount_slack) (pi_amount intent) \<and> on_time) \<and> flt (Fin 0) (bt_late_fee ?billing)
        then post_late_fee env \<lparr>lf_due = due, lf_window_end = hi, lf_amount = bt_late_fee ?billing\<rparr> sw1 else Some (Inr sw1)) = Some (Inr sw2)"
      "sw' = ((fst sw2)\<lparr>cx_in_grace := (fle (fsub statement_abs amount_slack) (pi_amount intent) \<and> on_time)\<rparr>, snd sw2)"
      unfolding settle_statement_def sw assms(4) by (auto simp: bind_run_Inr Let_def)
    have y: "sw2 = sw1 \<or> post_late_fee env \<lparr>lf_due = due, lf_window_end = hi, lf_amount = bt_late_fee ?billing\<rparr> sw1 = Some (Inr sw2)"
      using x(5) by (simp split: if_splits)
    show thesis
      by (rule that [OF x(1,2,3) _ y x(6)]) (use x(4) in \<open>simp only: late_fee.update_convs\<close>)
  qed
  have due: "due = day_of (cy_end cy) + ?grace * seconds_per_day + 17 * 3600"
  proof -
    have "due = day_of (cy_end cy + ?grace * seconds_per_day) + 17 * 3600"
      using make_time_day [OF u(1)] by (simp add: due_date_time_def)
    then show ?thesis by (simp only: day_of_add)
  qed
  have g: "3 * seconds_per_day \<le> ?grace * seconds_per_day"
    using assms(1) by (intro mult_right_mono) (auto simp: billing_ok_def)
  obtain auto g0 g1 where st: "sample_payment_time (ce_timing env) g0 due auto = Some (Inr (pi_when intent, g1))"
    "s1 = s\<lparr>cx_rng := g1\<rparr>"
    using u(2) by (auto simp: draft_payment_def bind_run_Inr Let_def split_beta)
  have "day_of due = day_of (cy_end cy) + ?grace * seconds_per_day"
  proof -
    have "day_of (day_of (cy_end cy + ?grace * seconds_per_day) + 17 * 3600) = day_of (cy_end cy + ?grace * seconds_per_day)"
      by (rule day_of_plus) (simp_all add: seconds_per_day_def)
    then show ?thesis unfolding due by (simp only: day_of_add)
  qed
  moreover have "day_of due - 3 * seconds_per_day + 9 * 3600 \<le> pi_when intent"
    using sample_payment_time_lower [OF st(1)] assms(1) by (simp add: billing_ok_def)
  ultimately have pay: "lo \<le> pi_when intent" using assms(3) g by linarith
  have r: "lo \<le> r" if "resolve_due_date due = Inr r" for r
  proof -
    have "due mod 60 = 0" unfolding due using day_of_mod_60 [of "cy_end cy + ?grace * seconds_per_day"] by (simp only: day_of_add)
    from resolve_due_date_bounds(2) [OF that this] show ?thesis using assms(3) g due day_seconds_pos(1) by linarith
  qed
  have on: "pi_when intent \<le> r" if "resolve_due_date due = Inr r" on_time for r
    using u(3) that by (simp add: is_on_time_def bind_result_def)
  have q: "adds lo hi 0 sw (s1, w)" by (simp add: adds_def sw st(2))
  have p: "adds lo hi 0 (s1, w) sw1"
    by (rule post_payment_adds [OF u(4) pay]) (auto simp: fee_ok_def on split: if_splits)
  have "adds lo hi 0 sw1 sw2" using u(5) r by (elim disjE) (simp, erule post_late_fee_adds, simp add: fee_ok_def)
  from adds_trans0 [OF adds_trans0 [OF q p] this] show ?thesis by (simp add: u(6) adds_def)
qed

text \<open>A close reads the purchases before it, and what it books is dated from the oldest of them on.\<close>

lemma card_run_adds:
  assumes "billing_ok env" "card_run env txns indices cy sw = Some (Inr sw')"
    "\<forall>i \<in> set (drop (cx_cursor (fst sw)) indices). lo \<le> tx_time (txns ! i)"
    "lo \<le> day_of (cy_end cy)" "cy_window_end cy = hi" "cy_end cy + interest_post_offset < hi"
  shows "adds lo hi (length (takeWhile (\<lambda>i. tx_time (txns ! i) < cy_end cy) (drop (cx_cursor (fst sw)) indices))) sw sw'"
proof -
  let ?ixs = "drop (cx_cursor (fst sw)) indices"
  obtain s w where sw: "sw = (s, w)" by (cases sw)
  obtain s1 w1 where c: "collect_purchases env txns cy ?ixs (s\<lparr>cx_events := []\<rparr>, w) = Some (Inr (s1, w1))"
    using assms(2) by (auto simp: card_run_def sw bind_run_Inr)
  define s2 where "s2 = (let s = sort_events (drain_due_events cy s1) in
    s\<lparr>cx_balance := bl_ending (integrate_balance (ca_card (cx_account s)) (cx_balance s) (cx_events s) \<lparr>ho_start = cy_start cy, ho_end = cy_end cy\<rparr>)\<rparr>)"
  obtain average s3 w3 where a: "accrue_interest env average cy (s2, w1) = Some (Inr (s3, w3))"
    "sw' = (s3\<lparr>cx_in_grace := True\<rparr>, w3) \<or> (\<exists>abs. settle_statement env cy abs (s3, w3) = Some (Inr sw'))"
    using assms(2) c by (auto simp: card_run_def sw bind_run_Inr s2_def Let_def split: if_splits)
  have "lo \<le> cy_end cy" using assms(4) day_of_le(1) [of "cy_end cy"] by simp
  note 1 = collect_purchases_adds [OF assms(1) c assms(3,5)]
  have 2: "adds lo hi 0 (s1, w1) (s2, w1)"
    by (simp add: adds_def s2_def Let_def sort_events_def drain_due_events_def)
  note 3 = accrue_interest_adds [OF a(1) \<open>lo \<le> cy_end cy\<close> assms(6)]
  have 4: "adds lo hi 0 (s3, w3) sw'"
    using a(2)
  proof
    assume "sw' = (s3\<lparr>cx_in_grace := True\<rparr>, w3)"
    then show ?thesis by (simp add: adds_def)
  qed (use settle_statement_adds [OF assms(1) _ assms(4,5)] in blast)
  have "adds lo hi (length (takeWhile (\<lambda>i. tx_time (txns ! i) < cy_end cy) ?ixs)) (s\<lparr>cx_events := []\<rparr>, w) sw'"
    by (rule adds_trans0 [OF adds_trans0 [OF adds_trans0 [OF 1 2] 3] 4])
  then show ?thesis by (simp add: adds_def sw)
qed

subsection \<open>Posting what has matured\<close>

lemma settle_posting_adds:
  assumes "settle_posting env p sw = Some (Inr sw')" "posting_ok lo hi p"
  shows "adds lo hi 0 sw sw'"
proof -
  obtain s w where sw: "sw = (s, w)" by (cases sw)
  obtain ok w1 where l: "post_to_ledger (pp_txn p) w = (ok, w1)" by (cases "post_to_ledger (pp_txn p) w")
  have q: "adds lo hi 0 (s, w) (s, w1)" using post_to_ledger_out [OF l] by (simp add: adds_def)
  have q': "adds lo hi 0 (s, w) (s\<lparr>cx_in_grace := False\<rparr>, w1)" using post_to_ledger_out [OF l] by (simp add: adds_def)
  have t: "timely lo hi (pp_txn p)" using assms(2) by (simp add: posting_ok_def)
  have fee: "fee_ok lo hi f" if "pp_fee p = Some f" for f
    using assms(2) that by (fastforce simp: posting_ok_def fee_ok_def timely_def)
  show ?thesis
  proof (cases ok)
    case True
    then show ?thesis using assms(1) l adds_trans0 [OF q emit_row_adds [OF t]] by (simp add: settle_posting_def sw)
  next
    case False
    then show ?thesis
      using assms(1) l q q' fee adds_trans0 [OF q' post_late_fee_adds]
      by (auto simp: settle_posting_def sw Let_def split: if_splits option.splits)
  qed
qed

lemma settle_postings_adds:
  "settle_postings env ps sw = Some (Inr sw') \<Longrightarrow> \<forall>p \<in> set ps. posting_ok lo hi p \<Longrightarrow> adds lo hi 0 sw sw'"
proof (induction ps arbitrary: sw)
  case (Cons p ps)
  then obtain sw1 where "settle_posting env p sw = Some (Inr sw1)" "settle_postings env ps sw1 = Some (Inr sw')"
    by (auto simp: bind_run_Inr)
  then show ?case using Cons adds_trans0 [OF settle_posting_adds] by simp
qed simp

lemma pending_partition: "matured bound ps @ unmatured bound ps = sort_key (\<lambda>p. audit_key (pp_txn p)) ps"
  by (simp add: matured_def unmatured_def)

lemma pending_sets: "set (matured bound ps) \<union> set (unmatured bound ps) = set ps"
  using arg_cong [OF pending_partition [of bound ps], of set] by simp

lemma sorted_drop_time: "sorted (map audit_key rows) \<Longrightarrow> t \<in> set (dropWhile (\<lambda>t. tx_time t < b) rows) \<Longrightarrow> b \<le> tx_time t"
proof (induction rows)
  case (Cons x rows)
  then show ?case using audit_sorted_time [of "x # rows"] by (auto split: if_splits)
qed simp

lemma unmatured_time: "p \<in> set (unmatured bound ps) \<Longrightarrow> bound \<le> tx_time (pp_txn p)"
proof -
  let ?ps = "sort_key (\<lambda>p. audit_key (pp_txn p)) ps"
  assume "p \<in> set (unmatured bound ps)"
  then have "pp_txn p \<in> set (dropWhile (\<lambda>t. tx_time t < bound) (map pp_txn ?ps))"
    by (auto simp: unmatured_def dropWhile_map comp_def)
  moreover have "sorted (map audit_key (map pp_txn ?ps))" by (simp add: comp_def)
  ultimately show ?thesis using sorted_drop_time by blast
qed

definition settled :: "time_point \<Rightarrow> time_point \<Rightarrow> time_point \<Rightarrow> servicing \<Rightarrow> servicing \<Rightarrow> bool" where
  "settled lo hi bound sw sw' \<longleftrightarrow>
     cx_account (fst sw') = cx_account (fst sw) \<and> cx_cursor (fst sw') = cx_cursor (fst sw) \<and>
     (\<exists>rows. cw_out (snd sw') = cw_out (snd sw) @ rows \<and> (\<forall>t \<in> set rows. timely lo hi t)) \<and>
     (\<forall>p \<in> set (cx_pending (fst sw')). posting_ok lo hi p \<and> bound \<le> tx_time (pp_txn p))"

lemma advance_session_rows:
  assumes "advance_session env bound sw = Some y"
  shows "\<forall>sw'. y = Inr sw' \<longrightarrow> (\<forall>p \<in> set (cx_pending (fst sw)). posting_ok lo hi p) \<longrightarrow> settled lo hi bound sw sw'"
proof (rule advance_session.raw_induct [OF _ assms, where P = "\<lambda>env bound sw y. \<forall>sw'. y = Inr sw' \<longrightarrow>
    (\<forall>p \<in> set (cx_pending (fst sw)). posting_ok lo hi p) \<longrightarrow> settled lo hi bound sw sw'"], intro allI impI)
  fix rec :: "card_env \<Rightarrow> time_point \<Rightarrow> servicing \<Rightarrow> servicing result option"
    and env :: card_env and bound :: time_point and sw sw' :: servicing and y :: "servicing result"
  let ?s = "fst sw" and ?w = "snd sw"
  let ?m = "matured bound (cx_pending ?s)" and ?u = "unmatured bound (cx_pending ?s)"
  let ?s' = "?s\<lparr>cx_pending := ?u\<rparr>"
  assume IH: "\<And>env bound sw y. rec env bound sw = Some y \<Longrightarrow> \<forall>sw'. y = Inr sw' \<longrightarrow>
      (\<forall>p \<in> set (cx_pending (fst sw)). posting_ok lo hi p) \<longrightarrow> settled lo hi bound sw sw'"
    and body: "(let s = fst sw; w = snd sw in if cx_pending s = [] then Some (Inr sw)
        else if matured bound (cx_pending s) = [] then Some (Inr (s\<lparr>cx_pending := unmatured bound (cx_pending s)\<rparr>, w))
        else bind_run (settle_postings env (matured bound (cx_pending s)) (s\<lparr>cx_pending := unmatured bound (cx_pending s)\<rparr>, w))
          (rec env bound)) = Some y"
    and y: "y = Inr sw'" and ok: "\<forall>p \<in> set (cx_pending (fst sw)). posting_ok lo hi p"
  have un: "posting_ok lo hi p \<and> bound \<le> tx_time (pp_txn p)" if "p \<in> set ?u" for p
    using ok pending_sets [of bound "cx_pending ?s"] unmatured_time [OF that] that by blast
  have ma: "\<forall>p \<in> set ?m. posting_ok lo hi p" using ok pending_sets [of bound "cx_pending ?s"] by blast
  have b: "(if cx_pending ?s = [] then Some (Inr sw) else if ?m = [] then Some (Inr (?s', ?w))
      else bind_run (settle_postings env ?m (?s', ?w)) (rec env bound)) = Some (Inr sw')"
    using body y by (simp only: Let_def)
  show "settled lo hi bound sw sw'"
  proof (cases "cx_pending ?s = [] \<or> ?m = []")
    case True
    then have "sw' = sw \<and> cx_pending ?s = [] \<or> sw' = (?s', ?w)" using b by (cases "cx_pending ?s = []") simp_all
    then show ?thesis using un by (elim disjE) (simp_all add: settled_def)
  next
    case False
    then have "bind_run (settle_postings env ?m (?s', ?w)) (rec env bound) = Some (Inr sw')" using b by simp
    then obtain sw1 where due: "settle_postings env ?m (?s', ?w) = Some (Inr sw1)" "rec env bound sw1 = Some (Inr sw')"
      unfolding bind_run_Inr by blast
    have a: "adds lo hi 0 (?s', ?w) sw1" by (rule settle_postings_adds [OF due(1) ma])
    then have "\<forall>p \<in> set (cx_pending (fst sw1)). posting_ok lo hi p" using un by (auto simp: adds_def)
    then have "settled lo hi bound sw1 sw'" using IH [OF due(2)] by blast
    then show ?thesis using a by (auto simp: settled_def adds_def)
  qed
qed

lemma advance_session_settled:
  "advance_session env bound sw = Some (Inr sw') \<Longrightarrow> \<forall>p \<in> set (cx_pending (fst sw)). posting_ok lo hi p \<Longrightarrow>
    settled lo hi bound sw sw'"
  using advance_session_rows by blast

end
