(* ===== verification/CardQueue.thy ===== *)
theory CardQueue
  imports CardRows
begin

text \<open>
  The purchase buffers of a card. What a session has still to read is a list of rows, \<open>unread\<close>: ingestion
  appends the day's purchases of the card to it in time order, and compaction leaves it alone.
\<close>

subsection \<open>The cards by key\<close>

lemma card_slot_put: "card_slot k' (put_card k c cards) = (if k' = k then c else card_slot k' cards)"
  by (induction k c cards rule: put_card.induct) auto

lemma keys_put: "map fst (put_card k c cards) = (if k \<in> set (map fst cards) then map fst cards else map fst cards @ [k])"
  by (induction k c cards rule: put_card.induct) auto

lemma set_keys_put [simp]: "fst ` set (put_card k c cards) = insert k (fst ` set cards)"
  using keys_put [of k c cards] by (metis (mono_tags, lifting) insert_absorb list.set_map list.simps(15) rotate1.simps(2) set_rotate1)

lemma distinct_put: "distinct (map fst cards) \<Longrightarrow> distinct (map fst (put_card k c cards))"
  by (simp add: keys_put)

lemma card_slot_member: "distinct (map fst cards) \<Longrightarrow> (k, c) \<in> set cards \<Longrightarrow> card_slot k cards = c"
  by (induction cards) force+

lemma card_slot_absent: "k \<notin> set (map fst cards) \<Longrightarrow> card_slot k cards = per_card_new"
  by (induction cards) auto

lemma member_card_slot: "k \<in> set (map fst cards) \<Longrightarrow> (k, card_slot k cards) \<in> set cards"
proof (induction cards)
  case (Cons kc cards)
  then show ?case by (cases kc; cases "fst kc = k") auto
qed simp

subsection \<open>Rows that have not been read\<close>

definition rows_at :: "per_card \<Rightarrow> nat list \<Rightarrow> txn list" where
  "rows_at c ixs = map (\<lambda>i. pc_purchases c ! i) ixs"

definition unread :: "nat \<Rightarrow> per_card \<Rightarrow> txn list" where
  "unread cursor c = rows_at c (drop cursor (pc_indices c))"

definition indexed :: "per_card \<Rightarrow> bool" where
  "indexed c \<longleftrightarrow> (\<forall>i \<in> set (pc_indices c). i < length (pc_purchases c))"

definition session_cursor :: "per_card \<Rightarrow> nat" where
  "session_cursor c = (case pc_session c of None \<Rightarrow> 0 | Some s \<Rightarrow> cx_cursor s)"

text \<open>The purchases of a card among rows that are ingested.\<close>

definition purchases_of :: "time_point \<Rightarrow> time_point \<Rightarrow> key \<Rightarrow> txn list \<Rightarrow> txn list" where
  "purchases_of lo hi k rows = filter (\<lambda>t. tx_channel t = tag_of (Legit LegCardPurchase) \<and> lo \<le> tx_time t \<and>
     tx_time t < hi \<and> tx_source t = k) rows"

subsection \<open>Ingestion\<close>

lemma push_all: "fold push_purchase ts c = c\<lparr>pc_indices := pc_indices c @ [length (pc_purchases c)..<length (pc_purchases c) + length ts],
    pc_purchases := pc_purchases c @ ts\<rparr>"
proof (induction ts arbitrary: c)
  case (Cons t ts)
  have "[length (pc_purchases c)..<length (pc_purchases c) + length (t # ts)] =
      length (pc_purchases c) # [Suc (length (pc_purchases c))..<Suc (length (pc_purchases c)) + length ts]"
    by (subst upt_conv_Cons) simp_all
  then show ?case using Cons [of "push_purchase t c"] by (simp add: push_purchase_def)
qed simp

lemma ingest_fold:
  assumes "fold (ingest_one lo hi) rows (cards, before) = (cards', before')" "distinct (map fst cards)"
    "\<And>k. map_of before k = (if k \<in> touched then Some (length (pc_indices (old_slot k))) else None)"
    "\<And>k. k \<notin> touched \<Longrightarrow> card_slot k cards = old_slot k"
    "distinct (map fst before)" "touched \<subseteq> set (map fst cards)"
  shows "distinct (map fst cards') \<and> distinct (map fst before') \<and>
    (\<forall>k. card_slot k cards' = fold push_purchase (purchases_of lo hi k rows) (card_slot k cards)) \<and>
    (\<forall>k. map_of before' k = (if k \<in> touched \<or> purchases_of lo hi k rows \<noteq> [] then Some (length (pc_indices (old_slot k))) else None)) \<and>
    (\<forall>k. k \<in> set (map fst cards') \<longleftrightarrow> k \<in> set (map fst cards) \<or> purchases_of lo hi k rows \<noteq> [])"
  using assms
proof (induction rows arbitrary: cards before touched)
  case Nil
  then show ?case by (simp add: purchases_of_def)
next
  case (Cons t rows)
  let ?k = "tx_source t"
  show ?case
  proof (cases "tx_channel t = tag_of (Legit LegCardPurchase) \<and> lo \<le> tx_time t \<and> tx_time t < hi")
    case False
    then have "ingest_one lo hi t (cards, before) = (cards, before)" by (auto simp: ingest_one_def)
    moreover have "purchases_of lo hi k (t # rows) = purchases_of lo hi k rows" for k
      using False by (auto simp: purchases_of_def)
    ultimately show ?thesis using Cons.IH [of cards before touched] Cons.prems by simp
  next
    case True
    let ?cards = "put_card ?k (push_purchase t (card_slot ?k cards)) cards"
    let ?before = "if map_of before ?k = None then before @ [(?k, length (pc_indices (card_slot ?k cards)))] else before"
    have step: "ingest_one lo hi t (cards, before) = (?cards, ?before)" using True by (simp add: ingest_one_def Let_def)
    have b: "map_of ?before k = (if k \<in> insert ?k touched then Some (length (pc_indices (old_slot k))) else None)" for k
      using Cons.prems(3) [of k] Cons.prems(3) [of ?k] Cons.prems(4) [of ?k]
      by (auto simp: map_of_append map_add_def split: option.splits)
    have d: "distinct (map fst ?before)" using Cons.prems(5) by (auto simp: map_of_eq_None_iff)
    have p: "purchases_of lo hi k (t # rows) = (if k = ?k then [t] else []) @ purchases_of lo hi k rows" for k
      using True by (auto simp: purchases_of_def)
    have "fold (ingest_one lo hi) rows (?cards, ?before) = (cards', before')" using Cons.prems(1) step by simp
    note IH = Cons.IH [OF this distinct_put [OF Cons.prems(2)] b _ d]
    have "\<And>k. k \<notin> insert ?k touched \<Longrightarrow> card_slot k ?cards = old_slot k" "insert ?k touched \<subseteq> set (map fst ?cards)"
      using Cons.prems(4,6) by (auto simp: card_slot_put)
    note r = IH [OF this]
    show ?thesis unfolding p using r by (simp add: card_slot_put)
  qed
qed

lemma sort_fold:
  assumes "distinct (map fst before)" "distinct (map fst cards)" "set (map fst before) \<subseteq> set (map fst cards)"
  shows "distinct (map fst (fold (\<lambda>(k, n) cards. put_card k (sort_segment n (card_slot k cards)) cards) before cards)) \<and>
    map fst (fold (\<lambda>(k, n) cards. put_card k (sort_segment n (card_slot k cards)) cards) before cards) = map fst cards \<and>
    (\<forall>k. card_slot k (fold (\<lambda>(k, n) cards. put_card k (sort_segment n (card_slot k cards)) cards) before cards) =
      (case map_of before k of None \<Rightarrow> card_slot k cards | Some n \<Rightarrow> sort_segment n (card_slot k cards)))"
  using assms
proof (induction before arbitrary: cards)
  case (Cons kn before)
  obtain k n where kn: "kn = (k, n)" by (cases kn)
  let ?cards = "put_card k (sort_segment n (card_slot k cards)) cards"
  have keys: "map fst ?cards = map fst cards" using Cons.prems(3) by (auto simp: keys_put kn)
  have "distinct (map fst ?cards)" "set (map fst before) \<subseteq> set (map fst ?cards)" using Cons.prems keys by auto
  then show ?case
    using Cons.IH [of ?cards] Cons.prems(1) keys
    by (auto simp: kn card_slot_put map_of_eq_None_iff split: option.splits)
qed simp

definition ingested_card :: "time_point \<Rightarrow> time_point \<Rightarrow> txn list \<Rightarrow> key \<Rightarrow> per_card \<Rightarrow> per_card" where
  "ingested_card lo hi rows k c =
     (let new = purchases_of lo hi k rows
      in if new = [] then c else sort_segment (length (pc_indices c)) (fold push_purchase new c))"

lemma ingest_purchases_slots:
  assumes "cc_active d" "distinct (map fst (cc_cards d))"
    "lo = wn_start (ci_window (cc_inputs d))" "hi = window_end (ci_window (cc_inputs d))"
  shows "distinct (map fst (cc_cards (ingest_purchases rows d)))"
    "card_slot k (cc_cards (ingest_purchases rows d)) = ingested_card lo hi rows k (card_slot k (cc_cards d))"
    "k \<in> set (map fst (cc_cards (ingest_purchases rows d))) \<longleftrightarrow> k \<in> set (map fst (cc_cards d)) \<or> purchases_of lo hi k rows \<noteq> []"
    "ingest_purchases rows d = d\<lparr>cc_cards := cc_cards (ingest_purchases rows d)\<rparr>"
proof -
  obtain cards' before' where f: "fold (ingest_one lo hi) rows (cc_cards d, []) = (cards', before')"
    by (cases "fold (ingest_one lo hi) rows (cc_cards d, [])")
  have i: "ingest_purchases rows d = d\<lparr>cc_cards := fold (\<lambda>(k, n) cards. put_card k (sort_segment n (card_slot k cards)) cards) before' cards'\<rparr>"
    using assms f by (simp add: ingest_purchases_def Let_def)
  note r = ingest_fold [OF f assms(2), where touched = "{}" and old_slot = "\<lambda>k. card_slot k (cc_cards d)", simplified]
  have sub: "set (map fst before') \<subseteq> set (map fst cards')"
  proof
    fix k assume "k \<in> set (map fst before')"
    then have "map_of before' k \<noteq> None" by (auto simp: map_of_eq_None_iff)
    then show "k \<in> set (map fst cards')" using r by (auto split: if_splits)
  qed
  note s = sort_fold [OF _ _ sub]
  have keys: "map fst (cc_cards (ingest_purchases rows d)) = map fst cards'" using r s i by simp
  show "distinct (map fst (cc_cards (ingest_purchases rows d)))" using r s i by simp
  show "card_slot k (cc_cards (ingest_purchases rows d)) = ingested_card lo hi rows k (card_slot k (cc_cards d))"
    using r s i by (simp add: ingested_card_def Let_def split: option.split)
  show "k \<in> set (map fst (cc_cards (ingest_purchases rows d))) \<longleftrightarrow> k \<in> set (map fst (cc_cards d)) \<or> purchases_of lo hi k rows \<noteq> []"
    by (simp only: keys) (use r in simp)
  show "ingest_purchases rows d = d\<lparr>cc_cards := cc_cards (ingest_purchases rows d)\<rparr>" using i by simp
qed

lemma map_insort_key: "map f (insort_key (\<lambda>x. g (f x)) x xs) = insort_key g (f x) (map f xs)"
  by (induction xs) auto

lemma map_sort_key: "map f (sort_key (\<lambda>x. g (f x)) xs) = sort_key g (map f xs)"
  by (induction xs) (simp_all add: map_insort_key)

lemma rows_at_cong: "\<forall>i \<in> set ixs. pc_purchases c ! i = pc_purchases c' ! i \<Longrightarrow> rows_at c ixs = rows_at c' ixs"
  by (simp add: rows_at_def)

text \<open>Ingestion appends the card's purchases to what is unread, in time order.\<close>

lemma unread_ingested:
  assumes "indexed c" "cursor \<le> length (pc_indices c)"
  shows "unread cursor (ingested_card lo hi rows k c) = unread cursor c @ sort_key tx_time (purchases_of lo hi k rows)"
    "indexed (ingested_card lo hi rows k c)"
    "cursor \<le> length (pc_indices (ingested_card lo hi rows k c))"
    "pc_session (ingested_card lo hi rows k c) = pc_session c" "pc_closes (ingested_card lo hi rows k c) = pc_closes c"
    "pc_close_cursor (ingested_card lo hi rows k c) = pc_close_cursor c"
    "pc_prior_close (ingested_card lo hi rows k c) = pc_prior_close c"
proof -
  let ?new = "purchases_of lo hi k rows" and ?c = "ingested_card lo hi rows k c"
  let ?n = "length (pc_purchases c)" let ?ixs = "[?n..<?n + length ?new]"
  have p: "pc_purchases ?c = pc_purchases c @ ?new"
    "pc_indices ?c = pc_indices c @ sort_key (\<lambda>i. tx_time ((pc_purchases c @ ?new) ! i)) ?ixs"
    by (auto simp: ingested_card_def Let_def push_all sort_segment_def)
  have old: "rows_at ?c (drop cursor (pc_indices c)) = rows_at c (drop cursor (pc_indices c))"
    using assms(1) set_drop_subset [of cursor "pc_indices c"] by (intro rows_at_cong) (auto simp: p(1) nth_append indexed_def)
  have "map (\<lambda>i. (pc_purchases c @ ?new) ! i) ?ixs = ?new"
    by (rule nth_equalityI) (simp_all add: nth_append)
  then have new: "rows_at ?c (sort_key (\<lambda>i. tx_time ((pc_purchases c @ ?new) ! i)) ?ixs) = sort_key tx_time ?new"
    by (simp add: rows_at_def p(1) map_sort_key)
  show "unread cursor ?c = unread cursor c @ sort_key tx_time ?new"
    using old new assms(2) by (simp add: unread_def p(2) rows_at_def)
  show "indexed ?c" using assms(1) by (fastforce simp: indexed_def p)
  show "cursor \<le> length (pc_indices ?c)" using assms(2) by (simp add: p(2))
  show "pc_session ?c = pc_session c" "pc_closes ?c = pc_closes c" "pc_close_cursor ?c = pc_close_cursor c"
    "pc_prior_close ?c = pc_prior_close c"
    by (simp_all add: ingested_card_def Let_def push_all sort_segment_def)
qed

subsection \<open>Compaction\<close>

lemma compact_purchases_unread:
  assumes "indexed c" "session_cursor c \<le> length (pc_indices c)"
  shows "\<exists>c'. compact_purchases c = Inr c' \<and> unread (session_cursor c') c' = unread (session_cursor c) c \<and> indexed c' \<and>
    session_cursor c' \<le> length (pc_indices c') \<and> pc_closes c' = pc_closes c \<and> pc_close_cursor c' = pc_close_cursor c \<and>
    pc_prior_close c' = pc_prior_close c \<and>
    pc_session c' = map_option (\<lambda>s. s\<lparr>cx_cursor := session_cursor c'\<rparr>) (pc_session c)"
proof (cases "pc_session c")
  case None
  then show ?thesis using assms by (simp add: compact_purchases_def)
next
  case (Some s)
  let ?kept = "drop (cx_cursor s) (pc_indices c)"
  have cur: "session_cursor c = cx_cursor s" "cx_cursor s \<le> length (pc_indices c)"
    using assms(2) Some by (simp_all add: session_cursor_def)
  have kept: "\<forall>i \<in> set ?kept. i < length (pc_purchases c)"
    using assms(1) set_drop_subset [of "cx_cursor s" "pc_indices c"] by (auto simp: indexed_def)
  have "map (\<lambda>i. map (\<lambda>i. pc_purchases c ! i) ?kept ! i) [0..<length ?kept] = map (\<lambda>i. pc_purchases c ! i) ?kept"
    by (rule nth_equalityI) simp_all
  then show ?thesis
    using Some assms cur kept
    by (auto simp: compact_purchases_def Let_def unread_def rows_at_def session_cursor_def indexed_def)
qed

end
