(* ===== verification/CardDay.thy ===== *)
theory CardDay
  imports CardQueue
begin

text \<open>
  A day of the card driver. Between the days of a run every card has its closes ahead of it and nothing
  queued for the past; a day then emits rows that are at most 31 days old, which is what the spending
  session's finalization lag rests on.
\<close>

subsection \<open>A card that has never been used\<close>

definition fresh :: "card_session \<Rightarrow> bool" where
  "fresh s \<longleftrightarrow> cx_balance s = Fin 0 \<and> cx_in_grace s \<and> cx_deferred s = [] \<and> cx_pending s = []"

lemma threshold_positive: "fle (Fin 0) statement_closed_threshold"
proof -
  have "0 \<le> rnd (1 / 100)" by (rule rnd_nonneg) simp
  then show ?thesis by (simp add: statement_closed_threshold_def lit_def mk_f64_def)
qed

lemma collect_none:
  "(\<And>i. i \<in> set ixs \<Longrightarrow> cy_end cy \<le> tx_time (txns ! i)) \<Longrightarrow> collect_purchases env txns cy ixs sw = Some (Inr sw)"
  by (cases ixs) simp_all

lemma card_run_fresh:
  assumes "fresh s" "\<And>i. i \<in> set (drop (cx_cursor s) indices) \<Longrightarrow> cy_end cy \<le> tx_time (txns ! i)"
  shows "card_run env txns indices cy (s, w) = Some (Inr (s\<lparr>cx_events := [], cx_in_grace := True\<rparr>, w))"
proof -
  have c: "collect_purchases env txns cy (drop (cx_cursor s) indices) (s\<lparr>cx_events := []\<rparr>, w) = Some (Inr (s\<lparr>cx_events := []\<rparr>, w))"
    by (rule collect_none) (rule assms(2))
  let ?s = "sort_events (drain_due_events cy (s\<lparr>cx_events := []\<rparr>))"
  have s: "?s = s\<lparr>cx_events := []\<rparr>" using assms(1) by (simp add: fresh_def sort_events_def drain_due_events_def Let_def)
  have b: "bl_ending (integrate_balance acct (Fin 0) [] h) = Fin 0" for acct h
    by (simp add: integrate_balance_def Let_def)
  have m: "std_max (Fin 0) (Fin 0) = Fin 0" by (simp add: std_max_def)
  have u: "s\<lparr>cx_events := [], cx_balance := Fin 0, cx_in_grace := True\<rparr> = s\<lparr>cx_events := [], cx_in_grace := True\<rparr>"
    using assms(1) by (cases s) (simp add: fresh_def)
  show ?thesis
    using assms(1) threshold_positive
    by (simp add: card_run_def c s b m u accrue_interest_def Let_def fresh_def)
qed

subsection \<open>Between two closes\<close>

definition rest_closes :: "per_card \<Rightarrow> time_point list" where
  "rest_closes c = drop (pc_close_cursor c) (pc_closes c)"

definition servable :: "time_point \<Rightarrow> time_point \<Rightarrow> time_point \<Rightarrow> per_card \<Rightarrow> card_session \<Rightarrow> bool" where
  "servable lo hi bound c s \<longleftrightarrow>
     pc_session c = Some s \<and> indexed c \<and> cx_cursor s \<le> length (pc_indices c) \<and>
     sorted (map tx_time (unread (cx_cursor s) c)) \<and>
     (\<forall>t \<in> set (unread (cx_cursor s) c). pc_prior_close c \<le> tx_time t \<and> tx_time t < bound) \<and>
     lo \<le> pc_prior_close c \<and> close_chain (pc_prior_close c) (rest_closes c) \<and>
     (\<forall>x \<in> set (rest_closes c). x < hi \<and> x mod seconds_per_day = 84600)"

lemma drop_takeWhile_length: "drop (length (takeWhile P xs)) xs = dropWhile P xs"
  by (metis append_eq_conv_conj takeWhile_dropWhile_id)

lemma sorted_dropWhile_ge:
  "sorted (map f xs) \<Longrightarrow> x \<in> set (dropWhile (\<lambda>y. f y < b) xs) \<Longrightarrow> b \<le> f x" for f :: "'a \<Rightarrow> 'b::linorder"
proof (induction xs)
  case (Cons a xs)
  then show ?case by (cases "f a < b") (auto intro: order_trans)
qed simp

text \<open>Reading the purchases of a cycle moves on to the ones after its close.\<close>

lemma unread_after_close:
  assumes "servable lo hi bound c s" "rest_closes c = close # closes"
    "cx_cursor s' = cx_cursor s + length (takeWhile (\<lambda>i. tx_time (pc_purchases c ! i) < close) (drop (cx_cursor s) (pc_indices c)))"
  shows "servable lo hi bound (c\<lparr>pc_session := Some s', pc_prior_close := close, pc_close_cursor := pc_close_cursor c + 1\<rparr>) s'"
    "rest_closes (c\<lparr>pc_session := Some s', pc_prior_close := close, pc_close_cursor := pc_close_cursor c + 1\<rparr>) = closes"
    "set (unread (cx_cursor s') c) \<subseteq> set (unread (cx_cursor s) c)"
proof -
  let ?ixs = "drop (cx_cursor s) (pc_indices c)" and ?P = "\<lambda>i. tx_time (pc_purchases c ! i) < close"
  let ?c = "c\<lparr>pc_session := Some s', pc_prior_close := close, pc_close_cursor := pc_close_cursor c + 1\<rparr>"
  have d: "drop (cx_cursor s') (pc_indices c) = dropWhile ?P ?ixs"
    unfolding assms(3) by (metis add.commute drop_drop drop_takeWhile_length)
  then have u: "unread (cx_cursor s') c = dropWhile (\<lambda>t. tx_time t < close) (unread (cx_cursor s) c)"
    by (simp add: unread_def rows_at_def dropWhile_map comp_def)
  have uc: "unread (cx_cursor s') ?c = unread (cx_cursor s') c" by (simp add: unread_def rows_at_def)
  show sub: "set (unread (cx_cursor s') c) \<subseteq> set (unread (cx_cursor s) c)" unfolding u by (auto dest: set_dropWhileD)
  have srt: "sorted (map tx_time (unread (cx_cursor s) c))" using assms(1) by (simp add: servable_def)
  then have "sorted (map tx_time (unread (cx_cursor s') c))"
    unfolding u by (metis dropWhile_eq_drop drop_map sorted_wrt_drop)
  moreover have "close \<le> tx_time t" if "t \<in> set (unread (cx_cursor s') c)" for t
    using sorted_dropWhile_ge [OF srt] that unfolding u by blast
  moreover have "cx_cursor s' \<le> length (pc_indices c)"
  proof -
    have "length (takeWhile ?P ?ixs) \<le> length ?ixs" by (rule length_takeWhile_le)
    moreover have "cx_cursor s \<le> length (pc_indices c)" using assms(1) by (simp add: servable_def)
    ultimately show ?thesis unfolding assms(3) length_drop by linarith
  qed
  moreover show rc: "rest_closes ?c = closes" using assms(2) by (simp add: rest_closes_def drop_Suc) (metis drop_Suc list.sel(3) tl_drop)
  moreover have "indexed ?c \<longleftrightarrow> indexed c" by (simp add: indexed_def)
  ultimately show "servable lo hi bound ?c s'"
    using assms(1,2) sub unfolding servable_def uc by auto
qed

lemma unread_compacted:
  assumes "servable lo hi bound c s"
  shows "\<exists>c' k. compact_purchases c = Inr c' \<and> servable lo hi bound c' (s\<lparr>cx_cursor := k\<rparr>) \<and> rest_closes c' = rest_closes c \<and>
    unread k c' = unread (cx_cursor s) c \<and> pc_prior_close c' = pc_prior_close c"
proof -
  have s: "pc_session c = Some s" "indexed c" "session_cursor c = cx_cursor s" "session_cursor c \<le> length (pc_indices c)"
    using assms by (simp_all add: servable_def session_cursor_def)
  obtain c' where c': "compact_purchases c = Inr c'" "unread (session_cursor c') c' = unread (session_cursor c) c" "indexed c'"
    "session_cursor c' \<le> length (pc_indices c')" "pc_closes c' = pc_closes c" "pc_close_cursor c' = pc_close_cursor c"
    "pc_prior_close c' = pc_prior_close c" "pc_session c' = map_option (\<lambda>s. s\<lparr>cx_cursor := session_cursor c'\<rparr>) (pc_session c)"
    using compact_purchases_unread [OF s(2,4)] by blast
  have "servable lo hi bound c' (s\<lparr>cx_cursor := session_cursor c'\<rparr>)"
    using assms c' s by (simp add: servable_def rest_closes_def)
  then show ?thesis using c' s by (intro exI [of _ c'] exI [of _ "session_cursor c'"]) (simp add: rest_closes_def)
qed

subsection \<open>Closing the cycles of a day\<close>

definition backdate_limit :: "time_point \<Rightarrow> time_point \<Rightarrow> time_point" where
  "backdate_limit lo day = max lo (day - 31 * seconds_per_day)"

definition on_schedule :: "time_point \<Rightarrow> per_card \<Rightarrow> card_session \<Rightarrow> bool" where
  "on_schedule day c s \<longleftrightarrow> (\<forall>x \<in> set (rest_closes c). day \<le> x) \<or>
     fresh s \<and> (\<forall>t \<in> set (unread (cx_cursor s) c). day \<le> tx_time t)"

lemma close_before_end:
  assumes "close mod seconds_per_day = 84600" "hi mod seconds_per_day = 0" "close < hi"
  shows "close + interest_post_offset < hi"
proof -
  have c: "close = close div seconds_per_day * seconds_per_day + 84600" using assms(1) by (metis div_mult_mod_eq)
  have h: "hi = hi div seconds_per_day * seconds_per_day" using assms(2) by (metis add.right_neutral div_mult_mod_eq)
  have "close div seconds_per_day < hi div seconds_per_day"
  proof (rule ccontr)
    assume "\<not> ?thesis"
    then have "hi div seconds_per_day * seconds_per_day \<le> close div seconds_per_day * seconds_per_day"
      by (intro mult_right_mono) simp_all
    then show False using c h assms(3) by linarith
  qed
  then have "(close div seconds_per_day + 1) * seconds_per_day \<le> hi div seconds_per_day * seconds_per_day"
    by (intro mult_right_mono) simp_all
  then show ?thesis using c h by (simp add: distrib_right interest_post_offset_def seconds_per_minute_def seconds_per_day_def)
qed

lemma day_of_multiple: "t mod seconds_per_day = 0 \<Longrightarrow> t \<le> x \<Longrightarrow> t \<le> day_of x"
  using day_of_mono [of t x] by (metis add.right_neutral div_mult_mod_eq)

text \<open>One close: nothing for a card that is not used yet, a statement otherwise.\<close>

lemma close_step:
  assumes "billing_ok env" "servable lo hi bound c s" "rest_closes c = close # closes" "on_schedule day c s"
    "day mod seconds_per_day = 0" "hi mod seconds_per_day = 0" "lo \<le> day"
    "card_run env (pc_purchases c) (pc_indices c) \<lparr>cy_start = pc_prior_close c, cy_end = close, cy_window_end = hi\<rparr> (s, w) =
       Some (Inr (s', w'))"
  shows "adds (backdate_limit lo day) hi
      (length (takeWhile (\<lambda>i. tx_time (pc_purchases c ! i) < close) (drop (cx_cursor s) (pc_indices c)))) (s, w) (s', w') \<and>
    (day \<le> close \<or> fresh s')"
proof (cases "day \<le> close")
  case True
  let ?cy = "\<lparr>cy_start = pc_prior_close c, cy_end = close, cy_window_end = hi\<rparr>"
  have ch: "close - pc_prior_close c \<le> 31 * seconds_per_day" "close < hi" "close mod seconds_per_day = 84600"
    "lo \<le> pc_prior_close c" using assms(2,3) by (auto simp: servable_def)
  have prior: "backdate_limit lo day \<le> pc_prior_close c" using ch(1,4) True by (simp add: backdate_limit_def)
  have "\<forall>t \<in> set (unread (cx_cursor s) c). backdate_limit lo day \<le> tx_time t"
    using assms(2) prior by (auto simp: servable_def intro: order_trans)
  then have "\<forall>i \<in> set (drop (cx_cursor s) (pc_indices c)). backdate_limit lo day \<le> tx_time (pc_purchases c ! i)"
    by (simp add: unread_def rows_at_def)
  moreover have "backdate_limit lo day \<le> day" using assms(7) by (simp add: backdate_limit_def)
  then have "backdate_limit lo day \<le> day_of close" using day_of_multiple [OF assms(5) True] by simp
  ultimately show ?thesis
    using card_run_adds [OF assms(1,8), of "backdate_limit lo day" hi] close_before_end [OF ch(3) assms(6) ch(2)] True by simp
next
  case False
  then have f: "fresh s" and u: "\<forall>t \<in> set (unread (cx_cursor s) c). day \<le> tx_time t"
    using assms(3,4) by (auto simp: on_schedule_def)
  have late: "close \<le> tx_time (pc_purchases c ! i)" if "i \<in> set (drop (cx_cursor s) (pc_indices c))" for i
    using u that False by (force simp: unread_def rows_at_def)
  have "card_run env (pc_purchases c) (pc_indices c) \<lparr>cy_start = pc_prior_close c, cy_end = close, cy_window_end = hi\<rparr> (s, w) =
      Some (Inr (s\<lparr>cx_events := [], cx_in_grace := True\<rparr>, w))"
    by (rule card_run_fresh [OF f]) (simp add: late)
  moreover have "takeWhile (\<lambda>i. tx_time (pc_purchases c ! i) < close) (drop (cx_cursor s) (pc_indices c)) = []"
    using late by (cases "drop (cx_cursor s) (pc_indices c)") force+
  ultimately show ?thesis using assms(8) f by (simp add: adds_def fresh_def)
qed

lemma on_schedule_next:
  assumes "on_schedule day c s" "rest_closes c = close # closes" "rest_closes c' = closes"
    "day \<le> close \<or> fresh s'" "set (unread (cx_cursor s') c') \<subseteq> set (unread (cx_cursor s) c)" "close_chain close closes"
  shows "on_schedule day c' s'"
proof (cases "day \<le> close")
  case True
  then have "\<forall>x \<in> set closes. day \<le> x" using close_chain_sorted [OF assms(6)] by (auto intro: order_trans)
  then show ?thesis by (simp add: on_schedule_def assms(3))
next
  case False
  then show ?thesis using assms by (auto simp: on_schedule_def)
qed

lemma fresh_cursor: "fresh (s\<lparr>cx_cursor := k\<rparr>) \<longleftrightarrow> fresh s"
  by (simp add: fresh_def)

lemma close_cycles_day:
  assumes "billing_ok env" "day mod seconds_per_day = 0" "hi mod seconds_per_day = 0" "lo \<le> day"
    "servable lo hi bound c s" "on_schedule day c s" "\<forall>p \<in> set (cx_pending s). posting_ok (backdate_limit lo day) hi p"
    "close_cycles env limit hi (rest_closes c) (c, w) = Some (Inr (c', w'))"
  shows "\<exists>s' rows. servable lo hi bound c' s' \<and> (\<forall>x \<in> set (rest_closes c'). limit \<le> x) \<and>
    (pc_prior_close c \<le> limit \<longrightarrow> pc_prior_close c' \<le> limit) \<and>
    (\<forall>p \<in> set (cx_pending s'). posting_ok (backdate_limit lo day) hi p) \<and>
    cw_out w' = cw_out w @ rows \<and> (\<forall>t \<in> set rows. timely (backdate_limit lo day) hi t)"
  using assms(5-8)
proof (induction "rest_closes c" arbitrary: c s w)
  case Nil
  then show ?case by auto
next
  case (Cons close closes)
  note rest = Cons.hyps(2) [symmetric]
  have s: "pc_session c = Some s" "close_chain close closes"
    using Cons.prems(1) rest by (simp_all add: servable_def)
  show ?case
  proof (cases "limit \<le> close")
    case True
    then have "c' = c" "w' = w" using Cons.prems(4) rest s by simp_all
    moreover have "\<forall>x \<in> set (rest_closes c). limit \<le> x"
      using True close_chain_sorted [OF s(2)] rest by (auto intro: order_trans)
    ultimately show ?thesis using Cons.prems(1,3) by auto
  next
    case False
    obtain s1 w1 c2 where run: "card_run env (pc_purchases c) (pc_indices c)
        \<lparr>cy_start = pc_prior_close c, cy_end = close, cy_window_end = hi\<rparr> (s, w) = Some (Inr (s1, w1))"
      and compact: "compact_purchases (c\<lparr>pc_session := Some s1, pc_prior_close := close, pc_close_cursor := pc_close_cursor c + 1\<rparr>) = Inr c2"
      and rec: "close_cycles env limit hi closes (c2, w1) = Some (Inr (c', w'))"
      using Cons.prems(4) rest s False by (auto simp: bind_run_Inr)
    let ?c1 = "c\<lparr>pc_session := Some s1, pc_prior_close := close, pc_close_cursor := pc_close_cursor c + 1\<rparr>"
    note step = close_step [OF assms(1) Cons.prems(1) rest Cons.prems(2) assms(2,3,4) run]
    then have cur: "cx_cursor s1 = cx_cursor s +
        length (takeWhile (\<lambda>i. tx_time (pc_purchases c ! i) < close) (drop (cx_cursor s) (pc_indices c)))"
      by (simp add: adds_def)
    note after = unread_after_close [OF Cons.prems(1) rest cur]
    obtain k where c2: "servable lo hi bound c2 (s1\<lparr>cx_cursor := k\<rparr>)" "rest_closes c2 = closes" "unread k c2 = unread (cx_cursor s1) ?c1"
      "pc_prior_close c2 = close"
      using unread_compacted [OF after(1)] compact after(2) by auto
    have sub: "set (unread (cx_cursor (s1\<lparr>cx_cursor := k\<rparr>)) c2) \<subseteq> set (unread (cx_cursor s) c)"
      using after(3) c2(3) by (simp add: unread_def rows_at_def)
    have sch: "on_schedule day c2 (s1\<lparr>cx_cursor := k\<rparr>)"
      by (rule on_schedule_next [OF Cons.prems(2) rest c2(2) _ sub s(2)]) (use step in \<open>simp add: fresh_cursor\<close>)
    obtain rows ps where r: "cw_out w1 = cw_out w @ rows" "\<forall>t \<in> set rows. timely (backdate_limit lo day) hi t"
      "cx_pending s1 = cx_pending s @ ps" "\<forall>p \<in> set ps. posting_ok (backdate_limit lo day) hi p"
      using step by (auto simp: adds_def)
    have "\<forall>p \<in> set (cx_pending (s1\<lparr>cx_cursor := k\<rparr>)). posting_ok (backdate_limit lo day) hi p" using r Cons.prems(3) by auto
    from Cons.hyps(1) [OF c2(2) [symmetric] c2(1) sch this, of w1] rec c2(2,4) False
    obtain s' rows' where "servable lo hi bound c' s'" "\<forall>x \<in> set (rest_closes c'). limit \<le> x" "pc_prior_close c' \<le> limit"
      "\<forall>p \<in> set (cx_pending s'). posting_ok (backdate_limit lo day) hi p" "cw_out w' = cw_out w1 @ rows'"
      "\<forall>t \<in> set rows'. timely (backdate_limit lo day) hi t" by auto
    then show ?thesis using r by (intro exI [of _ s'] exI [of _ "rows @ rows'"]) auto
  qed
qed

subsection \<open>One card through a day\<close>

text \<open>A card the driver cannot open a session for.\<close>

definition unserved :: "card_driver \<Rightarrow> key \<Rightarrow> bool" where
  "unserved d k \<longleftrightarrow> (case Option.bind (ci_terms (cc_inputs d)) (\<lambda>m. m k) of None \<Rightarrow> True
     | Some terms \<Rightarrow> Option.bind (ci_primary (cc_inputs d)) (\<lambda>m. m (ct_owner terms)) = None)"

text \<open>A card at the start of a day.\<close>

definition card_ready :: "card_driver \<Rightarrow> time_point \<Rightarrow> key \<Rightarrow> per_card \<Rightarrow> bool" where
  "card_ready d day k c \<longleftrightarrow>
     (case pc_session c of
        None \<Rightarrow> unserved d k
      | Some s \<Rightarrow> servable (wn_start (ci_window (cc_inputs d))) (window_end (ci_window (cc_inputs d))) day c s \<and>
          (\<forall>x \<in> set (rest_closes c). day \<le> x) \<and> pc_prior_close c \<le> day \<and>
          (\<forall>p \<in> set (cx_pending s). posting_ok day (window_end (ci_window (cc_inputs d))) p))"

text \<open>A card after the day's purchases have been ingested.\<close>

definition card_fed :: "card_driver \<Rightarrow> time_point \<Rightarrow> key \<Rightarrow> per_card \<Rightarrow> bool" where
  "card_fed d day k c \<longleftrightarrow>
     (case pc_session c of
        None \<Rightarrow> unserved d k \<or> indexed c \<and> sorted (map tx_time (unread 0 c)) \<and>
          (\<forall>t \<in> set (unread 0 c). day \<le> tx_time t \<and> tx_time t < day + seconds_per_day)
      | Some s \<Rightarrow> servable (wn_start (ci_window (cc_inputs d))) (window_end (ci_window (cc_inputs d))) (day + seconds_per_day) c s \<and>
          on_schedule day c s \<and> pc_prior_close c \<le> day \<and>
          (\<forall>p \<in> set (cx_pending s). posting_ok day (window_end (ci_window (cc_inputs d))) p))"

lemma purchases_of_new: "\<forall>t \<in> set (purchases_of lo hi k rows). t \<in> set rows"
  by (simp add: purchases_of_def)

lemma servable_ingested:
  assumes "servable lo hi day c s" "\<forall>t \<in> set rows. day \<le> tx_time t \<and> tx_time t < day + seconds_per_day"
    "pc_prior_close c \<le> day"
  shows "servable lo hi (day + seconds_per_day) (ingested_card lo hi rows k c) s"
    "rest_closes (ingested_card lo hi rows k c) = rest_closes c"
proof -
  let ?c = "ingested_card lo hi rows k c" and ?new = "sort_key tx_time (purchases_of lo hi k rows)"
  have i: "indexed c" "cx_cursor s \<le> length (pc_indices c)" "pc_session c = Some s" using assms(1) by (simp_all add: servable_def)
  note u = unread_ingested [OF i(1,2), of lo hi rows k]
  show rest: "rest_closes ?c = rest_closes c" by (simp add: rest_closes_def u)
  have new: "\<forall>t \<in> set ?new. day \<le> tx_time t \<and> tx_time t < day + seconds_per_day"
    using assms(2) purchases_of_new by auto
  have "\<forall>x \<in> set (unread (cx_cursor s) c). \<forall>y \<in> set ?new. tx_time x \<le> tx_time y"
    using assms(1) new by (fastforce simp: servable_def)
  then have "sorted (map tx_time (unread (cx_cursor s) ?c))"
    using assms(1) u(1) by (auto simp: servable_def sorted_append)
  moreover have "tx_time t < day + seconds_per_day" if "t \<in> set (unread (cx_cursor s) c)" for t
    using assms(1) that by (simp add: servable_def seconds_per_day_def) force
  ultimately show "servable lo hi (day + seconds_per_day) ?c s"
    using assms(1,3) u i new rest unfolding servable_def by (auto intro: order_trans)
qed

text \<open>A card whose session has been opened and whose matured rows are posted; one whose cycles are closed too.\<close>

abbreviation card_lo :: "card_driver \<Rightarrow> time_point" where "card_lo d \<equiv> wn_start (ci_window (cc_inputs d))"
abbreviation card_hi :: "card_driver \<Rightarrow> time_point" where "card_hi d \<equiv> window_end (ci_window (cc_inputs d))"

definition card_posted :: "card_driver \<Rightarrow> time_point \<Rightarrow> key \<Rightarrow> per_card \<Rightarrow> bool" where
  "card_posted d day k c \<longleftrightarrow>
     (case pc_session c of
        None \<Rightarrow> unserved d k
      | Some s \<Rightarrow> servable (card_lo d) (card_hi d) (day + seconds_per_day) c s \<and> on_schedule day c s \<and> pc_prior_close c \<le> day \<and>
          (\<forall>p \<in> set (cx_pending s). posting_ok day (card_hi d) p))"

definition card_ticked :: "card_driver \<Rightarrow> time_point \<Rightarrow> key \<Rightarrow> per_card \<Rightarrow> bool" where
  "card_ticked d day k c \<longleftrightarrow>
     (case pc_session c of
        None \<Rightarrow> unserved d k
      | Some s \<Rightarrow> servable (card_lo d) (card_hi d) (day + seconds_per_day) c s \<and>
          (\<forall>x \<in> set (rest_closes c). day + seconds_per_day \<le> x) \<and> pc_prior_close c \<le> day + seconds_per_day \<and>
          (\<forall>p \<in> set (cx_pending s). posting_ok (backdate_limit (card_lo d) day) (card_hi d) p))"

lemma card_fed_ingested:
  assumes "card_ready d day k c" "\<forall>t \<in> set rows. day \<le> tx_time t \<and> tx_time t < day + seconds_per_day"
  shows "card_fed d day k (ingested_card (card_lo d) (card_hi d) rows k c)"
proof (cases "pc_session c")
  case None
  then have "pc_session (ingested_card (card_lo d) (card_hi d) rows k c) = None"
    by (simp add: ingested_card_def Let_def push_all sort_segment_def)
  then show ?thesis using assms(1) None by (simp add: card_fed_def card_ready_def)
next
  case (Some s)
  have r: "servable (card_lo d) (card_hi d) day c s" "\<forall>x \<in> set (rest_closes c). day \<le> x" "pc_prior_close c \<le> day"
    "\<forall>p \<in> set (cx_pending s). posting_ok day (card_hi d) p"
    using assms(1) Some by (simp_all add: card_ready_def)
  note i = servable_ingested [OF r(1) assms(2) r(3), of k]
  have c: "indexed c" "cx_cursor s \<le> length (pc_indices c)" using r(1) by (simp_all add: servable_def)
  note u = unread_ingested [OF c, of "card_lo d" "card_hi d" rows k]
  show ?thesis using i r Some u by (simp add: card_fed_def on_schedule_def)
qed

lemma card_fed_new:
  assumes "\<forall>t \<in> set rows. day \<le> tx_time t \<and> tx_time t < day + seconds_per_day"
  shows "card_fed d day k (ingested_card lo hi rows k per_card_new)"
proof -
  have i: "indexed per_card_new" "0 \<le> length (pc_indices per_card_new)" "unread 0 per_card_new = []" "pc_session per_card_new = None"
    by (simp_all add: indexed_def per_card_new_def unread_def rows_at_def)
  note u = unread_ingested [OF i(1,2), of lo hi rows k]
  have "sorted (map tx_time (unread 0 (ingested_card lo hi rows k per_card_new)))" by (simp add: u i)
  moreover have "\<forall>t \<in> set (unread 0 (ingested_card lo hi rows k per_card_new)). day \<le> tx_time t \<and> tx_time t < day + seconds_per_day"
    using assms purchases_of_new by (auto simp: u i)
  ultimately show ?thesis using u i by (simp add: card_fed_def)
qed

lemma truncate_closes_prefix: "\<exists>zs. closes = truncate_closes e closes @ zs"
proof (cases e)
  case (Some x)
  have "rev (takeWhile (\<lambda>c. x \<le> c) (rev closes) @ dropWhile (\<lambda>c. x \<le> c) (rev closes)) = closes" by simp
  then have "closes = truncate_closes e closes @ rev (takeWhile (\<lambda>c. x \<le> c) (rev closes))"
    unfolding rev_append by (simp add: truncate_closes_def Some)
  then show ?thesis by blast
qed (simp add: truncate_closes_def)

text \<open>Opening the session of a card that has been fed.\<close>

lemma ensure_session_fed:
  assumes "card_fed d day k c" "ensure_session d k c = Some (Inr c')" "card_lo d \<le> day"
  shows "card_posted d day k c'"
proof (cases "pc_session c")
  case (Some s)
  then show ?thesis using assms by (simp add: ensure_session_def card_fed_def card_posted_def)
next
  case None
  show ?thesis
  proof (cases "unserved d k")
    case True
    then have "c' = c" using assms(2) None by (auto simp: ensure_session_def unserved_def split: option.splits)
    then show ?thesis using True None by (simp add: card_posted_def)
  next
    case False
    then obtain terms funding where t: "Option.bind (ci_terms (cc_inputs d)) (\<lambda>m. m k) = Some terms"
      "Option.bind (ci_primary (cc_inputs d)) (\<lambda>m. m (ct_owner terms)) = Some funding"
      by (auto simp: unserved_def split: option.splits)
    obtain closes account g routing where e: "statement_close_dates (card_lo d) (card_hi d) (ct_cycle_day terms) = Some (Inr closes)"
      "c' = c\<lparr>pc_prior_close := card_lo d, pc_closes := truncate_closes (card_service_end (cc_inputs d) (ct_owner terms)) closes,
         pc_close_cursor := 0, pc_session := Some (card_session_new account g routing)\<rparr>"
      using assms(2) None t by (auto simp: ensure_session_def bind_run_Inr Let_def)
    obtain zs where zs: "closes = truncate_closes (card_service_end (cc_inputs d) (ct_owner terms)) closes @ zs"
      using truncate_closes_prefix by blast
    let ?s = "card_session_new account g routing"
    note ch = statement_close_dates_chain [OF e(1)]
    have rest: "rest_closes c' = truncate_closes (card_service_end (cc_inputs d) (ct_owner terms)) closes"
      by (simp add: e(2) rest_closes_def)
    have u: "unread (cx_cursor ?s) c' = unread 0 c" by (simp add: e(2) unread_def rows_at_def card_session_new_def)
    have f: "indexed c" "sorted (map tx_time (unread 0 c))" "\<forall>t \<in> set (unread 0 c). day \<le> tx_time t \<and> tx_time t < day + seconds_per_day"
      using assms(1) None False by (simp_all add: card_fed_def)
    have "close_chain (card_lo d) (rest_closes c')" unfolding rest using ch(1) zs close_chain_prefix by metis
    moreover have "set (rest_closes c') \<subseteq> set closes" unfolding rest using arg_cong [OF zs, of set] by auto
    moreover have "\<forall>t \<in> set (unread 0 c). card_lo d \<le> tx_time t" using f(3) assms(3) by (auto intro: order_trans)
    ultimately have "servable (card_lo d) (card_hi d) (day + seconds_per_day) c' ?s"
      unfolding servable_def u using ch(2) f by (auto simp: e(2) indexed_def card_session_new_def)
    moreover have "on_schedule day c' ?s"
      using f(3) u by (simp add: on_schedule_def fresh_def card_session_new_def)
    ultimately show ?thesis using assms(3) by (simp add: card_posted_def e(2) card_session_new_def)
  qed
qed

lemma ensure_session_idle: "pc_session c \<noteq> None \<or> unserved d k \<Longrightarrow> ensure_session d k c = Some (Inr c)"
  by (auto simp: ensure_session_def unserved_def split: option.splits)

lemma posting_ok_mono: "posting_ok lo hi p \<Longrightarrow> lo' \<le> lo \<Longrightarrow> posting_ok lo' hi p"
  by (auto simp: posting_ok_def timely_def)

lemma posting_ok_later: "posting_ok lo hi p \<Longrightarrow> b \<le> tx_time (pp_txn p) \<Longrightarrow> posting_ok b hi p"
  by (auto simp: posting_ok_def timely_def)

lemma servable_settled:
  "servable lo hi b c s \<Longrightarrow> cx_cursor s' = cx_cursor s \<Longrightarrow> servable lo hi b (c\<lparr>pc_session := Some s'\<rparr>) s' \<and>
    rest_closes (c\<lparr>pc_session := Some s'\<rparr>) = rest_closes c \<and> unread (cx_cursor s') (c\<lparr>pc_session := Some s'\<rparr>) = unread (cx_cursor s) c"
  by (auto simp: servable_def rest_closes_def unread_def rows_at_def indexed_def)

lemma advance_session_nothing: "cx_pending (fst sw) = [] \<Longrightarrow> advance_session env bound sw = Some (Inr sw)"
  by (subst advance_session.simps) (simp add: Let_def)

definition emits :: "time_point \<Rightarrow> time_point \<Rightarrow> card_world \<Rightarrow> card_world \<Rightarrow> bool" where
  "emits lo hi w w' \<longleftrightarrow> (\<exists>rows. cw_out w' = cw_out w @ rows \<and> (\<forall>t \<in> set rows. timely lo hi t))"

lemma emits_refl [simp]: "emits lo hi w w"
  by (simp add: emits_def)

lemma emits_trans: "emits lo hi a b \<Longrightarrow> emits lo hi b c \<Longrightarrow> emits lo hi a c"
  unfolding emits_def by auto

lemma emits_mono: "emits lo hi a b \<Longrightarrow> lo' \<le> lo \<Longrightarrow> emits lo' hi a b"
  unfolding emits_def timely_def by (meson order_trans)

lemma advance_card_fed:
  assumes "card_fed d day k c" "advance_card (day + seconds_per_day) d k (c, w) = Some (Inr (c', w'))" "card_lo d \<le> day"
  shows "card_posted d day k c' \<and> emits day (card_hi d) w w'"
proof -
  obtain c1 where c1: "ensure_session d k c = Some (Inr c1)" using assms(2) by (auto simp: advance_card_def bind_run_Inr)
  note p = ensure_session_fed [OF assms(1) c1 assms(3)]
  show ?thesis
  proof (cases "pc_session c1")
    case None
    then show ?thesis using assms(2) c1 p by (simp add: advance_card_def)
  next
    case (Some s)
    obtain s' where a: "advance_session (cc_env d) (day + seconds_per_day) (s, w) = Some (Inr (s', w'))" "c' = c1\<lparr>pc_session := Some s'\<rparr>"
      using assms(2) c1 Some by (auto simp: advance_card_def bind_run_Inr)
    have r: "servable (card_lo d) (card_hi d) (day + seconds_per_day) c1 s" "on_schedule day c1 s" "pc_prior_close c1 \<le> day"
      "\<forall>p \<in> set (cx_pending s). posting_ok day (card_hi d) p"
      using p Some by (simp_all add: card_posted_def)
    have st: "settled day (card_hi d) (day + seconds_per_day) (s, w) (s', w')"
      by (rule advance_session_settled [OF a(1)]) (use r(4) in simp)
    have sv: "servable (card_lo d) (card_hi d) (day + seconds_per_day) c' s'" "rest_closes c' = rest_closes c1"
      "unread (cx_cursor s') c' = unread (cx_cursor s) c1"
      using servable_settled [OF r(1), of s'] st a(2) by (simp_all add: settled_def)
    have "fresh s \<Longrightarrow> s' = s" using a(1) advance_session_nothing [of "(s, w)"] by (simp add: fresh_def)
    then have "on_schedule day c' s'" using r(2) sv by (auto simp: on_schedule_def)
    then show ?thesis using sv(1) r(3) st a(2) by (auto simp: card_posted_def settled_def emits_def)
  qed
qed

text \<open>The close of the day, and the posting of what it booked for the same day.\<close>

definition card_calendar :: "card_driver \<Rightarrow> time_point \<Rightarrow> bool" where
  "card_calendar d day \<longleftrightarrow> billing_ok (cc_env d) \<and> day mod seconds_per_day = 0 \<and> card_hi d mod seconds_per_day = 0 \<and>
     card_lo d \<le> day \<and> day + seconds_per_day \<le> card_hi d"

lemma tick_card_posted:
  assumes "card_posted d day k c" "tick_card (day + seconds_per_day) d k (c, w) = Some (Inr (c', w'))" "card_calendar d day"
  shows "card_ticked d day k c' \<and> emits (backdate_limit (card_lo d) day) (card_hi d) w w'"
proof -
  have "ensure_session d k c = Some (Inr c)"
    by (rule ensure_session_idle) (use assms(1) in \<open>auto simp: card_posted_def split: option.splits\<close>)
  then have t: "close_cycles (cc_env d) (day + seconds_per_day) (card_hi d) (rest_closes c) (c, w) = Some (Inr (c', w'))"
    using assms(2,3) by (simp add: tick_card_def close_cycles_up_to_def Let_def rest_closes_def card_calendar_def min_def split: if_splits)
  show ?thesis
  proof (cases "pc_session c")
    case None
    then have "c' = c \<and> w' = w" using t by (cases "rest_closes c") simp_all
    then show ?thesis using assms(1) None by (simp add: card_posted_def card_ticked_def)
  next
    case (Some s)
    have r: "servable (card_lo d) (card_hi d) (day + seconds_per_day) c s" "on_schedule day c s" "pc_prior_close c \<le> day"
      "\<forall>p \<in> set (cx_pending s). posting_ok day (card_hi d) p"
      using assms(1) Some by (simp_all add: card_posted_def)
    have cal: "billing_ok (cc_env d)" "day mod seconds_per_day = 0" "card_hi d mod seconds_per_day = 0" "card_lo d \<le> day"
      using assms(3) by (simp_all add: card_calendar_def)
    have "backdate_limit (card_lo d) day \<le> day" using cal(4) by (simp add: backdate_limit_def)
    then have "\<forall>p \<in> set (cx_pending s). posting_ok (backdate_limit (card_lo d) day) (card_hi d) p"
      using r(4) posting_ok_mono by blast
    moreover have "pc_prior_close c \<le> day + seconds_per_day" using r(3) day_seconds_pos(2) by linarith
    ultimately
    obtain s' rows where "servable (card_lo d) (card_hi d) (day + seconds_per_day) c' s'"
      "\<forall>x \<in> set (rest_closes c'). day + seconds_per_day \<le> x" "pc_prior_close c' \<le> day + seconds_per_day"
      "\<forall>p \<in> set (cx_pending s'). posting_ok (backdate_limit (card_lo d) day) (card_hi d) p"
      "cw_out w' = cw_out w @ rows" "\<forall>t \<in> set rows. timely (backdate_limit (card_lo d) day) (card_hi d) t"
      using close_cycles_day [OF cal r(1,2) _ t] by blast
    then show ?thesis by (auto simp: card_ticked_def emits_def servable_def)
  qed
qed

lemma advance_card_ticked:
  assumes "card_ticked d day k c" "advance_card (day + seconds_per_day) d k (c, w) = Some (Inr (c', w'))"
  shows "card_ready d (day + seconds_per_day) k c' \<and> emits (backdate_limit (card_lo d) day) (card_hi d) w w'"
proof -
  have e: "ensure_session d k c = Some (Inr c)"
    by (rule ensure_session_idle) (use assms(1) in \<open>auto simp: card_ticked_def split: option.splits\<close>)
  show ?thesis
  proof (cases "pc_session c")
    case None
    then show ?thesis using assms e by (simp add: advance_card_def card_ticked_def card_ready_def)
  next
    case (Some s)
    obtain s' where a: "advance_session (cc_env d) (day + seconds_per_day) (s, w) = Some (Inr (s', w'))" "c' = c\<lparr>pc_session := Some s'\<rparr>"
      using assms(2) e Some by (auto simp: advance_card_def bind_run_Inr)
    have r: "servable (card_lo d) (card_hi d) (day + seconds_per_day) c s" "\<forall>x \<in> set (rest_closes c). day + seconds_per_day \<le> x"
      "pc_prior_close c \<le> day + seconds_per_day" "\<forall>p \<in> set (cx_pending s). posting_ok (backdate_limit (card_lo d) day) (card_hi d) p"
      using assms(1) Some by (simp_all add: card_ticked_def)
    have st: "settled (backdate_limit (card_lo d) day) (card_hi d) (day + seconds_per_day) (s, w) (s', w')"
      by (rule advance_session_settled [OF a(1)]) (use r(4) in simp)
    have "servable (card_lo d) (card_hi d) (day + seconds_per_day) c' s'" "rest_closes c' = rest_closes c"
      using servable_settled [OF r(1), of s'] st a(2) by (simp_all add: settled_def)
    then show ?thesis
      using st a(2) r(2,3) posting_ok_later by (auto simp: card_ready_def settled_def emits_def)
  qed
qed

subsection \<open>All the cards\<close>

lemma over_cards_all:
  assumes "over_cards f cs w = Some (Inr (cs', w'))" "\<forall>(k, c) \<in> set cs. P k c"
    "\<And>k c w c' w'. P k c \<Longrightarrow> f k (c, w) = Some (Inr (c', w')) \<Longrightarrow> Q k c' \<and> emits lo hi w w'"
  shows "map fst cs' = map fst cs \<and> (\<forall>(k, c) \<in> set cs'. Q k c) \<and> emits lo hi w w'"
  using assms(1,2)
proof (induction cs arbitrary: w cs')
  case (Cons kc cs)
  obtain k c where kc: "kc = (k, c)" by (cases kc)
  obtain c1 w1 cs1 where r: "f k (c, w) = Some (Inr (c1, w1))" "over_cards f cs w1 = Some (Inr (cs1, w'))" "cs' = (k, c1) # cs1"
    using Cons.prems(1) by (auto simp: kc bind_run_Inr)
  have "Q k c1 \<and> emits lo hi w w1" using assms(3) [OF _ r(1)] Cons.prems(2) kc by simp
  then show ?case using Cons.IH [OF r(2)] Cons.prems(2) r(3) kc emits_trans by auto
qed simp

definition cards_all :: "(card_driver \<Rightarrow> key \<Rightarrow> per_card \<Rightarrow> bool) \<Rightarrow> card_driver \<Rightarrow> bool" where
  "cards_all P d \<longleftrightarrow> distinct (map fst (cc_cards d)) \<and> (\<forall>(k, c) \<in> set (cc_cards d). P d k c)"

text \<open>What the rest of a driver depends on: nothing of the cards and the emitted rows.\<close>

definition same_cards_env :: "card_driver \<Rightarrow> card_driver \<Rightarrow> bool" where
  "same_cards_env d d' \<longleftrightarrow> cc_env d' = cc_env d \<and> cc_base d' = cc_base d \<and> cc_inputs d' = cc_inputs d \<and> cc_active d' = cc_active d"

lemma same_cards_env_refl [simp]: "same_cards_env d d"
  by (simp add: same_cards_env_def)

lemma same_cards_env_trans: "same_cards_env a b \<Longrightarrow> same_cards_env b c \<Longrightarrow> same_cards_env a c"
  by (simp add: same_cards_env_def)

lemma card_predicates_env:
  assumes "same_cards_env d d'"
  shows "card_ready d' = card_ready d" "card_fed d' = card_fed d" "card_posted d' = card_posted d" "card_ticked d' = card_ticked d"
    "card_calendar d' = card_calendar d" "advance_card b d' = advance_card b d" "tick_card b d' = tick_card b d"
    "drain_card d' = drain_card d"
proof -
  have e: "cc_env d' = cc_env d" "cc_base d' = cc_base d" "cc_inputs d' = cc_inputs d" using assms by (simp_all add: same_cards_env_def)
  have u: "unserved d' = unserved d" by (rule ext) (simp add: unserved_def e cong: option.case_cong)
  have s: "ensure_session d' = ensure_session d" by (intro ext) (simp add: ensure_session_def e cong: option.case_cong)
  have c: "close_cycles_up_to d' = close_cycles_up_to d" by (intro ext) (simp add: close_cycles_up_to_def e)
  show "card_ready d' = card_ready d" by (intro ext) (simp add: card_ready_def e u cong: option.case_cong)
  show "card_fed d' = card_fed d" by (intro ext) (simp add: card_fed_def e u cong: option.case_cong)
  show "card_posted d' = card_posted d" by (intro ext) (simp add: card_posted_def e u cong: option.case_cong)
  show "card_ticked d' = card_ticked d" by (intro ext) (simp add: card_ticked_def e u cong: option.case_cong)
  show "card_calendar d' = card_calendar d" by (intro ext) (simp add: card_calendar_def e)
  show "advance_card b d' = advance_card b d" by (intro ext) (simp add: advance_card_def e s cong: option.case_cong)
  show t: "tick_card b d' = tick_card b d" for b by (intro ext) (simp add: tick_card_def s c)
  show "drain_card d' = drain_card d" by (intro ext) (simp add: drain_card_def e t)
qed

lemma each_card_all:
  assumes "each_card f (d, r, l) = Some (Inr (d', r', l'))" "cc_active d" "distinct (map fst (cc_cards d))"
    "\<forall>(k, c) \<in> set (cc_cards d). P k c"
    "\<And>k c w c' w'. P k c \<Longrightarrow> f d k (c, w) = Some (Inr (c', w')) \<Longrightarrow> Q k c' \<and> emits lo hi w w'"
  shows "same_cards_env d d' \<and> distinct (map fst (cc_cards d')) \<and> (\<forall>(k, c) \<in> set (cc_cards d'). Q k c) \<and>
    (\<exists>rows. cc_emitted d' = cc_emitted d @ rows \<and> (\<forall>t \<in> set rows. timely lo hi t))"
proof -
  obtain cs w where o: "over_cards (f d) (cc_cards d) \<lparr>cw_router = r, cw_ledger = l, cw_out = []\<rparr> = Some (Inr (cs, w))"
    "d' = d\<lparr>cc_cards := cs, cc_emitted := cc_emitted d @ cw_out w\<rparr>"
    using assms(1,2) by (auto simp: each_card_def bind_run_Inr)
  have "map fst cs = map fst (cc_cards d) \<and> (\<forall>(k, c) \<in> set cs. Q k c) \<and>
      emits lo hi \<lparr>cw_router = r, cw_ledger = l, cw_out = []\<rparr> w"
    by (rule over_cards_all [OF o(1) assms(4)]) (rule assms(5))
  then show ?thesis using assms(3) o(2) by (auto simp: same_cards_env_def emits_def)
qed

end
