(* ===== verification/CardBilling.thy ===== *)
theory CardBilling
  imports SpendRun CardDay
begin

text \<open>
  The billing calls of a simulated day: with every card ready at the day's start, feeding the day's rows
  and the three calls of \<open>runDay\<close> leave every card ready for the next day, and what they emit is not
  back-dated past the limit. Rows emitted before do not influence them.
\<close>

subsection \<open>Mapping a result\<close>

definition map_run :: "('a \<Rightarrow> 'b) \<Rightarrow> 'a result option \<Rightarrow> 'b result option" where
  "map_run f r = bind_run r (\<lambda>v. Some (Inr (f v)))"

lemma map_run_simps [simp]: "map_run f None = None" "map_run f (Some (Inl e)) = Some (Inl e)" "map_run f (Some (Inr v)) = Some (Inr (f v))"
  by (simp_all add: map_run_def)

lemma run_cases: "(r = None \<Longrightarrow> P) \<Longrightarrow> (\<And>e. r = Some (Inl e) \<Longrightarrow> P) \<Longrightarrow> (\<And>v. r = Some (Inr v) \<Longrightarrow> P) \<Longrightarrow> P"
  for r :: "'a result option"
  by (cases r; cases "the r") auto

lemma bind_map_run: "bind_run (map_run f r) g = bind_run r (\<lambda>v. g (f v))"
  by (cases r rule: run_cases) simp_all

lemma map_bind_run: "map_run f (bind_run r g) = bind_run r (\<lambda>v. map_run f (g v))"
  by (cases r rule: run_cases) simp_all

lemma bind_run_assoc: "bind_run (bind_run r f) g = bind_run r (\<lambda>v. bind_run (f v) g)"
  by (cases r rule: run_cases) simp_all

lemma map_run_map_run: "map_run f (map_run g r) = map_run (\<lambda>v. f (g v)) r"
  by (cases r rule: run_cases) simp_all

lemma bind_run_cong_Inr: "(\<And>v. r = Some (Inr v) \<Longrightarrow> f v = g v) \<Longrightarrow> bind_run r f = bind_run r g"
  by (cases r rule: run_cases) simp_all

subsection \<open>Emitted rows are only appended to\<close>

definition emitted_before :: "txn list \<Rightarrow> card_driver \<Rightarrow> card_driver" where
  "emitted_before xs d = d\<lparr>cc_emitted := xs @ cc_emitted d\<rparr>"

lemma emitted_before_env [simp]: "same_cards_env d (emitted_before xs d)" "cc_cards (emitted_before xs d) = cc_cards d"
  "cc_active (emitted_before xs d) = cc_active d" "cc_inputs (emitted_before xs d) = cc_inputs d"
  by (simp_all add: emitted_before_def same_cards_env_def)

lemma cards_all_emitted_before: "cards_all P d \<Longrightarrow> P (emitted_before xs d) = P d \<Longrightarrow> cards_all P (emitted_before xs d)"
  by (simp add: cards_all_def)

lemma each_card_before:
  assumes "f (emitted_before xs d) = f d"
  shows "each_card f (emitted_before xs d, r, l) = map_run (\<lambda>(d, r, l). (emitted_before xs d, r, l)) (each_card f (d, r, l))"
proof (cases "cc_active d")
  case True
  then show ?thesis
    by (cases "over_cards (f d) (cc_cards d) \<lparr>cw_router = r, cw_ledger = l, cw_out = []\<rparr>" rule: run_cases)
      (simp_all add: each_card_def assms split_beta, simp_all add: emitted_before_def)
qed (simp add: each_card_def)

lemma billing_before:
  "cards_advance_ledger_to b (emitted_before xs d, r, l) =
     map_run (\<lambda>(d, r, l). (emitted_before xs d, r, l)) (cards_advance_ledger_to b (d, r, l))"
  "cards_tick_day day (emitted_before xs d, r, l) =
     map_run (\<lambda>(d, r, l). (emitted_before xs d, r, l)) (cards_tick_day day (d, r, l))"
  unfolding cards_advance_ledger_to_def cards_tick_day_def
  by (rule each_card_before, rule card_predicates_env, simp)+

lemma each_card_env:
  "each_card f (d, r, l) = Some (Inr (d', r', l')) \<Longrightarrow> same_cards_env d d'"
  by (auto simp: each_card_def bind_run_Inr same_cards_env_def split: if_splits)

lemma ingest_before: "ingest_purchases rows (emitted_before xs d) = emitted_before xs (ingest_purchases rows d)"
  by (simp add: ingest_purchases_def emitted_before_def split_beta Let_def)

lemma ingest_env: "same_cards_env d (ingest_purchases rows d)" "cc_emitted (ingest_purchases rows d) = cc_emitted d"
  by (simp_all add: ingest_purchases_def same_cards_env_def split_beta Let_def)

subsection \<open>A day\<close>

definition in_day :: "time_point \<Rightarrow> txn \<Rightarrow> bool" where
  "in_day day t \<longleftrightarrow> day \<le> tx_time t \<and> tx_time t < day + seconds_per_day"

lemma fed_without_rows: "card_ready d day k c \<Longrightarrow> card_fed d day k c"
  using card_fed_ingested [of d day k c "[]"] by (simp add: ingested_card_def purchases_of_def)

lemma cards_fed_without_rows: "cards_all (\<lambda>d. card_ready d day) d \<Longrightarrow> cards_all (\<lambda>d. card_fed d day) d"
  by (auto simp: cards_all_def intro: fed_without_rows)

lemma cards_fed_ingested:
  assumes "cc_active d" "cards_all (\<lambda>d. card_ready d day) d" "\<forall>t \<in> set rows. in_day day t"
  shows "cards_all (\<lambda>d. card_fed d day) (ingest_purchases rows d)"
proof -
  let ?d = "ingest_purchases rows d"
  have dist: "distinct (map fst (cc_cards d))" using assms(2) by (simp add: cards_all_def)
  note s = ingest_purchases_slots [OF assms(1) dist refl refl, where rows = rows]
  have rows: "\<forall>t \<in> set rows. day \<le> tx_time t \<and> tx_time t < day + seconds_per_day" using assms(3) by (simp add: in_day_def)
  have "card_fed d day k c" if m: "(k, c) \<in> set (cc_cards ?d)" for k c
  proof -
    have c: "c = ingested_card (card_lo d) (card_hi d) rows k (card_slot k (cc_cards d))"
      using card_slot_member [OF s(1) m] s(2) [where k = k] by simp
    show ?thesis
    proof (cases "k \<in> set (map fst (cc_cards d))")
      case True
      from member_card_slot [OF this] assms(2) have "card_ready d day k (card_slot k (cc_cards d))" by (auto simp: cards_all_def)
      then show ?thesis unfolding c by (rule card_fed_ingested [OF _ rows])
    next
      case False
      show ?thesis unfolding c card_slot_absent [OF False] by (rule card_fed_new [OF rows])
    qed
  qed
  moreover have "card_fed ?d = card_fed d" by (rule card_predicates_env) (rule ingest_env)
  ultimately show ?thesis using s(1) by (auto simp: cards_all_def)
qed

lemma cards_step:
  assumes "each_card f (d, r, l) = Some (Inr (d', r', l'))" "cc_active d" "cards_all P d"
    "\<And>k c w c' w'. P d k c \<Longrightarrow> f d k (c, w) = Some (Inr (c', w')) \<Longrightarrow> Q d k c' \<and> emits lo hi w w'"
    "same_cards_env d d' \<Longrightarrow> Q d' = Q d"
  shows "same_cards_env d d' \<and> cards_all Q d' \<and>
    (\<exists>rows. cc_emitted d' = cc_emitted d @ rows \<and> (\<forall>t \<in> set rows. timely lo hi t))"
proof -
  have "same_cards_env d d' \<and> distinct (map fst (cc_cards d')) \<and> (\<forall>(k, c) \<in> set (cc_cards d'). Q d k c) \<and>
      (\<exists>rows. cc_emitted d' = cc_emitted d @ rows \<and> (\<forall>t \<in> set rows. timely lo hi t))"
    by (rule each_card_all [OF assms(1,2), where P = "P d"]) (use assms(3,4) in \<open>simp_all add: cards_all_def\<close>)
  then show ?thesis using assms(5) by (simp add: cards_all_def)
qed

lemma billing_day:
  assumes "cc_active d" "cards_all (\<lambda>d. card_fed d day) d" "card_calendar d day"
    "cards_advance_ledger_to (day + seconds_per_day) (d, r, l) = Some (Inr (d1, r1, l1))"
    "cards_tick_day day (d1, r1, l1) = Some (Inr (d2, r2, l2))"
    "cards_advance_ledger_to (day + seconds_per_day) (d2, r2, l2) = Some (Inr (d3, r3, l3))"
  shows "same_cards_env d d3 \<and> cards_all (\<lambda>d. card_ready d (day + seconds_per_day)) d3 \<and>
    (\<exists>rows. cc_emitted d3 = cc_emitted d @ rows \<and> (\<forall>t \<in> set rows. timely (backdate_limit (card_lo d) day) (card_hi d) t))"
proof -
  let ?lo = "backdate_limit (card_lo d) day"
  have lo: "card_lo d \<le> day" "?lo \<le> day" using assms(3) by (simp_all add: card_calendar_def backdate_limit_def)
  have 1: "same_cards_env d d1 \<and> cards_all (\<lambda>d. card_posted d day) d1 \<and>
      (\<exists>rows. cc_emitted d1 = cc_emitted d @ rows \<and> (\<forall>t \<in> set rows. timely ?lo (card_hi d) t))"
    by (rule cards_step [OF assms(4) [unfolded cards_advance_ledger_to_def] assms(1,2)])
      (use advance_card_fed [OF _ _ lo(1)] emits_mono [OF _ lo(2)] in \<open>blast | simp add: card_predicates_env(3)\<close>)+
  then have e1: "cc_active d1" "card_lo d1 = card_lo d" "card_hi d1 = card_hi d" "card_calendar d1 day"
    using assms(1,3) card_predicates_env(5) [of d d1] by (simp_all add: same_cards_env_def)
  have 2: "same_cards_env d1 d2 \<and> cards_all (\<lambda>d. card_ticked d day) d2 \<and>
      (\<exists>rows. cc_emitted d2 = cc_emitted d1 @ rows \<and> (\<forall>t \<in> set rows. timely ?lo (card_hi d) t))"
    by (rule cards_step [OF assms(5) [unfolded cards_tick_day_def] e1(1) conjunct1 [OF conjunct2 [OF 1]]])
      (use tick_card_posted [OF _ _ e1(4)] card_predicates_env(4) in \<open>simp_all add: e1\<close>)
  then have e2: "cc_active d2" "card_lo d2 = card_lo d" "card_hi d2 = card_hi d"
    using e1 by (simp_all add: same_cards_env_def)
  have 3: "same_cards_env d2 d3 \<and> cards_all (\<lambda>d. card_ready d (day + seconds_per_day)) d3 \<and>
      (\<exists>rows. cc_emitted d3 = cc_emitted d2 @ rows \<and> (\<forall>t \<in> set rows. timely ?lo (card_hi d) t))"
    by (rule cards_step [OF assms(6) [unfolded cards_advance_ledger_to_def] e2(1) conjunct1 [OF conjunct2 [OF 2]]])
      (use advance_card_ticked [of d2] card_predicates_env(1) in \<open>simp_all add: e2\<close>)
  have "same_cards_env d d3" using 1 2 3 same_cards_env_trans by blast
  moreover have "\<exists>rows. cc_emitted d3 = cc_emitted d @ rows \<and> (\<forall>t \<in> set rows. timely ?lo (card_hi d) t)"
  proof -
    obtain a where a: "cc_emitted d1 = cc_emitted d @ a" "\<forall>t \<in> set a. timely ?lo (card_hi d) t" using 1 by blast
    obtain b where b: "cc_emitted d2 = cc_emitted d1 @ b" "\<forall>t \<in> set b. timely ?lo (card_hi d) t" using 2 by blast
    obtain c where c: "cc_emitted d3 = cc_emitted d2 @ c" "\<forall>t \<in> set c. timely ?lo (card_hi d) t" using 3 by blast
    show ?thesis by (rule exI [of _ "a @ b @ c"]) (use a b c in auto)
  qed
  ultimately show ?thesis using 3 by blast
qed

subsection \<open>Nothing is left at the end\<close>

lemma card_ready_end:
  assumes "card_ready d (card_hi d) k c" "pc_session c = Some s"
  shows "rest_closes c = []" "cx_pending s = []" "servable (card_lo d) (card_hi d) (card_hi d) c s"
proof -
  have r: "servable (card_lo d) (card_hi d) (card_hi d) c s" "\<forall>x \<in> set (rest_closes c). card_hi d \<le> x"
    "\<forall>p \<in> set (cx_pending s). posting_ok (card_hi d) (card_hi d) p"
    using assms by (simp_all add: card_ready_def)
  then show "servable (card_lo d) (card_hi d) (card_hi d) c s" by simp
  have "x \<notin> set (rest_closes c)" for x using r(1,2) by (force simp: servable_def)
  then show "rest_closes c = []" by (metis list.set_intros(1) neq_Nil_conv)
  have "p \<notin> set (cx_pending s)" for p using r(3) by (force simp: posting_ok_def timely_def)
  then show "cx_pending s = []" by (metis list.set_intros(1) neq_Nil_conv)
qed

lemma drain_card_end:
  assumes "card_ready d (card_hi d) k c"
  shows "\<exists>c'. drain_card d k (c, w) = Some (Inr (c', w)) \<and> card_ready d (card_hi d) k c'"
proof -
  have e: "ensure_session d k c = Some (Inr c)"
    by (rule ensure_session_idle) (use assms in \<open>auto simp: card_ready_def split: option.splits\<close>)
  show ?thesis
  proof (cases "pc_session c")
    case None
    have "close_cycles env lim w_end cs (c, w) = Some (Inr (c, w))" for env lim w_end cs
      using None by (cases cs) simp_all
    then show ?thesis using None e assms
      by (simp add: drain_card_def tick_card_def close_cycles_up_to_def Let_def compact_purchases_def)
  next
    case (Some s)
    note r = card_ready_end [OF assms Some]
    have t: "tick_card (card_hi d) d k (c, w) = Some (Inr (c, w))"
      using e r(1) by (simp add: tick_card_def close_cycles_up_to_def Let_def rest_closes_def)
    obtain c' n where c': "compact_purchases c = Inr c'" "servable (card_lo d) (card_hi d) (card_hi d) c' (s\<lparr>cx_cursor := n\<rparr>)"
      "rest_closes c' = rest_closes c" "pc_prior_close c' = pc_prior_close c"
      using unread_compacted [OF r(3)] by blast
    then have "pc_session c' = Some (s\<lparr>cx_cursor := n\<rparr>)" by (simp add: servable_def)
    then have "card_ready d (card_hi d) k c'" using c' r assms Some by (simp add: card_ready_def)
    then show ?thesis using t c'(1) by (simp add: drain_card_def)
  qed
qed

lemma advance_card_end:
  assumes "card_ready d (card_hi d) k c"
  shows "advance_card (card_hi d) d k (c, w) = Some (Inr (c, w))"
proof -
  have "ensure_session d k c = Some (Inr c)"
    by (rule ensure_session_idle) (use assms in \<open>auto simp: card_ready_def split: option.splits\<close>)
  moreover have "c\<lparr>pc_session := Some s\<rparr> = c" if "pc_session c = Some s" for s using that by (cases c) simp
  ultimately show ?thesis
    using card_ready_end(2) [OF assms] advance_session_nothing
    by (cases "pc_session c") (simp_all add: advance_card_def)
qed

lemma over_cards_quiet:
  assumes "\<forall>(k, c) \<in> set cs. P k c" "\<And>k c w. P k c \<Longrightarrow> \<exists>c'. f k (c, w) = Some (Inr (c', w)) \<and> P k c'"
  shows "\<exists>cs'. over_cards f cs w = Some (Inr (cs', w)) \<and> map fst cs' = map fst cs \<and> (\<forall>(k, c) \<in> set cs'. P k c)"
  using assms(1)
proof (induction cs)
  case (Cons kc cs)
  obtain k c where kc: "kc = (k, c)" by (cases kc)
  obtain c' where "f k (c, w) = Some (Inr (c', w))" "P k c'" using assms(2) Cons.prems kc by fastforce
  moreover obtain cs' where "over_cards f cs w = Some (Inr (cs', w))" "map fst cs' = map fst cs" "\<forall>(k, c) \<in> set cs'. P k c"
    using Cons.IH Cons.prems by auto
  ultimately show ?case by (simp add: kc)
qed simp

lemma each_card_quiet:
  assumes "cc_active d" "cards_all (\<lambda>d. P d) d" "\<And>k c w. P d k c \<Longrightarrow> \<exists>c'. f d k (c, w) = Some (Inr (c', w)) \<and> P d k c'"
  shows "\<exists>cs. each_card f (d, r, l) = Some (Inr (d\<lparr>cc_cards := cs\<rparr>, r, l)) \<and> map fst cs = map fst (cc_cards d) \<and>
    (\<forall>(k, c) \<in> set cs. P d k c)"
proof -
  have p: "\<forall>(k, c) \<in> set (cc_cards d). P d k c" using assms(2) by (simp add: cards_all_def)
  obtain cs where "over_cards (f d) (cc_cards d) \<lparr>cw_router = r, cw_ledger = l, cw_out = []\<rparr> =
      Some (Inr (cs, \<lparr>cw_router = r, cw_ledger = l, cw_out = []\<rparr>))" "map fst cs = map fst (cc_cards d)" "\<forall>(k, c) \<in> set cs. P d k c"
    using over_cards_quiet [OF p assms(3)] by blast
  then show ?thesis using assms(1) by (intro exI [of _ cs]) (simp add: each_card_def)
qed

text \<open>At the end of the window the residual drain finds nothing to close and nothing to post.\<close>

lemma drain_residual_quiet:
  assumes "cc_active d" "cards_all (\<lambda>d. card_ready d (card_hi d)) d"
  shows "\<exists>d'. cards_drain_residual (d, r, l) = Some (Inr (d', r, l)) \<and> cc_emitted d' = cc_emitted d \<and> cc_active d'"
proof -
  obtain cs where 1: "each_card drain_card (d, r, l) = Some (Inr (d\<lparr>cc_cards := cs\<rparr>, r, l))"
    "map fst cs = map fst (cc_cards d)" "\<forall>(k, c) \<in> set cs. card_ready d (card_hi d) k c"
    using each_card_quiet [OF assms(1), of "\<lambda>d. card_ready d (card_hi d)" drain_card r l] assms(2) drain_card_end by blast
  let ?d = "d\<lparr>cc_cards := cs\<rparr>"
  have env: "same_cards_env d ?d" by (simp add: same_cards_env_def)
  have "cards_all (\<lambda>d. card_ready d (card_hi d)) ?d"
    using 1(2,3) assms(2) card_predicates_env(1) [OF env] by (simp add: cards_all_def)
  then obtain cs' where "each_card (advance_card (card_hi d)) (?d, r, l) = Some (Inr (?d\<lparr>cc_cards := cs'\<rparr>, r, l))"
    using each_card_quiet [of ?d "\<lambda>d. card_ready d (card_hi d)" "advance_card (card_hi d)" r l] advance_card_end [of ?d] assms(1) by auto
  then show ?thesis using 1(1) assms(1) by (simp add: cards_drain_residual_def cards_advance_ledger_to_def)
qed

end
