(* ===== verification/CardClaims.thy ===== *)
theory CardClaims
  imports CardBilling SeedClaims
begin

text \<open>The properties of the endpoint router, of the row factory and of the card billing.\<close>

subsection \<open>Endpoints and rows\<close>

text \<open>C38: routing along a person's endpoints always returns, and it only returns an endpoint whose tenure
contains the row's time. The person then sticks to that endpoint; when no endpoint is live, nothing is
returned, nothing is drawn and the person keeps the endpoint it had.\<close>

theorem routed_endpoint_is_live:
  assumes "seeded g" "length spans < 2 ^ 64"
  shows "\<exists>i cur' g'. route_live switch_p spans ts cur g = Some (Inr (i, cur', g')) \<and> seeded g' \<and>
    (case i of
       None \<Rightarrow> (\<forall>k < length spans. \<not> tenure_contains (spans ! k) ts) \<and> cur' = cur \<and> g' = g
     | Some k \<Rightarrow> k < length spans \<and> tenure_contains (spans ! k) ts \<and> cur' = Some k)"
proof -
  obtain i cur' g' where r: "route_live switch_p spans ts cur g = Some (Inr (i, cur', g'))" "seeded g'"
    using route_live_returns [OF assms] by blast
  have empty: "live_indices spans ts = [] \<longleftrightarrow> (\<forall>k < length spans. \<not> tenure_contains (spans ! k) ts)"
    by (auto simp: live_indices_def filter_empty_conv)
  from route_live_correct [OF assms(2) r(1)] show ?thesis
    using r empty by (cases "live_indices spans ts = []") (auto simp: live_indices_iff)
qed

text \<open>Two tenures of which only the second is running; the person was on the first.\<close>

lemma routed_endpoint_is_live_witness:
  "\<exists>cur' g'. route_live (Fin 1) [\<lparr>tn_first = 0, tn_last_excl = 10\<rparr>, \<lparr>tn_first = 5, tn_last_excl = 20\<rparr>] 15 (Some 0) (from_seed 7)
     = Some (Inr (Some 1, cur', g'))"
proof -
  have "seeded (from_seed 7)" by (rule seeded_from_seed)
  from routed_endpoint_is_live [OF this, of "[\<lparr>tn_first = 0, tn_last_excl = 10\<rparr>, \<lparr>tn_first = 5, tn_last_excl = 20\<rparr>]" "Fin 1" 15 "Some 0"]
  show ?thesis by (auto simp: tenure_contains_def less_Suc_eq split: option.splits)
qed

text \<open>C39: the factory never changes what the draft fixes. A row has the source, the destination, the amount,
the time, the channel and the fraud marks of its draft whatever endpoints are found for it, and a row that
somebody outside initiates, outside a ring with shared endpoints, is the draft itself and draws nothing.\<close>

theorem rows_keep_their_draft:
  assumes "make_row ring d g r = Some (Inr (t, g', r'))"
  shows "tx_source t = df_source d \<and> tx_target t = df_destination d \<and> tx_amount t = df_amount d \<and> tx_time t = df_time d \<and>
    tx_channel t = df_channel d \<and> tx_fraud t = tx_fraud (draft_row d) \<and>
    (is_externally_initiated (df_channel d) \<and> (ring = None \<or> df_ring d < 0) \<longrightarrow> t = draft_row d \<and> g' = g \<and> r' = r)"
proof -
  have "tx_fraud t = tx_fraud (draft_row d)" using make_row_core [OF assms] by (metis row_core_fields(5))
  moreover have "is_externally_initiated (df_channel d) \<and> (ring = None \<or> df_ring d < 0) \<longrightarrow> t = draft_row d \<and> g' = g \<and> r' = r"
    using assms by (auto simp: make_row_def ring_endpoints_def owner_endpoints_def bind_run_Inr split: option.splits)
  ultimately show ?thesis using make_row_fields [OF assms] by simp
qed

text \<open>A settlement that an outside party initiates.\<close>

lemma rows_keep_their_draft_witness:
  "\<exists>t. make_row None \<lparr>df_source = Key RMerchant External 3, df_destination = Key RAccount Internal 5, df_amount = Fin 12,
       df_time = 86400, df_fraud = 0, df_ring = -1, df_channel = tag_of (Legit LegMerchant), df_chain = -1\<rparr> (from_seed 7) None =
     Some (Inr (t, from_seed 7, None)) \<and> tx_amount t = Fin 12 \<and> tx_time t = 86400"
proof -
  let ?d = "\<lparr>df_source = Key RMerchant External 3, df_destination = Key RAccount Internal 5, df_amount = Fin 12,
       df_time = 86400, df_fraud = 0, df_ring = -1, df_channel = tag_of (Legit LegMerchant), df_chain = -1\<rparr>"
  obtain t g r where m: "make_row None ?d (from_seed 7) None = Some (Inr (t, g, r))"
    by (simp add: make_row_def ring_endpoints_def)
  from rows_keep_their_draft [OF this] m show ?thesis by (auto simp: make_row_def ring_endpoints_def)
qed

subsection \<open>Statement closes\<close>

text \<open>C37: the loop over the months terminates and finds exactly the closes of the window. The dates returned
increase strictly, and they are the closes of all months that lie in the half-open window: 23:30 on the card's
cycle day, or on the month's last day where the month is shorter. The years the calendar accepts are the
only condition.\<close>

theorem statement_closes_exact:
  assumes "0 < cycle_day" "w_start < w_end" "year_in_range (month_count w_start div 12)"
    "year_in_range (first_close_month cycle_day w_end div 12)"
  shows "\<exists>closes. statement_close_dates w_start w_end cycle_day = Some (Inr closes) \<and> sorted_wrt (<) closes \<and>
    set closes = {c. w_start \<le> c \<and> c < w_end \<and> (\<exists>n. c = first_of_month n + 84600 +
      (min (int cycle_day) (days_in_month (n div 12) (n mod 12 + 1)) - 1) * seconds_per_day)}"
proof -
  let ?a = "first_close_month cycle_day w_start" and ?b = "first_close_month cycle_day w_end"
  let ?cs = "map (close_at cycle_day) [?a..?b - 1]"
  have "sorted_wrt (<) ?cs"
    using close_at_mono [OF _ assms(1)] sorted_wrt_mono_rel [OF _ sorted_wrt_upto] by (simp add: sorted_wrt_map)
  moreover have "set ?cs = {c. w_start \<le> c \<and> c < w_end \<and> (\<exists>n. c = close_at cycle_day n)}"
  proof -
    have "w_start \<le> close_at cycle_day n \<longleftrightarrow> ?a \<le> n" "close_at cycle_day n < w_end \<longleftrightarrow> n < ?b" for n
      using first_close(3) [OF assms(1), of n w_start] first_close(3) [OF assms(1), of n w_end] by linarith+
    then show ?thesis by auto
  qed
  moreover have "close_at cycle_day n = first_of_month n + 84600 +
      (min (int cycle_day) (days_in_month (n div 12) (n mod 12 + 1)) - 1) * seconds_per_day" for n
    by (simp add: close_at_def close_day_def)
  ultimately show ?thesis using statement_close_dates_eq [OF assms] by simp
qed

text \<open>A card that closes on the 31st: the first seconds of 1970 up to March 1.\<close>

lemma statement_closes_exact_witness:
  "\<exists>closes. statement_close_dates 0 5097600 31 = Some (Inr closes) \<and> sorted_wrt (<) closes"
proof -
  have "year_in_range (month_count 0 div 12)" "year_in_range (first_close_month 31 5097600 div 12)" by code_simp+
  from statement_closes_exact [OF _ _ this] show ?thesis by auto
qed

subsection \<open>Purchases\<close>

text \<open>C15: no purchase is lost or read twice. Ingesting rows appends to the unread purchases of every card exactly
its card purchases of the window, in time order, whatever the card has read before; the compaction of the
purchase buffer never fails on such a card and leaves the unread purchases as they are.\<close>

theorem ingestion_and_compaction_keep_purchases:
  assumes "cc_active d" "distinct (map fst (cc_cards d))"
    "\<forall>(k, c) \<in> set (cc_cards d). indexed c \<and> session_cursor c \<le> length (pc_indices c)"
  shows "let c = card_slot k (cc_cards d); c' = card_slot k (cc_cards (ingest_purchases rows d))
    in unread (session_cursor c') c' = unread (session_cursor c) c @ sort_key tx_time (purchases_of (card_lo d) (card_hi d) k rows) \<and>
       (\<exists>c''. compact_purchases c' = Inr c'' \<and> unread (session_cursor c'') c'' = unread (session_cursor c') c' \<and> indexed c'')"
proof -
  let ?c = "card_slot k (cc_cards d)" and ?c' = "card_slot k (cc_cards (ingest_purchases rows d))"
  have c: "indexed ?c \<and> session_cursor ?c \<le> length (pc_indices ?c)"
  proof (cases "k \<in> set (map fst (cc_cards d))")
    case True
    from member_card_slot [OF this] show ?thesis using assms(3) by blast
  next
    case False
    show ?thesis unfolding card_slot_absent [OF False] by (simp add: indexed_def per_card_new_def session_cursor_def)
  qed
  have c': "?c' = ingested_card (card_lo d) (card_hi d) rows k ?c"
    by (rule ingest_purchases_slots(2) [OF assms(1,2) refl refl])
  note u = unread_ingested [OF conjunct1 [OF c] conjunct2 [OF c], of "card_lo d" "card_hi d" rows k, folded c']
  have cur: "session_cursor ?c' = session_cursor ?c" using u(4) by (simp add: session_cursor_def)
  show ?thesis using u compact_purchases_unread [of ?c'] by (auto simp: Let_def cur)
qed

text \<open>Two rows of one card on the first day, in the wrong order.\<close>

definition card_demo_driver :: card_driver where
  "card_demo_driver = card_driver_new
     \<lparr>ce_billing = \<lparr>bt_grace_days = 25, bt_min_pct = Fin (1 / 64), bt_min_dollars = Fin 25, bt_late_fee = Fin 32\<rparr>,
      ce_mixture = \<lparr>pm_full = Fin 1, pm_partial = Fin 0, pm_min = Fin 0, pm_miss = Fin 0, pm_alpha = Fin 1, pm_beta = Fin 1\<rparr>,
      ce_timing = \<lparr>pt_late_p = Fin 0, pt_late_min = 1, pt_late_max = 20\<rparr>,
      ce_disputes = \<lparr>db_refund_min = 1, db_refund_max = 14, db_chargeback_min = 7, db_chargeback_max = 45,
        db_refund_p = Fin 0, db_chargeback_p = Fin 0\<rparr>,
      ce_ring = None, ce_beta = (\<lambda>_ _ g. (Fin 0, g)), ce_price_scale = (\<lambda>_. Fin 1)\<rparr>
     7 \<lparr>ci_terms = Some (\<lambda>_. None), ci_primary = Some (\<lambda>_. None), ci_window = \<lparr>wn_start = 0, wn_days = 1\<rparr>, ci_deaths = []\<rparr> False"

definition card_demo_row :: "time_point \<Rightarrow> txn" where
  "card_demo_row ts = default_txn\<lparr>tx_source := Key RCard Internal 1, tx_amount := Fin 5, tx_time := ts,
     tx_session := (tx_session default_txn)\<lparr>se_channel := tag_of (Legit LegCardPurchase)\<rparr>\<rparr>"


lemma ingestion_and_compaction_keep_purchases_witness:
  "\<exists>cursor. unread cursor (card_slot (Key RCard Internal 1)
     (cc_cards (ingest_purchases [card_demo_row 100, card_demo_row 50] card_demo_driver))) = [card_demo_row 50, card_demo_row 100]"
proof -
  have d: "cc_active card_demo_driver" "distinct (map fst (cc_cards card_demo_driver))" "cc_cards card_demo_driver = []"
    "wn_start (ci_window (cc_inputs card_demo_driver)) = 0" "window_end (ci_window (cc_inputs card_demo_driver)) = 86400"
    by (simp_all add: card_demo_driver_def card_driver_new_def window_end_def add_days_def seconds_per_day_def)
  have r: "purchases_of 0 86400 (Key RCard Internal 1) [card_demo_row 100, card_demo_row 50] = [card_demo_row 100, card_demo_row 50]"
    "sort_key tx_time [card_demo_row 100, card_demo_row 50] = [card_demo_row 50, card_demo_row 100]"
    by (simp_all add: purchases_of_def card_demo_row_def)
  have u: "unread (session_cursor per_card_new) per_card_new = []"
    by (simp add: unread_def rows_at_def per_card_new_def)
  from ingestion_and_compaction_keep_purchases [OF d(1,2), of "Key RCard Internal 1" "[card_demo_row 100, card_demo_row 50]"]
  show ?thesis unfolding d r by (auto simp: Let_def u)
qed

subsection \<open>The billing of a window\<close>

text \<open>The billing calls of the first days of a window, with the rows of each day.\<close>

fun serve_days :: "time_point \<Rightarrow> txn list list \<Rightarrow> billing_state \<Rightarrow> billing_state result option" where
  "serve_days day [] st = Some (Inr st)"
| "serve_days day (rows # days) st =
     bind_run (cards_advance_ledger_to (day + seconds_per_day) (ingest_purchases rows (fst st), snd st)) (\<lambda>st.
     bind_run (cards_tick_day day st) (\<lambda>st.
     bind_run (cards_advance_ledger_to (day + seconds_per_day) st) (serve_days (day + seconds_per_day) days)))"

lemma served_days:
  assumes "serve_days day days (d, r, l) = Some (Inr (d', r', l'))" "cc_active d" "cards_all (\<lambda>d. card_ready d day) d"
    "billing_ok (cc_env d)" "day mod seconds_per_day = 0" "card_hi d mod seconds_per_day = 0" "card_lo d \<le> day"
    "day + int (length days) * seconds_per_day \<le> card_hi d"
    "\<forall>i < length days. \<forall>t \<in> set (days ! i). in_day (day + int i * seconds_per_day) t"
  shows "same_cards_env d d' \<and> cards_all (\<lambda>d. card_ready d (day + int (length days) * seconds_per_day)) d' \<and>
    (\<exists>outs. length outs = length days \<and> cc_emitted d' = cc_emitted d @ concat outs \<and>
      (\<forall>i < length days. \<forall>t \<in> set (outs ! i). timely (backdate_limit (card_lo d) (day + int i * seconds_per_day)) (card_hi d) t))"
  using assms
proof (induction days arbitrary: day d r l)
  case Nil
  then show ?case by simp
next
  case (Cons rows days)
  let ?d = "ingest_purchases rows d" and ?next = "day + seconds_per_day"
  have rows: "\<forall>t \<in> set rows. in_day day t" using Cons.prems(9) by (auto dest: spec [of _ 0])
  have fed: "cards_all (\<lambda>d. card_fed d day) ?d" by (rule cards_fed_ingested [OF Cons.prems(2,3) rows])
  have e0: "same_cards_env d ?d" "cc_emitted ?d = cc_emitted d" by (rule ingest_env)+
  have act: "cc_active ?d" using e0(1) Cons.prems(2) by (simp add: same_cards_env_def)
  have "0 \<le> int (length days) * seconds_per_day" by (simp add: seconds_per_day_def)
  moreover have "day + int (length (rows # days)) * seconds_per_day = ?next + int (length days) * seconds_per_day"
    by (simp add: algebra_simps)
  ultimately have "?next \<le> card_hi d" using Cons.prems(8) by linarith
  then have "card_calendar d day" using Cons.prems by (simp add: card_calendar_def)
  then have cal: "card_calendar ?d day" using card_predicates_env(5) [OF e0(1)] by simp
  obtain d1 r1 l1 d2 r2 l2 d3 r3 l3 where steps:
    "cards_advance_ledger_to ?next (?d, r, l) = Some (Inr (d1, r1, l1))"
    "cards_tick_day day (d1, r1, l1) = Some (Inr (d2, r2, l2))"
    "cards_advance_ledger_to ?next (d2, r2, l2) = Some (Inr (d3, r3, l3))"
    "serve_days ?next days (d3, r3, l3) = Some (Inr (d', r', l'))"
    using Cons.prems(1) by (auto simp: bind_run_Inr)
  from billing_day [OF act fed cal steps(1-3)]
  obtain out where b: "same_cards_env ?d d3" "cards_all (\<lambda>d. card_ready d ?next) d3" "cc_emitted d3 = cc_emitted d @ out"
    "\<forall>t \<in> set out. timely (backdate_limit (card_lo d) day) (card_hi d) t"
    using e0 by (auto simp: same_cards_env_def)
  have e3: "same_cards_env d d3" by (rule same_cards_env_trans [OF e0(1) b(1)])
  then have env: "cc_active d3" "cc_env d3 = cc_env d" "card_lo d3 = card_lo d" "card_hi d3 = card_hi d"
    using Cons.prems(2) by (simp_all add: same_cards_env_def)
  have later: "\<forall>i < length days. \<forall>t \<in> set (days ! i). in_day (?next + int i * seconds_per_day) t"
    using Cons.prems(9) by (force simp: algebra_simps dest: spec [of _ "Suc _"])
  have lo: "card_lo d \<le> ?next" using Cons.prems(7) by (simp add: seconds_per_day_def)
  from Cons.IH [OF steps(4) env(1) b(2)] later lo Cons.prems(4-8)
  obtain outs where o: "same_cards_env d3 d'" "cards_all (\<lambda>d. card_ready d (?next + int (length days) * seconds_per_day)) d'"
    "length outs = length days" "cc_emitted d' = cc_emitted d3 @ concat outs"
    "\<forall>i < length days. \<forall>t \<in> set (outs ! i). timely (backdate_limit (card_lo d) (?next + int i * seconds_per_day)) (card_hi d) t"
    by (auto simp: env algebra_simps)
  have "\<forall>i < length (rows # days). \<forall>t \<in> set ((out # outs) ! i).
      timely (backdate_limit (card_lo d) (day + int i * seconds_per_day)) (card_hi d) t"
    using o(5) b(4) by (auto simp: nth_Cons algebra_simps split: nat.split)
  moreover have "cc_emitted d' = cc_emitted d @ concat (out # outs)" using o(4) b(3) by simp
  ultimately show ?case
    using same_cards_env_trans [OF e3 o(1)] o(2,3) by (intro conjI exI [of _ "out # outs"]) (simp_all add: algebra_simps)
qed


text \<open>C14: the billing of a window is never back-dated past the last close. Starting from a fresh driver and serving
the window day by day, every row that a day's calls emit is dated at most 31 days before that day, inside the
window; and once all days are served the residual drain closes, posts and emits nothing more. Grace periods of
at least three days are needed: a payment made up to four days before a weekend due date could otherwise precede
its own statement.\<close>

theorem billing_is_never_backdated:
  assumes "serve_days lo days (card_driver_new env base inputs False, r, l) = Some (Inr (d', r', l'))"
    "ci_terms inputs \<noteq> None" "ci_primary inputs \<noteq> None" "ci_window inputs = \<lparr>wn_start = lo, wn_days = n\<rparr>" "0 < n"
    "billing_ok env" "lo mod seconds_per_day = 0" "int (length days) \<le> n"
    "\<forall>i < length days. \<forall>t \<in> set (days ! i). in_day (lo + int i * seconds_per_day) t"
  shows "(\<exists>outs. length outs = length days \<and> cc_emitted d' = concat outs \<and>
      (\<forall>i < length days. \<forall>t \<in> set (outs ! i).
         max lo (lo + (int i - 31) * seconds_per_day) \<le> tx_time t \<and> tx_time t < lo + n * seconds_per_day)) \<and>
    (int (length days) = n \<longrightarrow>
      (\<exists>d''. cards_drain_residual (d', r', l') = Some (Inr (d'', r', l')) \<and> cc_emitted d'' = cc_emitted d'))"
proof -
  let ?d = "card_driver_new env base inputs False"
  have d: "cc_active ?d" "cc_cards ?d = []" "cc_env ?d = env" "cc_inputs ?d = inputs" "cc_emitted ?d = []"
    using assms(2-5) by (simp_all add: card_driver_new_def)
  have w: "card_lo ?d = lo" "card_hi ?d = lo + n * seconds_per_day" using d(4) assms(4) by (simp_all add: window_end_def add_days_def)
  have "int (length days) * seconds_per_day \<le> n * seconds_per_day"
    using assms(8) by (intro mult_right_mono) (simp_all add: seconds_per_day_def)
  then have s: "same_cards_env ?d d' \<and> cards_all (\<lambda>d. card_ready d (lo + int (length days) * seconds_per_day)) d' \<and>
    (\<exists>outs. length outs = length days \<and> cc_emitted d' = cc_emitted ?d @ concat outs \<and>
      (\<forall>i < length days. \<forall>t \<in> set (outs ! i). timely (backdate_limit (card_lo ?d) (lo + int i * seconds_per_day)) (card_hi ?d) t))"
    using assms(6,7,9) by (intro served_days [OF assms(1) d(1)]) (simp_all add: cards_all_def d(2,3) w)
  have "cards_all (\<lambda>d. card_ready d (card_hi d)) d'" if "int (length days) = n"
  proof -
    have "cc_inputs d' = cc_inputs ?d" using s by (simp add: same_cards_env_def)
    then have "card_hi d' = lo + int (length days) * seconds_per_day" using that w(2) by simp
    then show ?thesis using s by (simp add: cards_all_def)
  qed
  then have "int (length days) = n \<longrightarrow>
      (\<exists>d''. cards_drain_residual (d', r', l') = Some (Inr (d'', r', l')) \<and> cc_emitted d'' = cc_emitted d')"
    using drain_residual_quiet [of d' r' l'] s d(1) by (auto simp: same_cards_env_def)
  then show ?thesis using s unfolding w d(5) timely_def backdate_limit_def by (simp add: algebra_simps)
qed

text \<open>One card, bought with on the first and only day of a window that holds no close.\<close>

definition served_inputs :: card_inputs where
  "served_inputs = \<lparr>ci_terms = Some [Key RCard Internal 1 \<mapsto> \<lparr>ct_key = Key RCard Internal 1, ct_owner = 1, ct_apr = Fin (1 / 4),
       ct_cycle_day = 15, ct_autopay = ApFull\<rparr>], ci_primary = Some [1 \<mapsto> Key RAccount Internal 9],
     ci_window = \<lparr>wn_start = 0, wn_days = 1\<rparr>, ci_deaths = []\<rparr>"

lemma billing_is_never_backdated_witness:
  "\<exists>d' d''. serve_days 0 [[card_demo_row 50]] (card_driver_new (cc_env card_demo_driver) 7 served_inputs False, None, None) =
      Some (Inr (d', None, None)) \<and> map fst (cc_cards d') = [Key RCard Internal 1] \<and>
    cards_drain_residual (d', None, None) = Some (Inr (d'', None, None)) \<and> cc_emitted d'' = cc_emitted d'"
proof -
  have "to_calendar_date 0 = \<lparr>cd_year = 1970, cd_month = 1, cd_day = 1\<rparr>"
    "make_time \<lparr>cd_year = 1970, cd_month = 1, cd_day = clamp_day 1970 1 15\<rparr> statement_close_time = Inr 1294200" by code_simp+
  then have c: "statement_close_dates 0 86400 15 = Some (Inr [])"
    by (simp add: statement_close_dates_def close_dates_from.simps)
  have row: "tx_channel (card_demo_row 50) = tag_of (Legit LegCardPurchase)" "tx_time (card_demo_row 50) = 50"
    "tx_source (card_demo_row 50) = Key RCard Internal 1" by (simp_all add: card_demo_row_def)
  obtain d' where s: "serve_days 0 [[card_demo_row 50]] (card_driver_new (cc_env card_demo_driver) 7 served_inputs False, None, None) =
      Some (Inr (d', None, None))" "map fst (cc_cards d') = [Key RCard Internal 1]"
    by (simp add: card_driver_new_def ingest_purchases_def row ingest_one_def served_inputs_def window_end_def add_days_def
      seconds_per_day_def push_purchase_def per_card_new_def sort_segment_def cards_advance_ledger_to_def each_card_def
      advance_card_def ensure_session_def factory_never_throws c truncate_closes_def card_service_end_def
      advance_session.simps Let_def card_session_new_def cards_tick_day_def tick_card_def close_cycles_up_to_def)
  have b: "billing_ok (cc_env card_demo_driver)" by (simp add: billing_ok_def card_demo_driver_def card_driver_new_def)
  from billing_is_never_backdated [OF s(1) _ _ _ _ b] s show ?thesis
    by (simp add: served_inputs_def in_day_def row seconds_per_day_def)
qed

end
