(* ===== verification/Spenders.thy ===== *)
theory Spenders
  imports SpendRun
begin

text \<open>
  What the emission loop computes for one spender: the liquidity multiplier (\<open>liquidity/multiplier.hpp\<close>,
  \<open>factor.hpp\<close>), the set of instruments with its draw-free pick (\<open>actors/instruments.hpp\<close>), the count of a
  day (\<open>actors/counts.hpp\<close>, \<open>math/counts.hpp\<close>), the probability of exploring (\<open>actors/explore.hpp\<close>), the
  channel of a row (\<open>routing/channel.hpp\<close>) and its time of day (\<open>math/timing.hpp\<close>); and how the spenders
  are prepared (\<open>spenders/prepare.cpp\<close>, \<open>targets.cpp\<close>).

  \<open>std::pow\<close> and the gamma and Poisson samplers, which rest on the C library, are arguments.
\<close>

subsection \<open>Numbers\<close>

text \<open>\<open>std::clamp(v, lo, hi)\<close> is \<open>v < lo ? lo : hi < v ? hi : v\<close>.\<close>

definition std_clamp :: "f64 \<Rightarrow> f64 \<Rightarrow> f64 \<Rightarrow> f64" where
  "std_clamp v lo hi = (if flt v lo then lo else if flt hi v then hi else v)"

fun std_floor :: "f64 \<Rightarrow> f64" where
  "std_floor (Fin x) = Fin (of_int \<lfloor>x\<rfloor>)"
| "std_floor v = v"

text \<open>\<open>sampleIndex\<close>: the position of the first entry above \<open>u\<close>, at most the last one.\<close>

definition sample_index :: "f64 list \<Rightarrow> f64 \<Rightarrow> nat result" where
  "sample_index cdf u =
     (if cdf = [] then Inl (InvalidArgument ''sampleIndex requires a non-empty cdf'')
      else Inr (min (length (takeWhile (\<lambda>c. \<not> flt u c) cdf)) (length cdf - 1)))"

subsection \<open>The time of day\<close>

datatype timing = TmConsumer | TmConsumerDay | TmBusiness

definition timing_normalize :: "f64 list \<Rightarrow> f64 list" where
  "timing_normalize p = (let s = foldl fadd (Fin 0) p in map (\<lambda>x. fdiv x s) p)"

fun running_sums :: "f64 \<Rightarrow> f64 list \<Rightarrow> f64 list" where
  "running_sums s [] = []"
| "running_sums s (x # xs) = fadd s x # running_sums (fadd s x) xs"

definition timing_make_cdf :: "f64 list \<Rightarrow> f64 list" where
  "timing_make_cdf p = (running_sums (Fin 0) p)[23 := Fin 1]"

definition consumer_raw :: "f64 list" where
  "consumer_raw = map (\<lambda>i. lit (rat_of_nat i / 100))
     [2, 1, 1, 1, 1, 2, 4, 6, 6, 5, 5, 5, 5, 5, 5, 6, 7, 8, 7, 6, 5, 4, 3, 2]"

definition consumer_day_raw :: "f64 list" where
  "consumer_day_raw = map (\<lambda>i. lit (rat_of_nat i / 100))
     [1, 1, 1, 1, 1, 2, 4, 7, 8, 8, 7, 6, 6, 6, 6, 6, 6, 5, 4, 3, 2, 2, 1, 1]"

definition business_raw :: "f64 list" where
  "business_raw = map (\<lambda>i. lit (rat_of_nat i / 1000))
     [5, 3, 3, 3, 4, 10, 30, 60, 80, 90, 90, 80, 70, 60, 60, 60, 60, 50, 40, 20, 10, 8, 6, 5]"

fun timing_cdf_for :: "timing \<Rightarrow> f64 list" where
  "timing_cdf_for TmConsumer = timing_make_cdf (timing_normalize consumer_raw)"
| "timing_cdf_for TmConsumerDay = timing_make_cdf (timing_normalize consumer_day_raw)"
| "timing_cdf_for TmBusiness = timing_make_cdf (timing_normalize business_raw)"

text \<open>The loop of \<open>pickHour\<close> stops at hour 23 at the latest.\<close>

function hour_from :: "f64 list \<Rightarrow> f64 \<Rightarrow> nat \<Rightarrow> nat" where
  "hour_from cdf u hour = (if hour < 23 \<and> fle (cdf ! hour) u then hour_from cdf u (Suc hour) else hour)"
  by auto

termination by (relation "measure (\<lambda>(_, _, hour). 23 - hour)") auto

declare hour_from.simps [simp del]

definition pick_hour :: "f64 list \<Rightarrow> f64 \<Rightarrow> nat" where
  "pick_hour cdf u = hour_from cdf u 0"

definition sample_offset :: "timing \<Rightarrow> rng \<Rightarrow> (int \<times> rng) result option" where
  "sample_offset t g =
     (let (u, g) = next_double g; hour = pick_hour (timing_cdf_for t) u
      in bind_run (draw_int 0 60 g) (\<lambda>(minute, g).
         bind_run (draw_int 0 60 g) (\<lambda>(second, g).
           Some (Inr (seconds_in_day (int hour) minute second, g)))))"

subsection \<open>Liquidity\<close>

definition count_factor :: "f64 \<Rightarrow> f64" where
  "count_factor liquidity_mult =
     (let liq = std_clamp liquidity_mult (Fin 0) (Fin (5 / 4));
          softened = (if fle liq (Fin 1) then fadd (Fin (1 / 2)) (fmul (Fin (1 / 2)) liq) else liq)
      in fmul softened softened)"

definition amount_factor :: "f64 \<Rightarrow> f64" where
  "amount_factor liquidity_mult =
     (let high_water = lit (95 / 100); low_water = lit (70 / 100); floor_v = lit (85 / 100)
      in if fle high_water liquidity_mult then Fin 1
         else if fle liquidity_mult low_water then floor_v
         else let t = fdiv (fsub liquidity_mult low_water) (fsub high_water low_water)
              in fadd floor_v (fmul (fsub (Fin 1) floor_v) t))"

record throttle =
  th_enabled :: bool
  th_relief_days :: nat
  th_stress_start :: nat
  th_stress_ramp :: nat
  th_absolute_floor :: f64
  th_exploration_floor :: f64

record liquidity_snapshot =
  ls_since :: nat
  ls_sensitivity :: f64
  ls_available :: f64
  ls_baseline :: f64
  ls_burden :: f64
  ls_price_scale :: f64

definition liquidity_ceiling :: f64 where "liquidity_ceiling = lit (110 / 100)"

definition payday_relief :: "throttle \<Rightarrow> nat \<Rightarrow> f64" where
  "payday_relief th since =
     (if 0 < th_relief_days th \<and> since \<le> th_relief_days th
      then fdiv (f64_of_int (int (th_relief_days th - since))) (f64_of_int (int (th_relief_days th))) else Fin 0)"

definition payday_stress :: "throttle \<Rightarrow> nat \<Rightarrow> f64" where
  "payday_stress th since =
     std_min (Fin 1) (fdiv (f64_of_int (int (since - th_stress_start th))) (f64_of_int (int (max 1 (th_stress_ramp th)))))"

definition liquidity_multiplier :: "throttle \<Rightarrow> liquidity_snapshot \<Rightarrow> f64" where
  "liquidity_multiplier th snap =
     (if \<not> th_enabled th then Fin 1
      else
        let cycle_down = fmul (payday_stress th (ls_since snap)) (fadd (lit (10 / 100)) (fmul (lit (15 / 100)) (ls_sensitivity snap)));
            cycle_up = fmul (payday_relief th (ls_since snap)) (fadd (lit (4 / 100)) (fmul (lit (6 / 100)) (ls_sensitivity snap)));
            cycle_mult = std_clamp (fadd (fsub (Fin 1) cycle_down) cycle_up) (th_absolute_floor th) (lit (110 / 100));
            cash_ref = std_max (fmul (Fin 75) (ls_price_scale snap)) (ls_baseline snap);
            cash_ratio = std_clamp (fdiv (ls_available snap) cash_ref) (Fin 0) (Fin 2);
            cash_mult = std_clamp (fadd (lit (85 / 100)) (fmul (lit (15 / 100)) cash_ratio)) (Fin 0) (lit (110 / 100));
            burden_ratio = std_clamp (fdiv (ls_burden snap) cash_ref) (Fin 0) (Fin 2);
            burden_mult = std_max (lit (88 / 100)) (fsub (Fin 1) (fmul (lit (8 / 100)) burden_ratio))
        in std_clamp (fmul (fmul cycle_mult cash_mult) burden_mult) (th_absolute_floor th) liquidity_ceiling)"

subsection \<open>Instruments\<close>

definition max_deposit_instruments :: nat where "max_deposit_instruments = 3"
definition max_credit_instruments :: nat where "max_credit_instruments = 4"
definition instrument_zipf_alpha :: f64 where "instrument_zipf_alpha = lit (80 / 100)"

text \<open>The two regions of the parallel arrays, each with the ledger index of its keys.\<close>

record instrument_set =
  is_deposits :: "(key \<times> nat) list"
  is_credits :: "(key \<times> nat) list"

definition add_deposit :: "key \<Rightarrow> nat \<Rightarrow> instrument_set \<Rightarrow> bool \<times> instrument_set" where
  "add_deposit k idx s =
     (if max_deposit_instruments \<le> length (is_deposits s) then (False, s)
      else (True, s\<lparr>is_deposits := is_deposits s @ [(k, idx)]\<rparr>))"

definition add_credit :: "key \<Rightarrow> nat \<Rightarrow> instrument_set \<Rightarrow> bool \<times> instrument_set" where
  "add_credit k idx s =
     (if max_credit_instruments \<le> length (is_credits s) then (False, s)
      else (True, s\<lparr>is_credits := is_credits s @ [(k, idx)]\<rparr>))"

text \<open>Slot 0 of an empty deposit region is the default key with index 0, as the arrays are value-initialised.\<close>

definition default_instrument :: "key \<times> nat" where
  "default_instrument = (tx_source default_txn, 0)"

definition primary_deposit :: "instrument_set \<Rightarrow> key \<times> nat" where
  "primary_deposit s = (case is_deposits s of [] \<Rightarrow> default_instrument | d # _ \<Rightarrow> d)"

definition row_domain :: u64 where "row_domain = 0x494E5354000003"
definition rank_domain :: u64 where "rank_domain = 0x494E5354000002"

definition instrument_unit :: "nat \<Rightarrow> u64 \<Rightarrow> u64 \<Rightarrow> f64" where
  "instrument_unit person word domain =
     (let mixed = splitmix (domain XOR splitmix (of_nat person)) XOR (splitmix (word + fnv64_prime) * golden64)
      in fmul (f64_of_int (uint (drop_bit 11 (splitmix mixed)))) (lit (1 / 2 ^ 53)))"

definition instrument_weight :: "(f64 \<Rightarrow> f64 \<Rightarrow> f64) \<Rightarrow> nat \<Rightarrow> nat \<Rightarrow> f64 \<Rightarrow> key \<Rightarrow> f64" where
  "instrument_weight pow person n alpha k =
     (if n \<le> 1 then Fin 1
      else let u = instrument_unit person (ucast (ucast (key_number k) :: u32)) rank_domain
           in pow (fadd (Fin 1) (std_floor (fmul (f64_of_int (int n)) u))) (fneg alpha))"

text \<open>The scan subtracts weights from the target; the last slot takes what is left.\<close>

fun weight_slot :: "f64 list \<Rightarrow> f64 \<Rightarrow> nat \<Rightarrow> nat" where
  "weight_slot [] target slot = slot"
| "weight_slot [w] target slot = slot"
| "weight_slot (w # ws) target slot =
     (if flt (fsub target w) (Fin 0) then slot else weight_slot ws (fsub target w) (Suc slot))"

definition pick_instrument_slot :: "(f64 \<Rightarrow> f64 \<Rightarrow> f64) \<Rightarrow> key list \<Rightarrow> nat \<Rightarrow> u64 \<Rightarrow> f64 \<Rightarrow> nat" where
  "pick_instrument_slot pow region person salt alpha =
     (if length region \<le> 1 then 0
      else
        let ws = map (instrument_weight pow person (length region) alpha) region; s = foldl fadd (Fin 0) ws
        in if \<not> flt (Fin 0) s \<or> \<not> is_finite s then 0
           else weight_slot ws (fmul (instrument_unit person salt row_domain) s) 0)"

subsection \<open>Spenders\<close>

record burst_window =
  bw_start :: u32
  bw_length :: u16

definition no_burst_day :: u32 where "no_burst_day = -1"

definition burst_covers :: "burst_window \<Rightarrow> u32 \<Rightarrow> bool" where
  "burst_covers w day \<longleftrightarrow> bw_start w \<noteq> no_burst_day \<and> 0 < bw_length w \<and> bw_start w \<le> day \<and>
     day < bw_start w + ucast (bw_length w)"

text \<open>The sentinels \<open>kNoRetireDay\<close> and \<open>kNoDeathDay\<close> are \<open>None\<close>.\<close>

record spender =
  sx_person :: nat
  sx_index :: nat
  sx_instruments :: instrument_set
  sx_rate_mult :: f64
  sx_amount_mult :: f64
  sx_card_share :: f64
  sx_timing :: timing
  sx_explore_prop :: f64
  sx_bursts :: "burst_window list"
  sx_retire_day :: "nat option"
  sx_death_day :: "nat option"

record prepared_spender =
  ps_spender :: spender
  ps_paydays :: "u32 list"
  ps_initial_cash :: f64
  ps_baseline_cash :: f64
  ps_fixed_burden :: f64
  ps_sensitivity :: f64

definition retired_spend_scale :: f64 where "retired_spend_scale = lit (88 / 100)"

record spend_day =
  sd_index :: nat
  sd_start :: time_point
  sd_weekday :: int
  sd_weekend :: bool
  sd_shock :: f64

record day_frame =
  dm_day :: spend_day
  dm_weekday_mult :: f64
  dm_seasonal_mult :: f64

subsection \<open>Exploring\<close>

record explore_modifiers =
  em_weekend :: f64
  em_burst :: f64

text \<open>The scan over the windows, which are in day order.\<close>

fun in_burst :: "u32 \<Rightarrow> burst_window list \<Rightarrow> bool" where
  "in_burst day [] = False"
| "in_burst day (w # ws) = (if day < bw_start w then False else if burst_covers w day then True else in_burst day ws)"

definition calculate_explore_p :: "f64 \<Rightarrow> explore_modifiers \<Rightarrow> spender \<Rightarrow> spend_day \<Rightarrow> f64" where
  "calculate_explore_p base m s day =
     (let p = fmul base (fadd (Fin (1 / 4)) (fmul (Fin (3 / 4)) (sx_explore_prop s)));
          p = (if sd_weekend day then fmul p (em_weekend m) else p);
          p = (if in_burst (of_nat (sd_index day)) (sx_bursts s) then fmul p (em_burst m) else p)
      in std_clamp p (Fin 0) (Fin (1 / 2)))"

subsection \<open>The count of a day\<close>

record rates =
  ra_shape :: f64
  ra_weekend :: f64
  ra_cap :: int

text \<open>The samplers of \<open>primitives/random/distributions\<close> that a count needs.\<close>

record count_samplers =
  cs_gamma :: "f64 \<Rightarrow> f64 \<Rightarrow> rng \<Rightarrow> f64 \<times> rng"
  cs_poisson :: "f64 \<Rightarrow> rng \<Rightarrow> int \<times> rng"

definition gamma_poisson :: "count_samplers \<Rightarrow> rates \<Rightarrow> f64 \<Rightarrow> rng \<Rightarrow> int \<times> rng" where
  "gamma_poisson cs ra base_rate g =
     (if fle base_rate (Fin 0) then (0, g)
      else
        let (lam, g) = cs_gamma cs (ra_shape ra) (std_max (lit (1 / 10 ^ 12)) (fdiv base_rate (ra_shape ra))) g;
            (n, g) = cs_poisson cs lam g
        in (if 0 < ra_cap ra \<and> ra_cap ra < n then ra_cap ra else n, g))"

record rate_pieces =
  rp_base :: f64
  rp_weekday :: f64
  rp_dynamics :: f64
  rp_liquidity :: f64
  rp_shock :: f64

definition rate_suppression :: "rate_pieces \<Rightarrow> spender \<Rightarrow> f64" where
  "rate_suppression rp s =
     fmul (fmul (fmul (fmul (sx_rate_mult s) (rp_weekday rp)) (rp_shock rp)) (std_max (Fin 0) (rp_dynamics rp)))
       (count_factor (rp_liquidity rp))"

definition sample_transaction_count :: "count_samplers \<Rightarrow> rates \<Rightarrow> rate_pieces \<Rightarrow> nat option \<Rightarrow> spender \<Rightarrow> rng \<Rightarrow> nat \<times> rng" where
  "sample_transaction_count cs ra rp person_limit s g =
     (let rate = fmul (rp_base rp) (rate_suppression rp s)
      in if fle rate (Fin 0) then (0, g)
         else let (sampled, g) = gamma_poisson cs ra rate g; n = nat (max 0 sampled)
              in (case person_limit of None \<Rightarrow> n | Some m \<Rightarrow> min n m, g))"

subsection \<open>The channel of a row\<close>

datatype slot = SlMerchant | SlBill | SlP2p | SlExternal

record channel_cdf =
  ch0 :: f64
  ch1 :: f64
  ch2 :: f64
  ch3 :: f64

definition build_channel_cdf :: "f64 \<Rightarrow> f64 \<Rightarrow> f64 \<Rightarrow> f64 \<Rightarrow> channel_cdf" where
  "build_channel_cdf merchant bills p2p unknown_p =
     (let unknown = std_clamp unknown_p (Fin 0) (Fin 1);
          core_sum = fadd (fadd merchant bills) p2p;
          (core0, core1, core2, core_sum) =
            (if \<not> flt (Fin 0) core_sum then (Fin 1, Fin 1, Fin 1, Fin 3) else (merchant, bills, p2p, core_sum));
          scale = fdiv (fsub (Fin 1) unknown) core_sum;
          c0 = fmul core0 scale; c1 = fadd c0 (fmul core1 scale); c2 = fadd c1 (fmul core2 scale)
      in \<lparr>ch0 = c0, ch1 = c1, ch2 = c2, ch3 = fadd c2 unknown\<rparr>)"

definition pick_slot :: "channel_cdf \<Rightarrow> f64 \<Rightarrow> slot" where
  "pick_slot cdf u =
     (if flt u (ch0 cdf) then SlMerchant else if flt u (ch1 cdf) then SlBill else if flt u (ch2 cdf) then SlP2p else SlExternal)"

end
