(* ===== verification/Payments.thy ===== *)
theory Payments
  imports Spenders
begin

text \<open>
  The payment router (\<open>activity/spending/routing/router.hpp\<close>, \<open>payments.cpp\<close>): a proposal for a row of the
  drawn channel, a bill, a merchant purchase, a transfer to a contact or a remote payment.

  The market's views are the record \<open>market\<close>. The amount samplers and the hash-derived choices of
  \<open>math/amounts.hpp\<close>, \<open>commerce/affinity.hpp\<close>, \<open>gift_cards.hpp\<close>, \<open>local_pools.hpp\<close> and
  \<open>counterparties/remote_payees.hpp\<close> are arguments. Reading past the catalogue, or a null one, is the error
  \<open>Unmodelled\<close>.
\<close>

type_synonym catalog = "(key \<times> nat) list"

text \<open>The persona fields the spending simulator reads.\<close>

record persona =
  pz_rate_mult :: f64
  pz_amount_mult :: f64
  pz_card_share :: f64
  pz_timing :: timing
  pz_initial_balance :: f64
  pz_sensitivity :: f64

text \<open>Persons are counted from 1 (\<open>PersonId\<close>), rows from 0.\<close>

record market =
  mk_start :: time_point
  mk_days :: nat
  mk_count :: nat
  mk_primary :: "nat \<Rightarrow> key"
  mk_persona :: "nat \<Rightarrow> persona"
  mk_deposits :: "nat \<Rightarrow> key list"
  mk_cards :: "nat \<Rightarrow> key list"
  mk_retire :: "nat \<Rightarrow> nat option"
  mk_death :: "nat \<Rightarrow> nat option"
  mk_paydays :: "nat csr"
  mk_explore_prop :: "nat \<Rightarrow> f64"
  mk_bursts :: "nat \<Rightarrow> burst_window list"
  mk_home :: "nat \<Rightarrow> nat"
  mk_billers :: "nat csr"
  mk_favorites :: "nat csr"
  mk_contacts :: "nat csr"
  mk_biller_cdf :: "f64 list"
  mk_merch_cdf :: "f64 list"
  mk_catalog :: "catalog option"
  mk_geo_has :: "nat \<Rightarrow> bool"
  mk_geo_sample :: "nat \<Rightarrow> f64 \<Rightarrow> nat"

record payment_laws =
  py_bill :: "rng \<Rightarrow> f64 \<times> rng"
  py_external :: "rng \<Rightarrow> f64 \<times> rng"
  py_p2p :: "rng \<Rightarrow> f64 \<times> rng"
  py_merchant :: "nat \<Rightarrow> rng \<Rightarrow> f64 \<times> rng"
  py_gift_card :: "nat \<Rightarrow> key \<Rightarrow> i64 \<Rightarrow> nat \<Rightarrow> f64 option"
  py_favorite_slot :: "nat list \<Rightarrow> nat \<Rightarrow> f64 \<Rightarrow> catalog option \<Rightarrow> nat"
  py_check_uniform :: "nat \<Rightarrow> i64 \<Rightarrow> f64"
  py_check_fraction :: "int \<Rightarrow> f64 \<Rightarrow> f64"
  py_remote_pick :: "catalog \<Rightarrow> nat \<Rightarrow> i64 \<Rightarrow> nat option"
  py_check_bank :: "nat \<Rightarrow> i64 \<Rightarrow> key"
  py_p2p_platform :: "nat \<Rightarrow> key"
  py_pow :: "f64 \<Rightarrow> f64 \<Rightarrow> f64"

record routing_rules =
  rr_known_billers_p :: f64
  rr_merchant_retries :: nat

record prepared_routing =
  ro_cdf :: channel_cdf
  ro_rules :: routing_rules
  ro_person_idx :: "nat list"
  ro_merchant_idx :: "nat list"
  ro_slot_share :: f64

text \<open>\<open>actors::Event\<close>.\<close>

record spend_event =
  vt_spender :: spender
  vt_ts :: time_point
  vt_explore_p :: f64
  vt_cash :: f64
  vt_cards :: "f64 list"
  vt_amount_factor :: f64
  vt_price :: f64
  vt_consumption :: f64

record emission_result =
  er_draft :: draft
  er_src :: nat
  er_dst :: nat

text \<open>What every proposal is drawn with.\<close>

record payment_env =
  pe_market :: market
  pe_laws :: payment_laws
  pe_routing :: prepared_routing

definition index_at :: "nat list \<Rightarrow> nat \<Rightarrow> nat" where
  "index_at ixs i = (if i < length ixs then ixs ! i else invalid_index)"

definition catalog_at :: "market \<Rightarrow> nat \<Rightarrow> (key \<times> nat) result" where
  "catalog_at m i =
     (case mk_catalog m of
        None \<Rightarrow> Inl (Unmodelled ''a null catalogue is read'')
      | Some c \<Rightarrow> if i < length c then Inr (c ! i) else Inl (Unmodelled ''a record past the catalogue is read''))"

definition spend_draft :: "key \<Rightarrow> key \<Rightarrow> f64 \<Rightarrow> time_point \<Rightarrow> tag \<Rightarrow> draft" where
  "spend_draft src dst amount ts ch =
     \<lparr>df_source = src, df_destination = dst, df_amount = amount, df_time = ts, df_fraud = 0, df_ring = -1,
      df_channel = ch, df_chain = -1\<rparr>"

definition amount_floor :: f64 where "amount_floor = Fin 1"
definition cash_cushion_multiple :: f64 where "cash_cushion_multiple = Fin (3 / 2)"
definition card_present_share :: f64 where "card_present_share = lit (89 / 100)"

definition event_scales :: "spend_event \<Rightarrow> f64 \<Rightarrow> f64" where
  "event_scales ev x = fmul (fmul (fmul x (vt_amount_factor ev)) (vt_price ev)) (vt_consumption ev)"

subsection \<open>Bills\<close>

definition emit_bill :: "payment_env \<Rightarrow> spend_event \<Rightarrow> rng \<Rightarrow> (emission_result \<times> rng) result option" where
  "emit_bill env ev g =
     (let m = pe_market env; s = vt_spender ev; row = row_of (sx_index s) (mk_billers m);
          (known, g) = (if row = [] then (False, g) else coin (rr_known_billers_p (ro_rules (pe_routing env))) g)
      in bind_run
           (if known
            then bind_run (to_run (choice_index (length row) g)) (\<lambda>(slot, g). Some (Inr (row ! slot, g)))
            else let (u, g) = next_double g
                 in bind_run (Some (sample_index (mk_biller_cdf m) u)) (\<lambda>i. Some (Inr (i, g))))
           (\<lambda>(biller, g).
         bind_run (Some (catalog_at m biller)) (\<lambda>(dst, _).
           let (x, g) = py_bill (pe_laws env) g;
               (src, src_idx) = primary_deposit (sx_instruments s)
           in Some (Inr (\<lparr>er_draft = spend_draft src dst (floor_and_round (event_scales ev x) amount_floor) (vt_ts ev)
                            (tag_of (Legit LegBill)),
                          er_src = src_idx, er_dst = index_at (ro_merchant_idx (pe_routing env)) biller\<rparr>, g)))))"

subsection \<open>Remote payments\<close>

definition external_draft :: "payment_env \<Rightarrow> spend_event \<Rightarrow> key \<Rightarrow> rng \<Rightarrow> emission_result \<times> rng" where
  "external_draft env ev dst g =
     (let (x, g) = py_external (pe_laws env) g;
          (src, src_idx) = primary_deposit (sx_instruments (vt_spender ev))
      in (\<lparr>er_draft = spend_draft src dst (floor_and_round (event_scales ev x) amount_floor) (vt_ts ev)
             (tag_of (Legit LegExternalUnknown)),
           er_src = src_idx, er_dst = invalid_index\<rparr>, g))"

definition emit_external :: "payment_env \<Rightarrow> spend_event \<Rightarrow> rng \<Rightarrow> (emission_result \<times> rng) result option" where
  "emit_external env ev g =
     (let laws = pe_laws env; person = sx_person (vt_spender ev); ts = vt_ts ev;
          check = flt (py_check_uniform laws person ts)
            (py_check_fraction laws (cd_year (to_calendar_date ts)) (ro_slot_share (pe_routing env)));
          pick = (if check then None else Option.bind (mk_catalog (pe_market env)) (\<lambda>c. py_remote_pick laws c person ts))
      in case pick of
           Some i \<Rightarrow> bind_run (Some (catalog_at (pe_market env) i)) (\<lambda>(dst, _). Some (Inr (external_draft env ev dst g)))
         | None \<Rightarrow> Some (Inr (external_draft env ev (py_check_bank laws person ts) g)))"

subsection \<open>Transfers to a contact\<close>

definition emit_no_contact_p2p :: "payment_env \<Rightarrow> spend_event \<Rightarrow> rng \<Rightarrow> emission_result \<times> rng" where
  "emit_no_contact_p2p env ev g = external_draft env ev (py_p2p_platform (pe_laws env) (sx_person (vt_spender ev))) g"

definition emit_p2p :: "payment_env \<Rightarrow> spend_event \<Rightarrow> rng \<Rightarrow> (emission_result \<times> rng) result option" where
  "emit_p2p env ev g =
     (let m = pe_market env; s = vt_spender ev; row = row_of (sx_index s) (mk_contacts m)
      in if row = [] then Some (Inr (emit_no_contact_p2p env ev g))
         else bind_run (to_run (choice_index (length row) g)) (\<lambda>(slot, g).
           let contact = row ! slot
           in if mk_count m \<le> contact then Some (Inr (emit_no_contact_p2p env ev g))
              else
                let dst = mk_primary m (contact + 1); (src, src_idx) = primary_deposit (sx_instruments s)
                in if \<not> valid_key dst \<or> dst = src then Some (Inr (emit_no_contact_p2p env ev g))
                   else
                     let (x, g) = py_p2p (pe_laws env) g
                     in Some (Inr (\<lparr>er_draft = spend_draft src dst
                            (floor_and_round (fmul (fmul (fmul (fmul x (sx_amount_mult s)) (vt_amount_factor ev)) (vt_price ev))
                               (vt_consumption ev)) amount_floor)
                            (vt_ts ev) (tag_of (Legit LegP2p)),
                          er_src = src_idx, er_dst = index_at (ro_person_idx (pe_routing env)) contact\<rparr>, g))))"

subsection \<open>Purchases\<close>

definition deposit_route :: "payment_laws \<Rightarrow> spender \<Rightarrow> u64 \<Rightarrow> key \<times> nat \<times> tag" where
  "deposit_route laws s salt =
     (let region = is_deposits (sx_instruments s);
          slot = pick_instrument_slot (py_pow laws) (map fst region) (sx_index s) salt instrument_zipf_alpha;
          (k, idx) = (if slot < length region then region ! slot else default_instrument)
      in (k, idx, tag_of (Legit LegMerchant)))"

definition select_payment_route ::
    "payment_laws \<Rightarrow> rng \<Rightarrow> spender \<Rightarrow> u64 \<Rightarrow> f64 \<Rightarrow> f64 list \<Rightarrow> f64 \<Rightarrow> (key \<times> nat \<times> tag) \<times> rng" where
  "select_payment_route laws g s salt cash credit amount =
     (let credits = is_credits (sx_instruments s)
      in if credits = [] then (deposit_route laws s salt, g)
         else
           let slot = pick_instrument_slot (py_pow laws) (map fst credits) (sx_index s) salt instrument_zipf_alpha;
               available = (if slot < length credit then credit ! slot else Fin 0);
               room = fle amount available;
               (k, idx) = credits ! slot;
               card_leg = (k, idx, tag_of (Legit LegCardPurchase));
               (by_card, g) = coin (sx_card_share s) g
           in if by_card then ((if room then card_leg else deposit_route laws s salt), g)
              else if flt cash (fmul amount cash_cushion_multiple) \<and> room then (card_leg, g)
              else (deposit_route laws s salt, g))"

definition draw_pick :: "market \<Rightarrow> nat option \<Rightarrow> rng \<Rightarrow> (nat \<times> rng) result" where
  "draw_pick m local_area g =
     (let (u, g) = next_double g
      in case local_area of
           Some area \<Rightarrow> Inr (mk_geo_sample m area u, g)
         | None \<Rightarrow> bind_result (sample_index (mk_merch_cdf m) u) (\<lambda>i. Inr (i, g)))"

text \<open>The loop that draws again while the pick is a favourite.\<close>

fun retry_pick :: "market \<Rightarrow> nat option \<Rightarrow> nat list \<Rightarrow> nat \<Rightarrow> nat \<Rightarrow> rng \<Rightarrow> (nat \<times> rng) result" where
  "retry_pick m local_area favs 0 pick g = Inr (pick, g)"
| "retry_pick m local_area favs (Suc n) pick g =
     (if pick \<notin> set favs then Inr (pick, g)
      else bind_result (draw_pick m local_area g) (\<lambda>(pick, g). retry_pick m local_area favs n pick g))"

definition pick_merchant_index :: "payment_env \<Rightarrow> spender \<Rightarrow> f64 \<Rightarrow> rng \<Rightarrow> (nat \<times> rng) result" where
  "pick_merchant_index env s explore_p g =
     (let m = pe_market env; favs = row_of (sx_index s) (mk_favorites m); (exploring, g) = coin explore_p g
      in if \<not> exploring \<and> favs \<noteq> []
         then let (u, g) = next_double g
              in Inr (favs ! py_favorite_slot (pe_laws env) favs (sx_index s) u (mk_catalog m), g)
         else
           let (present, g) = coin card_present_share g; home = mk_home m (sx_person s);
               local_area = (if present \<and> mk_geo_has m home then Some home else None)
           in bind_result (draw_pick m local_area g) (\<lambda>(pick, g).
                if favs = [] then Inr (pick, g)
                else retry_pick m local_area favs (rr_merchant_retries (ro_rules (pe_routing env))) pick g))"

definition emit_merchant :: "payment_env \<Rightarrow> spend_event \<Rightarrow> rng \<Rightarrow> (emission_result option \<times> rng) result option" where
  "emit_merchant env ev g =
     (let m = pe_market env; laws = pe_laws env; s = vt_spender ev; ts = vt_ts ev
      in if mk_catalog m = None then Some (Inr (None, g))
         else
           bind_run (Some (pick_merchant_index env s (vt_explore_p ev) g)) (\<lambda>(merchant, g).
           bind_run (Some (catalog_at m merchant)) (\<lambda>(dst, category).
             let (x, g) = py_merchant laws category g;
                 raw = fmul (fmul (fmul (fmul x (sx_amount_mult s)) (vt_amount_factor ev)) (vt_price ev)) (vt_consumption ev);
                 amount = (case py_gift_card laws (sx_person s) dst ts category of
                             Some v \<Rightarrow> v | None \<Rightarrow> floor_and_round raw amount_floor);
                 ((src, src_idx, ch), g) = select_payment_route laws g s (word_of_int ts) (vt_cash ev) (vt_cards ev) amount
             in Some (Inr (Some \<lparr>er_draft = spend_draft src dst amount ts ch, er_src = src_idx,
                                 er_dst = index_at (ro_merchant_idx (pe_routing env)) merchant\<rparr>, g)))))"

definition route_payment :: "payment_env \<Rightarrow> slot \<Rightarrow> spend_event \<Rightarrow> rng \<Rightarrow> (emission_result option \<times> rng) result option" where
  "route_payment env sl ev g =
     (case sl of
        SlMerchant \<Rightarrow> emit_merchant env ev g
      | SlBill \<Rightarrow> bind_run (emit_bill env ev g) (\<lambda>(r, g). Some (Inr (Some r, g)))
      | SlP2p \<Rightarrow> bind_run (emit_p2p env ev g) (\<lambda>(r, g). Some (Inr (Some r, g)))
      | SlExternal \<Rightarrow> bind_run (emit_external env ev g) (\<lambda>(r, g). Some (Inr (Some r, g))))"

end
