(* ===== verification/Dynamics.thy ===== *)
theory Dynamics
  imports Payments
begin

text \<open>
  The frame of a day (\<open>actors/day.cpp\<close>, \<open>day_source.cpp\<close>, \<open>math/seasonal.hpp\<close>, \<open>math/counts.hpp\<close>) and the
  behaviour of the population from day to day (\<open>math/momentum.hpp\<close>, \<open>dormancy.hpp\<close>, \<open>paycheck.hpp\<close>,
  \<open>dynamics/\<close>, \<open>population_dynamics.cpp\<close>). The normal and gamma samplers are arguments.
  The loops over the cohort are \<open>noexcept\<close>: an error of the model is there a call of \<open>std::terminate\<close>.
\<close>

subsection \<open>Momentum\<close>

record momentum_config =
  mc_phi :: f64
  mc_sigma :: f64
  mc_floor :: f64
  mc_ceiling :: f64

text \<open>\<open>State::advance\<close>; the state is its value, and the value is returned.\<close>

definition momentum_advance :: "(f64 \<Rightarrow> f64 \<Rightarrow> rng \<Rightarrow> f64 \<times> rng) \<Rightarrow> momentum_config \<Rightarrow> f64 \<Rightarrow> rng \<Rightarrow> f64 \<times> rng" where
  "momentum_advance normal c v g =
     (let revert = fadd (fmul (mc_phi c) v) (fsub (Fin 1) (mc_phi c));
          (eps, g) = (if flt (Fin 0) (mc_sigma c) then normal (Fin 0) (mc_sigma c) g else (Fin 0, g))
      in (std_clamp (fadd revert eps) (mc_floor c) (mc_ceiling c), g))"

subsection \<open>Dormancy\<close>

datatype phase = PhActive | PhDormant | PhWaking

record dormancy_config =
  dc_enter_p :: f64
  dc_duration_min :: int
  dc_duration_max :: int
  dc_wake_min :: int
  dc_wake_max :: int
  dc_rate :: f64

record dormancy =
  do_phase :: phase
  do_remaining :: u8
  do_wake_total :: u8

definition dormancy_new :: dormancy where
  "dormancy_new = \<lparr>do_phase = PhActive, do_remaining = 0, do_wake_total = 0\<rparr>"

definition dormancy_rate :: "dormancy_config \<Rightarrow> dormancy \<Rightarrow> f64" where
  "dormancy_rate c s =
     (case do_phase s of
        PhActive \<Rightarrow> Fin 1
      | PhDormant \<Rightarrow> dc_rate c
      | PhWaking \<Rightarrow>
          if do_wake_total s = 0 then Fin 1
          else
            let progress = fsub (Fin 1) (fdiv (f64_of_int (uint (do_remaining s))) (f64_of_int (uint (do_wake_total s))));
                clamped = std_clamp progress (Fin 0) (Fin 1)
            in fadd (dc_rate c) (fmul clamped (fsub (Fin 1) (dc_rate c))))"

text \<open>\<open>State::advance\<close> returns the multiplier of the day before the step.\<close>

definition dormancy_step :: "dormancy_config \<Rightarrow> dormancy \<Rightarrow> rng \<Rightarrow> (dormancy \<times> rng) result option" where
  "dormancy_step c s g =
     (case do_phase s of
        PhActive \<Rightarrow>
          let (enter, g) = coin (dc_enter_p c) g
          in if enter
             then bind_run (draw_int (dc_duration_min c) (dc_duration_max c + 1) g) (\<lambda>(n, g).
                    Some (Inr (s\<lparr>do_phase := PhDormant, do_remaining := word_of_int n\<rparr>, g)))
             else Some (Inr (s, g))
      | PhDormant \<Rightarrow>
          let left = (if 0 < do_remaining s then do_remaining s - 1 else do_remaining s)
          in if left = 0
             then bind_run (draw_int (dc_wake_min c) (dc_wake_max c + 1) g) (\<lambda>(n, g).
                    Some (Inr (s\<lparr>do_phase := PhWaking, do_wake_total := word_of_int n, do_remaining := word_of_int n\<rparr>, g)))
             else Some (Inr (s\<lparr>do_remaining := left\<rparr>, g))
      | PhWaking \<Rightarrow>
          let left = (if 0 < do_remaining s then do_remaining s - 1 else do_remaining s)
          in Some (Inr (if left = 0 then s\<lparr>do_phase := PhActive, do_remaining := left, do_wake_total := 0\<rparr>
                        else s\<lparr>do_remaining := left\<rparr>, g)))"

definition dormancy_advance :: "dormancy_config \<Rightarrow> dormancy \<Rightarrow> rng \<Rightarrow> (f64 \<times> dormancy \<times> rng) result option" where
  "dormancy_advance c s g =
     bind_run (dormancy_step c s g) (\<lambda>(s', g). Some (Inr (dormancy_rate c s, s', g)))"

subsection \<open>The paycheck boost\<close>

record paycheck_config =
  kc_enabled :: bool
  kc_max_boost :: f64
  kc_active_days :: int

record paycheck =
  ky_boost :: f64
  ky_decay :: f64
  ky_days_left :: int

definition paycheck_new :: paycheck where
  "paycheck_new = \<lparr>ky_boost = Fin 0, ky_decay = Fin 0, ky_days_left = 0\<rparr>"

definition boost_for :: "paycheck_config \<Rightarrow> f64 \<Rightarrow> f64" where
  "boost_for c sensitivity =
     (if \<not> kc_enabled c then Fin 0 else fmul (std_clamp sensitivity (Fin 0) (Fin 1)) (kc_max_boost c))"

definition paycheck_trigger :: "f64 \<Rightarrow> paycheck_config \<Rightarrow> paycheck \<Rightarrow> paycheck" where
  "paycheck_trigger new_boost c s =
     (let effective = std_max (Fin 0) new_boost
      in if fle effective (Fin 0) then s
         else let b = std_max (ky_boost s) effective
              in \<lparr>ky_boost = b, ky_decay = fdiv b (f64_of_int (kc_active_days c)), ky_days_left = kc_active_days c\<rparr>)"

definition paycheck_advance :: "paycheck \<Rightarrow> f64 \<times> paycheck" where
  "paycheck_advance s =
     (if ky_days_left s \<le> 0 \<or> fle (ky_boost s) (Fin 0) then (Fin 1, paycheck_new)
      else
        let s' = s\<lparr>ky_days_left := ky_days_left s - 1, ky_boost := std_max (Fin 0) (fsub (ky_boost s) (ky_decay s))\<rparr>
        in (fadd (Fin 1) (ky_boost s), if ky_days_left s' \<le> 0 then paycheck_new else s'))"

subsection \<open>The cohort\<close>

record drivers =
  dw_momentum :: momentum_config
  dw_dormancy :: dormancy_config
  dw_paycheck :: paycheck_config

record cohort =
  co_momentum :: "f64 list"
  co_dormancy :: "dormancy list"
  co_paycheck :: "paycheck list"

definition cohort_new :: "nat \<Rightarrow> cohort" where
  "cohort_new n = \<lparr>co_momentum = replicate n (Fin 1), co_dormancy = replicate n dormancy_new,
     co_paycheck = replicate n paycheck_new\<rparr>"

text \<open>The \<open>accumulate\<close> loops: every state is advanced in order and its multiplier multiplied in.\<close>

fun accumulate_momentum :: "(f64 \<Rightarrow> f64 \<Rightarrow> rng \<Rightarrow> f64 \<times> rng) \<Rightarrow> momentum_config \<Rightarrow> f64 list \<Rightarrow> f64 list \<Rightarrow> rng \<Rightarrow>
    f64 list \<times> f64 list \<times> rng" where
  "accumulate_momentum normal c (v # vs) (m # ms) g =
     (let (v, g) = momentum_advance normal c v g; (vs, ms, g) = accumulate_momentum normal c vs ms g
      in (v # vs, fmul m v # ms, g))"
| "accumulate_momentum normal c vs ms g = (vs, ms, g)"

fun accumulate_dormancy :: "dormancy_config \<Rightarrow> dormancy list \<Rightarrow> f64 list \<Rightarrow> rng \<Rightarrow>
    (dormancy list \<times> f64 list \<times> rng) result option" where
  "accumulate_dormancy c (s # ss) (m # ms) g =
     bind_run (dormancy_advance c s g) (\<lambda>(x, s, g).
     bind_run (accumulate_dormancy c ss ms g) (\<lambda>(ss, ms, g). Some (Inr (s # ss, fmul m x # ms, g))))"
| "accumulate_dormancy c ss ms g = Some (Inr (ss, ms, g))"

fun accumulate_paycheck :: "paycheck list \<Rightarrow> f64 list \<Rightarrow> paycheck list \<times> f64 list" where
  "accumulate_paycheck (s # ss) (m # ms) =
     (let (x, s) = paycheck_advance s; (ss, ms) = accumulate_paycheck ss ms in (s # ss, fmul m x # ms))"
| "accumulate_paycheck ss ms = (ss, ms)"

definition trigger_paydays :: "paycheck_config \<Rightarrow> f64 list \<Rightarrow> nat list \<Rightarrow> paycheck list \<Rightarrow> paycheck list" where
  "trigger_paydays c sensitivities =
     fold (\<lambda>p ss. ss[p := paycheck_trigger (boost_for c (sensitivities ! p)) c (ss ! p)])"

text \<open>\<open>Cohort::advanceAll\<close> with the multipliers of the day.\<close>

definition advance_all :: "(f64 \<Rightarrow> f64 \<Rightarrow> rng \<Rightarrow> f64 \<times> rng) \<Rightarrow> drivers \<Rightarrow> f64 list \<Rightarrow> nat list \<Rightarrow> cohort \<Rightarrow> rng \<Rightarrow>
    (f64 list \<times> cohort \<times> rng) result option" where
  "advance_all normal d sensitivities persons co g =
     (let mults = replicate (length sensitivities) (Fin 1);
          (vs, mults, g) = accumulate_momentum normal (dw_momentum d) (co_momentum co) mults g
      in bind_run (accumulate_dormancy (dw_dormancy d) (co_dormancy co) mults g) (\<lambda>(ss, mults, g).
           let (ps, mults) = accumulate_paycheck (trigger_paydays (dw_paycheck d) sensitivities persons (co_paycheck co)) mults
           in Some (Inr (mults, \<lparr>co_momentum = vs, co_dormancy = ss, co_paycheck = ps\<rparr>, g))))"

subsection \<open>The frame of a day\<close>

definition monthly_raw :: "f64 list" where
  "monthly_raw = map (\<lambda>i. lit (rat_of_nat i / 100)) [0, 94, 96, 102, 101, 100, 99, 98, 103, 101, 100, 105, 115]"

definition monthly_table :: "f64 list" where
  "monthly_table =
     (let mean = fdiv (foldl fadd (Fin 0) (drop 1 monthly_raw)) (Fin 12)
      in if fle mean (Fin 0) then monthly_raw
         else let scale = fdiv (Fin 1) mean in Fin 0 # map (\<lambda>x. fmul x scale) (drop 1 monthly_raw))"

record seasonal_config =
  sg_enabled :: bool
  sg_intensity :: f64

definition monthly_multiplier :: "seasonal_config \<Rightarrow> int \<Rightarrow> f64" where
  "monthly_multiplier c month =
     (if \<not> sg_enabled c \<or> month < 1 \<or> 12 < month then Fin 1
      else fadd (Fin 1) (fmul (fsub (monthly_table ! nat month) (Fin 1)) (sg_intensity c)))"

definition daily_multiplier :: "seasonal_config \<Rightarrow> time_point \<Rightarrow> f64" where
  "daily_multiplier c day = monthly_multiplier c (cd_month (to_calendar_date day))"

definition default_rates :: rates where
  "default_rates = \<lparr>ra_shape = Fin (3 / 2), ra_weekend = lit (8 / 10), ra_cap = 0\<rparr>"

definition weekday_multiplier :: "rates \<Rightarrow> time_point \<Rightarrow> f64" where
  "weekday_multiplier ra day = (if is_weekend day then ra_weekend ra else Fin 1)"

definition build_day :: "(f64 \<Rightarrow> f64 \<Rightarrow> rng \<Rightarrow> f64 \<times> rng) \<Rightarrow> time_point \<Rightarrow> f64 \<Rightarrow> rng \<Rightarrow> nat \<Rightarrow> spend_day \<times> rng" where
  "build_day gamma w_start shape g i =
     (let start = add_days w_start (int i); safe = std_max (lit (1 / 10 ^ 6)) shape;
          (shock, g) = gamma safe (fdiv (Fin 1) safe) g
      in (\<lparr>sd_index = i, sd_start = start, sd_weekday = weekday start, sd_weekend = is_weekend start, sd_shock = shock\<rparr>, g))"

definition build_frame :: "(f64 \<Rightarrow> f64 \<Rightarrow> rng \<Rightarrow> f64 \<times> rng) \<Rightarrow> f64 \<Rightarrow> seasonal_config \<Rightarrow> time_point \<Rightarrow> rng \<Rightarrow> nat \<Rightarrow> day_frame \<times> rng" where
  "build_frame gamma shape seasonal w_start g i =
     (let (day, g) = build_day gamma w_start shape g i
      in (\<lparr>dm_day = day, dm_weekday_mult = weekday_multiplier default_rates (sd_start day),
           dm_seasonal_mult = daily_multiplier seasonal (sd_start day)\<rparr>, g))"

text \<open>The day on which the market evolves.\<close>

definition is_month_boundary :: "nat \<Rightarrow> time_point \<Rightarrow> bool" where
  "is_month_boundary i w_start =
     (if i = 0 then False
      else let prev = to_calendar_date (add_days w_start (int i - 1)); curr = to_calendar_date (add_days w_start (int i))
           in cd_month curr \<noteq> cd_month prev \<or> cd_year curr \<noteq> cd_year prev)"

end
