(* ===== verification/Planner.thy ===== *)
theory Planner
  imports Dynamics
begin

text \<open>
  What a run prepares before its first day: the spenders (\<open>spenders/prepare.cpp\<close>, \<open>targets.cpp\<close>) and the plan
  with its budget, payday index and routing tables (\<open>simulator/run_planner.cpp\<close>). The era's price scale
  (\<open>synth/econ/nominal.hpp\<close>) is an argument.
\<close>

subsection \<open>The spenders\<close>

definition baseline_cash_floor :: f64 where "baseline_cash_floor = Fin 150"

definition resolve_index :: "ledger option \<Rightarrow> key \<Rightarrow> nat" where
  "resolve_index bk k = (case bk of None \<Rightarrow> invalid_index | Some l \<Rightarrow> find_account l k)"

text \<open>The two loops over a person's accounts: invalid keys are skipped, a full region ends the loop.\<close>

fun add_deposits :: "ledger option \<Rightarrow> key list \<Rightarrow> instrument_set \<Rightarrow> instrument_set" where
  "add_deposits bk [] s = s"
| "add_deposits bk (k # ks) s =
     (if \<not> valid_key k then add_deposits bk ks s
      else case add_deposit k (resolve_index bk k) s of (ok, s') \<Rightarrow> if ok then add_deposits bk ks s' else s)"

fun add_credits :: "ledger option \<Rightarrow> key list \<Rightarrow> instrument_set \<Rightarrow> instrument_set" where
  "add_credits bk [] s = s"
| "add_credits bk (k # ks) s =
     (if \<not> valid_key k then add_credits bk ks s
      else case add_credit k (resolve_index bk k) s of (ok, s') \<Rightarrow> if ok then add_credits bk ks s' else s)"

definition build_spender :: "market \<Rightarrow> ledger option \<Rightarrow> nat \<Rightarrow> nat \<Rightarrow> spender" where
  "build_spender m bk person i =
     (let z = mk_persona m person
      in \<lparr>sx_person = person, sx_index = i,
          sx_instruments = add_credits bk (mk_cards m person)
            (add_deposits bk (mk_deposits m person) \<lparr>is_deposits = [], is_credits = []\<rparr>),
          sx_rate_mult = pz_rate_mult z, sx_amount_mult = pz_amount_mult z, sx_card_share = pz_card_share z,
          sx_timing = pz_timing z, sx_explore_prop = mk_explore_prop m i, sx_bursts = mk_bursts m i,
          sx_retire_day = mk_retire m person, sx_death_day = mk_death m person\<rparr>)"

text \<open>\<open>obligations::Snapshot\<close>: the burden of every person and the base rows.\<close>

record obligations =
  ob_burden :: "f64 list"
  ob_base :: "txn list"

definition prepare_spender :: "(int \<Rightarrow> f64) \<Rightarrow> market \<Rightarrow> obligations \<Rightarrow> ledger option \<Rightarrow> nat \<Rightarrow> prepared_spender" where
  "prepare_spender price m ob bk i =
     (let stock = price (cd_year (to_calendar_date (mk_start m))); person = i + 1; z = mk_persona m person;
          cash = fmul (pz_initial_balance z) stock
      in \<lparr>ps_spender = build_spender m bk person i, ps_paydays = map of_nat (person_view i (mk_paydays m)),
          ps_initial_cash = cash, ps_baseline_cash = std_max (fmul baseline_cash_floor stock) cash,
          ps_fixed_burden = (if i < length (ob_burden ob) then ob_burden ob ! i else Fin 0),
          ps_sensitivity = pz_sensitivity z\<rparr>)"

definition prepare_spenders :: "(int \<Rightarrow> f64) \<Rightarrow> market \<Rightarrow> obligations \<Rightarrow> ledger option \<Rightarrow> prepared_spender list" where
  "prepare_spenders price m ob bk =
     map (prepare_spender price m ob bk) (filter (\<lambda>i. valid_key (mk_primary m (i + 1))) [0..<mk_count m])"

definition total_target_txns :: "f64 \<Rightarrow> nat \<Rightarrow> nat \<Rightarrow> f64" where
  "total_target_txns per_month spenders days =
     fmul (fmul per_month (f64_of_int (int spenders))) (fdiv (f64_of_int (int days)) (Fin 30))"

subsection \<open>The plan\<close>

record transaction_load =
  tl_per_month :: f64
  tl_daily_limit :: nat

record budget =
  bu_target :: f64
  bu_person_days :: nat
  bu_limit :: "nat option"

definition build_budget :: "transaction_load \<Rightarrow> nat \<Rightarrow> nat \<Rightarrow> budget" where
  "build_budget load active days =
     \<lparr>bu_target = total_target_txns (tl_per_month load) active days, bu_person_days = active * days,
      bu_limit = (if 0 < tl_daily_limit load then Some (tl_daily_limit load) else None)\<rparr>"

definition person_indices :: "market \<Rightarrow> ledger \<Rightarrow> nat list" where
  "person_indices m l =
     map (\<lambda>i. let k = mk_primary m (i + 1) in if valid_key k then find_account l k else invalid_index) [0..<mk_count m]"

definition merchant_indices :: "market \<Rightarrow> ledger \<Rightarrow> nat list" where
  "merchant_indices m l = (case mk_catalog m of None \<Rightarrow> [] | Some c \<Rightarrow> map (\<lambda>(k, _). find_account l k) c)"

record channel_weights =
  wt_merchant :: f64
  wt_bills :: f64
  wt_p2p :: f64
  wt_unknown :: f64

definition prepare_routing :: "market \<Rightarrow> ledger option \<Rightarrow> channel_weights \<Rightarrow> routing_rules \<Rightarrow> prepared_routing" where
  "prepare_routing m bk w rules =
     (let cdf = build_channel_cdf (wt_merchant w) (wt_bills w) (wt_p2p w) (wt_unknown w)
      in \<lparr>ro_cdf = cdf, ro_rules = rules,
          ro_person_idx = (case bk of None \<Rightarrow> [] | Some l \<Rightarrow> person_indices m l),
          ro_merchant_idx = (case bk of None \<Rightarrow> [] | Some l \<Rightarrow> merchant_indices m l),
          ro_slot_share = fsub (ch3 cdf) (ch2 cdf)\<rparr>)"

record spend_plan =
  sp_spenders :: "prepared_spender list"
  sp_budget :: budget
  sp_routing :: prepared_routing

record planner =
  pn_load :: transaction_load
  pn_channels :: channel_weights
  pn_rules :: routing_rules

text \<open>\<open>RunPlanner::build\<close>: the part the emission reads and the part the day driver reads.\<close>

definition planner_build :: "(int \<Rightarrow> f64) \<Rightarrow> planner \<Rightarrow> market \<Rightarrow> obligations \<Rightarrow> ledger option \<Rightarrow> spend_plan \<times> prepared_run" where
  "planner_build price pn m ob bk =
     (let spenders = prepare_spenders price m ob bk;
          bu = build_budget (pn_load pn) (length spenders) (mk_days m)
      in (\<lparr>sp_spenders = spenders, sp_budget = bu, sp_routing = prepare_routing m bk (pn_channels pn) (pn_rules pn)\<rparr>,
          \<lparr>pr_base = ob_base ob, pr_paydays = payday_index_build (mk_paydays m) (mk_days m), pr_persons = mk_count m,
           pr_person_days = bu_person_days bu, pr_target = bu_target bu,
           pr_spenders = map (\<lambda>p. (sx_index (ps_spender p), ps_paydays p)) spenders\<rparr>))"

end
