(* ===== verification/Emission.thy ===== *)
theory Emission
  imports Planner Workers
begin

text \<open>
  The emission of a day's rows (\<open>simulator/loop.hpp\<close>, \<open>loop.cpp\<close>, \<open>gate.hpp\<close>,
  \<open>spender_emission_driver.cpp\<close>): every spender proposes rows against the ledger as it stands at the start of
  the day, the workers' buffers are merged, and the whole day is settled in replay order; and the engine a
  simulated run is made of, with the monthly evolution, the day frames and the population's dynamics.

  A worker owns the generators of its spenders and its own buffers, and a person's sticky endpoints are only
  used for that person's rows, so the bodies are run one after the other in the order of the workers. The day's
  buffers \<open>dayTransactions_\<close> and \<open>dayPostings_\<close> are empty between calls and local here. Diagnostics are left
  out. The remaining person-days and target are relaxed atomic counters that nothing reads.
\<close>

record emission_config =
  ec_base_explore :: f64
  ec_explore :: explore_modifiers
  ec_throttle :: throttle
  ec_rates :: rates
  ec_samplers :: count_samplers
  ec_laws :: payment_laws
  ec_ring :: "shared_infra option"
  ec_threads :: nat
  ec_seed :: "u64 option"
  ec_price :: "int \<Rightarrow> f64"
  ec_real_level :: "int \<Rightarrow> f64"
  ec_planner :: planner
  ec_obligations :: obligations
  ec_drivers :: drivers
  ec_normal :: "f64 \<Rightarrow> f64 \<Rightarrow> rng \<Rightarrow> f64 \<times> rng"
  ec_shape :: f64
  ec_seasonal :: seasonal_config
  ec_evolve :: "i64 \<Rightarrow> market \<Rightarrow> market"

subsection \<open>The gate\<close>

definition gate_decide :: "ledger option \<Rightarrow> nat \<Rightarrow> nat \<Rightarrow> f64 \<Rightarrow> tag \<Rightarrow> decision" where
  "gate_decide bk src dst amount ch = (case bk of None \<Rightarrow> accept | Some l \<Rightarrow> decide l src dst amount ch)"

definition read_liquidity :: "ledger option \<Rightarrow> nat \<Rightarrow> f64 \<Rightarrow> f64" where
  "read_liquidity bk idx fallback =
     (case bk of None \<Rightarrow> fallback | Some l \<Rightarrow> if idx = invalid_index then fallback else liquidity_at l idx)"

definition read_cash :: "ledger option \<Rightarrow> nat \<Rightarrow> f64 \<Rightarrow> f64" where
  "read_cash bk idx fallback =
     (case bk of None \<Rightarrow> fallback | Some l \<Rightarrow> if idx = invalid_index then fallback else available_cash l idx)"

subsection \<open>Rates\<close>

text \<open>The mean over the deposit accounts of a person.\<close>

definition mean_over_deposits :: "(nat \<Rightarrow> f64) \<Rightarrow> prepared_spender \<Rightarrow> f64" where
  "mean_over_deposits read ps =
     (let slots = map snd (is_deposits (sx_instruments (ps_spender ps)))
      in if slots = [] then ps_initial_cash ps
         else fdiv (foldl (\<lambda>s idx. fadd s (read idx)) (Fin 0) slots) (f64_of_int (int (length slots))))"

definition available_to_spend :: "ledger option \<Rightarrow> prepared_spender \<Rightarrow> f64" where
  "available_to_spend bk ps = mean_over_deposits (\<lambda>idx. read_liquidity bk idx (ps_initial_cash ps)) ps"

definition available_cash_for :: "ledger option \<Rightarrow> prepared_spender \<Rightarrow> f64" where
  "available_cash_for bk ps = mean_over_deposits (\<lambda>idx. read_cash bk idx (ps_initial_cash ps)) ps"

definition card_liquidity_for :: "ledger option \<Rightarrow> prepared_spender \<Rightarrow> f64 list" where
  "card_liquidity_for bk ps =
     map (\<lambda>(_, idx). read_liquidity bk idx (Fin 0)) (take max_credit_instruments (is_credits (sx_instruments (ps_spender ps))))"

definition liquidity_multiplier_for :: "emission_config \<Rightarrow> day_frame \<Rightarrow> ledger option \<Rightarrow> u16 list \<Rightarrow> prepared_spender \<Rightarrow> f64" where
  "liquidity_multiplier_for ec frame bk since ps =
     liquidity_multiplier (ec_throttle ec)
       \<lparr>ls_since = unat (since ! sx_index (ps_spender ps)), ls_sensitivity = ps_sensitivity ps,
        ls_available = available_to_spend bk ps, ls_baseline = ps_baseline_cash ps, ls_burden = ps_fixed_burden ps,
        ls_price_scale = ec_price ec (cd_year (to_calendar_date (sd_start (dm_day frame))))\<rparr>"

definition combined_multiplier_for :: "emission_config \<Rightarrow> day_frame \<Rightarrow> f64 list \<Rightarrow> nat \<Rightarrow> f64" where
  "combined_multiplier_for ec frame mults i =
     fmul (fmul (mults ! i) (dm_seasonal_mult frame)) (ec_real_level ec (cd_year (to_calendar_date (sd_start (dm_day frame)))))"

definition latent_base_rate :: "budget \<Rightarrow> f64" where
  "latent_base_rate bu =
     (if bu_person_days bu = 0 then Fin 0 else fdiv (bu_target bu) (f64_of_int (int (bu_person_days bu))))"

definition transaction_count_for ::
    "emission_config \<Rightarrow> day_frame \<Rightarrow> budget \<Rightarrow> f64 \<Rightarrow> f64 \<Rightarrow> spender \<Rightarrow> rng \<Rightarrow> nat \<times> rng" where
  "transaction_count_for ec frame bu combined liquid s g =
     sample_transaction_count (ec_samplers ec) (ec_rates ec)
       \<lparr>rp_base = latent_base_rate bu, rp_weekday = dm_weekday_mult frame, rp_dynamics = combined, rp_liquidity = liquid,
        rp_shock = sd_shock (dm_day frame)\<rparr> (bu_limit bu) s g"

definition explore_probability_for :: "emission_config \<Rightarrow> day_frame \<Rightarrow> spender \<Rightarrow> f64 \<Rightarrow> f64" where
  "explore_probability_for ec frame s liquid =
     (let p = calculate_explore_p (ec_base_explore ec) (ec_explore ec) s (dm_day frame);
          cubed = std_clamp (fmul (fmul liquid liquid) liquid) (Fin 0) (Fin 1)
      in fmul p (std_max (th_exploration_floor (ec_throttle ec)) cubed))"

subsection \<open>Attempts\<close>

type_synonym proposal = "txn \<times> posting"

text \<open>\<open>tryEmit\<close>: a channel, a proposal, the row, and the decision on the ledger as it stands.\<close>

definition try_emit :: "emission_config \<Rightarrow> payment_env \<Rightarrow> ledger option \<Rightarrow> spend_event \<Rightarrow> rng \<times> router option \<Rightarrow>
    (proposal option \<times> rng \<times> router option) result option" where
  "try_emit ec pe bk ev gr =
     (case gr of (g, r) \<Rightarrow>
        let (u, g) = next_double g
        in bind_run (route_payment pe (pick_slot (ro_cdf (pe_routing pe)) u) ev g) (\<lambda>(res, g).
             case res of
               None \<Rightarrow> Some (Inr (None, g, r))
             | Some er \<Rightarrow>
                 bind_run (make_row (ec_ring ec) (er_draft er) g r) (\<lambda>(t, g, r).
                   let d = er_draft er
                   in if \<not> accepted (gate_decide bk (er_src er) (er_dst er) (df_amount d) (df_channel d))
                      then Some (Inr (None, g, r))
                      else Some (Inr (Some (t, \<lparr>po_src = er_src er, po_dst = er_dst er, po_amount = df_amount d,
                                               po_channel = df_channel d, po_time = df_time d\<rparr>), g, r)))))"

definition attempt :: "emission_config \<Rightarrow> payment_env \<Rightarrow> ledger option \<Rightarrow> time_point \<Rightarrow> spend_event \<Rightarrow> rng \<times> router option \<Rightarrow>
    (proposal option \<times> rng \<times> router option) result option" where
  "attempt ec pe bk day ev gr =
     bind_run (sample_offset (sx_timing (vt_spender ev)) (fst gr)) (\<lambda>(offset, g).
       try_emit ec pe bk (ev\<lparr>vt_ts := day + offset\<rparr>) (g, snd gr))"

definition attempt_multiplier :: nat where "attempt_multiplier = 4"
definition max_consecutive_failures :: nat where "max_consecutive_failures = 3"

text \<open>The loop over the attempts of a person-day: \<open>tries\<close> is what is left of the attempt budget, \<open>want\<close> the
rows that are still wanted, \<open>fails\<close> the failures in a row.\<close>

fun attempts :: "('s \<Rightarrow> ('p option \<times> 's) result option) \<Rightarrow> nat \<Rightarrow> nat \<Rightarrow> nat \<Rightarrow> 's \<Rightarrow> ('p list \<times> 's) result option" where
  "attempts f 0 want fails st = Some (Inr ([], st))"
| "attempts f (Suc tries) want fails st =
     (if want = 0 then Some (Inr ([], st))
      else bind_run (f st) (\<lambda>(em, st).
        case em of
          None \<Rightarrow> if max_consecutive_failures \<le> fails + 1 then Some (Inr ([], st)) else attempts f tries want (fails + 1) st
        | Some x \<Rightarrow> bind_run (attempts f tries (want - 1) 0 st) (\<lambda>(xs, st). Some (Inr (x # xs, st)))))"

definition day_reached :: "nat option \<Rightarrow> day_frame \<Rightarrow> bool" where
  "day_reached d frame = (case d of None \<Rightarrow> False | Some i \<Rightarrow> i \<le> sd_index (dm_day frame))"

text \<open>What a person-day's attempts share.\<close>

definition day_event :: "emission_config \<Rightarrow> day_frame \<Rightarrow> ledger option \<Rightarrow> f64 \<Rightarrow> prepared_spender \<Rightarrow> spend_event" where
  "day_event ec frame bk liquid ps =
     (let s = ps_spender ps
      in \<lparr>vt_spender = s, vt_ts = sd_start (dm_day frame), vt_explore_p = explore_probability_for ec frame s liquid,
          vt_cash = available_cash_for bk ps, vt_cards = card_liquidity_for bk ps, vt_amount_factor = amount_factor liquid,
          vt_price = ec_price ec (cd_year (to_calendar_date (sd_start (dm_day frame)))),
          vt_consumption = (if day_reached (sx_retire_day s) frame then retired_spend_scale else Fin 1)\<rparr>)"

record day_view =
  dz_plan :: spend_plan
  dz_market :: market
  dz_frame :: day_frame
  dz_mults :: "f64 list"
  dz_ledger :: "ledger option"

definition view_env :: "emission_config \<Rightarrow> day_view \<Rightarrow> payment_env" where
  "view_env ec v = \<lparr>pe_market = dz_market v, pe_laws = ec_laws ec, pe_routing = sp_routing (dz_plan v)\<rparr>"

text \<open>The body of the loop for one spender.\<close>

definition spender_day :: "emission_config \<Rightarrow> day_view \<Rightarrow> prepared_spender \<Rightarrow> (rng \<times> router option) \<times> run_state \<Rightarrow>
    (proposal list \<times> (rng \<times> router option) \<times> run_state) result option" where
  "spender_day ec v ps st =
     (case st of ((g, r), run) \<Rightarrow>
        let s = ps_spender ps; frame = dz_frame v; bk = dz_ledger v
        in if day_reached (sx_death_day s) frame then Some (Inr ([], (g, r), consume_one_person_day run))
           else
             let liquid = liquidity_multiplier_for ec frame bk (rs_since run) ps;
                 combined = combined_multiplier_for ec frame (dz_mults v) (sx_index s);
                 (n, g) = transaction_count_for ec frame (sp_budget (dz_plan v)) combined liquid s g;
                 run = consume_one_person_day run
             in if n = 0 then Some (Inr ([], (g, r), run))
                else bind_run (attempts (attempt ec (view_env ec v) bk (sd_start (dm_day frame)) (day_event ec frame bk liquid ps))
                         (n * attempt_multiplier mod 2 ^ 32) n 0 (g, r))
                       (\<lambda>(out, gr). Some (Inr (out, gr, consume_accepted (length out) run))))"

text \<open>\<open>run(begin, end)\<close> over the spenders of a range, each with its own generator.\<close>

fun emit_spenders :: "emission_config \<Rightarrow> day_view \<Rightarrow> nat list \<Rightarrow> (rng list \<times> router option) \<times> run_state \<Rightarrow>
    (proposal list \<times> (rng list \<times> router option) \<times> run_state) result option" where
  "emit_spenders ec v [] st = Some (Inr ([], st))"
| "emit_spenders ec v (i # is) ((gs, r), run) =
     bind_run (spender_day ec v (sp_spenders (dz_plan v) ! i) ((gs ! i, r), run)) (\<lambda>(out, (g, r), run).
     bind_run (emit_spenders ec v is ((gs[i := g], r), run)) (\<lambda>(outs, st). Some (Inr (out @ outs, st))))"

subsection \<open>The workers\<close>

type_synonym scratch = "txn list \<times> posting list"

definition scratch_add :: "proposal list \<Rightarrow> scratch \<Rightarrow> scratch" where
  "scratch_add out sc = (fst sc @ map fst out, snd sc @ map snd out)"

fun emit_workers :: "emission_config \<Rightarrow> day_view \<Rightarrow> nat \<Rightarrow> nat list \<Rightarrow> scratch list \<times> (rng list \<times> router option) \<times> run_state \<Rightarrow>
    (scratch list \<times> (rng list \<times> router option) \<times> run_state) result option" where
  "emit_workers ec v threads [] st = Some (Inr st)"
| "emit_workers ec v threads (t # ts) (scs, st) =
     (let (a, b) = partition_range (length (sp_spenders (dz_plan v))) threads t
      in if b \<le> a then emit_workers ec v threads ts (scs, st)
         else bind_run (emit_spenders ec v [a..<b] st) (\<lambda>(out, st).
                emit_workers ec v threads ts (scs[t := scratch_add out (scs ! t)], st)))"

subsection \<open>Settling the day\<close>

fun post_proposals :: "proposal list \<Rightarrow> ledger option \<Rightarrow> txn list \<times> ledger option" where
  "post_proposals [] bk = ([], bk)"
| "post_proposals ((t, p) # ps) bk =
     (let (ok, bk) = (case bk of None \<Rightarrow> (True, None)
            | Some l \<Rightarrow> let (l, d, evs) = transfer_indexed p l in (accepted d, Some l));
          (ts, bk) = post_proposals ps bk
      in (if ok then t # ts else ts, bk))"

definition append_accepted_day :: "scratch \<Rightarrow> ledger option \<Rightarrow> txn list \<Rightarrow> (txn list \<times> ledger option) result" where
  "append_accepted_day day bk dest =
     (case day of (txns, postings) \<Rightarrow>
        if length txns \<noteq> length postings
        then Inl (LogicError ''spending day transaction/posting cardinality mismatch'')
        else if \<exists>(t, p) \<in> set (zip txns postings). tx_time t \<noteq> po_time p
        then Inl (LogicError ''spending transaction/posting timestamp mismatch'')
        else
          let (ts, bk) = post_proposals (sort_key (\<lambda>(t, p). audit_key t) (zip txns postings)) bk
          in Inr (dest @ ts, bk))"

definition merge_thread_txns :: "scratch list \<Rightarrow> ledger option \<Rightarrow> run_state \<Rightarrow> (scratch list \<times> ledger option \<times> run_state) result" where
  "merge_thread_txns scs bk run =
     (if scs = [] then Inr (scs, bk, run)
      else if \<exists>sc \<in> set scs. length (fst sc) \<noteq> length (snd sc)
      then Inl (LogicError ''spending thread transaction/posting cardinality mismatch'')
      else bind_result (append_accepted_day (concat (map fst scs), concat (map snd scs)) bk (rs_txns run)) (\<lambda>(txns, bk).
             Inr (map (\<lambda>_. ([], [])) scs, bk, run\<lparr>rs_txns := txns\<rparr>)))"

text \<open>\<open>emitDay\<close>.\<close>

definition emit_day :: "emission_config \<Rightarrow> day_view \<Rightarrow> scratch list \<times> (rng list \<times> router option) \<times> run_state \<Rightarrow>
    (scratch list \<times> (rng list \<times> router option) \<times> ledger option \<times> run_state) result option" where
  "emit_day ec v st =
     (let threads = max (ec_threads ec) 1
      in bind_run (emit_workers ec v threads [0..<threads] st) (\<lambda>(scs, gr, run).
         bind_run (Some (merge_thread_txns scs (dz_ledger v) run)) (\<lambda>(scs, bk, run).
           Some (Inr (scs, gr, bk, run)))))"

subsection \<open>The engine of a run\<close>

record engine =
  eg_market :: market
  eg_rng :: rng
  eg_cohort :: cohort
  eg_sensitivities :: "f64 list"
  eg_frame :: day_frame
  eg_plan :: spend_plan
  eg_rngs :: "rng list"
  eg_scratch :: "scratch list"

text \<open>\<open>prepareSpenderRngs\<close>: a stream for every person of the market.\<close>

fun spender_rngs :: "u64 \<Rightarrow> nat list \<Rightarrow> rng list result" where
  "spender_rngs base [] = Inr []"
| "spender_rngs base (i # is) =
     bind_result (factory_rng base [''spender_stream'', digits i]) (\<lambda>g.
     bind_result (spender_rngs base is) (\<lambda>gs. Inr (g # gs)))"

definition engine_prepare :: "emission_config \<Rightarrow> engine \<times> ledger option \<Rightarrow> (prepared_run \<times> engine \<times> ledger option) result option" where
  "engine_prepare ec st =
     (case st of (e, bk) \<Rightarrow>
        let m = eg_market e
        in case ec_seed ec of
             None \<Rightarrow> Some (Inl (RuntimeError (''spending::SpenderEmissionDriver: emission requires '' @
                 ''Threads::rngFactory (per-spender streams)'')))
           | Some base \<Rightarrow>
               bind_run (Some (spender_rngs base [0..<mk_count m])) (\<lambda>gs.
                 let (plan, pr) = planner_build (ec_price ec) (ec_planner ec) m (ec_obligations ec) bk
                 in Some (Inr (pr, e\<lparr>eg_cohort := cohort_new (mk_count m),
                        eg_sensitivities := map (\<lambda>i. pz_sensitivity (mk_persona m (i + 1))) [0..<mk_count m], eg_plan := plan, eg_rngs := gs,
                        eg_scratch := replicate (max (ec_threads ec) 1) ([], [])\<rparr>, bk))))"

text \<open>The monthly evolution, then the frame.\<close>

definition engine_open :: "emission_config \<Rightarrow> nat \<Rightarrow> engine \<Rightarrow> engine result option" where
  "engine_open ec i e =
     (let m = eg_market e;
          m = (if is_month_boundary i (mk_start m) then ec_evolve ec (add_days (mk_start m) (int i)) m else m);
          (frame, g) = build_frame (cs_gamma (ec_samplers ec)) (ec_shape ec) (ec_seasonal ec) (mk_start m) (eg_rng e) i
      in Some (Inr (e\<lparr>eg_market := m, eg_frame := frame, eg_rng := g\<rparr>)))"

text \<open>The dynamics and the emission. The frame's index and start are the ones the day driver passes on.\<close>

definition engine_emit :: "emission_config \<Rightarrow> nat \<Rightarrow> time_point \<Rightarrow> nat list \<Rightarrow> engine emission \<Rightarrow> engine emission result option" where
  "engine_emit ec i day persons st =
     (case st of (e, r, bk, run) \<Rightarrow>
        let frame = (eg_frame e)\<lparr>dm_day := (dm_day (eg_frame e))\<lparr>sd_index := i, sd_start := day\<rparr>\<rparr>
        in bind_run (advance_all (ec_normal ec) (ec_drivers ec) (eg_sensitivities e) persons (eg_cohort e) (eg_rng e)) (\<lambda>(mults, co, g).
           bind_run (emit_day ec \<lparr>dz_plan = eg_plan e, dz_market = eg_market e, dz_frame = frame, dz_mults = mults, dz_ledger = bk\<rparr>
               (eg_scratch e, (eg_rngs e, r), run)) (\<lambda>(scs, (gs, r), bk, run).
             Some (Inr (e\<lparr>eg_cohort := co, eg_rng := g, eg_rngs := gs, eg_scratch := scs\<rparr>, r, bk, run)))))"

definition engine_finish :: "emission_config \<Rightarrow> engine emission \<Rightarrow> engine emission result option" where
  "engine_finish ec st =
     (case st of (e, r, bk, run) \<Rightarrow>
        bind_run (Some (merge_thread_txns (eg_scratch e) bk run)) (\<lambda>(scs, bk, run).
          Some (Inr (e\<lparr>eg_scratch := scs\<rparr>, r, bk, run))))"

definition engine_env :: "emission_config \<Rightarrow> market \<Rightarrow> engine spend_env" where
  "engine_env ec m =
     \<lparr>dy_start = mk_start m, dy_days = mk_days m, dy_prepare = engine_prepare ec, dy_open = engine_open ec,
      dy_emit = engine_emit ec, dy_finish = engine_finish ec\<rparr>"

end
