(* ===== verification/SpendFacts.thy ===== *)
theory SpendFacts
  imports CardBilling
begin

text \<open>
  Facts about the days of a run. The part that draws the rows is an interface, the locale
  \<open>emission_engine\<close>: it appends the rows of the day to the run state without looking at the rows before,
  and leaves nothing for the end. Under it a day keeps the cards ready, and a run from a state
  that still holds earlier rows is the run without them.
\<close>

subsection \<open>Rows of earlier days\<close>

definition txns_before :: "txn list \<Rightarrow> run_state \<Rightarrow> run_state" where
  "txns_before xs run = run\<lparr>rs_txns := xs @ rs_txns run\<rparr>"

definition emission_before :: "txn list \<Rightarrow> 'e emission \<Rightarrow> 'e emission" where
  "emission_before xs = (\<lambda>(e, r, l, run). (e, r, l, txns_before xs run))"

definition pushed :: "txn list \<Rightarrow> txn list \<Rightarrow> 'e spend_state \<Rightarrow> 'e spend_state" where
  "pushed xs cs st = st\<lparr>sn_run := txns_before xs (sn_run st), sn_cards := map_option (emitted_before cs) (sn_cards st),
     sn_cursor := (if cards_active st then length xs + sn_cursor st else sn_cursor st)\<rparr>"

text \<open>The rows the cards have emitted and the simulator has not taken.\<close>

definition card_rows :: "'e spend_state \<Rightarrow> txn list" where
  "card_rows st = (case sn_cards st of None \<Rightarrow> [] | Some d \<Rightarrow> if cc_active d then cc_emitted d else [])"

lemma pushed_fields [simp]:
  "sn_engine (pushed xs cs st) = sn_engine st" "sn_router (pushed xs cs st) = sn_router st"
  "sn_ledger (pushed xs cs st) = sn_ledger st" "sn_run (pushed xs cs st) = txns_before xs (sn_run st)"
  "sn_cards (pushed xs cs st) = map_option (emitted_before cs) (sn_cards st)"
  "cards_active (pushed xs cs st) = cards_active st"
  by (simp_all add: pushed_def cards_active_def split: option.split)

lemma txns_before_fields [simp]:
  "rs_txns (txns_before xs run) = xs @ rs_txns run" "rs_base_idx (txns_before xs run) = rs_base_idx run"
  by (simp_all add: txns_before_def)

lemma txns_before_empty [simp]: "txns_before [] run = run"
  by (simp add: txns_before_def)

lemma reset_before: "fold reset_since ps (txns_before xs run) = txns_before xs (fold reset_since ps run)"
proof (induction ps arbitrary: run)
  case (Cons p ps)
  have "reset_since p (txns_before xs run) = txns_before xs (reset_since p run)"
    by (simp add: reset_since_def set_since_def txns_before_def)
  then show ?case using Cons by simp
qed simp

lemma payday_before: "update_payday_state idx i (txns_before xs run) =
    (case update_payday_state idx i run of (persons, run) \<Rightarrow> (persons, txns_before xs run))"
proof -
  have "bump_all_since (txns_before xs run) = txns_before xs (bump_all_since run)"
    by (simp add: bump_all_since_def txns_before_def)
  then show ?thesis by (simp add: update_payday_state_def Let_def reset_before)
qed

lemma payday_txns: "update_payday_state idx i run = (persons, run') \<Longrightarrow> rs_txns run' = rs_txns run"
proof -
  have "rs_txns (fold reset_since ps run) = rs_txns run" for ps run
    by (induction ps arbitrary: run) (simp_all add: reset_since_def set_since_def)
  then show "update_payday_state idx i run = (persons, run') \<Longrightarrow> rs_txns run' = rs_txns run"
    by (auto simp: update_payday_state_def Let_def bump_all_since_def)
qed

lemma ledger_to_day_before: "advance_ledger_to_day pr day (pushed xs cs st) = pushed xs cs (advance_ledger_to_day pr day st)"
  by (simp add: advance_ledger_to_day_def split_beta Let_def pushed_def cards_active_def txns_before_def)

lemma billing_call_before:
  assumes "\<And>d r l. f (emitted_before cs d, r, l) = map_run (\<lambda>(d, r, l). (emitted_before cs d, r, l)) (f (d, r, l))"
    "\<And>d r l d' r' l'. f (d, r, l) = Some (Inr (d', r', l')) \<Longrightarrow> same_cards_env d d'"
  shows "billing_call f (pushed xs cs st) = map_run (pushed xs cs) (billing_call f st)"
proof (cases "sn_cards st")
  case (Some d)
  then show ?thesis
  proof (cases "f (d, sn_router st, sn_ledger st)" rule: run_cases)
    case (3 v)
    obtain d' r' l' where v: "v = (d', r', l')" by (cases v)
    have "cc_active d' = cc_active d" using assms(2) 3 v by (simp add: same_cards_env_def)
    then show ?thesis using Some 3 v assms(1) by (simp add: billing_call_def pushed_def cards_active_def)
  qed (simp_all add: billing_call_def assms(1))
qed (simp add: billing_call_def)

lemma billing_env:
  "cards_advance_ledger_to b (d, r, l) = Some (Inr (d', r', l')) \<Longrightarrow> same_cards_env d d'"
  "cards_tick_day day (d, r, l) = Some (Inr (d', r', l')) \<Longrightarrow> same_cards_env d d'"
  unfolding cards_advance_ledger_to_def cards_tick_day_def by (rule each_card_env, assumption)+

lemma billing_calls_before:
  "billing_call (cards_advance_ledger_to b) (pushed xs cs st) = map_run (pushed xs cs) (billing_call (cards_advance_ledger_to b) st)"
  "billing_call (cards_tick_day day) (pushed xs cs st) = map_run (pushed xs cs) (billing_call (cards_tick_day day) st)"
  by (rule billing_call_before, rule billing_before, erule billing_env)+

lemma billing_call_kept:
  assumes "billing_call f st = Some (Inr st')" "\<And>d r l d' r' l'. f (d, r, l) = Some (Inr (d', r', l')) \<Longrightarrow> same_cards_env d d'"
  shows "sn_engine st' = sn_engine st" "sn_run st' = sn_run st" "sn_cursor st' = sn_cursor st" "cards_active st' = cards_active st"
  using assms by (auto simp: billing_call_def bind_run_Inr cards_active_def same_cards_env_def split: option.splits)

lemma ingest_pushed:
  assumes "cards_active st"
  shows "ingest_emitted_to (pushed xs cs st) = (case ingest_emitted_to st of Inl e \<Rightarrow> Inl e | Inr st \<Rightarrow> Inr (pushed xs cs st))"
proof -
  obtain d where d: "sn_cards st = Some d" "cc_active d" using assms by (auto simp: cards_active_def split: option.splits)
  have "cc_active (ingest_purchases rows d) = cc_active d" for rows using ingest_env(1) [of d rows] by (simp add: same_cards_env_def)
  then show ?thesis
    using d by (simp add: ingest_emitted_to_def Let_def pushed_def cards_active_def txns_before_def ingest_before)
qed

lemma ingest_kept:
  assumes "ingest_emitted_to st = Inr st'"
  shows "sn_engine st' = sn_engine st" "sn_run st' = sn_run st" "cards_active st' = cards_active st"
    "sn_cursor st' = length (rs_txns (sn_run st))"
proof -
  have "cc_active (ingest_purchases rows d) = cc_active d" for rows d using ingest_env(1) [of d rows] by (simp add: same_cards_env_def)
  then show "sn_engine st' = sn_engine st" "sn_run st' = sn_run st" "cards_active st' = cards_active st"
    "sn_cursor st' = length (rs_txns (sn_run st))"
    using assms by (auto simp: ingest_emitted_to_def Let_def cards_active_def split: if_splits option.splits)
qed

lemma bill_day_before:
  assumes "cards_active st"
  shows "bill_day env i (pushed xs cs st) = map_run (pushed xs cs) (bill_day env i st)"
proof (cases "ingest_emitted_to st")
  case (Inr st1)
  then show ?thesis
    by (simp add: bill_day_def Let_def ingest_pushed [OF assms] billing_calls_before bind_map_run map_bind_run)
qed (simp add: bill_day_def Let_def ingest_pushed [OF assms])

subsection \<open>The engine that draws the rows\<close>

locale emission_engine =
  fixes env :: "'e spend_env" and live :: "'e \<Rightarrow> bool"
  assumes prepare_live: "dy_prepare env (e, l) = Some (Inr (pr, e', l')) \<Longrightarrow> live e'"
    and open_live: "live e \<Longrightarrow> dy_open env i e = Some (Inr e') \<Longrightarrow> live e'"
    and emit_before: "live e \<Longrightarrow> dy_emit env i day persons (e, r, l, txns_before xs run) =
      map_run (emission_before xs) (dy_emit env i day persons (e, r, l, run))"
    and emit_rows: "live e \<Longrightarrow> dy_emit env i day persons (e, r, l, run) = Some (Inr (e', r', l', run')) \<Longrightarrow>
      live e' \<and> (\<exists>rows. rs_txns run' = rs_txns run @ rows \<and> (\<forall>t \<in> set rows. in_day day t))"
    and finish_quiet: "live e \<Longrightarrow> dy_finish env (e, r, l, run) = Some (Inr (e, r, l, run))"
begin

lemma emission_call_before:
  assumes "live (sn_engine st)"
  shows "emission_call (dy_emit env i day persons) (pushed xs cs st) =
    map_run (pushed xs cs) (emission_call (dy_emit env i day persons) st)"
proof (cases "dy_emit env i day persons (sn_engine st, sn_router st, sn_ledger st, sn_run st)" rule: run_cases)
  case (3 v)
  then show ?thesis using emit_before [OF assms]
    by (cases v) (simp add: emission_call_def emission_before_def pushed_def cards_active_def)
qed (simp_all add: emission_call_def emit_before [OF assms])

lemma run_day_before:
  assumes "live (sn_engine st)"
  shows "run_day env pr i (pushed xs cs st) = map_run (pushed xs cs) (run_day env pr i st)"
proof (cases "dy_open env i (sn_engine st)" rule: run_cases)
  case (3 e)
  let ?day = "frame_start env i"
  let ?st1 = "advance_ledger_to_day pr ?day (st\<lparr>sn_engine := e\<rparr>)"
  obtain persons run where p: "update_payday_state (pr_paydays pr) i (sn_run ?st1) = (persons, run)"
    by (cases "update_payday_state (pr_paydays pr) i (sn_run ?st1)")
  have e: "(pushed xs cs st)\<lparr>sn_engine := e\<rparr> = pushed xs cs (st\<lparr>sn_engine := e\<rparr>)"
    by (simp add: pushed_def cards_active_def)
  have r: "(pushed xs cs ?st1)\<lparr>sn_run := txns_before xs run\<rparr> = pushed xs cs (?st1\<lparr>sn_run := run\<rparr>)"
    by (simp add: pushed_def cards_active_def)
  have l: "live (sn_engine (?st1\<lparr>sn_run := run\<rparr>))"
    using open_live [OF assms 3] by (simp add: advance_ledger_to_day_def split_beta Let_def)
  show ?thesis
    by (simp add: run_day_def 3 e ledger_to_day_before payday_before p r emission_call_before [OF l] bind_map_run map_bind_run
        bill_day_before if_distrib [of "map_run (pushed xs cs)"] cong: if_cong)
qed (simp_all add: run_day_def)

end

section \<open>The days of a run\<close>

text \<open>
  The days of a run under the engine's contract: the invariant between two days, what a day adds, and
  the end, where neither the emission nor the residual drain of the cards adds a row.
\<close>

definition billing_ready :: "'e spend_env \<Rightarrow> nat \<Rightarrow> 'e spend_state \<Rightarrow> bool" where
  "billing_ready env i st \<longleftrightarrow>
     (\<forall>d. sn_cards st = Some d \<and> cc_active d \<longrightarrow>
        cards_all (\<lambda>d. card_ready d (frame_start env i)) d \<and> billing_ok (cc_env d) \<and>
        card_lo d = dy_start env \<and> card_hi d = market_end env)"

definition cursor_ok :: "'e spend_state \<Rightarrow> bool" where
  "cursor_ok st \<longleftrightarrow> sn_cursor st = (if cards_active st then length (rs_txns (sn_run st)) else 0)"

lemma frame_start_next: "frame_start env (Suc i) = frame_start env i + seconds_per_day"
  by (simp add: frame_start_def add_days_def algebra_simps)

lemma frame_start_mono: "i \<le> j \<Longrightarrow> frame_start env i \<le> frame_start env j"
  by (simp add: frame_start_def add_days_def seconds_per_day_def)

lemma frame_start_zero [simp]: "frame_start env 0 = dy_start env"
  by (simp add: frame_start_def add_days_def)

lemma frame_start_end [simp]: "frame_start env (dy_days env) = market_end env"
  by (simp add: frame_start_def market_end_def)

lemma frame_start_mod: "dy_start env mod seconds_per_day = 0 \<Longrightarrow> frame_start env i mod seconds_per_day = 0"
  by (simp add: frame_start_def add_days_def)

lemma billing_call_cards:
  assumes "billing_call f st = Some (Inr st')" "sn_cards st = Some d"
  shows "\<exists>d'. f (d, sn_router st, sn_ledger st) = Some (Inr (d', sn_router st', sn_ledger st')) \<and> sn_cards st' = Some d'"
  using assms by (auto simp: billing_call_def bind_run_Inr)

text \<open>The billing of a day.\<close>

lemma bill_day_ready:
  assumes "bill_day env i st = Some (Inr st')" "cards_active st" "billing_ready env i st" "i < dy_days env"
    "dy_start env mod seconds_per_day = 0" "sn_cursor st \<le> length (rs_txns (sn_run st))"
    "\<forall>t \<in> set (drop (sn_cursor st) (rs_txns (sn_run st))). in_day (frame_start env i) t"
  shows "sn_engine st' = sn_engine st \<and> sn_run st' = sn_run st \<and> cursor_ok st' \<and> cards_active st' \<and> billing_ready env (Suc i) st' \<and>
    (\<exists>rows. card_rows st' = card_rows st @ rows \<and>
       (\<forall>t \<in> set rows. timely (backdate_limit (dy_start env) (frame_start env i)) (market_end env) t))"
proof -
  let ?day = "frame_start env i"
  let ?next = "?day + seconds_per_day"
  obtain d where d: "sn_cards st = Some d" "cc_active d" using assms(2) by (auto simp: cards_active_def split: option.splits)
  have r: "cards_all (\<lambda>d. card_ready d ?day) d" "billing_ok (cc_env d)" "card_lo d = dy_start env" "card_hi d = market_end env"
    using assms(3) d by (auto simp: billing_ready_def)
  obtain st1 st2 st3 where s: "ingest_emitted_to st = Inr st1" "billing_call (cards_advance_ledger_to ?next) st1 = Some (Inr st2)"
    "billing_call (cards_tick_day ?day) st2 = Some (Inr st3)" "billing_call (cards_advance_ledger_to ?next) st3 = Some (Inr st')"
    using assms(1) by (auto simp: bill_day_def Let_def bind_run_Inr)
  obtain d1 where d1: "sn_cards st1 = Some d1" "cards_all (\<lambda>d. card_fed d ?day) d1" "same_cards_env d d1" "cc_emitted d1 = cc_emitted d"
  proof (cases "sn_cursor st = length (rs_txns (sn_run st))")
    case True
    then have "sn_cards st1 = Some d" using s(1) d by (simp add: ingest_emitted_to_def Let_def)
    then show thesis using that cards_fed_without_rows [OF r(1)] by simp
  next
    case False
    then have "sn_cards st1 = Some (ingest_purchases (drop (sn_cursor st) (rs_txns (sn_run st))) d)"
      using s(1) d assms(6) by (auto simp: ingest_emitted_to_def Let_def)
    then show thesis using that cards_fed_ingested [OF d(2) r(1) assms(7)] ingest_env by blast
  qed
  note k1 = ingest_kept [OF s(1)] and k2 = billing_call_kept [OF s(2) billing_env(1)]
    and k3 = billing_call_kept [OF s(3) billing_env(2)] and k4 = billing_call_kept [OF s(4) billing_env(1)]
  obtain d2 where d2: "cards_advance_ledger_to ?next (d1, sn_router st1, sn_ledger st1) = Some (Inr (d2, sn_router st2, sn_ledger st2))"
    "sn_cards st2 = Some d2" using billing_call_cards [OF s(2) d1(1)] by blast
  obtain d3 where d3: "cards_tick_day ?day (d2, sn_router st2, sn_ledger st2) = Some (Inr (d3, sn_router st3, sn_ledger st3))"
    "sn_cards st3 = Some d3" using billing_call_cards [OF s(3) d2(2)] by blast
  obtain d4 where d4: "cards_advance_ledger_to ?next (d3, sn_router st3, sn_ledger st3) = Some (Inr (d4, sn_router st', sn_ledger st'))"
    "sn_cards st' = Some d4" using billing_call_cards [OF s(4) d3(2)] by blast
  have e: "cc_active d1" "card_lo d1 = dy_start env" "card_hi d1 = market_end env" "cc_env d1 = cc_env d"
    using d1(3) d r by (simp_all add: same_cards_env_def)
  have cal: "card_calendar d1 ?day"
    using frame_start_mono [of 0 i env] frame_start_mono [of "Suc i" "dy_days env" env] assms(4,5) r(2) e
      frame_start_mod [OF assms(5), of i] frame_start_mod [OF assms(5), of "dy_days env"]
    by (simp add: card_calendar_def frame_start_next)
  note b = billing_day [OF e(1) d1(2) cal d2(1) d3(1) d4(1), unfolded e]
  have e4: "cc_active d4" "card_lo d4 = dy_start env" "card_hi d4 = market_end env" "cc_env d4 = cc_env d"
    using b e by (simp_all add: same_cards_env_def)
  have "billing_ready env (Suc i) st'" using b d4(2) e4 r(2) by (simp add: billing_ready_def frame_start_next)
  moreover have "card_rows st = cc_emitted d1" "card_rows st' = cc_emitted d4" using d d1(4) d4(2) e4(1) by (simp_all add: card_rows_def)
  ultimately show ?thesis
    using b k1 k2 k3 k4 assms(2) by (auto simp: cursor_ok_def)
qed

context emission_engine
begin

definition ready :: "nat \<Rightarrow> 'e spend_state \<Rightarrow> bool" where
  "ready i st \<longleftrightarrow> live (sn_engine st) \<and> billing_ready env i st \<and> cursor_ok st"

text \<open>What a run adds from one day to another.\<close>

definition added :: "nat \<Rightarrow> 'e spend_state \<Rightarrow> 'e spend_state \<Rightarrow> bool" where
  "added i st st' \<longleftrightarrow> cards_active st' = cards_active st \<and>
     (\<exists>rows. rs_txns (sn_run st') = rs_txns (sn_run st) @ rows \<and> (\<forall>t \<in> set rows. timely (frame_start env i) (market_end env) t)) \<and>
     (\<exists>rows. card_rows st' = card_rows st @ rows \<and>
        (\<forall>t \<in> set rows. timely (backdate_limit (dy_start env) (frame_start env i)) (market_end env) t))"

lemma added_refl: "added i st st"
  by (simp add: added_def)

lemma added_trans:
  assumes "added i a b" "added j b c" "i \<le> j"
  shows "added i a c"
proof -
  have m: "frame_start env i \<le> frame_start env j"
    "backdate_limit (dy_start env) (frame_start env i) \<le> backdate_limit (dy_start env) (frame_start env j)"
    using frame_start_mono [OF assms(3), of env] by (auto simp: backdate_limit_def)
  have t: "timely lo hi t \<Longrightarrow> lo' \<le> lo \<Longrightarrow> timely lo' hi t" for lo lo' hi t by (simp add: timely_def)
  obtain r1 r2 where "rs_txns (sn_run b) = rs_txns (sn_run a) @ r1" "rs_txns (sn_run c) = rs_txns (sn_run b) @ r2"
    "\<forall>t \<in> set (r1 @ r2). timely (frame_start env i) (market_end env) t"
    using assms(1,2) t [OF _ m(1)] unfolding added_def by (metis UnE set_append)
  moreover obtain c1 c2 where "card_rows b = card_rows a @ c1" "card_rows c = card_rows b @ c2"
    "\<forall>t \<in> set (c1 @ c2). timely (backdate_limit (dy_start env) (frame_start env i)) (market_end env) t"
    using assms(1,2) t [OF _ m(2)] unfolding added_def by (metis UnE set_append)
  ultimately show ?thesis using assms(1,2) unfolding added_def by (metis append.assoc)
qed

lemma run_day_ready:
  assumes "run_day env pr i st = Some (Inr st')" "ready i st" "i < dy_days env" "dy_start env mod seconds_per_day = 0"
  shows "ready (Suc i) st' \<and> added i st st'"
proof -
  let ?day = "frame_start env i"
  have rd: "live (sn_engine st)" "billing_ready env i st" "cursor_ok st" using assms(2) by (simp_all add: ready_def)
  obtain e where e: "dy_open env i (sn_engine st) = Some (Inr e)" using assms(1) by (auto simp: run_day_def bind_run_Inr)
  define st1 where "st1 = advance_ledger_to_day pr ?day (st\<lparr>sn_engine := e\<rparr>)"
  obtain persons run where p: "update_payday_state (pr_paydays pr) i (sn_run st1) = (persons, run)"
    by (cases "update_payday_state (pr_paydays pr) i (sn_run st1)")
  obtain st2 where st2: "emission_call (dy_emit env i ?day persons) (st1\<lparr>sn_run := run\<rparr>) = Some (Inr st2)"
    "(if cards_active st2 then bill_day env i st2 else Some (Inr st2)) = Some (Inr st')"
    using assms(1) e p by (auto simp: run_day_def Let_def bind_run_Inr st1_def)
  have s1: "sn_engine st1 = e" "sn_cards st1 = sn_cards st" "sn_cursor st1 = sn_cursor st" "rs_txns (sn_run st1) = rs_txns (sn_run st)"
    by (simp_all add: st1_def advance_ledger_to_day_def split_beta Let_def)
  obtain e' r' l' run' where m: "dy_emit env i ?day persons (e, sn_router st1, sn_ledger st1, run) = Some (Inr (e', r', l', run'))"
    "st2 = st1\<lparr>sn_engine := e', sn_router := r', sn_ledger := l', sn_run := run'\<rparr>"
    using st2(1) by (auto simp: emission_call_def bind_run_Inr s1)
  have emitted: "live e' \<and> (\<exists>rows. rs_txns run' = rs_txns run @ rows \<and> (\<forall>t \<in> set rows. in_day ?day t))"
    by (rule emit_rows [OF open_live [OF rd(1) e] m(1)])
  obtain rows where rows: "rs_txns (sn_run st2) = rs_txns (sn_run st) @ rows" "\<forall>t \<in> set rows. in_day ?day t"
    using emitted payday_txns [OF p] s1 m(2) by auto
  have s2: "live (sn_engine st2)" "sn_cards st2 = sn_cards st" "sn_cursor st2 = sn_cursor st" "cards_active st2 = cards_active st"
    "card_rows st2 = card_rows st" "billing_ready env i st2"
    using emitted rd(2) m(2) s1 by (simp_all add: cards_active_def card_rows_def billing_ready_def)
  have "?day + seconds_per_day \<le> market_end env"
    using frame_start_mono [of "Suc i" "dy_days env" env] assms(3) by (simp add: frame_start_next)
  then have t: "\<forall>t \<in> set rows. timely ?day (market_end env) t" using rows(2) by (auto simp: timely_def in_day_def)
  show ?thesis
  proof (cases "cards_active st")
    case False
    then have "st' = st2" using st2(2) s2(4) by simp
    moreover have "billing_ready env (Suc i) st2"
      unfolding billing_ready_def using False s2(2) by (auto simp: cards_active_def)
    moreover have "cursor_ok st2" using rd(3) False s2(3,4) by (simp add: cursor_ok_def)
    ultimately show ?thesis using s2 rows(1) t by (auto simp: ready_def added_def)
  next
    case True
    then have b: "bill_day env i st2 = Some (Inr st')" using st2(2) s2(4) by simp
    have c: "sn_cursor st2 = length (rs_txns (sn_run st))" using rd(3) True s2(3) by (simp add: cursor_ok_def)
    have "sn_engine st' = sn_engine st2 \<and> sn_run st' = sn_run st2 \<and> cursor_ok st' \<and> cards_active st' \<and> billing_ready env (Suc i) st' \<and>
      (\<exists>rows. card_rows st' = card_rows st2 @ rows \<and>
         (\<forall>t \<in> set rows. timely (backdate_limit (dy_start env) ?day) (market_end env) t))"
      by (rule bill_day_ready [OF b _ s2(6) assms(3,4)]) (use True s2(4) c rows in simp_all)
    then show ?thesis using s2 rows(1) t True by (auto simp: ready_def added_def)
  qed
qed

lemma run_days_ready:
  assumes "run_days env pr [i..<j] st = Some (Inr st')" "ready i st" "i \<le> j" "j \<le> dy_days env" "dy_start env mod seconds_per_day = 0"
  shows "ready j st' \<and> added i st st'"
  using assms(1-3)
proof (induction "j - i" arbitrary: i st)
  case 0
  then show ?case by (simp add: added_refl)
next
  case (Suc n)
  then have "[i..<j] = i # [Suc i..<j]" by (simp add: upt_conv_Cons)
  then obtain st1 where s: "run_day env pr i st = Some (Inr st1)" "run_days env pr [Suc i..<j] st1 = Some (Inr st')"
    using Suc.prems(1) by (auto simp: bind_run_Inr)
  have r: "ready (Suc i) st1 \<and> added i st st1" by (rule run_day_ready [OF s(1) Suc.prems(2) _ assms(5)]) (use Suc assms(4) in simp)
  have "n = j - Suc i" "Suc i \<le> j" using Suc.hyps(2) by simp_all
  then have "ready j st' \<and> added (Suc i) st1 st'" using Suc.hyps(1) [of "Suc i" st1] s(2) r by blast
  then show ?case using r added_trans [of i st st1 "Suc i" st'] by auto
qed

lemma run_days_before:
  assumes "ready i st" "i \<le> j" "j \<le> dy_days env" "dy_start env mod seconds_per_day = 0"
  shows "run_days env pr [i..<j] (pushed xs cs st) = map_run (pushed xs cs) (run_days env pr [i..<j] st)"
  using assms(1,2)
proof (induction "j - i" arbitrary: i st)
  case (Suc n)
  then have u: "[i..<j] = i # [Suc i..<j]" by (simp add: upt_conv_Cons)
  have l: "live (sn_engine st)" using Suc.prems(1) by (simp add: ready_def)
  have "run_days env pr [Suc i..<j] (pushed xs cs st1) = map_run (pushed xs cs) (run_days env pr [Suc i..<j] st1)"
    if "run_day env pr i st = Some (Inr st1)" for st1
  proof -
    have "ready (Suc i) st1" using run_day_ready [OF that Suc.prems(1) _ assms(4)] Suc assms(3) by simp
    then show ?thesis using Suc.hyps(1) [of "Suc i" st1] Suc by simp
  qed
  then show ?case unfolding u run_days.simps run_day_before [OF l] bind_map_run map_bind_run
    by (intro bind_run_cong_Inr)
qed simp

text \<open>The end of the run adds nothing.\<close>

lemma finish_same: "live (sn_engine st) \<Longrightarrow> emission_call (dy_finish env) st = Some (Inr st)"
  by (simp add: emission_call_def finish_quiet)

lemma drain_same:
  assumes "ready (dy_days env) st"
  shows "\<exists>st'. drain_card_cycles st = Some (Inr (sort_for_replay (card_rows st), st')) \<and> sn_run st' = sn_run st \<and>
    card_rows st' = [] \<and> cards_active st' = cards_active st \<and> sn_cursor st' = sn_cursor st"
proof (cases "cards_active st")
  case False
  then have "card_rows st = []" by (auto simp: cards_active_def card_rows_def split: option.splits)
  then show ?thesis using False by (simp add: drain_card_cycles_def sort_for_replay_def)
next
  case True
  then obtain d where d: "sn_cards st = Some d" "cc_active d" by (auto simp: cards_active_def split: option.splits)
  have "cards_all (\<lambda>d. card_ready d (market_end env)) d" "card_hi d = market_end env"
    using assms d by (auto simp: ready_def billing_ready_def)
  then have "cards_all (\<lambda>d. card_ready d (card_hi d)) d" by (simp add: cards_all_def)
  then obtain d' where "cards_drain_residual (d, sn_router st, sn_ledger st) = Some (Inr (d', sn_router st, sn_ledger st))"
    "cc_emitted d' = cc_emitted d" "cc_active d'"
    using drain_residual_quiet [OF d(2), of "sn_router st" "sn_ledger st"] by blast
  then show ?thesis using True d
    by (simp add: drain_card_cycles_def billing_call_def take_card_rows_def cards_take_emitted_def card_rows_def cards_active_def)
qed

end

end
