(* ===== verification/SpendSessions.thy ===== *)
theory SpendSessions
  imports SpendFacts
begin

text \<open>
  The windowed session against the retained run: advancing over any windows that tile the market gives
  the rows of one run, in batches that are final. Both fail alike; the session's own check for rows
  generated behind the watermark never fires.
\<close>

subsection \<open>Two runs with the same outcome\<close>

fun same_run :: "('a \<Rightarrow> 'b \<Rightarrow> bool) \<Rightarrow> 'a result option \<Rightarrow> 'b result option \<Rightarrow> bool" where
  "same_run R None None = True"
| "same_run R (Some (Inl e)) (Some (Inl e')) = (e = e')"
| "same_run R (Some (Inr a)) (Some (Inr b)) = R a b"
| "same_run R _ _ = False"

lemma same_run_bind:
  assumes "\<And>v. r = Some (Inr v) \<Longrightarrow> same_run R (f v) (g v)"
  shows "same_run R (bind_run r f) (bind_run r g)"
  using assms by (cases r rule: run_cases) simp_all

lemma same_run_map_left: "same_run R (map_run f x) y \<longleftrightarrow> same_run (\<lambda>a. R (f a)) x y"
  by (cases x rule: run_cases; cases y rule: run_cases) simp_all

lemma same_run_weaken:
  assumes "same_run R x y" "\<And>a b. x = Some (Inr a) \<Longrightarrow> R a b \<Longrightarrow> S a b"
  shows "same_run S x y"
  using assms by (cases x rule: run_cases; cases y rule: run_cases) auto

lemma same_run_bind_right:
  assumes "same_run R x y" "\<And>a b. R a b \<Longrightarrow> \<exists>c. g b = Some (Inr c) \<and> S a c"
  shows "same_run S x (bind_run y g)"
  using assms by (cases x rule: run_cases; cases y rule: run_cases) fastforce+

lemma same_run_bind_left:
  assumes "same_run R x y" "\<And>a b. R a b \<Longrightarrow> \<exists>c. f a = Some (Inr c) \<and> S c b"
  shows "same_run S (bind_run x f) y"
  using assms by (cases x rule: run_cases; cases y rule: run_cases) fastforce+

subsection \<open>Batches\<close>

text \<open>Final batches from one instant to another: each sorted and inside its window, the windows end to end.\<close>

fun tiled :: "time_point \<Rightarrow> batch list \<Rightarrow> time_point \<Rightarrow> bool" where
  "tiled t [] e \<longleftrightarrow> t = e"
| "tiled t (b # bs) e \<longleftrightarrow>
     wn_start (bt_finalized b) = t \<and> 0 \<le> wn_days (bt_finalized b) \<and> sorted (map audit_key (bt_txns b)) \<and>
     (\<forall>x \<in> set (bt_txns b). t \<le> tx_time x \<and> tx_time x < window_end (bt_finalized b)) \<and>
     tiled (window_end (bt_finalized b)) bs e"

definition batch_rows :: "batch list \<Rightarrow> txn list" where
  "batch_rows bs = concat (map bt_txns bs)"

lemma earlier_key: "tx_time a < tx_time b \<Longrightarrow> audit_key a \<le> audit_key b"
  by (simp add: audit_key_def less_eq_prod_def)

lemma tiled_rows:
  "tiled t bs e \<Longrightarrow> sorted (map audit_key (batch_rows bs)) \<and> (\<forall>x \<in> set (batch_rows bs). t \<le> tx_time x)"
proof (induction bs arbitrary: t)
  case (Cons b bs)
  let ?w = "bt_finalized b"
  have b: "sorted (map audit_key (bt_txns b))" "\<forall>x \<in> set (bt_txns b). t \<le> tx_time x \<and> tx_time x < window_end ?w"
    "t \<le> window_end ?w" "tiled (window_end ?w) bs e"
    using Cons.prems by (auto simp: window_end_def seconds_per_day_def)
  have IH: "sorted (map audit_key (batch_rows bs))" "\<forall>x \<in> set (batch_rows bs). window_end ?w \<le> tx_time x"
    using Cons.IH [OF b(4)] by simp_all
  have "\<forall>x \<in> set (bt_txns b). \<forall>y \<in> set (batch_rows bs). audit_key x \<le> audit_key y"
  proof (intro ballI)
    fix x y assume "x \<in> set (bt_txns b)" "y \<in> set (batch_rows bs)"
    then have "tx_time x < window_end ?w" "window_end ?w \<le> tx_time y" using b(2) IH(2) by simp_all
    then show "audit_key x \<le> audit_key y" by (intro earlier_key) simp
  qed
  moreover have "t \<le> tx_time x" if "x \<in> set (batch_rows bs)" for x using IH(2) b(3) that by force
  moreover have "batch_rows (b # bs) = bt_txns b @ batch_rows bs" by (simp add: batch_rows_def)
  ultimately show ?case
    using b(1,2) IH(1) by (auto simp: sorted_append)
qed (simp add: batch_rows_def)

lemma length_sorted_rows [simp]: "length (sort_for_replay xs) = length xs"
  by (simp add: sort_for_replay_def)

text \<open>The windows of a caller, from an instant on.\<close>

fun windows_of :: "time_point \<Rightarrow> nat list \<Rightarrow> window list" where
  "windows_of t [] = []"
| "windows_of t (n # ns) = \<lparr>wn_start = t, wn_days = int n\<rparr> # windows_of (add_days t (int n)) ns"

subsection \<open>Buffering and draining\<close>

definition taken :: "'e spend_state \<Rightarrow> 'e spend_state" where
  "taken st = st\<lparr>sn_cards := map_option (\<lambda>d. if cc_active d then d\<lparr>cc_emitted := []\<rparr> else d) (sn_cards st)\<rparr>"

lemma taken_fields [simp]:
  "sn_run (taken st) = sn_run st" "sn_engine (taken st) = sn_engine st" "sn_cursor (taken st) = sn_cursor st"
  "cards_active (taken st) = cards_active st" "card_rows (taken st) = []"
  by (auto simp: taken_def cards_active_def card_rows_def split: option.splits)

lemma taken_ready [simp]: "billing_ready env i (taken st) = billing_ready env i st"
proof -
  have "cards_all (\<lambda>d. card_ready d t) (d\<lparr>cc_emitted := []\<rparr>) = cards_all (\<lambda>d. card_ready d t) d" for d t
    using card_predicates_env(1) [of d "d\<lparr>cc_emitted := []\<rparr>"] by (simp add: cards_all_def same_cards_env_def)
  then show ?thesis by (auto simp: taken_def billing_ready_def)
qed

lemma take_card_rows_eq:
  "(if cards_active st then take_card_rows st else ([], st)) = (sort_for_replay (card_rows st), taken st)"
  by (cases "sn_cards st")
    (auto simp: cards_active_def take_card_rows_def cards_take_emitted_def card_rows_def taken_def sort_for_replay_def)

definition between :: "time_point \<Rightarrow> time_point \<Rightarrow> txn list \<Rightarrow> bool" where
  "between lo hi rows \<longleftrightarrow> (\<forall>t \<in> set rows. lo \<le> tx_time t \<and> tx_time t < hi)"

lemma mset_between: "mset xs = mset ys \<Longrightarrow> between lo hi xs = between lo hi ys"
  unfolding between_def by (metis set_mset_mset)

lemma mset_sorted_rows [simp]: "mset (sort_for_replay xs) = mset xs"
  by (simp add: sort_for_replay_def)

lemma sorted_rows_Nil [simp]: "sort_for_replay xs = [] \<longleftrightarrow> xs = []"
  by (metis mset_sorted_rows mset_zero_iff)

lemma buffer_ok:
  assumes "between (ss_finalized s) hi (rows @ card_rows (ss_state s))" "between (ss_finalized s) hi (ss_pending s)"
    "sorted (map audit_key (ss_pending s))"
  shows "\<exists>pending. buffer_transactions rows s = Inr (s\<lparr>ss_state := taken (ss_state s), ss_pending := pending,
      ss_card_events := ss_card_events s + length (card_rows (ss_state s))\<rparr>) \<and>
    mset pending = mset (ss_pending s) + mset rows + mset (card_rows (ss_state s)) \<and>
    sorted (map audit_key pending) \<and> between (ss_finalized s) hi pending"
proof -
  let ?new = "rows @ sort_for_replay (card_rows (ss_state s))" and ?st = "ss_state s"
  let ?s = "s\<lparr>ss_state := taken ?st, ss_card_events := ss_card_events s + length (card_rows ?st)\<rparr>"
  define pending where "pending = (if ?new = [] then ss_pending s else if ss_pending s = [] then sort_for_replay ?new
    else merge_by audit_key (ss_pending s) (sort_for_replay ?new))"
  have m: "mset pending = mset (ss_pending s) + mset rows + mset (card_rows ?st)"
    by (simp add: pending_def)
  have n: "between (ss_finalized s) hi ?new"
    using assms(1) by (auto simp: between_def sort_for_replay_def)
  have "\<not> tx_time (hd (sort_for_replay ?new)) < ss_finalized s" if "?new \<noteq> []"
  proof -
    have "sort_for_replay ?new \<noteq> []" using that by simp
    then have "hd (sort_for_replay ?new) \<in> set ?new" using mset_eq_setD [OF mset_sorted_rows, of ?new] hd_in_set by blast
    then show ?thesis using n by (force simp: between_def)
  qed
  then have "buffer_transactions rows s = Inr (?s\<lparr>ss_pending := pending\<rparr>)"
    by (auto simp: buffer_transactions_def take_card_rows_eq Let_def pending_def)
  moreover have "sorted (map audit_key pending)"
    using assms(3) by (auto simp: pending_def sort_for_replay_def intro: sorted_merge_by)
  moreover have "between (ss_finalized s) hi pending"
    using mset_between [of pending "ss_pending s @ rows @ card_rows ?st" "ss_finalized s" hi] m assms(1,2)
    by (auto simp: between_def)
  ultimately show ?thesis using m by (intro exI [of _ pending]) simp
qed

definition day_aligned :: "time_point \<Rightarrow> time_point \<Rightarrow> bool" where
  "day_aligned a b \<longleftrightarrow> a \<le> b \<and> (b - a) mod seconds_per_day = 0"

lemma day_aligned_refl [simp]: "day_aligned a a"
  by (simp add: day_aligned_def)

lemma day_aligned_add: "0 \<le> n \<Longrightarrow> day_aligned a (add_days a n)"
  by (simp add: day_aligned_def add_days_def seconds_per_day_def)

lemma drain_ok:
  assumes "day_aligned (ss_finalized s) bound" "bound \<le> market_end env" "sorted (map audit_key (ss_pending s))"
    "between (ss_finalized s) (market_end env) (ss_pending s)"
  shows "\<exists>b. drain_finalized env w bound s =
      Inr (b, s\<lparr>ss_pending := dropWhile (\<lambda>t. tx_time t < bound) (ss_pending s), ss_finalized := bound\<rparr>) \<and>
    bt_txns b = takeWhile (\<lambda>t. tx_time t < bound) (ss_pending s) \<and>
    (\<forall>bs e. tiled (ss_finalized s) (b # bs) e = tiled bound bs e) \<and>
    between bound (market_end env) (dropWhile (\<lambda>t. tx_time t < bound) (ss_pending s)) \<and>
    sorted (map audit_key (dropWhile (\<lambda>t. tx_time t < bound) (ss_pending s)))"
proof -
  let ?F = "ss_finalized s" and ?P = "\<lambda>t. tx_time t < bound"
  let ?days = "(bound - ?F) div seconds_per_day"
  let ?b = "\<lparr>bt_simulated = w, bt_finalized = \<lparr>wn_start = ?F, wn_days = ?days\<rparr>, bt_txns = takeWhile ?P (ss_pending s)\<rparr>"
  have a: "?F \<le> bound" "?F + ?days * seconds_per_day = bound" "0 \<le> ?days"
  proof -
    show "?F \<le> bound" using assms(1) by (simp add: day_aligned_def)
    have "(bound - ?F) mod seconds_per_day = 0" using assms(1) by (simp add: day_aligned_def)
    then have "bound - ?F = ?days * seconds_per_day" using div_mult_mod_eq [of "bound - ?F" seconds_per_day] by linarith
    then show "?F + ?days * seconds_per_day = bound" by simp
    show "0 \<le> ?days" using \<open>?F \<le> bound\<close> by (simp add: seconds_per_day_def div_int_pos_iff)
  qed
  have c: "clamp_time bound ?F (market_end env) = bound" using a(1) assms(2) by (auto simp: clamp_time_def)
  have srt: "sorted (map audit_key (takeWhile ?P (ss_pending s)))" "sorted (map audit_key (dropWhile ?P (ss_pending s)))"
  proof -
    have "map audit_key (ss_pending s) = map audit_key (takeWhile ?P (ss_pending s)) @ map audit_key (dropWhile ?P (ss_pending s))"
      by (simp flip: map_append)
    then have "sorted (map audit_key (takeWhile ?P (ss_pending s)) @ map audit_key (dropWhile ?P (ss_pending s)))"
      using assms(3) by (simp only:)
    then show "sorted (map audit_key (takeWhile ?P (ss_pending s)))" "sorted (map audit_key (dropWhile ?P (ss_pending s)))"
      by (simp_all only: sorted_append)
  qed
  have d: "between bound (market_end env) (dropWhile ?P (ss_pending s))"
    unfolding between_def
  proof (intro ballI conjI)
    fix x assume x: "x \<in> set (dropWhile ?P (ss_pending s))"
    show "bound \<le> tx_time x" by (rule sorted_drop_time [OF assms(3) x])
    show "tx_time x < market_end env" using assms(4) set_dropWhileD [OF x] by (simp add: between_def)
  qed
  have t: "\<forall>x \<in> set (takeWhile ?P (ss_pending s)). ?F \<le> tx_time x \<and> tx_time x < bound"
    using assms(4) by (auto simp: between_def dest: set_takeWhileD)
  have w: "window_end (bt_finalized ?b) = bound" using a(2) by (simp add: window_end_def)
  have "tiled ?F (?b # bs) e = tiled bound bs e" for bs e
    unfolding tiled.simps w using t srt(1) a(3) by simp
  moreover have "drain_finalized env w bound s = Inr (?b, s\<lparr>ss_pending := dropWhile ?P (ss_pending s), ss_finalized := bound\<rparr>)"
    using assms(1) by (simp add: drain_finalized_def Let_def c day_distance_def day_aligned_def)
  ultimately show ?thesis using d srt(2) by (intro exI [of _ ?b]) simp
qed

subsection \<open>What a day takes out\<close>

definition cleared :: "'e spend_state \<Rightarrow> 'e spend_state" where
  "cleared st = st\<lparr>sn_run := (sn_run st)\<lparr>rs_txns := []\<rparr>, sn_cursor := 0\<rparr>"

lemma cleared_fields [simp]:
  "rs_txns (sn_run (cleared st)) = []" "sn_engine (cleared st) = sn_engine st" "cards_active (cleared st) = cards_active st"
  "card_rows (cleared st) = card_rows st" "cursor_ok (cleared st)" "billing_ready env i (cleared st) = billing_ready env i st"
  by (simp_all add: cleared_def cards_active_def card_rows_def cursor_ok_def billing_ready_def)

lemma take_emitted_ok: "cursor_ok st \<Longrightarrow> take_emitted st = Inr (rs_txns (sn_run st), cleared st)"
  by (auto simp: take_emitted_def cursor_ok_def ingest_emitted_to_def Let_def cleared_def)

lemma taken_pushed:
  assumes "cursor_ok st"
  shows "st = pushed (rs_txns (sn_run st)) (card_rows st) (taken (cleared st))"
proof -
  have "emitted_before (cc_emitted d) (d\<lparr>cc_emitted := []\<rparr>) = d" "emitted_before [] d = d" for d
    by (simp_all add: emitted_before_def)
  moreover have "txns_before (rs_txns run) (run\<lparr>rs_txns := []\<rparr>) = run" for run by (simp add: txns_before_def)
  moreover have "st = st\<lparr>sn_cards := sn_cards st, sn_cursor := sn_cursor st\<rparr>" by simp
  ultimately show ?thesis
    using assms by (cases "sn_cards st")
      (auto simp: pushed_def taken_def cleared_def card_rows_def cursor_ok_def cards_active_def simp del: option.inject split: if_splits)
qed

lemma pushed_rows:
  "mset (rs_txns (sn_run (pushed xs cs st))) = mset xs + mset (rs_txns (sn_run st))"
  "cards_active st \<Longrightarrow> card_rows (pushed xs cs st) = cs @ card_rows st"
  "\<not> cards_active st \<Longrightarrow> card_rows (pushed xs cs st) = []" "\<not> cards_active st \<Longrightarrow> card_rows st = []"
  by (auto simp: card_rows_def cards_active_def emitted_before_def split: option.splits)

text \<open>The cards a run begins with: none, inactive, or a new driver over the market's window.\<close>

definition cards_new :: "'e spend_env \<Rightarrow> 'e spend_state \<Rightarrow> bool" where
  "cards_new env st \<longleftrightarrow> (\<forall>d. sn_cards st = Some d \<and> cc_active d \<longrightarrow>
     cc_cards d = [] \<and> cc_emitted d = [] \<and> billing_ok (cc_env d) \<and>
     ci_window (cc_inputs d) = \<lparr>wn_start = dy_start env, wn_days = int (dy_days env)\<rparr>)"

lemma cards_new_ready: "cards_new env st \<Longrightarrow> billing_ready env 0 st \<and> card_rows st = []"
  by (auto simp: cards_new_def billing_ready_def card_rows_def cards_all_def window_end_def market_end_def add_days_def split: option.split)

subsection \<open>A window\<close>

lemma day_aligned_diff: "day_aligned a b \<Longrightarrow> day_aligned a c \<Longrightarrow> b \<le> c \<Longrightarrow> day_aligned b c"
proof -
  assume "day_aligned a b" "day_aligned a c" "b \<le> c"
  moreover have "(c - b) mod seconds_per_day = ((c - a) mod seconds_per_day - (b - a) mod seconds_per_day) mod seconds_per_day"
    by (simp add: mod_diff_eq)
  ultimately show "day_aligned b c" by (simp add: day_aligned_def)
qed

lemma day_aligned_trans: "day_aligned a b \<Longrightarrow> day_aligned b c \<Longrightarrow> day_aligned a c"
proof -
  assume "day_aligned a b" "day_aligned b c"
  moreover have "(c - a) mod seconds_per_day = ((c - b) mod seconds_per_day + (b - a) mod seconds_per_day) mod seconds_per_day"
    by (simp add: mod_add_eq)
  ultimately show "day_aligned a c" by (simp add: day_aligned_def)
qed

lemma day_index_frame: "day_index_for env (frame_start env i) = Inr i"
  by (simp add: day_index_for_def frame_start_def add_days_def seconds_per_day_def)

lemma window_of_frame: "window_end \<lparr>wn_start = frame_start env i, wn_days = int n\<rparr> = frame_start env (i + n)"
  by (simp add: window_end_def frame_start_def add_days_def algebra_simps)

lemma frame_aligned: "day_aligned (dy_start env) (frame_start env i)"
  unfolding frame_start_def by (rule day_aligned_add) simp

context emission_engine
begin

text \<open>A session between two calls.\<close>

definition parked :: "nat \<Rightarrow> prepared_run \<Rightarrow> 'e spend_session \<Rightarrow> bool" where
  "parked i pr s \<longleftrightarrow> ss_prepared s = Some pr \<and> \<not> ss_finished s \<and> ss_next s = i \<and> ready i (ss_state s) \<and>
     rs_txns (sn_run (ss_state s)) = [] \<and> card_rows (ss_state s) = [] \<and> sorted (map audit_key (ss_pending s)) \<and>
     between (ss_finalized s) (market_end env) (ss_pending s) \<and> day_aligned (dy_start env) (ss_finalized s) \<and>
     ss_finalized s \<le> max (dy_start env) (frame_start env i - 32 * seconds_per_day) \<and> ss_finalized s \<le> market_end env"

lemma session_advance_days:
  assumes "parked i pr s" "0 < n" "i + n \<le> dy_days env"
  shows "session_advance env \<lparr>wn_start = frame_start env i, wn_days = int n\<rparr> s =
    bind_run (run_days env pr [i..<i + n] (ss_state s)) (\<lambda>st.
    bind_run (Some (take_emitted st)) (\<lambda>(rows, st).
    bind_run (Some (buffer_transactions rows (s\<lparr>ss_state := st, ss_next := i + n\<rparr>))) (\<lambda>s.
      Some (drain_finalized env \<lparr>wn_start = frame_start env i, wn_days = int n\<rparr>
        (max (frame_start env (i + n) - 32 * seconds_per_day) (ss_finalized s)) s))))"
  using assms
  by (simp add: session_advance_def parked_def ensure_prepared_def day_index_frame window_of_frame add_days_def finalization_lag_days_def Let_def)

lemma session_window:
  assumes "parked i pr s" "0 < n" "i + n \<le> dy_days env" "dy_start env mod seconds_per_day = 0"
    "run_days env pr [i..<i + n] (ss_state s) = Some (Inr st)"
  shows "\<exists>b s'. session_advance env \<lparr>wn_start = frame_start env i, wn_days = int n\<rparr> s = Some (Inr (b, s')) \<and>
    parked (i + n) pr s' \<and> ss_state s' = taken (cleared st) \<and>
    mset (bt_txns b) + mset (ss_pending s') = mset (ss_pending s) + mset (rs_txns (sn_run st)) + mset (card_rows st) \<and>
    (\<forall>bs e. tiled (ss_finalized s) (b # bs) e = tiled (ss_finalized s') bs e)"
proof -
  let ?F = "ss_finalized s" and ?hi = "market_end env"
  let ?bound = "max (frame_start env (i + n) - 32 * seconds_per_day) ?F"
  have p: "ready i (ss_state s)" "rs_txns (sn_run (ss_state s)) = []" "card_rows (ss_state s) = []"
    "sorted (map audit_key (ss_pending s))" "between ?F ?hi (ss_pending s)" "day_aligned (dy_start env) ?F"
    "?F \<le> max (dy_start env) (frame_start env i - 32 * seconds_per_day)" "?F \<le> ?hi"
    using assms(1) by (simp_all add: parked_def)
  have r: "ready (i + n) st" "added i (ss_state s) st"
    using run_days_ready [OF assms(5) p(1) _ assms(3,4)] by simp_all
  have start: "dy_start env \<le> frame_start env i" using frame_start_mono [of 0 i env] by simp
  have F: "?F \<le> frame_start env i" "?F \<le> backdate_limit (dy_start env) (frame_start env i)"
    using p(7) start by (auto simp: backdate_limit_def seconds_per_day_def)
  have new: "between ?F ?hi (rs_txns (sn_run st) @ card_rows st)"
    using r(2) p(2,3) F by (fastforce simp: added_def between_def timely_def)
  have t: "take_emitted st = Inr (rs_txns (sn_run st), cleared st)" using r(1) by (simp add: take_emitted_ok ready_def)
  let ?s = "s\<lparr>ss_state := cleared st, ss_next := i + n\<rparr>"
  obtain pending where b: "buffer_transactions (rs_txns (sn_run st)) ?s = Inr (?s\<lparr>ss_state := taken (cleared st), ss_pending := pending,
      ss_card_events := ss_card_events s + length (card_rows st)\<rparr>)"
    "mset pending = mset (ss_pending s) + mset (rs_txns (sn_run st)) + mset (card_rows st)"
    "sorted (map audit_key pending)" "between ?F ?hi pending"
    using buffer_ok [of ?s ?hi "rs_txns (sn_run st)"] new p(4,5) by auto
  let ?s2 = "?s\<lparr>ss_state := taken (cleared st), ss_pending := pending, ss_card_events := ss_card_events s + length (card_rows st)\<rparr>"
  have al: "day_aligned ?F ?bound"
  proof (cases "?F \<le> frame_start env (i + n) - 32 * seconds_per_day")
    case True
    have "frame_start env (i + n) - 32 * seconds_per_day - dy_start env = (int (i + n) - 32) * seconds_per_day"
      by (simp add: frame_start_def add_days_def algebra_simps)
    moreover have "dy_start env \<le> ?F" using p(6) by (simp add: day_aligned_def)
    ultimately have "day_aligned (dy_start env) (frame_start env (i + n) - 32 * seconds_per_day)"
      using True by (simp add: day_aligned_def)
    from day_aligned_diff [OF p(6) this True] True show ?thesis by (simp add: max_def)
  qed simp
  have "frame_start env (i + n) \<le> ?hi" using frame_start_mono [OF assms(3), of env] by simp
  then have le: "?bound \<le> ?hi" using p(8) by (simp add: seconds_per_day_def)
  let ?w = "\<lparr>wn_start = frame_start env i, wn_days = int n\<rparr>"
  obtain bt where d: "drain_finalized env ?w ?bound ?s2 =
      Inr (bt, ?s2\<lparr>ss_pending := dropWhile (\<lambda>t. tx_time t < ?bound) pending, ss_finalized := ?bound\<rparr>)"
    "bt_txns bt = takeWhile (\<lambda>t. tx_time t < ?bound) pending"
    "\<forall>bs e. tiled ?F (bt # bs) e = tiled ?bound bs e"
    "between ?bound ?hi (dropWhile (\<lambda>t. tx_time t < ?bound) pending)"
    "sorted (map audit_key (dropWhile (\<lambda>t. tx_time t < ?bound) pending))"
    using drain_ok [of ?s2 ?bound env ?w] al le b(3,4) by auto
  let ?s3 = "?s2\<lparr>ss_pending := dropWhile (\<lambda>t. tx_time t < ?bound) pending, ss_finalized := ?bound\<rparr>"
  have "session_advance env ?w s = Some (Inr (bt, ?s3))"
    using session_advance_days [OF assms(1-3)] assms(5) t b(1) d(1) by simp
  moreover have "cursor_ok (taken (cleared st))" by (simp add: cursor_ok_def cleared_def)
  then have "ready (i + n) (taken (cleared st))" using r(1) by (simp add: ready_def)
  then have "parked (i + n) pr ?s3"
    using assms(1) d(4,5) le al p(6,7) day_aligned_trans [OF p(6) al] frame_start_mono [of i "i + n" env]
    by (auto simp: parked_def)
  moreover have "mset (bt_txns bt) + mset (ss_pending ?s3) = mset pending"
    unfolding d(2) by (simp flip: mset_append)
  ultimately show ?thesis using b(2) d(3) by (intro exI [of _ bt] exI [of _ ?s3]) simp
qed

lemma session_end:
  assumes "parked (dy_days env) pr s" "0 < dy_days env"
  shows "\<exists>b s'. session_finish env s = Some (Inr (b, s')) \<and> mset (bt_txns b) = mset (ss_pending s) \<and>
    (\<forall>bs e. tiled (ss_finalized s) (b # bs) e = tiled (market_end env) bs e)"
proof -
  let ?F = "ss_finalized s" and ?hi = "market_end env" and ?st = "ss_state s"
  have p: "ready (dy_days env) ?st" "rs_txns (sn_run ?st) = []" "card_rows ?st = []" "\<not> ss_finished s" "ss_prepared s = Some pr"
    "sorted (map audit_key (ss_pending s))" "between ?F ?hi (ss_pending s)" "day_aligned (dy_start env) ?F" "?F \<le> ?hi"
    using assms(1) by (simp_all add: parked_def)
  have t: "take_emitted ?st = Inr ([], cleared ?st)" using p(1,2) take_emitted_ok [of ?st] by (simp add: ready_def)
  have live: "live (sn_engine ?st)" using p(1) by (simp add: ready_def)
  let ?s1 = "s\<lparr>ss_state := cleared ?st\<rparr>"
  obtain pend1 where b1: "buffer_transactions [] ?s1 = Inr (?s1\<lparr>ss_state := taken (cleared ?st), ss_pending := pend1,
      ss_card_events := ss_card_events s\<rparr>)" "mset pend1 = mset (ss_pending s)" "sorted (map audit_key pend1)" "between ?F ?hi pend1"
    using buffer_ok [of ?s1 ?hi "[]"] p(3,6,7) by (auto simp: between_def)
  let ?s2 = "?s1\<lparr>ss_state := taken (cleared ?st), ss_pending := pend1, ss_card_events := ss_card_events s\<rparr>"
  have "cursor_ok (taken (cleared ?st))" by (simp add: cursor_ok_def cleared_def)
  then have "ready (dy_days env) (taken (cleared ?st))" using p(1) by (simp add: ready_def)
  from drain_same [OF this] obtain st2 where st2: "drain_card_cycles (taken (cleared ?st)) = Some (Inr ([], st2))"
    "card_rows st2 = []" by (auto simp: sort_for_replay_def)
  let ?s3 = "?s2\<lparr>ss_state := st2\<rparr>"
  obtain pend2 where b2: "buffer_transactions [] ?s3 = Inr (?s3\<lparr>ss_state := taken st2, ss_pending := pend2,
      ss_card_events := ss_card_events s\<rparr>)" "mset pend2 = mset pend1" "sorted (map audit_key pend2)" "between ?F ?hi pend2"
    using buffer_ok [of ?s3 ?hi "[]"] st2(2) b1(3,4) by (auto simp: between_def)
  let ?s4 = "?s3\<lparr>ss_state := taken st2, ss_pending := pend2, ss_card_events := ss_card_events s, ss_finished := True\<rparr>"
  have "day_aligned ?F ?hi" using day_aligned_diff [OF p(8) _ p(9)] frame_aligned [of env "dy_days env"] by simp
  then obtain b where d: "drain_finalized env \<lparr>wn_start = ?hi, wn_days = 0\<rparr> ?hi ?s4 =
      Inr (b, ?s4\<lparr>ss_pending := dropWhile (\<lambda>t. tx_time t < ?hi) pend2, ss_finalized := ?hi\<rparr>)"
    "bt_txns b = takeWhile (\<lambda>t. tx_time t < ?hi) pend2" "\<forall>bs e. tiled ?F (b # bs) e = tiled ?hi bs e"
    using drain_ok [of ?s4 ?hi env "\<lparr>wn_start = ?hi, wn_days = 0\<rparr>"] b2(3,4) by auto
  have "bt_txns b = pend2" using b2(4) unfolding d(2) by (simp add: between_def takeWhile_eq_all_conv)
  moreover have "session_finish env s = Some (Inr (b, ?s4\<lparr>ss_pending := dropWhile (\<lambda>t. tx_time t < ?hi) pend2, ss_finalized := ?hi\<rparr>))"
    using assms p(4,5) t b1(1) st2(1) b2(1) d(1)
    by (simp add: session_finish_def parked_def ensure_prepared_def finish_same [OF live])
  ultimately show ?thesis using d(3) b1(2) b2(2) by auto
qed

text \<open>The rows of a run, taken and not taken.\<close>

definition produced :: "'e spend_state \<Rightarrow> txn multiset" where
  "produced st = mset (rs_txns (sn_run st)) + mset (card_rows st)"

lemma produced_pushed:
  assumes "cards_active st \<or> cs = []"
  shows "produced (pushed xs cs st) = mset xs + mset cs + produced st"
  using assms by (cases "cards_active st") (simp_all add: produced_def pushed_rows)

lemma run_days_append:
  "run_days e pr (xs @ ys) st = bind_run (run_days e pr xs st) (run_days e pr ys)"
proof (induction xs arbitrary: st)
  case (Cons i xs)
  then show ?case by (cases "run_day e pr i st" rule: run_cases) simp_all
qed simp

lemma session_from:
  assumes "parked i pr s" "i + sum_list ns = dy_days env" "\<forall>n \<in> set ns. 0 < n" "0 < dy_days env" "dy_start env mod seconds_per_day = 0"
  shows "same_run (\<lambda>st (bs, s'). mset (batch_rows bs) = mset (ss_pending s) + produced st \<and> tiled (ss_finalized s) bs (market_end env))
    (run_days env pr [i..<dy_days env] (ss_state s)) (session_windows env (windows_of (frame_start env i) ns) s)"
  using assms(1-3)
proof (induction ns arbitrary: i s)
  case Nil
  then have p: "parked (dy_days env) pr s" "i = dy_days env" by simp_all
  then have "rs_txns (sn_run (ss_state s)) = []" "card_rows (ss_state s) = []" by (simp_all add: parked_def)
  moreover obtain b s' where "session_finish env s = Some (Inr (b, s'))" "mset (bt_txns b) = mset (ss_pending s)"
    "\<forall>bs e. tiled (ss_finalized s) (b # bs) e = tiled (market_end env) bs e"
    using session_end [OF p(1) assms(4)] by blast
  moreover from this(3) have "tiled (ss_finalized s) [b] (market_end env)" by (simp only: tiled.simps(1))
  ultimately show ?case using p(2) by (simp add: produced_def batch_rows_def del: tiled.simps)
next
  case (Cons n ns)
  let ?j = "i + n" and ?w = "\<lparr>wn_start = frame_start env i, wn_days = int n\<rparr>"
  have n: "0 < n" "?j \<le> dy_days env" "?j + sum_list ns = dy_days env" using Cons.prems by simp_all
  have days: "[i..<dy_days env] = [i..<?j] @ [?j..<dy_days env]" using upt_add_eq_append [of i ?j "dy_days env - ?j"] n(2) by simp
  have ws: "windows_of (frame_start env i) (n # ns) = ?w # windows_of (frame_start env ?j) ns"
    by (simp add: frame_start_def add_days_def algebra_simps)
  let ?R = "\<lambda>st (bs, s'). mset (batch_rows bs) = mset (ss_pending s) + produced st \<and> tiled (ss_finalized s) bs (market_end env)"
  show ?case
  proof (cases "run_days env pr [i..<?j] (ss_state s)" rule: run_cases)
    case (3 st1)
    obtain b s' where w: "session_advance env ?w s = Some (Inr (b, s'))" "parked ?j pr s'" "ss_state s' = taken (cleared st1)"
      "mset (bt_txns b) + mset (ss_pending s') = mset (ss_pending s) + mset (rs_txns (sn_run st1)) + mset (card_rows st1)"
      "\<forall>bs e. tiled (ss_finalized s) (b # bs) e = tiled (ss_finalized s') bs e"
      using session_window [OF Cons.prems(1) n(1,2) assms(5) 3] by blast
    have "ready i (ss_state s)" using Cons.prems(1) by (simp add: parked_def)
    then have r: "ready ?j st1" using run_days_ready [OF 3 _ _ n(2) assms(5)] by simp
    have st1: "st1 = pushed (rs_txns (sn_run st1)) (card_rows st1) (ss_state s')"
      unfolding w(3) by (rule taken_pushed) (use r in \<open>simp add: ready_def\<close>)
    have r': "ready ?j (ss_state s')" using w(2) by (simp add: parked_def)
    have act: "cards_active (ss_state s') \<or> card_rows st1 = []"
      unfolding w(3) using pushed_rows(4) [of st1] by auto
    have sim: "run_days env pr [?j..<dy_days env] st1 =
        map_run (pushed (rs_txns (sn_run st1)) (card_rows st1)) (run_days env pr [?j..<dy_days env] (ss_state s'))"
      by (subst st1) (rule run_days_before [OF r' n(2) _ assms(5)], simp)
    have IH: "same_run (\<lambda>st (bs, s''). mset (batch_rows bs) = mset (ss_pending s') + produced st \<and> tiled (ss_finalized s') bs (market_end env))
        (run_days env pr [?j..<dy_days env] (ss_state s')) (session_windows env (windows_of (frame_start env ?j) ns) s')"
      by (rule Cons.IH [OF w(2) n(3)]) (use Cons.prems(3) in simp)
    have "same_run (\<lambda>st. ?R (pushed (rs_txns (sn_run st1)) (card_rows st1) st)) (run_days env pr [?j..<dy_days env] (ss_state s'))
        (bind_run (session_windows env (windows_of (frame_start env ?j) ns) s') (\<lambda>(bs, s''). Some (Inr (b # bs, s''))))"
    proof (rule same_run_bind_right [OF same_run_weaken [OF IH]])
      fix st and bs' :: "batch list \<times> 'e spend_session"
      assume st: "run_days env pr [?j..<dy_days env] (ss_state s') = Some (Inr st)"
        and R: "case bs' of (bs, s'') \<Rightarrow> mset (batch_rows bs) = mset (ss_pending s') + produced st \<and> tiled (ss_finalized s') bs (market_end env)"
      have "cards_active st = cards_active (ss_state s')"
        using run_days_ready [OF st r' n(2) _ assms(5)] by (simp add: added_def)
      then have "cards_active st \<or> card_rows st1 = []" using act by simp
      note P = produced_pushed [OF this, of "rs_txns (sn_run st1)"]
      show "case bs' of (bs, s'') \<Rightarrow> mset (batch_rows (b # bs)) = mset (ss_pending s) + produced (pushed (rs_txns (sn_run st1)) (card_rows st1) st) \<and>
          tiled (ss_finalized s) (b # bs) (market_end env)"
        using R w(4,5) by (cases bs') (simp add: P batch_rows_def add_ac)
    qed fastforce
    then show ?thesis
      unfolding ws days run_days_append session_windows.simps w(1) 3 bind_run_simps case_prod_conv sim by (simp add: same_run_map_left)
  qed (use session_advance_days [OF Cons.prems(1) n(1,2)] in \<open>simp_all add: days run_days_append ws\<close>)
qed

subsection \<open>The whole run\<close>

lemma warm_start_txns [simp]: "rs_txns (apply_warm_start ps run) = rs_txns run"
  by (induction ps arbitrary: run) (auto simp: apply_warm_start_def set_since_def)

lemma same_keys: "mset xs = mset ys \<Longrightarrow> sorted (map audit_key xs) \<Longrightarrow> sorted (map audit_key ys) \<Longrightarrow> map audit_key xs = map audit_key ys"
  using properties_for_sort [of "map audit_key xs" "map audit_key ys"] properties_for_sort [of "map audit_key ys" "map audit_key ys"]
    mset_map [of audit_key xs] mset_map [of audit_key ys] by simp

lemma simulator_tail:
  assumes "ready (dy_days env) st"
  shows "bind_run (emission_call (dy_finish env) st) (\<lambda>st. bind_run (drain_card_cycles st) (\<lambda>(residual, st).
      Some (Inr (sort_for_replay (rs_txns (sn_run st) @ residual))))) =
    Some (Inr (sort_for_replay (rs_txns (sn_run st) @ sort_for_replay (card_rows st))))"
proof -
  have "live (sn_engine st)" using assms by (simp add: ready_def)
  then show ?thesis using drain_same [OF assms] by (auto simp: finish_same)
qed

lemma session_prepares:
  assumes "0 < n" "0 < dy_days env" "ss_prepared s = None" "\<not> ss_finished s"
  shows "session_windows env (windows_of t (n # ns)) s = bind_run (prepare_run env (ss_state s)) (\<lambda>(pr, st).
    session_windows env (windows_of t (n # ns)) (s\<lparr>ss_state := st, ss_prepared := Some pr\<rparr>))"
proof -
  have "session_advance env \<lparr>wn_start = t, wn_days = int n\<rparr> s = bind_run (prepare_run env (ss_state s)) (\<lambda>(pr, st).
      session_advance env \<lparr>wn_start = t, wn_days = int n\<rparr> (s\<lparr>ss_state := st, ss_prepared := Some pr\<rparr>))"
    using assms by (cases "prepare_run env (ss_state s)" rule: run_cases) (simp_all add: session_advance_def ensure_prepared_def split_beta)
  then show ?thesis unfolding windows_of.simps session_windows.simps
    by (cases "prepare_run env (ss_state s)" rule: run_cases) (simp_all add: split_beta)
qed

lemma session_is_simulator:
  assumes "cards_new env st" "sum_list ns = dy_days env" "\<forall>n \<in> set ns. 0 < n" "dy_start env mod seconds_per_day = 0"
  shows "same_run (\<lambda>rows (bs, s'). mset (batch_rows bs) = mset rows \<and> map audit_key (batch_rows bs) = map audit_key rows \<and>
      tiled (dy_start env) bs (market_end env))
    (simulator_run env st) (session_windows env (windows_of (dy_start env) ns) (spend_session_new env st))"
proof (cases "dy_days env = 0")
  case True
  then have "ns = []" using assms(2,3) by (cases ns) auto
  then show ?thesis using True
    by (simp add: simulator_run_def session_finish_def spend_session_new_def batch_rows_def market_end_def window_end_def add_days_def Let_def)
next
  case False
  then obtain n ns' where ns: "ns = n # ns'" "0 < n" using assms(2,3) by (cases ns) auto
  let ?s = "spend_session_new env st"
  let ?R = "\<lambda>rows (bs, s'). mset (batch_rows bs) = mset rows \<and> map audit_key (batch_rows bs) = map audit_key rows \<and>
      tiled (dy_start env) bs (market_end env)"
  have ses: "session_windows env (windows_of (dy_start env) ns) ?s = bind_run (prepare_run env st) (\<lambda>(pr, st).
      session_windows env (windows_of (dy_start env) ns) (?s\<lparr>ss_state := st, ss_prepared := Some pr\<rparr>))"
    unfolding ns(1) using session_prepares [OF ns(2), of ?s] False by (simp add: spend_session_new_def del: windows_of.simps)
  show ?thesis
  proof (cases "prepare_run env st" rule: run_cases)
    case (3 v)
    obtain pr st1 where v: "v = (pr, st1)" by (cases v)
    have p: "live (sn_engine st1)" "sn_cards st1 = sn_cards st" "rs_txns (sn_run st1) = []" "sn_cursor st1 = 0"
      using 3 v prepare_live by (auto simp: prepare_run_def bind_run_Inr run_state_new_def)
    then have rd: "ready 0 st1" "card_rows st1 = []"
      using cards_new_ready [OF assms(1)] by (simp_all add: ready_def billing_ready_def cursor_ok_def card_rows_def)
    let ?s1 = "?s\<lparr>ss_state := st1, ss_prepared := Some pr\<rparr>"
    have pk: "parked 0 pr ?s1"
      using rd p(3) frame_start_mono [of 0 "dy_days env" env]
      by (simp add: parked_def spend_session_new_def between_def)
    have S: "same_run (\<lambda>st (bs, s'). mset (batch_rows bs) = produced st \<and> tiled (dy_start env) bs (market_end env))
        (run_days env pr [0..<dy_days env] st1) (session_windows env (windows_of (dy_start env) ns) ?s1)"
      using session_from [OF pk _ assms(3) _ assms(4)] assms(2) False by (simp add: spend_session_new_def)
    have "same_run ?R (bind_run (run_days env pr [0..<dy_days env] st1) (\<lambda>st.
        Some (Inr (sort_for_replay (rs_txns (sn_run st) @ sort_for_replay (card_rows st))))))
        (session_windows env (windows_of (dy_start env) ns) ?s1)"
    proof (rule same_run_bind_left [OF S], intro exI conjI)
      fix st and b :: "batch list \<times> 'e spend_session"
      assume R: "case b of (bs, s') \<Rightarrow> mset (batch_rows bs) = produced st \<and> tiled (dy_start env) bs (market_end env)"
      let ?rows = "sort_for_replay (rs_txns (sn_run st) @ sort_for_replay (card_rows st))"
      have m: "mset ?rows = produced st" "sorted (map audit_key ?rows)" by (simp_all add: produced_def sort_for_replay_def)
      show "?R ?rows b" using R same_keys [OF _ _ m(2)] tiled_rows m(1) by (cases b) (auto simp del: mset_sorted_rows)
    qed simp
    moreover have "simulator_run env st = bind_run (run_days env pr [0..<dy_days env] st1) (\<lambda>st.
        Some (Inr (sort_for_replay (rs_txns (sn_run st) @ sort_for_replay (card_rows st)))))"
      using False 3 v run_days_ready [OF _ rd(1), of pr "dy_days env"] assms(4)
      by (auto simp: simulator_run_def simulator_tail intro!: bind_run_cong_Inr)
    ultimately show ?thesis unfolding ses 3 v by simp
  qed (use ses False in \<open>simp_all add: simulator_run_def\<close>)
qed

end

end
