(* ===== verification/EmissionFacts.thy ===== *)
theory EmissionFacts
  imports Emission SpendSessions WorkersClaims
begin

text \<open>
  The rows a spender proposes lie in the day, and its attempts are bounded; the workers' buffers hold the
  spenders' proposals in order however the work is split; settling a day only appends to the run.
\<close>

subsection \<open>The time of a row\<close>

lemma hour_from_le: "hour \<le> 23 \<Longrightarrow> hour_from cdf u hour \<le> 23"
  by (induction cdf u hour rule: hour_from.induct) (subst hour_from.simps, simp)

lemma pick_hour_le: "pick_hour cdf u \<le> 23"
  by (simp add: pick_hour_def hour_from_le)

lemma sample_offset_bounds:
  assumes "sample_offset t g = Some (Inr (off, g'))"
  shows "0 \<le> off" "off < seconds_per_day"
proof -
  obtain u g1 where u: "next_double g = (u, g1)" by (cases "next_double g")
  let ?h = "pick_hour (timing_cdf_for t) u"
  obtain m g2 s where d: "draw_int 0 60 g1 = Some (Inr (m, g2))" "draw_int 0 60 g2 = Some (Inr (s, g'))"
    "off = seconds_in_day (int ?h) m s"
    using assms u by (auto simp: sample_offset_def Let_def bind_run_Inr)
  have h: "int ?h \<le> 23" using pick_hour_le [of "timing_cdf_for t" u] by simp
  have m: "0 \<le> m" "m < 60" using draw_int_bounds [OF d(1)] by simp_all
  have s: "0 \<le> s" "s < 60" using draw_int_bounds [OF d(2)] by simp_all
  have "off = int ?h * 3600 + m * 60 + s"
    by (simp add: d(3) seconds_in_day_def seconds_per_hour_def seconds_per_minute_def)
  then show "0 \<le> off" "off < seconds_per_day" using h m s by (simp_all add: seconds_per_day_def)
qed

subsection \<open>Proposals\<close>

lemma spend_draft_time [simp]: "df_time (spend_draft src dst amount ts ch) = ts"
  by (simp add: spend_draft_def)

lemma external_draft_time: "external_draft env ev dst g = (er, g') \<Longrightarrow> df_time (er_draft er) = vt_ts ev"
  by (auto simp: external_draft_def Let_def split_beta)

lemma emit_bill_time: "emit_bill env ev g = Some (Inr (er, g')) \<Longrightarrow> df_time (er_draft er) = vt_ts ev"
  by (auto simp: emit_bill_def Let_def split_beta bind_run_Inr)

lemma emit_external_time: "emit_external env ev g = Some (Inr (er, g')) \<Longrightarrow> df_time (er_draft er) = vt_ts ev"
  by (auto simp: emit_external_def Let_def bind_run_Inr external_draft_time split: option.splits)

lemma emit_p2p_time: "emit_p2p env ev g = Some (Inr (er, g')) \<Longrightarrow> df_time (er_draft er) = vt_ts ev"
  by (auto simp: emit_p2p_def emit_no_contact_p2p_def Let_def split_beta bind_run_Inr external_draft_time split: if_splits)

lemma emit_merchant_time: "emit_merchant env ev g = Some (Inr (Some er, g')) \<Longrightarrow> df_time (er_draft er) = vt_ts ev"
  by (auto simp: emit_merchant_def Let_def split_beta bind_run_Inr split: if_splits)

lemma route_payment_time: "route_payment env sl ev g = Some (Inr (Some er, g')) \<Longrightarrow> df_time (er_draft er) = vt_ts ev"
  by (cases sl) (auto simp: route_payment_def bind_run_Inr emit_bill_time emit_external_time emit_p2p_time emit_merchant_time)

text \<open>What an accepted proposal is: a row with the posting's time, decided on the ledger it was proposed to.\<close>

definition sound_proposal :: "ledger option \<Rightarrow> time_point \<Rightarrow> proposal \<Rightarrow> bool" where
  "sound_proposal bk day x = (case x of (t, p) \<Rightarrow>
     in_day day t \<and> po_time p = tx_time t \<and> po_amount p = tx_amount t \<and> po_channel p = tx_channel t \<and>
     accepted (gate_decide bk (po_src p) (po_dst p) (po_amount p) (po_channel p)))"

lemma try_emit_sound:
  assumes "try_emit ec pe bk ev gr = Some (Inr (Some x, gr'))" "day \<le> vt_ts ev" "vt_ts ev < day + seconds_per_day"
  shows "sound_proposal bk day x"
proof -
  obtain g r where gr: "gr = (g, r)" by (cases gr)
  obtain u g1 where u: "next_double g = (u, g1)" by (cases "next_double g")
  obtain er g2 t r' g' where s: "route_payment pe (pick_slot (ro_cdf (pe_routing pe)) u) ev g1 = Some (Inr (Some er, g2))"
    "make_row (ec_ring ec) (er_draft er) g2 r = Some (Inr (t, g', r'))"
    "accepted (gate_decide bk (er_src er) (er_dst er) (df_amount (er_draft er)) (df_channel (er_draft er)))"
    "x = (t, \<lparr>po_src = er_src er, po_dst = er_dst er, po_amount = df_amount (er_draft er),
        po_channel = df_channel (er_draft er), po_time = df_time (er_draft er)\<rparr>)"
    using assms(1) by (auto simp: try_emit_def gr u Let_def bind_run_Inr split: option.splits if_splits)
  show ?thesis
    using s(3) make_row_fields [OF s(2)] route_payment_time [OF s(1)] assms(2,3) by (simp add: sound_proposal_def s(4) in_day_def)
qed

lemma attempt_sound:
  assumes "attempt ec pe bk day ev gr = Some (Inr (Some x, gr'))"
  shows "sound_proposal bk day x"
proof -
  obtain off g where a: "sample_offset (sx_timing (vt_spender ev)) (fst gr) = Some (Inr (off, g))"
    "try_emit ec pe bk (ev\<lparr>vt_ts := day + off\<rparr>) (g, snd gr) = Some (Inr (Some x, gr'))"
    using assms by (auto simp: attempt_def bind_run_Inr)
  show ?thesis by (rule try_emit_sound [OF a(2)]) (use sample_offset_bounds [OF a(1)] in simp_all)
qed

lemma attempts_all:
  assumes "attempts f tries want fails st = Some (Inr (out, st'))" "\<And>st x st'. f st = Some (Inr (Some x, st')) \<Longrightarrow> P x"
  shows "(\<forall>x \<in> set out. P x) \<and> length out \<le> want \<and> length out \<le> tries"
  using assms(1)
proof (induction tries arbitrary: want fails st out)
  case (Suc tries)
  show ?case
  proof (cases "want = 0")
    case False
    obtain em st1 where e: "f st = Some (Inr (em, st1))" using Suc.prems False by (auto simp: bind_run_Inr)
    show ?thesis
    proof (cases em)
      case None
      then show ?thesis using Suc.IH [of want "fails + 1" st1 out] Suc.prems e False by (auto split: if_splits)
    next
      case (Some x)
      obtain xs where "attempts f tries (want - 1) 0 st1 = Some (Inr (xs, st'))" "out = x # xs"
        using Suc.prems e False Some by (auto simp: bind_run_Inr)
      then show ?thesis using assms(2) [of st x st1] Suc.IH [of "want - 1" 0 st1 xs] e Some False by auto
    qed
  qed (use Suc.prems in simp)
qed simp

lemma attempts_sound:
  "attempts (attempt ec pe bk day ev) tries want fails st = Some (Inr (out, st')) \<Longrightarrow> x \<in> set out \<Longrightarrow> sound_proposal bk day x"
  using attempts_all [where P = "sound_proposal bk day"] attempt_sound by metis

subsection \<open>A spender's day\<close>

text \<open>Only the payday counters of the run are read, and only its two other counters change.\<close>

lemma counters_before:
  "consume_one_person_day (txns_before xs run) = txns_before xs (consume_one_person_day run)"
  "consume_accepted n (txns_before xs run) = txns_before xs (consume_accepted n run)"
  "rs_since (txns_before xs run) = rs_since run"
  by (simp_all add: consume_one_person_day_def consume_accepted_def txns_before_def Let_def)

lemma counters_txns [simp]:
  "rs_txns (consume_one_person_day run) = rs_txns run" "rs_txns (consume_accepted n run) = rs_txns run"
  by (simp_all add: consume_one_person_day_def consume_accepted_def Let_def)

lemma spender_day_before:
  "spender_day ec v ps (gr, txns_before xs run) =
     map_run (\<lambda>(out, gr, run). (out, gr, txns_before xs run)) (spender_day ec v ps (gr, run))"
proof -
  have *: "bind_run a (\<lambda>(out, gr). Some (Inr (out, gr, txns_before xs (consume_accepted (length out) run)))) =
      map_run (\<lambda>(out, gr, run). (out, gr, txns_before xs run))
        (bind_run a (\<lambda>(out, gr). Some (Inr (out, gr, consume_accepted (length out) run))))"
    for a :: "(proposal list \<times> rng \<times> router option) result option" and run
    by (cases a rule: run_cases) auto
  show ?thesis
    by (cases gr) (simp add: spender_day_def Let_def split_beta counters_before *)
qed

lemma spender_day_sound:
  assumes "spender_day ec v ps (gr, run) = Some (Inr (out, gr', run'))"
  shows "(\<forall>x \<in> set out. sound_proposal (dz_ledger v) (sd_start (dm_day (dz_frame v))) x) \<and> rs_txns run' = rs_txns run"
proof -
  obtain g r where gr: "gr = (g, r)" by (cases gr)
  show ?thesis
    using assms by (auto simp: gr spender_day_def Let_def split_beta bind_run_Inr split: if_splits dest: attempts_sound)
qed

subsection \<open>Ranges of spenders\<close>

lemma emit_spenders_before:
  "emit_spenders ec v is (gr, txns_before xs run) =
     map_run (\<lambda>(out, gr, run). (out, gr, txns_before xs run)) (emit_spenders ec v is (gr, run))"
proof (induction "is" arbitrary: gr run)
  case (Cons i "is")
  obtain gs r where gr: "gr = (gs, r)" by (cases gr)
  show ?case
    by (cases "spender_day ec v (sp_spenders (dz_plan v) ! i) ((gs ! i, r), run)" rule: run_cases)
      (auto simp: gr spender_day_before Cons split_beta bind_map_run map_bind_run)
qed (cases gr, simp)

lemma emit_spenders_sound:
  "emit_spenders ec v is (gr, run) = Some (Inr (out, gr', run')) \<Longrightarrow>
     (\<forall>x \<in> set out. sound_proposal (dz_ledger v) (sd_start (dm_day (dz_frame v))) x) \<and> rs_txns run' = rs_txns run"
proof (induction "is" arbitrary: gr run out)
  case (Cons i "is")
  obtain gs r where gr: "gr = (gs, r)" by (cases gr)
  obtain o1 g1 r1 run1 o2 where s: "spender_day ec v (sp_spenders (dz_plan v) ! i) ((gs ! i, r), run) = Some (Inr (o1, (g1, r1), run1))"
    "emit_spenders ec v is ((gs[i := g1], r1), run1) = Some (Inr (o2, gr', run'))" "out = o1 @ o2"
    using Cons.prems by (auto simp: gr bind_run_Inr)
  show ?case using spender_day_sound [OF s(1)] Cons.IH [OF s(2)] s(3) by auto
qed simp

text \<open>A range in two parts.\<close>

lemma emit_spenders_append:
  "emit_spenders ec v (is @ js) st =
     bind_run (emit_spenders ec v is st) (\<lambda>(out, st). bind_run (emit_spenders ec v js st) (\<lambda>(outs, st). Some (Inr (out @ outs, st))))"
proof (induction "is" arbitrary: st)
  case Nil
  then show ?case by (cases "emit_spenders ec v js st" rule: run_cases) auto
next
  case (Cons i "is")
  obtain gs r run where st: "st = ((gs, r), run)" by (metis prod.collapse)
  show ?case
    by (cases "spender_day ec v (sp_spenders (dz_plan v) ! i) ((gs ! i, r), run)" rule: run_cases)
      (auto simp: st Cons bind_run_assoc split_beta)
qed

section \<open>The workers together and the engine\<close>

text \<open>
  A day's emission is one pass over all spenders followed by one settlement, however many workers share it;
  and the engine satisfies the contract of the day driver's emission.
\<close>

subsection \<open>The workers together\<close>

definition idle_scratch :: "nat \<Rightarrow> scratch list" where
  "idle_scratch n = replicate n ([], [])"

text \<open>The buffers hold the proposals of the workers up to \<open>k\<close> and nothing of the later ones.\<close>

definition holds :: "nat \<Rightarrow> nat \<Rightarrow> proposal list \<Rightarrow> scratch list \<Rightarrow> bool" where
  "holds n k out scs \<longleftrightarrow> length scs = n \<and> concat (map fst scs) = map fst out \<and> concat (map snd scs) = map snd out \<and>
     (\<forall>sc \<in> set scs. length (fst sc) = length (snd sc)) \<and> (\<forall>t. k \<le> t \<and> t < n \<longrightarrow> scs ! t = ([], []))"

lemma holds_idle: "holds n 0 [] (idle_scratch n)"
  by (simp add: holds_def idle_scratch_def)

lemma concat_map_update:
  assumes "k < length xs" "\<forall>i. k \<le> i \<and> i < length xs \<longrightarrow> f (xs ! i) = []"
  shows "concat (map f (xs[k := y])) = concat (map f xs) @ f y"
proof -
  have nil: "f x = []" if x: "x \<in> set (drop k xs)" for x
  proof -
    obtain i where "i < length (drop k xs)" "drop k xs ! i = x" using x by (metis in_set_conv_nth)
    then show ?thesis using assms by auto
  qed
  have late: "concat (map f (drop k xs)) = []" using nil by auto
  have "set (drop (Suc k) xs) \<subseteq> set (drop k xs)" by (rule set_drop_subset_set_drop) simp
  then have later: "concat (map f (drop (Suc k) xs)) = []" using nil by auto
  have "concat (map f xs) = concat (map f (take k xs)) @ concat (map f (drop k xs))"
    unfolding concat_append [symmetric] map_append [symmetric] append_take_drop_id ..
  then show ?thesis using assms(1) late later by (simp add: upd_conv_take_nth_drop)
qed

lemma holds_add:
  assumes "holds n k out scs" "k < n"
  shows "holds n (Suc k) (out @ more_out) (scs[k := scratch_add more_out (scs ! k)])"
proof -
  let ?sc = "scratch_add more_out (scs ! k)"
  have l: "length scs = n" "k < length scs" and k: "scs ! k = ([], [])" and late: "\<forall>i. k \<le> i \<and> i < length scs \<longrightarrow> scs ! i = ([], [])"
    using assms by (simp_all add: holds_def)
  have "concat (map fst (scs[k := ?sc])) = concat (map fst scs) @ fst ?sc"
    "concat (map snd (scs[k := ?sc])) = concat (map snd scs) @ snd ?sc"
    by (rule concat_map_update [OF l(2)], use late in simp)+
  then have c: "concat (map fst (scs[k := ?sc])) = map fst (out @ more_out)" "concat (map snd (scs[k := ?sc])) = map snd (out @ more_out)"
    using assms(1) k by (simp_all add: holds_def scratch_add_def)
  have "\<forall>sc \<in> set (scs[k := ?sc]). length (fst sc) = length (snd sc)"
    using assms(1) set_update_subset_insert [of scs k ?sc] k by (auto simp: holds_def scratch_add_def)
  then show ?thesis using c assms by (simp add: holds_def nth_list_update)
qed

lemma emit_workers_range:
  assumes "holds n k out scs" "k \<le> n"
  shows "same_run (\<lambda>(more_out, st1) (scs', st2). st1 = st2 \<and> holds n n (out @ more_out) scs')
    (emit_spenders ec v (concat (map (\<lambda>t. [fst (partition_range (length (sp_spenders (dz_plan v))) n t)..<
         snd (partition_range (length (sp_spenders (dz_plan v))) n t)]) [k..<n])) st)
    (emit_workers ec v n [k..<n] (scs, st))"
  using assms
proof (induction "n - k" arbitrary: k out scs st)
  case 0
  then show ?case by (cases "emit_spenders ec v [] st" rule: run_cases) (auto split: prod.splits)
next
  case (Suc d)
  let ?m = "length (sp_spenders (dz_plan v))"
  let ?R = "\<lambda>t. [fst (partition_range ?m n t)..<snd (partition_range ?m n t)]"
  have k: "k < n" and ks: "[k..<n] = k # [Suc k..<n]" using Suc.hyps(2) by (simp_all add: upt_conv_Cons)
  have d: "d = n - Suc k" using Suc.hyps(2) by simp
  have worker: "emit_workers ec v n [k..<n] (scs, st) = bind_run (emit_spenders ec v (?R k) st) (\<lambda>(o1, st1).
      emit_workers ec v n [Suc k..<n] (scs[k := scratch_add o1 (scs ! k)], st1))"
  proof (cases "snd (partition_range ?m n k) \<le> fst (partition_range ?m n k)")
    case True
    have "scratch_add [] (scs ! k) = scs ! k" by (simp add: scratch_add_def)
    then show ?thesis using True by (cases st) (simp add: ks split_beta)
  qed (simp add: ks split_beta)
  have one: "emit_spenders ec v (concat (map ?R [k..<n])) st = bind_run (emit_spenders ec v (?R k) st) (\<lambda>(o1, st1).
      bind_run (emit_spenders ec v (concat (map ?R [Suc k..<n])) st1) (\<lambda>(o2, st2). Some (Inr (o1 @ o2, st2))))"
    by (simp add: ks emit_spenders_append)
  show ?case
    unfolding worker one
  proof (rule same_run_bind)
    fix w :: "proposal list \<times> (rng list \<times> router option) \<times> run_state"
    obtain o1 st1 where w: "w = (o1, st1)" by (cases w)
    have IH: "same_run (\<lambda>(more_out, st1) (scs', st2). st1 = st2 \<and> holds n n ((out @ o1) @ more_out) scs')
        (emit_spenders ec v (concat (map ?R [Suc k..<n])) st1)
        (emit_workers ec v n [Suc k..<n] (scs[k := scratch_add o1 (scs ! k)], st1))"
      by (rule Suc.hyps(1) [OF d holds_add [OF Suc.prems(1) k]]) (use k in simp)
    show "same_run (\<lambda>(more_out, st1) (scs', st2). st1 = st2 \<and> holds n n (out @ more_out) scs')
        (case w of (o1, st1) \<Rightarrow> bind_run (emit_spenders ec v (concat (map ?R [Suc k..<n])) st1) (\<lambda>(o2, st2). Some (Inr (o1 @ o2, st2))))
        (case w of (o1, st1) \<Rightarrow> emit_workers ec v n [Suc k..<n] (scs[k := scratch_add o1 (scs ! k)], st1))"
      unfolding w case_prod_conv by (rule same_run_bind_left [OF IH]) auto
  qed
qed

subsection \<open>A day\<close>

lemma zip_map_fst_snd: "zip (map fst xs) (map snd xs) = xs"
  by (induction xs) auto

text \<open>The rows of a day that survive its settlement, and the ledger after it.\<close>

definition settle_day :: "proposal list \<Rightarrow> ledger option \<Rightarrow> txn list \<times> ledger option" where
  "settle_day out bk = post_proposals (sort_key (\<lambda>(t, p). audit_key t) out) bk"

lemma append_accepted_sound:
  assumes "\<forall>(t, p) \<in> set out. po_time p = tx_time t"
  shows "append_accepted_day (map fst out, map snd out) bk dest = Inr (dest @ fst (settle_day out bk), snd (settle_day out bk))"
  using assms by (auto simp: append_accepted_day_def zip_map_fst_snd settle_day_def split_beta)

lemma merge_idle: "merge_thread_txns (idle_scratch n) bk run = Inr (idle_scratch n, bk, run)"
  by (simp add: merge_thread_txns_def idle_scratch_def append_accepted_day_def)

lemma merge_held:
  assumes "holds n k out scs" "0 < n" "\<forall>(t, p) \<in> set out. po_time p = tx_time t"
  shows "merge_thread_txns scs bk run =
    Inr (idle_scratch n, snd (settle_day out bk), run\<lparr>rs_txns := rs_txns run @ fst (settle_day out bk)\<rparr>)"
proof -
  have "map (\<lambda>_. ([], [])) scs = idle_scratch n"
    using assms(1) by (simp add: holds_def idle_scratch_def map_replicate_const)
  moreover have "scs \<noteq> []" "\<not> (\<exists>sc \<in> set scs. length (fst sc) \<noteq> length (snd sc))"
    "concat (map fst scs) = map fst out" "concat (map snd scs) = map snd out"
    using assms(1,2) by (auto simp: holds_def)
  ultimately show ?thesis using append_accepted_sound [OF assms(3)] by (simp add: merge_thread_txns_def)
qed

text \<open>\<open>emitDay\<close> as one pass over all spenders and one settlement.\<close>

definition emit_day_spec :: "emission_config \<Rightarrow> day_view \<Rightarrow> (rng list \<times> router option) \<times> run_state \<Rightarrow>
    ((rng list \<times> router option) \<times> ledger option \<times> run_state) result option" where
  "emit_day_spec ec v st =
     bind_run (emit_spenders ec v [0..<length (sp_spenders (dz_plan v))] st) (\<lambda>(out, gr, run).
       Some (Inr (gr, snd (settle_day out (dz_ledger v)), run\<lparr>rs_txns := rs_txns run @ fst (settle_day out (dz_ledger v))\<rparr>)))"

lemma emit_day_one_pass:
  "emit_day ec v (idle_scratch (max (ec_threads ec) 1), st) =
     map_run (\<lambda>(gr, bk, run). (idle_scratch (max (ec_threads ec) 1), gr, bk, run)) (emit_day_spec ec v st)"
proof -
  let ?n = "max (ec_threads ec) 1" and ?m = "length (sp_spenders (dz_plan v))"
  have n: "0 < ?n" by simp
  have S: "same_run (\<lambda>(out, st1) (scs', st2). st1 = st2 \<and> holds ?n ?n out scs')
      (emit_spenders ec v [0..<?m] st) (emit_workers ec v ?n [0..<?n] (idle_scratch ?n, st))"
    using emit_workers_range [OF holds_idle, of ?n ec v st] partition_tiles [OF n, of ?m] by simp
  show ?thesis
  proof (cases "emit_spenders ec v [0..<?m] st" rule: run_cases)
    case 1
    then show ?thesis using S by (cases "emit_workers ec v ?n [0..<?n] (idle_scratch ?n, st)" rule: run_cases)
        (simp_all add: emit_day_def emit_day_spec_def Let_def)
  next
    case (2 e)
    then show ?thesis using S by (cases "emit_workers ec v ?n [0..<?n] (idle_scratch ?n, st)" rule: run_cases)
        (simp_all add: emit_day_def emit_day_spec_def Let_def)
  next
    case (3 w)
    obtain out gr run where w: "w = (out, gr, run)" by (cases w)
    obtain scs where e: "emit_workers ec v ?n [0..<?n] (idle_scratch ?n, st) = Some (Inr (scs, gr, run))" "holds ?n ?n out scs"
      using S 3 w by (cases "emit_workers ec v ?n [0..<?n] (idle_scratch ?n, st)" rule: run_cases) auto
    obtain gr0 run0 where st: "st = (gr0, run0)" by (cases st)
    have "\<forall>(t, p) \<in> set out. po_time p = tx_time t"
      using emit_spenders_sound [of ec v "[0..<?m]" gr0 run0 out gr run] 3 w st by (auto simp: sound_proposal_def)
    from merge_held [OF e(2) n this] show ?thesis using 3 w e(1) by (simp add: emit_day_def emit_day_spec_def Let_def)
  qed
qed

subsection \<open>The engine\<close>

lemma emit_day_spec_before:
  "emit_day_spec ec v (gr, txns_before xs run) = map_run (\<lambda>(gr, bk, run). (gr, bk, txns_before xs run)) (emit_day_spec ec v (gr, run))"
proof (cases "emit_spenders ec v [0..<length (sp_spenders (dz_plan v))] (gr, run)" rule: run_cases)
  case (3 w)
  then show ?thesis by (cases w) (simp add: emit_day_spec_def emit_spenders_before, simp add: txns_before_def)
qed (simp_all add: emit_day_spec_def emit_spenders_before)

lemma post_proposals_subset: "t \<in> set (fst (post_proposals xs bk)) \<Longrightarrow> t \<in> fst ` set xs"
proof (induction xs arbitrary: bk)
  case (Cons x xs)
  then show ?case by (cases x) (auto simp: Let_def split_beta split: if_splits option.splits)
qed simp

lemma settle_day_subset: "t \<in> set (fst (settle_day out bk)) \<Longrightarrow> t \<in> fst ` set out"
  using post_proposals_subset [of t "sort_key (\<lambda>(t, p). audit_key t) out" bk] by (simp add: settle_day_def)

lemma post_proposals_sorted: "sorted (map (\<lambda>(t, p). audit_key t) xs) \<Longrightarrow> sorted (map audit_key (fst (post_proposals xs bk)))"
proof (induction xs arbitrary: bk)
  case (Cons x xs)
  have "audit_key (fst x) \<le> audit_key t" if "t \<in> set (fst (post_proposals xs bk))" for t bk
    using post_proposals_subset [OF that] Cons.prems by (auto simp: split_beta)
  then show ?case using Cons by (cases x) (auto simp: Let_def split_beta split: option.splits)
qed simp

lemma settle_day_sorted: "sorted (map audit_key (fst (settle_day out bk)))"
  unfolding settle_day_def by (rule post_proposals_sorted) simp

lemma emit_day_spec_rows:
  assumes "emit_day_spec ec v (gr, run) = Some (Inr (gr', bk', run'))"
  shows "\<exists>rows. rs_txns run' = rs_txns run @ rows \<and> (\<forall>t \<in> set rows. in_day (sd_start (dm_day (dz_frame v))) t)"
proof -
  obtain out run1 where o: "emit_spenders ec v [0..<length (sp_spenders (dz_plan v))] (gr, run) = Some (Inr (out, gr', run1))"
    "rs_txns run' = rs_txns run1 @ fst (settle_day out (dz_ledger v))"
    using assms by (auto simp: emit_day_spec_def bind_run_Inr)
  from emit_spenders_sound [OF o(1)] settle_day_subset o(2) show ?thesis by (fastforce simp: sound_proposal_def)
qed

definition engine_idle :: "emission_config \<Rightarrow> engine \<Rightarrow> bool" where
  "engine_idle ec e \<longleftrightarrow> eg_scratch e = idle_scratch (max (ec_threads ec) 1)"

text \<open>A day of an idle engine, without the buffers.\<close>

definition engine_day :: "engine \<Rightarrow> nat \<Rightarrow> time_point \<Rightarrow> f64 list \<Rightarrow> ledger option \<Rightarrow> day_view" where
  "engine_day e i day mults bk =
     \<lparr>dz_plan = eg_plan e, dz_market = eg_market e,
      dz_frame = (eg_frame e)\<lparr>dm_day := (dm_day (eg_frame e))\<lparr>sd_index := i, sd_start := day\<rparr>\<rparr>, dz_mults = mults, dz_ledger = bk\<rparr>"

lemma engine_day_start [simp]: "sd_start (dm_day (dz_frame (engine_day e i day mults bk))) = day"
  by (simp add: engine_day_def)

lemma engine_emit_idle:
  assumes "engine_idle ec e"
  shows "engine_emit ec i day persons (e, r, bk, run) =
    bind_run (advance_all (ec_normal ec) (ec_drivers ec) (eg_sensitivities e) persons (eg_cohort e) (eg_rng e)) (\<lambda>(mults, co, g).
    bind_run (emit_day_spec ec (engine_day e i day mults bk) ((eg_rngs e, r), run)) (\<lambda>((gs, r), bk, run).
      Some (Inr (e\<lparr>eg_cohort := co, eg_rng := g, eg_rngs := gs\<rparr>, r, bk, run))))"
proof -
  have same: "e\<lparr>eg_cohort := co, eg_rng := g, eg_rngs := gs, eg_scratch := idle_scratch (max (ec_threads ec) (Suc 0))\<rparr> =
      e\<lparr>eg_cohort := co, eg_rng := g, eg_rngs := gs\<rparr>" for co g gs
    using assms by (cases e) (simp add: engine_idle_def)
  have "eg_scratch e = idle_scratch (max (ec_threads ec) 1)" using assms by (simp add: engine_idle_def)
  then show ?thesis
    by (cases "advance_all (ec_normal ec) (ec_drivers ec) (eg_sensitivities e) persons (eg_cohort e) (eg_rng e)" rule: run_cases)
      (simp_all add: engine_emit_def emit_day_one_pass [simplified One_nat_def] bind_map_run split_beta engine_day_def same,
        auto intro!: bind_run_cong_Inr)
qed

lemma engine_prepare_idle: "engine_prepare ec (e, l) = Some (Inr (pr, e', l')) \<Longrightarrow> engine_idle ec e'"
  by (auto simp: engine_prepare_def bind_run_Inr Let_def split_beta engine_idle_def idle_scratch_def split: option.splits)

lemma engine_open_idle: "engine_idle ec e \<Longrightarrow> engine_open ec i e = Some (Inr e') \<Longrightarrow> engine_idle ec e'"
  by (auto simp: engine_open_def Let_def split_beta engine_idle_def)

lemma engine_emit_before:
  assumes "engine_idle ec e"
  shows "engine_emit ec i day persons (e, r, l, txns_before xs run) = map_run (emission_before xs) (engine_emit ec i day persons (e, r, l, run))"
  by (cases "advance_all (ec_normal ec) (ec_drivers ec) (eg_sensitivities e) persons (eg_cohort e) (eg_rng e)" rule: run_cases)
    (simp_all add: engine_emit_idle [OF assms] emit_day_spec_before bind_map_run map_bind_run split_beta emission_before_def)

lemma engine_emit_rows:
  assumes "engine_idle ec e" "engine_emit ec i day persons (e, r, l, run) = Some (Inr (e', r', l', run'))"
  shows "engine_idle ec e' \<and> (\<exists>rows. rs_txns run' = rs_txns run @ rows \<and> (\<forall>t \<in> set rows. in_day day t))"
proof -
  obtain mults co g gs where s: "emit_day_spec ec (engine_day e i day mults l) ((eg_rngs e, r), run) = Some (Inr ((gs, r'), l', run'))"
    "e' = e\<lparr>eg_cohort := co, eg_rng := g, eg_rngs := gs\<rparr>"
    using assms(2) by (auto simp: engine_emit_idle [OF assms(1)] bind_run_Inr)
  show ?thesis using emit_day_spec_rows [OF s(1)] s(2) assms(1) by (simp add: engine_idle_def)
qed

lemma engine_finish_idle: "engine_idle ec e \<Longrightarrow> engine_finish ec (e, r, l, run) = Some (Inr (e, r, l, run))"
  by (cases e) (simp add: engine_finish_def engine_idle_def merge_idle)

interpretation engine_run: emission_engine "engine_env ec m" "engine_idle ec" for ec m
proof unfold_locales
  fix e l pr e' l'
  assume "dy_prepare (engine_env ec m) (e, l) = Some (Inr (pr, e', l'))"
  then show "engine_idle ec e'" by (simp add: engine_env_def engine_prepare_idle)
next
  fix e i e'
  assume "engine_idle ec e" "dy_open (engine_env ec m) i e = Some (Inr e')"
  then show "engine_idle ec e'" by (simp add: engine_env_def engine_open_idle)
qed (simp_all add: engine_env_def engine_emit_before engine_emit_rows engine_finish_idle)

end
