(* ===== verification/DynamicsFacts.thy ===== *)
theory DynamicsFacts
  imports Dynamics CardRows
begin

text \<open>A dormant person: how long an episode lasts and what it costs.\<close>

lemma draw_int_total:
  assumes "seeded g" "low < high" "high - low < 2 ^ 63"
  shows "\<exists>v g'. draw_int low high g = Some (Inr (v, g')) \<and> low \<le> v \<and> v < high \<and> seeded g'"
  using uniform_int_correct [OF assms(1,3)] assms(2) by (auto simp: draw_int_def to_run_def)

text \<open>The multipliers of the next days.\<close>

fun dormancy_days :: "dormancy_config \<Rightarrow> nat \<Rightarrow> dormancy \<Rightarrow> rng \<Rightarrow> (f64 list \<times> dormancy \<times> rng) result option" where
  "dormancy_days c 0 s g = Some (Inr ([], s, g))"
| "dormancy_days c (Suc k) s g =
     bind_run (dormancy_advance c s g) (\<lambda>(x, s, g).
     bind_run (dormancy_days c k s g) (\<lambda>(xs, s, g). Some (Inr (x # xs, s, g))))"

definition waking_rate :: "dormancy_config \<Rightarrow> nat \<Rightarrow> nat \<Rightarrow> f64" where
  "waking_rate c w k = dormancy_rate c \<lparr>do_phase = PhWaking, do_remaining = of_nat (w - k), do_wake_total = of_nat w\<rparr>"

lemma small_u8: "n < 256 \<Longrightarrow> unat (of_nat n :: u8) = n"
  by (simp add: unat_of_nat)

lemma pred_u8:
  assumes "n < 256" "0 < n"
  shows "(of_nat n :: u8) - 1 = of_nat (n - 1)" "(0 :: u8) < of_nat n" "((of_nat (n - 1) :: u8) = 0) = (n = 1)"
proof -
  show "(of_nat n :: u8) - 1 = of_nat (n - 1)" using assms by (simp add: of_nat_diff)
  show "(0 :: u8) < of_nat n" using assms by (simp add: word_less_nat_alt small_u8)
  have "n - 1 < 256" using assms by simp
  then show "((of_nat (n - 1) :: u8) = 0) = (n = 1)"
    using assms small_u8 [of "n - 1"] by (auto simp: word_unat_eq_iff)
qed

lemma waking_days:
  assumes "0 < w" "w < 256" "j \<le> w" "0 < j"
  shows "dormancy_days c j \<lparr>do_phase = PhWaking, do_remaining = of_nat j, do_wake_total = of_nat w\<rparr> g =
    Some (Inr (map (waking_rate c w) [w - j..<w], dormancy_new, g))"
  using assms(3,4)
proof (induction j)
  case (Suc j)
  have j: "Suc j < 256" using Suc.prems assms(2) by simp
  note p = pred_u8 [OF j zero_less_Suc]
  have r: "dormancy_rate c \<lparr>do_phase = PhWaking, do_remaining = of_nat (Suc j), do_wake_total = of_nat w\<rparr> = waking_rate c w (w - Suc j)"
    using Suc.prems by (simp add: waking_rate_def)
  show ?case
  proof (cases "j = 0")
    case True
    then have "[w - Suc j..<w] = [w - Suc j]" using assms(1) by (simp add: upt_rec)
    then show ?thesis using r p True
      by (simp add: dormancy_advance_def dormancy_step_def Let_def dormancy_new_def del: of_nat_Suc)
  next
    case False
    have "[w - Suc j..<w] = (w - Suc j) # [w - j..<w]" using Suc.prems by (simp add: upt_conv_Cons Suc_diff_Suc)
    then show ?thesis using r p False Suc
      by (simp add: dormancy_advance_def dormancy_step_def Let_def del: of_nat_Suc)
  qed
qed simp

lemma dormant_days:
  assumes "0 < n" "n < 256" "draw_int (dc_wake_min c) (dc_wake_max c + 1) g = Some (Inr (int w, g'))" "0 < w" "w < 256"
  shows "dormancy_days c (n + w) \<lparr>do_phase = PhDormant, do_remaining = of_nat n, do_wake_total = x\<rparr> g =
    Some (Inr (replicate n (dc_rate c) @ map (waking_rate c w) [0..<w], dormancy_new, g'))"
  using assms(1,2)
proof (induction n)
  case (Suc n)
  note p = pred_u8 [OF Suc.prems(2,1)]
  have r: "dormancy_rate c \<lparr>do_phase = PhDormant, do_remaining = y, do_wake_total = x\<rparr> = dc_rate c" for y
    by (simp add: dormancy_rate_def)
  have wk: "word_of_int (int w) = (of_nat w :: u8)" by simp
  show ?case
  proof (cases "n = 0")
    case True
    then show ?thesis using p r assms(3) waking_days [OF assms(4,5) order_refl assms(4), of c g'] wk
      by (simp add: dormancy_advance_def dormancy_step_def Let_def del: of_nat_Suc)
  next
    case False
    then show ?thesis using p r Suc
      by (simp add: dormancy_advance_def dormancy_step_def Let_def del: of_nat_Suc)
  qed
qed simp

text \<open>A duration past 255 days is cut to its low byte: 256 drawn days leave a person dormant for one.\<close>

lemma long_dormancy_is_truncated:
  assumes "do_phase s = PhActive" "coin (dc_enter_p c) g = (True, g1)"
    "draw_int (dc_duration_min c) (dc_duration_max c + 1) g1 = Some (Inr (256, g2))"
  shows "\<exists>s'. dormancy_step c s g = Some (Inr (s', g2)) \<and> do_phase s' = PhDormant \<and> do_remaining s' = 0"
  using assms by (simp add: dormancy_step_def)

end
