(* ===== verification/EmissionClaims.thy ===== *)
theory EmissionClaims
  imports EmissionFacts DynamicsFacts CardClaims "HOL-Library.Sublist"
begin

text \<open>The properties of a simulated run: the session, the workers, the emission of a day, dormancy.\<close>

subsection \<open>The session and the retained run\<close>






subsection \<open>The workers of a day\<close>





lemma post_proposals_subseq: "subseq (fst (post_proposals xs bk)) (map fst xs)"
proof (induction xs arbitrary: bk)
  case (Cons x xs)
  then show ?case by (cases x) (auto simp: split_beta Let_def)
qed simp

lemma post_proposals_unscreened: "fst (post_proposals xs None) = map fst xs"
  by (induction xs) (auto simp: split_beta Let_def)

text \<open>C9: what a day emits is sound. When \<open>emitDay\<close> starts with empty buffers, none of its three consistency
checks can fail. Every proposal of the spenders lies in the day, agrees with its posting in instant, amount and
channel, and was acceptable to the ledger as it stood at the day's start. The rows the day appends are proposed
rows, each at most once, in replay order, and all of them when no ledger screens them.\<close>

theorem emission_of_a_day_is_sound:
  "case emit_day ec v (idle_scratch (max (ec_threads ec) 1), gr, run) of
     None \<Rightarrow> emit_spenders ec v [0..<length (sp_spenders (dz_plan v))] (gr, run) = None
   | Some (Inl e) \<Rightarrow> emit_spenders ec v [0..<length (sp_spenders (dz_plan v))] (gr, run) = Some (Inl e)
   | Some (Inr (scs, gr', bk, run')) \<Rightarrow>
       \<exists>out run1 rows. emit_spenders ec v [0..<length (sp_spenders (dz_plan v))] (gr, run) = Some (Inr (out, gr', run1)) \<and>
         list_all (\<lambda>(t, p). in_day (sd_start (dm_day (dz_frame v))) t \<and>
            po_time p = tx_time t \<and> po_amount p = tx_amount t \<and> po_channel p = tx_channel t \<and>
            accepted (gate_decide (dz_ledger v) (po_src p) (po_dst p) (po_amount p) (po_channel p))) out \<and>
         rs_txns run' = rs_txns run @ rows \<and> sorted (map audit_key rows) \<and>
         (case dz_ledger v of
            None \<Rightarrow> rows = map fst (sort_key (\<lambda>(t, p). audit_key t) out)
          | Some l \<Rightarrow> subseq rows (map fst (sort_key (\<lambda>(t, p). audit_key t) out)))"
proof -
  let ?e = "emit_spenders ec v [0..<length (sp_spenders (dz_plan v))] (gr, run)"
  note one = emit_day_one_pass [of ec v "(gr, run)"]
  show ?thesis
  proof (cases ?e rule: run_cases)
    case (3 w)
    obtain out gr' run1 where w: "w = (out, gr', run1)" by (cases w)
    have s: "\<forall>x \<in> set out. sound_proposal (dz_ledger v) (sd_start (dm_day (dz_frame v))) x" "rs_txns run1 = rs_txns run"
      using emit_spenders_sound [of ec v _ gr run out gr' run1] 3 w by auto
    have "case dz_ledger v of None \<Rightarrow> fst (settle_day out (dz_ledger v)) = map fst (sort_key (\<lambda>(t, p). audit_key t) out)
        | Some l \<Rightarrow> subseq (fst (settle_day out (dz_ledger v))) (map fst (sort_key (\<lambda>(t, p). audit_key t) out))"
      by (simp add: settle_day_def post_proposals_unscreened post_proposals_subseq split: option.split)
    then show ?thesis using one 3 w s settle_day_sorted [of out "dz_ledger v"]
      by (simp add: emit_day_spec_def sound_proposal_def list_all_iff)
  qed (use one in \<open>simp_all add: emit_day_spec_def\<close>)
qed

subsection \<open>Dormancy\<close>



end
