(* ===== verification/Spec2Isabelle.thy ===== *)
theory Spec2Isabelle
  imports Lookup Channels LedgerClaims RandomClaims RowsClaims ReplayClaims TimeClaims SeedClaims
    AlmanacClaims FlushClaims SpoolClaims DriverClaims ScreeningClaims WorkersClaims SimClaims CardClaims
    EmissionClaims
begin

text \<open>
  PhantomLedger simulates retail banking and writes synthetic transaction data. Generators (under
  \<open>src/activity\<close>, \<open>transfers\<close> and \<open>synth\<close>) draw random rows; a clearing ledger decides every row
  in time order, retries the ones that lack funds and adds the fees and interest it charges; what
  is accepted goes, span by span of the run window, to sinks that write tables. This development
  models the deterministic core those parts share: the ledger, the replay that drives it, the
  random engine and its seeds, the row order, the calendar, the schedule and the flush.

  The theories follow the program, each after the ones it uses.

  \<^item> \<open>Prelude\<close>: machine types, exceptions as values, list lemmas. \<open>F64\<close>: \<open>double\<close> as
    exact rationals and the special values, every operation rounded to binary64. \<open>Text\<close>:
    decimal printing and \<open>std::stoi\<close>. \<open>PQueue\<close>: \<open>std::priority_queue\<close> by its contract.

  \<^item> \<open>Lookup\<close>, \<open>Identifiers\<close>, \<open>Channels\<close> (\<open>taxonomies\<close>, \<open>entities/identifiers\<close>): the constexpr
    tables and their binary search, entity keys and boundary policies, channel tags and their
    predicates.

  \<^item> \<open>LocAccrual\<close>, \<open>Ledger\<close>, \<open>LedgerFacts\<close>, \<open>LedgerProps\<close>, \<open>LedgerClaims\<close>
    (\<open>transactions/clearing\<close>): the interest tracker with its lazy queue, refined against a scan
    of every slot, and the ledger's decisions, postings, fees and restore.

  \<^item> \<open>Pcg\<close>, \<open>Sampling\<close>, \<open>PcgPeriod\<close>, \<open>RandomClaims\<close> (\<open>primitives/random\<close>): the PCG64 engine on
    128-bit words, both arithmetic branches, its period, and the samplers of \<open>rng.cpp\<close>.

  \<^item> \<open>Blake2b\<close>, \<open>BlakeFacts\<close>, \<open>Seed\<close>, \<open>SeedClaims\<close> (\<open>primitives/crypto\<close>, \<open>random/seed.hpp\<close>,
    \<open>random/factory.hpp\<close>, \<open>hashing\<close>): the streaming hash with its buffer and byte counter, the
    seed keys, the factory of named streams, FNV-1a. RFC 7693 is stated as a function of the whole
    message, and the streaming code is proved to compute it for any pieces.

  \<^item> \<open>Rows\<close>, \<open>RowsClaims\<close> (\<open>transactions/record.hpp\<close>, \<open>entities/infra\<close>,
    \<open>transfers/legit/ledger/streams.hpp\<close>): the row, its order, and the sorted views kept by merging.

  \<^item> \<open>Replay\<close>, \<open>ReplayFacts\<close>, \<open>ReplayOps\<close>, \<open>ReplayChunks\<close>, \<open>LedgerReplay\<close>, \<open>ReplayClaims\<close>
    (\<open>transfers/legit/ledger/posting.cpp\<close>, \<open>pipeline/stages/transfers/ledger_replay.cpp\<close>): the
    pending queue, the search for a cure and its retries, drops and declines, the fee budget, and
    the replay of a run in one pass or chunk by chunk, which give the same rows.

  \<^item> \<open>Calendar\<close>, \<open>Months\<close>, \<open>Validate\<close>, \<open>Schedule\<close>, \<open>TimeClaims\<close> (\<open>primitives/time\<close>,
    \<open>primitives/validate\<close>, \<open>pipeline/chunk/schedule\<close>): dates and instants, month arithmetic, the
    checks of settings, the partition of a run window. \<open>Almanac\<close>, \<open>AlmanacFacts\<close>,
    \<open>AlmanacClaims\<close> (\<open>primitives/time/almanac\<close>): holidays, pay dates and the cached queries.

  \<^item> \<open>Flush\<close>, \<open>FlushClaims\<close> (\<open>pipeline/chunk/sink.hpp\<close>, \<open>flush.hpp\<close>): the sink contract as a
    locale, the two sinks of the header, and the functions that feed a sink span by span.

  \<^item> \<open>Cursor\<close>, \<open>Records\<close>, \<open>Spool\<close>, \<open>SpoolFacts\<close>, \<open>SpoolClaims\<close>
    (\<open>pipeline/stages/transfers/window_sources\<close>, \<open>binary_spool\<close>): cursors over rows in replay
    order, the 66-byte record of a row, and the candidate spool that writes records through a
    buffer to a file and reads them back.

  \<^item> \<open>Driver\<close>, \<open>DriverFacts\<close>, \<open>DriverPhaseA\<close>, \<open>DriverDemo\<close>, \<open>DriverClaims\<close>
    (\<open>windowed_driver\<close>, \<open>windowed_run.cpp\<close>): the streaming engine. Phase A settles the generated
    rows span by span, Phase B replays its candidates with the fraud rows; the lemmas show that
    the spans are those of the chunked replay of \<open>LedgerReplay\<close>, so that a windowed run is the
    authoritative two-stage replay whichever spool is between the phases.

  \<^item> \<open>Screening\<close>, \<open>ScreeningFacts\<close>, \<open>BaseRuns\<close>, \<open>ScreeningClaims\<close>
    (\<open>transactions/clearing/screening.hpp\<close>, \<open>activity/spending/replay_source.hpp\<close>,
    \<open>replay_spool.hpp\<close>, \<open>base_run_set.hpp\<close>): the base stream that the spending screen replays, resident
    or from a file of 37-byte records, and its audit view built in bounded runs.

  \<^item> \<open>Workers\<close>, \<open>WorkersClaims\<close>, \<open>SimState\<close>, \<open>SimStateFacts\<close>, \<open>SimClaims\<close>
    (\<open>activity/spending/simulator\<close>, \<open>primitives/utils/groups.hpp\<close>): the worker pool as a transition
    system, the split of the work, the run state with its payday counters, the payday index.

  \<^item> \<open>Endpoints\<close>, \<open>EndpointsFacts\<close> (\<open>entities/infra\<close>, \<open>transactions/factory.hpp\<close>): tenures, the
    sticky router of devices and addresses, and the factory that turns a draft into a row.

  \<^item> \<open>CardTerms\<close>, \<open>CardSession\<close>, \<open>CardDriver\<close> (\<open>transfers/channels/credit_cards\<close>): closes and due
    dates, the balance integral, sampled payments and disputes; a card's session with its pending
    postings; the driver that feeds purchases to the cards and bills them day by day.
    \<open>CardFacts\<close>, \<open>CardRows\<close>, \<open>CardQueue\<close>, \<open>CardDay\<close>, \<open>CardBilling\<close>, \<open>CardClaims\<close>: the closes of a
    window, the dates of what a card books, the queue of unread purchases, and a day's billing.

  \<^item> \<open>SpendRun\<close> (\<open>activity/spending/simulator/day_driver.cpp\<close>, \<open>driver.cpp\<close>, \<open>session.cpp\<close>): a day of
    the spending simulator, the retained run, and the windowed session that streams rows out.
    \<open>SpendFacts\<close>, \<open>SpendSessions\<close>: the session gives the rows of one run.

  \<^item> \<open>Spenders\<close>, \<open>Payments\<close>, \<open>Dynamics\<close>, \<open>DynamicsFacts\<close>, \<open>Planner\<close> (\<open>activity/spending/actors\<close>,
    \<open>liquidity\<close>, \<open>routing\<close>, \<open>dynamics\<close>, \<open>spenders\<close>, \<open>run_planner.cpp\<close>, \<open>math\<close>): what the emission loop
    computes for a spender, the payment channels, the behaviour of the population from day to day,
    and the plan of a run.

  \<^item> \<open>Emission\<close>, \<open>EmissionFacts\<close>, \<open>EmissionClaims\<close> (\<open>loop.cpp\<close>,
    \<open>spender_emission_driver.cpp\<close>): the attempts of a person-day, the workers' buffers and the settlement of a
    day; a day is one pass over the spenders and one settlement, and the engine keeps the contract
    under which the session was proved.

  State and effects. A class is a record and a method a function that returns it updated; the
  liquidity callback of the ledger is the list of events a posting emits; an exception is a value
  of \<open>cxx_error\<close> (its \<open>Unmodelled\<close> marks a value with no enumerator, which no lemma reaches); a pointer that may be null is an \<open>option\<close>. Loops are structural recursions or
  functions with a proved measure. A loop that the types alone do not bound (rejection sampling,
  the unbounded range of month starts, the search for a business day) is a
  \<open>partial_function (option)\<close> where \<open>None\<close> means that it never returns, and a theorem shows when it
  does; there is no fuel. Integers whose wrap-around matters are words; epoch seconds are \<open>int\<close>,
  because the program's instants stay far from the 64-bit limits.

  Interfaces are locales interpreted on the model: the priority queue on the tracker's billing
  queue and on the replay's pending queue, the row sink on the null sink and on the tee, the
  schedule cursor on the precomputed cursor and on the spool's, and Phase B over two cursors on
  the candidates in memory and in the file, the replay source on the resident rows and on the disk spool,
  the emission of a day on the engine of \<open>Emission\<close>.

  The lemmas show, in this order: invariants of the ledger under every sequence of its operations
  and its decisions on every branch; the tracker against its scan; unbiased and terminating
  sampling and the period of the engine; that a chunked replay is the one-pass replay, that every
  due row is decided and counted, and that fee rows respect the daily cap; the order of rows; the
  calendar's round trips and the partition of a window; the hash, the seeds, the almanac and the
  flush; the spool's round trip and the windowed run's equality with the chunked replays.

  Not modelled: the generators of people, accounts, income, relationships and fraud, which are random
  choices over floating-point models and large tables; the samplers of
  \<open>primitives/random/distributions\<close> and the amount models, the market's monthly evolution, favourites,
  gift cards and remote payees, which are arguments of the emission; the exporters and database code, which are input
  and output; the application's command line. The windowed driver takes the session, the sources
  and the fraud injector as arguments; what an exception leaves in a driver or a spool is not
  modelled. The beta sampler and the era's price scale are arguments of the card model.
\<close>

end
